(* ===== verification/Prelude.thy ===== *)
theory Prelude
  imports Main "HOL-Library.Word"
begin

text \<open>
  Shared vocabulary of the development.

  \<^item> The machine integers of the sources: \<open>u8\<close>, \<open>u32\<close>, \<open>u64\<close> are HOL words, so
    that \<open>+\<close> and \<open>-\<close> wrap as \<open>uint8_t\<close>, \<open>uint32_t\<close>, \<open>uint64_t\<close> do.
  \<^item> The flat byte memory of the reviewed native target: an address is a natural number,
    \<open>NULL\<close> is \<open>0\<close>, and a memory maps every address to a byte. \<open>uintptr_t\<close> values are
    addresses up to \<open>UINTPTR_MAX\<close>.
  \<^item> \<open>memcpy\<close>, \<open>memset\<close> to zero and a byte store, with the lemmas that say which bytes
    they change (collection \<open>mem_simps\<close>) and which ranges they keep.
  \<^item> Generic facts on words, on \<open>List.find\<close> over index ranges and on swapping two list
    entries, used by several components.
\<close>

unbundle bit_operations_syntax

named_theorems mem_simps \<open>reads of a memory after a store\<close>
named_theorems word_nat_simps \<open>word comparisons and sums as facts on naturals\<close>

type_synonym u8 = "8 word"
type_synonym u32 = "32 word"
type_synonym u64 = "64 word"
type_synonym addr = nat
type_synonym mem = "addr \<Rightarrow> u8"

abbreviation (input) NULL :: addr where
  "NULL \<equiv> 0"

definition UINTPTR_MAX :: nat where
  "UINTPTR_MAX = 2 ^ 64 - 1"

section \<open>Words\<close>

lemmas word_to_nat = word_le_nat_alt word_less_nat_alt word_unat_eq_iff

declare word_le_nat_alt [word_nat_simps] word_less_nat_alt [word_nat_simps]

lemma unat_lt_u32: "unat (x :: u32) < 4294967296"
  using unsigned_less [of x, where ?'a = nat] by simp

lemma unat_lt_u8: "unat (x :: u8) < 256"
  using unsigned_less [of x, where ?'a = nat] by simp

lemma unat_of_nat_u32 [simp]: "n < 4294967296 \<Longrightarrow> unat (of_nat n :: u32) = n"
  by (simp add: unat_of_nat take_bit_eq_mod)

lemma unat_add_u32:
  "unat (x :: u32) + unat y < 4294967296 \<Longrightarrow> unat (x + y) = unat x + unat y"
  by (simp add: unat_word_ariths)

lemma unat_sub_u32: "y \<le> x \<Longrightarrow> unat (x - y :: u32) = unat x - unat y"
  by (rule unat_sub)

lemma u32_of_nat_unat: "of_nat (unat x) = (x :: u32)"
  by simp

lemma u32_eq_0_iff: "(x :: u32) = 0 \<longleftrightarrow> unat x = 0"
  by (simp add: unat_eq_0)

section \<open>Memory\<close>

text \<open>\<open>memcpy (dst, src, n)\<close>. The source range is read before the destination is
  written; the callers of the C function establish that the ranges do not overlap.\<close>

definition mem_copy :: "mem \<Rightarrow> addr \<Rightarrow> addr \<Rightarrow> nat \<Rightarrow> mem" where
  "mem_copy m dst src n = (\<lambda>a. if dst \<le> a \<and> a < dst + n then m (src + (a - dst)) else m a)"

text \<open>\<open>memset (p, 0, n)\<close>.\<close>

definition mem_zero :: "mem \<Rightarrow> addr \<Rightarrow> nat \<Rightarrow> mem" where
  "mem_zero m p n = (\<lambda>a. if p \<le> a \<and> a < p + n then 0 else m a)"

text \<open>The contents of a byte array, stored from an address on.\<close>

definition mem_write :: "mem \<Rightarrow> addr \<Rightarrow> u8 list \<Rightarrow> mem" where
  "mem_write m p bs = (\<lambda>a. if p \<le> a \<and> a < p + length bs then bs ! (a - p) else m a)"

definition mem_bytes :: "mem \<Rightarrow> addr \<Rightarrow> nat \<Rightarrow> u8 list" where
  "mem_bytes m p n = map (\<lambda>i. m (p + i)) [0..<n]"

text \<open>Two address ranges that share no address.\<close>

definition ranges_disjoint :: "addr \<Rightarrow> nat \<Rightarrow> addr \<Rightarrow> nat \<Rightarrow> bool" where
  "ranges_disjoint a n b k \<longleftrightarrow> a + n \<le> b \<or> b + k \<le> a"

lemma ranges_disjoint_sym: "ranges_disjoint a n b k \<longleftrightarrow> ranges_disjoint b k a n"
  by (auto simp: ranges_disjoint_def)

lemma ranges_disjoint_mono:
  "ranges_disjoint a n b k \<Longrightarrow> n' \<le> n \<Longrightarrow> k' \<le> k \<Longrightarrow> ranges_disjoint a n' b k'"
  by (auto simp: ranges_disjoint_def)

lemma length_mem_bytes [simp]: "length (mem_bytes m p n) = n"
  by (simp add: mem_bytes_def)

lemma mem_bytes_0 [simp]: "mem_bytes m p 0 = []"
  by (simp add: mem_bytes_def)

lemma mem_bytes_Suc: "mem_bytes m p (Suc n) = mem_bytes m p n @ [m (p + n)]"
  by (simp add: mem_bytes_def)

lemma nth_mem_bytes [simp]: "i < n \<Longrightarrow> mem_bytes m p n ! i = m (p + i)"
  by (simp add: mem_bytes_def)

lemma take_mem_bytes [simp]: "take k (mem_bytes m p n) = mem_bytes m p (min k n)"
  by (rule nth_equalityI) auto

lemma mem_bytes_eqI:
  "(\<And>i. i < n \<Longrightarrow> m (p + i) = m' (p' + i)) \<Longrightarrow> mem_bytes m p n = mem_bytes m' p' n"
  by (auto simp: mem_bytes_def)

lemma mem_bytes_add: "mem_bytes m p (n + k) = mem_bytes m p n @ mem_bytes m (p + n) k"
  by (rule nth_equalityI) (auto simp: nth_append)

lemma mem_copy_0 [simp]: "mem_copy m dst src 0 = m"
  by (rule ext) (auto simp: mem_copy_def)

lemma mem_copy_in [mem_simps]:
  "dst \<le> a \<Longrightarrow> a < dst + n \<Longrightarrow> mem_copy m dst src n a = m (src + (a - dst))"
  by (simp add: mem_copy_def)

lemma mem_copy_out [mem_simps]:
  "a < dst \<or> dst + n \<le> a \<Longrightarrow> mem_copy m dst src n a = m a"
  by (auto simp: mem_copy_def)

lemma mem_write_in [mem_simps]:
  "p \<le> a \<Longrightarrow> a < p + length bs \<Longrightarrow> mem_write m p bs a = bs ! (a - p)"
  by (simp add: mem_write_def)

lemma mem_write_out [mem_simps]:
  "a < p \<or> p + length bs \<le> a \<Longrightarrow> mem_write m p bs a = m a"
  by (auto simp: mem_write_def)

lemma mem_bytes_copy_disjoint:
  "ranges_disjoint q k dst n \<Longrightarrow> mem_bytes (mem_copy m dst src n) q k = mem_bytes m q k"
  by (rule mem_bytes_eqI) (auto simp: ranges_disjoint_def mem_simps)

lemma mem_bytes_write_disjoint:
  "ranges_disjoint q k p (length bs) \<Longrightarrow> mem_bytes (mem_write m p bs) q k = mem_bytes m q k"
  by (rule mem_bytes_eqI) (auto simp: ranges_disjoint_def mem_simps)

lemma mem_bytes_copy_same [simp]: "mem_bytes (mem_copy m dst src n) dst n = mem_bytes m src n"
  by (rule mem_bytes_eqI) (simp add: mem_simps)

lemma mem_bytes_write_same [simp]: "mem_bytes (mem_write m p bs) p (length bs) = bs"
  by (rule nth_equalityI) (simp_all add: mem_simps)

text \<open>A memory that differs from another one at most inside a range.\<close>

definition mem_frame :: "addr \<Rightarrow> nat \<Rightarrow> mem \<Rightarrow> mem \<Rightarrow> bool" where
  "mem_frame p n m m' \<longleftrightarrow> (\<forall>a. a < p \<or> p + n \<le> a \<longrightarrow> m' a = m a)"

lemma mem_frame_refl [simp]: "mem_frame p n m m"
  by (simp add: mem_frame_def)

lemma mem_frame_trans: "mem_frame p n m m' \<Longrightarrow> mem_frame p n m' m'' \<Longrightarrow> mem_frame p n m m''"
  by (simp add: mem_frame_def)

lemma mem_frame_upd: "p \<le> a \<Longrightarrow> a < p + n \<Longrightarrow> mem_frame p n m (m(a := v))"
  by (auto simp: mem_frame_def)

lemma mem_frame_copy: "p \<le> dst \<Longrightarrow> dst + k \<le> p + n \<Longrightarrow> mem_frame p n m (mem_copy m dst src k)"
  by (auto simp: mem_frame_def mem_simps)

lemma mem_frame_mono: "mem_frame p n m m' \<Longrightarrow> n \<le> n' \<Longrightarrow> mem_frame p n' m m'"
  by (simp add: mem_frame_def)

lemma mem_bytes_frame:
  "mem_frame p n m m' \<Longrightarrow> ranges_disjoint q k p n \<Longrightarrow> mem_bytes m' q k = mem_bytes m q k"
  by (rule mem_bytes_eqI) (auto simp: mem_frame_def ranges_disjoint_def)

section \<open>Lists\<close>

text \<open>A C \<open>for\<close> loop that returns at the first index satisfying a condition is
  \<open>find P [0..<n]\<close>.\<close>

lemma find_upt_Some:
  "find P [0..<n] = Some i \<longleftrightarrow> i < n \<and> P i \<and> (\<forall>j<i. \<not> P j)"
  by (auto simp: find_Some_iff)

lemma find_upt_None: "find P [0..<n] = None \<longleftrightarrow> (\<forall>i<n. \<not> P i)"
  by (auto simp: find_None_iff)

text \<open>The pointer swap of the stream table.\<close>

definition list_swap :: "'a list \<Rightarrow> nat \<Rightarrow> nat \<Rightarrow> 'a list" where
  "list_swap xs i j = xs[j := xs ! i, i := xs ! j]"

lemma length_list_swap [simp]: "length (list_swap xs i j) = length xs"
  by (simp add: list_swap_def)

lemma nth_list_swap:
  "i < length xs \<Longrightarrow> j < length xs \<Longrightarrow> k < length xs \<Longrightarrow>
   list_swap xs i j ! k = (if k = i then xs ! j else if k = j then xs ! i else xs ! k)"
  by (auto simp: list_swap_def nth_list_update)

lemma set_list_swap [simp]:
  "i < length xs \<Longrightarrow> j < length xs \<Longrightarrow> set (list_swap xs i j) = set xs"
  unfolding list_swap_def by (subst set_swap) auto

lemma distinct_list_swap [simp]:
  "i < length xs \<Longrightarrow> j < length xs \<Longrightarrow> distinct (list_swap xs i j) \<longleftrightarrow> distinct xs"
  unfolding list_swap_def by (subst distinct_swap) auto

lemma nth_inj_distinct:
  "distinct xs \<Longrightarrow> i < length xs \<Longrightarrow> j < length xs \<Longrightarrow> xs ! i = xs ! j \<longleftrightarrow> i = j"
  by (simp add: nth_eq_iff_index_eq)

end
