(* ===== verification/StreamModel.thy ===== *)
theory StreamModel
  imports Prelude
begin

text \<open>
  The heap-independent DNS-over-QUIC framing machine of
  \<^verbatim>\<open>src/src/transport/DNS.QUIC.StreamModel.fst\<close>, executed by the stable and by the
  candidate implementation alike: the phases of one stream, the transition on a received
  fragment, the transition on FIN and the plan of which body bytes to copy.

  The specification \<open>doq_phase\<close> at the end reads the phase off all the bytes received so
  far; \<open>fragment_phase_refines\<close> shows that the machine computes it one fragment at a time,
  however the bytes are cut.
\<close>

section \<open>Phases\<close>

text \<open>The constructors of \<^verbatim>\<open>stream_phase\<close>. The refinement \<open>expected \<le> 65535\<close> of the source
  type is the predicate \<open>phase_bounded\<close>.\<close>

datatype model_phase =
    Done
  | ReadingLength
  | ReadingLengthHigh u8
  | ReadingMessage u32 u32
  | AwaitingFin u32
  | Processing u32

fun phase_bounded :: "model_phase \<Rightarrow> bool" where
  "phase_bounded (ReadingMessage expected current) \<longleftrightarrow> expected \<le> 65535"
| "phase_bounded (AwaitingFin expected) \<longleftrightarrow> expected \<le> 65535"
| "phase_bounded (Processing expected) \<longleftrightarrow> expected \<le> 65535"
| "phase_bounded _ \<longleftrightarrow> True"

fun valid_phase :: "model_phase \<Rightarrow> bool" where
  "valid_phase (ReadingMessage expected current) \<longleftrightarrow> 12 \<le> expected \<and> current < expected"
| "valid_phase (AwaitingFin expected) \<longleftrightarrow> 12 \<le> expected"
| "valid_phase (Processing expected) \<longleftrightarrow> 12 \<le> expected"
| "valid_phase _ \<longleftrightarrow> True"

section \<open>Transitions\<close>

definition u32_from_be_u16_bytes :: "u8 \<Rightarrow> u8 \<Rightarrow> u32" where
  "u32_from_be_u16_bytes hi lo = push_bit 8 (ucast hi) + ucast lo"

definition body_bytes_after_prefix :: "u32 \<Rightarrow> u32" where
  "body_bytes_after_prefix len = (if len \<ge> 2 then len - 2 else 0)"

definition body_bytes_after_stored_prefix :: "u32 \<Rightarrow> u32" where
  "body_bytes_after_stored_prefix len = (if len \<ge> 1 then len - 1 else 0)"

definition advance_message :: "u32 \<Rightarrow> u32 \<Rightarrow> u32 \<Rightarrow> model_phase" where
  "advance_message expected current incoming =
     (let total_len = current + incoming in
      if total_len \<ge> expected then AwaitingFin expected
      else ReadingMessage expected total_len)"

definition remaining_message :: "u32 \<Rightarrow> u32 \<Rightarrow> u32" where
  "remaining_message expected current =
     (if current \<ge> expected then 0 else expected - current)"

definition advance_message_checked :: "u32 \<Rightarrow> u32 \<Rightarrow> u32 \<Rightarrow> model_phase" where
  "advance_message_checked expected current incoming =
     (let remaining = remaining_message expected current in
      if expected < 12 \<or> current > expected \<or> incoming > remaining then Done
      else advance_message expected current incoming)"

definition advance_body_phase :: "model_phase \<Rightarrow> u32 \<Rightarrow> model_phase" where
  "advance_body_phase phase incoming =
     (case phase of
        ReadingMessage expected current \<Rightarrow> advance_message_checked expected current incoming
      | AwaitingFin _ \<Rightarrow> if incoming > 0 then Done else phase
      | Processing _ \<Rightarrow> if incoming > 0 then Done else phase
      | _ \<Rightarrow> Done)"

definition fragment_phase :: "model_phase \<Rightarrow> u32 \<Rightarrow> u8 \<Rightarrow> u8 \<Rightarrow> model_phase" where
  "fragment_phase phase len first second =
     (case phase of
        ReadingLengthHigh hi \<Rightarrow>
          if len \<ge> 1 then
            advance_message_checked (u32_from_be_u16_bytes hi first) 0
              (body_bytes_after_stored_prefix len)
          else phase
      | ReadingLength \<Rightarrow>
          if len \<ge> 2 then
            advance_message_checked (u32_from_be_u16_bytes first second) 0
              (body_bytes_after_prefix len)
          else if len = 1 then ReadingLengthHigh first else phase
      | _ \<Rightarrow> advance_body_phase phase len)"

definition finish_stream_phase :: "model_phase \<Rightarrow> model_phase" where
  "finish_stream_phase phase =
     (case phase of
        AwaitingFin expected \<Rightarrow> Processing expected
      | Processing _ \<Rightarrow> phase
      | _ \<Rightarrow> Done)"

definition finish_doq_phase :: "model_phase \<Rightarrow> u8 \<Rightarrow> u8 \<Rightarrow> model_phase" where
  "finish_doq_phase phase id_hi id_lo =
     (if id_hi = 0 \<and> id_lo = 0 then finish_stream_phase phase else Done)"

section \<open>Copy plan\<close>

record copy_plan =
  source_offset :: u32
  destination_offset :: u32
  copy_count :: u32

definition bounded_copy_len :: "u32 \<Rightarrow> u32 \<Rightarrow> u32" where
  "bounded_copy_len available wanted = (if available < wanted then available else wanted)"

definition fragment_copy_plan :: "model_phase \<Rightarrow> u32 \<Rightarrow> u8 \<Rightarrow> u8 \<Rightarrow> copy_plan" where
  "fragment_copy_plan phase len first second =
     (let empty = \<lparr>source_offset = 0, destination_offset = 0, copy_count = 0\<rparr> in
      case phase of
        ReadingLengthHigh hi \<Rightarrow>
          if len \<ge> 1 then
            let expected = u32_from_be_u16_bytes hi first in
            \<lparr>source_offset = 1, destination_offset = 0,
             copy_count = bounded_copy_len (body_bytes_after_stored_prefix len) expected\<rparr>
          else empty
      | ReadingLength \<Rightarrow>
          if len \<ge> 2 then
            let expected = u32_from_be_u16_bytes first second in
            \<lparr>source_offset = 2, destination_offset = 0,
             copy_count = bounded_copy_len (body_bytes_after_prefix len) expected\<rparr>
          else empty
      | ReadingMessage expected current \<Rightarrow>
          if current < expected then
            \<lparr>source_offset = 0, destination_offset = current,
             copy_count = bounded_copy_len len (remaining_message expected current)\<rparr>
          else empty
      | _ \<Rightarrow> empty)"

section \<open>Arithmetic of the transitions\<close>

lemma unat_u32_from_be_u16_bytes:
  "unat (u32_from_be_u16_bytes hi lo) = unat hi * 256 + unat lo"
proof -
  have hi: "unat (push_bit 8 (ucast hi :: u32)) = unat hi * 256"
    using unat_lt_u8 [of hi]
    by (simp add: push_bit_eq_mult unat_word_ariths unsigned_ucast_eq take_bit_eq_mod)
  have lo: "unat (ucast lo :: u32) = unat lo"
    using unat_lt_u8 [of lo] by (simp add: unsigned_ucast_eq take_bit_eq_mod)
  show ?thesis
    unfolding u32_from_be_u16_bytes_def
    using unat_lt_u8 [of hi] unat_lt_u8 [of lo] by (subst unat_add_u32) (auto simp: hi lo)
qed

lemma unat_u32_from_be_u16_bytes_le: "unat (u32_from_be_u16_bytes hi lo) \<le> 65535"
  using unat_lt_u8 [of hi] unat_lt_u8 [of lo] by (simp add: unat_u32_from_be_u16_bytes)

lemma u32_from_be_u16_bytes_le: "u32_from_be_u16_bytes hi lo \<le> 65535"
  using unat_u32_from_be_u16_bytes_le [of hi lo] by (simp add: word_le_nat_alt)

lemma unat_remaining_message [simp]:
  "unat (remaining_message expected current) = unat expected - unat current"
  by (auto simp: remaining_message_def word_le_nat_alt unat_sub)

lemma unat_body_bytes_after_prefix [simp]:
  "unat (body_bytes_after_prefix len) = unat len - 2"
  by (auto simp: body_bytes_after_prefix_def word_le_nat_alt unat_sub)

lemma unat_body_bytes_after_stored_prefix [simp]:
  "unat (body_bytes_after_stored_prefix len) = unat len - 1"
  by (auto simp: body_bytes_after_stored_prefix_def word_le_nat_alt unat_sub)

lemma unat_bounded_copy_len [simp]:
  "unat (bounded_copy_len available wanted) = min (unat available) (unat wanted)"
  by (auto simp: bounded_copy_len_def word_less_nat_alt)

text \<open>The transition on body bytes, over naturals.\<close>

lemma advance_message_checked_eq:
  "advance_message_checked expected current incoming =
     (if unat expected < 12 \<or> unat expected < unat current
         \<or> unat expected - unat current < unat incoming then Done
      else if unat current + unat incoming = unat expected then AwaitingFin expected
      else ReadingMessage expected (of_nat (unat current + unat incoming)))"
proof (cases "unat expected < 12 \<or> unat expected < unat current
         \<or> unat expected - unat current < unat incoming")
  case True
  then show ?thesis
    by (auto simp: advance_message_checked_def Let_def word_less_nat_alt)
next
  case False
  then have "unat current + unat incoming < 4294967296"
    using unat_lt_u32 [of expected] by linarith
  then have sum: "unat (current + incoming) = unat current + unat incoming"
    by (rule unat_add_u32)
  show ?thesis
    using False
    by (auto simp: advance_message_checked_def advance_message_def Let_def word_less_nat_alt
        word_le_nat_alt sum)
qed

lemma phase_bounded_advance [simp]:
  "expected \<le> 65535 \<Longrightarrow> phase_bounded (advance_message_checked expected current incoming)"
  by (simp add: advance_message_checked_def advance_message_def Let_def)

lemma valid_phase_advance [simp]: "valid_phase (advance_message_checked expected current incoming)"
proof -
  have "unat expected - unat current \<ge> unat incoming \<Longrightarrow> unat current \<le> unat expected \<Longrightarrow>
      unat current + unat incoming \<noteq> unat expected \<Longrightarrow>
      of_nat (unat current + unat incoming) < expected"
    using unat_lt_u32 [of expected] by (simp add: word_less_nat_alt del: of_nat_add)
  then show ?thesis
    by (auto simp: advance_message_checked_eq word_le_nat_alt not_less simp del: of_nat_add)
qed

section \<open>Invariants of the machine\<close>

lemma fragment_phase_bounded:
  "phase_bounded phase \<Longrightarrow> phase_bounded (fragment_phase phase len first second)"
  by (auto simp: fragment_phase_def advance_body_phase_def u32_from_be_u16_bytes_le
      split: model_phase.splits)

lemma fragment_phase_valid:
  "valid_phase phase \<Longrightarrow> valid_phase (fragment_phase phase len first second)"
  by (auto simp: fragment_phase_def advance_body_phase_def split: model_phase.splits)

lemma finish_doq_phase_bounded:
  "phase_bounded phase \<Longrightarrow> phase_bounded (finish_doq_phase phase hi lo)"
  by (auto simp: finish_doq_phase_def finish_stream_phase_def split: model_phase.splits)

lemma finish_doq_phase_valid:
  "valid_phase phase \<Longrightarrow> valid_phase (finish_doq_phase phase hi lo)"
  by (auto simp: finish_doq_phase_def finish_stream_phase_def split: model_phase.splits)

lemma fragment_phase_Done [simp]: "fragment_phase Done len first second = Done"
  by (simp add: fragment_phase_def advance_body_phase_def)

lemma finish_doq_phase_Done [simp]: "finish_doq_phase Done hi lo = Done"
  by (simp add: finish_doq_phase_def finish_stream_phase_def)

lemma finish_doq_phase_Processing:
  "finish_doq_phase phase hi lo = Processing n \<longleftrightarrow>
     hi = 0 \<and> lo = 0 \<and> (phase = AwaitingFin n \<or> phase = Processing n)"
  by (auto simp: finish_doq_phase_def finish_stream_phase_def split: model_phase.splits)

text \<open>The plan reads inside the fragment and writes inside the message buffer.\<close>

lemma min_prefix_le: "min k (unat (u32_from_be_u16_bytes hi lo)) \<le> 65535"
  using unat_u32_from_be_u16_bytes_le by (rule min.coboundedI2)

lemma fragment_copy_plan_source:
  "unat (source_offset (fragment_copy_plan phase len first second))
     + unat (copy_count (fragment_copy_plan phase len first second)) \<le> unat len"
  by (auto simp: fragment_copy_plan_def Let_def word_le_nat_alt min_def split: model_phase.splits)

lemma fragment_copy_plan_destination:
  "phase_bounded phase \<Longrightarrow>
   unat (destination_offset (fragment_copy_plan phase len first second))
     + unat (copy_count (fragment_copy_plan phase len first second)) \<le> 65535"
  by (auto simp: fragment_copy_plan_def Let_def word_to_nat min_prefix_le
      split: model_phase.splits)

section \<open>Specification: the phase of a byte sequence\<close>

text \<open>All the bytes received on the stream so far determine the phase: two bytes of
  big-endian length, then the message. A length below the DNS header size and bytes past
  the announced end are protocol errors.\<close>

fun doq_phase :: "u8 list \<Rightarrow> model_phase" where
  "doq_phase [] = ReadingLength"
| "doq_phase [hi] = ReadingLengthHigh hi"
| "doq_phase (hi # lo # body) =
     (let n = unat hi * 256 + unat lo in
      if n < 12 \<or> n < length body then Done
      else if length body = n then AwaitingFin (of_nat n)
      else ReadingMessage (of_nat n) (of_nat (length body)))"

definition byte_at :: "u8 list \<Rightarrow> nat \<Rightarrow> u8" where
  "byte_at bs i = (if i < length bs then bs ! i else 0)"

lemma u32_from_be_u16_bytes_of_nat:
  "u32_from_be_u16_bytes hi lo = of_nat (unat hi * 256 + unat lo)"
  by (simp add: unat_u32_from_be_u16_bytes [symmetric] del: of_nat_add of_nat_mult)

lemma prefix_length_le: "unat (hi :: u8) * 256 + unat (lo :: u8) \<le> 65535"
  using unat_lt_u8 [of hi] unat_lt_u8 [of lo] by simp

lemma unat_prefix_length [simp]:
  "unat (of_nat (unat (hi :: u8) * 256 + unat (lo :: u8)) :: u32) = unat hi * 256 + unat lo"
  using prefix_length_le [of hi lo] by (simp del: of_nat_add of_nat_mult)

lemma advance_from_prefix:
  assumes "unat len = length body"
  shows "advance_message_checked (u32_from_be_u16_bytes hi lo) 0 len = doq_phase (hi # lo # body)"
  using assms
  by (auto simp: advance_message_checked_eq unat_u32_from_be_u16_bytes
      u32_from_be_u16_bytes_of_nat Let_def simp del: of_nat_add of_nat_mult)

lemma advance_body_refines:
  assumes "unat len = length chunk"
  shows "advance_body_phase (doq_phase (hi # lo # body)) len = doq_phase (hi # lo # body @ chunk)"
  using assms prefix_length_le [of hi lo]
  by (auto simp: advance_body_phase_def advance_message_checked_eq Let_def word_less_nat_alt
      simp del: of_nat_add of_nat_mult)

lemma fragment_phase_refines:
  assumes "unat len = length chunk"
  shows "fragment_phase (doq_phase bs) len (byte_at chunk 0) (byte_at chunk 1) = doq_phase (bs @ chunk)"
proof (cases bs rule: doq_phase.cases)
  case 1
  show ?thesis
  proof (cases chunk rule: doq_phase.cases)
    case (3 hi lo body)
    then have "unat (body_bytes_after_prefix len) = length body"
      using assms by simp
    from advance_from_prefix [OF this, of hi lo] 1 3 assms show ?thesis
      by (simp add: fragment_phase_def byte_at_def word_le_nat_alt del: doq_phase.simps(3))
  qed (use 1 assms in \<open>simp_all add: fragment_phase_def byte_at_def word_to_nat\<close>)
next
  case (2 hi)
  show ?thesis
  proof (cases chunk)
    case (Cons lo body)
    then have "unat (body_bytes_after_stored_prefix len) = length body"
      using assms by simp
    from advance_from_prefix [OF this, of hi lo] 2 Cons assms show ?thesis
      by (simp add: fragment_phase_def byte_at_def word_le_nat_alt del: doq_phase.simps(3))
  qed (use 2 assms in \<open>simp add: fragment_phase_def word_to_nat\<close>)
next
  case (3 hi lo body)
  then have "fragment_phase (doq_phase bs) len a b = advance_body_phase (doq_phase bs) len" for len a b
    by (auto simp: fragment_phase_def Let_def split: model_phase.splits if_splits)
  with 3 show ?thesis
    using advance_body_refines [OF assms] by (simp del: doq_phase.simps(3))
qed

lemma doq_phase_bounded: "phase_bounded (doq_phase bs)"
  by (cases bs rule: doq_phase.cases)
    (auto simp: Let_def word_le_nat_alt prefix_length_le simp del: of_nat_add of_nat_mult)

lemma doq_phase_length: "doq_phase bs \<noteq> Done \<Longrightarrow> length bs \<le> 65537"
proof (cases bs rule: doq_phase.cases)
  case (3 hi lo body)
  assume "doq_phase bs \<noteq> Done"
  with 3 have "length body \<le> unat hi * 256 + unat lo"
    by (auto simp: Let_def split: if_splits)
  with 3 show ?thesis using prefix_length_le [of hi lo] by simp
qed auto

lemma doq_phase_prefix_Done:
  assumes "doq_phase bs = Done"
  shows "doq_phase (bs @ chunk) = Done"
  using assms by (cases bs rule: doq_phase.cases) (auto simp: Let_def split: if_splits)

text \<open>On bytes that stay inside the announced message the plan copies exactly the new body
  bytes to the place where they belong.\<close>

lemma copy_plan_refines:
  assumes len: "unat len = length chunk" and "doq_phase (bs @ chunk) \<noteq> Done"
    and "plan = fragment_copy_plan (doq_phase bs) len (byte_at chunk 0) (byte_at chunk 1)"
  shows "unat (copy_count plan) = length (bs @ chunk) - 2 - (length bs - 2)"
    and "0 < copy_count plan \<Longrightarrow> unat (source_offset plan) = 2 - length bs"
    and "0 < copy_count plan \<Longrightarrow> unat (destination_offset plan) = length bs - 2"
proof -
  note plan = assms(3) [unfolded fragment_copy_plan_def]
  have "unat (copy_count plan) = length (bs @ chunk) - 2 - (length bs - 2) \<and>
      (0 < copy_count plan \<longrightarrow> unat (source_offset plan) = 2 - length bs
        \<and> unat (destination_offset plan) = length bs - 2)"
  proof (cases bs rule: doq_phase.cases)
    case 1
    with assms(2) show ?thesis
      by (cases chunk rule: doq_phase.cases)
        (auto simp: plan Let_def word_le_nat_alt len byte_at_def unat_u32_from_be_u16_bytes
          split: if_splits)
  next
    case (2 hi)
    with assms(2) show ?thesis
      by (cases chunk)
        (auto simp: plan Let_def word_le_nat_alt len byte_at_def unat_u32_from_be_u16_bytes
          split: if_splits)
  next
    case (3 hi lo body)
    with assms(2) prefix_length_le [of hi lo] show ?thesis
      by (auto simp: plan Let_def word_less_nat_alt len
          simp del: of_nat_add of_nat_mult split: if_splits)
  qed
  then show "unat (copy_count plan) = length (bs @ chunk) - 2 - (length bs - 2)"
    and "0 < copy_count plan \<Longrightarrow> unat (source_offset plan) = 2 - length bs"
    and "0 < copy_count plan \<Longrightarrow> unat (destination_offset plan) = length bs - 2"
    by blast+
qed

end
