(* ===== verification/StreamMapping.thy ===== *)
theory StreamMapping
  imports StreamModel
begin

text \<open>
  The stable per-stream state and its two operations, from
  \<^verbatim>\<open>src/src/transport/DNS.QUIC.StreamMapping.fst\<close> and
  \<^verbatim>\<open>DNS.QUIC.MsQuicIngress.fst\<close>: the public phase type with its conversions to and from the
  shared model, the stream context, accumulation of a received fragment into the message
  buffer and the FIN transition.

  \<open>stream_holds bs ctx m\<close> says that the context and the memory are what the byte
  sequence \<open>bs\<close> leaves behind; \<open>handle_stream_data_holds\<close> keeps it, for any way the
  bytes arrive in fragments.
\<close>

section \<open>Phases and context\<close>

datatype stream_phase =
    S_ReadingLength
  | S_ReadingLengthHigh u8
  | S_ReadingMessage "u32 \<times> u32"
  | S_AwaitingFin u32
  | S_Processing u32
  | S_Done

fun to_model :: "stream_phase \<Rightarrow> model_phase" where
  "to_model S_ReadingLength = ReadingLength"
| "to_model (S_ReadingLengthHigh hi) = ReadingLengthHigh hi"
| "to_model (S_ReadingMessage (expected, current)) = ReadingMessage expected current"
| "to_model (S_AwaitingFin expected) = AwaitingFin expected"
| "to_model (S_Processing expected) = Processing expected"
| "to_model S_Done = Done"

fun from_model :: "model_phase \<Rightarrow> stream_phase" where
  "from_model ReadingLength = S_ReadingLength"
| "from_model (ReadingLengthHigh hi) = S_ReadingLengthHigh hi"
| "from_model (ReadingMessage expected current) = S_ReadingMessage (expected, current)"
| "from_model (AwaitingFin expected) = S_AwaitingFin expected"
| "from_model (Processing expected) = S_Processing expected"
| "from_model Done = S_Done"

lemma to_from_model [simp]: "to_model (from_model p) = p"
  by (cases p) auto

lemma from_to_model [simp]: "from_model (to_model p) = p"
  by (cases p rule: to_model.cases) auto

lemma to_model_inj: "to_model p = to_model q \<longleftrightarrow> p = q"
  by (metis from_to_model)

record stream_context =
  sc_id :: u64
  sc_phase :: stream_phase
  sc_buf :: addr

section \<open>Operations\<close>

definition stream_fragment_phase :: "stream_phase \<Rightarrow> u32 \<Rightarrow> u8 \<Rightarrow> u8 \<Rightarrow> stream_phase" where
  "stream_fragment_phase phase len first second =
     from_model (fragment_phase (to_model phase) len first second)"

definition next_stream_phase :: "stream_context \<Rightarrow> addr \<Rightarrow> u32 \<Rightarrow> mem \<Rightarrow> stream_phase" where
  "next_stream_phase ctx data len m =
     (let first = (if len > 0 then m data else 0);
          second = (if len > 1 then m (data + 1) else 0) in
      stream_fragment_phase (sc_phase ctx) len first second)"

definition stream_finish_doq_phase :: "stream_phase \<Rightarrow> u8 \<Rightarrow> u8 \<Rightarrow> stream_phase" where
  "stream_finish_doq_phase phase id_hi id_lo =
     from_model (finish_doq_phase (to_model phase) id_hi id_lo)"

definition handle_stream_fin :: "stream_context \<Rightarrow> mem \<Rightarrow> stream_phase \<times> stream_context" where
  "handle_stream_fin ctx m =
     (let hi = m (sc_buf ctx);
          lo = m (sc_buf ctx + 1);
          phase = stream_finish_doq_phase (sc_phase ctx) hi lo in
      (phase, ctx\<lparr>sc_phase := phase\<rparr>))"

definition copy_body_bytes :: "stream_context \<Rightarrow> addr \<Rightarrow> u32 \<Rightarrow> mem \<Rightarrow> mem" where
  "copy_body_bytes ctx data len m =
     (let first = (if len > 0 then m data else 0);
          second = (if len > 1 then m (data + 1) else 0);
          plan = fragment_copy_plan (to_model (sc_phase ctx)) len first second in
      if copy_count plan > 0 then
        mem_copy m (sc_buf ctx + unat (destination_offset plan))
          (data + unat (source_offset plan)) (unat (copy_count plan))
      else m)"

definition handle_stream_data ::
  "stream_context \<Rightarrow> addr \<Rightarrow> u32 \<Rightarrow> mem \<Rightarrow> stream_phase \<times> stream_context \<times> mem" where
  "handle_stream_data ctx data len m =
     (let phase = next_stream_phase ctx data len m;
          m' = copy_body_bytes ctx data len m;
          next_ctx = ctx\<lparr>sc_phase := phase\<rparr> in
      (phase, next_ctx, m'))"

text \<open>\<^verbatim>\<open>DNS.QUIC.MsQuicIngress.handle_authenticated_stream_fragment\<close>.\<close>

record authenticated_stream_fragment =
  msif_stream_id :: u64
  msif_data :: addr
  msif_len :: u32
  msif_fin :: bool

definition handle_authenticated_stream_fragment ::
  "stream_context \<Rightarrow> authenticated_stream_fragment \<Rightarrow> mem
     \<Rightarrow> stream_phase \<times> stream_context \<times> mem" where
  "handle_authenticated_stream_fragment ctx fragment m =
     (let (phase, ctx', m') = handle_stream_data ctx (msif_data fragment) (msif_len fragment) m in
      if msif_fin fragment then
        (let (phase', ctx'') = handle_stream_fin ctx' m' in (phase', ctx'', m'))
      else (phase, ctx', m'))"

section \<open>Footprint\<close>

lemma handle_stream_data_ctx:
  "handle_stream_data ctx data len m = (phase, ctx', m') \<Longrightarrow> ctx' = ctx\<lparr>sc_phase := phase\<rparr>"
  by (auto simp: handle_stream_data_def Let_def)

lemma copy_body_bytes_frame:
  assumes "phase_bounded (to_model (sc_phase ctx))"
  shows "mem_frame (sc_buf ctx) 65535 m (copy_body_bytes ctx data len m)"
proof -
  let ?plan = "fragment_copy_plan (to_model (sc_phase ctx)) len
      (if len > 0 then m data else 0) (if len > 1 then m (data + 1) else 0)"
  have "unat (destination_offset ?plan) + unat (copy_count ?plan) \<le> 65535"
    using assms by (rule fragment_copy_plan_destination)
  then have "mem_frame (sc_buf ctx) 65535 m
      (mem_copy m (sc_buf ctx + unat (destination_offset ?plan))
        (data + unat (source_offset ?plan)) (unat (copy_count ?plan)))"
    by (intro mem_frame_copy) auto
  then show ?thesis by (simp add: copy_body_bytes_def Let_def)
qed

lemma handle_stream_data_frame:
  assumes "handle_stream_data ctx data len m = (phase, ctx', m')"
    and "phase_bounded (to_model (sc_phase ctx))"
  shows "mem_frame (sc_buf ctx) 65535 m m'"
  using assms by (auto simp: handle_stream_data_def Let_def copy_body_bytes_frame)

section \<open>Accumulation\<close>

text \<open>The bytes of the message that the sequence \<open>bs\<close> has delivered.\<close>

definition stream_holds :: "u8 list \<Rightarrow> stream_context \<Rightarrow> mem \<Rightarrow> bool" where
  "stream_holds bs ctx m \<longleftrightarrow>
     to_model (sc_phase ctx) = doq_phase bs \<and>
     (doq_phase bs \<noteq> Done \<longrightarrow> mem_bytes m (sc_buf ctx) (length bs - 2) = drop 2 bs)"

lemma stream_holds_init: "sc_phase ctx = S_ReadingLength \<Longrightarrow> stream_holds [] ctx m"
  by (simp add: stream_holds_def)

lemma stream_holds_frame:
  assumes "stream_holds bs ctx m" and "mem_frame p n m m'"
    and "ranges_disjoint (sc_buf ctx) 65535 p n"
  shows "stream_holds bs ctx m'"
proof -
  have "mem_bytes m' (sc_buf ctx) k = mem_bytes m (sc_buf ctx) k" if "k \<le> 65535" for k
    by (rule mem_bytes_frame [OF assms(2)]) (rule ranges_disjoint_mono [OF assms(3) that order.refl])
  moreover have "doq_phase bs \<noteq> Done \<Longrightarrow> length bs - 2 \<le> 65535"
    using doq_phase_length [of bs] by simp
  ultimately show ?thesis using assms(1) by (simp add: stream_holds_def)
qed

lemma fragment_bytes:
  assumes "unat (len :: u32) = length chunk" and "mem_bytes m data (length chunk) = chunk"
  shows "(if len > 0 then m data else 0) = byte_at chunk 0"
    and "(if len > 1 then m (data + 1) else 0) = byte_at chunk 1"
proof -
  have nth: "i < length chunk \<Longrightarrow> m (data + i) = chunk ! i" for i
    using nth_mem_bytes [of i "length chunk" m data] assms(2) by simp
  show "(if len > 0 then m data else 0) = byte_at chunk 0"
    using assms(1) nth [of 0] by (auto simp: byte_at_def word_less_nat_alt)
  show "(if len > 1 then m (data + 1) else 0) = byte_at chunk 1"
    using assms(1) nth [of 1] by (auto simp: byte_at_def word_less_nat_alt)
qed

lemma mem_bytes_suffix:
  assumes "mem_bytes m data (length chunk) = chunk" and "s \<le> length chunk"
  shows "mem_bytes m (data + s) (length chunk - s) = drop s chunk"
proof -
  have "mem_bytes m data (s + (length chunk - s)) = chunk"
    using assms by simp
  then show ?thesis
    unfolding mem_bytes_add by (metis append_eq_conv_conj length_mem_bytes)
qed

lemma copy_body_bytes_accumulates:
  assumes holds: "stream_holds bs ctx m"
    and len: "unat len = length chunk" and chunk: "mem_bytes m data (length chunk) = chunk"
    and fits: "doq_phase (bs @ chunk) \<noteq> Done"
  shows "mem_bytes (copy_body_bytes ctx data len m) (sc_buf ctx) (length (bs @ chunk) - 2)
         = drop 2 (bs @ chunk)"
proof -
  define plan where "plan = fragment_copy_plan (to_model (sc_phase ctx)) len (byte_at chunk 0) (byte_at chunk 1)"
  define k where "k = length bs - 2"
  define s where "s = 2 - length bs"
  define c where "c = length (bs @ chunk) - 2 - k"
  have phase: "to_model (sc_phase ctx) = doq_phase bs"
    using holds by (simp add: stream_holds_def)
  note refines = copy_plan_refines [OF len fits plan_def [unfolded phase]]
  have count: "unat (copy_count plan) = c"
    using refines(1) by (simp add: c_def k_def)
  have old: "mem_bytes m (sc_buf ctx) k = drop 2 bs"
    using holds fits doq_phase_prefix_Done [of bs chunk] by (auto simp: stream_holds_def k_def)
  have copy: "copy_body_bytes ctx data len m =
      (if c = 0 then m else mem_copy m (sc_buf ctx + k) (data + s) c)"
    using count refines(2,3)
    unfolding copy_body_bytes_def fragment_bytes [OF len chunk] plan_def [symmetric] Let_def k_def s_def
    by (auto simp: word_less_nat_alt)
  show ?thesis
  proof (cases "c = 0")
    case True
    then have "length (bs @ chunk) - 2 = k" and "drop 2 (bs @ chunk) = drop 2 bs"
      by (auto simp: c_def k_def)
    with True copy old show ?thesis by simp
  next
    case False
    then have c: "c = length chunk - s" "s \<le> length chunk" "length (bs @ chunk) - 2 = k + c"
      by (auto simp: c_def k_def s_def)
    have "mem_bytes (mem_copy m (sc_buf ctx + k) (data + s) c) (sc_buf ctx) k = drop 2 bs"
      using old by (simp add: mem_bytes_copy_disjoint ranges_disjoint_def)
    moreover have "mem_bytes m (data + s) c = drop s chunk"
      using mem_bytes_suffix [OF chunk c(2)] c(1) by simp
    ultimately have "mem_bytes (mem_copy m (sc_buf ctx + k) (data + s) c) (sc_buf ctx) (k + c)
        = drop 2 bs @ drop s chunk"
      by (simp add: mem_bytes_add)
    with False copy c(3) show ?thesis by (simp add: s_def)
  qed
qed

theorem handle_stream_data_holds:
  assumes holds: "stream_holds bs ctx m"
    and len: "unat len = length chunk" and chunk: "mem_bytes m data (length chunk) = chunk"
    and run: "handle_stream_data ctx data len m = (phase, ctx', m')"
  shows "stream_holds (bs @ chunk) ctx' m'"
proof -
  have phase: "to_model (sc_phase ctx) = doq_phase bs"
    using holds by (simp add: stream_holds_def)
  have "next_stream_phase ctx data len m = from_model (doq_phase (bs @ chunk))"
    unfolding next_stream_phase_def fragment_bytes [OF len chunk] stream_fragment_phase_def phase Let_def
    by (simp only: fragment_phase_refines [OF len])
  then have "to_model (next_stream_phase ctx data len m) = doq_phase (bs @ chunk)"
    by simp
  with run copy_body_bytes_accumulates [OF holds len chunk] show ?thesis
    by (auto simp: stream_holds_def handle_stream_data_def Let_def)
qed

lemma handle_stream_fin_Processing:
  assumes fin: "handle_stream_fin ctx m = (S_Processing n, ctx')" and "stream_holds bs ctx m"
  shows "ctx' = ctx\<lparr>sc_phase := S_Processing n\<rparr>" and "doq_phase bs = AwaitingFin n"
    and "mem_bytes m (sc_buf ctx) (unat n) = drop 2 bs"
    and "m (sc_buf ctx) = 0" and "m (sc_buf ctx + 1) = 0"
proof -
  have phase: "to_model (sc_phase ctx) = doq_phase bs"
    using assms(2) by (simp add: stream_holds_def)
  have "stream_finish_doq_phase (sc_phase ctx) (m (sc_buf ctx)) (m (sc_buf ctx + 1)) = S_Processing n"
    and ctx': "ctx' = ctx\<lparr>sc_phase := S_Processing n\<rparr>"
    using fin by (auto simp: handle_stream_fin_def Let_def)
  then have "finish_doq_phase (doq_phase bs) (m (sc_buf ctx)) (m (sc_buf ctx + 1)) = Processing n"
    unfolding stream_finish_doq_phase_def phase by (metis to_from_model to_model.simps(5))
  then have "m (sc_buf ctx) = 0 \<and> m (sc_buf ctx + 1) = 0 \<and> doq_phase bs = AwaitingFin n"
    by (cases bs rule: doq_phase.cases) (auto simp: finish_doq_phase_Processing Let_def split: if_splits)
  moreover have "unat n = length bs - 2" if "doq_phase bs = AwaitingFin n"
    using that by (cases bs rule: doq_phase.cases)
      (auto simp: Let_def simp del: of_nat_add of_nat_mult split: if_splits)
  ultimately show "ctx' = ctx\<lparr>sc_phase := S_Processing n\<rparr>" and "doq_phase bs = AwaitingFin n"
    and "mem_bytes m (sc_buf ctx) (unat n) = drop 2 bs"
    and "m (sc_buf ctx) = 0" and "m (sc_buf ctx + 1) = 0"
    using ctx' assms(2) by (auto simp: stream_holds_def)
qed

section \<open>A sequence of fragments\<close>

text \<open>Repeated ingress calls on one stream.\<close>

fun handle_fragments :: "stream_context \<Rightarrow> (addr \<times> u32) list \<Rightarrow> mem \<Rightarrow> stream_context \<times> mem" where
  "handle_fragments ctx [] m = (ctx, m)"
| "handle_fragments ctx ((data, len) # rest) m =
     (let (phase, ctx', m') = handle_stream_data ctx data len m in handle_fragments ctx' rest m')"

definition fragment_bytes_of :: "mem \<Rightarrow> (addr \<times> u32) list \<Rightarrow> u8 list" where
  "fragment_bytes_of m frags = concat (map (\<lambda>(data, len). mem_bytes m data (unat len)) frags)"

lemma fragment_bytes_of_frame:
  assumes "mem_frame p n m m'" and "\<forall>(data, len)\<in>set frags. ranges_disjoint data (unat len) p n"
  shows "fragment_bytes_of m' frags = fragment_bytes_of m frags"
  unfolding fragment_bytes_of_def using assms(2)
  by (intro arg_cong [where f = concat] map_cong) (auto simp: mem_bytes_frame [OF assms(1)])

lemma handle_fragments_holds:
  assumes "stream_holds bs ctx m"
    and "\<forall>(data, len)\<in>set frags. ranges_disjoint data (unat len) (sc_buf ctx) 65535"
    and "handle_fragments ctx frags m = (ctx', m')"
  shows "stream_holds (bs @ fragment_bytes_of m frags) ctx' m' \<and> mem_frame (sc_buf ctx) 65535 m m' \<and>
    sc_buf ctx' = sc_buf ctx"
  using assms
proof (induction ctx frags m arbitrary: bs rule: handle_fragments.induct)
  case (1 ctx m)
  then show ?case by (simp add: fragment_bytes_of_def)
next
  case (2 ctx data len rest m)
  obtain phase ctx1 m1 where h: "handle_stream_data ctx data len m = (phase, ctx1, m1)"
    by (metis prod_cases3)
  let ?chunk = "mem_bytes m data (unat len)"
  have "phase_bounded (to_model (sc_phase ctx))"
    using "2.prems"(1) doq_phase_bounded by (simp add: stream_holds_def)
  then have frame: "mem_frame (sc_buf ctx) 65535 m m1" by (rule handle_stream_data_frame [OF h])
  have buf: "sc_buf ctx1 = sc_buf ctx" using handle_stream_data_ctx [OF h] by simp
  have "stream_holds (bs @ ?chunk) ctx1 m1"
    by (rule handle_stream_data_holds [OF "2.prems"(1) _ _ h]) simp_all
  moreover have "handle_fragments ctx1 rest m1 = (ctx', m')" using "2.prems"(3) h by simp
  ultimately have "stream_holds ((bs @ ?chunk) @ fragment_bytes_of m1 rest) ctx' m' \<and>
      mem_frame (sc_buf ctx1) 65535 m1 m' \<and> sc_buf ctx' = sc_buf ctx1"
    using "2.prems"(2) buf by (intro "2.IH" [OF h [symmetric]]) auto
  moreover have "fragment_bytes_of m1 rest = fragment_bytes_of m rest"
    using frame "2.prems"(2) by (intro fragment_bytes_of_frame) auto
  ultimately show ?case
    using buf mem_frame_trans [OF frame] by (simp add: fragment_bytes_of_def)
qed

section \<open>The FIN transition\<close>

lemma doq_phase_AwaitingFin:
  "doq_phase bs = AwaitingFin n \<longleftrightarrow>
     12 \<le> unat n \<and> length bs = unat n + 2 \<and> unat (bs ! 0) * 256 + unat (bs ! 1) = unat n"
proof (cases bs rule: doq_phase.cases)
  case (3 hi lo body)
  have eq: "of_nat k = n \<longleftrightarrow> k = unat n" if "k \<le> 65535" for k
    using that by (auto simp: word_unat_eq_iff)
  show ?thesis
    using 3 prefix_length_le [of hi lo] eq
    by (auto simp: Let_def simp del: of_nat_add of_nat_mult split: if_splits)
qed auto

lemma fin_processing_iff:
  assumes holds: "stream_holds bs ctx m"
  shows "handle_stream_fin ctx m = (S_Processing n, ctx\<lparr>sc_phase := S_Processing n\<rparr>) \<longleftrightarrow>
    12 \<le> unat n \<and> length bs = unat n + 2 \<and> unat (bs ! 0) * 256 + unat (bs ! 1) = unat n \<and>
    bs ! 2 = 0 \<and> bs ! 3 = 0"
proof -
  have bytes: "m (sc_buf ctx) = bs ! 2" "m (sc_buf ctx + 1) = bs ! 3" if "doq_phase bs = AwaitingFin n"
  proof -
    have n: "length bs = unat n + 2" "12 \<le> unat n" using that by (simp_all add: doq_phase_AwaitingFin)
    have "mem_bytes m (sc_buf ctx) (unat n) = drop 2 bs"
      using holds that n(1) by (simp add: stream_holds_def)
    then have "m (sc_buf ctx + i) = bs ! (i + 2)" if "i < unat n" for i
      using nth_mem_bytes [OF that, of m "sc_buf ctx"] that n(1) by (simp add: add.commute)
    from this [of 0] this [of 1] n(2) show "m (sc_buf ctx) = bs ! 2" "m (sc_buf ctx + 1) = bs ! 3"
      by (simp_all add: eval_nat_numeral)
  qed
  have phase: "sc_phase ctx = from_model (doq_phase bs)"
    using holds by (metis from_to_model stream_holds_def)
  show ?thesis
  proof
    assume fin: "handle_stream_fin ctx m = (S_Processing n, ctx\<lparr>sc_phase := S_Processing n\<rparr>)"
    note p = handle_stream_fin_Processing [OF fin holds]
    from p(2,4,5) bytes show "12 \<le> unat n \<and> length bs = unat n + 2 \<and>
        unat (bs ! 0) * 256 + unat (bs ! 1) = unat n \<and> bs ! 2 = 0 \<and> bs ! 3 = 0"
      by (simp add: doq_phase_AwaitingFin)
  next
    assume r: "12 \<le> unat n \<and> length bs = unat n + 2 \<and> unat (bs ! 0) * 256 + unat (bs ! 1) = unat n \<and>
        bs ! 2 = 0 \<and> bs ! 3 = 0"
    then have "doq_phase bs = AwaitingFin n" by (simp add: doq_phase_AwaitingFin)
    with bytes r phase show "handle_stream_fin ctx m = (S_Processing n, ctx\<lparr>sc_phase := S_Processing n\<rparr>)"
      by (simp add: handle_stream_fin_def stream_finish_doq_phase_def finish_doq_phase_def
          finish_stream_phase_def Let_def)
  qed
qed

end
