(* ===== verification/Worker.thy ===== *)
theory Worker
  imports StreamMapping "HOL-Library.Sublist"
begin

text \<open>
  The linked responder, \<^verbatim>\<open>src/src/concurrency/DNS.Worker.Minimal.fst\<close>: the scan of an
  uncompressed question name, the zero-ID rule, the validation of a question-only request
  and the three response constructors.

  The generated EverParse validator that the code calls is not part of the repository; it
  is the parameter \<open>check\<close>, and its contract (it accepts exactly the grammar
  \<^verbatim>\<open>dns_uncompressed_question\<close> of \<^verbatim>\<open>src/everparse/DNSProtocol.3d\<close>) is the locale
  \<open>question_validator\<close>.
\<close>

section \<open>Operations\<close>

definition noerror_response_flags_hi :: "u8 \<Rightarrow> u8" where
  "noerror_response_flags_hi request_flags_hi = 0x80 OR (request_flags_hi AND 0x79)"

definition noerror_response_flags_lo :: "u8 \<Rightarrow> u8" where
  "noerror_response_flags_lo request_flags_lo = request_flags_lo AND 0x10"

text \<open>The positions of the scan are naturals: the caller has checked \<open>request_len \<le> 271\<close>, so
  the 32-bit additions of the source do not wrap.\<close>

function scan_uncompressed_qname_length :: "addr \<Rightarrow> nat \<Rightarrow> nat \<Rightarrow> nat \<Rightarrow> mem \<Rightarrow> nat" where
  "scan_uncompressed_qname_length request_buffer request_len pos consumed m =
     (if pos \<ge> request_len then 0
      else
        let label_len = unat (m (request_buffer + pos)) in
        if label_len = 0 then
          if consumed < 255 then consumed + 1 else 0
        else if label_len > 63 then 0
        else
          let step = 1 + label_len;
              next_pos = pos + step;
              next_consumed = consumed + step in
          if next_pos > request_len \<or> next_consumed > 255 then 0
          else scan_uncompressed_qname_length request_buffer request_len next_pos next_consumed m)"
  by pat_completeness auto

termination
  by (relation "measure (\<lambda>(b, n, pos, c, m). n - pos)") auto

declare scan_uncompressed_qname_length.simps [simp del]

definition valid_doq_request_id :: "addr \<Rightarrow> u32 \<Rightarrow> mem \<Rightarrow> bool" where
  "valid_doq_request_id request_buffer request_len m =
     (if request_len < 12 then False
      else let hi = m request_buffer; lo = m (request_buffer + 1) in hi = 0 \<and> lo = 0)"

definition validate_minimal_uncompressed_question_request ::
  "(u32 \<Rightarrow> u8 list \<Rightarrow> u8) \<Rightarrow> addr \<Rightarrow> u32 \<Rightarrow> mem \<Rightarrow> bool" where
  "validate_minimal_uncompressed_question_request check request_buffer request_len m =
     (let id_valid = valid_doq_request_id request_buffer request_len m in
      if \<not> id_valid \<or> request_len < 17 \<or> 271 < request_len then False
      else
        let qd_hi = m (request_buffer + 4); qd_lo = m (request_buffer + 5);
            an_hi = m (request_buffer + 6); an_lo = m (request_buffer + 7);
            ns_hi = m (request_buffer + 8); ns_lo = m (request_buffer + 9);
            ar_hi = m (request_buffer + 10); ar_lo = m (request_buffer + 11) in
        if qd_hi = 0 \<and> qd_lo = 1 \<and> an_hi = 0 \<and> an_lo = 0
           \<and> ns_hi = 0 \<and> ns_lo = 0 \<and> ar_hi = 0 \<and> ar_lo = 0 then
          let qname_length = scan_uncompressed_qname_length request_buffer (unat request_len) 12 0 m;
              expected_request_len = qname_length + 16 in
          if qname_length = 0 \<or> expected_request_len \<noteq> unat request_len then False
          else
            let question_len = request_len - 12;
                question = request_buffer + 12;
                validation_code =
                  check (of_nat qname_length) (mem_bytes m question (unat question_len)) in
            validation_code \<noteq> 0
        else False)"

definition prepare_worker_minimal_error_response_send ::
  "stream_context \<Rightarrow> addr \<Rightarrow> u32 \<Rightarrow> u32 \<Rightarrow> mem \<Rightarrow> u32 \<times> mem" where
  "prepare_worker_minimal_error_response_send s response_buffer response_capacity request_len m =
     (if request_len < 12 \<or> response_capacity < 12 then (0, m)
      else
        let id_hi = m (sc_buf s);
            id_lo = m (sc_buf s + 1) in
        (12, m(response_buffer := id_hi, response_buffer + 1 := id_lo,
               response_buffer + 2 := 0x81,
               response_buffer + 4 := 0, response_buffer + 5 := 0,
               response_buffer + 6 := 0, response_buffer + 7 := 0,
               response_buffer + 8 := 0, response_buffer + 9 := 0,
               response_buffer + 10 := 0, response_buffer + 11 := 0,
               response_buffer + 3 := 0x01)))"

definition prepare_worker_empty_noerror_response_send ::
  "stream_context \<Rightarrow> addr \<Rightarrow> u32 \<Rightarrow> u32 \<Rightarrow> mem \<Rightarrow> u32 \<times> mem" where
  "prepare_worker_empty_noerror_response_send s response_buffer response_capacity request_len m =
     (if request_len < 12 \<or> response_capacity < 12 then (0, m)
      else
        let id_hi = m (sc_buf s);
            id_lo = m (sc_buf s + 1);
            request_flags_hi = m (sc_buf s + 2);
            request_flags_lo = m (sc_buf s + 3) in
        (12, m(response_buffer := id_hi, response_buffer + 1 := id_lo,
               response_buffer + 2 := noerror_response_flags_hi request_flags_hi,
               response_buffer + 3 := noerror_response_flags_lo request_flags_lo,
               response_buffer + 4 := 0, response_buffer + 5 := 0,
               response_buffer + 6 := 0, response_buffer + 7 := 0,
               response_buffer + 8 := 0, response_buffer + 9 := 0,
               response_buffer + 10 := 0, response_buffer + 11 := 0)))"

function copy_question_bytes :: "addr \<Rightarrow> addr \<Rightarrow> nat \<Rightarrow> nat \<Rightarrow> mem \<Rightarrow> mem" where
  "copy_question_bytes request_buffer response_buffer question_len idx m =
     (if idx \<ge> question_len then m
      else
        let src_idx = 12 + idx;
            dst_idx = 12 + idx;
            byte = m (request_buffer + src_idx) in
        copy_question_bytes request_buffer response_buffer question_len (idx + 1)
          (m(response_buffer + dst_idx := byte)))"
  by pat_completeness auto

termination
  by (relation "measure (\<lambda>(q, r, n, i, m). n - i)") auto

declare copy_question_bytes.simps [simp del]

definition prepare_worker_question_noerror_response_send ::
  "stream_context \<Rightarrow> addr \<Rightarrow> u32 \<Rightarrow> u32 \<Rightarrow> mem \<Rightarrow> u32 \<times> mem" where
  "prepare_worker_question_noerror_response_send s response_buffer response_capacity request_len m =
     (if request_len < 17 \<or> 271 < request_len \<or> response_capacity < request_len then (0, m)
      else
        let question_len = request_len - 12;
            id_hi = m (sc_buf s);
            id_lo = m (sc_buf s + 1);
            request_flags_hi = m (sc_buf s + 2);
            request_flags_lo = m (sc_buf s + 3);
            m' = copy_question_bytes (sc_buf s) response_buffer (unat question_len) 0 m in
        (request_len,
         m'(response_buffer := id_hi, response_buffer + 1 := id_lo,
            response_buffer + 2 := noerror_response_flags_hi request_flags_hi,
            response_buffer + 3 := noerror_response_flags_lo request_flags_lo,
            response_buffer + 4 := 0, response_buffer + 5 := 0x01,
            response_buffer + 6 := 0, response_buffer + 7 := 0,
            response_buffer + 8 := 0, response_buffer + 9 := 0,
            response_buffer + 10 := 0, response_buffer + 11 := 0)))"

definition prepare_worker_validated_minimal_response_send ::
  "(u32 \<Rightarrow> u8 list \<Rightarrow> u8) \<Rightarrow> stream_context \<Rightarrow> addr \<Rightarrow> u32 \<Rightarrow> u32 \<Rightarrow> mem \<Rightarrow> u32 \<times> mem" where
  "prepare_worker_validated_minimal_response_send check s response_buffer response_capacity
       request_len m =
     (let id_valid = valid_doq_request_id (sc_buf s) request_len m in
      if \<not> id_valid then (0, m)
      else
        let valid = validate_minimal_uncompressed_question_request check (sc_buf s) request_len m in
        if valid then
          prepare_worker_question_noerror_response_send s response_buffer response_capacity
            request_len m
        else
          prepare_worker_minimal_error_response_send s response_buffer response_capacity
            request_len m)"

section \<open>Names on the wire\<close>

text \<open>A name is a list of labels of 1 to 63 bytes; on the wire each label follows its length
  and the root label ends the name.\<close>

definition wf_label :: "u8 list \<Rightarrow> bool" where
  "wf_label l \<longleftrightarrow> 1 \<le> length l \<and> length l \<le> 63"

fun encode_labels :: "u8 list list \<Rightarrow> u8 list" where
  "encode_labels [] = []"
| "encode_labels (l # ls) = of_nat (length l) # l @ encode_labels ls"

definition encode_name :: "u8 list list \<Rightarrow> u8 list" where
  "encode_name ls = encode_labels ls @ [0]"

text \<open>\<^verbatim>\<open>dns_label labels[:byte-size n]\<close> and \<^verbatim>\<open>dns_uncompressed_question\<close> of the EverParse
  specification.\<close>

function dns_labels :: "u8 list \<Rightarrow> bool" where
  "dns_labels [] = True"
| "dns_labels (b # rest) =
     (0 < unat b \<and> unat b \<le> 63 \<and> unat b \<le> length rest \<and> dns_labels (drop (unat b) rest))"
  by pat_completeness auto

termination
  by (relation "measure length") auto

definition dns_uncompressed_question :: "nat \<Rightarrow> u8 list \<Rightarrow> bool" where
  "dns_uncompressed_question qname_length bs \<longleftrightarrow>
     1 \<le> qname_length \<and> qname_length \<le> 255 \<and> qname_length + 4 \<le> length bs \<and>
     dns_labels (take (qname_length - 1) bs) \<and> bs ! (qname_length - 1) = 0"

lemma unat_label_length: "wf_label l \<Longrightarrow> unat (of_nat (length l) :: u8) = length l"
  by (simp add: wf_label_def unat_of_nat take_bit_eq_mod)

lemma dns_labels_encode: "list_all wf_label ls \<Longrightarrow> dns_labels (encode_labels ls)"
  by (induction ls) (auto simp: unat_label_length, auto simp: wf_label_def)

section \<open>The scan finds the name\<close>

function scan_list :: "u8 list \<Rightarrow> nat \<Rightarrow> nat" where
  "scan_list [] consumed = 0"
| "scan_list (b # rest) consumed =
     (if unat b = 0 then if consumed < 255 then consumed + 1 else 0
      else if unat b > 63 \<or> length rest < unat b \<or> consumed + 1 + unat b > 255 then 0
      else scan_list (drop (unat b) rest) (consumed + 1 + unat b))"
  by pat_completeness auto

termination
  by (relation "measure (length \<circ> fst)") auto

lemma drop_mem_bytes: "drop k (mem_bytes m p n) = mem_bytes m (p + k) (n - k)"
  by (rule nth_equalityI) (auto simp: add.assoc)

lemma scan_eq_scan_list:
  "scan_uncompressed_qname_length buf len pos consumed m = scan_list (mem_bytes m (buf + pos) (len - pos)) consumed"
proof (induction buf len pos consumed m rule: scan_uncompressed_qname_length.induct)
  case (1 buf len pos consumed m)
  show ?case
  proof (cases "pos \<ge> len")
    case True
    then show ?thesis by (simp add: scan_uncompressed_qname_length.simps)
  next
    case False
    then have "mem_bytes m (buf + pos) (len - pos)
        = m (buf + pos) # mem_bytes m (buf + pos + 1) (len - pos - 1)"
      by (intro nth_equalityI) (auto simp: nth_Cons' add.assoc)
    with 1 False show ?thesis
      by (subst scan_uncompressed_qname_length.simps)
        (auto simp: Let_def drop_mem_bytes add.assoc diff_diff_eq)
  qed
qed

lemma scan_list_encode:
  "list_all wf_label ls \<Longrightarrow> consumed + length (encode_name ls) \<le> 255 \<Longrightarrow>
   scan_list (encode_name ls @ rst) consumed = consumed + length (encode_name ls)"
proof (induction ls arbitrary: consumed)
  case Nil
  then show ?case by (simp add: encode_name_def)
next
  case (Cons l ls)
  from Cons.prems have "wf_label l" by simp
  moreover have "scan_list (encode_name ls @ rst) (consumed + 1 + length l)
      = consumed + 1 + length l + length (encode_name ls)"
    using Cons.prems by (intro Cons.IH) (auto simp: encode_name_def)
  ultimately show ?case
    using Cons.prems unat_label_length [of l]
    by (simp add: encode_name_def) (auto simp: wf_label_def)
qed

lemma scan_list_decode:
  "scan_list bs consumed \<noteq> 0 \<Longrightarrow>
   \<exists>ls rst. list_all wf_label ls \<and> bs = encode_name ls @ rst
     \<and> consumed + length (encode_name ls) \<le> 255
     \<and> scan_list bs consumed = consumed + length (encode_name ls)"
proof (induction bs consumed rule: scan_list.induct)
  case (2 b rest consumed)
  show ?case
  proof (cases "unat b = 0")
    case True
    with "2.prems" show ?thesis
      by (intro exI [of _ "[]"] exI [of _ rest]) (auto simp: encode_name_def unat_eq_0 split: if_splits)
  next
    case False
    with "2.prems" have guard: "unat b \<le> 63" "unat b \<le> length rest" "consumed + 1 + unat b \<le> 255"
      and step: "scan_list (b # rest) consumed = scan_list (drop (unat b) rest) (consumed + 1 + unat b)"
      by (auto split: if_splits)
    with "2.prems" False obtain ls rst where ls: "list_all wf_label ls" "drop (unat b) rest = encode_name ls @ rst"
      "consumed + 1 + unat b + length (encode_name ls) \<le> 255"
      "scan_list (drop (unat b) rest) (consumed + 1 + unat b) = consumed + 1 + unat b + length (encode_name ls)"
      using "2.IH" by fastforce
    let ?l = "take (unat b) rest"
    have "rest = ?l @ encode_name ls @ rst"
      using ls(2) by (metis append_take_drop_id)
    then have "b # rest = encode_name (?l # ls) @ rst"
      using guard(2) by (simp add: encode_name_def)
    moreover have "wf_label ?l" using guard False by (simp add: wf_label_def)
    ultimately show ?thesis
      using ls guard step
      by (intro exI [of _ "?l # ls"] exI [of _ rst]) (simp add: encode_name_def)
  qed
qed simp

lemma encode_name_nonempty [simp]: "encode_name ls \<noteq> []"
  by (simp add: encode_name_def)

lemma dns_uncompressed_question_encode:
  assumes "list_all wf_label ls" and "length (encode_name ls) \<le> 255" and "4 \<le> length rst"
  shows "dns_uncompressed_question (length (encode_name ls)) (encode_name ls @ rst)"
  using assms by (simp add: dns_uncompressed_question_def encode_name_def dns_labels_encode nth_append)

section \<open>What a request and its response are\<close>

definition question_request :: "u8 list \<Rightarrow> bool" where
  "question_request bs \<longleftrightarrow>
     (\<exists>flags ls question.
        bs = [0, 0] @ flags @ [0, 1, 0, 0, 0, 0, 0, 0] @ encode_name ls @ question \<and>
        length flags = 2 \<and> length question = 4 \<and>
        list_all wf_label ls \<and> length (encode_name ls) \<le> 255)"

definition echo_response :: "u8 list \<Rightarrow> u8 list" where
  "echo_response bs =
     [bs ! 0, bs ! 1, noerror_response_flags_hi (bs ! 2), noerror_response_flags_lo (bs ! 3),
      0, 1, 0, 0, 0, 0, 0, 0] @ drop 12 bs"

definition formerr_response :: "u8 list \<Rightarrow> u8 list" where
  "formerr_response bs = [bs ! 0, bs ! 1, 0x81, 0x01, 0, 0, 0, 0, 0, 0, 0, 0]"

definition minimal_response :: "u8 list \<Rightarrow> nat \<Rightarrow> u8 list option" where
  "minimal_response bs capacity =
     (if length bs < 12 \<or> bs ! 0 \<noteq> 0 \<or> bs ! 1 \<noteq> 0 then None
      else if question_request bs then
        if length bs \<le> capacity then Some (echo_response bs) else None
      else if 12 \<le> capacity then Some (formerr_response bs) else None)"

lemma question_request_length:
  assumes "question_request bs"
  shows "17 \<le> length bs" and "length bs \<le> 271"
proof -
  from assms obtain flags ls question where
    bs: "bs = [0, 0] @ flags @ [0, 1, 0, 0, 0, 0, 0, 0] @ encode_name ls @ question"
    "length flags = 2" "length question = 4" "length (encode_name ls) \<le> 255"
    unfolding question_request_def by blast
  then show "17 \<le> length bs" and "length bs \<le> 271"
    by (simp_all add: Suc_le_eq)
qed

lemma length_echo_response [simp]: "12 \<le> length bs \<Longrightarrow> length (echo_response bs) = length bs"
  by (simp add: echo_response_def)

lemma length_formerr_response [simp]: "length (formerr_response bs) = 12"
  by (simp add: formerr_response_def)

lemma list12:
  "length bs = 12 \<Longrightarrow> bs = [bs ! 0, bs ! 1, bs ! 2, bs ! 3, bs ! 4, bs ! 5, bs ! 6, bs ! 7, bs ! 8, bs ! 9, bs ! 10, bs ! 11]"
  by (rule nth_equalityI) (auto simp: less_Suc_eq eval_nat_numeral)

section \<open>Response construction\<close>

lemma copy_question_bytes_eq_mem_copy:
  assumes "ranges_disjoint q (12 + n) r (12 + n)" and "idx \<le> n"
  shows "copy_question_bytes q r n idx m = mem_copy m (r + 12 + idx) (q + 12 + idx) (n - idx)"
  using assms
proof (induction q r n idx m rule: copy_question_bytes.induct)
  case (1 q r n idx m)
  show ?case
  proof (cases "idx < n")
    case True
    let ?m = "m(r + (12 + idx) := m (q + (12 + idx)))"
    have "copy_question_bytes q r n idx m = copy_question_bytes q r n (idx + 1) ?m"
      using True by (subst copy_question_bytes.simps) (simp add: Let_def)
    also have "\<dots> = mem_copy ?m (r + 12 + (idx + 1)) (q + 12 + (idx + 1)) (n - (idx + 1))"
      using True "1.prems" by (intro "1.IH") auto
    also have "\<dots> = mem_copy m (r + 12 + idx) (q + 12 + idx) (n - idx)"
    proof (rule ext)
      fix a
      show "mem_copy ?m (r + 12 + (idx + 1)) (q + 12 + (idx + 1)) (n - (idx + 1)) a
          = mem_copy m (r + 12 + idx) (q + 12 + idx) (n - idx) a"
      proof (cases "r + 12 + idx < a \<and> a < r + 12 + n")
        case True
        then obtain d where "a = Suc (r + 12 + idx + d)"
          using less_imp_Suc_add by blast
        with True "1.prems" show ?thesis
          by (auto simp: mem_copy_def ranges_disjoint_def add.assoc)
      next
        case False
        with True "1.prems" show ?thesis
          by (auto simp: mem_copy_def ranges_disjoint_def)
      qed
    qed
    finally show ?thesis .
  next
    case False
    with "1.prems" show ?thesis by (subst copy_question_bytes.simps) simp
  qed
qed

lemma mem_bytes_12:
  "mem_bytes m p 12 = [m p, m (p + 1), m (p + 2), m (p + 3), m (p + 4), m (p + 5), m (p + 6),
     m (p + 7), m (p + 8), m (p + 9), m (p + 10), m (p + 11)]"
  by (subst list12) simp_all

text \<open>Twelve stores into the header of a response leave the rest of the memory alone.\<close>

lemma mem_frame_header:
  "12 \<le> n \<Longrightarrow> mem_frame p n m (m(p := a0, p + 1 := a1, p + 2 := a2, p + 3 := a3, p + 4 := a4,
     p + 5 := a5, p + 6 := a6, p + 7 := a7, p + 8 := a8, p + 9 := a9, p + 10 := a10, p + 11 := a11))"
  by (simp add: mem_frame_def)

lemma error_response_send:
  assumes "12 \<le> request_len" and "12 \<le> capacity"
    and run: "prepare_worker_minimal_error_response_send s rb capacity request_len m = (n, m')"
  shows "n = 12" and "mem_bytes m' rb 12 = formerr_response (mem_bytes m (sc_buf s) (unat request_len))"
    and "mem_frame rb 12 m m'"
proof -
  have len: "12 \<le> unat request_len" "\<not> request_len < 12" "\<not> capacity < 12"
    using assms(1,2) by (auto simp: word_le_nat_alt not_less)
  show "n = 12" and "mem_bytes m' rb 12 = formerr_response (mem_bytes m (sc_buf s) (unat request_len))"
    using run len
    by (auto simp: prepare_worker_minimal_error_response_send_def Let_def mem_bytes_12 formerr_response_def)
  show "mem_frame rb 12 m m'"
    using run len
    by (auto simp: prepare_worker_minimal_error_response_send_def Let_def mem_frame_def)
qed

lemma empty_noerror_response_send:
  assumes "12 \<le> request_len" and "12 \<le> capacity"
    and run: "prepare_worker_empty_noerror_response_send s rb capacity request_len m = (n, m')"
  shows "n = 12" and "mem_bytes m' rb 12 =
      [m (sc_buf s), m (sc_buf s + 1), noerror_response_flags_hi (m (sc_buf s + 2)),
       noerror_response_flags_lo (m (sc_buf s + 3)), 0, 0, 0, 0, 0, 0, 0, 0]"
    and "mem_frame rb 12 m m'"
proof -
  have len: "\<not> request_len < 12" "\<not> capacity < 12"
    using assms(1,2) by (auto simp: not_less)
  show "n = 12" and "mem_bytes m' rb 12 =
      [m (sc_buf s), m (sc_buf s + 1), noerror_response_flags_hi (m (sc_buf s + 2)),
       noerror_response_flags_lo (m (sc_buf s + 3)), 0, 0, 0, 0, 0, 0, 0, 0]"
    using run len by (auto simp: prepare_worker_empty_noerror_response_send_def Let_def mem_bytes_12)
  show "mem_frame rb 12 m m'"
    using run len by (auto simp: prepare_worker_empty_noerror_response_send_def Let_def mem_frame_def)
qed

lemma question_response_send:
  assumes "17 \<le> request_len" and "request_len \<le> 271" and "request_len \<le> capacity"
    and dis: "ranges_disjoint (sc_buf s) (unat request_len) rb (unat capacity)"
    and run: "prepare_worker_question_noerror_response_send s rb capacity request_len m = (n, m')"
  shows "n = request_len"
    and "mem_bytes m' rb (unat n) = echo_response (mem_bytes m (sc_buf s) (unat request_len))"
    and "mem_frame rb (unat n) m m'"
proof -
  define k where "k = unat (request_len - 12)"
  have guard: "\<not> request_len < 17" "\<not> 271 < request_len" "\<not> capacity < request_len"
    using assms(1-3) by (auto simp: not_less)
  have k: "unat request_len = 12 + k" "5 \<le> k"
    using assms(1) by (auto simp: k_def word_le_nat_alt unat_sub)
  have "ranges_disjoint (sc_buf s) (12 + k) rb (12 + k)"
    using dis assms(3) by (auto simp: k(1) word_le_nat_alt elim: ranges_disjoint_mono)
  from copy_question_bytes_eq_mem_copy [OF this, of 0 m]
  have copy: "copy_question_bytes (sc_buf s) rb k 0 m = mem_copy m (rb + 12) (sc_buf s + 12) k"
    by simp
  have res: "n = request_len"
    "m' = (mem_copy m (rb + 12) (sc_buf s + 12) k)
       (rb := m (sc_buf s), rb + 1 := m (sc_buf s + 1),
        rb + 2 := noerror_response_flags_hi (m (sc_buf s + 2)),
        rb + 3 := noerror_response_flags_lo (m (sc_buf s + 3)), rb + 4 := 0, rb + 5 := 1,
        rb + 6 := 0, rb + 7 := 0, rb + 8 := 0, rb + 9 := 0, rb + 10 := 0, rb + 11 := 0)"
    using run guard
    unfolding prepare_worker_question_noerror_response_send_def Let_def k_def [symmetric] copy by simp_all
  show "n = request_len" by (rule res)
  have "mem_bytes m' (rb + 12) k = mem_bytes (mem_copy m (rb + 12) (sc_buf s + 12) k) (rb + 12) k"
    unfolding res(2) by (intro mem_bytes_eqI) simp
  then have body: "mem_bytes m' (rb + 12) k = mem_bytes m (sc_buf s + 12) k"
    by simp
  show "mem_bytes m' rb (unat n) = echo_response (mem_bytes m (sc_buf s) (unat request_len))"
    unfolding res(1) k(1) mem_bytes_add body echo_response_def mem_bytes_12
    by (simp add: res(2))
  have "mem_frame rb (12 + k) m (mem_copy m (rb + 12) (sc_buf s + 12) k)"
    by (rule mem_frame_copy) auto
  then show "mem_frame rb (unat n) m m'"
    unfolding res k(1) by (rule mem_frame_trans) (rule mem_frame_header, simp)
qed

section \<open>The validator contract\<close>

locale question_validator =
  fixes check :: "u32 \<Rightarrow> u8 list \<Rightarrow> u8"
  assumes check_iff: "check qname_length bs \<noteq> 0 \<longleftrightarrow> dns_uncompressed_question (unat qname_length) bs"
begin

lemma check_encoded:
  assumes "list_all wf_label ls" and "length (encode_name ls) \<le> 255" and "4 \<le> length rst"
  shows "check (of_nat (length (encode_name ls))) (encode_name ls @ rst) \<noteq> 0"
  using dns_uncompressed_question_encode [OF assms] assms(2) by (simp add: check_iff)

lemma validate_sound:
  assumes valid: "validate_minimal_uncompressed_question_request check buf len m"
  shows "question_request (mem_bytes m buf (unat len))"
proof -
  let ?bs = "mem_bytes m buf (unat len)"
  define q where "q = scan_uncompressed_qname_length buf (unat len) 12 0 m"
  have hdr: "12 \<le> unat len" "m buf = 0" "m (buf + 1) = 0" "m (buf + 4) = 0" "m (buf + 5) = 1"
    "m (buf + 6) = 0" "m (buf + 7) = 0" "m (buf + 8) = 0" "m (buf + 9) = 0" "m (buf + 10) = 0"
    "m (buf + 11) = 0" and q: "q \<noteq> 0" "unat len = q + 16"
    using valid
    by (auto simp: validate_minimal_uncompressed_question_request_def valid_doq_request_id_def Let_def
        word_less_nat_alt q_def split: if_splits)
  have "q = scan_list (drop 12 ?bs) 0"
    by (simp add: q_def scan_eq_scan_list drop_mem_bytes)
  with q(1) obtain ls rst where ls: "list_all wf_label ls" "drop 12 ?bs = encode_name ls @ rst"
    "length (encode_name ls) \<le> 255" "q = length (encode_name ls)"
    using scan_list_decode [of "drop 12 ?bs" 0] by auto
  have "take 12 ?bs = [0, 0] @ [m (buf + 2), m (buf + 3)] @ [0, 1, 0, 0, 0, 0, 0, 0]"
    using hdr by (subst list12) (auto simp: min_def)
  moreover have "?bs = take 12 ?bs @ encode_name ls @ rst"
    using ls(2) by (metis append_take_drop_id)
  moreover have "length (drop 12 ?bs) = length (encode_name ls) + length rst"
    by (simp only: ls(2) length_append)
  then have "length rst = 4"
    using ls(4) q(2) by simp
  ultimately show ?thesis
    unfolding question_request_def using ls(1,3)
    by (intro exI [of _ "[m (buf + 2), m (buf + 3)]"] exI [of _ ls] exI [of _ rst]) simp
qed

lemma validate_complete:
  assumes req: "question_request (mem_bytes m buf (unat len))"
  shows "validate_minimal_uncompressed_question_request check buf len m"
proof -
  let ?bs = "mem_bytes m buf (unat len)"
  from req obtain flags ls rst where
    bs: "?bs = [0, 0] @ flags @ [0, 1, 0, 0, 0, 0, 0, 0] @ encode_name ls @ rst" "length flags = 2"
    "length rst = 4" and ls: "list_all wf_label ls" "length (encode_name ls) \<le> 255"
    unfolding question_request_def by blast
  then obtain f g where f: "flags = [f, g]"
    by (auto simp: length_Suc_conv numeral_2_eq_2)
  have len: "unat len = length (encode_name ls) + 16"
    using arg_cong [OF bs(1), of length] bs(2,3) by simp
  have rng: "0 < length (encode_name ls)" by simp
  let ?hdr = "[0, 0, f, g, 0, 1, 0, 0, 0, 0, 0, 0] :: u8 list"
  have split: "?bs = ?hdr @ encode_name ls @ rst"
    using bs(1) f by simp
  have nth: "m (buf + i) = ?hdr ! i" if "i < 12" for i
  proof -
    have "m (buf + i) = ?bs ! i" using that len by simp
    also have "\<dots> = ?hdr ! i" using that unfolding split nth_append by simp
    finally show ?thesis .
  qed
  have hdr: "m buf = 0" "m (buf + 1) = 0" "m (buf + 4) = 0" "m (buf + 5) = 1" "m (buf + 6) = 0"
    "m (buf + 7) = 0" "m (buf + 8) = 0" "m (buf + 9) = 0" "m (buf + 10) = 0" "m (buf + 11) = 0"
    using nth [of 0] nth [of 1] nth [of 4] nth [of 5] nth [of 6] nth [of 7] nth [of 8] nth [of 9]
      nth [of 10] nth [of 11] by simp_all
  have tail: "mem_bytes m (buf + 12) (unat len - 12) = encode_name ls @ rst"
    using arg_cong [OF bs(1), of "drop 12"] f by (simp add: drop_mem_bytes)
  have scan: "scan_uncompressed_qname_length buf (unat len) 12 0 m = length (encode_name ls)"
    using ls by (simp add: scan_eq_scan_list tail scan_list_encode)
  have lenw: "\<not> len < 17" "\<not> 271 < len" "\<not> len < 12" "unat (len - 12) = unat len - 12"
    using len rng ls(2) by (auto simp: word_less_nat_alt unat_sub word_le_nat_alt Suc_le_eq)
  have "check (of_nat (length (encode_name ls))) (encode_name ls @ rst) \<noteq> 0"
    using ls bs(3) by (intro check_encoded) auto
  then show ?thesis
    unfolding validate_minimal_uncompressed_question_request_def valid_doq_request_id_def Let_def
      scan lenw(4) tail using hdr lenw len rng by simp
qed

end

section \<open>The responder\<close>

context question_validator
begin

theorem validated_response_send:
  assumes dis: "ranges_disjoint (sc_buf s) (unat request_len) rb (unat capacity)"
    and run: "prepare_worker_validated_minimal_response_send check s rb capacity request_len m = (n, m')"
  shows "case minimal_response (mem_bytes m (sc_buf s) (unat request_len)) (unat capacity) of
      None \<Rightarrow> n = 0 \<and> m' = m
    | Some r \<Rightarrow> unat n = length r \<and> mem_bytes m' rb (length r) = r \<and> mem_frame rb (length r) m m'"
proof -
  let ?bs = "mem_bytes m (sc_buf s) (unat request_len)"
  have id_iff: "valid_doq_request_id (sc_buf s) request_len m \<longleftrightarrow> \<not> (length ?bs < 12 \<or> ?bs ! 0 \<noteq> 0 \<or> ?bs ! 1 \<noteq> 0)"
    by (auto simp: valid_doq_request_id_def Let_def word_less_nat_alt)
  have req_iff: "validate_minimal_uncompressed_question_request check (sc_buf s) request_len m \<longleftrightarrow> question_request ?bs"
    using validate_sound validate_complete by blast
  show ?thesis
  proof (cases "valid_doq_request_id (sc_buf s) request_len m")
    case False
    with run id_iff show ?thesis
      by (auto simp: prepare_worker_validated_minimal_response_send_def minimal_response_def)
  next
    case id: True
    then have len: "12 \<le> request_len" by (auto simp: id_iff word_le_nat_alt word_less_nat_alt not_less)
    show ?thesis
    proof (cases "question_request ?bs")
      case True
      then have rng: "17 \<le> request_len" "request_len \<le> 271"
        by (auto simp: word_le_nat_alt dest: question_request_length)
      have run': "prepare_worker_question_noerror_response_send s rb capacity request_len m = (n, m')"
        using run id True req_iff by (simp add: prepare_worker_validated_minimal_response_send_def)
      show ?thesis
      proof (cases "request_len \<le> capacity")
        case fits: True
        from question_response_send [OF rng fits dis run'] id True fits len show ?thesis
          by (simp add: minimal_response_def id_iff word_le_nat_alt)
      next
        case False
        with run' id True show ?thesis
          by (auto simp: prepare_worker_question_noerror_response_send_def minimal_response_def
              id_iff word_le_nat_alt word_less_nat_alt not_less)
      qed
    next
      case False
      have run': "prepare_worker_minimal_error_response_send s rb capacity request_len m = (n, m')"
        using run id False req_iff by (simp add: prepare_worker_validated_minimal_response_send_def)
      show ?thesis
      proof (cases "12 \<le> capacity")
        case fits: True
        from error_response_send [OF len fits run'] id False fits show ?thesis
          by (simp add: minimal_response_def id_iff word_le_nat_alt)
      next
        case small: False
        with run' id False show ?thesis
          by (auto simp: prepare_worker_minimal_error_response_send_def minimal_response_def
              id_iff word_le_nat_alt word_less_nat_alt not_less)
      qed
    qed
  qed
qed

end

text \<open>The grammar itself is a validator, so the contract can be met.\<close>

definition dns_question_check :: "u32 \<Rightarrow> u8 list \<Rightarrow> u8" where
  "dns_question_check qname_length bs =
     (if dns_uncompressed_question (unat qname_length) bs then 1 else 0)"

interpretation grammar_validator: question_validator dns_question_check
  by unfold_locales (simp add: dns_question_check_def)

end
