(* ===== verification/ResponseFraming.thy ===== *)
theory ResponseFraming
  imports StreamMapping
begin

text \<open>
  Egress framing: the length prefix arithmetic of
  \<^verbatim>\<open>src/src/transport/DNS.QUIC.ResponseModel.fst\<close>, the send descriptor of
  \<^verbatim>\<open>DNS.QUIC.MsQuicEgress.fst\<close> and the two response operations of
  \<^verbatim>\<open>src/src/concurrency/DNS.ShellResponseBoundary.fst\<close> that prepare a send.

  The byte loop is shown equal to one \<open>memcpy\<close>, the framed bytes are exactly the prefix
  followed by the response, a rejected frame writes nothing, and a framed response read
  back through the ingress machine is the response.
\<close>

section \<open>Length arithmetic\<close>

definition framed_length :: "u32 \<Rightarrow> u32 \<Rightarrow> u32" where
  "framed_length len capacity =
     (if len > 65535 then 0
      else let framed = len + 2 in
           if capacity < framed then 0 else framed)"

definition prefix_hi :: "u32 \<Rightarrow> u8" where
  "prefix_hi len = ucast (drop_bit 8 len)"

definition prefix_lo :: "u32 \<Rightarrow> u8" where
  "prefix_lo len = ucast len"

lemma framed_length_eq_0:
  "framed_length n capacity = 0 \<longleftrightarrow> unat n > 65535 \<or> unat capacity < unat n + 2"
  and unat_framed_length:
  "framed_length n capacity \<noteq> 0 \<Longrightarrow> unat (framed_length n capacity) = unat n + 2"
proof -
  have sum: "unat n \<le> 65535 \<Longrightarrow> unat (n + 2) = unat n + 2"
    by (subst unat_add_u32) auto
  show "framed_length n capacity = 0 \<longleftrightarrow> unat n > 65535 \<or> unat capacity < unat n + 2"
    using sum by (auto simp: framed_length_def Let_def word_less_nat_alt word_unat_eq_iff)
  show "framed_length n capacity \<noteq> 0 \<Longrightarrow> unat (framed_length n capacity) = unat n + 2"
    using sum by (auto simp: framed_length_def Let_def word_less_nat_alt split: if_splits)
qed

lemma unat_prefix_hi: "unat (prefix_hi n) = unat n div 256 mod 256"
  by (simp add: prefix_hi_def unsigned_ucast_eq take_bit_eq_mod unsigned_drop_bit_eq drop_bit_eq_div unat_div)

lemma unat_prefix_lo: "unat (prefix_lo n) = unat n mod 256"
  by (simp add: prefix_lo_def unsigned_ucast_eq take_bit_eq_mod)

lemma prefix_roundtrip:
  "n \<le> 65535 \<Longrightarrow> u32_from_be_u16_bytes (prefix_hi n) (prefix_lo n) = n"
  by (simp add: word_unat_eq_iff unat_u32_from_be_u16_bytes unat_prefix_hi unat_prefix_lo
      word_le_nat_alt)

section \<open>Send descriptor\<close>

record response_stream_fragment =
  msrf_stream_id :: u64
  msrf_data :: addr
  msrf_len :: u32
  msrf_fin :: bool

record msquic_send_descriptor =
  mssd_stream_id :: u64
  mssd_data :: addr
  mssd_len :: u32
  mssd_fin :: bool

definition prepare_response_send :: "response_stream_fragment \<Rightarrow> msquic_send_descriptor" where
  "prepare_response_send response =
     \<lparr>mssd_stream_id = msrf_stream_id response, mssd_data = msrf_data response,
      mssd_len = msrf_len response, mssd_fin = msrf_fin response\<rparr>"

definition prepare_response_send_for_stream ::
  "stream_context \<Rightarrow> addr \<Rightarrow> u32 \<Rightarrow> u8 \<Rightarrow> u32" where
  "prepare_response_send_for_stream s response_buffer response_len fin_code =
     (let response = \<lparr>msrf_stream_id = sc_id s, msrf_data = response_buffer,
                      msrf_len = response_len, msrf_fin = (fin_code \<noteq> 0)\<rparr>;
          descriptor = prepare_response_send response in
      mssd_len descriptor)"

section \<open>Framing\<close>

function copy_response_bytes_with_prefix ::
  "addr \<Rightarrow> addr \<Rightarrow> u32 \<Rightarrow> u32 \<Rightarrow> mem \<Rightarrow> mem" where
  "copy_response_bytes_with_prefix response_buffer stream_buffer response_len idx m =
     (if idx = response_len then m
      else
        let dst_idx = 2 + idx;
            byte = m (response_buffer + unat idx);
            m' = m(stream_buffer + unat dst_idx := byte);
            next_idx = idx + 1 in
        copy_response_bytes_with_prefix response_buffer stream_buffer response_len next_idx m')"
  by pat_completeness auto

lemma unat_distance_decreases:
  assumes "(i :: u32) \<noteq> n"
  shows "unat (n - (i + 1)) < unat (n - i)"
proof -
  have "1 \<le> n - i"
    using assms by (simp add: word_le_nat_alt unat_gt_0 Suc_le_eq)
  then have "unat (n - i - 1) = unat (n - i) - 1" and "0 < unat (n - i)"
    by (auto simp: unat_sub word_le_nat_alt)
  then show ?thesis by (simp add: diff_diff_eq)
qed

termination copy_response_bytes_with_prefix
  by (relation "measure (\<lambda>(r, s, n, i, m). unat (n - i))") (auto intro: unat_distance_decreases)

declare copy_response_bytes_with_prefix.simps [simp del]

definition prepare_doq_response_send_for_stream ::
  "stream_context \<Rightarrow> addr \<Rightarrow> u32 \<Rightarrow> addr \<Rightarrow> u32 \<Rightarrow> u8 \<Rightarrow> mem \<Rightarrow> u32 \<times> mem" where
  "prepare_doq_response_send_for_stream s response_buffer response_len stream_buffer
       stream_capacity fin_code m =
     (let framed_len = framed_length response_len stream_capacity in
      if framed_len = 0 then (0, m)
      else
        let len_hi = prefix_hi response_len;
            len_lo = prefix_lo response_len;
            m1 = m(stream_buffer := len_hi);
            m2 = m1(stream_buffer + 1 := len_lo);
            m3 = copy_response_bytes_with_prefix response_buffer stream_buffer response_len 0 m2;
            response = \<lparr>msrf_stream_id = sc_id s, msrf_data = stream_buffer,
                        msrf_len = framed_len, msrf_fin = (fin_code \<noteq> 0)\<rparr>;
            descriptor = prepare_response_send response in
        (mssd_len descriptor, m3))"

lemma copy_response_bytes_eq_mem_copy:
  assumes "idx \<le> response_len" and "unat response_len \<le> 65535"
    and "ranges_disjoint response_buffer (unat response_len) stream_buffer (unat response_len + 2)"
  shows "copy_response_bytes_with_prefix response_buffer stream_buffer response_len idx m =
    mem_copy m (stream_buffer + 2 + unat idx) (response_buffer + unat idx)
      (unat response_len - unat idx)"
  using assms
proof (induction response_buffer stream_buffer response_len idx m
    rule: copy_response_bytes_with_prefix.induct)
  case (1 r s n i m)
  show ?case
  proof (cases "i = n")
    case True
    then show ?thesis by (simp add: copy_response_bytes_with_prefix.simps)
  next
    case False
    then have lt: "unat i < unat n"
      using "1.prems"(1) by (simp add: word_le_nat_alt word_unat_eq_iff)
    have i1: "unat (i + 1) = unat i + 1" and i2: "unat (2 + i) = unat i + 2"
      using lt "1.prems"(2) by (subst unat_add_u32; simp)+
    let ?m = "m(s + unat (2 + i) := m (r + unat i))"
    have "copy_response_bytes_with_prefix r s n i m = copy_response_bytes_with_prefix r s n (i + 1) ?m"
      using False by (subst copy_response_bytes_with_prefix.simps) (simp add: Let_def)
    also have "\<dots> = mem_copy ?m (s + 2 + unat (i + 1)) (r + unat (i + 1)) (unat n - unat (i + 1))"
      using "1.prems" lt by (intro "1.IH") (auto simp: False i1 word_le_nat_alt)
    also have "\<dots> = mem_copy m (s + 2 + unat i) (r + unat i) (unat n - unat i)"
    proof (rule ext)
      fix a
      show "mem_copy ?m (s + 2 + unat (i + 1)) (r + unat (i + 1)) (unat n - unat (i + 1)) a
          = mem_copy m (s + 2 + unat i) (r + unat i) (unat n - unat i) a"
      proof (cases "s + 2 + unat i < a \<and> a < s + 2 + unat n")
        case True
        then obtain d where "a = Suc (s + 2 + unat i + d)"
          using less_imp_Suc_add by blast
        with True "1.prems"(3) show ?thesis
          by (auto simp: mem_copy_def i1 i2 ranges_disjoint_def)
      next
        case False
        with lt "1.prems"(3) show ?thesis
          by (auto simp: mem_copy_def i1 i2 ranges_disjoint_def)
      qed
    qed
    finally show ?thesis .
  qed
qed

section \<open>Correctness of the framing\<close>

lemma prepare_doq_rejects:
  "framed_length response_len capacity = 0 \<Longrightarrow>
   prepare_doq_response_send_for_stream s response_buffer response_len stream_buffer capacity fin m = (0, m)"
  by (simp add: prepare_doq_response_send_for_stream_def)

lemma prepare_doq_memory:
  assumes "framed_length response_len capacity \<noteq> 0"
    and "ranges_disjoint response_buffer (unat response_len) stream_buffer (unat capacity)"
  shows "prepare_doq_response_send_for_stream s response_buffer response_len stream_buffer capacity fin m =
    (framed_length response_len capacity,
     mem_copy (m(stream_buffer := prefix_hi response_len, stream_buffer + 1 := prefix_lo response_len))
       (stream_buffer + 2) response_buffer (unat response_len))"
proof -
  from assms(1) have "unat response_len \<le> 65535" and "unat response_len + 2 \<le> unat capacity"
    by (auto simp: framed_length_eq_0)
  with assms(2) have "unat response_len \<le> 65535"
    and "ranges_disjoint response_buffer (unat response_len) stream_buffer (unat response_len + 2)"
    by (auto elim: ranges_disjoint_mono)
  from copy_response_bytes_eq_mem_copy [OF word_zero_le this] assms(1) show ?thesis
    by (simp add: prepare_doq_response_send_for_stream_def Let_def prepare_response_send_def)
qed

text \<open>The frame that is written: prefix, then the response; nothing else changes.\<close>

lemma prepare_doq_frame:
  assumes "framed_length response_len capacity \<noteq> 0"
    and "ranges_disjoint response_buffer (unat response_len) stream_buffer (unat capacity)"
    and run: "prepare_doq_response_send_for_stream s response_buffer response_len stream_buffer capacity
      fin m = (n, m')"
  shows "n = framed_length response_len capacity" and "unat n = unat response_len + 2"
    and "mem_bytes m' stream_buffer (unat n) =
      prefix_hi response_len # prefix_lo response_len # mem_bytes m response_buffer (unat response_len)"
    and "mem_frame stream_buffer (unat n) m m'"
proof -
  note mem = prepare_doq_memory [OF assms(1,2), of s fin m]
  show n: "n = framed_length response_len capacity"
    using run mem by simp
  with assms(1) show len: "unat n = unat response_len + 2"
    by (simp add: unat_framed_length)
  have m': "m' = mem_copy (m(stream_buffer := prefix_hi response_len, stream_buffer + 1 := prefix_lo response_len))
       (stream_buffer + 2) response_buffer (unat response_len)"
    using run mem by simp
  have "unat response_len + 2 \<le> unat capacity"
    using assms(1) by (simp add: framed_length_eq_0)
  with assms(2) have "mem_bytes (m(stream_buffer := a, stream_buffer + 1 := b)) response_buffer
      (unat response_len) = mem_bytes m response_buffer (unat response_len)" for a b
    by (intro mem_bytes_eqI) (auto simp: ranges_disjoint_def)
  then have body: "mem_bytes m' (stream_buffer + 2) (unat response_len)
      = mem_bytes m response_buffer (unat response_len)"
    unfolding m' mem_bytes_copy_same .
  have prefix: "mem_bytes m' stream_buffer 2 = [prefix_hi response_len, prefix_lo response_len]"
    unfolding m' by (simp add: eval_nat_numeral mem_bytes_Suc mem_copy_def)
  have n2: "unat n = 2 + unat response_len"
    using len by simp
  show "mem_bytes m' stream_buffer (unat n) =
      prefix_hi response_len # prefix_lo response_len # mem_bytes m response_buffer (unat response_len)"
    unfolding n2 mem_bytes_add prefix body by simp
  show "mem_frame stream_buffer (unat n) m m'"
    unfolding m' len by (auto simp: mem_frame_def mem_copy_def)
qed

text \<open>Reading a frame back through the ingress machine.\<close>

lemma doq_phase_frame:
  assumes "length bs = unat n" and "12 \<le> n" and "n \<le> 65535"
  shows "doq_phase (prefix_hi n # prefix_lo n # bs) = AwaitingFin n"
proof -
  have "unat (prefix_hi n) * 256 + unat (prefix_lo n) = unat n"
    using prefix_roundtrip [OF assms(3)] by (metis unat_u32_from_be_u16_bytes)
  with assms show ?thesis
    by (simp add: Let_def word_le_nat_alt)
qed

end
