(* ===== verification/Multiplexer.thy ===== *)
theory Multiplexer
  imports Worker ResponseFraming
begin

text \<open>
  The connection's stream table. The storage is the fixed embedding of
  \<^verbatim>\<open>src/shell/ism_shell.h\<close>: four stream slots, each with its context and message buffer, and a
  table of four context pointers of which the first \<open>cc_num\<close> are active. The operations are
  the stable ones of \<^verbatim>\<open>src/src/transport/DNS.QUIC.Multiplexer.fst\<close> and of
  \<^verbatim>\<open>DNS.QUIC.MsQuicSendCompletion.fst\<close>.

  \<open>conn_wf\<close> is the ownership invariant (the table is a permutation of the four slots, its
  active prefix has distinct stream identifiers) and \<open>abs_table\<close> the finite map from
  stream identifiers to contexts that the table stands for.
\<close>

section \<open>Storage\<close>

text \<open>A pointer to a stream context: \<open>None\<close> is \<open>NULL\<close>, \<open>Some i\<close> is
  \<^verbatim>\<open>&conn->streams[i].ctx\<close> (for \<open>i\<close> below 4; any other \<open>i\<close> is a foreign context).\<close>

type_synonym ctx_ptr = "nat option"

text \<open>Where \<^verbatim>\<open>cc_active\<close> points.\<close>

datatype table_ptr = TableNull | ConnActive | TableForeign

record connection_context =
  cc_active :: table_ptr
  cc_num :: u32
  cc_capacity :: u32

definition ISM_SHELL_MAX_STREAMS :: nat where
  "ISM_SHELL_MAX_STREAMS = 4"

definition ISM_SHELL_STREAM_BUFFER_SIZE :: nat where
  "ISM_SHELL_STREAM_BUFFER_SIZE = 65535"

text \<open>The embedded array \<^verbatim>\<open>message_buffer\<close> is its address; \<open>ctx_addr\<close> is the address of the
  embedded context. Neither changes after the connection is placed in memory.\<close>

record ism_shell_stream =
  ss_ctx :: stream_context
  ctx_addr :: addr
  message_buffer :: addr
  ss_active :: bool

record ism_shell_connection =
  conn_ctx :: connection_context
  conn_active :: "ctx_ptr list"
  conn_streams :: "ism_shell_stream list"

section \<open>Build configuration and external code\<close>

text \<open>The build flags that select the candidate implementations, the stack addresses of the two
  local objects whose address is taken (\<^verbatim>\<open>wire\<close> and \<^verbatim>\<open>empty\<close>), the size of the generated context
  struct, and the generated question validator.\<close>

record build =
  use_pulse_stream :: bool
  use_pulse_table :: bool
  use_pulse_response :: bool
  wire_addr :: addr
  empty_addr :: addr
  sizeof_stream_context :: nat
  check_question :: "u32 \<Rightarrow> u8 list \<Rightarrow> u8"

section \<open>Access through context pointers\<close>

definition stream_at :: "ism_shell_connection \<Rightarrow> ctx_ptr \<Rightarrow> stream_context" where
  "stream_at conn p = ss_ctx (conn_streams conn ! the p)"

definition set_stream :: "ism_shell_connection \<Rightarrow> ctx_ptr \<Rightarrow> stream_context \<Rightarrow> ism_shell_connection" where
  "set_stream conn p c =
     conn\<lparr>conn_streams := (conn_streams conn)[the p := (conn_streams conn ! the p)\<lparr>ss_ctx := c\<rparr>]\<rparr>"

abbreviation active_at :: "ism_shell_connection \<Rightarrow> nat \<Rightarrow> ctx_ptr" where
  "active_at conn i \<equiv> conn_active conn ! i"

abbreviation active_count :: "ism_shell_connection \<Rightarrow> nat" where
  "active_count conn \<equiv> unat (cc_num (conn_ctx conn))"

section \<open>Operations of the stable table\<close>

function find_stream_from :: "ism_shell_connection \<Rightarrow> nat \<Rightarrow> u64 \<Rightarrow> nat \<Rightarrow> ctx_ptr" where
  "find_stream_from conn count sid idx =
     (if idx \<ge> count then None
      else
        let stream_ptr = active_at conn idx;
            stream = stream_at conn stream_ptr in
        if sc_id stream = sid then stream_ptr
        else find_stream_from conn count sid (idx + 1))"
  by pat_completeness auto

termination
  by (relation "measure (\<lambda>(conn, n, sid, i). n - i)") auto

declare find_stream_from.simps [simp del]

definition find_stream :: "ism_shell_connection \<Rightarrow> u64 \<Rightarrow> ctx_ptr" where
  "find_stream conn sid =
     (if cc_num (conn_ctx conn) = 0 then None
      else find_stream_from conn (active_count conn) sid 0)"

function close_stream_from ::
  "ism_shell_connection \<Rightarrow> nat \<Rightarrow> u64 \<Rightarrow> nat \<Rightarrow> bool \<times> ism_shell_connection" where
  "close_stream_from conn count sid idx =
     (if idx \<ge> count then (False, conn)
      else
        let stream_ptr = active_at conn idx;
            stream = stream_at conn stream_ptr in
        if sc_id stream = sid then
          let last_idx = count - 1;
              last_ptr = active_at conn last_idx in
          (True, conn\<lparr>conn_active := (conn_active conn)[last_idx := stream_ptr, idx := last_ptr]\<rparr>)
        else close_stream_from conn count sid (idx + 1))"
  by pat_completeness auto

termination
  by (relation "measure (\<lambda>(conn, n, sid, i). n - i)") auto

declare close_stream_from.simps [simp del]

definition close_stream :: "ism_shell_connection \<Rightarrow> u64 \<Rightarrow> ism_shell_connection" where
  "close_stream conn sid =
     (if cc_num (conn_ctx conn) = 0 then conn
      else
        let next_count = cc_num (conn_ctx conn) - 1;
            (closed, conn') = close_stream_from conn (active_count conn) sid 0 in
        if closed then conn'\<lparr>conn_ctx := (conn_ctx conn')\<lparr>cc_num := next_count\<rparr>\<rparr>
        else conn')"

definition allocate_stream :: "ism_shell_connection \<Rightarrow> u64 \<Rightarrow> ctx_ptr \<times> ism_shell_connection" where
  "allocate_stream conn sid =
     (let existing = find_stream conn sid in
      if existing \<noteq> None then (None, conn)
      else if cc_num (conn_ctx conn) < cc_capacity (conn_ctx conn)
              \<and> cc_num (conn_ctx conn) < 0xffffffff then
        let stream_ptr = active_at conn (active_count conn);
            stream = stream_at conn stream_ptr;
            next_stream = stream\<lparr>sc_id := sid, sc_phase := S_ReadingLength\<rparr>;
            next_count = cc_num (conn_ctx conn) + 1;
            conn1 = set_stream conn stream_ptr next_stream in
        (stream_ptr, conn1\<lparr>conn_ctx := (conn_ctx conn1)\<lparr>cc_num := next_count\<rparr>\<rparr>)
      else (None, conn))"

text \<open>\<^verbatim>\<open>DNS.QUIC.MsQuicSendCompletion.complete_response_send\<close>: either outcome closes the
  stream of the descriptor.\<close>

datatype msquic_send_outcome = SendCompleted | SendDropped

definition complete_response_send ::
  "ism_shell_connection \<Rightarrow> msquic_send_descriptor \<Rightarrow> msquic_send_outcome \<Rightarrow> ism_shell_connection" where
  "complete_response_send conn descriptor outcome = close_stream conn (mssd_stream_id descriptor)"

section \<open>The operations as index searches\<close>

abbreviation id_at :: "ism_shell_connection \<Rightarrow> nat \<Rightarrow> u64" where
  "id_at conn i \<equiv> sc_id (stream_at conn (active_at conn i))"

definition active_index :: "ism_shell_connection \<Rightarrow> u64 \<Rightarrow> nat option" where
  "active_index conn sid = find (\<lambda>i. id_at conn i = sid) [0..<active_count conn]"

lemma active_index_Some:
  "active_index conn sid = Some i \<longleftrightarrow>
     i < active_count conn \<and> id_at conn i = sid \<and> (\<forall>j<i. id_at conn j \<noteq> sid)"
  unfolding active_index_def by (rule find_upt_Some)

lemma active_index_None:
  "active_index conn sid = None \<longleftrightarrow> (\<forall>i<active_count conn. id_at conn i \<noteq> sid)"
  unfolding active_index_def by (rule find_upt_None)

lemma find_stream_from_eq:
  "find_stream_from conn count sid idx =
     Option.bind (find (\<lambda>i. id_at conn i = sid) [idx..<count]) (active_at conn)"
proof (induction conn count sid idx rule: find_stream_from.induct)
  case (1 conn count sid idx)
  then show ?case
    by (subst find_stream_from.simps) (auto simp: Let_def upt_conv_Cons)
qed

lemma find_stream_eq: "find_stream conn sid = Option.bind (active_index conn sid) (active_at conn)"
  by (auto simp: find_stream_def find_stream_from_eq active_index_def)

lemma close_stream_from_eq:
  "close_stream_from conn count sid idx =
     (case find (\<lambda>i. id_at conn i = sid) [idx..<count] of
        None \<Rightarrow> (False, conn)
      | Some i \<Rightarrow> (True, conn\<lparr>conn_active := list_swap (conn_active conn) i (count - 1)\<rparr>))"
proof (induction conn count sid idx rule: close_stream_from.induct)
  case (1 conn count sid idx)
  then show ?case
    by (subst close_stream_from.simps) (auto simp: Let_def upt_conv_Cons list_swap_def)
qed

definition remove_active :: "ism_shell_connection \<Rightarrow> nat \<Rightarrow> ism_shell_connection" where
  "remove_active conn i =
     conn\<lparr>conn_active := list_swap (conn_active conn) i (active_count conn - 1),
          conn_ctx := (conn_ctx conn)\<lparr>cc_num := cc_num (conn_ctx conn) - 1\<rparr>\<rparr>"

lemma close_stream_eq:
  "close_stream conn sid =
     (case active_index conn sid of None \<Rightarrow> conn | Some i \<Rightarrow> remove_active conn i)"
  by (auto simp: close_stream_def close_stream_from_eq active_index_def remove_active_def Let_def
      split: option.splits)

section \<open>Invariant\<close>

definition slots_perm :: "ism_shell_connection \<Rightarrow> bool" where
  "slots_perm conn \<longleftrightarrow>
     length (conn_active conn) = 4 \<and> length (conn_streams conn) = 4 \<and>
     distinct (conn_active conn) \<and> set (conn_active conn) = Some ` {0..<4}"

definition ids_distinct :: "ism_shell_connection \<Rightarrow> bool" where
  "ids_distinct conn \<longleftrightarrow>
     (\<forall>i<active_count conn. \<forall>j<active_count conn. id_at conn i = id_at conn j \<longrightarrow> i = j)"

definition slot_wf :: "ism_shell_stream \<Rightarrow> bool" where
  "slot_wf slot \<longleftrightarrow>
     sc_buf (ss_ctx slot) = message_buffer slot \<and>
     phase_bounded (to_model (sc_phase (ss_ctx slot))) \<and>
     valid_phase (to_model (sc_phase (ss_ctx slot)))"

definition conn_wf :: "ism_shell_connection \<Rightarrow> bool" where
  "conn_wf conn \<longleftrightarrow>
     slots_perm conn \<and> cc_active (conn_ctx conn) = ConnActive \<and>
     cc_capacity (conn_ctx conn) = 4 \<and> cc_num (conn_ctx conn) \<le> 4 \<and>
     list_all slot_wf (conn_streams conn) \<and> ids_distinct conn"

text \<open>The slot flags agree with the table.\<close>

definition flags_synced :: "ism_shell_connection \<Rightarrow> bool" where
  "flags_synced conn \<longleftrightarrow>
     (\<forall>i<4. ss_active (conn_streams conn ! the (active_at conn i)) \<longleftrightarrow> i < active_count conn)"

definition conn_inv :: "ism_shell_connection \<Rightarrow> bool" where
  "conn_inv conn \<longleftrightarrow> conn_wf conn \<and> flags_synced conn"

lemma active_count_le: "conn_wf conn \<Longrightarrow> active_count conn \<le> 4"
  by (simp add: conn_wf_def word_le_nat_alt)

lemma active_at_slot:
  assumes "slots_perm conn" and "i < 4"
  obtains k where "active_at conn i = Some k" and "k < 4"
proof -
  have "active_at conn i \<in> set (conn_active conn)"
    using assms by (intro nth_mem) (simp add: slots_perm_def)
  with assms that show ?thesis by (auto simp: slots_perm_def)
qed

lemma slot_position:
  assumes "slots_perm conn" and "k < 4"
  obtains i where "i < 4" and "active_at conn i = Some k"
proof -
  have "Some k \<in> set (conn_active conn)"
    using assms by (simp add: slots_perm_def)
  then obtain i where "i < length (conn_active conn)" and "active_at conn i = Some k"
    by (auto simp: in_set_conv_nth)
  with assms(1) that show ?thesis by (simp add: slots_perm_def)
qed

lemma active_at_inj:
  "slots_perm conn \<Longrightarrow> i < 4 \<Longrightarrow> j < 4 \<Longrightarrow> active_at conn i = active_at conn j \<longleftrightarrow> i = j"
  by (simp add: slots_perm_def nth_inj_distinct)

section \<open>The table as a map\<close>

definition abs_table :: "ism_shell_connection \<Rightarrow> u64 \<Rightarrow> stream_context option" where
  "abs_table conn sid = map_option (\<lambda>i. stream_at conn (active_at conn i)) (active_index conn sid)"

lemma option_eqI: "(\<And>c. a = Some c \<longleftrightarrow> b = Some c) \<Longrightarrow> a = b"
  by (cases a; cases b) auto

lemma active_index_unique:
  assumes "ids_distinct conn" and "i < active_count conn"
  shows "active_index conn (id_at conn i) = Some i"
  using assms unfolding active_index_Some ids_distinct_def by (metis less_irrefl order.strict_trans)

lemma abs_table_Some:
  assumes "ids_distinct conn"
  shows "abs_table conn sid = Some c \<longleftrightarrow>
    (\<exists>i<active_count conn. stream_at conn (active_at conn i) = c \<and> sc_id c = sid)"
  using active_index_unique [OF assms] by (auto simp: abs_table_def active_index_Some)

lemma abs_table_None: "abs_table conn sid = None \<longleftrightarrow> active_index conn sid = None"
  by (simp add: abs_table_def)

section \<open>Closing a stream\<close>

lemma stream_at_remove_active [simp]: "stream_at (remove_active conn i) p = stream_at conn p"
  by (simp add: stream_at_def remove_active_def)

lemma active_count_remove_active:
  "0 < active_count conn \<Longrightarrow> active_count (remove_active conn i) = active_count conn - 1"
  by (simp add: remove_active_def unat_sub word_le_nat_alt)

lemma active_at_remove_active:
  assumes "conn_wf conn" and "i < active_count conn" and "j < 4"
  shows "active_at (remove_active conn i) j =
    (if j = i then active_at conn (active_count conn - 1)
     else if j = active_count conn - 1 then active_at conn i else active_at conn j)"
proof -
  have "active_count conn \<le> 4" using assms(1) by (rule active_count_le)
  moreover have "length (conn_active conn) = 4"
    using assms(1) by (simp add: conn_wf_def slots_perm_def)
  ultimately show ?thesis
    using assms(2,3) by (simp add: remove_active_def nth_list_swap)
qed

lemma remove_active_wf:
  assumes wf: "conn_wf conn" and i: "i < active_count conn"
  shows "conn_wf (remove_active conn i)"
proof -
  have n: "active_count conn \<le> 4" using wf by (rule active_count_le)
  have cnt: "active_count (remove_active conn i) = active_count conn - 1"
    using i by (intro active_count_remove_active) simp
  have "slots_perm (remove_active conn i)"
    using wf i n by (simp add: conn_wf_def slots_perm_def remove_active_def)
  moreover have "cc_num (conn_ctx (remove_active conn i)) \<le> 4"
    using cnt n by (simp add: word_le_nat_alt)
  moreover have "ids_distinct (remove_active conn i)"
    unfolding ids_distinct_def cnt
  proof (intro allI impI)
    fix a b
    assume a: "a < active_count conn - 1" and b: "b < active_count conn - 1"
      and eq: "id_at (remove_active conn i) a = id_at (remove_active conn i) b"
    let ?at = "\<lambda>j. if j = i then active_count conn - 1 else j"
    have "id_at conn (?at a) = id_at conn (?at b)"
      using eq a b n active_at_remove_active [OF wf i, of a] active_at_remove_active [OF wf i, of b]
      by (auto split: if_splits)
    moreover have "?at a < active_count conn" "?at b < active_count conn" using a b by auto
    ultimately have "?at a = ?at b"
      using wf unfolding conn_wf_def ids_distinct_def by blast
    then show "a = b" using a b by (auto split: if_splits)
  qed
  ultimately show ?thesis
    using wf by (simp add: conn_wf_def) (simp add: remove_active_def)
qed

lemma close_stream_wf: "conn_wf conn \<Longrightarrow> conn_wf (close_stream conn sid)"
  by (auto simp: close_stream_eq active_index_Some remove_active_wf split: option.splits)

lemma remove_active_streams:
  assumes wf: "conn_wf conn" and i: "i < active_count conn"
  shows "(\<exists>j<active_count (remove_active conn i). active_at (remove_active conn i) j = p) \<longleftrightarrow>
    (\<exists>j<active_count conn. j \<noteq> i \<and> active_at conn j = p)"
proof -
  have n: "active_count conn \<le> 4" using wf by (rule active_count_le)
  have cnt: "active_count (remove_active conn i) = active_count conn - 1"
    using i by (intro active_count_remove_active) simp
  show ?thesis
  proof
    assume "\<exists>j<active_count (remove_active conn i). active_at (remove_active conn i) j = p"
    then obtain j where "j < active_count conn - 1" "active_at (remove_active conn i) j = p"
      using cnt by auto
    with active_at_remove_active [OF wf i, of j] n i
    show "\<exists>j<active_count conn. j \<noteq> i \<and> active_at conn j = p"
      by (intro exI [of _ "if j = i then active_count conn - 1 else j"]) auto
  next
    assume "\<exists>j<active_count conn. j \<noteq> i \<and> active_at conn j = p"
    then obtain j where j: "j < active_count conn" "j \<noteq> i" "active_at conn j = p" by blast
    let ?j = "if j = active_count conn - 1 then i else j"
    have "?j < active_count conn - 1" using j i by auto
    moreover have "active_at (remove_active conn i) ?j = p"
      using j i n active_at_remove_active [OF wf i, of ?j] by auto
    ultimately show "\<exists>j<active_count (remove_active conn i). active_at (remove_active conn i) j = p"
      unfolding cnt by blast
  qed
qed

theorem abs_table_close:
  assumes wf: "conn_wf conn"
  shows "abs_table (close_stream conn sid) = (abs_table conn)(sid := None)"
proof (cases "active_index conn sid")
  case None
  then have "abs_table conn sid = None" by (simp add: abs_table_None)
  with None show ?thesis by (auto simp: close_stream_eq)
next
  case (Some i)
  then have i: "i < active_count conn" "id_at conn i = sid" by (auto simp: active_index_Some)
  have dist: "ids_distinct conn" "ids_distinct (remove_active conn i)"
    using wf remove_active_wf [OF wf i(1)] by (simp_all add: conn_wf_def)
  have "abs_table (remove_active conn i) s = ((abs_table conn)(sid := None)) s" for s
  proof (rule option_eqI)
    fix c
    have "abs_table (remove_active conn i) s = Some c \<longleftrightarrow>
        (\<exists>j<active_count conn. j \<noteq> i \<and> stream_at conn (active_at conn j) = c \<and> sc_id c = s)"
      unfolding abs_table_Some [OF dist(2)] stream_at_remove_active
      using remove_active_streams [OF wf i(1)] by metis
    also have "\<dots> \<longleftrightarrow> ((abs_table conn)(sid := None)) s = Some c"
      using i dist(1) by (auto simp: abs_table_Some [OF dist(1)] ids_distinct_def)
    finally show "abs_table (remove_active conn i) s = Some c \<longleftrightarrow> ((abs_table conn)(sid := None)) s = Some c" .
  qed
  with Some show ?thesis by (auto simp: close_stream_eq)
qed

section \<open>Opening a stream\<close>

text \<open>What either lane does to open a new stream: the first available slot of the table becomes
  active with the given identifier and an empty frame.\<close>

definition activate_next :: "ism_shell_connection \<Rightarrow> u64 \<Rightarrow> ism_shell_connection" where
  "activate_next conn sid =
     (let k = the (active_at conn (active_count conn));
          slot = conn_streams conn ! k in
      conn\<lparr>conn_streams := (conn_streams conn)
              [k := slot\<lparr>ss_ctx := (ss_ctx slot)\<lparr>sc_id := sid, sc_phase := S_ReadingLength\<rparr>,
                         ss_active := True\<rparr>],
           conn_ctx := (conn_ctx conn)\<lparr>cc_num := cc_num (conn_ctx conn) + 1\<rparr>\<rparr>)"

definition open_result :: "ism_shell_connection \<Rightarrow> u64 \<Rightarrow> ctx_ptr \<times> ism_shell_connection" where
  "open_result conn sid =
     (case active_index conn sid of
        Some i \<Rightarrow> (active_at conn i, conn)
      | None \<Rightarrow>
          if active_count conn < 4 then (active_at conn (active_count conn), activate_next conn sid)
          else (None, conn))"

end
