(* ===== verification/Boundary.thy ===== *)
theory Boundary
  imports Multiplexer
begin

text \<open>
  The narrow entry points of the verified core that the C shell calls:
  \<^verbatim>\<open>src/src/concurrency/DNS.ShellBoundary.fst\<close>, \<^verbatim>\<open>DNS.ShellScheduler.fst\<close> and the completion
  wrapper of \<^verbatim>\<open>DNS.ShellResponseBoundary.fst\<close>. Each takes the connection (or a context),
  the byte memory and the call's arguments, and returns the C result code with the new state.
\<close>

section \<open>Ingress\<close>

fun shell_phase_code :: "stream_phase \<Rightarrow> u8" where
  "shell_phase_code S_ReadingLength = 0"
| "shell_phase_code (S_ReadingLengthHigh hi) = 0"
| "shell_phase_code (S_ReadingMessage n) = 1"
| "shell_phase_code (S_Processing n) = 2"
| "shell_phase_code S_Done = 3"
| "shell_phase_code (S_AwaitingFin n) = 4"

definition dispatch_authenticated_stream_fin :: "stream_context \<Rightarrow> mem \<Rightarrow> u8 \<times> stream_context" where
  "dispatch_authenticated_stream_fin ctx m =
     (let (phase, ctx') = handle_stream_fin ctx m in (shell_phase_code phase, ctx'))"

definition dispatch_authenticated_stream_data ::
  "stream_context \<Rightarrow> u64 \<Rightarrow> addr \<Rightarrow> u32 \<Rightarrow> mem \<Rightarrow> u8 \<times> stream_context \<times> mem" where
  "dispatch_authenticated_stream_data ctx stream_id data len m =
     (let (phase, ctx', m') = handle_stream_data ctx data len m in
      (shell_phase_code phase, ctx', m'))"

definition dispatch_authenticated_stream_data_event ::
  "stream_context \<Rightarrow> u64 \<Rightarrow> addr \<Rightarrow> u32 \<Rightarrow> mem \<Rightarrow> stream_phase \<times> stream_context \<times> mem" where
  "dispatch_authenticated_stream_data_event ctx stream_id data len m =
     (let fragment = \<lparr>msif_stream_id = stream_id, msif_data = data, msif_len = len,
                      msif_fin = False\<rparr> in
      handle_authenticated_stream_fragment ctx fragment m)"

definition dispatch_authenticated_stream_data_via_scheduler ::
  "stream_context \<Rightarrow> u64 \<Rightarrow> addr \<Rightarrow> u32 \<Rightarrow> mem \<Rightarrow> u8 \<times> stream_context \<times> mem" where
  "dispatch_authenticated_stream_data_via_scheduler ctx stream_id data len m =
     (let (phase, ctx', m') = dispatch_authenticated_stream_data_event ctx stream_id data len m in
      (shell_phase_code phase, ctx', m'))"

section \<open>Responses for a ready stream\<close>

text \<open>The three response constructors are dispatched alike: the stream must be in the table
  and in the processing phase.\<close>

definition dispatch_ready ::
  "(stream_context \<Rightarrow> addr \<Rightarrow> u32 \<Rightarrow> u32 \<Rightarrow> mem \<Rightarrow> u32 \<times> mem) \<Rightarrow>
   ism_shell_connection \<Rightarrow> addr \<Rightarrow> u32 \<Rightarrow> u64 \<Rightarrow> mem \<Rightarrow> u32 \<times> mem" where
  "dispatch_ready prepare conn response_buffer response_capacity stream_id m =
     (case find_stream conn stream_id of
        Some p \<Rightarrow>
          let stream = stream_at conn (Some p) in
          (case sc_phase stream of
             S_Processing request_len \<Rightarrow>
               prepare stream response_buffer response_capacity request_len m
           | _ \<Rightarrow> (0, m))
      | None \<Rightarrow> (0, m))"

definition process_ready_stream_for_response ::
  "ism_shell_connection \<Rightarrow> addr \<Rightarrow> u32 \<Rightarrow> u64 \<Rightarrow> mem \<Rightarrow> u32 \<times> mem" where
  "process_ready_stream_for_response = dispatch_ready prepare_worker_minimal_error_response_send"

definition process_ready_stream_for_empty_response ::
  "ism_shell_connection \<Rightarrow> addr \<Rightarrow> u32 \<Rightarrow> u64 \<Rightarrow> mem \<Rightarrow> u32 \<times> mem" where
  "process_ready_stream_for_empty_response = dispatch_ready prepare_worker_empty_noerror_response_send"

definition process_ready_stream_for_validated_minimal_response ::
  "build \<Rightarrow> ism_shell_connection \<Rightarrow> addr \<Rightarrow> u32 \<Rightarrow> u64 \<Rightarrow> mem \<Rightarrow> u32 \<times> mem" where
  "process_ready_stream_for_validated_minimal_response bld =
     dispatch_ready (prepare_worker_validated_minimal_response_send (check_question bld))"

definition dispatch_minimal_worker_error_response_event ::
  "ism_shell_connection \<Rightarrow> addr \<Rightarrow> u32 \<Rightarrow> u64 \<Rightarrow> mem \<Rightarrow> u32 \<times> mem" where
  "dispatch_minimal_worker_error_response_event =
     dispatch_ready prepare_worker_minimal_error_response_send"

definition dispatch_empty_noerror_response_event ::
  "ism_shell_connection \<Rightarrow> addr \<Rightarrow> u32 \<Rightarrow> u64 \<Rightarrow> mem \<Rightarrow> u32 \<times> mem" where
  "dispatch_empty_noerror_response_event =
     dispatch_ready prepare_worker_empty_noerror_response_send"

definition dispatch_validated_minimal_response_event ::
  "build \<Rightarrow> ism_shell_connection \<Rightarrow> addr \<Rightarrow> u32 \<Rightarrow> u64 \<Rightarrow> mem \<Rightarrow> u32 \<times> mem" where
  "dispatch_validated_minimal_response_event bld =
     dispatch_ready (prepare_worker_validated_minimal_response_send (check_question bld))"

definition dispatch_ready_stream_for_response_via_scheduler ::
  "ism_shell_connection \<Rightarrow> addr \<Rightarrow> u32 \<Rightarrow> u64 \<Rightarrow> mem \<Rightarrow> u32 \<times> mem" where
  "dispatch_ready_stream_for_response_via_scheduler conn response_buffer response_capacity stream_id m =
     dispatch_minimal_worker_error_response_event conn response_buffer response_capacity stream_id m"

definition dispatch_ready_stream_for_empty_response_via_scheduler ::
  "ism_shell_connection \<Rightarrow> addr \<Rightarrow> u32 \<Rightarrow> u64 \<Rightarrow> mem \<Rightarrow> u32 \<times> mem" where
  "dispatch_ready_stream_for_empty_response_via_scheduler conn response_buffer response_capacity
       stream_id m =
     dispatch_empty_noerror_response_event conn response_buffer response_capacity stream_id m"

definition dispatch_ready_stream_for_validated_minimal_response_via_scheduler ::
  "build \<Rightarrow> ism_shell_connection \<Rightarrow> addr \<Rightarrow> u32 \<Rightarrow> u64 \<Rightarrow> mem \<Rightarrow> u32 \<times> mem" where
  "dispatch_ready_stream_for_validated_minimal_response_via_scheduler bld conn response_buffer
       response_capacity stream_id m =
     dispatch_validated_minimal_response_event bld conn response_buffer response_capacity stream_id m"

section \<open>Completion and reset\<close>

definition send_outcome_of_code :: "u8 \<Rightarrow> msquic_send_outcome" where
  "send_outcome_of_code code = (if code = 0 then SendCompleted else SendDropped)"

definition complete_response_send_for_stream ::
  "ism_shell_connection \<Rightarrow> addr \<Rightarrow> u32 \<Rightarrow> u64 \<Rightarrow> u8 \<Rightarrow> u8 \<times> ism_shell_connection" where
  "complete_response_send_for_stream conn response_buffer response_len stream_id outcome_code =
     (let descriptor = \<lparr>mssd_stream_id = stream_id, mssd_data = response_buffer,
                        mssd_len = response_len, mssd_fin = True\<rparr>;
          outcome = send_outcome_of_code outcome_code in
      (1, complete_response_send conn descriptor outcome))"

definition dispatch_response_send_finished_for_stream_event ::
  "ism_shell_connection \<Rightarrow> addr \<Rightarrow> u32 \<Rightarrow> u64 \<Rightarrow> u8 \<Rightarrow> u8 \<times> ism_shell_connection" where
  "dispatch_response_send_finished_for_stream_event conn response_buffer response_len stream_id
       outcome_code =
     (let descriptor = \<lparr>mssd_stream_id = stream_id, mssd_data = response_buffer,
                        mssd_len = response_len, mssd_fin = True\<rparr>;
          outcome = (if outcome_code = 0 then SendCompleted else SendDropped) in
      (1, complete_response_send conn descriptor outcome))"

definition dispatch_response_send_finished_via_scheduler ::
  "ism_shell_connection \<Rightarrow> addr \<Rightarrow> u32 \<Rightarrow> u64 \<Rightarrow> u8 \<Rightarrow> u8 \<times> ism_shell_connection" where
  "dispatch_response_send_finished_via_scheduler conn response_buffer response_len stream_id
       outcome_code =
     dispatch_response_send_finished_for_stream_event conn response_buffer response_len stream_id
       outcome_code"

definition dispatch_stream_reset_via_scheduler ::
  "ism_shell_connection \<Rightarrow> u64 \<Rightarrow> u8 \<times> ism_shell_connection" where
  "dispatch_stream_reset_via_scheduler conn stream_id = (1, close_stream conn stream_id)"

section \<open>The scheduler's events\<close>

text \<open>An event names the entry point it selects and carries its arguments; the connection is the one
  in the state. A context pointer is the index of a slot of that connection.\<close>

datatype shell_event =
    AuthenticatedStreamData ctx_ptr authenticated_stream_fragment
  | ProcessingReady addr u32 u64
  | ResponseSendFinished msquic_send_descriptor msquic_send_outcome

definition dispatch_shell_event :: "shell_event \<Rightarrow> ism_shell_connection \<times> mem \<Rightarrow> ism_shell_connection \<times> mem" where
  "dispatch_shell_event event s =
     (let (conn, m) = s in
      case event of
        AuthenticatedStreamData ctx_ptr fragment \<Rightarrow>
          let (phase, ctx', m') = handle_authenticated_stream_fragment (stream_at conn ctx_ptr) fragment m in
          (set_stream conn ctx_ptr ctx', m')
      | ProcessingReady response_buffer response_capacity stream_id \<Rightarrow>
          let (len, m') =
            (case find_stream conn stream_id of
               Some p \<Rightarrow>
                 let stream = stream_at conn (Some p) in
                 (case sc_phase stream of
                    S_Processing request_len \<Rightarrow>
                      prepare_worker_minimal_error_response_send stream response_buffer response_capacity request_len m
                  | _ \<Rightarrow> (0, m))
             | None \<Rightarrow> (0, m)) in
          (conn, m')
      | ResponseSendFinished descriptor outcome \<Rightarrow> (complete_response_send conn descriptor outcome, m))"

section \<open>The scheduler wrappers add nothing\<close>

lemma data_via_scheduler_eq:
  "dispatch_authenticated_stream_data_via_scheduler = dispatch_authenticated_stream_data"
  by (intro ext)
    (simp add: dispatch_authenticated_stream_data_via_scheduler_def
      dispatch_authenticated_stream_data_event_def handle_authenticated_stream_fragment_def
      dispatch_authenticated_stream_data_def split: prod.splits)

lemma ready_via_scheduler_eq:
  "dispatch_ready_stream_for_response_via_scheduler = process_ready_stream_for_response"
  "dispatch_ready_stream_for_empty_response_via_scheduler = process_ready_stream_for_empty_response"
  "dispatch_ready_stream_for_validated_minimal_response_via_scheduler
     = process_ready_stream_for_validated_minimal_response"
  by (intro ext; simp add: dispatch_ready_stream_for_response_via_scheduler_def
      dispatch_ready_stream_for_empty_response_via_scheduler_def
      dispatch_ready_stream_for_validated_minimal_response_via_scheduler_def
      dispatch_minimal_worker_error_response_event_def dispatch_empty_noerror_response_event_def
      dispatch_validated_minimal_response_event_def process_ready_stream_for_response_def
      process_ready_stream_for_empty_response_def
      process_ready_stream_for_validated_minimal_response_def)+

lemma completion_eq_close:
  "complete_response_send_for_stream conn rb len sid code = (1, close_stream conn sid)"
  "dispatch_response_send_finished_via_scheduler conn rb len sid code = (1, close_stream conn sid)"
  by (simp_all add: complete_response_send_for_stream_def complete_response_send_def
      dispatch_response_send_finished_via_scheduler_def
      dispatch_response_send_finished_for_stream_event_def Let_def)

text \<open>An event does what the entry point with the same name does; a fragment with FIN is the fragment, then FIN.\<close>

lemma dispatch_shell_event_entry_points:
  "dispatch_shell_event (AuthenticatedStreamData p f) (conn, m) =
     (let (code, ctx, m1) = dispatch_authenticated_stream_data (stream_at conn p) (msif_stream_id f) (msif_data f) (msif_len f) m;
          ctx' = (if msif_fin f then snd (dispatch_authenticated_stream_fin ctx m1) else ctx) in
      (set_stream conn p ctx', m1))"
  "dispatch_shell_event (ProcessingReady rb cap sid) (conn, m) =
     (conn, snd (dispatch_ready_stream_for_response_via_scheduler conn rb cap sid m))"
  "dispatch_shell_event (ResponseSendFinished d outcome) (conn, m) =
     (snd (dispatch_response_send_finished_via_scheduler conn (mssd_data d) (mssd_len d) (mssd_stream_id d)
        (if outcome = SendCompleted then 0 else 1)), m)"
proof -
  show "dispatch_shell_event (AuthenticatedStreamData p f) (conn, m) =
     (let (code, ctx, m1) = dispatch_authenticated_stream_data (stream_at conn p) (msif_stream_id f) (msif_data f) (msif_len f) m;
          ctx' = (if msif_fin f then snd (dispatch_authenticated_stream_fin ctx m1) else ctx) in
      (set_stream conn p ctx', m1))"
    by (simp add: dispatch_shell_event_def handle_authenticated_stream_fragment_def
        dispatch_authenticated_stream_data_def dispatch_authenticated_stream_fin_def Let_def split: prod.split)
  show "dispatch_shell_event (ProcessingReady rb cap sid) (conn, m) =
     (conn, snd (dispatch_ready_stream_for_response_via_scheduler conn rb cap sid m))"
    by (simp add: dispatch_shell_event_def dispatch_ready_stream_for_response_via_scheduler_def
        dispatch_minimal_worker_error_response_event_def dispatch_ready_def split_beta
        split: option.split)
  show "dispatch_shell_event (ResponseSendFinished d outcome) (conn, m) =
     (snd (dispatch_response_send_finished_via_scheduler conn (mssd_data d) (mssd_len d) (mssd_stream_id d)
        (if outcome = SendCompleted then 0 else 1)), m)"
    by (simp add: dispatch_shell_event_def completion_eq_close complete_response_send_def)
qed

end
