(* ===== verification/Pulse_Stream.thy ===== *)
theory Pulse_Stream
  imports Boundary
begin

text \<open>
  The candidate stream lane: the toolchain-neutral phase encoding and entry points of
  \<^verbatim>\<open>src/migration/c/ism_pulse_stream.c\<close> with \<^verbatim>\<open>pulse_phase_decode.h\<close>, the candidate
  implementation \<^verbatim>\<open>src/migration/DNS.Migration.PulseStream.fst\<close> and the stable-side marshaler
  \<^verbatim>\<open>src/shell/pulse_stream_adapter.c\<close>.

  The neutral encoding round-trips, a bad descriptor is answered with Done and code 3 and
  touches no memory, and on a well-formed context with separate buffers the candidate
  lane computes what the stable lane computes (\<open>pulse_ingress_data_eq\<close>,
  \<open>pulse_ingress_fin_eq\<close>).
\<close>

section \<open>Neutral ABI\<close>

definition ISM_PULSE_STREAM_ABI_VERSION :: u32 where "ISM_PULSE_STREAM_ABI_VERSION = 1"
definition ISM_PULSE_LENGTH :: u8 where "ISM_PULSE_LENGTH = 0"
definition ISM_PULSE_LENGTH_HIGH :: u8 where "ISM_PULSE_LENGTH_HIGH = 1"
definition ISM_PULSE_BODY :: u8 where "ISM_PULSE_BODY = 2"
definition ISM_PULSE_AWAITING_FIN :: u8 where "ISM_PULSE_AWAITING_FIN = 3"
definition ISM_PULSE_PROCESSING :: u8 where "ISM_PULSE_PROCESSING = 4"
definition ISM_PULSE_DONE :: u8 where "ISM_PULSE_DONE = 5"
definition ISM_PULSE_MESSAGE_CAPACITY :: nat where "ISM_PULSE_MESSAGE_CAPACITY = 65535"

lemmas pulse_tags = ISM_PULSE_LENGTH_def ISM_PULSE_LENGTH_HIGH_def ISM_PULSE_BODY_def
  ISM_PULSE_AWAITING_FIN_def ISM_PULSE_PROCESSING_def ISM_PULSE_DONE_def

record ism_pulse_phase =
  wp_expected :: u32
  wp_current :: u32
  wp_tag :: u8
  wp_high :: u8

record ism_pulse_result =
  wr_phase :: ism_pulse_phase
  wr_code :: u8

definition ism_pulse_stream_abi_version :: u32 where
  "ism_pulse_stream_abi_version = ISM_PULSE_STREAM_ABI_VERSION"

text \<open>A designated initialiser that names only the tag: every other field is zero.\<close>

definition wire_tagged :: "u8 \<Rightarrow> ism_pulse_phase" where
  "wire_tagged tag = \<lparr>wp_expected = 0, wp_current = 0, wp_tag = tag, wp_high = 0\<rparr>"

text \<open>\<open>None\<close>: the function returns \<open>false\<close>.\<close>

definition ism_pulse_decode_phase :: "ism_pulse_phase \<Rightarrow> model_phase option" where
  "ism_pulse_decode_phase p =
     (if wp_tag p = ISM_PULSE_LENGTH then Some ReadingLength
      else if wp_tag p = ISM_PULSE_LENGTH_HIGH then Some (ReadingLengthHigh (wp_high p))
      else if wp_tag p = ISM_PULSE_BODY then
        (if unat (wp_expected p) > ISM_PULSE_MESSAGE_CAPACITY then None
         else Some (ReadingMessage (wp_expected p) (wp_current p)))
      else if wp_tag p = ISM_PULSE_AWAITING_FIN then
        (if unat (wp_expected p) > ISM_PULSE_MESSAGE_CAPACITY then None
         else Some (AwaitingFin (wp_expected p)))
      else if wp_tag p = ISM_PULSE_PROCESSING then
        (if unat (wp_expected p) > ISM_PULSE_MESSAGE_CAPACITY then None
         else Some (Processing (wp_expected p)))
      else if wp_tag p = ISM_PULSE_DONE then Some Done
      else None)"

definition rejected :: ism_pulse_result where
  "rejected = \<lparr>wr_phase = wire_tagged ISM_PULSE_DONE, wr_code = 3\<rparr>"

fun encode :: "model_phase \<Rightarrow> ism_pulse_result" where
  "encode ReadingLength = \<lparr>wr_phase = wire_tagged ISM_PULSE_LENGTH, wr_code = 0\<rparr>"
| "encode (ReadingLengthHigh hi) =
     \<lparr>wr_phase = (wire_tagged ISM_PULSE_LENGTH_HIGH)\<lparr>wp_high := hi\<rparr>, wr_code = 0\<rparr>"
| "encode (ReadingMessage expected current) =
     \<lparr>wr_phase = (wire_tagged ISM_PULSE_BODY)\<lparr>wp_expected := expected, wp_current := current\<rparr>,
      wr_code = 1\<rparr>"
| "encode (AwaitingFin expected) =
     \<lparr>wr_phase = (wire_tagged ISM_PULSE_AWAITING_FIN)\<lparr>wp_expected := expected\<rparr>, wr_code = 4\<rparr>"
| "encode (Processing expected) =
     \<lparr>wr_phase = (wire_tagged ISM_PULSE_PROCESSING)\<lparr>wp_expected := expected\<rparr>, wr_code = 2\<rparr>"
| "encode Done = rejected"

definition range_ok :: "addr \<Rightarrow> nat \<Rightarrow> bool" where
  "range_ok p n \<longleftrightarrow> p \<noteq> NULL \<and> n \<le> UINTPTR_MAX - p"

definition disjoint :: "addr \<Rightarrow> nat \<Rightarrow> addr \<Rightarrow> nat \<Rightarrow> bool" where
  "disjoint a an b bn \<longleftrightarrow> range_ok a an \<and> range_ok b bn \<and> (a + an \<le> b \<or> b + bn \<le> a)"

lemma disjoint_ranges: "disjoint a n b k \<Longrightarrow> ranges_disjoint a n b k"
  by (simp add: disjoint_def ranges_disjoint_def)

section \<open>Candidate implementation\<close>

text \<open>\<^verbatim>\<open>DNS.Migration.PulseStream.stream_context\<close> over the shared model phases.\<close>

record pulse_context =
  pc_id :: u64
  pc_phase :: model_phase
  pc_buf :: addr

function copy_range_from :: "addr \<Rightarrow> addr \<Rightarrow> nat \<Rightarrow> nat \<Rightarrow> nat \<Rightarrow> nat \<Rightarrow> mem \<Rightarrow> mem" where
  "copy_range_from src dst source destination count vi m =
     (if vi < count then
        let from = source + vi;
            into = destination + vi;
            byte = m (src + from) in
        copy_range_from src dst source destination count (vi + 1) (m(dst + into := byte))
      else m)"
  by pat_completeness auto

termination
  by (relation "measure (\<lambda>(src, dst, source, destination, n, i, m). n - i)") auto

declare copy_range_from.simps [simp del]

definition copy_range :: "addr \<Rightarrow> addr \<Rightarrow> nat \<Rightarrow> nat \<Rightarrow> nat \<Rightarrow> mem \<Rightarrow> mem" where
  "copy_range src dst source destination count m =
     copy_range_from src dst source destination count 0 m"

definition pulse_handle_stream_data ::
  "pulse_context \<Rightarrow> addr \<Rightarrow> u32 \<Rightarrow> mem \<Rightarrow> model_phase \<times> pulse_context \<times> mem" where
  "pulse_handle_stream_data state data len m =
     (let first = (if len > 0 then m data else 0);
          second = (if len > 1 then m (data + 1) else 0);
          phase = fragment_phase (pc_phase state) len first second;
          plan = fragment_copy_plan (pc_phase state) len first second;
          m' = copy_range data (pc_buf state) (unat (source_offset plan))
                 (unat (destination_offset plan)) (unat (copy_count plan)) m in
      (phase, state\<lparr>pc_phase := phase\<rparr>, m'))"

definition pulse_handle_stream_fin :: "pulse_context \<Rightarrow> mem \<Rightarrow> model_phase \<times> pulse_context" where
  "pulse_handle_stream_fin state m =
     (let hi = m (pc_buf state);
          lo = m (pc_buf state + 1);
          phase = finish_doq_phase (pc_phase state) hi lo in
      (phase, state\<lparr>pc_phase := phase\<rparr>))"

section \<open>C entry points\<close>

text \<open>\<open>empty_p\<close> (\<^verbatim>\<open>&empty\<close>) is the address of the local byte that stands in for an empty fragment; its
  contents are never read.\<close>

definition ism_pulse_stream_data ::
  "addr \<Rightarrow> ism_pulse_phase \<Rightarrow> u64 \<Rightarrow> addr \<Rightarrow> nat \<Rightarrow> addr \<Rightarrow> nat \<Rightarrow> u32 \<Rightarrow> mem
     \<Rightarrow> ism_pulse_result \<times> mem" where
  "ism_pulse_stream_data empty_p phase stream_id message message_capacity input input_capacity len m =
     (case ism_pulse_decode_phase phase of
        None \<Rightarrow> (rejected, m)
      | Some decoded \<Rightarrow>
          if message_capacity < ISM_PULSE_MESSAGE_CAPACITY \<or> \<not> range_ok message message_capacity
             \<or> unat len > input_capacity then (rejected, m)
          else if len \<noteq> 0 \<and> \<not> disjoint message message_capacity input input_capacity then (rejected, m)
          else
            let input' = (if len = 0 then empty_p else input);
                context = \<lparr>pc_id = stream_id, pc_phase = decoded, pc_buf = message\<rparr>;
                (out, context', m') = pulse_handle_stream_data context input' len m in
            (encode out, m'))"

definition ism_pulse_stream_fin ::
  "ism_pulse_phase \<Rightarrow> u64 \<Rightarrow> addr \<Rightarrow> nat \<Rightarrow> mem \<Rightarrow> ism_pulse_result" where
  "ism_pulse_stream_fin phase stream_id message message_capacity m =
     (case ism_pulse_decode_phase phase of
        None \<Rightarrow> rejected
      | Some decoded \<Rightarrow>
          if message_capacity < 2 \<or> \<not> range_ok message message_capacity then rejected
          else
            let context = \<lparr>pc_id = stream_id, pc_phase = decoded, pc_buf = message\<rparr>;
                (out, context') = pulse_handle_stream_fin context m in
            encode out)"

section \<open>Stable-side marshaler\<close>

fun ism_pulse_phase_to_wire :: "stream_phase \<Rightarrow> ism_pulse_phase" where
  "ism_pulse_phase_to_wire S_ReadingLength = wire_tagged ISM_PULSE_LENGTH"
| "ism_pulse_phase_to_wire (S_ReadingLengthHigh hi) =
     (wire_tagged ISM_PULSE_LENGTH_HIGH)\<lparr>wp_high := hi\<rparr>"
| "ism_pulse_phase_to_wire (S_ReadingMessage (expected, current)) =
     (wire_tagged ISM_PULSE_BODY)\<lparr>wp_expected := expected, wp_current := current\<rparr>"
| "ism_pulse_phase_to_wire (S_AwaitingFin expected) =
     (wire_tagged ISM_PULSE_AWAITING_FIN)\<lparr>wp_expected := expected\<rparr>"
| "ism_pulse_phase_to_wire (S_Processing expected) =
     (wire_tagged ISM_PULSE_PROCESSING)\<lparr>wp_expected := expected\<rparr>"
| "ism_pulse_phase_to_wire S_Done = wire_tagged ISM_PULSE_DONE"

definition ism_pulse_phase_from_wire :: "ism_pulse_phase \<Rightarrow> stream_phase" where
  "ism_pulse_phase_from_wire p =
     (if wp_tag p = ISM_PULSE_LENGTH then S_ReadingLength
      else if wp_tag p = ISM_PULSE_LENGTH_HIGH then S_ReadingLengthHigh (wp_high p)
      else if wp_tag p = ISM_PULSE_BODY then S_ReadingMessage (wp_expected p, wp_current p)
      else if wp_tag p = ISM_PULSE_AWAITING_FIN then S_AwaitingFin (wp_expected p)
      else if wp_tag p = ISM_PULSE_PROCESSING then S_Processing (wp_expected p)
      else S_Done)"

text \<open>A context argument is \<open>None\<close> for \<open>NULL\<close>, otherwise its contents.\<close>

definition reject :: "stream_context option \<Rightarrow> u8 \<times> stream_context option" where
  "reject stream = (3, map_option (\<lambda>c. c\<lparr>sc_phase := S_Done\<rparr>) stream)"

definition ism_pulse_ingress_data ::
  "addr \<Rightarrow> stream_context option \<Rightarrow> u64 \<Rightarrow> addr \<Rightarrow> u32 \<Rightarrow> mem
     \<Rightarrow> u8 \<times> stream_context option \<times> mem" where
  "ism_pulse_ingress_data empty_p stream stream_id data len m =
     (case stream of
        None \<Rightarrow> (let (code, s) = reject stream in (code, s, m))
      | Some c \<Rightarrow>
          if sc_id c \<noteq> stream_id \<or> ism_pulse_stream_abi_version \<noteq> ISM_PULSE_STREAM_ABI_VERSION
          then (let (code, s) = reject stream in (code, s, m))
          else
            let (result, m') = ism_pulse_stream_data empty_p (ism_pulse_phase_to_wire (sc_phase c))
                  stream_id (sc_buf c) ISM_SHELL_STREAM_BUFFER_SIZE data (unat len) len m in
            (wr_code result,
             Some (c\<lparr>sc_phase := ism_pulse_phase_from_wire (wr_phase result)\<rparr>), m'))"

definition ism_pulse_ingress_fin ::
  "stream_context option \<Rightarrow> mem \<Rightarrow> u8 \<times> stream_context option" where
  "ism_pulse_ingress_fin stream m =
     (case stream of
        None \<Rightarrow> reject stream
      | Some c \<Rightarrow>
          if ism_pulse_stream_abi_version \<noteq> ISM_PULSE_STREAM_ABI_VERSION then reject stream
          else
            let result = ism_pulse_stream_fin (ism_pulse_phase_to_wire (sc_phase c)) (sc_id c)
                  (sc_buf c) ISM_SHELL_STREAM_BUFFER_SIZE m in
            (wr_code result,
             Some (c\<lparr>sc_phase := ism_pulse_phase_from_wire (wr_phase result)\<rparr>)))"

section \<open>The encoding round-trips\<close>

lemma decode_to_wire:
  "phase_bounded (to_model p) \<Longrightarrow> ism_pulse_decode_phase (ism_pulse_phase_to_wire p) = Some (to_model p)"
  by (cases p rule: to_model.cases)
    (auto simp: ism_pulse_decode_phase_def wire_tagged_def pulse_tags ISM_PULSE_MESSAGE_CAPACITY_def
      word_le_nat_alt)

lemma decode_unbounded:
  "\<not> phase_bounded (to_model p) \<Longrightarrow> ism_pulse_decode_phase (ism_pulse_phase_to_wire p) = None"
  by (cases p rule: to_model.cases)
    (auto simp: ism_pulse_decode_phase_def wire_tagged_def pulse_tags ISM_PULSE_MESSAGE_CAPACITY_def
      word_le_nat_alt)

lemma from_wire_to_wire [simp]: "ism_pulse_phase_from_wire (ism_pulse_phase_to_wire p) = p"
  by (cases p rule: to_model.cases) (auto simp: ism_pulse_phase_from_wire_def wire_tagged_def pulse_tags)

lemma from_wire_encode [simp]: "ism_pulse_phase_from_wire (wr_phase (encode p)) = from_model p"
  by (cases p) (auto simp: ism_pulse_phase_from_wire_def wire_tagged_def rejected_def pulse_tags)

lemma code_encode [simp]: "wr_code (encode p) = shell_phase_code (from_model p)"
  by (cases p) (auto simp: rejected_def)

section \<open>The candidate lane computes what the stable lane computes\<close>

lemma copy_range_from_eq_mem_copy:
  assumes "ranges_disjoint (src + source) count (dst + destination) count" and "vi \<le> count"
  shows "copy_range_from src dst source destination count vi m =
    mem_copy m (dst + destination + vi) (src + source + vi) (count - vi)"
  using assms
proof (induction src dst source destination count vi m rule: copy_range_from.induct)
  case (1 src dst s d n i m)
  show ?case
  proof (cases "i < n")
    case False
    with "1.prems" show ?thesis by (subst copy_range_from.simps) simp
  next
    case True
    let ?m = "m(dst + (d + i) := m (src + (s + i)))"
    have "copy_range_from src dst s d n i m = copy_range_from src dst s d n (i + 1) ?m"
      using True by (subst copy_range_from.simps) (simp add: Let_def)
    also have "\<dots> = mem_copy ?m (dst + d + (i + 1)) (src + s + (i + 1)) (n - (i + 1))"
      using "1.prems" True by (intro "1.IH") auto
    also have "\<dots> = mem_copy m (dst + d + i) (src + s + i) (n - i)"
    proof (rule ext)
      fix a
      show "mem_copy ?m (dst + d + (i + 1)) (src + s + (i + 1)) (n - (i + 1)) a =
          mem_copy m (dst + d + i) (src + s + i) (n - i) a"
      proof (cases "dst + d + i < a \<and> a < dst + d + n")
        case True
        then obtain k where "a = Suc (dst + d + i + k)"
          using less_imp_Suc_add by blast
        with True "1.prems"(1) show ?thesis
          by (auto simp: mem_copy_def ranges_disjoint_def)
      next
        case False
        with True "1.prems"(1) show ?thesis
          by (auto simp: mem_copy_def ranges_disjoint_def)
      qed
    qed
    finally show ?thesis .
  qed
qed

lemma copy_range_eq_mem_copy:
  "ranges_disjoint (src + source) count (dst + destination) count \<Longrightarrow>
   copy_range src dst source destination count m = mem_copy m (dst + destination) (src + source) count"
  by (simp add: copy_range_def copy_range_from_eq_mem_copy)

lemma copy_range_0 [simp]: "copy_range src dst source destination 0 m = m"
  by (simp add: copy_range_def copy_range_from.simps)

text \<open>What the caller of the ingress owes: a live message buffer, and a fragment that does not
  overlap it. The source states this in \<^verbatim>\<open>ism_pulse_stream.h\<close>.\<close>

definition ingress_separate :: "stream_context \<Rightarrow> addr \<Rightarrow> u32 \<Rightarrow> bool" where
  "ingress_separate c data len \<longleftrightarrow>
     range_ok (sc_buf c) 65535 \<and> (len \<noteq> 0 \<longrightarrow> disjoint (sc_buf c) 65535 data (unat len))"

lemma zero_fragment_plan: "copy_count (fragment_copy_plan phase 0 first second) = 0"
  using fragment_copy_plan_source [of phase 0 first second] by (simp add: unat_eq_0)

lemma pulse_handle_stream_data_eq:
  assumes bounded: "phase_bounded (to_model (sc_phase c))"
    and sep: "ingress_separate c data len"
    and run: "handle_stream_data c data len m = (phase, c', m')"
  shows "pulse_handle_stream_data
      \<lparr>pc_id = sid, pc_phase = to_model (sc_phase c), pc_buf = sc_buf c\<rparr>
      (if len = 0 then empty_p else data) len m
    = (to_model phase, \<lparr>pc_id = sid, pc_phase = to_model phase, pc_buf = sc_buf c\<rparr>, m')"
proof -
  let ?first = "if len > 0 then m data else 0" and ?second = "if len > 1 then m (data + 1) else 0"
  let ?plan = "fragment_copy_plan (to_model (sc_phase c)) len ?first ?second"
  have src: "unat (source_offset ?plan) + unat (copy_count ?plan) \<le> unat len"
    if "len \<noteq> 0" by (rule fragment_copy_plan_source)
  have dst: "unat (destination_offset ?plan) + unat (copy_count ?plan) \<le> 65535"
    using bounded by (rule fragment_copy_plan_destination)
  have copy: "copy_range (if len = 0 then empty_p else data) (sc_buf c) (unat (source_offset ?plan))
      (unat (destination_offset ?plan)) (unat (copy_count ?plan)) m = copy_body_bytes c data len m"
  proof (cases "len = 0")
    case True
    then show ?thesis by (simp add: copy_body_bytes_def zero_fragment_plan)
  next
    case False
    with sep have "ranges_disjoint (sc_buf c) 65535 data (unat len)"
      by (auto simp: ingress_separate_def disjoint_def ranges_disjoint_def)
    with src [OF False] dst
    have "ranges_disjoint (data + unat (source_offset ?plan)) (unat (copy_count ?plan))
        (sc_buf c + unat (destination_offset ?plan)) (unat (copy_count ?plan))"
      by (auto simp: ranges_disjoint_def)
    from copy_range_eq_mem_copy [OF this] False show ?thesis
      by (simp add: copy_body_bytes_def Let_def word_less_nat_alt)
  qed
  have bytes: "(if len > 0 then m (if len = 0 then empty_p else data) else 0) = ?first"
      "(if len > 1 then m ((if len = 0 then empty_p else data) + 1) else 0) = ?second"
    by (auto simp: word_less_nat_alt)
  show ?thesis
    using run unfolding pulse_handle_stream_data_def bytes
    by (auto simp: handle_stream_data_def Let_def copy [simplified] next_stream_phase_def stream_fragment_phase_def)
qed

theorem pulse_ingress_data_eq:
  assumes bounded: "phase_bounded (to_model (sc_phase c))" and sep: "ingress_separate c data len"
    and run: "dispatch_authenticated_stream_data c (sc_id c) data len m = (code, c', m')"
  shows "ism_pulse_ingress_data empty_p (Some c) (sc_id c) data len m = (code, Some c', m')"
proof -
  obtain phase where h: "handle_stream_data c data len m = (phase, c', m')"
    and code: "code = shell_phase_code phase"
    using run by (auto simp: dispatch_authenticated_stream_data_def split: prod.splits)
  from handle_stream_data_ctx [OF h] have c': "c' = c\<lparr>sc_phase := phase\<rparr>" .
  from sep have "range_ok (sc_buf c) 65535" and "len \<noteq> 0 \<Longrightarrow> disjoint (sc_buf c) 65535 data (unat len)"
    by (auto simp: ingress_separate_def)
  then show ?thesis
    using pulse_handle_stream_data_eq [OF bounded sep h, of "sc_id c" empty_p]
    by (auto simp: ism_pulse_ingress_data_def ism_pulse_stream_abi_version_def Let_def
        ism_pulse_stream_data_def decode_to_wire [OF bounded] ISM_SHELL_STREAM_BUFFER_SIZE_def
        ISM_PULSE_MESSAGE_CAPACITY_def code c')
qed

theorem pulse_ingress_fin_eq:
  assumes bounded: "phase_bounded (to_model (sc_phase c))" and range: "range_ok (sc_buf c) 65535"
    and run: "dispatch_authenticated_stream_fin c m = (code, c')"
  shows "ism_pulse_ingress_fin (Some c) m = (code, Some c')"
  using run range
  by (auto simp: ism_pulse_ingress_fin_def ism_pulse_stream_abi_version_def Let_def
      ism_pulse_stream_fin_def decode_to_wire [OF bounded] ISM_SHELL_STREAM_BUFFER_SIZE_def
      pulse_handle_stream_fin_def dispatch_authenticated_stream_fin_def handle_stream_fin_def
      stream_finish_doq_phase_def)

section \<open>Rejection\<close>

lemma pulse_stream_data_rejects:
  assumes "ism_pulse_decode_phase phase = None \<or> cap < 65535 \<or> \<not> range_ok message cap \<or>
    unat len > icap \<or> len \<noteq> 0 \<and> \<not> disjoint message cap input icap"
  shows "ism_pulse_stream_data empty_p phase sid message cap input icap len m = (rejected, m)"
  using assms by (auto simp: ism_pulse_stream_data_def ISM_PULSE_MESSAGE_CAPACITY_def split: option.splits)

end
