(* ===== verification/Pulse_Table.thy ===== *)
theory Pulse_Table
  imports Pulse_Stream
begin

text \<open>
  The candidate table lane: the neutral table descriptor and \<^verbatim>\<open>ism_pulse_table_apply\<close> of
  \<^verbatim>\<open>src/migration/c/ism_pulse_table.c\<close>, the candidate table operations of
  \<^verbatim>\<open>src/migration/DNS.Migration.PulseMultiplexer.fst\<close>, and the shell's marshaler
  \<^verbatim>\<open>src/shell/pulse_table_adapter.c\<close>.

  On a connection that satisfies its invariant, placed in memory so that the descriptor
  and the four message buffers are separate (\<open>storage_ok\<close>), the marshaled operations
  compute what the stable table computes.
\<close>

section \<open>Neutral ABI\<close>

definition ISM_PULSE_TABLE_ABI_VERSION :: u32 where "ISM_PULSE_TABLE_ABI_VERSION = 1"
definition ISM_PULSE_TABLE_SLOTS :: nat where "ISM_PULSE_TABLE_SLOTS = 4"
definition ISM_PULSE_TABLE_FIND :: u32 where "ISM_PULSE_TABLE_FIND = 0"
definition ISM_PULSE_TABLE_ALLOCATE :: u32 where "ISM_PULSE_TABLE_ALLOCATE = 1"
definition ISM_PULSE_TABLE_CLOSE :: u32 where "ISM_PULSE_TABLE_CLOSE = 2"
definition ISM_PULSE_TABLE_INVALID :: u32 where "ISM_PULSE_TABLE_INVALID = 0xffffffff"

record ism_pulse_table_slot =
  ts_id :: u64
  ts_phase :: ism_pulse_phase
  ts_message :: addr
  ts_message_capacity :: nat

record ism_pulse_table =
  wt_slots :: "ism_pulse_table_slot list"
  wt_order :: "u32 list"
  wt_count :: u32
  wt_capacity :: u32

text \<open>The layout that the static assertions of the header fix.\<close>

definition sizeof_ism_pulse_table :: nat where "sizeof_ism_pulse_table = 184"
definition alignof_ism_pulse_table :: nat where "alignof_ism_pulse_table = 8"

definition ism_pulse_table_abi_version :: u32 where
  "ism_pulse_table_abi_version = ISM_PULSE_TABLE_ABI_VERSION"

lemmas pulse_table_consts = ISM_PULSE_TABLE_ABI_VERSION_def ISM_PULSE_TABLE_SLOTS_def
  ISM_PULSE_TABLE_FIND_def ISM_PULSE_TABLE_ALLOCATE_def ISM_PULSE_TABLE_CLOSE_def
  ISM_PULSE_TABLE_INVALID_def sizeof_ism_pulse_table_def alignof_ism_pulse_table_def
  ISM_PULSE_MESSAGE_CAPACITY_def ism_pulse_table_abi_version_def

section \<open>Candidate table operations\<close>

text \<open>\<^verbatim>\<open>cc_active\<close> holds pointers into the local array \<^verbatim>\<open>contexts\<close>: indices of it here.\<close>

record pulse_connection =
  pcc_active :: "nat list"
  pcc_num :: u32
  pcc_capacity :: u32

function find_index_from :: "pulse_context list \<Rightarrow> nat list \<Rightarrow> nat \<Rightarrow> u64 \<Rightarrow> nat \<Rightarrow> nat" where
  "find_index_from contexts table count sid idx =
     (if idx < count then
        let value = contexts ! (table ! idx) in
        if pc_id value = sid then idx
        else find_index_from contexts table count sid (idx + 1)
      else idx)"
  by pat_completeness auto

termination
  by (relation "measure (\<lambda>(cs, t, n, sid, i). n - i)") auto

declare find_index_from.simps [simp del]

definition find_index :: "pulse_context list \<Rightarrow> nat list \<Rightarrow> u32 \<Rightarrow> u64 \<Rightarrow> u32" where
  "find_index contexts table count sid = of_nat (find_index_from contexts table (unat count) sid 0)"

definition pulse_find_stream :: "pulse_context list \<Rightarrow> pulse_connection \<Rightarrow> u64 \<Rightarrow> u32" where
  "pulse_find_stream contexts conn sid = find_index contexts (pcc_active conn) (pcc_num conn) sid"

definition pulse_allocate_stream ::
  "pulse_context list \<Rightarrow> pulse_connection \<Rightarrow> u64 \<Rightarrow> u32 \<times> pulse_context list \<times> pulse_connection" where
  "pulse_allocate_stream contexts c sid =
     (let existing = find_index contexts (pcc_active c) (pcc_num c) sid in
      if existing < pcc_num c \<or> \<not> pcc_num c < pcc_capacity c then (pcc_capacity c, contexts, c)
      else
        let p = pcc_active c ! unat (pcc_num c);
            old = contexts ! p;
            fresh = old\<lparr>pc_id := sid, pc_phase := ReadingLength\<rparr> in
        (pcc_num c, contexts[p := fresh], c\<lparr>pcc_num := pcc_num c + 1\<rparr>))"

definition pulse_close_stream ::
  "pulse_context list \<Rightarrow> pulse_connection \<Rightarrow> u64 \<Rightarrow> bool \<times> pulse_connection" where
  "pulse_close_stream contexts c sid =
     (let found = find_index contexts (pcc_active c) (pcc_num c) sid in
      if found < pcc_num c then
        let last = pcc_num c - 1;
            removed = pcc_active c ! unat found;
            final = pcc_active c ! unat last in
        (True, c\<lparr>pcc_active := (pcc_active c)[unat last := removed, unat found := final],
                 pcc_num := last\<rparr>)
      else (False, c))"

section \<open>The C entry point\<close>

text \<open>The loop that checks the descriptor and builds the local contexts and the pointer
  array, over the remaining slot numbers; \<open>None\<close> is the return of \<^verbatim>\<open>ISM_PULSE_TABLE_INVALID\<close>.
  \<open>wire_p\<close> is the address of the descriptor.\<close>

fun table_contexts ::
  "addr \<Rightarrow> ism_pulse_table \<Rightarrow> nat list \<Rightarrow> (pulse_context list \<times> nat list) option" where
  "table_contexts wire_p wire [] = Some ([], [])"
| "table_contexts wire_p wire (i # rest) =
     (let slot = wt_slots wire ! i in
      if unat (wt_order wire ! i) \<ge> ISM_PULSE_TABLE_SLOTS
         \<or> ts_message_capacity slot < ISM_PULSE_MESSAGE_CAPACITY
         \<or> \<not> disjoint wire_p sizeof_ism_pulse_table (ts_message slot) (ts_message_capacity slot)
      then None
      else
        (case ism_pulse_decode_phase (ts_phase slot) of
           None \<Rightarrow> None
         | Some phase \<Rightarrow>
             if list_ex (\<lambda>j. wt_order wire ! i = wt_order wire ! j \<or>
                   \<not> disjoint (ts_message slot) (ts_message_capacity slot)
                       (ts_message (wt_slots wire ! j)) (ts_message_capacity (wt_slots wire ! j)))
                 [0..<i]
             then None
             else
               (case table_contexts wire_p wire rest of
                  None \<Rightarrow> None
                | Some (contexts, order) \<Rightarrow>
                    Some (\<lparr>pc_id = ts_id slot, pc_phase = phase, pc_buf = ts_message slot\<rparr> # contexts,
                          unat (wt_order wire ! i) # order))))"

definition ism_pulse_table_apply ::
  "addr \<Rightarrow> ism_pulse_table \<Rightarrow> u32 \<Rightarrow> u64 \<Rightarrow> u32 \<times> ism_pulse_table" where
  "ism_pulse_table_apply wire_p wire operation sid =
     (if \<not> range_ok wire_p sizeof_ism_pulse_table \<or> wire_p mod alignof_ism_pulse_table \<noteq> 0
         \<or> operation > ISM_PULSE_TABLE_CLOSE then (ISM_PULSE_TABLE_INVALID, wire)
      else if wt_count wire > wt_capacity wire \<or> unat (wt_capacity wire) > ISM_PULSE_TABLE_SLOTS
      then (ISM_PULSE_TABLE_INVALID, wire)
      else
        (case table_contexts wire_p wire [0..<ISM_PULSE_TABLE_SLOTS] of
           None \<Rightarrow> (ISM_PULSE_TABLE_INVALID, wire)
         | Some (contexts, order) \<Rightarrow>
             let conn = \<lparr>pcc_active = order, pcc_num = wt_count wire, pcc_capacity = wt_capacity wire\<rparr> in
             if operation = ISM_PULSE_TABLE_FIND then (pulse_find_stream contexts conn sid, wire)
             else if operation = ISM_PULSE_TABLE_ALLOCATE then
               let (result, contexts', conn') = pulse_allocate_stream contexts conn sid in
               if result < wt_capacity wire then
                 let physical = unat (wt_order wire ! unat result) in
                 (result, wire\<lparr>wt_slots := (wt_slots wire)[physical :=
                              (wt_slots wire ! physical)\<lparr>ts_id := pc_id (contexts' ! physical),
                                 ts_phase := wire_tagged ISM_PULSE_LENGTH\<rparr>],
                              wt_count := pcc_num conn'\<rparr>)
               else (result, wire)
             else
               let (closed, conn') = pulse_close_stream contexts conn sid in
               (if closed then 1 else 0,
                if closed then
                  wire\<lparr>wt_order := map (\<lambda>i. of_nat (pcc_active conn' ! i)) [0..<ISM_PULSE_TABLE_SLOTS],
                       wt_count := pcc_num conn'\<rparr>
                else wire)))"

section \<open>Marshaler\<close>

text \<open>The first loop of \<^verbatim>\<open>snapshot\<close> over the remaining table positions: the physical slot of each
  table entry, rejecting a foreign or repeated pointer, and the expected activity of each slot.\<close>

fun snapshot_order ::
  "ism_shell_connection \<Rightarrow> nat list \<Rightarrow> bool list \<Rightarrow> bool list \<Rightarrow> (u32 list \<times> bool list) option" where
  "snapshot_order conn [] seen active = Some ([], active)"
| "snapshot_order conn (i # rest) seen active =
     (case find (\<lambda>k. active_at conn i = Some k) [0..<ISM_SHELL_MAX_STREAMS] of
        None \<Rightarrow> None
      | Some physical \<Rightarrow>
          if seen ! physical then None
          else
            (case snapshot_order conn rest (seen[physical := True])
                    (active[physical := (i < active_count conn)]) of
               None \<Rightarrow> None
             | Some (order, active') \<Rightarrow> Some (of_nat physical # order, active')))"

text \<open>The second loop: every slot must use its own buffer and have the expected activity.\<close>

fun snapshot_slots ::
  "ism_shell_connection \<Rightarrow> bool list \<Rightarrow> nat list \<Rightarrow> ism_pulse_table_slot list option" where
  "snapshot_slots conn active [] = Some []"
| "snapshot_slots conn active (i # rest) =
     (let s = conn_streams conn ! i in
      if sc_buf (ss_ctx s) \<noteq> message_buffer s \<or> ss_active s \<noteq> active ! i then None
      else
        (case snapshot_slots conn active rest of
           None \<Rightarrow> None
         | Some slots \<Rightarrow>
             Some (\<lparr>ts_id = sc_id (ss_ctx s), ts_phase = ism_pulse_phase_to_wire (sc_phase (ss_ctx s)),
                    ts_message = message_buffer s,
                    ts_message_capacity = ISM_SHELL_STREAM_BUFFER_SIZE\<rparr> # slots)))"

definition snapshot :: "ism_shell_connection option \<Rightarrow> ism_pulse_table option" where
  "snapshot conn_p =
     (case conn_p of
        None \<Rightarrow> None
      | Some conn \<Rightarrow>
          if ism_pulse_table_abi_version \<noteq> ISM_PULSE_TABLE_ABI_VERSION
             \<or> cc_active (conn_ctx conn) \<noteq> ConnActive
             \<or> cc_num (conn_ctx conn) > cc_capacity (conn_ctx conn)
             \<or> unat (cc_capacity (conn_ctx conn)) > ISM_SHELL_MAX_STREAMS then None
          else
            (case snapshot_order conn [0..<ISM_SHELL_MAX_STREAMS]
                    (replicate ISM_SHELL_MAX_STREAMS False) (replicate ISM_SHELL_MAX_STREAMS False) of
               None \<Rightarrow> None
             | Some (order, active) \<Rightarrow>
                 (case snapshot_slots conn active [0..<ISM_SHELL_MAX_STREAMS] of
                    None \<Rightarrow> None
                  | Some slots \<Rightarrow>
                      Some \<lparr>wt_slots = slots, wt_order = order, wt_count = cc_num (conn_ctx conn),
                            wt_capacity = cc_capacity (conn_ctx conn)\<rparr>)))"

definition ism_pulse_table_find :: "build \<Rightarrow> ism_shell_connection \<Rightarrow> u64 \<Rightarrow> ctx_ptr" where
  "ism_pulse_table_find bld conn sid =
     (case snapshot (Some conn) of
        None \<Rightarrow> None
      | Some wire \<Rightarrow>
          let (index, wire) = ism_pulse_table_apply (wire_addr bld) wire ISM_PULSE_TABLE_FIND sid in
          if index < wt_count wire then Some (unat (wt_order wire ! unat index)) else None)"

definition ism_pulse_table_open ::
  "build \<Rightarrow> ism_shell_connection \<Rightarrow> u64 \<Rightarrow> ctx_ptr \<times> ism_shell_connection" where
  "ism_pulse_table_open bld conn sid =
     (case snapshot (Some conn) of
        None \<Rightarrow> (None, conn)
      | Some wire \<Rightarrow>
          let (index, wire) = ism_pulse_table_apply (wire_addr bld) wire ISM_PULSE_TABLE_FIND sid in
          if index = ISM_PULSE_TABLE_INVALID then (None, conn)
          else if index < wt_count wire then (Some (unat (wt_order wire ! unat index)), conn)
          else
            let (index, wire) = ism_pulse_table_apply (wire_addr bld) wire ISM_PULSE_TABLE_ALLOCATE sid in
            if index \<ge> wt_capacity wire then (None, conn)
            else
              let physical = unat (wt_order wire ! unat index);
                  slot = conn_streams conn ! physical;
                  ctx' = (ss_ctx slot)\<lparr>sc_id := ts_id (wt_slots wire ! physical),
                    sc_phase := ism_pulse_phase_from_wire (ts_phase (wt_slots wire ! physical))\<rparr> in
              (Some physical,
               conn\<lparr>conn_streams := (conn_streams conn)
                      [physical := slot\<lparr>ss_ctx := ctx', ss_active := True\<rparr>],
                    conn_ctx := (conn_ctx conn)\<lparr>cc_num := wt_count wire\<rparr>\<rparr>))"

definition ism_pulse_table_close ::
  "build \<Rightarrow> ism_shell_connection \<Rightarrow> u64 \<Rightarrow> u8 \<times> ism_shell_connection" where
  "ism_pulse_table_close bld conn sid =
     (case snapshot (Some conn) of
        None \<Rightarrow> (0, conn)
      | Some wire \<Rightarrow>
          let (result, wire) = ism_pulse_table_apply (wire_addr bld) wire ISM_PULSE_TABLE_CLOSE sid in
          if result = ISM_PULSE_TABLE_INVALID then (0, conn)
          else if result = 1 then
            (1, conn\<lparr>conn_active := map (\<lambda>i. Some (unat (wt_order wire ! i))) [0..<ISM_SHELL_MAX_STREAMS],
                     conn_ctx := (conn_ctx conn)\<lparr>cc_num := wt_count wire\<rparr>\<rparr>)
          else (1, conn))"

section \<open>Placement\<close>

text \<open>What the caller owes (\<^verbatim>\<open>ism_pulse_table.h\<close>): an aligned descriptor and four separate live
  message buffers.\<close>

definition storage_ok :: "build \<Rightarrow> ism_shell_connection \<Rightarrow> bool" where
  "storage_ok bld conn \<longleftrightarrow>
     range_ok (wire_addr bld) 184 \<and> wire_addr bld mod 8 = 0 \<and>
     (\<forall>i<4. disjoint (wire_addr bld) 184 (message_buffer (conn_streams conn ! i)) 65535) \<and>
     (\<forall>i<4. \<forall>j<i. disjoint (message_buffer (conn_streams conn ! i)) 65535
                      (message_buffer (conn_streams conn ! j)) 65535)"

section \<open>What the marshaler builds\<close>

definition wire_slot :: "ism_shell_stream \<Rightarrow> ism_pulse_table_slot" where
  "wire_slot s = \<lparr>ts_id = sc_id (ss_ctx s), ts_phase = ism_pulse_phase_to_wire (sc_phase (ss_ctx s)),
     ts_message = message_buffer s, ts_message_capacity = 65535\<rparr>"

definition wire_context :: "ism_shell_stream \<Rightarrow> pulse_context" where
  "wire_context s = \<lparr>pc_id = sc_id (ss_ctx s), pc_phase = to_model (sc_phase (ss_ctx s)),
     pc_buf = message_buffer s\<rparr>"

definition wire_of :: "ism_shell_connection \<Rightarrow> ism_pulse_table" where
  "wire_of conn = \<lparr>wt_slots = map wire_slot (conn_streams conn),
     wt_order = map (of_nat \<circ> the) (conn_active conn),
     wt_count = cc_num (conn_ctx conn), wt_capacity = cc_capacity (conn_ctx conn)\<rparr>"

lemma snapshot_order_ok:
  assumes "length seen = 4" and "length act = 4"
    and "\<forall>i\<in>set is. \<exists>k<4. active_at conn i = Some k \<and> \<not> seen ! k"
    and "distinct (map (active_at conn) is)"
  shows "\<exists>act'. snapshot_order conn is seen act = Some (map (\<lambda>i. of_nat (the (active_at conn i))) is, act')
    \<and> (\<forall>i\<in>set is. act' ! the (active_at conn i) = (i < active_count conn))
    \<and> (\<forall>k. Some k \<notin> active_at conn ` set is \<longrightarrow> act' ! k = act ! k)"
  using assms
proof (induction "is" arbitrary: seen act)
  case Nil
  then show ?case by simp
next
  case (Cons i rest)
  then obtain k where k: "k < 4" "active_at conn i = Some k" "\<not> seen ! k" by auto
  have find: "find (\<lambda>k. active_at conn i = Some k) [0..<ISM_SHELL_MAX_STREAMS] = Some k"
    using k(1,2) by (auto simp: find_upt_Some ISM_SHELL_MAX_STREAMS_def)
  have fresh: "Some k \<notin> active_at conn ` set rest"
    using Cons.prems(4) k(2) by auto
  have "\<forall>j\<in>set rest. \<exists>l<4. active_at conn j = Some l \<and> \<not> seen[k := True] ! l"
  proof
    fix j assume j: "j \<in> set rest"
    then obtain l where l: "l < 4" "active_at conn j = Some l" "\<not> seen ! l"
      using Cons.prems(3) by auto
    with fresh j have "l \<noteq> k" by force
    with l show "\<exists>l<4. active_at conn j = Some l \<and> \<not> seen[k := True] ! l" by auto
  qed
  then obtain act' where rest: "snapshot_order conn rest (seen[k := True]) (act[k := (i < active_count conn)])
      = Some (map (\<lambda>i. of_nat (the (active_at conn i))) rest, act')"
    and on: "\<forall>i\<in>set rest. act' ! the (active_at conn i) = (i < active_count conn)"
    and off: "\<forall>l. Some l \<notin> active_at conn ` set rest \<longrightarrow> act' ! l = act[k := (i < active_count conn)] ! l"
    using Cons.IH [of "seen[k := True]" "act[k := (i < active_count conn)]"] Cons.prems by auto
  have "act' ! k = (i < active_count conn)"
    using off fresh k(1) Cons.prems(2) by simp
  then show ?case
    using rest on off k find by auto
qed

lemma snapshot_slots_ok:
  assumes "\<forall>i\<in>set is. sc_buf (ss_ctx (conn_streams conn ! i)) = message_buffer (conn_streams conn ! i)
    \<and> ss_active (conn_streams conn ! i) = act ! i"
  shows "snapshot_slots conn act is = Some (map (\<lambda>i. wire_slot (conn_streams conn ! i)) is)"
  using assms
  by (induction "is") (auto simp: wire_slot_def ISM_SHELL_STREAM_BUFFER_SIZE_def Let_def)

lemma conn_wf_slot:
  assumes "conn_wf conn" and "k < 4"
  shows "slot_wf (conn_streams conn ! k)"
  using assms by (auto simp: conn_wf_def slots_perm_def list_all_length)

lemma conn_wf_count: "conn_wf conn \<Longrightarrow> \<not> 4 < cc_num (conn_ctx conn)"
  by (simp add: conn_wf_def not_less)

lemma snapshot_conn:
  assumes inv: "conn_inv conn"
  shows "snapshot (Some conn) = Some (wire_of conn)"
proof -
  from inv have wf: "conn_wf conn" and sync: "flags_synced conn" by (auto simp: conn_inv_def)
  then have perm: "slots_perm conn" by (simp add: conn_wf_def)
  then have len: "length (conn_active conn) = 4" "length (conn_streams conn) = 4"
    by (auto simp: slots_perm_def)
  have "\<forall>i\<in>set [0..<4]. \<exists>k<4. active_at conn i = Some k \<and> \<not> replicate 4 False ! k"
    by (metis active_at_slot [OF perm] atLeastLessThan_iff nth_replicate set_upt)
  moreover have all: "map (active_at conn) [0..<4] = conn_active conn"
    using map_nth [of "conn_active conn"] len by simp
  moreover have "distinct (map (active_at conn) [0..<4])"
    unfolding all using perm by (simp add: slots_perm_def)
  ultimately obtain act where act: "snapshot_order conn [0..<4] (replicate 4 False) (replicate 4 False)
      = Some (map (\<lambda>i. of_nat (the (active_at conn i))) [0..<4], act)"
    and flags: "\<forall>i<4. act ! the (active_at conn i) = (i < active_count conn)"
    using snapshot_order_ok [of "replicate 4 False" "replicate 4 False" "[0..<4]" conn] by auto
  have "map (of_nat \<circ> the) (map (active_at conn) [0..<4]) = map (of_nat \<circ> the) (conn_active conn)"
    by (simp only: all)
  then have order: "map (\<lambda>i. of_nat (the (active_at conn i))) [0..<4] = map (of_nat \<circ> the) (conn_active conn)"
    by (simp add: comp_def)
  have "snapshot_slots conn act [0..<4] = Some (map (\<lambda>i. wire_slot (conn_streams conn ! i)) [0..<4])"
  proof (rule snapshot_slots_ok, intro ballI conjI)
    fix k assume "k \<in> set [0..<(4::nat)]"
    then have k: "k < 4" by simp
    then show "sc_buf (ss_ctx (conn_streams conn ! k)) = message_buffer (conn_streams conn ! k)"
      using conn_wf_slot [OF wf] by (simp add: slot_wf_def)
    from slot_position [OF perm k] obtain i where "i < 4" "active_at conn i = Some k" .
    with flags sync show "ss_active (conn_streams conn ! k) = act ! k"
      unfolding flags_synced_def by (metis option.sel)
  qed
  also have "map (\<lambda>i. wire_slot (conn_streams conn ! i)) [0..<4] = map wire_slot (conn_streams conn)"
    using len by (intro nth_equalityI) simp_all
  finally show ?thesis
    using wf act conn_wf_count [OF wf] by (simp add: snapshot_def ism_pulse_table_abi_version_def ISM_SHELL_MAX_STREAMS_def conn_wf_def wire_of_def order)
qed

section \<open>The candidate operations on the marshaled table\<close>

lemma conn_inv_wf [simp]: "conn_inv conn \<Longrightarrow> conn_wf conn"
  by (simp add: conn_inv_def)

lemma the_active_lt: "slots_perm conn \<Longrightarrow> i < 4 \<Longrightarrow> the (active_at conn i) < 4"
  by (metis active_at_slot option.sel)

lemma unat_order:
  assumes "slots_perm conn" and "i < 4"
  shows "unat (wt_order (wire_of conn) ! i) = the (active_at conn i)"
  using the_active_lt [OF assms] assms by (simp add: wire_of_def slots_perm_def)

lemma order_distinct:
  assumes perm: "slots_perm conn" and "i < 4" and "j < 4"
  shows "wt_order (wire_of conn) ! i = wt_order (wire_of conn) ! j \<longleftrightarrow> i = j"
proof
  assume "wt_order (wire_of conn) ! i = wt_order (wire_of conn) ! j"
  then have "the (active_at conn i) = the (active_at conn j)"
    using unat_order [OF perm] assms by metis
  then have "active_at conn i = active_at conn j"
    using assms by (metis active_at_slot option.sel)
  with assms show "i = j" by (simp add: active_at_inj)
qed simp

lemma table_contexts_ok:
  assumes wf: "conn_wf conn" and st: "storage_ok bld conn" and "set is \<subseteq> {0..<4}"
  shows "table_contexts (wire_addr bld) (wire_of conn) is =
    Some (map (\<lambda>i. wire_context (conn_streams conn ! i)) is, map (\<lambda>i. the (active_at conn i)) is)"
  using assms(3)
proof (induction "is")
  case (Cons i rest)
  from wf have perm: "slots_perm conn" by (simp add: conn_wf_def)
  then have len: "length (conn_streams conn) = 4" by (simp add: slots_perm_def)
  from Cons.prems have i: "i < 4" by simp
  have "the (active_at conn i) < 4"
    using perm i by (rule the_active_lt)
  moreover have "ism_pulse_decode_phase (ism_pulse_phase_to_wire (sc_phase (ss_ctx (conn_streams conn ! i))))
      = Some (to_model (sc_phase (ss_ctx (conn_streams conn ! i))))"
    using conn_wf_slot [OF wf i] by (intro decode_to_wire) (simp add: slot_wf_def)
  moreover have "wt_slots (wire_of conn) ! j = wire_slot (conn_streams conn ! j)" if "j < 4" for j
    using that len by (simp add: wire_of_def)
  ultimately show ?case
    using Cons i st
    by (auto simp: Let_def unat_order [OF perm] order_distinct [OF perm] pulse_table_consts list_ex_iff
        wire_slot_def wire_context_def storage_ok_def)
qed simp

lemma find_index_from_eq:
  "idx \<le> count \<Longrightarrow> find_index_from contexts table count sid idx =
     (case find (\<lambda>i. pc_id (contexts ! (table ! i)) = sid) [idx..<count] of None \<Rightarrow> count | Some k \<Rightarrow> k)"
proof (induction contexts table count sid idx rule: find_index_from.induct)
  case (1 contexts table count sid idx)
  then show ?case
    by (subst find_index_from.simps) (auto simp: Let_def upt_conv_Cons)
qed

abbreviation conn_contexts :: "ism_shell_connection \<Rightarrow> pulse_context list" where
  "conn_contexts conn \<equiv> map (\<lambda>i. wire_context (conn_streams conn ! i)) [0..<4]"

abbreviation conn_order :: "ism_shell_connection \<Rightarrow> nat list" where
  "conn_order conn \<equiv> map (\<lambda>i. the (active_at conn i)) [0..<4]"

lemma find_index_conn:
  assumes wf: "conn_wf conn"
  shows "find_index (conn_contexts conn) (conn_order conn) (cc_num (conn_ctx conn)) sid =
    (case active_index conn sid of None \<Rightarrow> cc_num (conn_ctx conn) | Some i \<Rightarrow> of_nat i)"
proof -
  from wf have perm: "slots_perm conn" by (simp add: conn_wf_def)
  have n: "active_count conn \<le> 4" using wf by (rule active_count_le)
  have "pc_id (conn_contexts conn ! (conn_order conn ! i)) = id_at conn i" if "i < active_count conn" for i
    using that n the_active_lt [OF perm, of i] by (simp add: wire_context_def stream_at_def)
  then have "find (\<lambda>i. pc_id (conn_contexts conn ! (conn_order conn ! i)) = sid) [0..<active_count conn]
      = active_index conn sid"
    unfolding active_index_def by (intro find_cong) auto
  then show ?thesis
    by (simp add: find_index_def find_index_from_eq split: option.splits)
qed

text \<open>The three operations on the descriptor of a connection.\<close>

lemma apply_find:
  assumes wf: "conn_wf conn" and st: "storage_ok bld conn"
  shows "ism_pulse_table_apply (wire_addr bld) (wire_of conn) ISM_PULSE_TABLE_FIND sid =
    (case active_index conn sid of None \<Rightarrow> cc_num (conn_ctx conn) | Some i \<Rightarrow> of_nat i, wire_of conn)"
  using wf st conn_wf_count [OF wf] table_contexts_ok [OF wf st, of "[0..<4]"]
  by (simp add: ism_pulse_table_apply_def pulse_table_consts storage_ok_def wire_of_def Let_def
      pulse_find_stream_def find_index_conn [OF wf] conn_wf_def)

lemma apply_allocate:
  assumes wf: "conn_wf conn" and st: "storage_ok bld conn" and fresh: "active_index conn sid = None"
  shows "ism_pulse_table_apply (wire_addr bld) (wire_of conn) ISM_PULSE_TABLE_ALLOCATE sid =
    (if active_count conn < 4 then
       (cc_num (conn_ctx conn),
        let k = the (active_at conn (active_count conn)) in
        (wire_of conn)\<lparr>wt_slots := (wt_slots (wire_of conn))
            [k := (wire_slot (conn_streams conn ! k))\<lparr>ts_id := sid, ts_phase := wire_tagged ISM_PULSE_LENGTH\<rparr>],
          wt_count := cc_num (conn_ctx conn) + 1\<rparr>)
     else (4, wire_of conn))"
proof -
  from wf have perm: "slots_perm conn" and cap: "cc_capacity (conn_ctx conn) = 4"
    and n: "cc_num (conn_ctx conn) \<le> 4"
    by (auto simp: conn_wf_def)
  have count: "cc_num (conn_ctx conn) < 4 \<longleftrightarrow> active_count conn < 4"
    by (simp add: word_less_nat_alt)
  have len: "length (conn_streams conn) = 4" "length (conn_active conn) = 4"
    using perm by (auto simp: slots_perm_def)
  note k = the_active_lt [OF perm, of "active_count conn"]
  note order = unat_order [OF perm, of "active_count conn"]
  have wire: "wt_count (wire_of conn) = cc_num (conn_ctx conn)" "wt_capacity (wire_of conn) = 4"
      "wt_slots (wire_of conn) = map wire_slot (conn_streams conn)"
    by (simp_all add: wire_of_def cap)
  show ?thesis
    using st n k len order conn_wf_count [OF wf] table_contexts_ok [OF wf st, of "[0..<4]"]
    by (simp add: ism_pulse_table_apply_def pulse_table_consts storage_ok_def wire Let_def
        pulse_allocate_stream_def find_index_conn [OF wf] fresh count)
qed

lemma swap_order:
  assumes "slots_perm conn" and "i < 4" and "j < 4"
  shows "map (\<lambda>l. Some (unat (map (\<lambda>l. of_nat ((conn_order conn)[j := conn_order conn ! i, i := conn_order conn ! j] ! l) :: u32) [0..<4] ! l))) [0..<4]
    = list_swap (conn_active conn) i j"
proof (rule nth_equalityI)
  have len: "length (conn_active conn) = 4" using assms(1) by (simp add: slots_perm_def)
  then show "length (map (\<lambda>l. Some (unat (map (\<lambda>l. of_nat ((conn_order conn)[j := conn_order conn ! i, i := conn_order conn ! j] ! l) :: u32) [0..<4] ! l))) [0..<4])
      = length (list_swap (conn_active conn) i j)" by simp
  fix l
  assume "l < length (map (\<lambda>l. Some (unat (map (\<lambda>l. of_nat ((conn_order conn)[j := conn_order conn ! i, i := conn_order conn ! j] ! l) :: u32) [0..<4] ! l))) [0..<4])"
  then have l: "l < 4" by simp
  have "Some (unat (of_nat (the (active_at conn k)) :: u32)) = active_at conn k" if "k < 4" for k
    by (rule active_at_slot [OF assms(1) that]) simp
  with l assms(2,3) len
  show "map (\<lambda>l. Some (unat (map (\<lambda>l. of_nat ((conn_order conn)[j := conn_order conn ! i, i := conn_order conn ! j] ! l) :: u32) [0..<4] ! l))) [0..<4] ! l
      = list_swap (conn_active conn) i j ! l"
    by (simp add: nth_list_swap nth_list_update)
qed

section \<open>The candidate lane computes what the stable lane computes\<close>

theorem pulse_table_find_eq:
  assumes inv: "conn_inv conn" and st: "storage_ok bld conn"
  shows "ism_pulse_table_find bld conn sid = find_stream conn sid"
proof -
  from inv have wf: "conn_wf conn" and perm: "slots_perm conn" by (auto simp: conn_inv_def conn_wf_def)
  have n: "active_count conn \<le> 4" using wf by (rule active_count_le)
  have count: "wt_count (wire_of conn) = cc_num (conn_ctx conn)" by (simp add: wire_of_def)
  show ?thesis
  proof (cases "active_index conn sid")
    case None
    then show ?thesis
      using snapshot_conn [OF inv] apply_find [OF wf st, of sid]
      by (simp add: ism_pulse_table_find_def find_stream_eq count)
  next
    case (Some i)
    then have i: "i < active_count conn" by (simp add: active_index_Some)
    then have "i < 4" and "unat (of_nat i :: u32) = i" using n by auto
    moreover obtain k where "active_at conn i = Some k"
      using active_at_slot [OF perm \<open>i < 4\<close>] .
    ultimately show ?thesis
      using Some i snapshot_conn [OF inv] apply_find [OF wf st, of sid] unat_order [OF perm, of i]
      by (simp add: ism_pulse_table_find_def find_stream_eq count word_less_nat_alt)
  qed
qed

theorem pulse_table_open_eq:
  assumes inv: "conn_inv conn" and st: "storage_ok bld conn"
  shows "ism_pulse_table_open bld conn sid = open_result conn sid"
proof -
  from inv have wf: "conn_wf conn" and perm: "slots_perm conn" by (auto simp: conn_inv_def conn_wf_def)
  have n: "active_count conn \<le> 4" using wf by (rule active_count_le)
  have at: "Some (the (active_at conn i)) = active_at conn i" if "i < 4" for i
    using that active_at_slot [OF perm, of i] by fastforce
  have wire: "wt_count (wire_of conn) = cc_num (conn_ctx conn)" "wt_capacity (wire_of conn) = 4"
    using wf by (simp_all add: wire_of_def conn_wf_def)
  have small: "cc_num (conn_ctx conn) \<noteq> ISM_PULSE_TABLE_INVALID"
    using n by (auto simp: ISM_PULSE_TABLE_INVALID_def)
  show ?thesis
  proof (cases "active_index conn sid")
    case (Some i)
    then have "i < active_count conn" by (simp add: active_index_Some)
    then have "unat (of_nat i :: u32) = i" "i < 4" using n by auto
    moreover from this have "(of_nat i :: u32) \<noteq> ISM_PULSE_TABLE_INVALID"
      by (auto simp: ISM_PULSE_TABLE_INVALID_def word_unat_eq_iff)
    ultimately show ?thesis
      using Some \<open>i < active_count conn\<close> snapshot_conn [OF inv] apply_find [OF wf st, of sid]
      by (simp add: ism_pulse_table_open_def open_result_def wire word_less_nat_alt unat_order [OF perm] at)
  next
    case None
    let ?k = "the (active_at conn (active_count conn))"
    have k: "?k < length (conn_streams conn)" if "active_count conn < 4"
      using the_active_lt [OF perm that] perm by (simp add: slots_perm_def)
    have [simp]: "ism_pulse_phase_from_wire (wire_tagged ISM_PULSE_LENGTH) = S_ReadingLength"
      by (simp add: ism_pulse_phase_from_wire_def wire_tagged_def)
    have lt: "4 \<le> cc_num (conn_ctx conn) \<longleftrightarrow> \<not> active_count conn < 4"
      by (simp add: word_le_nat_alt not_less)
    show ?thesis
      using None small k unat_order [OF perm, of "active_count conn"] at [of "active_count conn"]
        snapshot_conn [OF inv] apply_find [OF wf st, of sid] apply_allocate [OF wf st None] wire
      by (simp add: ism_pulse_table_open_def open_result_def activate_next_def Let_def lt)
        (simp add: wire_of_def)
  qed
qed

theorem pulse_table_close_eq:
  assumes inv: "conn_inv conn" and st: "storage_ok bld conn"
  shows "ism_pulse_table_close bld conn sid = (1, close_stream conn sid)"
proof -
  from inv have wf: "conn_wf conn" and perm: "slots_perm conn" by (auto simp: conn_inv_def conn_wf_def)
  have n: "active_count conn \<le> 4" using wf by (rule active_count_le)
  have app: "ism_pulse_table_apply (wire_addr bld) (wire_of conn) ISM_PULSE_TABLE_CLOSE sid =
      (case active_index conn sid of None \<Rightarrow> (0, wire_of conn)
       | Some i \<Rightarrow> (1, (wire_of conn)\<lparr>wt_order := map (\<lambda>l. of_nat ((conn_order conn)
              [active_count conn - 1 := conn_order conn ! i, i := conn_order conn ! (active_count conn - 1)] ! l)) [0..<4],
            wt_count := cc_num (conn_ctx conn) - 1\<rparr>))"
  proof (cases "active_index conn sid")
    case None
    then show ?thesis
      using wf st conn_wf_count [OF wf] table_contexts_ok [OF wf st, of "[0..<4]"]
      by (simp add: ism_pulse_table_apply_def pulse_table_consts storage_ok_def wire_of_def Let_def
          pulse_close_stream_def find_index_conn [OF wf] conn_wf_def)
  next
    case (Some i)
    then have i: "i < active_count conn" by (simp add: active_index_Some)
    then have "unat (of_nat i :: u32) = i" "unat (cc_num (conn_ctx conn) - 1) = active_count conn - 1"
      using n by (auto simp: unat_sub word_le_nat_alt)
    then show ?thesis
      using wf st Some i conn_wf_count [OF wf] table_contexts_ok [OF wf st, of "[0..<4]"]
      by (simp add: ism_pulse_table_apply_def pulse_table_consts storage_ok_def wire_of_def Let_def
          pulse_close_stream_def find_index_conn [OF wf] conn_wf_def word_less_nat_alt)
  qed
  show ?thesis
  proof (cases "active_index conn sid")
    case None
    then show ?thesis
      using app snapshot_conn [OF inv]
      by (simp add: ism_pulse_table_close_def close_stream_eq ISM_PULSE_TABLE_INVALID_def)
  next
    case (Some i)
    then have i: "i < active_count conn" by (simp add: active_index_Some)
    then have "i < 4" "active_count conn - 1 < 4" using n by auto
    from swap_order [OF perm this] show ?thesis
      using Some app snapshot_conn [OF inv]
      by (simp add: ism_pulse_table_close_def close_stream_eq remove_active_def ISM_PULSE_TABLE_INVALID_def
          ISM_SHELL_MAX_STREAMS_def)
  qed
qed

section \<open>What the interface accepts\<close>

text \<open>The checks on one slot of a descriptor, and on the descriptor.\<close>

definition slot_accepted :: "addr \<Rightarrow> ism_pulse_table \<Rightarrow> nat \<Rightarrow> bool" where
  "slot_accepted wire_p wire i \<longleftrightarrow>
     (let slot = wt_slots wire ! i in
      unat (wt_order wire ! i) < 4 \<and> 65535 \<le> ts_message_capacity slot \<and>
      disjoint wire_p 184 (ts_message slot) (ts_message_capacity slot) \<and>
      ism_pulse_decode_phase (ts_phase slot) \<noteq> None \<and>
      (\<forall>j<i. wt_order wire ! i \<noteq> wt_order wire ! j \<and>
         disjoint (ts_message slot) (ts_message_capacity slot)
           (ts_message (wt_slots wire ! j)) (ts_message_capacity (wt_slots wire ! j))))"

definition descriptor_accepted :: "addr \<Rightarrow> ism_pulse_table \<Rightarrow> bool" where
  "descriptor_accepted wire_p wire \<longleftrightarrow>
     range_ok wire_p 184 \<and> wire_p mod 8 = 0 \<and> wt_count wire \<le> wt_capacity wire \<and> unat (wt_capacity wire) \<le> 4 \<and>
     (\<forall>i<4. slot_accepted wire_p wire i)"

definition slot_context :: "ism_pulse_table_slot \<Rightarrow> pulse_context" where
  "slot_context slot = \<lparr>pc_id = ts_id slot, pc_phase = the (ism_pulse_decode_phase (ts_phase slot)), pc_buf = ts_message slot\<rparr>"

lemma table_contexts_cases:
  "table_contexts wire_p wire is =
     (if \<forall>i\<in>set is. slot_accepted wire_p wire i
      then Some (map (\<lambda>i. slot_context (wt_slots wire ! i)) is, map (\<lambda>i. unat (wt_order wire ! i)) is)
      else None)"
proof (induction "is")
  case (Cons i "is")
  have "list_ex (\<lambda>j. wt_order wire ! i = wt_order wire ! j \<or>
      \<not> disjoint (ts_message (wt_slots wire ! i)) (ts_message_capacity (wt_slots wire ! i))
        (ts_message (wt_slots wire ! j)) (ts_message_capacity (wt_slots wire ! j))) [0..<i] \<longleftrightarrow>
    \<not> (\<forall>j<i. wt_order wire ! i \<noteq> wt_order wire ! j \<and>
      disjoint (ts_message (wt_slots wire ! i)) (ts_message_capacity (wt_slots wire ! i))
        (ts_message (wt_slots wire ! j)) (ts_message_capacity (wt_slots wire ! j)))"
    by (auto simp: list_ex_iff)
  with Cons.IH show ?case
    by (auto simp: slot_accepted_def slot_context_def pulse_table_consts Let_def split: option.split)
qed simp

text \<open>A descriptor that fails a check, or an unknown operation, is refused and unchanged.\<close>

lemma table_apply_rejects:
  assumes "\<not> descriptor_accepted wire_p wire \<or> operation > 2"
  shows "ism_pulse_table_apply wire_p wire operation sid = (ISM_PULSE_TABLE_INVALID, wire)"
  using assms
  by (auto simp: ism_pulse_table_apply_def descriptor_accepted_def table_contexts_cases pulse_table_consts not_le not_less)

end
