(* ===== verification/Pulse_Response.thy ===== *)
theory Pulse_Response
  imports Pulse_Stream
begin

text \<open>
  The candidate response lane: \<^verbatim>\<open>src/migration/c/pulse_response_ranges.h\<close>,
  \<^verbatim>\<open>ism_pulse_response.c\<close>, \<^verbatim>\<open>src/migration/DNS.Migration.PulseResponse.fst\<close> and the
  marshaler \<^verbatim>\<open>src/shell/pulse_response_adapter.c\<close>. With separate ranges it frames exactly what the
  stable lane frames (\<open>pulse_prepare_doq_eq\<close>); with an overlapping or unrepresentable range
  it returns 0 and writes nothing.
\<close>

definition ISM_PULSE_RESPONSE_ABI_VERSION :: u32 where "ISM_PULSE_RESPONSE_ABI_VERSION = 1"

definition ism_pulse_response_abi_version :: u32 where
  "ism_pulse_response_abi_version = ISM_PULSE_RESPONSE_ABI_VERSION"

definition ism_response_range_ok :: "addr \<Rightarrow> nat \<Rightarrow> bool" where
  "ism_response_range_ok p n \<longleftrightarrow> p \<noteq> NULL \<and> n \<le> UINTPTR_MAX - p"

definition ism_response_disjoint :: "addr \<Rightarrow> nat \<Rightarrow> addr \<Rightarrow> nat \<Rightarrow> bool" where
  "ism_response_disjoint a an b bn \<longleftrightarrow>
     ism_response_range_ok a an \<and> ism_response_range_ok b bn \<and>
     (an = 0 \<or> bn = 0 \<or> a + an \<le> b \<or> b + bn \<le> a)"

text \<open>\<^verbatim>\<open>DNS.Migration.PulseResponse.frame_response\<close>.\<close>

definition frame_response :: "addr \<Rightarrow> addr \<Rightarrow> u32 \<Rightarrow> u32 \<Rightarrow> mem \<Rightarrow> u32 \<times> mem" where
  "frame_response response destination len capacity m =
     (let framed = framed_length len capacity in
      if framed = 0 then (0, m)
      else
        let hi = prefix_hi len;
            lo = prefix_lo len;
            m1 = m(destination := hi);
            m2 = m1(destination + 1 := lo);
            m3 = copy_range response destination 0 2 (unat len) m2 in
        (framed, m3))"

definition ism_pulse_response_frame ::
  "addr \<Rightarrow> addr \<Rightarrow> nat \<Rightarrow> u32 \<Rightarrow> addr \<Rightarrow> nat \<Rightarrow> u32 \<Rightarrow> mem \<Rightarrow> u32 \<times> mem" where
  "ism_pulse_response_frame empty_p response response_capacity len destination destination_capacity
       capacity m =
     (if unat len > response_capacity \<or> unat capacity > destination_capacity
         \<or> \<not> ism_response_range_ok destination destination_capacity then (0, m)
      else
        let response' = (if response_capacity = 0 then empty_p else response) in
        if \<not> ism_response_disjoint response' response_capacity destination destination_capacity
        then (0, m)
        else frame_response response' destination len capacity m)"

text \<open>\<open>stream_p\<close> and \<open>stream_size\<close> are the address and the size of the context struct.\<close>

definition ism_pulse_prepare_doq_response ::
  "addr \<Rightarrow> nat \<Rightarrow> addr \<Rightarrow> stream_context \<Rightarrow> addr \<Rightarrow> u32 \<Rightarrow> addr \<Rightarrow> u32 \<Rightarrow> u8 \<Rightarrow> mem
     \<Rightarrow> u32 \<times> mem" where
  "ism_pulse_prepare_doq_response empty_p stream_size stream_p stream response len destination capacity
       fin_code m =
     (if ism_pulse_response_abi_version \<noteq> ISM_PULSE_RESPONSE_ABI_VERSION
         \<or> \<not> ism_response_disjoint stream_p stream_size destination (unat capacity)
         \<or> sc_buf stream = NULL then (0, m)
      else
        let (framed, m') = ism_pulse_response_frame empty_p response (unat len) len destination
              (unat capacity) capacity m in
        if framed = 0 then (0, m')
        else (prepare_response_send_for_stream stream destination framed fin_code, m'))"

text \<open>What the caller owes: live, representable ranges; the destination overlaps neither the
  context nor the response.\<close>

definition response_separate ::
  "addr \<Rightarrow> nat \<Rightarrow> addr \<Rightarrow> stream_context \<Rightarrow> addr \<Rightarrow> u32 \<Rightarrow> addr \<Rightarrow> u32 \<Rightarrow> bool" where
  "response_separate empty_p stream_size stream_p stream response len destination capacity \<longleftrightarrow>
     sc_buf stream \<noteq> NULL \<and>
     ism_response_disjoint stream_p stream_size destination (unat capacity) \<and>
     ism_response_disjoint (if len = 0 then empty_p else response) (unat len) destination (unat capacity)"

theorem pulse_prepare_doq_eq:
  assumes "response_separate empty_p stream_size stream_p stream response len destination capacity"
  shows "ism_pulse_prepare_doq_response empty_p stream_size stream_p stream response len destination
      capacity fin_code m
    = prepare_doq_response_send_for_stream stream response len destination capacity fin_code m"
proof (cases "framed_length len capacity = 0")
  case True
  with assms show ?thesis
    by (auto simp: ism_pulse_prepare_doq_response_def response_separate_def ism_pulse_response_frame_def
        ism_pulse_response_abi_version_def frame_response_def prepare_doq_rejects)
next
  case False
  then have fits: "unat len + 2 \<le> unat capacity" by (auto simp: framed_length_eq_0)
  let ?r = "if unat len = 0 then empty_p else response"
  from assms fits have copy: "copy_range ?r destination 0 2 (unat len) m' =
      mem_copy m' (destination + 2) response (unat len)" for m'
    by (cases "len = 0")
      (auto simp: response_separate_def ism_response_disjoint_def copy_range_eq_mem_copy ranges_disjoint_def
        unat_eq_0)
  have "len \<noteq> 0 \<Longrightarrow> ranges_disjoint response (unat len) destination (unat capacity)"
    using assms fits
    by (auto simp: response_separate_def ism_response_disjoint_def ranges_disjoint_def unat_eq_0)
  then have stable: "prepare_doq_response_send_for_stream stream response len destination capacity
      fin_code m = (framed_length len capacity,
        mem_copy (m(destination := prefix_hi len, destination + 1 := prefix_lo len))
          (destination + 2) response (unat len))"
    using False prepare_doq_memory [OF False, of response destination stream fin_code m]
    by (cases "len = 0")
      (auto simp: prepare_doq_response_send_for_stream_def prepare_response_send_def Let_def
        copy_response_bytes_with_prefix.simps)
  show ?thesis
    unfolding stable using False assms copy
    by (auto simp: ism_pulse_prepare_doq_response_def response_separate_def ism_pulse_response_frame_def
        ism_pulse_response_abi_version_def frame_response_def prepare_response_send_for_stream_def
        prepare_response_send_def Let_def ism_response_disjoint_def unat_eq_0)
qed

lemma pulse_prepare_doq_rejects:
  assumes "sc_buf stream = NULL \<or> \<not> ism_response_disjoint stream_p stream_size destination (unat capacity)
    \<or> len \<noteq> 0 \<and> \<not> ism_response_disjoint response (unat len) destination (unat capacity)
    \<or> framed_length len capacity = 0"
  shows "ism_pulse_prepare_doq_response empty_p stream_size stream_p stream response len destination
      capacity fin_code m = (0, m)"
  using assms
  by (auto simp: ism_pulse_prepare_doq_response_def ism_pulse_response_frame_def frame_response_def
      unat_eq_0 Let_def)

text \<open>So the lane decides by the ranges alone whether it does what the stable lane does.\<close>

lemma pulse_prepare_doq_decides:
  "ism_pulse_prepare_doq_response empty_p stream_size stream_p stream response len destination capacity fin_code m =
    (if response_separate empty_p stream_size stream_p stream response len destination capacity
     then prepare_doq_response_send_for_stream stream response len destination capacity fin_code m else (0, m))"
proof (cases "response_separate empty_p stream_size stream_p stream response len destination capacity")
  case True
  then show ?thesis by (simp add: pulse_prepare_doq_eq)
next
  case False
  then show ?thesis
    by (auto simp: response_separate_def ism_pulse_prepare_doq_response_def ism_pulse_response_frame_def unat_eq_0 Let_def)
qed

lemma response_frame_rejects:
  assumes "unat len > response_capacity \<or> unat capacity > destination_capacity \<or>
    response_capacity \<noteq> 0 \<and> \<not> ism_response_disjoint response response_capacity destination destination_capacity \<or>
    \<not> ism_response_range_ok destination destination_capacity"
  shows "ism_pulse_response_frame empty_p response response_capacity len destination destination_capacity capacity m = (0, m)"
  using assms by (auto simp: ism_pulse_response_frame_def Let_def)

end
