(* ===== verification/Shell.thy ===== *)
theory Shell
  imports Pulse_Table Pulse_Response
begin

text \<open>
  The C shell over the verified core, \<^verbatim>\<open>src/shell/ism_shell.c\<close>: connection initialisation, the
  idempotent open, ingress of authenticated fragments and FIN, preparation of responses,
  completion and reset, each with the build flags that select the stable or the candidate
  lane. The operations take the connection and the byte memory and return them updated.
\<close>

section \<open>Slots\<close>

definition ism_shell_reset_stream :: "ism_shell_stream \<Rightarrow> ism_shell_stream" where
  "ism_shell_reset_stream stream =
     stream\<lparr>ss_ctx := (ss_ctx stream)\<lparr>sc_id := 0, sc_phase := S_ReadingLength,
                         sc_buf := message_buffer stream\<rparr>,
            ss_active := False\<rparr>"

definition ism_shell_stream_is_active_ptr :: "ism_shell_connection \<Rightarrow> ctx_ptr \<Rightarrow> bool" where
  "ism_shell_stream_is_active_ptr conn stream \<longleftrightarrow>
     list_ex (\<lambda>i. active_at conn i = stream) [0..<active_count conn]"

definition ism_shell_sync_stream_slots :: "ism_shell_connection \<Rightarrow> ism_shell_connection" where
  "ism_shell_sync_stream_slots conn =
     conn\<lparr>conn_streams := map (\<lambda>i.
        let slot = conn_streams conn ! i in
        if ism_shell_stream_is_active_ptr conn (Some i) then slot\<lparr>ss_active := True\<rparr>
        else ism_shell_reset_stream slot) [0..<ISM_SHELL_MAX_STREAMS]\<rparr>"

text \<open>\<^verbatim>\<open>memset (conn, 0, sizeof *conn)\<close> also clears the four embedded message buffers.\<close>

definition ism_shell_connection_init ::
  "ism_shell_connection \<Rightarrow> mem \<Rightarrow> ism_shell_connection \<times> mem" where
  "ism_shell_connection_init conn m =
     (let m' = fold (\<lambda>s m. mem_zero m (message_buffer s) ISM_SHELL_STREAM_BUFFER_SIZE)
                 (conn_streams conn) m in
      (\<lparr>conn_ctx = \<lparr>cc_active = ConnActive, cc_num = 0, cc_capacity = of_nat ISM_SHELL_MAX_STREAMS\<rparr>,
        conn_active = map (\<lambda>i. Some i) [0..<ISM_SHELL_MAX_STREAMS],
        conn_streams = map (\<lambda>i. ism_shell_reset_stream
          ((conn_streams conn ! i)\<lparr>ss_ctx := \<lparr>sc_id = 0, sc_phase = S_ReadingLength, sc_buf = NULL\<rparr>,
                                   ss_active := False\<rparr>)) [0..<ISM_SHELL_MAX_STREAMS]\<rparr>, m'))"

section \<open>Find and open\<close>

definition ism_shell_find_stream :: "build \<Rightarrow> ism_shell_connection \<Rightarrow> u64 \<Rightarrow> ctx_ptr" where
  "ism_shell_find_stream bld conn stream_id =
     (if use_pulse_table bld then ism_pulse_table_find bld conn stream_id
      else
        (case find (\<lambda>i. active_at conn i \<noteq> None \<and> sc_id (stream_at conn (active_at conn i)) = stream_id)
                [0..<active_count conn] of
           Some i \<Rightarrow> active_at conn i
         | None \<Rightarrow> None))"

definition ism_shell_open_stream ::
  "build \<Rightarrow> ism_shell_connection \<Rightarrow> u64 \<Rightarrow> ctx_ptr \<times> ism_shell_connection" where
  "ism_shell_open_stream bld conn stream_id =
     (if use_pulse_table bld then ism_pulse_table_open bld conn stream_id
      else
        let existing = ism_shell_find_stream bld conn stream_id in
        if existing \<noteq> None then (existing, conn)
        else if cc_num (conn_ctx conn) \<ge> cc_capacity (conn_ctx conn)
                \<or> active_count conn \<ge> ISM_SHELL_MAX_STREAMS then (None, conn)
        else
          (case find (\<lambda>i. Some i = active_at conn (active_count conn)
                         \<and> \<not> ss_active (conn_streams conn ! i)) [0..<ISM_SHELL_MAX_STREAMS] of
             Some i \<Rightarrow>
               let slot = conn_streams conn ! i;
                   slot' = slot\<lparr>ss_ctx := (ss_ctx slot)\<lparr>sc_id := stream_id, sc_phase := S_ReadingLength,
                                              sc_buf := message_buffer slot\<rparr>,
                                ss_active := True\<rparr> in
               (Some i, conn\<lparr>conn_streams := (conn_streams conn)[i := slot'],
                             conn_ctx := (conn_ctx conn)\<lparr>cc_num := cc_num (conn_ctx conn) + 1\<rparr>\<rparr>)
           | None \<Rightarrow> (None, conn)))"

section \<open>Ingress\<close>

definition ism_shell_on_authenticated_stream_fin ::
  "build \<Rightarrow> ism_shell_connection \<Rightarrow> u64 \<Rightarrow> mem \<Rightarrow> u8 \<times> ism_shell_connection \<times> mem" where
  "ism_shell_on_authenticated_stream_fin bld conn stream_id m =
     (let (stream, conn) = ism_shell_open_stream bld conn stream_id in
      if stream = None then (3, conn, m)
      else if use_pulse_stream bld then
        let (code, s) = ism_pulse_ingress_fin (Some (stream_at conn stream)) m in
        (code, set_stream conn stream (the s), m)
      else
        let (code, s) = dispatch_authenticated_stream_fin (stream_at conn stream) m in
        (code, set_stream conn stream s, m))"

text \<open>The two data entry points differ in the core function of the stable lane only.\<close>

definition ism_shell_on_authenticated_stream_data ::
  "build \<Rightarrow> ism_shell_connection \<Rightarrow> u64 \<Rightarrow> addr \<Rightarrow> u32 \<Rightarrow> mem
     \<Rightarrow> u8 \<times> ism_shell_connection \<times> mem" where
  "ism_shell_on_authenticated_stream_data bld conn stream_id data len m =
     (let (stream, conn) = ism_shell_open_stream bld conn stream_id in
      if stream = None then (shell_phase_code S_Done, conn, m)
      else if use_pulse_stream bld then
        let (code, s, m') = ism_pulse_ingress_data (empty_addr bld) (Some (stream_at conn stream))
              stream_id data len m in
        (code, set_stream conn stream (the s), m')
      else
        let (code, s, m') = dispatch_authenticated_stream_data (stream_at conn stream)
              stream_id data len m in
        (code, set_stream conn stream s, m'))"

definition ism_shell_dispatch_authenticated_stream_data ::
  "build \<Rightarrow> ism_shell_connection \<Rightarrow> u64 \<Rightarrow> addr \<Rightarrow> u32 \<Rightarrow> mem
     \<Rightarrow> u8 \<times> ism_shell_connection \<times> mem" where
  "ism_shell_dispatch_authenticated_stream_data bld conn stream_id data len m =
     (let (stream, conn) = ism_shell_open_stream bld conn stream_id in
      if stream = None then (shell_phase_code S_Done, conn, m)
      else if use_pulse_stream bld then
        let (code, s, m') = ism_pulse_ingress_data (empty_addr bld) (Some (stream_at conn stream))
              stream_id data len m in
        (code, set_stream conn stream (the s), m')
      else
        let (code, s, m') = dispatch_authenticated_stream_data_via_scheduler (stream_at conn stream)
              stream_id data len m in
        (code, set_stream conn stream s, m'))"

section \<open>Responses\<close>

definition ism_shell_prepare_response_send ::
  "build \<Rightarrow> ism_shell_connection \<Rightarrow> u64 \<Rightarrow> addr \<Rightarrow> u32 \<Rightarrow> bool \<Rightarrow> u32" where
  "ism_shell_prepare_response_send bld conn stream_id response_buffer response_len fin =
     (let stream = ism_shell_find_stream bld conn stream_id in
      if stream = None then 0
      else prepare_response_send_for_stream (stream_at conn stream) response_buffer response_len
             (if fin then 1 else 0))"

definition ism_shell_prepare_doq_response_send ::
  "build \<Rightarrow> ism_shell_connection \<Rightarrow> u64 \<Rightarrow> addr \<Rightarrow> u32 \<Rightarrow> addr \<Rightarrow> u32 \<Rightarrow> bool \<Rightarrow> mem
     \<Rightarrow> u32 \<times> mem" where
  "ism_shell_prepare_doq_response_send bld conn stream_id response_buffer response_len stream_buffer
       stream_capacity fin m =
     (let stream = ism_shell_find_stream bld conn stream_id in
      if stream = None then (0, m)
      else if use_pulse_response bld then
        ism_pulse_prepare_doq_response (empty_addr bld) (sizeof_stream_context bld)
          (ctx_addr (conn_streams conn ! the stream)) (stream_at conn stream)
          response_buffer response_len stream_buffer stream_capacity (if fin then 1 else 0) m
      else
        prepare_doq_response_send_for_stream (stream_at conn stream)
          response_buffer response_len stream_buffer stream_capacity (if fin then 1 else 0) m)"

definition ism_shell_process_ready_stream ::
  "ism_shell_connection \<Rightarrow> u64 \<Rightarrow> addr \<Rightarrow> u32 \<Rightarrow> mem \<Rightarrow> u32 \<times> mem" where
  "ism_shell_process_ready_stream conn stream_id response_buffer response_capacity m =
     process_ready_stream_for_response conn response_buffer response_capacity stream_id m"

definition ism_shell_process_ready_stream_empty_response ::
  "ism_shell_connection \<Rightarrow> u64 \<Rightarrow> addr \<Rightarrow> u32 \<Rightarrow> mem \<Rightarrow> u32 \<times> mem" where
  "ism_shell_process_ready_stream_empty_response conn stream_id response_buffer response_capacity m =
     process_ready_stream_for_empty_response conn response_buffer response_capacity stream_id m"

definition ism_shell_process_ready_stream_validated_minimal_response ::
  "build \<Rightarrow> ism_shell_connection \<Rightarrow> u64 \<Rightarrow> addr \<Rightarrow> u32 \<Rightarrow> mem \<Rightarrow> u32 \<times> mem" where
  "ism_shell_process_ready_stream_validated_minimal_response bld conn stream_id response_buffer
       response_capacity m =
     process_ready_stream_for_validated_minimal_response bld conn response_buffer response_capacity
       stream_id m"

definition ism_shell_dispatch_ready_stream ::
  "ism_shell_connection \<Rightarrow> u64 \<Rightarrow> addr \<Rightarrow> u32 \<Rightarrow> mem \<Rightarrow> u32 \<times> mem" where
  "ism_shell_dispatch_ready_stream conn stream_id response_buffer response_capacity m =
     dispatch_ready_stream_for_response_via_scheduler conn response_buffer response_capacity stream_id m"

definition ism_shell_dispatch_ready_stream_empty_response ::
  "ism_shell_connection \<Rightarrow> u64 \<Rightarrow> addr \<Rightarrow> u32 \<Rightarrow> mem \<Rightarrow> u32 \<times> mem" where
  "ism_shell_dispatch_ready_stream_empty_response conn stream_id response_buffer response_capacity m =
     dispatch_ready_stream_for_empty_response_via_scheduler conn response_buffer response_capacity
       stream_id m"

definition ism_shell_dispatch_ready_stream_validated_minimal_response ::
  "build \<Rightarrow> ism_shell_connection \<Rightarrow> u64 \<Rightarrow> addr \<Rightarrow> u32 \<Rightarrow> mem \<Rightarrow> u32 \<times> mem" where
  "ism_shell_dispatch_ready_stream_validated_minimal_response bld conn stream_id response_buffer
       response_capacity m =
     dispatch_ready_stream_for_validated_minimal_response_via_scheduler bld conn response_buffer
       response_capacity stream_id m"

section \<open>Completion and reset\<close>

definition ism_shell_complete_response_send ::
  "build \<Rightarrow> ism_shell_connection \<Rightarrow> u64 \<Rightarrow> addr \<Rightarrow> u32 \<Rightarrow> bool \<Rightarrow> u8 \<times> ism_shell_connection" where
  "ism_shell_complete_response_send bld conn stream_id response_buffer response_len dropped =
     (let (result, conn) =
        (if use_pulse_table bld then ism_pulse_table_close bld conn stream_id
         else complete_response_send_for_stream conn response_buffer response_len stream_id
                (if dropped then 1 else 0)) in
      if use_pulse_table bld \<and> result \<noteq> 1 then (result, conn)
      else if list_ex (\<lambda>i. ss_active (conn_streams conn ! i)
                 \<and> sc_id (ss_ctx (conn_streams conn ! i)) = stream_id) [0..<ISM_SHELL_MAX_STREAMS]
      then (result, ism_shell_sync_stream_slots conn)
      else (result, conn))"

definition ism_shell_dispatch_response_send_finished ::
  "build \<Rightarrow> ism_shell_connection \<Rightarrow> u64 \<Rightarrow> addr \<Rightarrow> u32 \<Rightarrow> bool \<Rightarrow> u8 \<times> ism_shell_connection" where
  "ism_shell_dispatch_response_send_finished bld conn stream_id response_buffer response_len dropped =
     (let (result, conn) =
        (if use_pulse_table bld then ism_pulse_table_close bld conn stream_id
         else dispatch_response_send_finished_via_scheduler conn response_buffer response_len stream_id
                (if dropped then 1 else 0)) in
      if use_pulse_table bld \<and> result \<noteq> 1 then (result, conn)
      else if list_ex (\<lambda>i. ss_active (conn_streams conn ! i)
                 \<and> sc_id (ss_ctx (conn_streams conn ! i)) = stream_id) [0..<ISM_SHELL_MAX_STREAMS]
      then (result, ism_shell_sync_stream_slots conn)
      else (result, conn))"

definition ism_shell_dispatch_stream_reset ::
  "build \<Rightarrow> ism_shell_connection \<Rightarrow> u64 \<Rightarrow> u8 \<times> ism_shell_connection" where
  "ism_shell_dispatch_stream_reset bld conn stream_id =
     (let (result, conn) =
        (if use_pulse_table bld then ism_pulse_table_close bld conn stream_id
         else dispatch_stream_reset_via_scheduler conn stream_id) in
      if result = 1 then (result, ism_shell_sync_stream_slots conn) else (result, conn))"

section \<open>Invariant of the shell\<close>

text \<open>The slot of the table's position \<open>i\<close>.\<close>

abbreviation slot_of :: "ism_shell_connection \<Rightarrow> nat \<Rightarrow> ism_shell_stream" where
  "slot_of conn i \<equiv> conn_streams conn ! the (active_at conn i)"

text \<open>Slots that are not active are in the reset state: nothing of a closed stream is left.\<close>

definition slots_clean :: "ism_shell_connection \<Rightarrow> bool" where
  "slots_clean conn \<longleftrightarrow>
     (\<forall>i<4. active_count conn \<le> i \<longrightarrow> slot_of conn i = ism_shell_reset_stream (slot_of conn i))"

definition shell_inv :: "ism_shell_connection \<Rightarrow> bool" where
  "shell_inv conn \<longleftrightarrow> conn_inv conn \<and> slots_clean conn"

lemma shell_invD:
  assumes "shell_inv conn"
  shows "conn_inv conn" "conn_wf conn" "slots_perm conn" "ids_distinct conn" "flags_synced conn"
    "slots_clean conn" "active_count conn \<le> 4" "length (conn_streams conn) = 4"
    "length (conn_active conn) = 4"
  using assms by (auto simp: shell_inv_def conn_inv_def conn_wf_def slots_perm_def word_le_nat_alt)

lemma nth_update_position:
  assumes "slots_perm conn" and "i < 4" and "j < 4"
  shows "(conn_streams conn)[the (active_at conn j) := s] ! the (active_at conn i) =
    (if i = j then s else slot_of conn i)"
proof -
  have "the (active_at conn i) = the (active_at conn j) \<longleftrightarrow> i = j"
    using assms by (metis active_at_slot active_at_inj option.sel)
  moreover have "the (active_at conn j) < length (conn_streams conn)"
    using assms the_active_lt [OF assms(1,3)] by (simp add: slots_perm_def)
  ultimately show ?thesis by (auto simp: nth_list_update)
qed

lemma list_all_update_position:
  assumes "list_all P (conn_streams conn)" and "P s"
  shows "list_all P ((conn_streams conn)[k := s])"
  using assms by (auto simp: list_all_iff dest!: set_update_subset_insert [THEN subsetD])

lemma shell_inv_updI:
  assumes inv: "shell_inv conn" and i: "i < 4" and s: "slot_wf s"
    and num: "active_count conn' = n" "n \<le> 4" "i < n" "\<forall>j<4. j \<noteq> i \<longrightarrow> (j < n \<longleftrightarrow> j < active_count conn)"
    and conn': "conn_active conn' = conn_active conn"
      "conn_streams conn' = (conn_streams conn)[the (active_at conn i) := s]"
      "cc_active (conn_ctx conn') = ConnActive" "cc_capacity (conn_ctx conn') = 4"
    and act: "ss_active s" and fresh: "\<forall>j<active_count conn. j \<noteq> i \<longrightarrow> id_at conn j \<noteq> sc_id (ss_ctx s)"
  shows "shell_inv conn'"
proof -
  note D = shell_invD [OF inv]
  have slot: "slot_of conn' j = (if j = i then s else slot_of conn j)" if "j < 4" for j
    using nth_update_position [OF D(3) that i, of s] by (simp add: conn')
  have "slots_perm conn'" using D(3) by (simp add: slots_perm_def conn')
  moreover have "cc_num (conn_ctx conn') \<le> 4" using num by (simp add: word_le_nat_alt)
  moreover have "list_all slot_wf (conn_streams conn')"
    unfolding conn' using D(2) s by (intro list_all_update_position) (simp_all add: conn_wf_def)
  moreover have "ids_distinct conn'"
    unfolding ids_distinct_def num(1) stream_at_def
  proof (intro allI impI)
    fix a b
    assume ab: "a < n" "b < n" and eq: "sc_id (ss_ctx (slot_of conn' a)) = sc_id (ss_ctx (slot_of conn' b))"
    then have ab4: "a < 4" "b < 4" using num by auto
    show "a = b"
    proof (cases "a = i \<or> b = i")
      case True
      then show ?thesis
        using eq fresh ab ab4 num(4) by (auto simp: slot stream_at_def split: if_splits)
    next
      case False
      then have "id_at conn a = id_at conn b" using eq ab4 by (simp add: slot stream_at_def)
      moreover have "a < active_count conn" "b < active_count conn" using False ab ab4 num(4) by auto
      ultimately show ?thesis using D(4) by (simp add: ids_distinct_def)
    qed
  qed
  moreover have "flags_synced conn'"
    using D(5) num act unfolding flags_synced_def num(1) by (auto simp: slot)
  moreover have "slots_clean conn'"
    using D(6) num unfolding slots_clean_def num(1) by (force simp: slot not_less)
  ultimately show ?thesis
    by (simp add: shell_inv_def conn_inv_def conn_wf_def conn')
qed

section \<open>Initialisation\<close>

lemma init_shell_inv:
  assumes "length (conn_streams conn) = 4"
  shows "shell_inv (fst (ism_shell_connection_init conn m))"
proof -
  let ?c = "fst (ism_shell_connection_init conn m)"
  have at: "active_at ?c i = Some i" if "i < 4" for i
    using that by (simp add: ism_shell_connection_init_def Let_def ISM_SHELL_MAX_STREAMS_def)
  have stream: "conn_streams ?c ! i = ism_shell_reset_stream
      ((conn_streams conn ! i)\<lparr>ss_ctx := \<lparr>sc_id = 0, sc_phase = S_ReadingLength, sc_buf = NULL\<rparr>,
                               ss_active := False\<rparr>)" if "i < 4" for i
    using that by (simp add: ism_shell_connection_init_def Let_def ISM_SHELL_MAX_STREAMS_def)
  have count: "cc_num (conn_ctx ?c) = 0" and ctx: "cc_active (conn_ctx ?c) = ConnActive"
      "cc_capacity (conn_ctx ?c) = 4"
    by (simp_all add: ism_shell_connection_init_def Let_def ISM_SHELL_MAX_STREAMS_def)
  have "slots_perm ?c"
    by (simp add: slots_perm_def ism_shell_connection_init_def Let_def ISM_SHELL_MAX_STREAMS_def
        distinct_map)
  moreover have "list_all slot_wf (conn_streams ?c)"
    by (auto simp: ism_shell_connection_init_def Let_def list_all_iff slot_wf_def ism_shell_reset_stream_def)
  moreover have "ids_distinct ?c" by (simp add: ids_distinct_def count)
  moreover have "flags_synced ?c"
    by (simp add: flags_synced_def count at stream ism_shell_reset_stream_def)
  moreover have "slots_clean ?c"
    by (simp add: slots_clean_def count at stream ism_shell_reset_stream_def)
  ultimately show ?thesis
    using count ctx by (simp add: shell_inv_def conn_inv_def conn_wf_def)
qed

lemma init_abs_table: "abs_table (fst (ism_shell_connection_init conn m)) = Map.empty"
  by (rule ext) (simp add: abs_table_None active_index_None ism_shell_connection_init_def Let_def)

section \<open>Find and open\<close>

text \<open>The candidate table is used only with the storage its header asks for.\<close>

definition table_ready :: "build \<Rightarrow> ism_shell_connection \<Rightarrow> bool" where
  "table_ready bld conn \<longleftrightarrow> shell_inv conn \<and> (use_pulse_table bld \<longrightarrow> storage_ok bld conn)"

lemma shell_find_eq:
  assumes "table_ready bld conn"
  shows "ism_shell_find_stream bld conn sid = find_stream conn sid"
proof (cases "use_pulse_table bld")
  case True
  with assms show ?thesis
    by (simp add: ism_shell_find_stream_def table_ready_def pulse_table_find_eq shell_inv_def)
next
  case False
  from assms have D: "slots_perm conn" "active_count conn \<le> 4"
    by (auto simp: table_ready_def dest: shell_invD)
  have "active_at conn i \<noteq> None" if "i < active_count conn" for i
    using that D by (metis active_at_slot less_le_trans option.distinct(1))
  then have "find (\<lambda>i. active_at conn i \<noteq> None \<and> id_at conn i = sid) [0..<active_count conn]
      = active_index conn sid"
    unfolding active_index_def by (intro find_cong) auto
  with False show ?thesis
    by (simp add: ism_shell_find_stream_def find_stream_eq split: option.splits)
qed

lemma shell_open_eq:
  assumes ready: "table_ready bld conn"
  shows "ism_shell_open_stream bld conn sid = open_result conn sid"
proof (cases "use_pulse_table bld")
  case True
  with assms show ?thesis
    by (simp add: ism_shell_open_stream_def table_ready_def pulse_table_open_eq shell_inv_def)
next
  case False
  from ready have inv: "shell_inv conn" by (simp add: table_ready_def)
  note D = shell_invD [OF inv]
  have cap: "cc_capacity (conn_ctx conn) \<le> cc_num (conn_ctx conn) \<longleftrightarrow> \<not> active_count conn < 4"
    using D(2) by (auto simp: conn_wf_def word_le_nat_alt)
  show ?thesis
  proof (cases "active_index conn sid")
    case (Some i)
    then have "i < 4" using D(7) by (simp add: active_index_Some)
    then obtain k where "active_at conn i = Some k" using active_at_slot [OF D(3)] by blast
    with Some False show ?thesis
      by (simp add: ism_shell_open_stream_def shell_find_eq [OF ready] find_stream_eq open_result_def Let_def)
  next
    case None
    show ?thesis
    proof (cases "active_count conn < 4")
      case True
      then obtain k where k: "k < 4" "active_at conn (active_count conn) = Some k"
        using active_at_slot [OF D(3)] by blast
      moreover have "\<not> ss_active (conn_streams conn ! k)"
        using D(5) True k unfolding flags_synced_def by (metis less_irrefl option.sel)
      ultimately have "find (\<lambda>i. Some i = active_at conn (active_count conn)
          \<and> \<not> ss_active (conn_streams conn ! i)) [0..<4] = Some k"
        by (auto simp: find_upt_Some)
      moreover have "(ss_ctx (conn_streams conn ! k))\<lparr>sc_id := sid, sc_phase := S_ReadingLength,
          sc_buf := message_buffer (conn_streams conn ! k)\<rparr>
          = (ss_ctx (conn_streams conn ! k))\<lparr>sc_id := sid, sc_phase := S_ReadingLength\<rparr>"
        using conn_wf_slot [OF D(2) k(1)] by (simp add: slot_wf_def)
      ultimately show ?thesis
        using None False True k cap
        by (simp add: ism_shell_open_stream_def shell_find_eq [OF ready] find_stream_eq open_result_def
            activate_next_def ISM_SHELL_MAX_STREAMS_def Let_def)
    next
      case full: False
      with None False cap show ?thesis
        by (simp add: ism_shell_open_stream_def shell_find_eq [OF ready] find_stream_eq open_result_def
            ISM_SHELL_MAX_STREAMS_def Let_def)
    qed
  qed
qed

lemma activate_next_inv:
  assumes inv: "shell_inv conn" and fresh: "active_index conn sid = None" and room: "active_count conn < 4"
  shows "shell_inv (activate_next conn sid)"
proof (rule shell_inv_updI [OF inv room])
  note D = shell_invD [OF inv]
  let ?s = "slot_of conn (active_count conn)"
  let ?s' = "?s\<lparr>ss_ctx := (ss_ctx ?s)\<lparr>sc_id := sid, sc_phase := S_ReadingLength\<rparr>, ss_active := True\<rparr>"
  have "slot_wf ?s" using D(2) the_active_lt [OF D(3) room] by (rule conn_wf_slot)
  then show "slot_wf ?s'" by (simp add: slot_wf_def)
  show "active_count (activate_next conn sid) = Suc (active_count conn)"
    using room by (simp add: activate_next_def Let_def unat_add_u32)
  show "\<forall>j<active_count conn. j \<noteq> active_count conn \<longrightarrow> id_at conn j \<noteq> sc_id (ss_ctx ?s')"
    using fresh by (simp add: active_index_None)
qed (use room shell_invD(2) [OF inv] in \<open>auto simp: activate_next_def Let_def conn_wf_def\<close>)

lemma stream_at_activate_next:
  assumes "slots_perm conn" and "i < 4" and "active_count conn < 4"
  shows "stream_at (activate_next conn sid) (active_at conn i) =
    (if i = active_count conn
     then (stream_at conn (active_at conn i))\<lparr>sc_id := sid, sc_phase := S_ReadingLength\<rparr>
     else stream_at conn (active_at conn i))"
  using assms by (simp add: stream_at_def activate_next_def Let_def nth_update_position)

lemma abs_table_activate_next:
  assumes inv: "shell_inv conn" and fresh: "active_index conn sid = None" and room: "active_count conn < 4"
  shows "abs_table (activate_next conn sid) = (abs_table conn)(sid \<mapsto>
    (stream_at conn (active_at conn (active_count conn)))\<lparr>sc_id := sid, sc_phase := S_ReadingLength\<rparr>)"
    (is "_ = _(sid \<mapsto> ?c)")
proof (rule ext, rule option_eqI)
  fix s c
  note D = shell_invD [OF inv] and D' = shell_invD [OF activate_next_inv [OF assms]]
  have count: "active_count (activate_next conn sid) = Suc (active_count conn)"
    using room by (simp add: activate_next_def Let_def unat_add_u32)
  have at: "active_at (activate_next conn sid) i = active_at conn i" for i
    by (simp add: activate_next_def Let_def)
  have old: "\<forall>i<active_count conn. id_at conn i \<noteq> sid" using fresh by (simp add: active_index_None)
  have "abs_table (activate_next conn sid) s = Some c \<longleftrightarrow>
      (\<exists>i<active_count conn. stream_at conn (active_at conn i) = c \<and> sc_id c = s) \<or> c = ?c \<and> s = sid"
    unfolding abs_table_Some [OF D'(4)] count at
    using room stream_at_activate_next [OF D(3) _ room] by (auto simp: less_Suc_eq)
  also have "\<dots> \<longleftrightarrow> ((abs_table conn)(sid \<mapsto> ?c)) s = Some c"
    using old by (auto simp: abs_table_Some [OF D(4)])
  finally show "abs_table (activate_next conn sid) s = Some c \<longleftrightarrow> ((abs_table conn)(sid \<mapsto> ?c)) s = Some c" .
qed

lemma open_result_inv: "shell_inv conn \<Longrightarrow> shell_inv (snd (open_result conn sid))"
  by (simp add: open_result_def activate_next_inv split: option.splits)

text \<open>What an open leaves: the returned pointer is the table's entry for the identifier.\<close>

lemma open_result_Some:
  assumes inv: "shell_inv conn" and op: "open_result conn sid = (Some p, conn')"
  shows "\<exists>i<active_count conn'. active_at conn' i = Some p \<and> id_at conn' i = sid"
    and "abs_table conn' sid = Some (stream_at conn' (Some p))" and "shell_inv conn'"
proof -
  note D = shell_invD [OF inv]
  show inv': "shell_inv conn'" using open_result_inv [OF inv, of sid] op by simp
  show ex: "\<exists>i<active_count conn'. active_at conn' i = Some p \<and> id_at conn' i = sid"
  proof (cases "active_index conn sid")
    case (Some i)
    with op show ?thesis by (auto simp: open_result_def active_index_Some)
  next
    case None
    with op have room: "active_count conn < 4" and p: "active_at conn (active_count conn) = Some p"
      and conn': "conn' = activate_next conn sid"
      by (auto simp: open_result_def split: if_splits)
    have "active_count conn' = Suc (active_count conn)" and "active_at conn' (active_count conn) = Some p"
      using room p by (simp_all add: conn' activate_next_def Let_def unat_add_u32)
    moreover have "id_at conn' (active_count conn) = sid"
      using stream_at_activate_next [OF D(3) room room, of sid] by (simp add: conn' p activate_next_def Let_def)
    ultimately show ?thesis by auto
  qed
  then show "abs_table conn' sid = Some (stream_at conn' (Some p))"
    using abs_table_Some [OF shell_invD(4) [OF inv']] by metis
qed

lemma open_result_abs_table:
  assumes inv: "shell_inv conn"
  shows "s \<noteq> sid \<Longrightarrow> abs_table (snd (open_result conn sid)) s = abs_table conn s"
    and "abs_table conn sid \<noteq> None \<Longrightarrow> snd (open_result conn sid) = conn"
    and "fst (open_result conn sid) = None \<Longrightarrow> snd (open_result conn sid) = conn"
    and "fst (open_result conn sid) = None \<longleftrightarrow> abs_table conn sid = None \<and> active_count conn = 4"
    and "abs_table conn sid = None \<Longrightarrow> active_count conn < 4 \<Longrightarrow>
      map_option sc_phase (abs_table (snd (open_result conn sid)) sid) = Some S_ReadingLength"
proof -
  note D = shell_invD [OF inv]
  have some: "active_at conn i \<noteq> None" if "i < 4" for i
    using that active_at_slot [OF D(3)] by blast
  show "s \<noteq> sid \<Longrightarrow> abs_table (snd (open_result conn sid)) s = abs_table conn s"
    using abs_table_activate_next [OF inv] by (simp add: open_result_def split: option.splits)
  show "abs_table conn sid \<noteq> None \<Longrightarrow> snd (open_result conn sid) = conn"
    by (auto simp: open_result_def abs_table_None split: option.splits)
  show "fst (open_result conn sid) = None \<longleftrightarrow> abs_table conn sid = None \<and> active_count conn = 4"
  proof (cases "active_index conn sid")
    case (Some i)
    then have "i < 4" using D(7) by (simp add: active_index_Some)
    with Some some show ?thesis by (simp add: open_result_def abs_table_None)
  next
    case None
    with some D(7) show ?thesis by (auto simp: open_result_def abs_table_None)
  qed
  then show "fst (open_result conn sid) = None \<Longrightarrow> snd (open_result conn sid) = conn"
    by (auto simp: open_result_def abs_table_None)
  show "abs_table conn sid = None \<Longrightarrow> active_count conn < 4 \<Longrightarrow>
      map_option sc_phase (abs_table (snd (open_result conn sid)) sid) = Some S_ReadingLength"
    using abs_table_activate_next [OF inv] by (simp add: open_result_def abs_table_None)
qed

section \<open>Writing a context back\<close>

lemma set_stream_inv:
  assumes inv: "shell_inv conn" and i: "i < active_count conn" "active_at conn i = Some p"
    and c: "sc_id c = id_at conn i" "sc_buf c = sc_buf (stream_at conn (Some p))"
      "valid_phase (to_model (sc_phase c))" "phase_bounded (to_model (sc_phase c))"
  shows "shell_inv (set_stream conn (Some p) c)"
proof (rule shell_inv_updI [OF inv, of i])
  note D = shell_invD [OF inv]
  have i4: "i < 4" using i D(7) by simp
  then show "i < 4" .
  let ?s = "slot_of conn i"
  have s: "slot_wf ?s" using D(2) the_active_lt [OF D(3) i4] by (rule conn_wf_slot)
  with c i show "slot_wf (?s\<lparr>ss_ctx := c\<rparr>)" by (simp add: slot_wf_def stream_at_def)
  show "ss_active (?s\<lparr>ss_ctx := c\<rparr>)" using D(5) i(1) i4 unfolding flags_synced_def by simp
  show "\<forall>j<active_count conn. j \<noteq> i \<longrightarrow> id_at conn j \<noteq> sc_id (ss_ctx (?s\<lparr>ss_ctx := c\<rparr>))"
    using D(4) i(1) c(1) by (auto simp: ids_distinct_def)
  show "conn_streams (set_stream conn (Some p) c) = (conn_streams conn)[the (active_at conn i) := ?s\<lparr>ss_ctx := c\<rparr>]"
    by (simp add: set_stream_def i)
qed (use i shell_invD(2,7) [OF inv] in \<open>auto simp: set_stream_def conn_wf_def\<close>)

lemma set_stream_abs_table:
  assumes inv: "shell_inv conn" and i: "i < active_count conn" "active_at conn i = Some p"
    and c: "sc_id c = id_at conn i" and inv': "shell_inv (set_stream conn (Some p) c)"
  shows "abs_table (set_stream conn (Some p) c) = (abs_table conn)(sc_id c \<mapsto> c)"
proof (rule ext, rule option_eqI)
  fix s d
  note D = shell_invD [OF inv] and D' = shell_invD [OF inv']
  have i4: "i < 4" using i D(7) by simp
  have at: "stream_at (set_stream conn (Some p) c) (active_at conn j) =
      (if j = i then c else stream_at conn (active_at conn j))" if "j < active_count conn" for j
  proof -
    have "j < 4" using that D(7) by simp
    from nth_update_position [OF D(3) this i4] i show ?thesis
      by (simp add: stream_at_def set_stream_def)
  qed
  have "abs_table (set_stream conn (Some p) c) s = Some d \<longleftrightarrow>
      (\<exists>j<active_count conn. (if j = i then c else stream_at conn (active_at conn j)) = d \<and> sc_id d = s)"
    unfolding abs_table_Some [OF D'(4)] using at by (auto simp: set_stream_def)
  also have "\<dots> \<longleftrightarrow> ((abs_table conn)(sc_id c \<mapsto> c)) s = Some d"
    using i(1) c D(4) by (auto simp: abs_table_Some [OF D(4)] ids_distinct_def)
  finally show "abs_table (set_stream conn (Some p) c) s = Some d \<longleftrightarrow>
      ((abs_table conn)(sc_id c \<mapsto> c)) s = Some d" .
qed

section \<open>Synchronising the slots\<close>

lemma is_active_ptr_position:
  assumes "slots_perm conn" and "active_count conn \<le> 4" and "i < 4"
  shows "ism_shell_stream_is_active_ptr conn (active_at conn i) \<longleftrightarrow> i < active_count conn"
  using assms active_at_inj [OF assms(1) _ assms(3)]
  by (fastforce simp: ism_shell_stream_is_active_ptr_def list_ex_iff)

lemma sync_at:
  assumes perm: "slots_perm conn" and n: "active_count conn \<le> 4" and i: "i < 4"
  shows "conn_streams (ism_shell_sync_stream_slots conn) ! the (active_at conn i) =
    (if i < active_count conn then (slot_of conn i)\<lparr>ss_active := True\<rparr>
     else ism_shell_reset_stream (slot_of conn i))"
proof -
  obtain k where k: "active_at conn i = Some k" "k < 4" using perm i by (rule active_at_slot)
  with is_active_ptr_position [OF perm n i] show ?thesis
    by (simp add: ism_shell_sync_stream_slots_def ISM_SHELL_MAX_STREAMS_def Let_def)
qed

lemma sync_simps [simp]:
  "conn_active (ism_shell_sync_stream_slots conn) = conn_active conn"
  "conn_ctx (ism_shell_sync_stream_slots conn) = conn_ctx conn"
  "length (conn_streams (ism_shell_sync_stream_slots conn)) = 4"
  by (simp_all add: ism_shell_sync_stream_slots_def ISM_SHELL_MAX_STREAMS_def)

lemma sync_id_at:
  assumes "conn_wf conn" and "i < active_count conn"
  shows "stream_at (ism_shell_sync_stream_slots conn) (active_at conn i) = stream_at conn (active_at conn i)"
  using assms active_count_le [OF assms(1)] sync_at [of conn i] by (simp add: stream_at_def conn_wf_def)

lemma slot_wf_reset: "slot_wf (ism_shell_reset_stream s)"
  by (simp add: slot_wf_def ism_shell_reset_stream_def)

lemma reset_reset [simp]: "ism_shell_reset_stream (ism_shell_reset_stream s) = ism_shell_reset_stream s"
  by (simp add: ism_shell_reset_stream_def)

lemma sync_shell_inv:
  assumes wf: "conn_wf conn"
  shows "shell_inv (ism_shell_sync_stream_slots conn)"
proof -
  let ?c = "ism_shell_sync_stream_slots conn"
  have perm: "slots_perm conn" and n: "active_count conn \<le> 4"
    using wf active_count_le by (auto simp: conn_wf_def)
  have slots: "slot_wf (conn_streams ?c ! k)" if k: "k < 4" for k
  proof -
    obtain i where i: "i < 4" "active_at conn i = Some k" using slot_position [OF perm k] .
    have "slot_wf (conn_streams conn ! k)" using wf k by (rule conn_wf_slot)
    with sync_at [OF perm n i(1)] i(2) slot_wf_reset show ?thesis by (simp add: slot_wf_def)
  qed
  have "slots_perm ?c" using perm by (simp add: slots_perm_def)
  moreover have "list_all slot_wf (conn_streams ?c)" using slots by (simp add: list_all_length)
  moreover have "ids_distinct ?c"
    using wf sync_id_at [OF wf] by (simp add: ids_distinct_def conn_wf_def)
  moreover have "flags_synced ?c"
    using sync_at [OF perm n] by (simp add: flags_synced_def ism_shell_reset_stream_def)
  moreover have "slots_clean ?c"
    using sync_at [OF perm n] by (simp add: slots_clean_def)
  ultimately show ?thesis
    using wf by (simp add: shell_inv_def conn_inv_def conn_wf_def)
qed

lemma sync_abs_table:
  assumes wf: "conn_wf conn"
  shows "abs_table (ism_shell_sync_stream_slots conn) = abs_table conn"
proof (rule ext, rule option_eqI)
  fix s c
  have "ids_distinct conn" "ids_distinct (ism_shell_sync_stream_slots conn)"
    using wf shell_invD(4) [OF sync_shell_inv [OF wf]] by (simp_all add: conn_wf_def)
  then show "abs_table (ism_shell_sync_stream_slots conn) s = Some c \<longleftrightarrow> abs_table conn s = Some c"
    using sync_id_at [OF wf] by (auto simp: abs_table_Some)
qed

lemma sync_idle:
  assumes inv: "shell_inv conn"
  shows "ism_shell_sync_stream_slots conn = conn"
proof -
  note D = shell_invD [OF inv]
  have "conn_streams (ism_shell_sync_stream_slots conn) = conn_streams conn"
  proof (rule nth_equalityI)
    fix k assume "k < length (conn_streams (ism_shell_sync_stream_slots conn))"
    then have "k < 4" by simp
    then obtain i where i: "i < 4" "active_at conn i = Some k" using slot_position [OF D(3)] by blast
    then have "i < active_count conn \<Longrightarrow> ss_active (conn_streams conn ! k)"
      using D(5) unfolding flags_synced_def by (metis option.sel)
    moreover have "\<not> i < active_count conn \<Longrightarrow> ism_shell_reset_stream (conn_streams conn ! k) = conn_streams conn ! k"
      using D(6) i unfolding slots_clean_def by (metis not_less option.sel)
    ultimately show "conn_streams (ism_shell_sync_stream_slots conn) ! k = conn_streams conn ! k"
      using sync_at [OF D(3,7) i(1)] i(2) by simp
  qed (simp add: D)
  then show ?thesis by (simp add: ism_shell_sync_stream_slots_def)
qed

text \<open>The core's allocation followed by the shell's synchronisation is the shell's own open of an absent
  stream: \<^verbatim>\<open>ism_shell_open_stream\<close> repeats what \<^verbatim>\<open>allocate_stream\<close> does on its embedded storage.\<close>

lemma sync_ignores_flags:
  assumes "conn_active conn = conn_active conn'" and "conn_ctx conn = conn_ctx conn'"
    and "\<And>i. i < 4 \<Longrightarrow> (conn_streams conn ! i)\<lparr>ss_active := True\<rparr> = (conn_streams conn' ! i)\<lparr>ss_active := True\<rparr>"
  shows "ism_shell_sync_stream_slots conn = ism_shell_sync_stream_slots conn'"
proof -
  have act: "ism_shell_stream_is_active_ptr conn p = ism_shell_stream_is_active_ptr conn' p" for p
    using assms(1,2) by (simp add: ism_shell_stream_is_active_ptr_def)
  have reset: "ism_shell_reset_stream s = ism_shell_reset_stream (s\<lparr>ss_active := True\<rparr>)" for s
    by (simp add: ism_shell_reset_stream_def)
  have "ism_shell_reset_stream (conn_streams conn ! i) = ism_shell_reset_stream (conn_streams conn' ! i)" if "i < 4" for i
    using assms(3) [OF that] reset by metis
  with assms act show ?thesis
    by (cases conn; cases conn') (simp add: ism_shell_sync_stream_slots_def ISM_SHELL_MAX_STREAMS_def Let_def)
qed

lemma open_is_allocate:
  assumes inv: "shell_inv conn" and new: "abs_table conn sid = None"
  shows "open_result conn sid =
    (fst (allocate_stream conn sid), ism_shell_sync_stream_slots (snd (allocate_stream conn sid)))"
proof -
  note D = shell_invD [OF inv]
  have idx: "active_index conn sid = None" using new by (simp add: abs_table_def)
  then have absent: "find_stream conn sid = None" by (simp add: find_stream_eq)
  have cap: "cc_capacity (conn_ctx conn) = 4" using D(2) by (simp add: conn_wf_def)
  show ?thesis
  proof (cases "active_count conn < 4")
    case False
    then show ?thesis
      using idx absent cap sync_idle [OF inv] by (simp add: open_result_def allocate_stream_def word_less_nat_alt)
  next
    case True
    then have room: "cc_num (conn_ctx conn) < 4" "cc_num (conn_ctx conn) < 0xffffffff" by (simp_all add: word_less_nat_alt)
    obtain k where k: "active_at conn (active_count conn) = Some k" "k < 4" using D(3) True by (rule active_at_slot)
    have "ism_shell_sync_stream_slots (snd (allocate_stream conn sid)) = ism_shell_sync_stream_slots (activate_next conn sid)"
      using absent cap room k D(8)
      by (intro sync_ignores_flags)
        (auto simp: allocate_stream_def activate_next_def set_stream_def stream_at_def Let_def nth_list_update)
    moreover have "shell_inv (activate_next conn sid)"
      using open_result_inv [OF inv, of sid] idx True by (simp add: open_result_def)
    ultimately show ?thesis
      using idx absent cap room True
      by (simp add: open_result_def sync_idle) (simp add: allocate_stream_def Let_def)
  qed
qed

section \<open>Completion and reset\<close>

text \<open>All three ways to finish a stream close it and synchronise the slots.\<close>

definition finish_stream :: "ism_shell_connection \<Rightarrow> u64 \<Rightarrow> ism_shell_connection" where
  "finish_stream conn sid = ism_shell_sync_stream_slots (close_stream conn sid)"

lemma finish_stream_inv: "shell_inv conn \<Longrightarrow> shell_inv (finish_stream conn sid)"
  by (simp add: finish_stream_def sync_shell_inv close_stream_wf shell_invD)

lemma finish_stream_abs_table:
  "shell_inv conn \<Longrightarrow> abs_table (finish_stream conn sid) = (abs_table conn)(sid := None)"
  by (simp add: finish_stream_def sync_abs_table close_stream_wf abs_table_close shell_invD)

lemma close_synced:
  assumes inv: "shell_inv conn"
  shows "(if list_ex (\<lambda>i. ss_active (conn_streams (close_stream conn sid) ! i)
        \<and> sc_id (ss_ctx (conn_streams (close_stream conn sid) ! i)) = sid) [0..<ISM_SHELL_MAX_STREAMS]
      then (r, ism_shell_sync_stream_slots (close_stream conn sid)) else (r, close_stream conn sid))
    = (r, finish_stream conn sid)"
proof (cases "active_index conn sid")
  case None
  then show ?thesis by (simp add: close_stream_eq finish_stream_def sync_idle [OF inv])
next
  case (Some i)
  note D = shell_invD [OF inv]
  from Some have i: "i < active_count conn" "id_at conn i = sid" by (simp_all add: active_index_Some)
  then have i4: "i < 4" using D(7) by simp
  then obtain k where k: "k < 4" "active_at conn i = Some k" using active_at_slot [OF D(3)] by blast
  have "conn_streams (close_stream conn sid) = conn_streams conn"
    by (simp add: close_stream_eq remove_active_def split: option.splits)
  moreover have "ss_active (conn_streams conn ! k)"
    using D(5) i(1) i4 k unfolding flags_synced_def by (metis option.sel)
  moreover have "sc_id (ss_ctx (conn_streams conn ! k)) = sid"
    using i(2) k by (simp add: stream_at_def)
  ultimately show ?thesis
    using k(1) by (auto simp: finish_stream_def list_ex_iff ISM_SHELL_MAX_STREAMS_def)
qed

lemma shell_finish_eq:
  assumes ready: "table_ready bld conn"
  shows "ism_shell_complete_response_send bld conn sid rb len dropped = (1, finish_stream conn sid)"
    and "ism_shell_dispatch_response_send_finished bld conn sid rb len dropped = (1, finish_stream conn sid)"
    and "ism_shell_dispatch_stream_reset bld conn sid = (1, finish_stream conn sid)"
proof -
  from ready have inv: "shell_inv conn" and "conn_inv conn"
    by (auto simp: table_ready_def dest: shell_invD)
  then have pulse: "use_pulse_table bld \<Longrightarrow> ism_pulse_table_close bld conn sid = (1, close_stream conn sid)"
    using ready by (simp add: table_ready_def pulse_table_close_eq)
  show "ism_shell_complete_response_send bld conn sid rb len dropped = (1, finish_stream conn sid)"
    using pulse close_synced [OF inv, of sid "1 :: u8"]
    by (auto simp: ism_shell_complete_response_send_def completion_eq_close split: if_splits)
  show "ism_shell_dispatch_response_send_finished bld conn sid rb len dropped = (1, finish_stream conn sid)"
    using pulse close_synced [OF inv, of sid "1 :: u8"]
    by (auto simp: ism_shell_dispatch_response_send_finished_def completion_eq_close split: if_splits)
  show "ism_shell_dispatch_stream_reset bld conn sid = (1, finish_stream conn sid)"
    using pulse
    by (simp add: ism_shell_dispatch_stream_reset_def dispatch_stream_reset_via_scheduler_def finish_stream_def)
qed

section \<open>Addresses never move\<close>

definition conn_layout :: "ism_shell_connection \<Rightarrow> (addr \<times> addr) list" where
  "conn_layout conn = map (\<lambda>s. (ctx_addr s, message_buffer s)) (conn_streams conn)"

lemma layout_update:
  assumes "k < length (conn_streams conn) \<Longrightarrow> ctx_addr s = ctx_addr (conn_streams conn ! k)"
    and "k < length (conn_streams conn) \<Longrightarrow> message_buffer s = message_buffer (conn_streams conn ! k)"
  shows "map (\<lambda>s. (ctx_addr s, message_buffer s)) ((conn_streams conn)[k := s]) = conn_layout conn"
proof (cases "k < length (conn_streams conn)")
  case True
  have "(ctx_addr s, message_buffer s) = map (\<lambda>s. (ctx_addr s, message_buffer s)) (conn_streams conn) ! k"
    using True assms by simp
  then show ?thesis unfolding conn_layout_def map_update by (metis list_update_id)
qed (simp add: conn_layout_def list_update_beyond not_less)

lemma layout_set_stream [simp]: "conn_layout (set_stream conn p c) = conn_layout conn"
  unfolding conn_layout_def [of "set_stream conn p c"] by (simp add: set_stream_def layout_update)

lemma layout_open [simp]: "conn_layout (snd (open_result conn sid)) = conn_layout conn"
proof -
  have "conn_layout (activate_next conn sid) = conn_layout conn"
    unfolding conn_layout_def [of "activate_next conn sid"]
    by (simp add: activate_next_def Let_def layout_update)
  then show ?thesis by (simp add: open_result_def split: option.splits)
qed

lemma layout_finish:
  assumes "shell_inv conn"
  shows "conn_layout (finish_stream conn sid) = conn_layout conn"
proof -
  have "conn_streams (close_stream conn sid) = conn_streams conn"
    by (simp add: close_stream_eq remove_active_def split: option.splits)
  then show ?thesis
    using shell_invD(8) [OF assms]
    by (intro nth_equalityI)
      (auto simp: conn_layout_def finish_stream_def ism_shell_sync_stream_slots_def Let_def
        ISM_SHELL_MAX_STREAMS_def ism_shell_reset_stream_def)
qed

lemma layout_nth:
  assumes "conn_layout conn = conn_layout conn'" and "i < length (conn_streams conn)"
  shows "message_buffer (conn_streams conn ! i) = message_buffer (conn_streams conn' ! i)"
    and "ctx_addr (conn_streams conn ! i) = ctx_addr (conn_streams conn' ! i)"
proof -
  have "length (conn_streams conn) = length (conn_streams conn')"
    using assms(1) by (metis conn_layout_def length_map)
  then have "conn_layout conn ! i = (ctx_addr (conn_streams conn ! i), message_buffer (conn_streams conn ! i))"
    "conn_layout conn' ! i = (ctx_addr (conn_streams conn' ! i), message_buffer (conn_streams conn' ! i))"
    using assms(2) by (simp_all add: conn_layout_def)
  with assms(1) show "message_buffer (conn_streams conn ! i) = message_buffer (conn_streams conn' ! i)"
    and "ctx_addr (conn_streams conn ! i) = ctx_addr (conn_streams conn' ! i)" by auto
qed

lemma storage_ok_layout:
  assumes "conn_layout conn = conn_layout conn'" and "length (conn_streams conn) = 4"
  shows "storage_ok bld conn = storage_ok bld conn'"
  using layout_nth [OF assms(1)] assms(2) by (simp add: storage_ok_def)

lemma table_ready_layout:
  assumes "table_ready bld conn" and "shell_inv conn'" and "conn_layout conn' = conn_layout conn"
  shows "table_ready bld conn'"
  using assms storage_ok_layout [OF assms(3)] shell_invD(8) [OF assms(2)] by (simp add: table_ready_def)

section \<open>Ingress\<close>

text \<open>What an ingress call does, whatever lanes are built: open the stream, run the framing
  machine on its context, write the context back.\<close>

definition ingress_data ::
  "ism_shell_connection \<Rightarrow> u64 \<Rightarrow> addr \<Rightarrow> u32 \<Rightarrow> mem \<Rightarrow> u8 \<times> ism_shell_connection \<times> mem" where
  "ingress_data conn sid data len m =
     (case open_result conn sid of
        (None, conn') \<Rightarrow> (3, conn', m)
      | (Some p, conn') \<Rightarrow>
          (case handle_stream_data (stream_at conn' (Some p)) data len m of
             (phase, c, m') \<Rightarrow> (shell_phase_code phase, set_stream conn' (Some p) c, m')))"

definition ingress_fin ::
  "ism_shell_connection \<Rightarrow> u64 \<Rightarrow> mem \<Rightarrow> u8 \<times> ism_shell_connection \<times> mem" where
  "ingress_fin conn sid m =
     (case open_result conn sid of
        (None, conn') \<Rightarrow> (3, conn', m)
      | (Some p, conn') \<Rightarrow>
          (case handle_stream_fin (stream_at conn' (Some p)) m of
             (phase, c) \<Rightarrow> (shell_phase_code phase, set_stream conn' (Some p) c, m)))"

text \<open>The candidate stream lane is used only with fragments that overlap no message buffer.\<close>

definition ingress_ready :: "build \<Rightarrow> ism_shell_connection \<Rightarrow> addr \<Rightarrow> u32 \<Rightarrow> bool" where
  "ingress_ready bld conn data len \<longleftrightarrow>
     table_ready bld conn \<and>
     (use_pulse_stream bld \<longrightarrow>
        (\<forall>i<4. range_ok (message_buffer (conn_streams conn ! i)) 65535 \<and>
               (len \<noteq> 0 \<longrightarrow> disjoint (message_buffer (conn_streams conn ! i)) 65535 data (unat len))))"

lemma opened_stream:
  assumes inv: "shell_inv conn" and op: "open_result conn sid = (Some p, conn')"
  shows "sc_id (stream_at conn' (Some p)) = sid" and "p < 4"
    and "phase_bounded (to_model (sc_phase (stream_at conn' (Some p))))"
    and "valid_phase (to_model (sc_phase (stream_at conn' (Some p))))"
    and "sc_buf (stream_at conn' (Some p)) = message_buffer (conn_streams conn ! p)"
proof -
  note inv' = open_result_Some(3) [OF inv op]
  note D = shell_invD [OF inv']
  obtain i where i: "i < active_count conn'" "active_at conn' i = Some p" "id_at conn' i = sid"
    using open_result_Some(1) [OF inv op] by blast
  then show "sc_id (stream_at conn' (Some p)) = sid" by simp
  have i4: "i < 4" using i(1) D(7) by simp
  with the_active_lt [OF D(3) i4] i(2) show p: "p < 4" by simp
  have wf: "slot_wf (conn_streams conn' ! p)" using D(2) p by (rule conn_wf_slot)
  then show "phase_bounded (to_model (sc_phase (stream_at conn' (Some p))))"
    and "valid_phase (to_model (sc_phase (stream_at conn' (Some p))))"
    by (simp_all add: slot_wf_def stream_at_def)
  have "conn_layout conn' = conn_layout conn" using layout_open [of conn sid] op by simp
  from layout_nth(1) [OF this] wf p D(8) show "sc_buf (stream_at conn' (Some p)) = message_buffer (conn_streams conn ! p)"
    by (simp add: slot_wf_def stream_at_def)
qed

theorem shell_data_eq:
  assumes ready: "ingress_ready bld conn data len"
  shows "ism_shell_on_authenticated_stream_data bld conn sid data len m = ingress_data conn sid data len m"
    and "ism_shell_dispatch_authenticated_stream_data bld conn sid data len m = ingress_data conn sid data len m"
proof -
  from ready have tr: "table_ready bld conn" and inv: "shell_inv conn"
    by (auto simp: ingress_ready_def table_ready_def)
  obtain q conn' where op: "open_result conn sid = (q, conn')" by fastforce
  have pulse: "ism_pulse_ingress_data (empty_addr bld) (Some (stream_at conn' q)) sid data len m =
      (case handle_stream_data (stream_at conn' q) data len m of (phase, c, m') \<Rightarrow>
        (shell_phase_code phase, Some c, m'))" if q: "q = Some p" and use: "use_pulse_stream bld" for p
  proof -
    note o = opened_stream [OF inv op [unfolded q]]
    have "ingress_separate (stream_at conn' (Some p)) data len"
      using ready use o(2,5) by (simp add: ingress_ready_def ingress_separate_def)
    from pulse_ingress_data_eq [OF o(3) this] o(1) q show ?thesis
      by (simp add: dispatch_authenticated_stream_data_def split: prod.splits)
  qed
  show "ism_shell_on_authenticated_stream_data bld conn sid data len m = ingress_data conn sid data len m"
    using pulse by (cases q)
      (auto simp: ism_shell_on_authenticated_stream_data_def shell_open_eq [OF tr] op ingress_data_def
        dispatch_authenticated_stream_data_def Let_def split: prod.splits)
  show "ism_shell_dispatch_authenticated_stream_data bld conn sid data len m = ingress_data conn sid data len m"
    using pulse by (cases q)
      (auto simp: ism_shell_dispatch_authenticated_stream_data_def shell_open_eq [OF tr] op ingress_data_def
        data_via_scheduler_eq dispatch_authenticated_stream_data_def Let_def split: prod.splits)
qed

theorem shell_fin_eq:
  assumes ready: "ingress_ready bld conn data 0"
  shows "ism_shell_on_authenticated_stream_fin bld conn sid m = ingress_fin conn sid m"
proof -
  from ready have tr: "table_ready bld conn" and inv: "shell_inv conn"
    by (auto simp: ingress_ready_def table_ready_def)
  obtain q conn' where op: "open_result conn sid = (q, conn')" by fastforce
  have pulse: "ism_pulse_ingress_fin (Some (stream_at conn' q)) m =
      (case handle_stream_fin (stream_at conn' q) m of (phase, c) \<Rightarrow> (shell_phase_code phase, Some c))"
    if q: "q = Some p" and use: "use_pulse_stream bld" for p
  proof -
    note o = opened_stream [OF inv op [unfolded q]]
    have "range_ok (sc_buf (stream_at conn' (Some p))) 65535"
      using ready use o(2,5) by (simp add: ingress_ready_def)
    from pulse_ingress_fin_eq [OF o(3) this] q show ?thesis
      by (simp add: dispatch_authenticated_stream_fin_def split: prod.splits)
  qed
  show ?thesis
    using pulse by (cases q)
      (auto simp: ism_shell_on_authenticated_stream_fin_def shell_open_eq [OF tr] op ingress_fin_def
        dispatch_authenticated_stream_fin_def Let_def split: prod.splits)
qed

section \<open>Effect of an ingress call\<close>

lemma handle_stream_data_valid:
  assumes "handle_stream_data c data len m = (phase, c', m')"
  shows "valid_phase (to_model (sc_phase c)) \<Longrightarrow> valid_phase (to_model phase)"
    and "phase_bounded (to_model (sc_phase c)) \<Longrightarrow> phase_bounded (to_model phase)"
  using assms
  by (auto simp: handle_stream_data_def next_stream_phase_def stream_fragment_phase_def Let_def
      fragment_phase_valid fragment_phase_bounded)

lemma handle_stream_fin_valid:
  assumes "handle_stream_fin c m = (phase, c')"
  shows "valid_phase (to_model (sc_phase c)) \<Longrightarrow> valid_phase (to_model phase)"
    and "phase_bounded (to_model (sc_phase c)) \<Longrightarrow> phase_bounded (to_model phase)"
    and "c' = c\<lparr>sc_phase := phase\<rparr>"
  using assms
  by (auto simp: handle_stream_fin_def stream_finish_doq_phase_def Let_def
      finish_doq_phase_valid finish_doq_phase_bounded)

text \<open>The write-back of a context whose phase alone changed.\<close>

lemma write_back:
  assumes inv: "shell_inv conn" and op: "open_result conn sid = (Some p, conn')"
    and c: "c = (stream_at conn' (Some p))\<lparr>sc_phase := phase\<rparr>"
    and ok: "valid_phase (to_model phase)" "phase_bounded (to_model phase)"
  shows "shell_inv (set_stream conn' (Some p) c)"
    and "abs_table (set_stream conn' (Some p) c) = (abs_table conn)(sid \<mapsto> c)"
proof -
  note inv' = open_result_Some(3) [OF inv op]
  obtain i where i: "i < active_count conn'" "active_at conn' i = Some p" "id_at conn' i = sid"
    using open_result_Some(1) [OF inv op] by blast
  have c': "sc_id c = id_at conn' i" "sc_buf c = sc_buf (stream_at conn' (Some p))"
    using i(2) by (simp_all add: c)
  show new: "shell_inv (set_stream conn' (Some p) c)"
    using ok by (intro set_stream_inv [OF inv' i(1,2) c']) (simp_all add: c)
  have "abs_table conn' s = abs_table conn s" if "s \<noteq> sid" for s
    using open_result_abs_table(1) [OF inv that] op by simp
  then have "(abs_table conn')(sid \<mapsto> c) = (abs_table conn)(sid \<mapsto> c)" by auto
  moreover have "sc_id c = sid" using c'(1) i(3) by simp
  ultimately show "abs_table (set_stream conn' (Some p) c) = (abs_table conn)(sid \<mapsto> c)"
    using set_stream_abs_table [OF inv' i(1,2) c'(1) new] by simp
qed

lemma ingress_data_inv:
  assumes inv: "shell_inv conn" and run: "ingress_data conn sid data len m = (code, conn2, m')"
  shows "shell_inv conn2" and "conn_layout conn2 = conn_layout conn"
    and "s \<noteq> sid \<Longrightarrow> abs_table conn2 s = abs_table conn s"
proof -
  obtain q conn' where op: "open_result conn sid = (q, conn')" by fastforce
  have layout: "conn_layout conn' = conn_layout conn" using layout_open [of conn sid] op by simp
  have "shell_inv conn2 \<and> conn_layout conn2 = conn_layout conn \<and> (s \<noteq> sid \<longrightarrow> abs_table conn2 s = abs_table conn s)"
  proof (cases q)
    case None
    with run op have "conn2 = conn'" by (simp add: ingress_data_def)
    with None op open_result_abs_table(3) [OF inv, of sid] inv show ?thesis by simp
  next
    case (Some p)
    obtain phase c m2 where h: "handle_stream_data (stream_at conn' (Some p)) data len m = (phase, c, m2)"
      by (metis prod_cases3)
    note o = opened_stream [OF inv op [unfolded Some]]
    have conn2: "conn2 = set_stream conn' (Some p) c"
      using run op Some h by (simp add: ingress_data_def)
    note w = write_back [OF inv op [unfolded Some] handle_stream_data_ctx [OF h]
        handle_stream_data_valid(1) [OF h o(4)] handle_stream_data_valid(2) [OF h o(3)]]
    show ?thesis using w layout by (simp add: conn2)
  qed
  then show "shell_inv conn2" and "conn_layout conn2 = conn_layout conn"
    and "s \<noteq> sid \<Longrightarrow> abs_table conn2 s = abs_table conn s" by auto
qed

lemma ingress_fin_inv:
  assumes inv: "shell_inv conn" and run: "ingress_fin conn sid m = (code, conn2, m')"
  shows "shell_inv conn2" and "conn_layout conn2 = conn_layout conn" and "m' = m"
    and "s \<noteq> sid \<Longrightarrow> abs_table conn2 s = abs_table conn s"
proof -
  obtain q conn' where op: "open_result conn sid = (q, conn')" by fastforce
  have layout: "conn_layout conn' = conn_layout conn" using layout_open [of conn sid] op by simp
  have "shell_inv conn2 \<and> conn_layout conn2 = conn_layout conn \<and> m' = m \<and>
      (s \<noteq> sid \<longrightarrow> abs_table conn2 s = abs_table conn s)"
  proof (cases q)
    case None
    with run op have "conn2 = conn'" "m' = m" by (simp_all add: ingress_fin_def)
    with None op open_result_abs_table(3) [OF inv, of sid] inv show ?thesis by simp
  next
    case (Some p)
    obtain phase c where h: "handle_stream_fin (stream_at conn' (Some p)) m = (phase, c)"
      by fastforce
    note o = opened_stream [OF inv op [unfolded Some]]
    have conn2: "conn2 = set_stream conn' (Some p) c" "m' = m"
      using run op Some h by (simp_all add: ingress_fin_def)
    note w = write_back [OF inv op [unfolded Some] handle_stream_fin_valid(3) [OF h]
        handle_stream_fin_valid(1) [OF h o(4)] handle_stream_fin_valid(2) [OF h o(3)]]
    show ?thesis using w layout by (simp add: conn2)
  qed
  then show "shell_inv conn2" and "conn_layout conn2 = conn_layout conn" and "m' = m"
    and "s \<noteq> sid \<Longrightarrow> abs_table conn2 s = abs_table conn s" by auto
qed

text \<open>The full effect on the stream itself: the stream's context advances by the fragment, and
  memory changes inside its own message buffer only.\<close>

lemma ingress_data_stream:
  assumes inv: "shell_inv conn" and run: "ingress_data conn sid data len m = (code, conn2, m')"
    and room: "abs_table conn sid \<noteq> None \<or> active_count conn < 4"
  obtains c phase c' where
    "abs_table (snd (open_result conn sid)) sid = Some c"
    "handle_stream_data c data len m = (phase, c', m')"
    "abs_table conn2 = (abs_table conn)(sid \<mapsto> c')" "code = shell_phase_code phase"
    "\<exists>p<4. sc_buf c = message_buffer (conn_streams conn ! p)"
    "mem_frame (sc_buf c) 65535 m m'" "sc_buf c' = sc_buf c"
proof -
  have "fst (open_result conn sid) \<noteq> None"
    using room open_result_abs_table(4) [OF inv, of sid] by auto
  then obtain p conn' where op: "open_result conn sid = (Some p, conn')"
    by (metis option.collapse prod.collapse)
  note o = opened_stream [OF inv op]
  obtain phase c' m2 where h: "handle_stream_data (stream_at conn' (Some p)) data len m = (phase, c', m2)"
    by (metis prod_cases3)
  have eqs: "conn2 = set_stream conn' (Some p) c'" "m' = m2" "code = shell_phase_code phase"
    using run op h by (simp_all add: ingress_data_def)
  note ctx = handle_stream_data_ctx [OF h]
  note w = write_back [OF inv op ctx handle_stream_data_valid(1) [OF h o(4)] handle_stream_data_valid(2) [OF h o(3)]]
  show thesis
  proof (rule that [of "stream_at conn' (Some p)" phase c'])
    show "abs_table (snd (open_result conn sid)) sid = Some (stream_at conn' (Some p))"
      using open_result_Some(2) [OF inv op] op by simp
    show "mem_frame (sc_buf (stream_at conn' (Some p))) 65535 m m'"
      using handle_stream_data_frame [OF h o(3)] eqs(2) by simp
  qed (use h eqs w o ctx in auto)
qed

end
