(* ===== verification/Stream_Table.thy ===== *)
theory Stream_Table
  imports Shell
begin

text \<open>
  The contract between the stream table and its clients, as a locale: a partial map from
  stream identifiers to phases of at most \<open>cap\<close> entries, pointers that stay valid as long as
  their stream is open. The client lemmas are proved once; the shell's operations provide
  the contract for every build (stable or candidate table lane).
\<close>

locale stream_table =
  fixes inv :: "'s \<Rightarrow> bool"
    and tab :: "'s \<Rightarrow> 'k \<Rightarrow> 'v option"
    and rd :: "'s \<Rightarrow> 'p \<Rightarrow> 'v"
    and lookup :: "'s \<Rightarrow> 'k \<Rightarrow> 'p option"
    and opn :: "'s \<Rightarrow> 'k \<Rightarrow> 'p option \<times> 's"
    and cls :: "'s \<Rightarrow> 'k \<Rightarrow> 's"
    and fresh :: 'v
    and cap :: nat
  assumes finite_tab: "inv s \<Longrightarrow> finite (dom (tab s))"
    and card_tab: "inv s \<Longrightarrow> card (dom (tab s)) \<le> cap"
    and lookup_tab: "inv s \<Longrightarrow> map_option (rd s) (lookup s k) = tab s k"
    and opn_inv: "inv s \<Longrightarrow> inv (snd (opn s k))"
    and opn_ptr: "inv s \<Longrightarrow> fst (opn s k) = lookup (snd (opn s k)) k"
    and opn_tab: "inv s \<Longrightarrow> tab (snd (opn s k)) =
      (if tab s k \<noteq> None \<or> card (dom (tab s)) = cap then tab s else (tab s)(k \<mapsto> fresh))"
    and opn_other: "inv s \<Longrightarrow> k' \<noteq> k \<Longrightarrow> lookup (snd (opn s k)) k' = lookup s k'"
    and opn_known: "inv s \<Longrightarrow> tab s k \<noteq> None \<Longrightarrow> snd (opn s k) = s"
    and cls_inv: "inv s \<Longrightarrow> inv (cls s k)"
    and cls_tab: "inv s \<Longrightarrow> tab (cls s k) = (tab s)(k := None)"
    and cls_other: "inv s \<Longrightarrow> k' \<noteq> k \<Longrightarrow> lookup (cls s k) k' = lookup s k'"
begin

lemma lookup_None: "inv s \<Longrightarrow> lookup s k = None \<longleftrightarrow> tab s k = None"
  using lookup_tab [of s k] by (metis option.map_disc_iff)

lemma lookup_closed: "inv s \<Longrightarrow> lookup (cls s k) k = None"
  by (simp add: lookup_None cls_inv cls_tab)

lemma opn_None: "inv s \<Longrightarrow> fst (opn s k) = None \<longleftrightarrow> tab s k = None \<and> card (dom (tab s)) = cap"
  by (auto simp: opn_ptr lookup_None opn_inv opn_tab)

text \<open>Opening twice is opening once.\<close>

lemma opn_idem:
  assumes "inv s" and "fst (opn s k) \<noteq> None"
  shows "opn (snd (opn s k)) k = opn s k"
proof -
  have i: "inv (snd (opn s k))" using assms(1) by (rule opn_inv)
  have "tab (snd (opn s k)) k \<noteq> None"
    using assms by (simp add: opn_ptr lookup_None i)
  then have "snd (opn (snd (opn s k)) k) = snd (opn s k)" by (rule opn_known [OF i])
  then show ?thesis
    using opn_ptr [OF i, of k] opn_ptr [OF assms(1), of k] by (simp add: prod_eq_iff)
qed

text \<open>Closing makes room: the next open of a new stream succeeds with a fresh entry.\<close>

lemma opn_after_cls:
  assumes "inv s" and "tab s k \<noteq> None"
  shows "tab (snd (opn (cls s k) k')) k' = Some (if k' = k then fresh else case tab s k' of None \<Rightarrow> fresh | Some v \<Rightarrow> v)"
    and "fst (opn (cls s k) k') \<noteq> None"
proof -
  note i = cls_inv [OF assms(1), of k]
  have "card (dom (tab (cls s k))) < card (dom (tab s))"
    using assms finite_tab [OF assms(1)] by (auto simp: cls_tab intro: card_Diff1_less)
  then have room: "card (dom (tab (cls s k))) < cap"
    using card_tab [OF assms(1)] by simp
  show "fst (opn (cls s k) k') \<noteq> None"
    using room by (simp add: opn_None [OF i])
  show "tab (snd (opn (cls s k) k')) k' = Some (if k' = k then fresh else case tab s k' of None \<Rightarrow> fresh | Some v \<Rightarrow> v)"
    using room by (auto simp: opn_tab [OF i] cls_tab [OF assms(1)] split: option.splits)
qed

text \<open>A client's sequence of opens and closes: the invariant is kept, and an entry that no
  step closes keeps its pointer.\<close>

fun steps :: "'s \<Rightarrow> ('k + 'k) list \<Rightarrow> 's" where
  "steps s [] = s"
| "steps s (Inl k # es) = steps (snd (opn s k)) es"
| "steps s (Inr k # es) = steps (cls s k) es"

lemma steps_inv: "inv s \<Longrightarrow> inv (steps s es)"
  by (induction s es rule: steps.induct) (simp_all add: opn_inv cls_inv)

lemma steps_keep_pointer:
  assumes "inv s" and "lookup s k = Some p" and "Inr k \<notin> set es"
  shows "lookup (steps s es) k = Some p"
  using assms
proof (induction s es rule: steps.induct)
  case (2 s k' es)
  have "lookup (snd (opn s k')) k = Some p"
  proof (cases "k' = k")
    case True
    then show ?thesis using "2.prems" opn_known [of s k] lookup_None [of s k] by simp
  next
    case False
    then show ?thesis using "2.prems" opn_other [of s k k'] by simp
  qed
  with 2 show ?case by (simp add: opn_inv)
next
  case (3 s k' es)
  then show ?case using cls_other [of s k k'] by (simp add: cls_inv)
qed simp

end

section \<open>The shell provides the contract\<close>

definition phase_table :: "ism_shell_connection \<Rightarrow> u64 \<Rightarrow> stream_phase option" where
  "phase_table conn sid = map_option sc_phase (abs_table conn sid)"

lemma dom_abs_table:
  "ids_distinct conn \<Longrightarrow> dom (abs_table conn) = id_at conn ` {0..<active_count conn}"
  by (auto simp: abs_table_Some dom_def image_iff)

lemma card_abs_table:
  assumes "ids_distinct conn"
  shows "finite (dom (abs_table conn))" and "card (dom (abs_table conn)) = active_count conn"
proof -
  show "finite (dom (abs_table conn))" by (simp add: dom_abs_table [OF assms])
  have "inj_on (id_at conn) {0..<active_count conn}"
    using assms by (auto simp: inj_on_def ids_distinct_def)
  then show "card (dom (abs_table conn)) = active_count conn"
    by (simp add: dom_abs_table [OF assms] card_image)
qed

lemma dom_phase_table [simp]: "dom (phase_table conn) = dom (abs_table conn)"
  by (auto simp: phase_table_def)

lemma find_stream_Some:
  assumes inv: "shell_inv conn"
  shows "find_stream conn sid = Some p \<longleftrightarrow>
    (\<exists>i<active_count conn. active_at conn i = Some p \<and> id_at conn i = sid)"
proof -
  have "active_index conn sid = Some i" if "i < active_count conn" "id_at conn i = sid" for i
    using active_index_unique [OF shell_invD(4) [OF inv] that(1)] that(2) by simp
  then show ?thesis
    by (auto simp: find_stream_eq bind_eq_Some_conv active_index_Some)
qed

lemma find_stream_read:
  assumes inv: "shell_inv conn"
  shows "map_option (\<lambda>p. sc_phase (stream_at conn (Some p))) (find_stream conn sid) = phase_table conn sid"
proof (cases "active_index conn sid")
  case None
  then show ?thesis by (simp add: find_stream_eq phase_table_def abs_table_def)
next
  case (Some i)
  then have "i < 4" using shell_invD(7) [OF inv] by (simp add: active_index_Some)
  then obtain k where "active_at conn i = Some k" using active_at_slot [OF shell_invD(3) [OF inv]] by blast
  with Some show ?thesis by (simp add: find_stream_eq phase_table_def abs_table_def)
qed

lemma abs_table_find:
  assumes inv: "shell_inv conn" and tab: "abs_table conn sid = Some c"
  obtains p where "p < 4" and "find_stream conn sid = Some p" and "stream_at conn (Some p) = c"
    and "sc_buf c = message_buffer (conn_streams conn ! p)"
proof -
  note D = shell_invD [OF inv]
  from tab obtain i where i: "i < active_count conn" "stream_at conn (active_at conn i) = c" "id_at conn i = sid"
    using abs_table_Some [OF D(4), of sid c] by auto
  then have "i < 4" using D(7) by simp
  then obtain p where p: "p < 4" "active_at conn i = Some p" using active_at_slot [OF D(3)] by blast
  moreover have "find_stream conn sid = Some p"
    using find_stream_Some [OF inv] i p by blast
  moreover have "slot_wf (conn_streams conn ! p)" using D(2) p(1) by (rule conn_wf_slot)
  then have "sc_buf c = message_buffer (conn_streams conn ! p)"
    using i(2) p(2) by (auto simp: stream_at_def slot_wf_def)
  ultimately show thesis using that i(2) by metis
qed

text \<open>Pointers of other streams are stable.\<close>

lemma find_stream_finish:
  assumes inv: "shell_inv conn" and "s \<noteq> sid"
  shows "find_stream (finish_stream conn sid) s = find_stream conn s"
proof (cases "active_index conn sid")
  case None
  then show ?thesis by (simp add: finish_stream_def close_stream_eq sync_idle [OF inv])
next
  case (Some i)
  note D = shell_invD [OF inv]
  let ?r = "remove_active conn i"
  from Some have i: "i < active_count conn" "id_at conn i = sid" by (simp_all add: active_index_Some)
  have wf: "conn_wf ?r" using D(2) i(1) by (rule remove_active_wf)
  have fin: "finish_stream conn sid = ism_shell_sync_stream_slots ?r"
    using Some by (simp add: finish_stream_def close_stream_eq)
  have "find_stream (finish_stream conn sid) s = Some p \<longleftrightarrow> find_stream conn s = Some p" for p
  proof -
    have "find_stream (finish_stream conn sid) s = Some p \<longleftrightarrow>
        (\<exists>j<active_count ?r. active_at ?r j = Some p \<and> sc_id (stream_at ?r (Some p)) = s)"
      unfolding find_stream_Some [OF finish_stream_inv [OF inv]] unfolding fin sync_simps
      using sync_id_at [OF wf] by (metis (full_types))
    also have "\<dots> \<longleftrightarrow> (\<exists>j<active_count conn. j \<noteq> i \<and> active_at conn j = Some p) \<and> sc_id (stream_at conn (Some p)) = s"
      using remove_active_streams [OF D(2) i(1), of "Some p"] by auto
    also have "\<dots> \<longleftrightarrow> find_stream conn s = Some p"
      unfolding find_stream_Some [OF inv] using i assms(2) by metis
    finally show ?thesis .
  qed
  then show ?thesis by (rule option_eqI)
qed

lemma find_stream_open:
  assumes inv: "shell_inv conn" and "s \<noteq> sid"
  shows "find_stream (snd (open_result conn sid)) s = find_stream conn s"
proof (cases "active_index conn sid = None \<and> active_count conn < 4")
  case False
  then show ?thesis by (auto simp: open_result_def split: option.splits)
next
  case True
  note D = shell_invD [OF inv]
  let ?a = "activate_next conn sid"
  have room: "active_count conn < 4" and inv': "shell_inv ?a"
    using True activate_next_inv [OF inv] by simp_all
  have count: "active_count ?a = Suc (active_count conn)" and at: "active_at ?a j = active_at conn j" for j
    using room by (simp_all add: activate_next_def Let_def unat_add_u32)
  have old: "id_at ?a j = id_at conn j" if "j < active_count conn" for j
    using that room stream_at_activate_next [OF D(3) _ room, of j sid] by (simp add: at)
  have new: "id_at ?a (active_count conn) = sid"
    using stream_at_activate_next [OF D(3) room room, of sid] by (simp add: at)
  have "find_stream ?a s = Some p \<longleftrightarrow> find_stream conn s = Some p" for p
    unfolding find_stream_Some [OF inv'] find_stream_Some [OF inv] count
    using old new at assms(2) by (metis less_Suc_eq)
  then have "find_stream ?a s = find_stream conn s" by (rule option_eqI)
  with True show ?thesis by (simp add: open_result_def)
qed

lemma open_result_find:
  assumes inv: "shell_inv conn"
  shows "fst (open_result conn sid) = find_stream (snd (open_result conn sid)) sid"
proof (cases "fst (open_result conn sid)")
  case None
  then show ?thesis
    using open_result_abs_table(3,4) [OF inv, of sid] by (simp add: find_stream_eq abs_table_None)
next
  case (Some p)
  then have "open_result conn sid = (Some p, snd (open_result conn sid))" by (simp add: prod_eq_iff)
  from open_result_Some(1,3) [OF inv this] show ?thesis
    using find_stream_Some by (metis Some)
qed

lemma open_phase_table:
  assumes inv: "shell_inv conn"
  shows "phase_table (snd (open_result conn sid)) =
    (if phase_table conn sid \<noteq> None \<or> card (dom (phase_table conn)) = 4 then phase_table conn
     else (phase_table conn)(sid \<mapsto> S_ReadingLength))"
proof -
  note D = shell_invD [OF inv]
  have card: "card (dom (phase_table conn)) = active_count conn"
    using card_abs_table(2) [OF D(4)] by simp
  have same: "phase_table conn sid \<noteq> None \<or> active_count conn = 4 \<Longrightarrow> snd (open_result conn sid) = conn"
    using open_result_abs_table(2,3,4) [OF inv, of sid]
    by (cases "abs_table conn sid = None") (simp_all add: phase_table_def)
  have new: "phase_table (snd (open_result conn sid)) = (phase_table conn)(sid \<mapsto> S_ReadingLength)"
    if "phase_table conn sid = None" "active_count conn \<noteq> 4"
    using that open_result_abs_table(1,5) [OF inv] D(7) by (intro ext) (auto simp: phase_table_def)
  show ?thesis unfolding card using same new by auto
qed

text \<open>Every build of the shell: find, idempotent open, and completion or reset as close.\<close>

interpretation shell_table: stream_table
  "table_ready bld" phase_table "\<lambda>conn p. sc_phase (stream_at conn (Some p))"
  "ism_shell_find_stream bld" "ism_shell_open_stream bld"
  "\<lambda>conn sid. snd (ism_shell_dispatch_stream_reset bld conn sid)" S_ReadingLength 4
  for bld
proof unfold_locales
  fix conn k k'
  assume ready: "table_ready bld conn"
  then have inv: "shell_inv conn" by (simp add: table_ready_def)
  have opened: "table_ready bld (snd (open_result conn sid))" for sid
    using ready open_result_inv [OF inv] layout_open by (rule table_ready_layout)
  have closed: "table_ready bld (finish_stream conn sid)" for sid
    using ready finish_stream_inv [OF inv] layout_finish [OF inv] by (rule table_ready_layout)
  note eqs = shell_find_eq [OF ready] shell_open_eq [OF ready] shell_finish_eq(3) [OF ready] snd_conv
  show "finite (dom (phase_table conn))" "card (dom (phase_table conn)) \<le> 4"
    using card_abs_table [OF shell_invD(4) [OF inv]] shell_invD(7) [OF inv] by simp_all
  show "map_option (\<lambda>p. sc_phase (stream_at conn (Some p))) (ism_shell_find_stream bld conn k) = phase_table conn k"
    unfolding eqs using inv by (rule find_stream_read)
  show "table_ready bld (snd (ism_shell_open_stream bld conn k))"
    unfolding eqs by (rule opened)
  show "fst (ism_shell_open_stream bld conn k) =
      ism_shell_find_stream bld (snd (ism_shell_open_stream bld conn k)) k"
    unfolding eqs shell_find_eq [OF opened] using inv by (rule open_result_find)
  show "phase_table (snd (ism_shell_open_stream bld conn k)) =
      (if phase_table conn k \<noteq> None \<or> card (dom (phase_table conn)) = 4 then phase_table conn
       else (phase_table conn)(k \<mapsto> S_ReadingLength))"
    unfolding eqs using inv by (rule open_phase_table)
  show "ism_shell_find_stream bld (snd (ism_shell_open_stream bld conn k)) k' = ism_shell_find_stream bld conn k'"
    if "k' \<noteq> k" unfolding eqs shell_find_eq [OF opened] using inv that by (rule find_stream_open)
  show "snd (ism_shell_open_stream bld conn k) = conn" if "phase_table conn k \<noteq> None"
    unfolding eqs using that open_result_abs_table(2) [OF inv] by (simp add: phase_table_def)
  show "table_ready bld (snd (ism_shell_dispatch_stream_reset bld conn k))"
    unfolding eqs by (rule closed)
  show "phase_table (snd (ism_shell_dispatch_stream_reset bld conn k)) = (phase_table conn)(k := None)"
    unfolding eqs by (rule ext) (simp add: phase_table_def finish_stream_abs_table [OF inv])
  show "ism_shell_find_stream bld (snd (ism_shell_dispatch_stream_reset bld conn k)) k' =
      ism_shell_find_stream bld conn k'" if "k' \<noteq> k"
    unfolding eqs shell_find_eq [OF closed] using inv that by (rule find_stream_finish)
qed

section \<open>Sequences of opens and closes\<close>

text \<open>\<open>Inl\<close> opens a stream, \<open>Inr\<close> closes it.\<close>

fun table_run :: "build \<Rightarrow> ism_shell_connection \<Rightarrow> (u64 + u64) list \<Rightarrow> ism_shell_connection" where
  "table_run bld conn [] = conn"
| "table_run bld conn (Inl sid # es) = table_run bld (snd (ism_shell_open_stream bld conn sid)) es"
| "table_run bld conn (Inr sid # es) = table_run bld (snd (ism_shell_dispatch_stream_reset bld conn sid)) es"

lemma table_run_eq: "table_run bld conn es = shell_table.steps bld conn es"
  by (induction bld conn es rule: table_run.induct) simp_all

end
