(* ===== verification/Shell_Steps.thy ===== *)
theory Shell_Steps
  imports Stream_Table
begin

text \<open>
  The shell connection as a state machine: the states a client of \<^verbatim>\<open>src/shell/ism_shell.c\<close> can
  reach from \<^verbatim>\<open>ism_shell_connection_init\<close> by any interleaving of open, data, FIN, completion and
  reset, in every build. Invariants are proved by rule induction; the effect of a data
  step on the other streams of the connection is stated at the level of bytes.
\<close>

section \<open>Steps\<close>

type_synonym shell_config = "ism_shell_connection \<times> mem"

inductive shell_step :: "build \<Rightarrow> shell_config \<Rightarrow> shell_config \<Rightarrow> bool" for bld where
  step_open: "ism_shell_open_stream bld conn sid = (p, conn') \<Longrightarrow> shell_step bld (conn, m) (conn', m)"
| step_data: "ingress_ready bld conn data len \<Longrightarrow>
    ism_shell_on_authenticated_stream_data bld conn sid data len m = (code, conn', m') \<Longrightarrow>
    shell_step bld (conn, m) (conn', m')"
| step_dispatch: "ingress_ready bld conn data len \<Longrightarrow>
    ism_shell_dispatch_authenticated_stream_data bld conn sid data len m = (code, conn', m') \<Longrightarrow>
    shell_step bld (conn, m) (conn', m')"
| step_fin: "ingress_ready bld conn data 0 \<Longrightarrow>
    ism_shell_on_authenticated_stream_fin bld conn sid m = (code, conn', m') \<Longrightarrow>
    shell_step bld (conn, m) (conn', m')"
| step_complete: "ism_shell_complete_response_send bld conn sid rb len dropped = (code, conn') \<Longrightarrow>
    shell_step bld (conn, m) (conn', m)"
| step_finished: "ism_shell_dispatch_response_send_finished bld conn sid rb len dropped = (code, conn') \<Longrightarrow>
    shell_step bld (conn, m) (conn', m)"
| step_reset: "ism_shell_dispatch_stream_reset bld conn sid = (code, conn') \<Longrightarrow>
    shell_step bld (conn, m) (conn', m)"

inductive shell_reach :: "build \<Rightarrow> ism_shell_connection \<Rightarrow> shell_config \<Rightarrow> bool" for bld raw where
  reach_init: "ism_shell_connection_init raw m = (conn, m') \<Longrightarrow> shell_reach bld raw (conn, m')"
| reach_step: "shell_reach bld raw s \<Longrightarrow> shell_step bld s s' \<Longrightarrow> shell_reach bld raw s'"

text \<open>The effect of a step on the connection, whatever the build.\<close>

lemma shell_step_cases:
  assumes step: "shell_step bld (conn, m) (conn', m')" and ready: "table_ready bld conn"
  obtains (opened) sid where "conn' = snd (open_result conn sid)" "m' = m"
  | (data) sid data len code where "ingress_data conn sid data len m = (code, conn', m')"
  | (fin) sid code where "ingress_fin conn sid m = (code, conn', m')"
  | (finished) sid where "conn' = finish_stream conn sid" "m' = m"
proof -
  have "(\<exists>sid. conn' = snd (open_result conn sid) \<and> m' = m) \<or>
      (\<exists>sid data len code. ingress_data conn sid data len m = (code, conn', m')) \<or>
      (\<exists>sid code. ingress_fin conn sid m = (code, conn', m')) \<or>
      (\<exists>sid. conn' = finish_stream conn sid \<and> m' = m)"
    using step
  proof cases
    case (step_open sid p)
    then show ?thesis using shell_open_eq [OF ready, of sid] by (metis snd_conv)
  next
    case (step_data data len sid code)
    then show ?thesis using shell_data_eq(1) [OF step_data(1)] by auto
  next
    case (step_dispatch data len sid code)
    then show ?thesis using shell_data_eq(2) [OF step_dispatch(1)] by auto
  next
    case (step_fin data sid code)
    then show ?thesis using shell_fin_eq [OF step_fin(1)] by auto
  qed (auto simp: shell_finish_eq [OF ready])
  then show ?thesis using opened data fin finished by blast
qed

lemma shell_step_ready:
  assumes step: "shell_step bld (conn, m) (conn', m')" and ready: "table_ready bld conn"
  shows "table_ready bld conn'" and "conn_layout conn' = conn_layout conn"
proof -
  have inv: "shell_inv conn" using ready by (simp add: table_ready_def)
  have "shell_inv conn' \<and> conn_layout conn' = conn_layout conn"
    using step ready
  proof (cases rule: shell_step_cases)
    case (opened sid)
    then show ?thesis using open_result_inv [OF inv] by simp
  next
    case (data sid data len code)
    then show ?thesis using ingress_data_inv(1,2) [OF inv] by blast
  next
    case (fin sid code)
    then show ?thesis using ingress_fin_inv(1,2) [OF inv] by blast
  next
    case (finished sid)
    then show ?thesis using finish_stream_inv [OF inv] layout_finish [OF inv] by simp
  qed
  then show "table_ready bld conn'" and "conn_layout conn' = conn_layout conn"
    using table_ready_layout [OF ready] by simp_all
qed

section \<open>Reachable states\<close>

lemma init_layout:
  "length (conn_streams raw) = 4 \<Longrightarrow> conn_layout (fst (ism_shell_connection_init raw m)) = conn_layout raw"
  by (rule nth_equalityI)
    (simp_all add: conn_layout_def ism_shell_connection_init_def ism_shell_reset_stream_def Let_def
      ISM_SHELL_MAX_STREAMS_def)

lemma init_ready:
  assumes "length (conn_streams raw) = 4" and "use_pulse_table bld \<longrightarrow> storage_ok bld raw"
  shows "table_ready bld (fst (ism_shell_connection_init raw m))"
  using assms init_shell_inv [OF assms(1), of m] storage_ok_layout [OF init_layout [OF assms(1)], of m bld]
  by (simp add: table_ready_def shell_invD(8))

lemma shell_reach_ready:
  assumes "shell_reach bld raw s" and raw: "length (conn_streams raw) = 4"
    and storage: "use_pulse_table bld \<longrightarrow> storage_ok bld raw"
  shows "table_ready bld (fst s) \<and> conn_layout (fst s) = conn_layout raw"
  using assms(1)
proof induction
  case (reach_init m conn m')
  then show ?case using init_ready [OF raw storage, of m] init_layout [OF raw, of m] by simp
next
  case (reach_step s s')
  then show ?case using shell_step_ready by (metis prod.collapse)
qed

section \<open>Isolation of streams\<close>

text \<open>Two streams of a connection use different message buffers.\<close>

lemma abs_table_slots:
  assumes inv: "shell_inv conn" and "abs_table conn s = Some c" and "abs_table conn t = Some d" and "s \<noteq> t"
  obtains p q where "p < 4" "q < 4" "p \<noteq> q" "sc_buf c = message_buffer (conn_streams conn ! p)"
    "sc_buf d = message_buffer (conn_streams conn ! q)"
proof -
  obtain p where p: "p < 4" "find_stream conn s = Some p" "stream_at conn (Some p) = c"
      "sc_buf c = message_buffer (conn_streams conn ! p)"
    using abs_table_find [OF inv assms(2)] by metis
  obtain q where q: "q < 4" "find_stream conn t = Some q" "stream_at conn (Some q) = d"
      "sc_buf d = message_buffer (conn_streams conn ! q)"
    using abs_table_find [OF inv assms(3)] by metis
  have "p \<noteq> q"
    using p(2) q(2) assms(4) unfolding find_stream_Some [OF inv] by metis
  with p q that show ?thesis by blast
qed

lemma ingress_data_isolated:
  assumes inv: "shell_inv conn" and run: "ingress_data conn sid data len m = (code, conn', m')"
    and sep: "\<forall>i<4. \<forall>j<4. j \<noteq> i \<longrightarrow> ranges_disjoint (message_buffer (conn_streams conn ! i)) 65535
                (message_buffer (conn_streams conn ! j)) 65535"
    and other: "s \<noteq> sid" "abs_table conn s = Some c" and n: "n \<le> 65535"
  shows "abs_table conn' s = Some c" and "mem_bytes m' (sc_buf c) n = mem_bytes m (sc_buf c) n"
proof -
  show "abs_table conn' s = Some c" using ingress_data_inv(3) [OF inv run other(1)] other(2) by simp
  show "mem_bytes m' (sc_buf c) n = mem_bytes m (sc_buf c) n"
  proof (cases "abs_table conn sid = None \<and> active_count conn = 4")
    case True
    then have "open_result conn sid = (None, conn)"
      using open_result_abs_table(3,4) [OF inv, of sid] by (simp add: prod_eq_iff)
    with run show ?thesis by (simp add: ingress_data_def)
  next
    case False
    then have room: "abs_table conn sid \<noteq> None \<or> active_count conn < 4" using shell_invD(7) [OF inv] by auto
    obtain d phase d' where
      o: "abs_table (snd (open_result conn sid)) sid = Some d" and fr: "mem_frame (sc_buf d) 65535 m m'"
      using ingress_data_stream [OF inv run room] by metis
    have c: "abs_table (snd (open_result conn sid)) s = Some c"
      using open_result_abs_table(1) [OF inv other(1)] other(2) by simp
    obtain p q where pq: "p < 4" "q < 4" "p \<noteq> q"
        "sc_buf c = message_buffer (conn_streams (snd (open_result conn sid)) ! p)"
        "sc_buf d = message_buffer (conn_streams (snd (open_result conn sid)) ! q)"
      using abs_table_slots [OF open_result_inv [OF inv] c o other(1)] by metis
    have "ranges_disjoint (sc_buf c) 65535 (sc_buf d) 65535"
      using pq sep layout_nth(1) [OF layout_open] shell_invD(8) [OF open_result_inv [OF inv]] by simp
    then have "ranges_disjoint (sc_buf c) n (sc_buf d) 65535" using n by (auto simp: ranges_disjoint_def)
    with fr show ?thesis by (rule mem_bytes_frame)
  qed
qed

end
