(* ===== verification/Event_Queue.thy ===== *)
theory Event_Queue
  imports Prelude
begin

text \<open>
  The bounded event queue of \<^verbatim>\<open>src/shell/ism_event_queue.c\<close>: a ring buffer over caller-owned
  storage with \<^verbatim>\<open>uint32_t\<close> head and count. The ring refines a FIFO list of bounded length; the
  contract is the locale \<open>bounded_fifo\<close>, interpreted on the C operations. The sum
  \<^verbatim>\<open>head + count\<close> is computed at 32 bits, so the refinement needs a capacity of at most
  $2^{31}$; \<open>ring_wraps_beyond\<close> shows what happens above.
\<close>

section \<open>Events and queue\<close>

datatype ism_shell_event_kind =
    ISM_SHELL_EVENT_AUTHENTICATED_STREAM_BYTES
  | ISM_SHELL_EVENT_READY_RESPONSE
  | ISM_SHELL_EVENT_SEND_COMPLETE
  | ISM_SHELL_EVENT_STREAM_RESET
  | ISM_SHELL_EVENT_AUTHENTICATED_STREAM_FIN

record ism_shell_event =
  ev_kind :: ism_shell_event_kind
  ev_stream_id :: u64
  ev_data :: addr
  ev_len :: u32
  ev_dropped :: bool

text \<open>\<open>None\<close> as events is a \<open>NULL\<close> array.\<close>

record ism_shell_event_queue =
  q_events :: "ism_shell_event list option"
  q_capacity :: u32
  q_head :: u32
  q_count :: u32

text \<open>A queue argument is \<open>None\<close> for \<open>NULL\<close>, otherwise the queue.\<close>

definition ism_shell_event_queue_has_storage :: "ism_shell_event_queue option \<Rightarrow> bool" where
  "ism_shell_event_queue_has_storage queue =
     (case queue of None \<Rightarrow> False | Some q \<Rightarrow> q_events q \<noteq> None \<and> q_capacity q > 0)"

definition ism_shell_event_queue_enqueue ::
  "ism_shell_event_queue option \<Rightarrow> ism_shell_event \<Rightarrow> bool \<times> ism_shell_event_queue option" where
  "ism_shell_event_queue_enqueue queue event =
     (if \<not> ism_shell_event_queue_has_storage queue then (False, queue)
      else
        let q = the queue in
        if q_count q \<ge> q_capacity q then (False, queue)
        else
          let tail = q_head q + q_count q;
              tail = (if tail \<ge> q_capacity q then tail - q_capacity q else tail) in
          (True, Some (q\<lparr>q_events := Some ((the (q_events q))[unat tail := event]),
                         q_count := q_count q + 1\<rparr>)))"

definition ism_shell_event_queue_init ::
  "ism_shell_event_queue option \<Rightarrow> ism_shell_event list option \<Rightarrow> u32 \<Rightarrow> ism_shell_event_queue option" where
  "ism_shell_event_queue_init queue events capacity =
     (case queue of
        None \<Rightarrow> None
      | Some q \<Rightarrow> Some (q\<lparr>q_events := events, q_capacity := capacity, q_head := 0, q_count := 0\<rparr>))"

definition ism_shell_event_queue_len :: "ism_shell_event_queue option \<Rightarrow> u32" where
  "ism_shell_event_queue_len queue = (case queue of None \<Rightarrow> 0 | Some q \<Rightarrow> q_count q)"

definition bytes_event :: "u64 \<Rightarrow> addr \<Rightarrow> u32 \<Rightarrow> ism_shell_event" where
  "bytes_event stream_id data len =
     \<lparr>ev_kind = ISM_SHELL_EVENT_AUTHENTICATED_STREAM_BYTES, ev_stream_id = stream_id, ev_data = data,
      ev_len = len, ev_dropped = False\<rparr>"

definition fin_event :: "u64 \<Rightarrow> ism_shell_event" where
  "fin_event stream_id =
     \<lparr>ev_kind = ISM_SHELL_EVENT_AUTHENTICATED_STREAM_FIN, ev_stream_id = stream_id, ev_data = NULL,
      ev_len = 0, ev_dropped = False\<rparr>"

definition ready_event :: "u64 \<Rightarrow> ism_shell_event" where
  "ready_event stream_id =
     \<lparr>ev_kind = ISM_SHELL_EVENT_READY_RESPONSE, ev_stream_id = stream_id, ev_data = NULL, ev_len = 0,
      ev_dropped = False\<rparr>"

definition complete_event :: "u64 \<Rightarrow> u32 \<Rightarrow> bool \<Rightarrow> ism_shell_event" where
  "complete_event stream_id response_len dropped =
     \<lparr>ev_kind = ISM_SHELL_EVENT_SEND_COMPLETE, ev_stream_id = stream_id, ev_data = NULL,
      ev_len = response_len, ev_dropped = dropped\<rparr>"

definition reset_event :: "u64 \<Rightarrow> ism_shell_event" where
  "reset_event stream_id =
     \<lparr>ev_kind = ISM_SHELL_EVENT_STREAM_RESET, ev_stream_id = stream_id, ev_data = NULL, ev_len = 0,
      ev_dropped = True\<rparr>"

definition ism_shell_event_queue_enqueue_authenticated_stream_bytes ::
  "ism_shell_event_queue option \<Rightarrow> u64 \<Rightarrow> addr \<Rightarrow> u32 \<Rightarrow> bool \<times> ism_shell_event_queue option" where
  "ism_shell_event_queue_enqueue_authenticated_stream_bytes queue stream_id data len =
     (if data = NULL \<and> len > 0 then (False, queue)
      else ism_shell_event_queue_enqueue queue (bytes_event stream_id data len))"

definition ism_shell_event_queue_enqueue_authenticated_stream_fin ::
  "ism_shell_event_queue option \<Rightarrow> u64 \<Rightarrow> bool \<times> ism_shell_event_queue option" where
  "ism_shell_event_queue_enqueue_authenticated_stream_fin queue stream_id =
     ism_shell_event_queue_enqueue queue (fin_event stream_id)"

definition ism_shell_event_queue_enqueue_ready_response ::
  "ism_shell_event_queue option \<Rightarrow> u64 \<Rightarrow> bool \<times> ism_shell_event_queue option" where
  "ism_shell_event_queue_enqueue_ready_response queue stream_id =
     ism_shell_event_queue_enqueue queue (ready_event stream_id)"

definition ism_shell_event_queue_enqueue_send_complete ::
  "ism_shell_event_queue option \<Rightarrow> u64 \<Rightarrow> u32 \<Rightarrow> bool \<Rightarrow> bool \<times> ism_shell_event_queue option" where
  "ism_shell_event_queue_enqueue_send_complete queue stream_id response_len dropped =
     ism_shell_event_queue_enqueue queue (complete_event stream_id response_len dropped)"

definition ism_shell_event_queue_enqueue_stream_reset ::
  "ism_shell_event_queue option \<Rightarrow> u64 \<Rightarrow> bool \<times> ism_shell_event_queue option" where
  "ism_shell_event_queue_enqueue_stream_reset queue stream_id =
     ism_shell_event_queue_enqueue queue (reset_event stream_id)"

text \<open>The second argument is what the out parameter points at, \<open>None\<close> for \<open>NULL\<close>.\<close>

definition ism_shell_event_queue_dequeue ::
  "ism_shell_event_queue option \<Rightarrow> ism_shell_event option
     \<Rightarrow> bool \<times> ism_shell_event option \<times> ism_shell_event_queue option" where
  "ism_shell_event_queue_dequeue queue event =
     (if \<not> ism_shell_event_queue_has_storage queue \<or> event = None \<or> q_count (the queue) = 0
      then (False, event, queue)
      else
        let q = the queue;
            e = the (q_events q) ! unat (q_head q);
            head = q_head q + 1;
            head = (if head \<ge> q_capacity q then 0 else head) in
        (True, Some e, Some (q\<lparr>q_head := head, q_count := q_count q - 1\<rparr>)))"

section \<open>Contract of a bounded queue\<close>

locale bounded_fifo =
  fixes inv :: "'q \<Rightarrow> bool"
    and items :: "'q \<Rightarrow> 'e list"
    and limit :: "'q \<Rightarrow> nat"
    and enq :: "'q \<Rightarrow> 'e \<Rightarrow> bool \<times> 'q"
    and deq :: "'q \<Rightarrow> 'e option \<times> 'q"
  assumes enq_inv: "inv q \<Longrightarrow> inv (snd (enq q e))"
    and enq_ok: "inv q \<Longrightarrow> fst (enq q e) \<longleftrightarrow> length (items q) < limit q"
    and enq_items: "inv q \<Longrightarrow> items (snd (enq q e)) =
      (if length (items q) < limit q then items q @ [e] else items q)"
    and enq_limit: "inv q \<Longrightarrow> limit (snd (enq q e)) = limit q"
    and deq_inv: "inv q \<Longrightarrow> inv (snd (deq q))"
    and deq_head: "inv q \<Longrightarrow> fst (deq q) = (case items q of [] \<Rightarrow> None | e # _ \<Rightarrow> Some e)"
    and deq_items: "inv q \<Longrightarrow> items (snd (deq q)) = tl (items q)"
    and deq_limit: "inv q \<Longrightarrow> limit (snd (deq q)) = limit q"
    and items_bound: "inv q \<Longrightarrow> length (items q) \<le> limit q"
begin

fun enq_all :: "'q \<Rightarrow> 'e list \<Rightarrow> 'q" where
  "enq_all q [] = q"
| "enq_all q (e # es) = enq_all (snd (enq q e)) es"

fun deq_n :: "nat \<Rightarrow> 'q \<Rightarrow> 'e list" where
  "deq_n 0 q = []"
| "deq_n (Suc n) q = (case fst (deq q) of None \<Rightarrow> [] | Some e \<Rightarrow> e # deq_n n (snd (deq q)))"

lemma enq_all_items:
  assumes "inv q" and "length (items q) + length es \<le> limit q"
  shows "items (enq_all q es) = items q @ es" and "inv (enq_all q es)"
proof -
  have "items (enq_all q es) = items q @ es \<and> inv (enq_all q es)"
    using assms by (induction q es rule: enq_all.induct) (simp_all add: enq_inv enq_items enq_limit)
  then show "items (enq_all q es) = items q @ es" and "inv (enq_all q es)" by auto
qed

lemma deq_n_items: "inv q \<Longrightarrow> deq_n n q = take n (items q)"
proof (induction n arbitrary: q)
  case (Suc n)
  then show ?case
    by (cases "items q") (simp_all add: deq_head deq_inv deq_items)
qed simp

text \<open>Events come out in the order they went in, however the ring is positioned.\<close>

lemma fifo_order:
  assumes "inv q" and "length (items q) + length es \<le> limit q"
  shows "deq_n (length (items q) + length es) (enq_all q es) = items q @ es"
  using enq_all_items [OF assms] by (simp add: deq_n_items)

end

section \<open>The ring refines the list\<close>

definition queue_inv :: "ism_shell_event_queue \<Rightarrow> bool" where
  "queue_inv q \<longleftrightarrow>
     (\<exists>es. q_events q = Some es \<and> unat (q_capacity q) \<le> length es) \<and>
     0 < q_capacity q \<and> unat (q_capacity q) \<le> 2 ^ 31 \<and>
     q_head q < q_capacity q \<and> q_count q \<le> q_capacity q"

definition queue_items :: "ism_shell_event_queue \<Rightarrow> ism_shell_event list" where
  "queue_items q = map (\<lambda>i. the (q_events q) ! ((unat (q_head q) + i) mod unat (q_capacity q)))
     [0..<unat (q_count q)]"

lemma length_queue_items [simp]: "length (queue_items q) = unat (q_count q)"
  by (simp add: queue_items_def)

lemma mod_once: "(a :: nat) < c \<Longrightarrow> b \<le> c \<Longrightarrow> (a + b) mod c = (if a + b < c then a + b else a + b - c)"
  by (auto simp: mod_if)

lemma ring_positions_distinct:
  assumes "(h :: nat) < c" and "i < n" and "n < c"
  shows "(h + i) mod c \<noteq> (h + n) mod c"
  using assms by (auto simp: mod_once)

lemma enqueue_eq:
  assumes inv: "queue_inv q" and room: "q_count q < q_capacity q"
  shows "ism_shell_event_queue_enqueue (Some q) e = (True, Some (q\<lparr>
    q_events := Some ((the (q_events q))
      [(unat (q_head q) + unat (q_count q)) mod unat (q_capacity q) := e]),
    q_count := q_count q + 1\<rparr>))"
proof -
  let ?h = "unat (q_head q)" and ?n = "unat (q_count q)" and ?c = "unat (q_capacity q)"
  have c: "?h < ?c" "?n < ?c" "?c \<le> 2147483648"
    using inv room by (simp_all add: queue_inv_def word_less_nat_alt)
  then have sum: "unat (q_head q + q_count q) = ?h + ?n"
    by (intro unat_add_u32) simp
  have "unat (if q_head q + q_count q \<ge> q_capacity q then q_head q + q_count q - q_capacity q
      else q_head q + q_count q) = (?h + ?n) mod ?c"
    using c by (auto simp: sum unat_sub word_le_nat_alt mod_once)
  moreover have "ism_shell_event_queue_has_storage (Some q)"
    using inv by (auto simp: queue_inv_def ism_shell_event_queue_has_storage_def)
  ultimately show ?thesis
    using room by (simp add: ism_shell_event_queue_enqueue_def Let_def not_le)
qed

lemma enqueue_full:
  "q_capacity q \<le> q_count q \<Longrightarrow> ism_shell_event_queue_enqueue (Some q) e = (False, Some q)"
  by (simp add: ism_shell_event_queue_enqueue_def Let_def)

lemma enqueue_items:
  assumes inv: "queue_inv q" and room: "q_count q < q_capacity q"
    and run: "ism_shell_event_queue_enqueue (Some q) e = (ok, Some q')"
  shows "queue_inv q'" and "queue_items q' = queue_items q @ [e]" and "q_capacity q' = q_capacity q"
proof -
  let ?h = "unat (q_head q)" and ?n = "unat (q_count q)" and ?c = "unat (q_capacity q)"
  have q': "q' = q\<lparr>q_events := Some ((the (q_events q))[(?h + ?n) mod ?c := e]), q_count := q_count q + 1\<rparr>"
    using enqueue_eq [OF inv room, of e] run by simp
  have c: "?h < ?c" "?n < ?c" "?c \<le> length (the (q_events q))"
    using inv room by (auto simp: queue_inv_def word_less_nat_alt)
  have n: "unat (q_count q + 1) = Suc ?n"
    using c(2) unat_lt_u32 [of "q_capacity q"] by (subst unat_add_u32) auto
  show "q_capacity q' = q_capacity q" by (simp add: q')
  show "queue_inv q'"
    using inv c n by (auto simp: queue_inv_def q' word_le_nat_alt)
  have pos: "(?h + ?n) mod ?c < length (the (q_events q))"
    using c by (meson less_le_trans mod_less_divisor order.strict_trans1 zero_le)
  have "map (\<lambda>i. (the (q_events q))[(?h + ?n) mod ?c := e] ! ((?h + i) mod ?c)) [0..<?n] = queue_items q"
    unfolding queue_items_def using ring_positions_distinct [OF c(1) _ c(2)]
    by (intro map_cong refl nth_list_update_neq) (metis atLeastLessThan_iff set_upt)
  then show "queue_items q' = queue_items q @ [e]"
    using pos by (simp add: queue_items_def q' n)
qed

lemma dequeue_empty:
  "q_count q = 0 \<Longrightarrow> ism_shell_event_queue_dequeue (Some q) (Some ev) = (False, Some ev, Some q)"
  by (simp add: ism_shell_event_queue_dequeue_def)

lemma dequeue_items:
  assumes inv: "queue_inv q" and "q_count q \<noteq> 0"
    and run: "ism_shell_event_queue_dequeue (Some q) (Some ev) = (ok, ev', Some q')"
  shows "ok" and "ev' = Some (hd (queue_items q))" and "queue_items q' = tl (queue_items q)"
    and "queue_inv q'" and "q_capacity q' = q_capacity q"
proof -
  let ?h = "unat (q_head q)" and ?n = "unat (q_count q)" and ?c = "unat (q_capacity q)"
  have n: "0 < ?n" using assms(2) by (simp add: unat_gt_0)
  have c: "?h < ?c" "?n \<le> ?c" "?c \<le> 2147483648"
    using inv by (auto simp: queue_inv_def word_less_nat_alt word_le_nat_alt)
  have sum: "unat (q_head q + 1) = ?h + 1"
    using c by (subst unat_add_u32) simp_all
  have "ism_shell_event_queue_has_storage (Some q)"
    using inv by (auto simp: queue_inv_def ism_shell_event_queue_has_storage_def)
  then have res: "ok" "ev' = Some (the (q_events q) ! ?h)"
    "q' = q\<lparr>q_head := (if q_head q + 1 \<ge> q_capacity q then 0 else q_head q + 1), q_count := q_count q - 1\<rparr>"
    using run assms(2) by (auto simp: ism_shell_event_queue_dequeue_def Let_def)
  have head: "unat (q_head q') = (?h + 1) mod ?c"
    using c by (auto simp: res sum word_le_nat_alt mod_if)
  have count: "unat (q_count q') = ?n - 1"
    using n by (simp add: res unat_sub word_le_nat_alt)
  show "ok" by (rule res)
  have "queue_items q ! 0 = the (q_events q) ! ?h"
    using n c by (simp add: queue_items_def)
  moreover have "queue_items q \<noteq> []" using n by (metis length_queue_items length_0_conv less_irrefl)
  ultimately show "ev' = Some (hd (queue_items q))" by (simp add: res hd_conv_nth)
  show "q_capacity q' = q_capacity q" by (simp add: res)
  show "queue_inv q'"
    using inv c n head count unfolding queue_inv_def word_less_nat_alt word_le_nat_alt
    by (auto simp: res(3) simp del: unat_gt_0)
  have events: "q_events q' = q_events q" "q_capacity q' = q_capacity q" by (simp_all add: res)
  show "queue_items q' = tl (queue_items q)"
  proof (rule nth_equalityI)
    fix i assume "i < length (queue_items q')"
    then have "Suc i < ?n" using count by simp
    then show "queue_items q' ! i = tl (queue_items q) ! i"
      by (simp add: nth_tl queue_items_def head count events mod_add_left_eq)
  qed (simp add: count)
qed

section \<open>Interpretation\<close>

definition enq_event :: "ism_shell_event_queue \<Rightarrow> ism_shell_event \<Rightarrow> bool \<times> ism_shell_event_queue" where
  "enq_event q e = (let (ok, q') = ism_shell_event_queue_enqueue (Some q) e in (ok, the q'))"

definition deq_event :: "ism_shell_event_queue \<Rightarrow> ism_shell_event option \<times> ism_shell_event_queue" where
  "deq_event q =
     (let (ok, ev, q') = ism_shell_event_queue_dequeue (Some q) (Some (ready_event 0)) in
      (if ok then ev else None, the q'))"

lemma enqueue_Some: "\<exists>ok q'. ism_shell_event_queue_enqueue (Some q) e = (ok, Some q')"
  by (auto simp: ism_shell_event_queue_enqueue_def Let_def)

lemma dequeue_Some: "\<exists>ok ev' q'. ism_shell_event_queue_dequeue (Some q) ev = (ok, ev', Some q')"
  by (auto simp: ism_shell_event_queue_dequeue_def Let_def)

lemma enq_event_cases:
  assumes "queue_inv q"
  shows "if unat (q_count q) < unat (q_capacity q)
    then \<exists>q'. enq_event q e = (True, q') \<and> queue_inv q' \<and> queue_items q' = queue_items q @ [e]
           \<and> q_capacity q' = q_capacity q
    else enq_event q e = (False, q)"
proof (cases "q_count q < q_capacity q")
  case True
  obtain ok q' where run: "ism_shell_event_queue_enqueue (Some q) e = (ok, Some q')"
    using enqueue_Some by blast
  with enqueue_eq [OF assms True, of e] have "enq_event q e = (True, q')"
    by (simp add: enq_event_def)
  with enqueue_items [OF assms True run] True show ?thesis by (simp add: word_less_nat_alt)
next
  case False
  then have "q_capacity q \<le> q_count q" by (simp add: not_less)
  from enqueue_full [OF this, of e] False show ?thesis by (simp add: enq_event_def word_less_nat_alt)
qed

lemma deq_event_cases:
  assumes "queue_inv q"
  shows "if queue_items q = [] then deq_event q = (None, q)
    else \<exists>q'. deq_event q = (Some (hd (queue_items q)), q') \<and> queue_inv q'
           \<and> queue_items q' = tl (queue_items q) \<and> q_capacity q' = q_capacity q"
proof (cases "q_count q = 0")
  case True
  then show ?thesis by (simp add: deq_event_def dequeue_empty queue_items_def)
next
  case False
  obtain ok ev' q' where run: "ism_shell_event_queue_dequeue (Some q) (Some (ready_event 0)) = (ok, ev', Some q')"
    using dequeue_Some by blast
  from dequeue_items [OF assms False run] run have "deq_event q = (Some (hd (queue_items q)), q')"
    by (simp add: deq_event_def)
  moreover have "queue_items q \<noteq> []"
    using False by (metis length_queue_items list.size(3) unat_eq_0)
  ultimately show ?thesis using dequeue_items [OF assms False run] by simp
qed

interpretation ring: bounded_fifo queue_inv queue_items "\<lambda>q. unat (q_capacity q)" enq_event deq_event
proof
  fix q e
  assume inv: "queue_inv q"
  note enq = enq_event_cases [OF inv, of e] and deq = deq_event_cases [OF inv]
  show "queue_inv (snd (enq_event q e))" using enq inv by (auto split: if_splits)
  show "fst (enq_event q e) \<longleftrightarrow> length (queue_items q) < unat (q_capacity q)"
    using enq by (auto split: if_splits)
  show "queue_items (snd (enq_event q e)) =
      (if length (queue_items q) < unat (q_capacity q) then queue_items q @ [e] else queue_items q)"
    using enq by (auto split: if_splits)
  show "unat (q_capacity (snd (enq_event q e))) = unat (q_capacity q)"
    using enq by (auto split: if_splits)
  show "queue_inv (snd (deq_event q))" using deq inv by (auto split: if_splits)
  show "fst (deq_event q) = (case queue_items q of [] \<Rightarrow> None | e # _ \<Rightarrow> Some e)"
    using deq by (cases "queue_items q") auto
  show "queue_items (snd (deq_event q)) = tl (queue_items q)" using deq by (auto split: if_splits)
  show "unat (q_capacity (snd (deq_event q))) = unat (q_capacity q)" using deq by (auto split: if_splits)
  show "length (queue_items q) \<le> unat (q_capacity q)"
    using inv by (simp add: queue_inv_def word_le_nat_alt)
qed

section \<open>Runs of calls\<close>

fun enqueue_run :: "ism_shell_event_queue \<Rightarrow> ism_shell_event list \<Rightarrow> ism_shell_event_queue" where
  "enqueue_run q [] = q"
| "enqueue_run q (e # es) = enqueue_run (the (snd (ism_shell_event_queue_enqueue (Some q) e))) es"

fun dequeue_run :: "nat \<Rightarrow> ism_shell_event_queue \<Rightarrow> ism_shell_event list" where
  "dequeue_run 0 q = []"
| "dequeue_run (Suc n) q =
     (let (ok, e, q') = ism_shell_event_queue_dequeue (Some q) (Some (ready_event 0)) in
      if ok then the e # dequeue_run n (the q') else [])"

lemma snd_enq_event: "snd (enq_event q e) = the (snd (ism_shell_event_queue_enqueue (Some q) e))"
  by (simp add: enq_event_def split: prod.splits)

lemma enqueue_run_eq: "enqueue_run q es = ring.enq_all q es"
  by (induction q es rule: enqueue_run.induct) (simp_all add: snd_enq_event)

lemma dequeue_run_Suc:
  "dequeue_run (Suc n) q = (case fst (deq_event q) of None \<Rightarrow> [] | Some e \<Rightarrow> e # dequeue_run n (snd (deq_event q)))"
  by (auto simp: deq_event_def ism_shell_event_queue_dequeue_def Let_def)

lemma dequeue_run_eq: "dequeue_run n q = ring.deq_n n q"
  by (induction n arbitrary: q) (simp_all add: dequeue_run_Suc del: dequeue_run.simps(2) split: option.splits)

section \<open>Capacities above half the range\<close>

text \<open>With the largest capacity the 32-bit sum wraps: the third event overwrites the second.\<close>

lemma ring_wraps_beyond:
  assumes "q_events q = Some es" and "length es = 4294967295" and "q_capacity q = 0xffffffff"
    and "q_head q = 0xfffffffe" and "q_count q = 2"
  shows "ism_shell_event_queue_enqueue (Some q) e = (True, Some (q\<lparr>q_events := Some (es[0 := e]), q_count := 3\<rparr>))"
    and "queue_items q ! 1 = es ! 0"
proof -
  show "ism_shell_event_queue_enqueue (Some q) e = (True, Some (q\<lparr>q_events := Some (es[0 := e]), q_count := 3\<rparr>))"
    using assms
    by (simp add: ism_shell_event_queue_enqueue_def ism_shell_event_queue_has_storage_def Let_def)
  show "queue_items q ! 1 = es ! 0"
    using assms by (simp add: queue_items_def)
qed

end
