(* ===== verification/Adapter.thy ===== *)
theory Adapter
  imports Shell_Steps Event_Queue
begin

text \<open>
  The adapter of \<^verbatim>\<open>src/shell/msquic_adapter.c\<close> between the shell connection and a transport that
  sends asynchronously: it answers a stream that reached the processing phase, owns the
  one response and the one send buffer, and keeps at most one send in flight until the
  matching completion.

  The send function is a parameter: it may read the bytes it is given and change its own
  context \<open>'c\<close>. The adapter, the event queue, the byte memory and that context
  form the state \<open>'c shell_state\<close> of the C program.
\<close>

section \<open>State\<close>

text \<open>A pointer to the one adapter, queue, or other object of its type.\<close>

datatype obj_ptr = Null | Obj

type_synonym 'c ism_msquic_send_fn = "u64 \<Rightarrow> addr \<Rightarrow> u32 \<Rightarrow> bool \<Rightarrow> mem \<Rightarrow> 'c \<Rightarrow> bool \<times> 'c"

record 'c ism_msquic_adapter =
  ad_connection :: ism_shell_connection
  ad_response_buffer :: addr
  ad_response_capacity :: u32
  ad_send_buffer :: addr
  ad_send_capacity :: u32
  ad_send :: "'c ism_msquic_send_fn option"
  ad_send_in_flight :: bool
  ad_send_stream_id :: u64
  ad_send_len :: u32

record 'c shell_state =
  sh_mem :: mem
  sh_adapter :: "'c ism_msquic_adapter"
  sh_queue :: ism_shell_event_queue
  sh_ctx :: 'c

abbreviation conn_of :: "'c shell_state \<Rightarrow> ism_shell_connection" where
  "conn_of st \<equiv> ad_connection (sh_adapter st)"

definition set_conn :: "ism_shell_connection \<Rightarrow> 'c shell_state \<Rightarrow> 'c shell_state" where
  "set_conn conn st = st\<lparr>sh_adapter := (sh_adapter st)\<lparr>ad_connection := conn\<rparr>\<rparr>"

text \<open>The three fields that describe the send in flight.\<close>

definition set_send :: "bool \<Rightarrow> u64 \<Rightarrow> u32 \<Rightarrow> 'c shell_state \<Rightarrow> 'c shell_state" where
  "set_send in_flight sid len st =
     st\<lparr>sh_adapter := (sh_adapter st)\<lparr>ad_send_in_flight := in_flight, ad_send_stream_id := sid,
          ad_send_len := len\<rparr>\<rparr>"

section \<open>Operations\<close>

definition ism_msquic_adapter_init ::
  "obj_ptr \<Rightarrow> addr \<Rightarrow> u32 \<Rightarrow> addr \<Rightarrow> u32 \<Rightarrow> 'c ism_msquic_send_fn option \<Rightarrow> 'c \<Rightarrow> 'c shell_state
     \<Rightarrow> 'c shell_state" where
  "ism_msquic_adapter_init adapter response_buffer response_capacity send_buffer send_capacity send
       send_ctx st =
     (case adapter of
        Null \<Rightarrow> st
      | Obj \<Rightarrow>
          let (conn, m) = ism_shell_connection_init (conn_of st) (sh_mem st) in
          st\<lparr>sh_mem := m,
             sh_adapter := \<lparr>ad_connection = conn, ad_response_buffer = response_buffer,
               ad_response_capacity = response_capacity, ad_send_buffer = send_buffer,
               ad_send_capacity = send_capacity, ad_send = send, ad_send_in_flight = False,
               ad_send_stream_id = 0, ad_send_len = 0\<rparr>,
             sh_ctx := send_ctx\<rparr>)"

definition ism_msquic_adapter_prepare_ready_response ::
  "build \<Rightarrow> obj_ptr \<Rightarrow> u64 \<Rightarrow> 'c shell_state \<Rightarrow> u32 \<times> 'c shell_state" where
  "ism_msquic_adapter_prepare_ready_response bld adapter stream_id st =
     (let ad = sh_adapter st in
      if adapter = Null \<or> ad_response_buffer ad = NULL \<or> ad_response_capacity ad = 0
         \<or> ad_send_buffer ad = NULL \<or> ad_send_capacity ad = 0 \<or> ad_send ad = None
         \<or> ad_send_in_flight ad then (0, st)
      else
        let (response_len, m1) = ism_shell_dispatch_ready_stream_validated_minimal_response bld
              (ad_connection ad) stream_id (ad_response_buffer ad) (ad_response_capacity ad) (sh_mem st);
            st1 = st\<lparr>sh_mem := m1\<rparr> in
        if response_len = 0 then (0, st1)
        else
          let (send_len, m2) = ism_shell_prepare_doq_response_send bld (ad_connection ad) stream_id
                (ad_response_buffer ad) response_len (ad_send_buffer ad) (ad_send_capacity ad) True m1;
              st2 = st1\<lparr>sh_mem := m2\<rparr> in
          if send_len > 0 then
            let st3 = set_send True stream_id send_len st2;
                (sent, ctx) = the (ad_send ad) stream_id (ad_send_buffer ad) send_len True m2 (sh_ctx st3);
                st4 = st3\<lparr>sh_ctx := ctx\<rparr> in
            if \<not> sent then
              let (_, conn) = ism_shell_dispatch_response_send_finished bld (conn_of st4) stream_id
                    (ad_send_buffer ad) send_len True in
              (0, set_send False 0 0 (set_conn conn st4))
            else (send_len, st4)
          else (send_len, st2))"

definition ism_msquic_adapter_on_authenticated_stream_bytes ::
  "build \<Rightarrow> obj_ptr \<Rightarrow> u64 \<Rightarrow> addr \<Rightarrow> u32 \<Rightarrow> 'c shell_state \<Rightarrow> u8 \<times> 'c shell_state" where
  "ism_msquic_adapter_on_authenticated_stream_bytes bld adapter stream_id data len st =
     (if adapter = Null \<or> data = NULL then (3, st)
      else
        let (phase, conn, m) = ism_shell_dispatch_authenticated_stream_data bld (conn_of st) stream_id
              data len (sh_mem st);
            st1 = set_conn conn (st\<lparr>sh_mem := m\<rparr>) in
        if phase = 2 then (phase, snd (ism_msquic_adapter_prepare_ready_response bld adapter stream_id st1))
        else (phase, st1))"

definition ism_msquic_adapter_on_authenticated_stream_fin ::
  "build \<Rightarrow> obj_ptr \<Rightarrow> u64 \<Rightarrow> 'c shell_state \<Rightarrow> u8 \<times> 'c shell_state" where
  "ism_msquic_adapter_on_authenticated_stream_fin bld adapter stream_id st =
     (if adapter = Null then (3, st)
      else
        let (phase, conn, m) = ism_shell_on_authenticated_stream_fin bld (conn_of st) stream_id (sh_mem st);
            st1 = set_conn conn (st\<lparr>sh_mem := m\<rparr>) in
        if phase = 2 \<and> \<not> ad_send_in_flight (sh_adapter st1)
        then (phase, snd (ism_msquic_adapter_prepare_ready_response bld adapter stream_id st1))
        else (phase, st1))"

definition ism_msquic_adapter_on_send_complete ::
  "build \<Rightarrow> obj_ptr \<Rightarrow> u64 \<Rightarrow> u32 \<Rightarrow> bool \<Rightarrow> 'c shell_state \<Rightarrow> bool \<times> 'c shell_state" where
  "ism_msquic_adapter_on_send_complete bld adapter stream_id response_len dropped st =
     (let ad = sh_adapter st in
      if adapter = Null \<or> ad_send_buffer ad = NULL \<or> ad_send_capacity ad = 0
         \<or> response_len > ad_send_capacity ad \<or> \<not> ad_send_in_flight ad
         \<or> ad_send_stream_id ad \<noteq> stream_id \<or> ad_send_len ad \<noteq> response_len then (False, st)
      else
        let (result, conn) = ism_shell_dispatch_response_send_finished bld (ad_connection ad) stream_id
              (ad_send_buffer ad) response_len dropped;
            completed = (result = 1);
            st1 = set_conn conn st in
        (completed, if completed then set_send False 0 0 st1 else st1))"

definition ism_msquic_adapter_on_stream_reset ::
  "build \<Rightarrow> obj_ptr \<Rightarrow> u64 \<Rightarrow> 'c shell_state \<Rightarrow> bool \<times> 'c shell_state" where
  "ism_msquic_adapter_on_stream_reset bld adapter stream_id st =
     (let ad = sh_adapter st in
      if adapter = Null then (False, st)
      else if ad_send_in_flight ad then
        (if ad_send_stream_id ad \<noteq> stream_id then (False, st)
         else ism_msquic_adapter_on_send_complete bld adapter stream_id (ad_send_len ad) True st)
      else
        let (result, conn) = ism_shell_dispatch_stream_reset bld (ad_connection ad) stream_id in
        (result = 1, set_conn conn st))"

section \<open>Placement of the buffers\<close>

text \<open>The documented obligations: the four message buffers, the response buffer and the send
  buffer do not overlap; the candidate response lane also needs representable ranges.\<close>

definition buffers_separate :: "build \<Rightarrow> 'c shell_state \<Rightarrow> bool" where
  "buffers_separate bld st \<longleftrightarrow>
     (let ad = sh_adapter st; rb = ad_response_buffer ad; rc = unat (ad_response_capacity ad);
          sb = ad_send_buffer ad; sc = unat (ad_send_capacity ad); ss = conn_streams (ad_connection ad) in
      (\<forall>i<4. ranges_disjoint (message_buffer (ss ! i)) 65535 rb rc \<and>
             ranges_disjoint (message_buffer (ss ! i)) 65535 sb sc \<and>
             (\<forall>j<4. j \<noteq> i \<longrightarrow>
                ranges_disjoint (message_buffer (ss ! i)) 65535 (message_buffer (ss ! j)) 65535)) \<and>
      ranges_disjoint rb rc sb sc \<and>
      (use_pulse_response bld \<longrightarrow>
         ism_response_disjoint rb rc sb sc \<and>
         (\<forall>i<4. message_buffer (ss ! i) \<noteq> NULL \<and>
                ism_response_disjoint (ctx_addr (ss ! i)) (sizeof_stream_context bld) sb sc)))"

text \<open>The parts of the state that no operation after initialisation changes.\<close>

definition same_setup :: "'c shell_state \<Rightarrow> 'c shell_state \<Rightarrow> bool" where
  "same_setup st st' \<longleftrightarrow>
     conn_layout (conn_of st') = conn_layout (conn_of st) \<and>
     ad_response_buffer (sh_adapter st') = ad_response_buffer (sh_adapter st) \<and>
     ad_response_capacity (sh_adapter st') = ad_response_capacity (sh_adapter st) \<and>
     ad_send_buffer (sh_adapter st') = ad_send_buffer (sh_adapter st) \<and>
     ad_send_capacity (sh_adapter st') = ad_send_capacity (sh_adapter st) \<and>
     ad_send (sh_adapter st') = ad_send (sh_adapter st)"

lemma same_setup_refl [simp]: "same_setup st st"
  by (simp add: same_setup_def)

lemma same_setup_trans: "same_setup st st' \<Longrightarrow> same_setup st' st'' \<Longrightarrow> same_setup st st''"
  by (simp add: same_setup_def)

lemma buffers_separate_setup:
  assumes "same_setup st st'" and "length (conn_streams (conn_of st)) = 4" and "buffers_separate bld st"
  shows "buffers_separate bld st'"
proof -
  have lay: "conn_layout (conn_of st) = conn_layout (conn_of st')" using assms(1) by (simp add: same_setup_def)
  note nth = layout_nth [OF lay, unfolded assms(2)]
  show ?thesis
    using assms(1,3) nth unfolding buffers_separate_def same_setup_def Let_def by simp
qed

section \<open>Invariant of the adapter\<close>

text \<open>At most one send is described, and its stream is open until the matching completion.\<close>

definition adapter_inv :: "build \<Rightarrow> 'c shell_state \<Rightarrow> bool" where
  "adapter_inv bld st \<longleftrightarrow>
     table_ready bld (conn_of st) \<and> buffers_separate bld st \<and>
     (let ad = sh_adapter st in
      if ad_send_in_flight ad then
        abs_table (ad_connection ad) (ad_send_stream_id ad) \<noteq> None \<and>
        ad_send_buffer ad \<noteq> NULL \<and> 0 < ad_send_len ad \<and> ad_send_len ad \<le> ad_send_capacity ad
      else ad_send_stream_id ad = 0 \<and> ad_send_len ad = 0)"

lemma adapter_invD:
  assumes "adapter_inv bld st"
  shows "table_ready bld (conn_of st)" "shell_inv (conn_of st)" "buffers_separate bld st"
    "length (conn_streams (conn_of st)) = 4"
  using assms by (auto simp: adapter_inv_def table_ready_def dest: shell_invD)

lemma set_conn_simps [simp]:
  "conn_of (set_conn conn st) = conn" "sh_mem (set_conn conn st) = sh_mem st"
  "sh_queue (set_conn conn st) = sh_queue st" "sh_ctx (set_conn conn st) = sh_ctx st"
  "ad_response_buffer (sh_adapter (set_conn conn st)) = ad_response_buffer (sh_adapter st)"
  "ad_response_capacity (sh_adapter (set_conn conn st)) = ad_response_capacity (sh_adapter st)"
  "ad_send_buffer (sh_adapter (set_conn conn st)) = ad_send_buffer (sh_adapter st)"
  "ad_send_capacity (sh_adapter (set_conn conn st)) = ad_send_capacity (sh_adapter st)"
  "ad_send (sh_adapter (set_conn conn st)) = ad_send (sh_adapter st)"
  "ad_send_in_flight (sh_adapter (set_conn conn st)) = ad_send_in_flight (sh_adapter st)"
  "ad_send_stream_id (sh_adapter (set_conn conn st)) = ad_send_stream_id (sh_adapter st)"
  "ad_send_len (sh_adapter (set_conn conn st)) = ad_send_len (sh_adapter st)"
  by (simp_all add: set_conn_def)

lemma set_send_simps [simp]:
  "conn_of (set_send f i n st) = conn_of st" "sh_mem (set_send f i n st) = sh_mem st"
  "sh_queue (set_send f i n st) = sh_queue st" "sh_ctx (set_send f i n st) = sh_ctx st"
  "ad_response_buffer (sh_adapter (set_send f i n st)) = ad_response_buffer (sh_adapter st)"
  "ad_response_capacity (sh_adapter (set_send f i n st)) = ad_response_capacity (sh_adapter st)"
  "ad_send_buffer (sh_adapter (set_send f i n st)) = ad_send_buffer (sh_adapter st)"
  "ad_send_capacity (sh_adapter (set_send f i n st)) = ad_send_capacity (sh_adapter st)"
  "ad_send (sh_adapter (set_send f i n st)) = ad_send (sh_adapter st)"
  "ad_send_in_flight (sh_adapter (set_send f i n st)) = f"
  "ad_send_stream_id (sh_adapter (set_send f i n st)) = i"
  "ad_send_len (sh_adapter (set_send f i n st)) = n"
  by (simp_all add: set_send_def)

lemma setup_set_conn: "conn_layout conn = conn_layout (conn_of st) \<Longrightarrow> same_setup st (set_conn conn st)"
  by (simp add: same_setup_def)

lemma setup_set_send [simp]: "same_setup st (set_send f i n st)"
  by (simp add: same_setup_def)

lemma setup_mem [simp]: "same_setup st (st\<lparr>sh_mem := m\<rparr>)" and setup_ctx [simp]: "same_setup st (st\<lparr>sh_ctx := c\<rparr>)"
  by (simp_all add: same_setup_def)

section \<open>Framing the response of an open stream\<close>

lemma response_disjoint_mono:
  "ism_response_disjoint a n b k \<Longrightarrow> n' \<le> n \<Longrightarrow> ism_response_disjoint a n' b k"
  by (auto simp: ism_response_disjoint_def ism_response_range_ok_def)

text \<open>Whatever lane frames the response, it is the stable one's result.\<close>

lemma shell_prepare_doq_eq:
  assumes inv: "adapter_inv bld st" and tab: "abs_table (conn_of st) sid = Some c"
    and len: "0 < n" "n \<le> ad_response_capacity (sh_adapter st)"
  shows "ism_shell_prepare_doq_response_send bld (conn_of st) sid (ad_response_buffer (sh_adapter st)) n
      (ad_send_buffer (sh_adapter st)) (ad_send_capacity (sh_adapter st)) True m
    = prepare_doq_response_send_for_stream c (ad_response_buffer (sh_adapter st)) n
        (ad_send_buffer (sh_adapter st)) (ad_send_capacity (sh_adapter st)) 1 m"
proof -
  note D = adapter_invD [OF inv]
  obtain p where p: "p < 4" "find_stream (conn_of st) sid = Some p" "stream_at (conn_of st) (Some p) = c"
    "sc_buf c = message_buffer (conn_streams (conn_of st) ! p)"
    using abs_table_find [OF D(2) tab] .
  have n: "n \<noteq> 0" "unat n \<le> unat (ad_response_capacity (sh_adapter st))"
    using len by (auto simp: word_le_nat_alt)
  have "response_separate (empty_addr bld) (sizeof_stream_context bld) (ctx_addr (conn_streams (conn_of st) ! p)) c
      (ad_response_buffer (sh_adapter st)) n (ad_send_buffer (sh_adapter st)) (ad_send_capacity (sh_adapter st))"
    if "use_pulse_response bld"
    using that D(3) p n response_disjoint_mono [OF _ n(2)]
    by (auto simp: response_separate_def buffers_separate_def Let_def)
  then show ?thesis
    using p by (simp add: ism_shell_prepare_doq_response_send_def shell_find_eq [OF D(1)] pulse_prepare_doq_eq Let_def)
qed

lemma shell_prepare_doq_absent:
  assumes inv: "adapter_inv bld st" and "abs_table (conn_of st) sid = None"
  shows "ism_shell_prepare_doq_response_send bld (conn_of st) sid rb n sb sc fin m = (0, m)"
proof -
  note D = adapter_invD [OF inv]
  have "find_stream (conn_of st) sid = None"
    using assms(2) by (simp add: find_stream_eq abs_table_None)
  then show ?thesis
    by (simp add: ism_shell_prepare_doq_response_send_def shell_find_eq [OF D(1)])
qed

lemma worker_response_len:
  "prepare_worker_validated_minimal_response_send check s rb cap len m = (n, m') \<Longrightarrow> n \<le> cap"
  by (auto simp: prepare_worker_validated_minimal_response_send_def Let_def not_less
      prepare_worker_question_noerror_response_send_def prepare_worker_minimal_error_response_send_def
      split: if_splits)

lemma ready_result:
  assumes inv: "shell_inv conn"
  shows "ism_shell_dispatch_ready_stream_validated_minimal_response bld conn sid rb rc m =
    (case abs_table conn sid of
       None \<Rightarrow> (0, m)
     | Some c \<Rightarrow>
         (case sc_phase c of
            S_Processing n \<Rightarrow> prepare_worker_validated_minimal_response_send (check_question bld) c rb rc n m
          | _ \<Rightarrow> (0, m)))"
proof (cases "abs_table conn sid")
  case None
  then have "find_stream conn sid = None" by (simp add: find_stream_eq abs_table_None)
  with None show ?thesis
    by (simp add: ism_shell_dispatch_ready_stream_validated_minimal_response_def ready_via_scheduler_eq
        process_ready_stream_for_validated_minimal_response_def dispatch_ready_def)
next
  case (Some c)
  obtain p where "find_stream conn sid = Some p" "stream_at conn (Some p) = c"
    using abs_table_find [OF inv Some] by metis
  with Some show ?thesis
    by (simp add: ism_shell_dispatch_ready_stream_validated_minimal_response_def ready_via_scheduler_eq
        process_ready_stream_for_validated_minimal_response_def dispatch_ready_def Let_def)
qed

lemma ready_len:
  assumes "shell_inv conn"
    and "ism_shell_dispatch_ready_stream_validated_minimal_response bld conn sid rb rc m = (n, m')"
  shows "n \<le> rc"
  using assms(2) unfolding ready_result [OF assms(1)]
  by (auto split: option.splits stream_phase.splits dest: worker_response_len)

lemma prepare_doq_len:
  assumes "prepare_doq_response_send_for_stream c rb len sb cap fin m = (n, m')"
  shows "n = framed_length len cap" and "n \<le> cap"
proof -
  show n: "n = framed_length len cap"
    using assms by (auto simp: prepare_doq_response_send_for_stream_def prepare_response_send_def Let_def
        split: if_splits)
  show "n \<le> cap" by (simp add: n framed_length_def Let_def not_less)
qed

section \<open>One send at a time\<close>

lemma prepare_busy:
  "ad_send_in_flight (sh_adapter st) \<Longrightarrow>
   ism_msquic_adapter_prepare_ready_response bld adapter sid st = (0, st)"
  by (simp add: ism_msquic_adapter_prepare_ready_response_def Let_def)

lemma adapter_inv_idle_conn:
  assumes inv: "adapter_inv bld st" and new: "shell_inv conn" "conn_layout conn = conn_layout (conn_of st)"
  shows "adapter_inv bld (set_send False 0 0 (set_conn conn st))"
proof -
  note D = adapter_invD [OF inv]
  have "table_ready bld conn" using D(1) new by (rule table_ready_layout)
  moreover have "buffers_separate bld (set_send False 0 0 (set_conn conn st))"
    using new(2) by (intro buffers_separate_setup [OF _ D(4,3)]) (simp add: same_setup_def)
  ultimately show ?thesis by (simp add: adapter_inv_def)
qed

text \<open>The outcome of preparing a response: nothing sent, or the send function called once with a
  nonempty frame inside the send buffer.\<close>

lemma prepare_cases:
  assumes inv: "adapter_inv bld st"
    and run: "ism_msquic_adapter_prepare_ready_response bld adapter sid st = (n, st')"
  obtains (idle) m' where "n = 0" "st' = st\<lparr>sh_mem := m'\<rparr>" "ad_send_in_flight (sh_adapter st) \<Longrightarrow> m' = sh_mem st"
  | (sent) m' f ctx len where "ad_send (sh_adapter st) = Some f" "\<not> ad_send_in_flight (sh_adapter st)"
      "f sid (ad_send_buffer (sh_adapter st)) len True m' (sh_ctx st) = (True, ctx)"
      "n = len" "0 < len" "len \<le> ad_send_capacity (sh_adapter st)" "ad_send_buffer (sh_adapter st) \<noteq> NULL"
      "abs_table (conn_of st) sid \<noteq> None"
      "st' = (set_send True sid len (st\<lparr>sh_mem := m'\<rparr>))\<lparr>sh_ctx := ctx\<rparr>"
  | (failed) m' f ctx len where "ad_send (sh_adapter st) = Some f" "\<not> ad_send_in_flight (sh_adapter st)"
      "f sid (ad_send_buffer (sh_adapter st)) len True m' (sh_ctx st) = (False, ctx)"
      "n = 0" "0 < len"
      "st' = set_send False 0 0 (set_conn (finish_stream (conn_of st) sid) (st\<lparr>sh_mem := m', sh_ctx := ctx\<rparr>))"
proof (cases "adapter = Null \<or> ad_response_buffer (sh_adapter st) = NULL \<or> ad_response_capacity (sh_adapter st) = 0
    \<or> ad_send_buffer (sh_adapter st) = NULL \<or> ad_send_capacity (sh_adapter st) = 0 \<or> ad_send (sh_adapter st) = None
    \<or> ad_send_in_flight (sh_adapter st)")
  case True
  then have "n = 0" and "st' = st"
    using run by (simp_all add: ism_msquic_adapter_prepare_ready_response_def Let_def)
  then show thesis using idle [of "sh_mem st"] by simp
next
  case False
  then obtain f where f: "ad_send (sh_adapter st) = Some f" by auto
  note D = adapter_invD [OF inv]
  obtain rl m1 where ready: "ism_shell_dispatch_ready_stream_validated_minimal_response bld (conn_of st) sid
      (ad_response_buffer (sh_adapter st)) (ad_response_capacity (sh_adapter st)) (sh_mem st) = (rl, m1)" by fastforce
  obtain sl m2 where doq: "ism_shell_prepare_doq_response_send bld (conn_of st) sid
      (ad_response_buffer (sh_adapter st)) rl (ad_send_buffer (sh_adapter st)) (ad_send_capacity (sh_adapter st)) True m1
      = (sl, m2)" by fastforce
  obtain ok ctx where snt: "f sid (ad_send_buffer (sh_adapter st)) sl True m2 (sh_ctx st) = (ok, ctx)" by fastforce
  show thesis
  proof (cases "rl = 0")
    case True
    with run False ready show thesis
      by (intro idle [of m1]) (auto simp: ism_msquic_adapter_prepare_ready_response_def Let_def)
  next
    case rl: False
    show thesis
    proof (cases "sl = 0")
      case True
      with run False ready doq rl show thesis
        by (intro idle [of m2]) (auto simp: ism_msquic_adapter_prepare_ready_response_def Let_def)
    next
      case sl: False
      then have tab: "abs_table (conn_of st) sid \<noteq> None"
        using shell_prepare_doq_absent [OF inv] doq by force
      then obtain c where c: "abs_table (conn_of st) sid = Some c" by blast
      have "0 < rl" "rl \<le> ad_response_capacity (sh_adapter st)"
        using rl ready_len [OF D(2) ready] by (simp_all add: word_gt_0)
      from shell_prepare_doq_eq [OF inv c this, of m1] doq
      have bound: "sl \<le> ad_send_capacity (sh_adapter st)" by (metis prepare_doq_len(2))
      have pos: "0 < sl" using sl by (simp add: word_gt_0)
      have unf: "ism_msquic_adapter_prepare_ready_response bld adapter sid st =
          (if \<not> ok then
             (0, set_send False 0 0 (set_conn (finish_stream (conn_of st) sid) (st\<lparr>sh_mem := m2, sh_ctx := ctx\<rparr>)))
           else (sl, (set_send True sid sl (st\<lparr>sh_mem := m2\<rparr>))\<lparr>sh_ctx := ctx\<rparr>))"
        using False ready doq rl pos f snt shell_finish_eq(2) [OF D(1)]
        by (simp add: ism_msquic_adapter_prepare_ready_response_def Let_def set_send_def set_conn_def)
      show thesis
      proof (cases ok)
        case True
        with run unf False f snt tab bound pos show thesis
          by (intro sent [of f sl m2 ctx]) auto
      next
        case no: False
        with run unf False f snt pos show thesis
          by (intro failed [of f sl m2 ctx]) auto
      qed
    qed
  qed
qed

lemma prepare_inv:
  assumes inv: "adapter_inv bld st"
    and run: "ism_msquic_adapter_prepare_ready_response bld adapter sid st = (n, st')"
  shows "adapter_inv bld st'" and "same_setup st st'" and "sh_queue st' = sh_queue st"
proof -
  note D = adapter_invD [OF inv]
  have sep: "buffers_separate bld st'" if "same_setup st st'" using that D(4,3) by (rule buffers_separate_setup)
  have "adapter_inv bld st' \<and> same_setup st st' \<and> sh_queue st' = sh_queue st"
  proof (cases rule: prepare_cases [OF inv run])
    case (1 m')
    then have kept: "same_setup st st'" by simp
    with sep [OF this] inv 1 show ?thesis by (simp add: adapter_inv_def Let_def)
  next
    case (2 m' f ctx len)
    then have kept: "same_setup st st'" by (simp add: same_setup_def)
    with sep [OF this] D(1) 2 show ?thesis by (simp add: adapter_inv_def Let_def)
  next
    case (3 m' f ctx len)
    have inv': "adapter_inv bld (st\<lparr>sh_mem := m', sh_ctx := ctx\<rparr>)"
      using inv buffers_separate_setup [OF _ D(4,3), of "st\<lparr>sh_mem := m', sh_ctx := ctx\<rparr>"]
      by (simp add: adapter_inv_def same_setup_def)
    have "adapter_inv bld st'"
      unfolding 3(6) using finish_stream_inv [OF D(2)] layout_finish [OF D(2)]
      by (intro adapter_inv_idle_conn [OF inv']) simp_all
    with layout_finish [OF D(2)] 3(6) show ?thesis by (simp add: same_setup_def)
  qed
  then show "adapter_inv bld st'" and "same_setup st st'" and "sh_queue st' = sh_queue st" by auto
qed

text \<open>An ingress call keeps the stream of the send in flight open.\<close>

lemma set_conn_inv:
  assumes inv: "adapter_inv bld st"
    and new: "shell_inv conn" "conn_layout conn = conn_layout (conn_of st)"
    and open': "\<And>s. abs_table (conn_of st) s \<noteq> None \<Longrightarrow> abs_table conn s \<noteq> None"
  shows "adapter_inv bld (set_conn conn (st\<lparr>sh_mem := m\<rparr>))"
    and "same_setup st (set_conn conn (st\<lparr>sh_mem := m\<rparr>))"
proof -
  note D = adapter_invD [OF inv]
  show kept: "same_setup st (set_conn conn (st\<lparr>sh_mem := m\<rparr>))" using new by (simp add: same_setup_def)
  have "table_ready bld conn" using D(1) new by (rule table_ready_layout)
  moreover note buffers_separate_setup [OF kept D(4,3)]
  ultimately show "adapter_inv bld (set_conn conn (st\<lparr>sh_mem := m\<rparr>))"
    using inv open' by (auto simp: adapter_inv_def Let_def)
qed

lemma ingress_data_keeps_open:
  assumes "shell_inv conn" and "ingress_data conn sid data len m = (code, conn', m')"
    and "abs_table conn s \<noteq> None"
  shows "abs_table conn' s \<noteq> None"
proof (cases "s = sid")
  case True
  then have "abs_table conn sid \<noteq> None \<or> active_count conn < 4" using assms(3) by simp
  from ingress_data_stream [OF assms(1,2) this] True show ?thesis by (metis fun_upd_same option.distinct(1))
next
  case False
  then show ?thesis using ingress_data_inv(3) [OF assms(1,2)] assms(3) by simp
qed

lemma ingress_fin_keeps_open:
  assumes inv: "shell_inv conn" and run: "ingress_fin conn sid m = (code, conn', m')"
    and "abs_table conn s \<noteq> None"
  shows "abs_table conn' s \<noteq> None"
proof (cases "s = sid")
  case False
  then show ?thesis using ingress_fin_inv(4) [OF inv run] assms(3) by simp
next
  case True
  then have "fst (open_result conn sid) \<noteq> None"
    using open_result_abs_table(4) [OF inv, of sid] assms(3) by simp
  then obtain p conn1 where op: "open_result conn sid = (Some p, conn1)"
    by (metis option.collapse prod.collapse)
  obtain phase c where h: "handle_stream_fin (stream_at conn1 (Some p)) m = (phase, c)" by fastforce
  note o = opened_stream [OF inv op]
  from write_back(2) [OF inv op handle_stream_fin_valid(3) [OF h] handle_stream_fin_valid(1) [OF h o(4)]
      handle_stream_fin_valid(2) [OF h o(3)]] run op h True
  show ?thesis by (auto simp: ingress_fin_def)
qed

theorem adapter_bytes_inv:
  assumes inv: "adapter_inv bld st" and ready: "ingress_ready bld (conn_of st) data len"
    and run: "ism_msquic_adapter_on_authenticated_stream_bytes bld adapter sid data len st = (code, st')"
  shows "adapter_inv bld st'" and "same_setup st st'" and "sh_queue st' = sh_queue st"
proof -
  note D = adapter_invD [OF inv]
  obtain phase conn m where i: "ingress_data (conn_of st) sid data len (sh_mem st) = (phase, conn, m)"
    by (metis prod_cases3)
  let ?st = "set_conn conn (st\<lparr>sh_mem := m\<rparr>)"
  note new = set_conn_inv [OF inv ingress_data_inv(1,2) [OF D(2) i] ingress_data_keeps_open [OF D(2) i], of m]
  obtain k st2 where p: "ism_msquic_adapter_prepare_ready_response bld adapter sid ?st = (k, st2)" by fastforce
  note pr = prepare_inv [OF new(1) p]
  have "st' = st \<or> st' = ?st \<or> st' = st2"
    using run p by (auto simp: ism_msquic_adapter_on_authenticated_stream_bytes_def shell_data_eq(2) [OF ready] i
        Let_def split: if_splits)
  with inv new pr same_setup_trans [OF new(2) pr(2)]
  show "adapter_inv bld st'" and "same_setup st st'" and "sh_queue st' = sh_queue st" by auto
qed

theorem adapter_fin_inv:
  assumes inv: "adapter_inv bld st" and ready: "ingress_ready bld (conn_of st) data 0"
    and run: "ism_msquic_adapter_on_authenticated_stream_fin bld adapter sid st = (code, st')"
  shows "adapter_inv bld st'" and "same_setup st st'" and "sh_queue st' = sh_queue st"
proof -
  note D = adapter_invD [OF inv]
  obtain phase conn m where i: "ingress_fin (conn_of st) sid (sh_mem st) = (phase, conn, m)"
    by (metis prod_cases3)
  let ?st = "set_conn conn (st\<lparr>sh_mem := m\<rparr>)"
  note new = set_conn_inv [OF inv ingress_fin_inv(1,2) [OF D(2) i] ingress_fin_keeps_open [OF D(2) i], of m]
  obtain k st2 where p: "ism_msquic_adapter_prepare_ready_response bld adapter sid ?st = (k, st2)" by fastforce
  note pr = prepare_inv [OF new(1) p]
  have "st' = st \<or> st' = ?st \<or> st' = st2"
    using run p by (auto simp: ism_msquic_adapter_on_authenticated_stream_fin_def shell_fin_eq [OF ready] i
        Let_def split: if_splits)
  with inv new pr same_setup_trans [OF new(2) pr(2)]
  show "adapter_inv bld st'" and "same_setup st st'" and "sh_queue st' = sh_queue st" by auto
qed

section \<open>Completion and reset\<close>

text \<open>Only the completion that names the stream and the length of the send in flight is
  accepted; it closes the stream and frees the send buffer.\<close>

lemma send_complete_eq:
  assumes inv: "adapter_inv bld st"
  shows "ism_msquic_adapter_on_send_complete bld Obj sid len dropped st =
    (if ad_send_in_flight (sh_adapter st) \<and> ad_send_stream_id (sh_adapter st) = sid \<and> ad_send_len (sh_adapter st) = len
     then (True, set_send False 0 0 (set_conn (finish_stream (conn_of st) sid) st))
     else (False, st))"
proof -
  note D = adapter_invD [OF inv]
  have "ad_send_capacity (sh_adapter st) \<noteq> 0 \<and> ad_send_buffer (sh_adapter st) \<noteq> NULL \<and>
      \<not> ad_send_len (sh_adapter st) > ad_send_capacity (sh_adapter st)" if "ad_send_in_flight (sh_adapter st)"
    using inv that by (auto simp: adapter_inv_def Let_def not_less)
  then show ?thesis
    using shell_finish_eq(2) [OF D(1), of sid _ _ dropped]
    by (auto simp: ism_msquic_adapter_on_send_complete_def Let_def)
qed

lemma finish_adapter_inv:
  "adapter_inv bld st \<Longrightarrow> adapter_inv bld (set_send False 0 0 (set_conn (finish_stream (conn_of st) sid) st))"
  by (rule adapter_inv_idle_conn) (auto simp: finish_stream_inv layout_finish dest: adapter_invD)

theorem stream_reset_eq:
  assumes inv: "adapter_inv bld st"
  shows "ism_msquic_adapter_on_stream_reset bld Obj sid st =
    (if ad_send_in_flight (sh_adapter st) \<and> ad_send_stream_id (sh_adapter st) \<noteq> sid then (False, st)
     else (True, set_send False 0 0 (set_conn (finish_stream (conn_of st) sid) st)))"
proof (cases "ad_send_in_flight (sh_adapter st)")
  case True
  then show ?thesis
    using send_complete_eq [OF inv] by (auto simp: ism_msquic_adapter_on_stream_reset_def Let_def)
next
  case False
  then have "set_send False 0 0 (set_conn conn st) = set_conn conn st" for conn
    using inv by (simp add: set_send_def set_conn_def adapter_inv_def Let_def)
  with False shell_finish_eq(3) [OF adapter_invD(1) [OF inv], of sid] show ?thesis
    by (simp add: ism_msquic_adapter_on_stream_reset_def Let_def)
qed

section \<open>The answer to a complete query\<close>

text \<open>A response on a DNS-over-QUIC stream: two bytes of length, then the message.\<close>

definition doq_frame :: "u8 list \<Rightarrow> u8 list" where
  "doq_frame r = prefix_hi (of_nat (length r)) # prefix_lo (of_nat (length r)) # r"

lemma length_doq_frame [simp]: "length (doq_frame r) = length r + 2"
  by (simp add: doq_frame_def)

lemma minimal_response_length:
  assumes "minimal_response bs cap = Some r"
  shows "12 \<le> length r" and "length r \<le> 271" and "length r \<le> cap" and "12 \<le> length bs"
proof -
  show "12 \<le> length bs" using assms by (auto simp: minimal_response_def split: if_splits)
  then show "12 \<le> length r" and "length r \<le> 271" and "length r \<le> cap"
    using assms question_request_length [of bs]
    by (auto simp: minimal_response_def split: if_splits)
qed

text \<open>The addresses that preparing a response may not touch.\<close>

definition outside_buffers :: "'c ism_msquic_adapter \<Rightarrow> addr \<Rightarrow> bool" where
  "outside_buffers ad a \<longleftrightarrow>
     (a < ad_response_buffer ad \<or> ad_response_buffer ad + unat (ad_response_capacity ad) \<le> a) \<and>
     (a < ad_send_buffer ad \<or> ad_send_buffer ad + unat (ad_send_capacity ad) \<le> a)"

lemma outside_buffers_conn [simp]: "outside_buffers (ad\<lparr>ad_connection := conn\<rparr>) a = outside_buffers ad a"
  by (simp add: outside_buffers_def)

lemma prepare_answers:
  assumes inv: "adapter_inv bld st" and val: "question_validator (check_question bld)"
    and free: "\<not> ad_send_in_flight (sh_adapter st)" and f: "ad_send (sh_adapter st) = Some f"
    and bufs: "ad_response_buffer (sh_adapter st) \<noteq> NULL" "ad_send_buffer (sh_adapter st) \<noteq> NULL"
    and tab: "abs_table (conn_of st) sid = Some c" and phase: "sc_phase c = S_Processing n"
    and r: "minimal_response (mem_bytes (sh_mem st) (sc_buf c) (unat n)) (unat (ad_response_capacity (sh_adapter st))) = Some r"
    and fits: "length r + 2 \<le> unat (ad_send_capacity (sh_adapter st))"
  obtains m' where "mem_bytes m' (ad_send_buffer (sh_adapter st)) (length r + 2) = doq_frame r"
    and "\<And>a. outside_buffers (sh_adapter st) a \<Longrightarrow> m' a = sh_mem st a"
    and "ism_msquic_adapter_prepare_ready_response bld Obj sid st =
      (case f sid (ad_send_buffer (sh_adapter st)) (of_nat (length r + 2)) True m' (sh_ctx st) of (sent, ctx) \<Rightarrow>
         if sent then (of_nat (length r + 2), (set_send True sid (of_nat (length r + 2)) (st\<lparr>sh_mem := m'\<rparr>))\<lparr>sh_ctx := ctx\<rparr>)
         else (0, set_send False 0 0 (set_conn (finish_stream (conn_of st) sid) (st\<lparr>sh_mem := m', sh_ctx := ctx\<rparr>))))"
proof -
  let ?ad = "sh_adapter st"
  let ?rb = "ad_response_buffer ?ad" and ?sb = "ad_send_buffer ?ad"
  let ?rc = "ad_response_capacity ?ad" and ?sc = "ad_send_capacity ?ad"
  note D = adapter_invD [OF inv] and len = minimal_response_length [OF r]
  obtain p where p: "p < 4" "sc_buf c = message_buffer (conn_streams (conn_of st) ! p)"
      "stream_at (conn_of st) (Some p) = c"
    using abs_table_find [OF D(2) tab] by metis
  have "slot_wf (conn_streams (conn_of st) ! p)"
    using shell_invD(2) [OF D(2)] p(1) by (rule conn_wf_slot)
  then have n: "unat n \<le> 65535"
    using p(3) phase by (auto simp: slot_wf_def stream_at_def word_le_nat_alt)
  have "ranges_disjoint (sc_buf c) 65535 ?rb (unat ?rc)"
    using D(3) p(1,2) by (simp add: buffers_separate_def Let_def)
  then have dis: "ranges_disjoint (sc_buf c) (unat n) ?rb (unat ?rc)"
    by (rule ranges_disjoint_mono [OF _ n order.refl])
  have rs: "ranges_disjoint ?rb (unat ?rc) ?sb (unat ?sc)"
    using D(3) by (simp add: buffers_separate_def Let_def)
  obtain rl m1 where w: "prepare_worker_validated_minimal_response_send (check_question bld) c ?rb ?rc n (sh_mem st) = (rl, m1)"
    by fastforce
  from question_validator.validated_response_send [OF val dis w] r
  have rl: "unat rl = length r" and m1: "mem_bytes m1 ?rb (length r) = r" and fr1: "mem_frame ?rb (length r) (sh_mem st) m1"
    by auto
  have rl_eq: "rl = of_nat (length r)" using rl by (metis u32_of_nat_unat)
  have ready: "ism_shell_dispatch_ready_stream_validated_minimal_response bld (conn_of st) sid ?rb ?rc (sh_mem st) = (rl, m1)"
    by (simp add: ready_result [OF D(2)] tab phase w)
  have rl_pos: "0 < rl" and rl_le: "rl \<le> ?rc"
    using rl len by (auto simp: word_less_nat_alt word_le_nat_alt)
  obtain sl m2 where d: "prepare_doq_response_send_for_stream c ?rb rl ?sb ?sc 1 m1 = (sl, m2)" by fastforce
  have nz: "framed_length rl ?sc \<noteq> 0" using rl len fits by (simp add: framed_length_eq_0)
  have dis2: "ranges_disjoint ?rb (unat rl) ?sb (unat ?sc)"
    by (rule ranges_disjoint_mono [OF rs]) (use rl len in auto)
  note fr = prepare_doq_frame [OF nz dis2 d]
  have sl: "unat sl = length r + 2" using fr(2) rl by simp
  then have sl_eq: "sl = of_nat (length r + 2)" by (metis u32_of_nat_unat)
  have frame: "mem_bytes m2 ?sb (length r + 2) = doq_frame r"
    using fr(3) sl rl m1 rl_eq by (simp add: doq_frame_def)
  have doq: "ism_shell_prepare_doq_response_send bld (conn_of st) sid ?rb rl ?sb ?sc True m1 = (sl, m2)"
    using shell_prepare_doq_eq [OF inv tab rl_pos rl_le] d by simp
  have "0 < ?rc" "0 < ?sc" "0 < sl"
    using len fits sl by (auto simp: word_less_nat_alt)
  then have "ism_msquic_adapter_prepare_ready_response bld Obj sid st =
      (case f sid ?sb sl True m2 (sh_ctx st) of (sent, ctx) \<Rightarrow>
         if sent then (sl, (set_send True sid sl (st\<lparr>sh_mem := m2\<rparr>))\<lparr>sh_ctx := ctx\<rparr>)
         else (0, set_send False 0 0 (set_conn (finish_stream (conn_of st) sid) (st\<lparr>sh_mem := m2, sh_ctx := ctx\<rparr>))))"
    using free f bufs ready doq rl_pos shell_finish_eq(2) [OF D(1)]
    by (simp add: ism_msquic_adapter_prepare_ready_response_def Let_def set_send_def set_conn_def word_gt_0
        split: prod.splits)
  moreover have "m2 a = sh_mem st a" if "outside_buffers ?ad a" for a
    using that fr1 fr(4) len sl fits by (auto simp: outside_buffers_def mem_frame_def)
  ultimately show thesis using frame unfolding sl_eq by (intro that)
qed

text \<open>A FIN on a stream that received exactly one framed message with a zero message ID.\<close>

lemma fin_processing:
  assumes inv: "shell_inv conn" and tab: "abs_table conn sid = Some c"
    and holds: "stream_holds bs c m" and full: "doq_phase bs = AwaitingFin n"
    and id: "bs ! 2 = 0" "bs ! 3 = 0"
  obtains conn' where "ingress_fin conn sid m = (2, conn', m)" and "shell_inv conn'"
    and "conn_layout conn' = conn_layout conn"
    and "abs_table conn' = (abs_table conn)(sid \<mapsto> c\<lparr>sc_phase := S_Processing n\<rparr>)"
    and "mem_bytes m (sc_buf c) (unat n) = drop 2 bs"
proof -
  have phase: "sc_phase c = S_AwaitingFin n"
    using holds full by (metis from_model.simps(4) from_to_model stream_holds_def)
  have n: "unat n = length bs - 2" "12 \<le> unat n"
    using full by (cases bs rule: doq_phase.cases;
        auto simp: Let_def simp del: of_nat_add of_nat_mult split: if_splits)+
  have bytes: "mem_bytes m (sc_buf c) (unat n) = drop 2 bs"
    using holds full n(1) by (simp add: stream_holds_def)
  have "m (sc_buf c + i) = bs ! (i + 2)" if "i < unat n" for i
    using nth_mem_bytes [OF that, of m "sc_buf c"] n(1,2) that unfolding bytes by (simp add: add.commute)
  from this [of 0] this [of 1] n id have zero: "m (sc_buf c) = 0" "m (Suc (sc_buf c)) = 0"
    by (simp_all add: eval_nat_numeral)
  have h: "handle_stream_fin c m = (S_Processing n, c\<lparr>sc_phase := S_Processing n\<rparr>)"
    by (simp add: handle_stream_fin_def stream_finish_doq_phase_def phase zero finish_doq_phase_def
        finish_stream_phase_def Let_def)
  have "fst (open_result conn sid) \<noteq> None" and same: "snd (open_result conn sid) = conn"
    using open_result_abs_table(2,4) [OF inv, of sid] tab by simp_all
  then obtain q where op: "open_result conn sid = (Some q, conn)"
    by (metis option.collapse prod.collapse)
  have at: "stream_at conn (Some q) = c"
    using open_result_Some(2) [OF inv op] tab by simp
  have run: "ingress_fin conn sid m = (2, set_stream conn (Some q) (c\<lparr>sc_phase := S_Processing n\<rparr>), m)"
    by (simp add: ingress_fin_def op at h)
  note o = opened_stream [OF inv op, unfolded at]
  note w = write_back [OF inv op _ handle_stream_fin_valid(1) [OF h o(4)] handle_stream_fin_valid(2) [OF h o(3)],
      unfolded at, OF refl]
  show thesis
    using run w(1) _ w(2) bytes by (rule that) simp
qed

theorem fin_answers:
  assumes inv: "adapter_inv bld st" and val: "question_validator (check_question bld)"
    and ready: "ingress_ready bld (conn_of st) data 0"
    and free: "\<not> ad_send_in_flight (sh_adapter st)" and f: "ad_send (sh_adapter st) = Some f"
    and bufs: "ad_response_buffer (sh_adapter st) \<noteq> NULL" "ad_send_buffer (sh_adapter st) \<noteq> NULL"
    and tab: "abs_table (conn_of st) sid = Some c" and holds: "stream_holds bs c (sh_mem st)"
    and full: "doq_phase bs = AwaitingFin n" and id: "bs ! 2 = 0" "bs ! 3 = 0"
    and r: "minimal_response (drop 2 bs) (unat (ad_response_capacity (sh_adapter st))) = Some r"
    and fits: "length r + 2 \<le> unat (ad_send_capacity (sh_adapter st))"
    and run: "ism_msquic_adapter_on_authenticated_stream_fin bld Obj sid st = (code, st')"
  shows "code = 2"
    and "mem_bytes (sh_mem st') (ad_send_buffer (sh_adapter st)) (length r + 2) = doq_frame r"
    and "f sid (ad_send_buffer (sh_adapter st)) (of_nat (length r + 2)) True (sh_mem st') (sh_ctx st) =
      (ad_send_in_flight (sh_adapter st'), sh_ctx st')"
    and "if ad_send_in_flight (sh_adapter st')
      then ad_send_stream_id (sh_adapter st') = sid \<and> ad_send_len (sh_adapter st') = of_nat (length r + 2)
        \<and> abs_table (conn_of st') sid = Some (c\<lparr>sc_phase := S_Processing n\<rparr>)
      else abs_table (conn_of st') sid = None"
    and "outside_buffers (sh_adapter st) a \<Longrightarrow> sh_mem st' a = sh_mem st a"
proof -
  note D = adapter_invD [OF inv]
  obtain conn' where i: "ingress_fin (conn_of st) sid (sh_mem st) = (2, conn', sh_mem st)"
    and new: "shell_inv conn'" "conn_layout conn' = conn_layout (conn_of st)"
    and tab': "abs_table conn' = (abs_table (conn_of st))(sid \<mapsto> c\<lparr>sc_phase := S_Processing n\<rparr>)"
    and bytes: "mem_bytes (sh_mem st) (sc_buf c) (unat n) = drop 2 bs"
    using fin_processing [OF D(2) tab holds full id] by metis
  let ?st = "set_conn conn' (st\<lparr>sh_mem := sh_mem st\<rparr>)"
  note keep = ingress_fin_keeps_open [OF D(2) i]
  note inv' = set_conn_inv(1) [OF inv new keep, of "sh_mem st"]
  have on: "ism_msquic_adapter_on_authenticated_stream_fin bld Obj sid st =
      (2, snd (ism_msquic_adapter_prepare_ready_response bld Obj sid ?st))"
    using free by (simp add: ism_msquic_adapter_on_authenticated_stream_fin_def shell_fin_eq [OF ready] i Let_def)
  obtain m' where frame: "mem_bytes m' (ad_send_buffer (sh_adapter ?st)) (length r + 2) = doq_frame r"
    and out: "\<And>a. outside_buffers (sh_adapter ?st) a \<Longrightarrow> m' a = sh_mem ?st a"
    and prep: "ism_msquic_adapter_prepare_ready_response bld Obj sid ?st =
      (case f sid (ad_send_buffer (sh_adapter ?st)) (of_nat (length r + 2)) True m' (sh_ctx ?st) of (sent, ctx) \<Rightarrow>
         if sent then (of_nat (length r + 2), (set_send True sid (of_nat (length r + 2)) (?st\<lparr>sh_mem := m'\<rparr>))\<lparr>sh_ctx := ctx\<rparr>)
         else (0, set_send False 0 0 (set_conn (finish_stream (conn_of ?st) sid) (?st\<lparr>sh_mem := m', sh_ctx := ctx\<rparr>))))"
    by (rule prepare_answers [OF inv' val, of f sid "c\<lparr>sc_phase := S_Processing n\<rparr>" n r])
      (use free f bufs tab' r fits bytes in simp_all)
  obtain sent ctx where fs: "f sid (ad_send_buffer (sh_adapter st)) (of_nat (length r + 2)) True m' (sh_ctx st) = (sent, ctx)"
    by fastforce
  have st': "code = 2" "sh_mem st' = m'" "sh_ctx st' = ctx" "ad_send_in_flight (sh_adapter st') = sent"
    using run on prep fs by (cases sent; auto)+
  show "code = 2" by (rule st')
  show "mem_bytes (sh_mem st') (ad_send_buffer (sh_adapter st)) (length r + 2) = doq_frame r"
    using frame st' by simp
  show "f sid (ad_send_buffer (sh_adapter st)) (of_nat (length r + 2)) True (sh_mem st') (sh_ctx st) =
      (ad_send_in_flight (sh_adapter st'), sh_ctx st')"
    using fs st' by simp
  show "if ad_send_in_flight (sh_adapter st')
      then ad_send_stream_id (sh_adapter st') = sid \<and> ad_send_len (sh_adapter st') = of_nat (length r + 2)
        \<and> abs_table (conn_of st') sid = Some (c\<lparr>sc_phase := S_Processing n\<rparr>)
      else abs_table (conn_of st') sid = None"
    using run on prep fs tab' finish_stream_abs_table [OF new(1), of sid] by (cases sent) auto
  show "sh_mem st' a = sh_mem st a" if "outside_buffers (sh_adapter st) a"
    using out [of a] that st'(2) by (simp add: set_conn_def)
qed

end
