(* ===== verification/Dispatch.thy ===== *)
theory Dispatch
  imports Adapter
begin

text \<open>
  Dispatching queued events to the adapter: \<^verbatim>\<open>ism_shell_event_queue_dispatch_one\<close> and
  \<^verbatim>\<open>_dispatch_all\<close> of \<^verbatim>\<open>src/shell/ism_event_queue.c\<close>. One call takes exactly the oldest event;
  a run handles the events in the order they were queued, at most \<^verbatim>\<open>max_events\<close> of them, and
  the adapter's invariant is kept throughout.
\<close>

definition queue_at :: "obj_ptr \<Rightarrow> 'c shell_state \<Rightarrow> ism_shell_event_queue option" where
  "queue_at queue st = (case queue of Null \<Rightarrow> None | Obj \<Rightarrow> Some (sh_queue st))"

definition put_queue :: "ism_shell_event_queue option \<Rightarrow> 'c shell_state \<Rightarrow> 'c shell_state" where
  "put_queue q st = (case q of None \<Rightarrow> st | Some q \<Rightarrow> st\<lparr>sh_queue := q\<rparr>)"

text \<open>The \<^verbatim>\<open>switch\<close> on the kind of the event taken from the queue.\<close>

definition dispatch_event ::
  "build \<Rightarrow> obj_ptr \<Rightarrow> ism_shell_event \<Rightarrow> 'c shell_state \<Rightarrow> bool \<times> 'c shell_state" where
  "dispatch_event bld adapter event st =
     (case ev_kind event of
        ISM_SHELL_EVENT_AUTHENTICATED_STREAM_BYTES \<Rightarrow>
          let (phase, conn, m) = ism_shell_dispatch_authenticated_stream_data bld (conn_of st)
                (ev_stream_id event) (ev_data event) (ev_len event) (sh_mem st);
              st1 = set_conn conn (st\<lparr>sh_mem := m\<rparr>) in
          if phase = 2 then
            let (n, st2) = ism_msquic_adapter_prepare_ready_response bld adapter (ev_stream_id event) st1 in
            (n > 0, st2)
          else (phase \<noteq> 3, st1)
      | ISM_SHELL_EVENT_AUTHENTICATED_STREAM_FIN \<Rightarrow>
          let (phase, st1) = ism_msquic_adapter_on_authenticated_stream_fin bld adapter (ev_stream_id event) st in
          (phase = 2, st1)
      | ISM_SHELL_EVENT_READY_RESPONSE \<Rightarrow>
          let (_, st1) = ism_msquic_adapter_prepare_ready_response bld adapter (ev_stream_id event) st in
          (True, st1)
      | ISM_SHELL_EVENT_SEND_COMPLETE \<Rightarrow>
          ism_msquic_adapter_on_send_complete bld adapter (ev_stream_id event) (ev_len event)
            (ev_dropped event) st
      | ISM_SHELL_EVENT_STREAM_RESET \<Rightarrow>
          ism_msquic_adapter_on_stream_reset bld adapter (ev_stream_id event) st)"

text \<open>The local \<^verbatim>\<open>event\<close> is overwritten by a successful dequeue before it is read.\<close>

definition ism_shell_event_queue_dispatch_one ::
  "build \<Rightarrow> obj_ptr \<Rightarrow> obj_ptr \<Rightarrow> 'c shell_state \<Rightarrow> bool \<times> 'c shell_state" where
  "ism_shell_event_queue_dispatch_one bld queue adapter st =
     (if adapter = Null then (False, st)
      else
        let (ok, event, q) = ism_shell_event_queue_dequeue (queue_at queue st) (Some (ready_event 0)) in
        if \<not> ok then (False, put_queue q st)
        else dispatch_event bld adapter (the event) (put_queue q st))"

function dispatch_all_from ::
  "build \<Rightarrow> obj_ptr \<Rightarrow> obj_ptr \<Rightarrow> u32 \<Rightarrow> u32 \<Rightarrow> 'c shell_state \<Rightarrow> u32 \<times> 'c shell_state" where
  "dispatch_all_from bld queue adapter max_events dispatched st =
     (if dispatched < max_events \<and> ism_shell_event_queue_len (queue_at queue st) > 0 then
        let (ok, st') = ism_shell_event_queue_dispatch_one bld queue adapter st in
        if \<not> ok then (dispatched, st')
        else dispatch_all_from bld queue adapter max_events (dispatched + 1) st'
      else (dispatched, st))"
  by pat_completeness auto

lemma count_up_decreases:
  assumes "(i :: u32) < n"
  shows "unat n - unat (i + 1) < unat n - unat i" and "unat (i + 1) = unat i + 1"
proof -
  have "unat i < unat n" using assms by (simp add: word_less_nat_alt)
  moreover show "unat (i + 1) = unat i + 1"
    using calculation unat_lt_u32 [of n] by (subst unat_add_u32) simp_all
  ultimately show "unat n - unat (i + 1) < unat n - unat i" by simp
qed

termination dispatch_all_from
  by (relation "measure (\<lambda>(bld, q, a, n, i, st). unat n - unat i)") (auto simp: count_up_decreases)

declare dispatch_all_from.simps [simp del]

definition ism_shell_event_queue_dispatch_all ::
  "build \<Rightarrow> obj_ptr \<Rightarrow> obj_ptr \<Rightarrow> u32 \<Rightarrow> 'c shell_state \<Rightarrow> u32 \<times> 'c shell_state" where
  "ism_shell_event_queue_dispatch_all bld queue adapter max_events st =
     dispatch_all_from bld queue adapter max_events 0 st"

section \<open>One event\<close>

text \<open>What the sender of an ingress event owes to the candidate lanes.\<close>

definition event_ready :: "build \<Rightarrow> 'c shell_state \<Rightarrow> ism_shell_event \<Rightarrow> bool" where
  "event_ready bld st e \<longleftrightarrow>
     (case ev_kind e of
        ISM_SHELL_EVENT_AUTHENTICATED_STREAM_BYTES \<Rightarrow> ingress_ready bld (conn_of st) (ev_data e) (ev_len e)
      | ISM_SHELL_EVENT_AUTHENTICATED_STREAM_FIN \<Rightarrow> ingress_ready bld (conn_of st) (ev_data e) 0
      | _ \<Rightarrow> True)"

lemma ingress_ready_setup:
  assumes "ingress_ready bld (conn_of st) data len" and "same_setup st st'"
    and "adapter_inv bld st" and "adapter_inv bld st'"
  shows "ingress_ready bld (conn_of st') data len"
proof -
  have "conn_layout (conn_of st) = conn_layout (conn_of st')" using assms(2) by (simp add: same_setup_def)
  from layout_nth(1) [OF this, unfolded adapter_invD(4) [OF assms(3)]] assms(1) adapter_invD(1) [OF assms(4)]
  show ?thesis by (simp add: ingress_ready_def)
qed

lemma event_ready_setup:
  assumes "event_ready bld st e" and "same_setup st st'" and "adapter_inv bld st" and "adapter_inv bld st'"
  shows "event_ready bld st' e"
  using assms ingress_ready_setup [OF _ assms(2-4)]
  by (auto simp: event_ready_def split: ism_shell_event_kind.splits)

lemma set_conn_finish:
  assumes "adapter_inv bld st"
  shows "same_setup st (set_send False 0 0 (set_conn (finish_stream (conn_of st) sid) st))"
  using layout_finish [OF adapter_invD(2) [OF assms]] by (simp add: same_setup_def)

text \<open>A bytes event is the adapter's ingress call, with the response length deciding the result.\<close>

lemma dispatch_bytes_state:
  assumes "ev_kind e = ISM_SHELL_EVENT_AUTHENTICATED_STREAM_BYTES"
  shows "snd (dispatch_event bld Obj e st) =
    snd (ism_msquic_adapter_on_authenticated_stream_bytes bld Obj (ev_stream_id e) (ev_data e) (ev_len e) st)
    \<or> ev_data e = NULL"
  using assms
  by (auto simp: dispatch_event_def ism_msquic_adapter_on_authenticated_stream_bytes_def Let_def
      split: prod.splits)

lemma dispatch_event_inv:
  assumes inv: "adapter_inv bld st" and ready: "event_ready bld st e"
    and run: "dispatch_event bld Obj e st = (ok, st')"
  shows "adapter_inv bld st'" and "same_setup st st'" and "sh_queue st' = sh_queue st"
proof -
  note D = adapter_invD [OF inv]
  have "adapter_inv bld st' \<and> same_setup st st' \<and> sh_queue st' = sh_queue st"
  proof (cases "ev_kind e")
    case ISM_SHELL_EVENT_AUTHENTICATED_STREAM_BYTES
    then have ing: "ingress_ready bld (conn_of st) (ev_data e) (ev_len e)" using ready by (simp add: event_ready_def)
    obtain phase conn m where i: "ingress_data (conn_of st) (ev_stream_id e) (ev_data e) (ev_len e) (sh_mem st)
        = (phase, conn, m)" by (metis prod_cases3)
    let ?st = "set_conn conn (st\<lparr>sh_mem := m\<rparr>)"
    note new = set_conn_inv [OF inv ingress_data_inv(1,2) [OF D(2) i] ingress_data_keeps_open [OF D(2) i], of m]
    obtain k st2 where p: "ism_msquic_adapter_prepare_ready_response bld Obj (ev_stream_id e) ?st = (k, st2)" by fastforce
    note pr = prepare_inv [OF new(1) p]
    have "st' = ?st \<or> st' = st2"
      using run p ISM_SHELL_EVENT_AUTHENTICATED_STREAM_BYTES
      by (auto simp: dispatch_event_def shell_data_eq(2) [OF ing] i Let_def split: if_splits)
    with new pr same_setup_trans [OF new(2) pr(2)] show ?thesis by auto
  next
    case ISM_SHELL_EVENT_AUTHENTICATED_STREAM_FIN
    then have ing: "ingress_ready bld (conn_of st) (ev_data e) 0" using ready by (simp add: event_ready_def)
    obtain c st2 where f: "ism_msquic_adapter_on_authenticated_stream_fin bld Obj (ev_stream_id e) st = (c, st2)"
      by fastforce
    with adapter_fin_inv [OF inv ing f] run ISM_SHELL_EVENT_AUTHENTICATED_STREAM_FIN show ?thesis
      by (simp add: dispatch_event_def)
  next
    case ISM_SHELL_EVENT_READY_RESPONSE
    obtain k st2 where p: "ism_msquic_adapter_prepare_ready_response bld Obj (ev_stream_id e) st = (k, st2)" by fastforce
    with prepare_inv [OF inv p] run ISM_SHELL_EVENT_READY_RESPONSE show ?thesis
      by (simp add: dispatch_event_def)
  next
    case ISM_SHELL_EVENT_SEND_COMPLETE
    with run inv finish_adapter_inv [OF inv] set_conn_finish [OF inv] show ?thesis
      by (auto simp: dispatch_event_def send_complete_eq [OF inv] split: if_splits)
  next
    case ISM_SHELL_EVENT_STREAM_RESET
    with run inv finish_adapter_inv [OF inv] set_conn_finish [OF inv] show ?thesis
      by (auto simp: dispatch_event_def stream_reset_eq [OF inv] split: if_splits)
  qed
  then show "adapter_inv bld st'" and "same_setup st st'" and "sh_queue st' = sh_queue st" by auto
qed

lemma adapter_inv_queue [simp]: "adapter_inv bld (st\<lparr>sh_queue := q\<rparr>) = adapter_inv bld st"
  by (simp add: adapter_inv_def buffers_separate_def)

lemma event_ready_queue [simp]: "event_ready bld (st\<lparr>sh_queue := q\<rparr>) e = event_ready bld st e"
  by (simp add: event_ready_def split: ism_shell_event_kind.split)

lemma dispatch_one_eq:
  assumes "queue_inv (sh_queue st)"
  shows "ism_shell_event_queue_dispatch_one bld Obj Obj st =
    (if queue_items (sh_queue st) = [] then (False, st)
     else dispatch_event bld Obj (hd (queue_items (sh_queue st)))
       (st\<lparr>sh_queue := snd (deq_event (sh_queue st))\<rparr>))"
proof (cases "q_count (sh_queue st) = 0")
  case True
  then have "queue_items (sh_queue st) = []" by (simp add: queue_items_def)
  with True show ?thesis
    by (simp add: ism_shell_event_queue_dispatch_one_def queue_at_def dequeue_empty put_queue_def)
next
  case False
  obtain ok ev q where run: "ism_shell_event_queue_dequeue (Some (sh_queue st)) (Some (ready_event 0)) = (ok, ev, Some q)"
    using dequeue_Some by blast
  have "queue_items (sh_queue st) \<noteq> []"
    using False by (metis length_queue_items list.size(3) unat_eq_0)
  with run dequeue_items [OF assms False run] show ?thesis
    by (simp add: ism_shell_event_queue_dispatch_one_def queue_at_def put_queue_def deq_event_def)
qed

section \<open>A run of events\<close>

text \<open>Handling a list of events in order, stopping at the first one that fails.\<close>

fun dispatch_list :: "build \<Rightarrow> ism_shell_event list \<Rightarrow> 'c shell_state \<Rightarrow> nat \<times> 'c shell_state" where
  "dispatch_list bld [] st = (0, st)"
| "dispatch_list bld (e # es) st =
     (let (ok, st1) = dispatch_event bld Obj e (st\<lparr>sh_queue := snd (deq_event (sh_queue st))\<rparr>) in
      if \<not> ok then (0, st1)
      else let (n, st2) = dispatch_list bld es st1 in (n + 1, st2))"

lemma dispatch_all_from_eq:
  assumes "queue_inv (sh_queue st)" and "adapter_inv bld st" and "dispatched \<le> max_events"
    and "\<forall>e\<in>set (queue_items (sh_queue st)). event_ready bld st e"
    and "dispatch_list bld (take (unat max_events - unat dispatched) (queue_items (sh_queue st))) st = (k, st')"
  shows "dispatch_all_from bld Obj Obj max_events dispatched st = (dispatched + of_nat k, st')"
  using assms
proof (induction bld "Obj" "Obj" max_events dispatched st arbitrary: k st' rule: dispatch_all_from.induct)
  case (1 bld mx i st)
  let ?items = "queue_items (sh_queue st)"
  have len: "ism_shell_event_queue_len (queue_at Obj st) = q_count (sh_queue st)"
    by (simp add: ism_shell_event_queue_len_def queue_at_def)
  show ?case
  proof (cases "i < mx \<and> ?items \<noteq> []")
    case False
    then have "take (unat mx - unat i) ?items = []"
      by (auto simp: word_less_nat_alt)
    moreover have "\<not> (i < mx \<and> ism_shell_event_queue_len (queue_at Obj st) > 0)"
      using False len by (auto simp: queue_items_def word_gt_0 unat_gt_0 upt_eq_Nil_conv)
    ultimately show ?thesis
      using "1.prems"(5) by (subst dispatch_all_from.simps) auto
  next
    case True
    then obtain e es where items: "?items = e # es" by (cases ?items) auto
    have pos: "ism_shell_event_queue_len (queue_at Obj st) > 0"
      using True len by (auto simp: queue_items_def word_gt_0)
    let ?st1 = "st\<lparr>sh_queue := snd (deq_event (sh_queue st))\<rparr>"
    obtain ok st2 where ev: "dispatch_event bld Obj e ?st1 = (ok, st2)" by fastforce
    have one: "ism_shell_event_queue_dispatch_one bld Obj Obj st = (ok, st2)"
      using dispatch_one_eq [OF "1.prems"(1)] items ev by simp
    obtain d where d: "unat mx - unat i = Suc d"
      using True by (metis Suc_diff_Suc word_less_nat_alt)
    have next_i: "unat (i + 1) = unat i + 1" using True count_up_decreases(2) by blast
    show ?thesis
    proof (cases ok)
      case False
      with "1.prems"(5) items d ev one True pos show ?thesis
        by (subst dispatch_all_from.simps) (auto simp: Let_def)
    next
      case ok: True
      have inv1: "adapter_inv bld ?st1" using "1.prems"(2) by simp
      have "event_ready bld ?st1 e" using "1.prems"(4) items by simp
      note step = dispatch_event_inv [OF inv1 this ev]
      have q2: "queue_inv (sh_queue st2)" "queue_items (sh_queue st2) = es"
        using ring.deq_inv [OF "1.prems"(1)] ring.deq_items [OF "1.prems"(1)] step(3) items by simp_all
      obtain k2 where rest: "dispatch_list bld (take d es) st2 = (k2, st')" and k: "k = k2 + 1"
        using "1.prems"(5) items d ev ok by (auto simp: Let_def split: prod.splits)
      have "dispatch_all_from bld Obj Obj mx (i + 1) st2 = (i + 1 + of_nat k2, st')"
      proof (rule "1.hyps" [OF _ one [symmetric]])
        show "i < mx \<and> 0 < ism_shell_event_queue_len (queue_at Obj st)" using True pos by simp
        show "\<not> \<not> ok" using ok by simp
        show "i + 1 \<le> mx" using True next_i by (simp add: word_le_nat_alt word_less_nat_alt)
        show "\<forall>e\<in>set (queue_items (sh_queue st2)). event_ready bld st2 e"
          using "1.prems"(4) items q2(2) event_ready_setup [OF _ step(2) inv1 step(1)] by simp
        show "dispatch_list bld (take (unat mx - unat (i + 1)) (queue_items (sh_queue st2))) st2 = (k2, st')"
        proof -
          have "unat mx - unat (i + 1) = d" using d next_i by simp
          with rest q2(2) show ?thesis by simp
        qed
      qed (use q2 step in simp_all)
      with True pos one ok k show ?thesis
        by (subst dispatch_all_from.simps) (simp add: algebra_simps)
    qed
  qed
qed

lemma dispatch_list_count: "dispatch_list bld es st = (k, st') \<Longrightarrow> k \<le> length es"
  by (induction es arbitrary: st k) (fastforce simp: Let_def split: prod.splits if_splits)+

section \<open>The send buffer while a send is in flight\<close>

text \<open>A stream that finds the table full is refused.\<close>

lemma ingress_data_full:
  assumes inv: "shell_inv conn" and run: "ingress_data conn sid data len m = (code, conn', m')"
  shows "abs_table conn sid = None \<and> active_count conn = 4 \<longrightarrow> code = 3 \<and> conn' = conn \<and> m' = m"
proof (intro impI)
  assume full: "abs_table conn sid = None \<and> active_count conn = 4"
  then have "fst (open_result conn sid) = None" "snd (open_result conn sid) = conn"
    using open_result_abs_table(3,4) [OF inv, of sid] by auto
  then show "code = 3 \<and> conn' = conn \<and> m' = m" using run by (auto simp: ingress_data_def split: prod.splits)
qed

lemma ingress_data_frame:
  assumes inv: "shell_inv conn" and run: "ingress_data conn sid data len m = (code, conn', m')"
  shows "\<exists>p<4. mem_frame (message_buffer (conn_streams conn ! p)) 65535 m m'"
proof (cases "abs_table conn sid \<noteq> None \<or> active_count conn < 4")
  case True
  from ingress_data_stream [OF inv run this] show ?thesis by metis
next
  case False
  then have "fst (open_result conn sid) = None"
    using open_result_abs_table(4) [OF inv, of sid] shell_invD(7) [OF inv] by auto
  then have "m' = m" using run by (auto simp: ingress_data_def split: prod.splits)
  then show ?thesis by (intro exI [of _ 0]) simp
qed

lemma send_buffer_frame:
  assumes "buffers_separate bld st" and "p < 4" and "k \<le> unat (ad_send_capacity (sh_adapter st))"
    and "mem_frame (message_buffer (conn_streams (conn_of st) ! p)) 65535 m m'"
  shows "mem_bytes m' (ad_send_buffer (sh_adapter st)) k = mem_bytes m (ad_send_buffer (sh_adapter st)) k"
proof (rule mem_bytes_frame [OF assms(4)])
  have "ranges_disjoint (message_buffer (conn_streams (conn_of st) ! p)) 65535 (ad_send_buffer (sh_adapter st))
      (unat (ad_send_capacity (sh_adapter st)))"
    using assms(1,2) by (simp add: buffers_separate_def Let_def)
  then show "ranges_disjoint (ad_send_buffer (sh_adapter st)) k (message_buffer (conn_streams (conn_of st) ! p)) 65535"
    using assms(3) ranges_disjoint_mono ranges_disjoint_sym by blast
qed

lemma dispatch_in_flight:
  assumes inv: "adapter_inv bld st" and ready: "event_ready bld st e"
    and busy: "ad_send_in_flight (sh_adapter st)" and run: "dispatch_event bld Obj e st = (ok, st')"
  shows "mem_bytes (sh_mem st') (ad_send_buffer (sh_adapter st)) (unat (ad_send_len (sh_adapter st))) =
      mem_bytes (sh_mem st) (ad_send_buffer (sh_adapter st)) (unat (ad_send_len (sh_adapter st)))"
    and "if ad_send_in_flight (sh_adapter st')
      then ad_send_stream_id (sh_adapter st') = ad_send_stream_id (sh_adapter st) \<and>
        ad_send_len (sh_adapter st') = ad_send_len (sh_adapter st) \<and> sh_ctx st' = sh_ctx st
      else ev_stream_id e = ad_send_stream_id (sh_adapter st) \<and>
        (ev_kind e = ISM_SHELL_EVENT_STREAM_RESET \<or>
         ev_kind e = ISM_SHELL_EVENT_SEND_COMPLETE \<and> ev_len e = ad_send_len (sh_adapter st))"
proof -
  note D = adapter_invD [OF inv]
  let ?n = "unat (ad_send_len (sh_adapter st))" and ?sb = "ad_send_buffer (sh_adapter st)"
  let ?same = "mem_bytes (sh_mem st') ?sb ?n = mem_bytes (sh_mem st) ?sb ?n"
  let ?flight = "if ad_send_in_flight (sh_adapter st')
      then ad_send_stream_id (sh_adapter st') = ad_send_stream_id (sh_adapter st) \<and>
        ad_send_len (sh_adapter st') = ad_send_len (sh_adapter st) \<and> sh_ctx st' = sh_ctx st
      else ev_stream_id e = ad_send_stream_id (sh_adapter st) \<and>
        (ev_kind e = ISM_SHELL_EVENT_STREAM_RESET \<or>
         ev_kind e = ISM_SHELL_EVENT_SEND_COMPLETE \<and> ev_len e = ad_send_len (sh_adapter st))"
  have n: "?n \<le> unat (ad_send_capacity (sh_adapter st))"
    using inv busy by (simp add: adapter_inv_def Let_def word_le_nat_alt)
  have "?same \<and> ?flight"
  proof (cases "ev_kind e")
    case ISM_SHELL_EVENT_AUTHENTICATED_STREAM_BYTES
    then have ing: "ingress_ready bld (conn_of st) (ev_data e) (ev_len e)" using ready by (simp add: event_ready_def)
    obtain phase conn m where i: "ingress_data (conn_of st) (ev_stream_id e) (ev_data e) (ev_len e) (sh_mem st)
        = (phase, conn, m)" by (metis prod_cases3)
    have "st' = set_conn conn (st\<lparr>sh_mem := m\<rparr>)"
      using run ISM_SHELL_EVENT_AUTHENTICATED_STREAM_BYTES busy
        prepare_busy [of "set_conn conn (st\<lparr>sh_mem := m\<rparr>)" bld Obj "ev_stream_id e"]
      by (auto simp: dispatch_event_def shell_data_eq(2) [OF ing] i Let_def split: if_splits)
    moreover obtain p where "p < 4" "mem_frame (message_buffer (conn_streams (conn_of st) ! p)) 65535 (sh_mem st) m"
      using ingress_data_frame [OF D(2) i] by blast
    ultimately show ?thesis using busy send_buffer_frame [OF D(3) _ n] by simp
  next
    case ISM_SHELL_EVENT_AUTHENTICATED_STREAM_FIN
    then have ing: "ingress_ready bld (conn_of st) (ev_data e) 0" using ready by (simp add: event_ready_def)
    obtain phase conn m where i: "ingress_fin (conn_of st) (ev_stream_id e) (sh_mem st) = (phase, conn, m)"
      by (metis prod_cases3)
    have "st' = set_conn conn (st\<lparr>sh_mem := m\<rparr>)"
      using run ISM_SHELL_EVENT_AUTHENTICATED_STREAM_FIN busy
      by (auto simp: dispatch_event_def ism_msquic_adapter_on_authenticated_stream_fin_def
          shell_fin_eq [OF ing] i Let_def split: if_splits)
    with ingress_fin_inv(3) [OF D(2) i] busy show ?thesis by simp
  next
    case ISM_SHELL_EVENT_READY_RESPONSE
    with run prepare_busy [OF busy] busy show ?thesis by (simp add: dispatch_event_def)
  next
    case ISM_SHELL_EVENT_SEND_COMPLETE
    with run busy show ?thesis
      by (auto simp: dispatch_event_def send_complete_eq [OF inv] split: if_splits)
  next
    case ISM_SHELL_EVENT_STREAM_RESET
    with run busy show ?thesis
      by (auto simp: dispatch_event_def stream_reset_eq [OF inv] split: if_splits)
  qed
  then show ?same and ?flight by auto
qed

end
