(* ===== verification/Adapter_Steps.thy ===== *)
theory Adapter_Steps
  imports Dispatch
begin

text \<open>
  The adapter with its queue as a state machine: from \<^verbatim>\<open>ism_msquic_adapter_init\<close>, any interleaving
  of direct adapter calls, enqueues and dispatches. The invariant holds in every reachable
  state; a send in flight keeps its buffer until the completion or reset of its own stream.
\<close>

section \<open>Steps\<close>

inductive adapter_step :: "build \<Rightarrow> 'c shell_state \<Rightarrow> 'c shell_state \<Rightarrow> bool" for bld where
  bytes: "ingress_ready bld (conn_of st) data len \<Longrightarrow>
    ism_msquic_adapter_on_authenticated_stream_bytes bld Obj sid data len st = (code, st') \<Longrightarrow>
    adapter_step bld st st'"
| fin: "ingress_ready bld (conn_of st) data 0 \<Longrightarrow>
    ism_msquic_adapter_on_authenticated_stream_fin bld Obj sid st = (code, st') \<Longrightarrow>
    adapter_step bld st st'"
| ready: "ism_msquic_adapter_prepare_ready_response bld Obj sid st = (n, st') \<Longrightarrow> adapter_step bld st st'"
| complete: "ism_msquic_adapter_on_send_complete bld Obj sid len dropped st = (ok, st') \<Longrightarrow>
    adapter_step bld st st'"
| reset: "ism_msquic_adapter_on_stream_reset bld Obj sid st = (ok, st') \<Longrightarrow> adapter_step bld st st'"
| enqueue: "ism_shell_event_queue_enqueue (Some (sh_queue st)) e = (ok, q) \<Longrightarrow>
    adapter_step bld st (put_queue q st)"
| dispatch: "queue_items (sh_queue st) \<noteq> [] \<Longrightarrow> event_ready bld st (hd (queue_items (sh_queue st))) \<Longrightarrow>
    ism_shell_event_queue_dispatch_one bld Obj Obj st = (ok, st') \<Longrightarrow> adapter_step bld st st'"

inductive adapter_reach :: "build \<Rightarrow> 'c shell_state \<Rightarrow> 'c shell_state \<Rightarrow> bool" for bld st0 where
  start: "adapter_reach bld st0 st0"
| step: "adapter_reach bld st0 st \<Longrightarrow> adapter_step bld st st' \<Longrightarrow> adapter_reach bld st0 st'"

section \<open>The invariant\<close>

lemma finish_event_inv:
  assumes inv: "adapter_inv bld st"
    and "st' = st \<or> st' = set_send False 0 0 (set_conn (finish_stream (conn_of st) sid) st)"
  shows "adapter_inv bld st'" and "same_setup st st'" and "sh_queue st' = sh_queue st"
  using assms(2) inv finish_adapter_inv [OF inv, of sid] set_conn_finish [OF inv, of sid] by auto

lemma adapter_step_inv:
  assumes step: "adapter_step bld st st'" and inv: "adapter_inv bld st" and q: "queue_inv (sh_queue st)"
  shows "adapter_inv bld st' \<and> same_setup st st' \<and> queue_inv (sh_queue st')"
  using step
proof cases
  case (bytes data len sid code)
  from adapter_bytes_inv [OF inv bytes] q show ?thesis by simp
next
  case (fin data sid code)
  from adapter_fin_inv [OF inv fin] q show ?thesis by simp
next
  case (ready sid n)
  from prepare_inv [OF inv ready] q show ?thesis by simp
next
  case (complete sid len dropped ok)
  then have "st' = st \<or> st' = set_send False 0 0 (set_conn (finish_stream (conn_of st) sid) st)"
    by (auto simp: send_complete_eq [OF inv] split: if_splits)
  from finish_event_inv [OF inv this] q show ?thesis by simp
next
  case (reset sid ok)
  then have "st' = st \<or> st' = set_send False 0 0 (set_conn (finish_stream (conn_of st) sid) st)"
    by (auto simp: stream_reset_eq [OF inv] split: if_splits)
  from finish_event_inv [OF inv this] q show ?thesis by simp
next
  case (enqueue e ok q')
  have "queue_inv (snd (enq_event (sh_queue st) e))" using q by (rule ring.enq_inv)
  moreover obtain q1 where "q' = Some q1" using enqueue(2) enqueue_Some by (metis prod.inject)
  ultimately have "put_queue q' st = st\<lparr>sh_queue := q1\<rparr>" and "queue_inv q1"
    using enqueue(2) by (simp_all add: put_queue_def enq_event_def)
  then show ?thesis using enqueue(1) inv by (simp add: same_setup_def)
next
  case (dispatch ok)
  let ?st = "st\<lparr>sh_queue := snd (deq_event (sh_queue st))\<rparr>"
  have run: "dispatch_event bld Obj (hd (queue_items (sh_queue st))) ?st = (ok, st')"
    using dispatch dispatch_one_eq [OF q, of bld] by simp
  have "adapter_inv bld ?st" and "event_ready bld ?st (hd (queue_items (sh_queue st)))"
    using inv dispatch(2) by simp_all
  from dispatch_event_inv [OF this run] ring.deq_inv [OF q] show ?thesis by (simp add: same_setup_def)
qed

lemma adapter_reach_inv:
  assumes "adapter_reach bld st0 st" and "adapter_inv bld st0" and "queue_inv (sh_queue st0)"
  shows "adapter_inv bld st \<and> same_setup st0 st \<and> queue_inv (sh_queue st)"
  using assms(1)
proof induction
  case start
  with assms(2,3) show ?case by simp
next
  case (step st st')
  then show ?case using adapter_step_inv same_setup_trans by blast
qed

lemma adapter_init_inv:
  assumes raw: "length (conn_streams (conn_of st)) = 4"
    and storage: "use_pulse_table bld \<longrightarrow> storage_ok bld (conn_of st)"
    and sep: "buffers_separate bld (ism_msquic_adapter_init Obj rb rc sb sc f ctx st)"
  shows "adapter_inv bld (ism_msquic_adapter_init Obj rb rc sb sc f ctx st)"
  using sep init_ready [OF raw storage, of "sh_mem st"]
  by (auto simp: adapter_inv_def ism_msquic_adapter_init_def split: prod.splits)

section \<open>Answering later\<close>

text \<open>A FIN that completes a message while another stream's send is in flight is accepted, the
  stream waits in the processing phase and nothing is sent.\<close>

lemma fin_while_busy:
  assumes inv: "adapter_inv bld st" and ready: "ingress_ready bld (conn_of st) data 0"
    and busy: "ad_send_in_flight (sh_adapter st)"
    and tab: "abs_table (conn_of st) sid = Some c" and holds: "stream_holds bs c (sh_mem st)"
    and full: "doq_phase bs = AwaitingFin n" and id: "bs ! 2 = 0" "bs ! 3 = 0"
    and run: "ism_msquic_adapter_on_authenticated_stream_fin bld Obj sid st = (code, st')"
  shows "code = 2" and "abs_table (conn_of st') = (abs_table (conn_of st))(sid \<mapsto> c\<lparr>sc_phase := S_Processing n\<rparr>)"
    and "sh_mem st' = sh_mem st" and "sh_ctx st' = sh_ctx st"
    and "\<exists>conn. sh_adapter st' = (sh_adapter st)\<lparr>ad_connection := conn\<rparr>"
    and "mem_bytes (sh_mem st) (sc_buf c) (unat n) = drop 2 bs"
proof -
  obtain conn' where f: "ingress_fin (conn_of st) sid (sh_mem st) = (2, conn', sh_mem st)"
      "abs_table conn' = (abs_table (conn_of st))(sid \<mapsto> c\<lparr>sc_phase := S_Processing n\<rparr>)"
      "mem_bytes (sh_mem st) (sc_buf c) (unat n) = drop 2 bs"
    using fin_processing [OF adapter_invD(2) [OF inv] tab holds full id] by metis
  then have "(code, st') = (2, set_conn conn' (st\<lparr>sh_mem := sh_mem st\<rparr>))"
    using run busy by (simp add: ism_msquic_adapter_on_authenticated_stream_fin_def shell_fin_eq [OF ready] set_conn_def)
  with f show "code = 2" "abs_table (conn_of st') = (abs_table (conn_of st))(sid \<mapsto> c\<lparr>sc_phase := S_Processing n\<rparr>)"
    "sh_mem st' = sh_mem st" "sh_ctx st' = sh_ctx st" "\<exists>conn. sh_adapter st' = (sh_adapter st)\<lparr>ad_connection := conn\<rparr>"
    "mem_bytes (sh_mem st) (sc_buf c) (unat n) = drop 2 bs"
    by (simp_all add: set_conn_def, blast)
qed

text \<open>Once the send in flight completes, a ready event for the waiting stream sends its answer.\<close>

lemma answer_after_completion:
  assumes inv: "adapter_inv bld st" and ready: "ingress_ready bld (conn_of st) data 0"
    and val: "question_validator (check_question bld)" and f: "ad_send (sh_adapter st) = Some f"
    and bufs: "ad_response_buffer (sh_adapter st) \<noteq> NULL" "ad_send_buffer (sh_adapter st) \<noteq> NULL"
    and busy: "ad_send_in_flight (sh_adapter st)" "ad_send_stream_id (sh_adapter st) = a" "a \<noteq> sid"
    and tab: "abs_table (conn_of st) sid = Some c" and holds: "stream_holds bs c (sh_mem st)"
    and full: "doq_phase bs = AwaitingFin n" and id: "bs ! 2 = 0" "bs ! 3 = 0"
    and r: "minimal_response (drop 2 bs) (unat (ad_response_capacity (sh_adapter st))) = Some r"
    and fits: "length r + 2 \<le> unat (ad_send_capacity (sh_adapter st))"
    and fin: "ism_msquic_adapter_on_authenticated_stream_fin bld Obj sid st = (code, st1)"
    and comp: "ism_msquic_adapter_on_send_complete bld Obj a (ad_send_len (sh_adapter st)) dropped st1 = (ok, st2)"
    and prep: "ism_msquic_adapter_prepare_ready_response bld Obj sid st2 = (k, st3)"
  shows "code = 2" and "sh_ctx st1 = sh_ctx st" and "ok"
    and "mem_bytes (sh_mem st3) (ad_send_buffer (sh_adapter st)) (length r + 2) = doq_frame r"
    and "f sid (ad_send_buffer (sh_adapter st)) (of_nat (length r + 2)) True (sh_mem st3) (sh_ctx st) =
      (ad_send_in_flight (sh_adapter st3), sh_ctx st3)"
proof -
  note F = fin_while_busy [OF inv ready busy(1) tab holds full id fin]
  show "code = 2" "sh_ctx st1 = sh_ctx st" by (rule F)+
  have inv1: "adapter_inv bld st1" using adapter_fin_inv(1) [OF inv ready fin] .
  obtain conn1 where ad1: "sh_adapter st1 = (sh_adapter st)\<lparr>ad_connection := conn1\<rparr>" using F(5) by blast
  have fields: "ad_send_in_flight (sh_adapter st1)" "ad_send_stream_id (sh_adapter st1) = a"
      "ad_send_len (sh_adapter st1) = ad_send_len (sh_adapter st)"
    using busy by (simp_all add: ad1)
  have eff: "ok \<and> st2 = set_send False 0 0 (set_conn (finish_stream (conn_of st1) a) st1)"
    using comp fields by (simp add: send_complete_eq [OF inv1])
  then show ok by simp
  have inv2: "adapter_inv bld st2" using eff finish_adapter_inv [OF inv1, of a] by simp
  have same: "ad_send (sh_adapter st2) = ad_send (sh_adapter st)" "ad_send_buffer (sh_adapter st2) = ad_send_buffer (sh_adapter st)"
      "ad_response_buffer (sh_adapter st2) = ad_response_buffer (sh_adapter st)"
      "ad_send_capacity (sh_adapter st2) = ad_send_capacity (sh_adapter st)"
      "ad_response_capacity (sh_adapter st2) = ad_response_capacity (sh_adapter st)"
      "\<not> ad_send_in_flight (sh_adapter st2)" "sh_mem st2 = sh_mem st" "sh_ctx st2 = sh_ctx st"
    using eff F(3,4) by (simp_all add: ad1)
  have tab2: "abs_table (conn_of st2) sid = Some (c\<lparr>sc_phase := S_Processing n\<rparr>)"
    using eff F(2) busy(3) by (simp add: finish_stream_abs_table [OF adapter_invD(2) [OF inv1]])
  have r2: "minimal_response (mem_bytes (sh_mem st2) (sc_buf (c\<lparr>sc_phase := S_Processing n\<rparr>)) (unat n))
      (unat (ad_response_capacity (sh_adapter st2))) = Some r"
    using r F(6) same by simp
  obtain m' where m': "mem_bytes m' (ad_send_buffer (sh_adapter st2)) (length r + 2) = doq_frame r" and
    call: "ism_msquic_adapter_prepare_ready_response bld Obj sid st2 =
      (case f sid (ad_send_buffer (sh_adapter st2)) (of_nat (length r + 2)) True m' (sh_ctx st2) of (sent, ctx) \<Rightarrow>
         if sent then (of_nat (length r + 2), (set_send True sid (of_nat (length r + 2)) (st2\<lparr>sh_mem := m'\<rparr>))\<lparr>sh_ctx := ctx\<rparr>)
         else (0, set_send False 0 0 (set_conn (finish_stream (conn_of st2) sid) (st2\<lparr>sh_mem := m', sh_ctx := ctx\<rparr>))))"
    by (rule prepare_answers [OF inv2 val same(6) f [folded same(1)] _ _ tab2 _ r2]) (use bufs fits same in simp_all)
  then show "mem_bytes (sh_mem st3) (ad_send_buffer (sh_adapter st)) (length r + 2) = doq_frame r"
    "f sid (ad_send_buffer (sh_adapter st)) (of_nat (length r + 2)) True (sh_mem st3) (sh_ctx st) =
      (ad_send_in_flight (sh_adapter st3), sh_ctx st3)"
    using prep same by (auto simp: split: prod.splits if_splits)
qed

end
