(* ===== verification/Runtime.thy ===== *)
theory Runtime
  imports Adapter_Steps
begin

text \<open>
  The stream runtime of \<^verbatim>\<open>src/shell/msquic_runtime.c\<close>, which translates MsQuic stream callbacks into
  queue events and submits the adapter's responses with \<^verbatim>\<open>StreamSend\<close>.

  MsQuic is not part of the repository: its function table is the record \<open>quic_api\<close> of
  functions over an external world \<open>'w\<close>, its status codes are opaque except for the
  three the sources name, and the macro \<^verbatim>\<open>QUIC_FAILED\<close> is the field \<open>tr_failed\<close>.
  A runtime stream is an entry of the list \<open>tr_streams\<close>, a pointer to it is its index;
  the address of its send context is named by the same index.
\<close>

section \<open>The external interface\<close>

datatype quic_status =
    QUIC_STATUS_SUCCESS
  | QUIC_STATUS_INVALID_PARAMETER
  | QUIC_STATUS_INVALID_STATE
  | QUIC_STATUS_CODE nat

type_synonym hquic = nat

text \<open>The callbacks that the connection runtime installs: the connection's, and the stream's with
  the slot it is given as context.\<close>

datatype quic_callback = ConnectionCallback | StreamCallback nat

record 'w quic_api =
  StreamSend :: "(hquic \<Rightarrow> addr \<Rightarrow> u32 \<Rightarrow> bool \<Rightarrow> nat \<Rightarrow> mem \<Rightarrow> 'w \<Rightarrow> quic_status \<times> 'w) option"
  ConnectionShutdown :: "(hquic \<Rightarrow> u64 \<Rightarrow> 'w \<Rightarrow> 'w) option"
  StreamClose :: "hquic \<Rightarrow> 'w \<Rightarrow> 'w"
  SetCallbackHandler :: "hquic \<Rightarrow> quic_callback \<Rightarrow> 'w \<Rightarrow> 'w"
  GetParam :: "hquic \<Rightarrow> 'w \<Rightarrow> quic_status \<times> u32 \<times> u64 \<times> 'w"
  ConnectionSetConfiguration :: "hquic \<Rightarrow> hquic \<Rightarrow> 'w \<Rightarrow> quic_status \<times> 'w"
  ConnectionClose :: "(hquic \<Rightarrow> 'w \<Rightarrow> 'w) option"

datatype quic_stream_event =
    QUIC_STREAM_EVENT_START_COMPLETE u64
  | QUIC_STREAM_EVENT_RECEIVE "(addr \<times> u32) list option" u32 bool
  | QUIC_STREAM_EVENT_PEER_SEND_SHUTDOWN
  | QUIC_STREAM_EVENT_SEND_COMPLETE "nat option" bool
  | QUIC_STREAM_EVENT_PEER_SEND_ABORTED
  | QUIC_STREAM_EVENT_PEER_RECEIVE_ABORTED
  | QUIC_STREAM_EVENT_SHUTDOWN_COMPLETE
  | QUIC_STREAM_EVENT_OTHER

section \<open>State\<close>

record 'w ism_msquic_runtime_stream =
  rt_adapter :: obj_ptr
  rt_queue :: obj_ptr
  rt_stream_id :: u64
  rt_ingress_buffer :: addr
  rt_ingress_capacity :: u32
  rt_received_fin :: bool
  rt_api :: "'w quic_api option"
  rt_stream :: hquic
  rt_connection :: hquic
  rt_send_buffer :: "u32 \<times> addr"
  rt_response_len :: u32
  rt_send_in_flight :: bool
  rt_reset_pending :: bool

text \<open>The fields of a connection slot beside its runtime stream (used by the connection
  runtime; slot \<open>i\<close> holds runtime stream \<open>i\<close>).\<close>

record 'w ism_msquic_connection_stream_slot =
  sl_api :: "'w quic_api option"
  sl_ingress_buffer :: addr
  sl_ingress_capacity :: u32
  sl_stream :: hquic
  sl_in_use :: bool

record 'w transport =
  tr_streams :: "'w ism_msquic_runtime_stream list"
  tr_slots :: "'w ism_msquic_connection_stream_slot list"
  tr_world :: 'w
  tr_failed :: "quic_status \<Rightarrow> bool"

type_synonym 'w rt_state = "'w transport shell_state"

type_synonym rt_ptr = "nat option"

definition stream_of :: "'w transport \<Rightarrow> nat \<Rightarrow> 'w ism_msquic_runtime_stream" where
  "stream_of tr i = tr_streams tr ! i"

definition upd_stream ::
  "nat \<Rightarrow> ('w ism_msquic_runtime_stream \<Rightarrow> 'w ism_msquic_runtime_stream) \<Rightarrow> 'w transport \<Rightarrow> 'w transport" where
  "upd_stream i f tr = tr\<lparr>tr_streams := (tr_streams tr)[i := f (tr_streams tr ! i)]\<rparr>"

abbreviation rt_of :: "'w rt_state \<Rightarrow> nat \<Rightarrow> 'w ism_msquic_runtime_stream" where
  "rt_of st i \<equiv> stream_of (sh_ctx st) i"

definition upd_rt ::
  "nat \<Rightarrow> ('w ism_msquic_runtime_stream \<Rightarrow> 'w ism_msquic_runtime_stream) \<Rightarrow> 'w rt_state \<Rightarrow> 'w rt_state" where
  "upd_rt i f st = st\<lparr>sh_ctx := upd_stream i f (sh_ctx st)\<rparr>"

definition upd_world :: "('w \<Rightarrow> 'w) \<Rightarrow> 'w rt_state \<Rightarrow> 'w rt_state" where
  "upd_world f st = st\<lparr>sh_ctx := (sh_ctx st)\<lparr>tr_world := f (tr_world (sh_ctx st))\<rparr>\<rparr>"

section \<open>Initialisation\<close>

definition init_stream ::
  "obj_ptr \<Rightarrow> obj_ptr \<Rightarrow> u64 \<Rightarrow> addr \<Rightarrow> u32 \<Rightarrow> 'w ism_msquic_runtime_stream" where
  "init_stream adapter queue stream_id ingress_buffer ingress_capacity =
     \<lparr>rt_adapter = adapter, rt_queue = queue, rt_stream_id = stream_id,
      rt_ingress_buffer = ingress_buffer, rt_ingress_capacity = ingress_capacity,
      rt_received_fin = False, rt_api = None, rt_stream = 0, rt_connection = 0,
      rt_send_buffer = (0, NULL), rt_response_len = 0, rt_send_in_flight = False,
      rt_reset_pending = False\<rparr>"

definition ism_msquic_runtime_stream_init ::
  "rt_ptr \<Rightarrow> obj_ptr \<Rightarrow> obj_ptr \<Rightarrow> u64 \<Rightarrow> addr \<Rightarrow> u32 \<Rightarrow> 'w rt_state \<Rightarrow> 'w rt_state" where
  "ism_msquic_runtime_stream_init runtime adapter queue stream_id ingress_buffer ingress_capacity st =
     (case runtime of
        None \<Rightarrow> st
      | Some i \<Rightarrow>
          upd_rt i (\<lambda>_. init_stream adapter queue stream_id ingress_buffer ingress_capacity) st)"

definition ism_msquic_runtime_bind_msquic_stream ::
  "rt_ptr \<Rightarrow> 'w quic_api option \<Rightarrow> hquic \<Rightarrow> 'w rt_state \<Rightarrow> 'w rt_state" where
  "ism_msquic_runtime_bind_msquic_stream runtime api stream st =
     (case runtime of
        None \<Rightarrow> st
      | Some i \<Rightarrow> upd_rt i (\<lambda>r. r\<lparr>rt_api := api, rt_stream := stream\<rparr>) st)"

section \<open>Ingress\<close>

definition ism_msquic_runtime_copy_enqueue_and_dispatch ::
  "build \<Rightarrow> rt_ptr \<Rightarrow> addr \<Rightarrow> u32 \<Rightarrow> 'w rt_state \<Rightarrow> bool \<times> 'w rt_state" where
  "ism_msquic_runtime_copy_enqueue_and_dispatch bld runtime data len st =
     (case runtime of
        None \<Rightarrow> (False, st)
      | Some i \<Rightarrow>
          let r = rt_of st i in
          if rt_ingress_buffer r = NULL \<or> data = NULL \<or> len > rt_ingress_capacity r
             \<or> ism_shell_event_queue_len (queue_at (rt_queue r) st) \<noteq> 0
             \<or> rt_received_fin r \<and> len > 0 then (False, st)
          else
            let st1 = st\<lparr>sh_mem := mem_copy (sh_mem st) (rt_ingress_buffer r) data (unat len)\<rparr>;
                (ok, q) = ism_shell_event_queue_enqueue_authenticated_stream_bytes
                  (queue_at (rt_queue r) st1) (rt_stream_id r) (rt_ingress_buffer r) len;
                st2 = put_queue q st1 in
            if \<not> ok then (False, st2)
            else ism_shell_event_queue_dispatch_one bld (rt_queue r) (rt_adapter r) st2)"

text \<open>The buffer loop, shared by the plain and the MsQuic receive function.\<close>

fun receive_buffers ::
  "build \<Rightarrow> rt_ptr \<Rightarrow> (addr \<times> u32) list \<Rightarrow> 'w rt_state \<Rightarrow> bool \<times> 'w rt_state" where
  "receive_buffers bld runtime [] st = (True, st)"
| "receive_buffers bld runtime ((data, len) # rest) st =
     (if len = 0 then receive_buffers bld runtime rest st
      else if data = NULL then (False, st)
      else
        let (ok, st') = ism_msquic_runtime_copy_enqueue_and_dispatch bld runtime data len st in
        if \<not> ok then (False, st') else receive_buffers bld runtime rest st')"

definition ism_msquic_runtime_on_receive ::
  "build \<Rightarrow> rt_ptr \<Rightarrow> (addr \<times> u32) list option \<Rightarrow> u32 \<Rightarrow> 'w rt_state \<Rightarrow> bool \<times> 'w rt_state" where
  "ism_msquic_runtime_on_receive bld runtime buffers buffer_count st =
     (case runtime of
        None \<Rightarrow> (False, st)
      | Some i \<Rightarrow>
          if rt_adapter (rt_of st i) = Null \<or> rt_queue (rt_of st i) = Null
             \<or> buffers = None \<and> buffer_count > 0 then (False, st)
          else
            receive_buffers bld runtime
              (map (\<lambda>k. the buffers ! k) [0..<unat buffer_count]) st)"

definition ism_msquic_runtime_on_fin ::
  "build \<Rightarrow> rt_ptr \<Rightarrow> 'w rt_state \<Rightarrow> bool \<times> 'w rt_state" where
  "ism_msquic_runtime_on_fin bld runtime st =
     (case runtime of
        None \<Rightarrow> (False, st)
      | Some i \<Rightarrow>
          let r = rt_of st i in
          if rt_adapter r = Null \<or> rt_queue r = Null then (False, st)
          else if rt_received_fin r then (True, st)
          else if ism_shell_event_queue_len (queue_at (rt_queue r) st) \<noteq> 0 then (False, st)
          else
            let (ok, q) = ism_shell_event_queue_enqueue_authenticated_stream_fin
                  (queue_at (rt_queue r) st) (rt_stream_id r);
                st1 = put_queue q st;
                (accepted, st2) =
                  (if \<not> ok then (False, st1)
                   else ism_shell_event_queue_dispatch_one bld (rt_queue r) (rt_adapter r) st1) in
            (accepted, upd_rt i (\<lambda>r. r\<lparr>rt_received_fin := accepted\<rparr>) st2))"

section \<open>Completion and reset\<close>

definition ism_msquic_runtime_on_send_complete ::
  "build \<Rightarrow> rt_ptr \<Rightarrow> u32 \<Rightarrow> bool \<Rightarrow> 'w rt_state \<Rightarrow> bool \<times> 'w rt_state" where
  "ism_msquic_runtime_on_send_complete bld runtime response_len dropped st =
     (case runtime of
        None \<Rightarrow> (False, st)
      | Some i \<Rightarrow>
          let r = rt_of st i in
          if rt_adapter r = Null \<or> rt_queue r = Null then (False, st)
          else
            let (ok, q) = ism_shell_event_queue_enqueue_send_complete
                  (queue_at (rt_queue r) st) (rt_stream_id r) response_len dropped;
                st1 = put_queue q st in
            if \<not> ok then (False, st1)
            else ism_shell_event_queue_dispatch_one bld (rt_queue r) (rt_adapter r) st1)"

definition ism_msquic_runtime_on_stream_reset ::
  "build \<Rightarrow> rt_ptr \<Rightarrow> 'w rt_state \<Rightarrow> bool \<times> 'w rt_state" where
  "ism_msquic_runtime_on_stream_reset bld runtime st =
     (case runtime of
        None \<Rightarrow> (False, st)
      | Some i \<Rightarrow>
          let r = rt_of st i in
          if rt_adapter r = Null \<or> rt_queue r = Null then (False, st)
          else
            let (ok, q) = ism_shell_event_queue_enqueue_stream_reset
                  (queue_at (rt_queue r) st) (rt_stream_id r);
                st1 = put_queue q st in
            if \<not> ok then (False, st1)
            else ism_shell_event_queue_dispatch_one bld (rt_queue r) (rt_adapter r) st1)"

section \<open>Sending\<close>

text \<open>Installed as the adapter's send function, with the runtime stream as its context.\<close>

definition ism_msquic_runtime_send :: "rt_ptr \<Rightarrow> 'w transport ism_msquic_send_fn" where
  "ism_msquic_runtime_send runtime stream_id data len fin m tr =
     (case runtime of
        None \<Rightarrow> (False, tr)
      | Some i \<Rightarrow>
          let r = stream_of tr i in
          (case rt_api r of
             None \<Rightarrow> (False, tr)
           | Some api \<Rightarrow>
               (case StreamSend api of
                  None \<Rightarrow> (False, tr)
                | Some submit \<Rightarrow>
                    if rt_stream r = 0 \<or> rt_stream_id r \<noteq> stream_id \<or> data = NULL \<or> len = 0
                       \<or> rt_send_in_flight r then (False, tr)
                    else
                      let tr1 = upd_stream i (\<lambda>r. r\<lparr>rt_send_buffer := (len, data), rt_response_len := len,
                                  rt_send_in_flight := True, rt_reset_pending := False\<rparr>) tr;
                          (status, w) = submit (rt_stream r) data len fin i m (tr_world tr1);
                          tr2 = tr1\<lparr>tr_world := w\<rparr> in
                      if tr_failed tr2 status then
                        (False, upd_stream i (\<lambda>r. r\<lparr>rt_send_buffer := (0, NULL), rt_response_len := 0,
                                  rt_send_in_flight := False, rt_reset_pending := False\<rparr>) tr2)
                      else (True, tr2))))"

section \<open>The stream callback\<close>

definition ism_msquic_runtime_on_msquic_receive ::
  "build \<Rightarrow> nat \<Rightarrow> (addr \<times> u32) list option \<Rightarrow> u32 \<Rightarrow> bool \<Rightarrow> 'w rt_state \<Rightarrow> bool \<times> 'w rt_state" where
  "ism_msquic_runtime_on_msquic_receive bld i buffers buffer_count fin st =
     (if buffers = None \<and> buffer_count > 0 then (False, st)
      else
        let (ok, st1) = receive_buffers bld (Some i)
              (map (\<lambda>k. the buffers ! k) [0..<unat buffer_count]) st in
        if \<not> ok then (False, st1)
        else if \<not> fin then (True, st1)
        else ism_msquic_runtime_on_fin bld (Some i) st1)"

definition ism_msquic_runtime_protocol_error :: "nat \<Rightarrow> 'w rt_state \<Rightarrow> quic_status \<times> 'w rt_state" where
  "ism_msquic_runtime_protocol_error i st =
     (QUIC_STATUS_INVALID_STATE,
      let r = rt_of st i in
      case rt_api r of
        None \<Rightarrow> st
      | Some api \<Rightarrow>
          (case ConnectionShutdown api of
             None \<Rightarrow> st
           | Some shutdown \<Rightarrow>
               if rt_connection r \<noteq> 0 then upd_world (shutdown (rt_connection r) 2) st else st))"

text \<open>A \<^verbatim>\<open>SEND_COMPLETE\<close> reads \<^verbatim>\<open>runtime->adapter->send_in_flight\<close>: the runtime has a send in flight
  there, so it was bound to the adapter.\<close>

definition ism_msquic_runtime_stream_callback ::
  "build \<Rightarrow> rt_ptr \<Rightarrow> quic_stream_event option \<Rightarrow> 'w rt_state \<Rightarrow> quic_status \<times> 'w rt_state" where
  "ism_msquic_runtime_stream_callback bld context event st =
     (case (context, event) of
        (Some i, Some ev) \<Rightarrow>
          (case ev of
             QUIC_STREAM_EVENT_START_COMPLETE new_id \<Rightarrow>
               (QUIC_STATUS_SUCCESS, upd_rt i (\<lambda>r. r\<lparr>rt_stream_id := new_id\<rparr>) st)
           | QUIC_STREAM_EVENT_RECEIVE buffers buffer_count fin \<Rightarrow>
               let (ok, st1) = ism_msquic_runtime_on_msquic_receive bld i buffers buffer_count fin st in
               if ok then (QUIC_STATUS_SUCCESS, st1) else ism_msquic_runtime_protocol_error i st1
           | QUIC_STREAM_EVENT_PEER_SEND_SHUTDOWN \<Rightarrow>
               let (ok, st1) = ism_msquic_runtime_on_fin bld (Some i) st in
               if ok then (QUIC_STATUS_SUCCESS, st1) else ism_msquic_runtime_protocol_error i st1
           | QUIC_STREAM_EVENT_SEND_COMPLETE client_context canceled \<Rightarrow>
               let r = rt_of st i in
               if client_context = None \<or> client_context \<noteq> Some i \<or> \<not> rt_send_in_flight r
               then (QUIC_STATUS_INVALID_PARAMETER, st)
               else
                 let response_len = rt_response_len r;
                     dropped = (canceled \<or> rt_reset_pending r);
                     st1 = upd_rt i (\<lambda>r. r\<lparr>rt_send_buffer := (0, NULL), rt_response_len := 0,
                             rt_send_in_flight := False, rt_reset_pending := False\<rparr>) st in
                 if \<not> ad_send_in_flight (sh_adapter st1) then (QUIC_STATUS_SUCCESS, st1)
                 else
                   let (ok, st2) = ism_msquic_runtime_on_send_complete bld (Some i) response_len dropped st1 in
                   (if ok then QUIC_STATUS_SUCCESS else QUIC_STATUS_INVALID_STATE, st2)
           | QUIC_STREAM_EVENT_OTHER \<Rightarrow> (QUIC_STATUS_SUCCESS, st)
           | _ \<Rightarrow>
               if rt_send_in_flight (rt_of st i) then
                 (QUIC_STATUS_SUCCESS, upd_rt i (\<lambda>r. r\<lparr>rt_reset_pending := True\<rparr>) st)
               else
                 let (ok, st1) = ism_msquic_runtime_on_stream_reset bld (Some i) st in
                 (if ok then QUIC_STATUS_SUCCESS else QUIC_STATUS_INVALID_STATE, st1))
      | _ \<Rightarrow> (QUIC_STATUS_INVALID_PARAMETER, st))"

section \<open>Enqueue and dispatch on an idle queue\<close>

lemma enqueue_dispatch:
  assumes q: "queue_inv (sh_queue st)" "queue_items (sh_queue st) = []"
    and e: "ism_shell_event_queue_enqueue (Some (sh_queue st)) e = (ok, q')"
  shows "ok" and "\<exists>q2. queue_inv q2 \<and> queue_items q2 = [] \<and>
    ism_shell_event_queue_dispatch_one bld Obj Obj (put_queue q' st) = dispatch_event bld Obj e (st\<lparr>sh_queue := q2\<rparr>)"
proof -
  have "unat (q_count (sh_queue st)) = 0" using q(2) by (metis length_queue_items list.size(3))
  then have room: "q_count (sh_queue st) < q_capacity (sh_queue st)"
    using q(1) by (simp add: queue_inv_def word_less_nat_alt)
  obtain q1 where q1: "q' = Some q1" using enqueue_Some e by (metis prod.inject)
  show ok using enqueue_eq [OF q(1) room, of e] e by simp
  note it = enqueue_items [OF q(1) room e [unfolded q1]]
  let ?st = "st\<lparr>sh_queue := q1\<rparr>"
  have "queue_inv (sh_queue ?st)" "queue_items (sh_queue ?st) = [e]" using it q(2) by simp_all
  then have "ism_shell_event_queue_dispatch_one bld Obj Obj ?st = dispatch_event bld Obj e
      (?st\<lparr>sh_queue := snd (deq_event q1)\<rparr>)"
    by (simp add: dispatch_one_eq)
  moreover have "queue_inv (snd (deq_event q1))" "queue_items (snd (deq_event q1)) = []"
    using ring.deq_inv ring.deq_items it q(2) by simp_all
  ultimately show "\<exists>q2. queue_inv q2 \<and> queue_items q2 = [] \<and>
      ism_shell_event_queue_dispatch_one bld Obj Obj (put_queue q' st) = dispatch_event bld Obj e (st\<lparr>sh_queue := q2\<rparr>)"
    by (intro exI [of _ "snd (deq_event q1)"]) (simp add: q1 put_queue_def)
qed

section \<open>Receiving a message in pieces\<close>

text \<open>A runtime stream bound to the adapter and an idle queue, with an ingress buffer that
  overlaps no message buffer.\<close>

definition runtime_ready :: "build \<Rightarrow> 'w rt_state \<Rightarrow> nat \<Rightarrow> bool" where
  "runtime_ready bld st i \<longleftrightarrow>
     adapter_inv bld st \<and> queue_inv (sh_queue st) \<and> queue_items (sh_queue st) = [] \<and>
     (let r = rt_of st i in
      rt_adapter r = Obj \<and> rt_queue r = Obj \<and> rt_ingress_buffer r \<noteq> NULL \<and>
      (\<forall>k<4. ranges_disjoint (message_buffer (conn_streams (conn_of st) ! k)) 65535
                (rt_ingress_buffer r) (unat (rt_ingress_capacity r))) \<and>
      (\<forall>len\<le>rt_ingress_capacity r. ingress_ready bld (conn_of st) (rt_ingress_buffer r) len))"

text \<open>The bytes delivered so far on a stream that may not have been opened yet.\<close>

definition stream_got :: "u8 list \<Rightarrow> ism_shell_connection \<Rightarrow> u64 \<Rightarrow> mem \<Rightarrow> bool" where
  "stream_got bs conn sid m =
     (case abs_table conn sid of
        Some c \<Rightarrow> stream_holds bs c m
      | None \<Rightarrow> active_count conn < 4 \<and> bs = [])"

lemma doq_phase_not_Processing: "doq_phase bs \<noteq> Processing n"
  by (cases bs rule: doq_phase.cases) (simp_all add: Let_def)

lemma opened_holds:
  assumes inv: "shell_inv conn" and got: "stream_got bs conn sid m"
    and op: "abs_table (snd (open_result conn sid)) sid = Some c"
  shows "stream_holds bs c m"
proof (cases "abs_table conn sid")
  case None
  with got have "active_count conn < 4" and bs: "bs = []" by (simp_all add: stream_got_def)
  with open_result_abs_table(5) [OF inv None] op have "sc_phase c = S_ReadingLength" by simp
  then show ?thesis unfolding bs by (rule stream_holds_init)
next
  case (Some c')
  with open_result_abs_table(2) [OF inv, of sid] op got show ?thesis by (simp add: stream_got_def)
qed

text \<open>One fragment through the shell: the stream has received the bytes, and the code tells whether they
  are a protocol error.\<close>

lemma ingress_data_phase:
  assumes inv: "shell_inv conn" and got: "stream_got bs conn sid m"
    and len: "unat len = length chunk" and chunk: "mem_bytes m data (length chunk) = chunk"
    and run: "ingress_data conn sid data len m = (code, conn', m')"
  shows "stream_got (bs @ chunk) conn' sid m'" and "code = 3 \<longleftrightarrow> doq_phase (bs @ chunk) = Done" and "code \<noteq> 2"
    and "abs_table conn' sid \<noteq> None" and "abs_table conn' = (abs_table conn)(sid := abs_table conn' sid)"
    and "code = shell_phase_code (from_model (doq_phase (bs @ chunk)))"
proof -
  have "abs_table conn sid \<noteq> None \<or> active_count conn < 4"
    using got by (auto simp: stream_got_def split: option.splits)
  from ingress_data_stream [OF inv run this] obtain c phase c' where
    o: "abs_table (snd (open_result conn sid)) sid = Some c" and
    h: "handle_stream_data c data len m = (phase, c', m')" and
    t: "abs_table conn' = (abs_table conn)(sid \<mapsto> c')" and code: "code = shell_phase_code phase"
    by metis
  have "stream_holds (bs @ chunk) c' m'"
    using handle_stream_data_holds [OF opened_holds [OF inv got o] len chunk h] .
  moreover have "sc_phase c' = phase" using handle_stream_data_ctx [OF h] by simp
  ultimately have "to_model phase = doq_phase (bs @ chunk)" by (simp add: stream_holds_def)
  then have "\<forall>n. to_model phase \<noteq> Processing n" using doq_phase_not_Processing by simp
  then have "(code = 3 \<longleftrightarrow> to_model phase = Done) \<and> code \<noteq> 2"
    by (cases phase rule: to_model.cases) (simp_all add: code)
  then show "code = 3 \<longleftrightarrow> doq_phase (bs @ chunk) = Done" and "code \<noteq> 2"
    using \<open>to_model phase = doq_phase (bs @ chunk)\<close> by simp_all
  show "stream_got (bs @ chunk) conn' sid m'" and "abs_table conn' sid \<noteq> None"
    and "abs_table conn' = (abs_table conn)(sid := abs_table conn' sid)"
    using t \<open>stream_holds (bs @ chunk) c' m'\<close> by (simp_all add: stream_got_def)
  show "code = shell_phase_code (from_model (doq_phase (bs @ chunk)))"
    unfolding code \<open>to_model phase = doq_phase (bs @ chunk)\<close> [symmetric] by simp
qed

lemma ingress_data_got:
  assumes "shell_inv conn" and "stream_got bs conn sid m"
    and "unat len = length chunk" and "mem_bytes m data (length chunk) = chunk" and "doq_phase (bs @ chunk) \<noteq> Done"
    and "ingress_data conn sid data len m = (code, conn', m')"
  shows "stream_got (bs @ chunk) conn' sid m'" and "code \<noteq> 3" and "code \<noteq> 2"
    and "abs_table conn' sid \<noteq> None" and "abs_table conn' = (abs_table conn)(sid := abs_table conn' sid)"
    and "code = shell_phase_code (from_model (doq_phase (bs @ chunk)))"
  using ingress_data_phase [OF assms(1-4,6)] assms(5) by simp_all

lemma stream_got_frame:
  assumes inv: "shell_inv conn" and got: "stream_got bs conn sid m" and "mem_frame p n m m'"
    and sep: "\<forall>k<4. ranges_disjoint (message_buffer (conn_streams conn ! k)) 65535 p n"
  shows "stream_got bs conn sid m'"
proof (cases "abs_table conn sid")
  case None
  with got show ?thesis by (simp add: stream_got_def)
next
  case (Some c)
  obtain k where "k < 4" "sc_buf c = message_buffer (conn_streams conn ! k)"
    using abs_table_find [OF inv Some] by metis
  with Some got sep stream_holds_frame [OF _ assms(3)] show ?thesis by (simp add: stream_got_def)
qed

lemma runtime_ready_mem [simp]: "runtime_ready bld (st\<lparr>sh_mem := m\<rparr>) i = runtime_ready bld st i"
  by (simp add: runtime_ready_def adapter_inv_def buffers_separate_def)

lemma runtime_ready_setup:
  assumes "runtime_ready bld st i" and "same_setup st st'" and "adapter_inv bld st'"
    and "queue_inv (sh_queue st')" and "queue_items (sh_queue st') = []" and "rt_of st' i = rt_of st i"
  shows "runtime_ready bld st' i"
proof -
  have inv: "adapter_inv bld st" using assms(1) by (simp add: runtime_ready_def)
  have "conn_layout (conn_of st) = conn_layout (conn_of st')" using assms(2) by (simp add: same_setup_def)
  note nth = layout_nth(1) [OF this, unfolded adapter_invD(4) [OF inv]]
  show ?thesis
    using assms nth ingress_ready_setup [OF _ assms(2) inv assms(3)]
    by (auto simp: runtime_ready_def Let_def)
qed

text \<open>What the transport owes for a received buffer: live bytes outside the shell's buffers.\<close>

definition buffer_ok :: "'w rt_state \<Rightarrow> nat \<Rightarrow> addr \<times> u32 \<Rightarrow> bool" where
  "buffer_ok st i b \<longleftrightarrow>
     (case b of (data, len) \<Rightarrow>
        len = 0 \<or>
        data \<noteq> NULL \<and> len \<le> rt_ingress_capacity (rt_of st i) \<and>
        ranges_disjoint data (unat len) (rt_ingress_buffer (rt_of st i)) (unat (rt_ingress_capacity (rt_of st i))) \<and>
        (\<forall>k<4. ranges_disjoint data (unat len) (message_buffer (conn_streams (conn_of st) ! k)) 65535))"

definition buffer_bytes :: "mem \<Rightarrow> addr \<times> u32 \<Rightarrow> u8 list" where
  "buffer_bytes m b = mem_bytes m (fst b) (unat (snd b))"

text \<open>One buffer: it is copied, queued and dispatched, and the call succeeds unless the bytes are a protocol error.\<close>

lemma copy_dispatch_phase:
  assumes rr: "runtime_ready bld st i" and open': "\<not> rt_received_fin (rt_of st i)"
    and got: "stream_got bs (conn_of st) (rt_stream_id (rt_of st i)) (sh_mem st)"
    and b: "buffer_ok st i (data, len)" "len \<noteq> 0"
    and run: "ism_msquic_runtime_copy_enqueue_and_dispatch bld (Some i) data len st = (ok, st')"
  shows "ok \<longleftrightarrow> doq_phase (bs @ buffer_bytes (sh_mem st) (data, len)) \<noteq> Done" and "runtime_ready bld st' i" and "same_setup st st'" and "sh_ctx st' = sh_ctx st"
    and "stream_got (bs @ buffer_bytes (sh_mem st) (data, len)) (conn_of st') (rt_stream_id (rt_of st i)) (sh_mem st')"
    and "\<And>b'. buffer_ok st i b' \<Longrightarrow> buffer_bytes (sh_mem st') b' = buffer_bytes (sh_mem st) b'"
    and "sh_adapter st' = (sh_adapter st)\<lparr>ad_connection := conn_of st'\<rparr>"
    and "abs_table (conn_of st') (rt_stream_id (rt_of st i)) \<noteq> None"
proof -
  let ?r = "rt_of st i"
  let ?ib = "rt_ingress_buffer ?r" and ?chunk = "buffer_bytes (sh_mem st) (data, len)"
  have inv: "adapter_inv bld st" and q: "queue_inv (sh_queue st)" "queue_items (sh_queue st) = []"
    and r: "rt_adapter ?r = Obj" "rt_queue ?r = Obj" "?ib \<noteq> NULL"
    and sep: "\<forall>k<4. ranges_disjoint (message_buffer (conn_streams (conn_of st) ! k)) 65535 ?ib (unat (rt_ingress_capacity ?r))"
    and ing: "\<forall>len\<le>rt_ingress_capacity ?r. ingress_ready bld (conn_of st) ?ib len"
    using rr by (simp_all add: runtime_ready_def Let_def)
  note D = adapter_invD [OF inv]
  have bok: "data \<noteq> NULL" "len \<le> rt_ingress_capacity ?r" using b by (simp_all add: buffer_ok_def)
  have n: "unat len \<le> unat (rt_ingress_capacity ?r)" using bok(2) by (simp add: word_le_nat_alt)
  define m1 where "m1 = mem_copy (sh_mem st) ?ib data (unat len)"
  have fr1: "mem_frame ?ib (unat (rt_ingress_capacity ?r)) (sh_mem st) m1"
    unfolding m1_def using n by (intro mem_frame_copy) auto
  let ?e = "bytes_event (rt_stream_id ?r) ?ib len"
  obtain ok1 q1 where enq: "ism_shell_event_queue_enqueue (Some (sh_queue st)) ?e = (ok1, q1)" by fastforce
  have q0: "queue_inv (sh_queue (st\<lparr>sh_mem := m1\<rparr>))" "queue_items (sh_queue (st\<lparr>sh_mem := m1\<rparr>)) = []"
    using q by simp_all
  have enq0: "ism_shell_event_queue_enqueue (Some (sh_queue (st\<lparr>sh_mem := m1\<rparr>))) ?e = (ok1, q1)"
    using enq by simp
  obtain q2 where ok1: ok1 and q2: "queue_inv q2" "queue_items q2 = []"
    and disp: "ism_shell_event_queue_dispatch_one bld Obj Obj (put_queue q1 (st\<lparr>sh_mem := m1\<rparr>))
      = dispatch_event bld Obj ?e (st\<lparr>sh_mem := m1, sh_queue := q2\<rparr>)"
    using enqueue_dispatch(1) [OF q0 enq0] enqueue_dispatch(2) [OF q0 enq0, of bld] by auto
  have "q_count (sh_queue st) = 0"
    using q(2) by (metis length_queue_items list.size(3) unat_eq_0)
  then have run': "dispatch_event bld Obj ?e (st\<lparr>sh_mem := m1, sh_queue := q2\<rparr>) = (ok, st')"
    using run r bok bok(2) [folded not_less] open' ok1 enq disp
    by (simp add: ism_msquic_runtime_copy_enqueue_and_dispatch_def Let_def queue_at_def
        ism_shell_event_queue_len_def ism_shell_event_queue_enqueue_authenticated_stream_bytes_def
        m1_def [symmetric])
  have ready: "ingress_ready bld (conn_of st) ?ib len" using ing bok(2) by simp
  obtain code conn m2 where i: "ingress_data (conn_of st) (rt_stream_id ?r) ?ib len m1 = (code, conn, m2)"
    by (metis prod_cases3)
  have got1: "stream_got bs (conn_of st) (rt_stream_id ?r) m1"
    using stream_got_frame [OF D(2) got fr1 sep] .
  have chunk: "mem_bytes m1 ?ib (length ?chunk) = ?chunk"
    by (simp add: m1_def buffer_bytes_def)
  note g = ingress_data_phase [OF D(2) got1 _ chunk i, unfolded buffer_bytes_def, simplified, folded buffer_bytes_def]
  have st': "ok \<longleftrightarrow> code \<noteq> 3" "st' = set_conn conn (st\<lparr>sh_mem := m2, sh_queue := q2\<rparr>)"
    using run' i g(3)
    by (auto simp: dispatch_event_def bytes_event_def shell_data_eq(2) [OF ready] Let_def)
  show "ok \<longleftrightarrow> doq_phase (bs @ ?chunk) \<noteq> Done" using st'(1) g(2) by (simp add: buffer_bytes_def)
  have ev: "event_ready bld (st\<lparr>sh_mem := m1, sh_queue := q2\<rparr>) ?e"
    using ready by (simp add: event_ready_def bytes_event_def)
  have inv1: "adapter_inv bld (st\<lparr>sh_mem := m1, sh_queue := q2\<rparr>)"
    using inv by (simp add: adapter_inv_def buffers_separate_def)
  note di = dispatch_event_inv [OF inv1 ev run']
  show setup1: "same_setup st st'" using di(2) by (simp add: same_setup_def)
  show ctx: "sh_ctx st' = sh_ctx st" by (simp add: st')
  show "runtime_ready bld st' i"
    using runtime_ready_setup [OF rr setup1 di(1)] q2 by (simp add: st'(2))
  show "stream_got (bs @ ?chunk) (conn_of st') (rt_stream_id ?r) (sh_mem st')"
    and "abs_table (conn_of st') (rt_stream_id ?r) \<noteq> None"
    using g(1,4) by (simp_all add: st'(2) buffer_bytes_def)
  show "sh_adapter st' = (sh_adapter st)\<lparr>ad_connection := conn_of st'\<rparr>"
    by (simp add: st'(2) set_conn_def)
  obtain p where p: "p < 4" "mem_frame (message_buffer (conn_streams (conn_of st) ! p)) 65535 m1 m2"
    using ingress_data_frame [OF D(2) i] by blast
  show "buffer_bytes (sh_mem st') b' = buffer_bytes (sh_mem st) b'" if "buffer_ok st i b'" for b'
  proof (cases "snd b' = 0")
    case True
    then show ?thesis by (simp add: buffer_bytes_def)
  next
    case False
    with that p(1) have "ranges_disjoint (fst b') (unat (snd b')) ?ib (unat (rt_ingress_capacity ?r))"
      "ranges_disjoint (fst b') (unat (snd b')) (message_buffer (conn_streams (conn_of st) ! p)) 65535"
      by (auto simp: buffer_ok_def split: prod.splits)
    from mem_bytes_frame [OF fr1 this(1)] mem_bytes_frame [OF p(2) this(2)] show ?thesis
      by (simp add: buffer_bytes_def st'(2))
  qed
qed

lemma buffer_ok_setup:
  assumes "same_setup st st'" and "length (conn_streams (conn_of st)) = 4" and "sh_ctx st' = sh_ctx st"
  shows "buffer_ok st' i b = buffer_ok st i b"
proof -
  have "conn_layout (conn_of st) = conn_layout (conn_of st')" using assms(1) by (simp add: same_setup_def)
  from layout_nth(1) [OF this, unfolded assms(2)] show ?thesis
    by (auto simp: buffer_ok_def assms(3))
qed

text \<open>Any number of buffers in any sizes: the call succeeds unless the bytes are a protocol error, and then the
  stream has received their concatenation. Either way only the connection and the buffers of the shell change.\<close>

definition received_buffers ::
  "build \<Rightarrow> nat \<Rightarrow> u8 list \<Rightarrow> u8 list \<Rightarrow> 'w rt_state \<Rightarrow> bool \<Rightarrow> 'w rt_state \<Rightarrow> bool" where
  "received_buffers bld i bs chunk st ok st' \<longleftrightarrow>
     (ok \<longleftrightarrow> doq_phase (bs @ chunk) \<noteq> Done) \<and> runtime_ready bld st' i \<and> same_setup st st' \<and> sh_ctx st' = sh_ctx st \<and>
     (ok \<longrightarrow> stream_got (bs @ chunk) (conn_of st') (rt_stream_id (rt_of st i)) (sh_mem st')) \<and>
     (\<exists>conn. sh_adapter st' = (sh_adapter st)\<lparr>ad_connection := conn\<rparr>) \<and>
     (\<forall>b. buffer_ok st i b \<longrightarrow> buffer_bytes (sh_mem st') b = buffer_bytes (sh_mem st) b)"

theorem receive_buffers_phase:
  assumes "runtime_ready bld st i" and "\<not> rt_received_fin (rt_of st i)"
    and "stream_got bs (conn_of st) (rt_stream_id (rt_of st i)) (sh_mem st)"
    and "list_all (buffer_ok st i) bufs" and "doq_phase bs \<noteq> Done"
    and "receive_buffers bld (Some i) bufs st = (ok, st')"
  shows "received_buffers bld i bs (concat (map (buffer_bytes (sh_mem st)) bufs)) st ok st'"
  using assms
proof (induction bufs arbitrary: st bs)
  case Nil
  moreover have "\<exists>conn. sh_adapter s = (sh_adapter s)\<lparr>ad_connection := conn\<rparr>" for s :: "'a rt_state"
    by (rule exI [of _ "conn_of s"]) simp
  ultimately show ?case by (auto simp: received_buffers_def)
next
  case (Cons b bufs)
  obtain data len where b: "b = (data, len)" by fastforce
  let ?chunk = "buffer_bytes (sh_mem st) (data, len)" and ?rest = "concat (map (buffer_bytes (sh_mem st)) bufs)"
  show ?case
  proof (cases "len = 0")
    case True
    then have "?chunk = []" by (simp add: buffer_bytes_def)
    with Cons.IH [OF Cons.prems(1-3)] Cons.prems(4-6) True b show ?thesis by simp
  next
    case False
    obtain ok1 st1 where c: "ism_msquic_runtime_copy_enqueue_and_dispatch bld (Some i) data len st = (ok1, st1)"
      by fastforce
    have bok: "buffer_ok st i (data, len)" using Cons.prems(4) b by simp
    note s = copy_dispatch_phase [OF Cons.prems(1,2,3) bok False c]
    have inv: "adapter_inv bld st" using Cons.prems(1) by (simp add: runtime_ready_def)
    note bs' = buffer_ok_setup [OF s(3) adapter_invD(4) [OF inv] s(4)]
    have data: "data \<noteq> NULL" using bok False by (simp add: buffer_ok_def)
    show ?thesis
    proof (cases "doq_phase (bs @ ?chunk) = Done")
      case True
      then have "\<not> ok" "st' = st1" using Cons.prems(6) b False data c s(1) by simp_all
      moreover have "doq_phase (bs @ ?chunk @ ?rest) = Done" using doq_phase_prefix_Done [OF True, of ?rest] by simp
      ultimately show ?thesis using s(2-4,6,7) b by (auto simp: received_buffers_def)
    next
      case fits: False
      have same: "map (buffer_bytes (sh_mem st1)) bufs = map (buffer_bytes (sh_mem st)) bufs"
        using s(6) Cons.prems(4) by (auto simp: list_all_iff)
      have "receive_buffers bld (Some i) bufs st1 = (ok, st')"
        using Cons.prems(6) b False data c s(1) fits by simp
      moreover have "list_all (buffer_ok st1 i) bufs" using Cons.prems(4) bs' by (simp add: list_all_iff)
      moreover have "\<not> rt_received_fin (rt_of st1 i)"
        and "stream_got (bs @ ?chunk) (conn_of st1) (rt_stream_id (rt_of st1 i)) (sh_mem st1)"
        using Cons.prems(2) s(4,5) by simp_all
      ultimately have R: "received_buffers bld i (bs @ ?chunk) ?rest st1 ok st'"
        unfolding same [symmetric] using s(2) fits by (intro Cons.IH)
      moreover have "buffer_bytes (sh_mem st') b' = buffer_bytes (sh_mem st) b'" if "buffer_ok st i b'" for b'
        using R s(6) [OF that] that bs' by (simp add: received_buffers_def del: split_paired_All)
      moreover have "same_setup st st'" using R same_setup_trans [OF s(3)] by (simp add: received_buffers_def)
      moreover have "\<exists>conn. sh_adapter st' = (sh_adapter st)\<lparr>ad_connection := conn\<rparr>"
      proof -
        obtain conn where "sh_adapter st' = (sh_adapter st1)\<lparr>ad_connection := conn\<rparr>" using R by (auto simp: received_buffers_def)
        moreover have "(sh_adapter st1)\<lparr>ad_connection := conn\<rparr> = (sh_adapter st)\<lparr>ad_connection := conn\<rparr>"
          by (subst s(7)) simp
        ultimately show ?thesis by (intro exI [of _ conn]) simp
      qed
      ultimately show ?thesis using s(4) b by (simp add: received_buffers_def del: split_paired_All)
    qed
  qed
qed

theorem receive_buffers_got:
  assumes "runtime_ready bld st i" and "\<not> rt_received_fin (rt_of st i)"
    and "stream_got bs (conn_of st) (rt_stream_id (rt_of st i)) (sh_mem st)"
    and "list_all (buffer_ok st i) bufs"
    and fits: "doq_phase (bs @ concat (map (buffer_bytes (sh_mem st)) bufs)) \<noteq> Done"
    and "receive_buffers bld (Some i) bufs st = (ok, st')"
  shows "ok \<and> runtime_ready bld st' i \<and> same_setup st st' \<and> sh_ctx st' = sh_ctx st
    \<and> stream_got (bs @ concat (map (buffer_bytes (sh_mem st)) bufs)) (conn_of st') (rt_stream_id (rt_of st i)) (sh_mem st')
    \<and> sh_adapter st' = (sh_adapter st)\<lparr>ad_connection := conn_of st'\<rparr>"
proof -
  have "doq_phase bs \<noteq> Done" using fits doq_phase_prefix_Done by blast
  from receive_buffers_phase [OF assms(1-4) this assms(6)] fits show ?thesis by (auto simp: received_buffers_def)
qed

section \<open>FIN\<close>

lemma dispatch_fin_answers:
  assumes rr: "runtime_ready bld st i" and open': "\<not> rt_received_fin (rt_of st i)"
    and val: "question_validator (check_question bld)"
    and free: "\<not> ad_send_in_flight (sh_adapter st)" and f: "ad_send (sh_adapter st) = Some f"
    and bufs: "ad_response_buffer (sh_adapter st) \<noteq> NULL" "ad_send_buffer (sh_adapter st) \<noteq> NULL"
    and got: "stream_got bs (conn_of st) (rt_stream_id (rt_of st i)) (sh_mem st)"
    and full: "doq_phase bs = AwaitingFin n" and id: "bs ! 2 = 0" "bs ! 3 = 0"
    and r: "minimal_response (drop 2 bs) (unat (ad_response_capacity (sh_adapter st))) = Some r"
    and fits: "length r + 2 \<le> unat (ad_send_capacity (sh_adapter st))"
    and run: "ism_msquic_runtime_on_fin bld (Some i) st = (ok, st')"
  shows "ok" and "mem_bytes (sh_mem st') (ad_send_buffer (sh_adapter st)) (length r + 2) = doq_frame r"
    and "\<exists>tr. f (rt_stream_id (rt_of st i)) (ad_send_buffer (sh_adapter st)) (of_nat (length r + 2)) True
        (sh_mem st') (sh_ctx st) = (ad_send_in_flight (sh_adapter st'), tr) \<and>
      sh_ctx st' = upd_stream i (\<lambda>r. r\<lparr>rt_received_fin := True\<rparr>) tr"
    and "if ad_send_in_flight (sh_adapter st')
      then ad_send_stream_id (sh_adapter st') = rt_stream_id (rt_of st i)
        \<and> ad_send_len (sh_adapter st') = of_nat (length r + 2)
      else abs_table (conn_of st') (rt_stream_id (rt_of st i)) = None"
proof -
  let ?r = "rt_of st i" and ?sid = "rt_stream_id (rt_of st i)"
  have inv: "adapter_inv bld st" and q: "queue_inv (sh_queue st)" "queue_items (sh_queue st) = []"
    and rp: "rt_adapter ?r = Obj" "rt_queue ?r = Obj"
    and ready: "ingress_ready bld (conn_of st) (rt_ingress_buffer ?r) 0"
    using rr by (simp_all add: runtime_ready_def Let_def)
  have ready: "ingress_ready bld (conn_of st) NULL 0" using ready by (simp add: ingress_ready_def)
  have "bs \<noteq> []" using full by auto
  then obtain c where c: "abs_table (conn_of st) ?sid = Some c" "stream_holds bs c (sh_mem st)"
    using got by (auto simp: stream_got_def split: option.splits)
  obtain ok1 q1 where enq: "ism_shell_event_queue_enqueue (Some (sh_queue st)) (fin_event ?sid) = (ok1, q1)" by fastforce
  obtain q2 where ok1: ok1 and disp: "ism_shell_event_queue_dispatch_one bld Obj Obj (put_queue q1 st)
      = dispatch_event bld Obj (fin_event ?sid) (st\<lparr>sh_queue := q2\<rparr>)"
    using enqueue_dispatch(1) [OF q enq] enqueue_dispatch(2) [OF q enq, of bld] by auto
  obtain code st2 where fin: "ism_msquic_adapter_on_authenticated_stream_fin bld Obj ?sid (st\<lparr>sh_queue := q2\<rparr>) = (code, st2)"
    by fastforce
  note a = fin_answers [of bld "st\<lparr>sh_queue := q2\<rparr>" NULL f ?sid c bs n r, simplified, OF inv val ready free f _ _ c full id r _ fin]
  have "q_count (sh_queue st) = 0"
    using q(2) by (metis length_queue_items list.size(3) unat_eq_0)
  then have "(ok, st') = (True, upd_rt i (\<lambda>r. r\<lparr>rt_received_fin := True\<rparr>) st2)"
    using run rp open' enq ok1 disp fin a(1) bufs fits
    by (simp add: ism_msquic_runtime_on_fin_def Let_def queue_at_def ism_shell_event_queue_len_def
        ism_shell_event_queue_enqueue_authenticated_stream_fin_def dispatch_event_def fin_event_def)
  then have st': ok "st' = upd_rt i (\<lambda>r. r\<lparr>rt_received_fin := True\<rparr>) st2" by simp_all
  show ok by (rule st')
  show "mem_bytes (sh_mem st') (ad_send_buffer (sh_adapter st)) (length r + 2) = doq_frame r"
    using a(2) bufs fits by (simp add: st'(2) upd_rt_def)
  show "\<exists>tr. f ?sid (ad_send_buffer (sh_adapter st)) (of_nat (length r + 2)) True
        (sh_mem st') (sh_ctx st) = (ad_send_in_flight (sh_adapter st'), tr) \<and>
      sh_ctx st' = upd_stream i (\<lambda>r. r\<lparr>rt_received_fin := True\<rparr>) tr"
    using a(3) bufs fits by (simp add: st'(2) upd_rt_def)
  show "if ad_send_in_flight (sh_adapter st')
      then ad_send_stream_id (sh_adapter st') = ?sid \<and> ad_send_len (sh_adapter st') = of_nat (length r + 2)
      else abs_table (conn_of st') ?sid = None"
    using a(4) bufs fits by (auto simp: st'(2) upd_rt_def)
qed

text \<open>FIN is handled once: MsQuic may report it twice.\<close>

lemma fin_again:
  assumes "rt_adapter (rt_of st i) = Obj" "rt_queue (rt_of st i) = Obj" "rt_received_fin (rt_of st i)"
  shows "ism_msquic_runtime_on_fin bld (Some i) st = (True, st)"
  using assms by (simp add: ism_msquic_runtime_on_fin_def Let_def)

text \<open>Bytes after FIN are refused before anything is copied.\<close>

lemma receive_after_fin:
  assumes "rt_received_fin (rt_of st i)" and "find (\<lambda>b. snd b \<noteq> 0) bufs \<noteq> None"
  shows "receive_buffers bld (Some i) bufs st = (False, st)"
  using assms(2)
proof (induction bufs)
  case (Cons b bufs)
  obtain data len where b: "b = (data, len)" by fastforce
  show ?case
  proof (cases "len = 0")
    case True
    with Cons b show ?thesis by simp
  next
    case False
    then have "0 < len" by (simp add: word_gt_0)
    with assms(1) False b show ?thesis
      by (simp add: ism_msquic_runtime_copy_enqueue_and_dispatch_def Let_def)
  qed
qed simp

text \<open>The fatal protocol error closes the connection with application code 2 and leaves
  everything of the shell as it is.\<close>

definition doq_shutdown :: "nat \<Rightarrow> 'w rt_state \<Rightarrow> 'w rt_state" where
  "doq_shutdown i st =
     (case rt_api (rt_of st i) of
        Some api \<Rightarrow>
          (case ConnectionShutdown api of
             Some shutdown \<Rightarrow>
               if rt_connection (rt_of st i) \<noteq> 0 then upd_world (shutdown (rt_connection (rt_of st i)) 2) st else st
           | None \<Rightarrow> st)
      | None \<Rightarrow> st)"

lemma protocol_error_eq: "ism_msquic_runtime_protocol_error i st = (QUIC_STATUS_INVALID_STATE, doq_shutdown i st)"
  by (simp add: ism_msquic_runtime_protocol_error_def doq_shutdown_def Let_def split: option.splits)

section \<open>The callback\<close>

lemma receive_callback_answers:
  assumes rr: "runtime_ready bld st i" and open': "\<not> rt_received_fin (rt_of st i)"
    and val: "question_validator (check_question bld)"
    and free: "\<not> ad_send_in_flight (sh_adapter st)" and f: "ad_send (sh_adapter st) = Some f"
    and bufs: "ad_response_buffer (sh_adapter st) \<noteq> NULL" "ad_send_buffer (sh_adapter st) \<noteq> NULL"
    and got: "stream_got bs (conn_of st) (rt_stream_id (rt_of st i)) (sh_mem st)"
    and ok: "list_all (buffer_ok st i) buffers" and count: "length buffers < 4294967296"
    and q: "q = bs @ concat (map (buffer_bytes (sh_mem st)) buffers)"
    and full: "doq_phase q = AwaitingFin n" and id: "q ! 2 = 0" "q ! 3 = 0"
    and r: "minimal_response (drop 2 q) (unat (ad_response_capacity (sh_adapter st))) = Some r"
    and fits: "length r + 2 \<le> unat (ad_send_capacity (sh_adapter st))"
    and run: "ism_msquic_runtime_stream_callback bld (Some i)
      (Some (QUIC_STREAM_EVENT_RECEIVE (Some buffers) (of_nat (length buffers)) True)) st = (status, st')"
  shows "status = QUIC_STATUS_SUCCESS"
    and "mem_bytes (sh_mem st') (ad_send_buffer (sh_adapter st)) (length r + 2) = doq_frame r"
    and "\<exists>tr. f (rt_stream_id (rt_of st i)) (ad_send_buffer (sh_adapter st)) (of_nat (length r + 2)) True
        (sh_mem st') (sh_ctx st) = (ad_send_in_flight (sh_adapter st'), tr) \<and>
      sh_ctx st' = upd_stream i (\<lambda>r. r\<lparr>rt_received_fin := True\<rparr>) tr"
proof -
  let ?sid = "rt_stream_id (rt_of st i)"
  obtain ok1 st1 where rb: "receive_buffers bld (Some i) buffers st = (ok1, st1)" by fastforce
  have "doq_phase (bs @ concat (map (buffer_bytes (sh_mem st)) buffers)) \<noteq> Done"
    using full q by simp
  note g = receive_buffers_got [OF rr open' got ok this rb, folded q]
  obtain ok2 st2 where fin: "ism_msquic_runtime_on_fin bld (Some i) st1 = (ok2, st2)" by fastforce
  obtain cn where cn: "sh_adapter st1 = (sh_adapter st)\<lparr>ad_connection := cn\<rparr>" using g by blast
  have ad: "ad_send (sh_adapter st1) = ad_send (sh_adapter st)"
    "ad_send_in_flight (sh_adapter st1) = ad_send_in_flight (sh_adapter st)"
    "ad_response_buffer (sh_adapter st1) = ad_response_buffer (sh_adapter st)"
    "ad_response_capacity (sh_adapter st1) = ad_response_capacity (sh_adapter st)"
    "ad_send_buffer (sh_adapter st1) = ad_send_buffer (sh_adapter st)"
    "ad_send_capacity (sh_adapter st1) = ad_send_capacity (sh_adapter st)"
    "sh_ctx st1 = sh_ctx st"
    using g by (simp_all add: cn)
  note a = dispatch_fin_answers [where st = st1, OF _ _ val _ _ _ _ _ full id _ _ fin, unfolded ad,
      OF _ open' free f bufs _ r fits]
  have buffers: "map (\<lambda>k. buffers ! k) [0..<length buffers] = buffers" by (simp add: map_nth)
  have "(status, st') = (QUIC_STATUS_SUCCESS, st2)"
    using run rb fin g a(1) count buffers
    by (simp add: ism_msquic_runtime_stream_callback_def ism_msquic_runtime_on_msquic_receive_def Let_def)
  then show "status = QUIC_STATUS_SUCCESS"
    and "mem_bytes (sh_mem st') (ad_send_buffer (sh_adapter st)) (length r + 2) = doq_frame r"
    and "\<exists>tr. f ?sid (ad_send_buffer (sh_adapter st)) (of_nat (length r + 2)) True
        (sh_mem st') (sh_ctx st) = (ad_send_in_flight (sh_adapter st'), tr) \<and>
      sh_ctx st' = upd_stream i (\<lambda>r. r\<lparr>rt_received_fin := True\<rparr>) tr"
    using a(2,3) g by auto
qed

end
