(* ===== verification/Conn_Runtime.thy ===== *)
theory Conn_Runtime
  imports Runtime
begin

text \<open>
  The connection runtime of \<^verbatim>\<open>src/shell/msquic_connection_runtime.c\<close>: the listener and connection
  callbacks, the fixed array of stream slots, and the send function that routes a response
  to the slot of its stream. Slot \<open>i\<close> is entry \<open>i\<close> of \<open>tr_slots\<close>, its embedded
  runtime stream entry \<open>i\<close> of \<open>tr_streams\<close>.
\<close>

section \<open>State\<close>

text \<open>No function after initialisation writes the fields of the connection runtime, so it is an
  argument; \<open>None\<close> is \<open>NULL\<close>.\<close>

record 'w ism_msquic_connection_runtime =
  cr_api :: "'w quic_api option"
  cr_configuration :: hquic
  cr_adapter :: obj_ptr
  cr_queue :: obj_ptr
  cr_stream_slots :: obj_ptr
  cr_stream_slot_count :: u32

datatype quic_listener_event =
    QUIC_LISTENER_EVENT_NEW_CONNECTION hquic
  | QUIC_LISTENER_EVENT_OTHER

datatype quic_connection_event =
    QUIC_CONNECTION_EVENT_PEER_STREAM_STARTED hquic
  | QUIC_CONNECTION_EVENT_SHUTDOWN_COMPLETE
  | QUIC_CONNECTION_EVENT_OTHER

definition slot_at :: "'w rt_state \<Rightarrow> nat \<Rightarrow> 'w ism_msquic_connection_stream_slot" where
  "slot_at st i = tr_slots (sh_ctx st) ! i"

definition upd_slot ::
  "nat \<Rightarrow> ('w ism_msquic_connection_stream_slot \<Rightarrow> 'w ism_msquic_connection_stream_slot)
     \<Rightarrow> 'w rt_state \<Rightarrow> 'w rt_state" where
  "upd_slot i f st =
     st\<lparr>sh_ctx := (sh_ctx st)\<lparr>tr_slots := (tr_slots (sh_ctx st))[i := f (tr_slots (sh_ctx st) ! i)]\<rparr>\<rparr>"

section \<open>Initialisation\<close>

text \<open>\<^verbatim>\<open>memset\<close> clears the whole slot, its runtime stream included.\<close>

definition ism_msquic_connection_stream_slot_init ::
  "rt_ptr \<Rightarrow> addr \<Rightarrow> u32 \<Rightarrow> 'w rt_state \<Rightarrow> 'w rt_state" where
  "ism_msquic_connection_stream_slot_init slot ingress_buffer ingress_capacity st =
     (case slot of
        None \<Rightarrow> st
      | Some i \<Rightarrow>
          upd_slot i (\<lambda>_. \<lparr>sl_api = None, sl_ingress_buffer = ingress_buffer,
              sl_ingress_capacity = ingress_capacity, sl_stream = 0, sl_in_use = False\<rparr>)
            (upd_rt i (\<lambda>_. init_stream Null Null 0 NULL 0) st))"

definition ism_msquic_connection_runtime_init ::
  "'w ism_msquic_connection_runtime option \<Rightarrow> 'w quic_api option \<Rightarrow> hquic \<Rightarrow> obj_ptr \<Rightarrow> obj_ptr
     \<Rightarrow> obj_ptr \<Rightarrow> u32 \<Rightarrow> 'w ism_msquic_connection_runtime option" where
  "ism_msquic_connection_runtime_init runtime api configuration adapter queue stream_slots
       stream_slot_count =
     (case runtime of
        None \<Rightarrow> None
      | Some r \<Rightarrow> Some (r\<lparr>cr_api := api, cr_configuration := configuration, cr_adapter := adapter,
          cr_queue := queue, cr_stream_slots := stream_slots, cr_stream_slot_count := stream_slot_count\<rparr>))"

section \<open>Sending\<close>

definition ism_msquic_connection_runtime_send ::
  "'w ism_msquic_connection_runtime option \<Rightarrow> 'w transport ism_msquic_send_fn" where
  "ism_msquic_connection_runtime_send runtime stream_id data len fin m tr =
     (case runtime of
        None \<Rightarrow> (False, tr)
      | Some cr \<Rightarrow>
          if cr_stream_slots cr = Null then (False, tr)
          else
            (case find (\<lambda>i. sl_in_use (tr_slots tr ! i) \<and> rt_stream_id (stream_of tr i) = stream_id)
                    [0..<unat (cr_stream_slot_count cr)] of
               Some i \<Rightarrow> ism_msquic_runtime_send (Some i) stream_id data len fin m tr
             | None \<Rightarrow> (False, tr)))"

section \<open>Slots\<close>

definition ism_msquic_connection_runtime_release_slot :: "rt_ptr \<Rightarrow> 'w rt_state \<Rightarrow> 'w rt_state" where
  "ism_msquic_connection_runtime_release_slot slot st =
     (case slot of
        None \<Rightarrow> st
      | Some i \<Rightarrow>
          let s = slot_at st i;
              st1 = (case sl_api s of
                       Some api \<Rightarrow> if sl_stream s \<noteq> 0 then upd_world (StreamClose api (sl_stream s)) st else st
                     | None \<Rightarrow> st);
              st2 = upd_slot i (\<lambda>s. s\<lparr>sl_api := None, sl_stream := 0, sl_in_use := False\<rparr>) st1 in
          ism_msquic_runtime_stream_init (Some i) Null Null 0 (sl_ingress_buffer s) (sl_ingress_capacity s) st2)"

definition ism_msquic_connection_runtime_allocate_slot ::
  "'w ism_msquic_connection_runtime option \<Rightarrow> hquic \<Rightarrow> 'w rt_state \<Rightarrow> rt_ptr \<times> 'w rt_state" where
  "ism_msquic_connection_runtime_allocate_slot runtime stream st =
     (case runtime of
        None \<Rightarrow> (None, st)
      | Some cr \<Rightarrow>
          (case cr_api cr of
             None \<Rightarrow> (None, st)
           | Some api \<Rightarrow>
               if stream = 0 then (None, st)
               else
                 let (status, stream_id_len, msquic_stream_id, w) = GetParam api stream (tr_world (sh_ctx st));
                     st1 = upd_world (\<lambda>_. w) st in
                 if tr_failed (sh_ctx st) status \<or> stream_id_len \<noteq> 8 then (None, st1)
                 else
                   (case find (\<lambda>i. \<not> sl_in_use (slot_at st1 i) \<and> sl_ingress_buffer (slot_at st1 i) \<noteq> NULL
                              \<and> sl_ingress_capacity (slot_at st1 i) > 0)
                           [0..<unat (cr_stream_slot_count cr)] of
                      None \<Rightarrow> (None, st1)
                    | Some i \<Rightarrow>
                        let s = slot_at st1 i;
                            st2 = ism_msquic_runtime_stream_init (Some i) (cr_adapter cr) (cr_queue cr)
                                    msquic_stream_id (sl_ingress_buffer s) (sl_ingress_capacity s) st1;
                            st3 = ism_msquic_runtime_bind_msquic_stream (Some i) (Some api) stream st2 in
                        (Some i, upd_slot i (\<lambda>s. s\<lparr>sl_api := Some api, sl_stream := stream,
                                   sl_in_use := True\<rparr>) st3))))"

section \<open>Callbacks\<close>

definition ism_msquic_connection_runtime_stream_callback ::
  "build \<Rightarrow> rt_ptr \<Rightarrow> quic_stream_event option \<Rightarrow> 'w rt_state \<Rightarrow> quic_status \<times> 'w rt_state" where
  "ism_msquic_connection_runtime_stream_callback bld slot event st =
     (if slot = None \<or> event = None then (QUIC_STATUS_INVALID_PARAMETER, st)
      else
        let (status, st1) = ism_msquic_runtime_stream_callback bld slot event st in
        if \<not> tr_failed (sh_ctx st1) status \<and> event = Some QUIC_STREAM_EVENT_SHUTDOWN_COMPLETE
        then (status, ism_msquic_connection_runtime_release_slot slot st1)
        else (status, st1))"

definition ism_msquic_connection_runtime_accept_connection ::
  "'w ism_msquic_connection_runtime option \<Rightarrow> hquic \<Rightarrow> 'w rt_state \<Rightarrow> quic_status \<times> 'w rt_state" where
  "ism_msquic_connection_runtime_accept_connection runtime connection st =
     (case runtime of
        None \<Rightarrow> (QUIC_STATUS_INVALID_PARAMETER, st)
      | Some cr \<Rightarrow>
          (case cr_api cr of
             None \<Rightarrow> (QUIC_STATUS_INVALID_PARAMETER, st)
           | Some api \<Rightarrow>
               if cr_configuration cr = 0 \<or> connection = 0 then (QUIC_STATUS_INVALID_PARAMETER, st)
               else
                 let st1 = upd_world (SetCallbackHandler api connection ConnectionCallback) st;
                     (status, w) = ConnectionSetConfiguration api connection (cr_configuration cr)
                       (tr_world (sh_ctx st1)) in
                 (status, upd_world (\<lambda>_. w) st1)))"

definition ism_msquic_connection_runtime_listener_callback ::
  "'w ism_msquic_connection_runtime option \<Rightarrow> quic_listener_event option \<Rightarrow> 'w rt_state
     \<Rightarrow> quic_status \<times> 'w rt_state" where
  "ism_msquic_connection_runtime_listener_callback runtime event st =
     (case (runtime, event) of
        (Some cr, Some ev) \<Rightarrow>
          (case cr_api cr of
             None \<Rightarrow> (QUIC_STATUS_INVALID_PARAMETER, st)
           | Some _ \<Rightarrow>
               (case ev of
                  QUIC_LISTENER_EVENT_NEW_CONNECTION connection \<Rightarrow>
                    ism_msquic_connection_runtime_accept_connection runtime connection st
                | QUIC_LISTENER_EVENT_OTHER \<Rightarrow> (QUIC_STATUS_SUCCESS, st)))
      | _ \<Rightarrow> (QUIC_STATUS_INVALID_PARAMETER, st))"

definition ism_msquic_connection_runtime_connection_callback ::
  "'w ism_msquic_connection_runtime option \<Rightarrow> hquic \<Rightarrow> quic_connection_event option \<Rightarrow> 'w rt_state
     \<Rightarrow> quic_status \<times> 'w rt_state" where
  "ism_msquic_connection_runtime_connection_callback runtime connection event st =
     (case (runtime, event) of
        (Some cr, Some ev) \<Rightarrow>
          (case cr_api cr of
             None \<Rightarrow> (QUIC_STATUS_INVALID_PARAMETER, st)
           | Some api \<Rightarrow>
               (case ev of
                  QUIC_CONNECTION_EVENT_PEER_STREAM_STARTED stream \<Rightarrow>
                    let (slot, st1) = ism_msquic_connection_runtime_allocate_slot runtime stream st in
                    (case slot of
                       None \<Rightarrow>
                         (QUIC_STATUS_INVALID_STATE,
                          if stream \<noteq> 0 then upd_world (StreamClose api stream) st1 else st1)
                     | Some i \<Rightarrow>
                         (QUIC_STATUS_SUCCESS,
                          upd_world (SetCallbackHandler api stream (StreamCallback i))
                            (upd_rt i (\<lambda>r. r\<lparr>rt_connection := connection\<rparr>) st1)))
                | QUIC_CONNECTION_EVENT_SHUTDOWN_COMPLETE \<Rightarrow>
                    (QUIC_STATUS_SUCCESS,
                     case ConnectionClose api of
                       Some close \<Rightarrow> if connection \<noteq> 0 then upd_world (close connection) st else st
                     | None \<Rightarrow> st)
                | QUIC_CONNECTION_EVENT_OTHER \<Rightarrow> (QUIC_STATUS_SUCCESS, st)))
      | _ \<Rightarrow> (QUIC_STATUS_INVALID_PARAMETER, st))"

section \<open>Updates of the transport\<close>

lemma upd_rt_simps [simp]:
  "sh_mem (upd_rt i f st) = sh_mem st" "sh_adapter (upd_rt i f st) = sh_adapter st"
  "sh_queue (upd_rt i f st) = sh_queue st" "tr_slots (sh_ctx (upd_rt i f st)) = tr_slots (sh_ctx st)"
  "tr_world (sh_ctx (upd_rt i f st)) = tr_world (sh_ctx st)"
  "tr_failed (sh_ctx (upd_rt i f st)) = tr_failed (sh_ctx st)"
  "length (tr_streams (sh_ctx (upd_rt i f st))) = length (tr_streams (sh_ctx st))"
  by (simp_all add: upd_rt_def upd_stream_def)

lemma upd_world_simps [simp]:
  "sh_mem (upd_world f st) = sh_mem st" "sh_adapter (upd_world f st) = sh_adapter st"
  "sh_queue (upd_world f st) = sh_queue st" "tr_slots (sh_ctx (upd_world f st)) = tr_slots (sh_ctx st)"
  "tr_streams (sh_ctx (upd_world f st)) = tr_streams (sh_ctx st)"
  "tr_world (sh_ctx (upd_world f st)) = f (tr_world (sh_ctx st))"
  "tr_failed (sh_ctx (upd_world f st)) = tr_failed (sh_ctx st)"
  by (simp_all add: upd_world_def)

lemma upd_slot_simps [simp]:
  "sh_mem (upd_slot i f st) = sh_mem st" "sh_adapter (upd_slot i f st) = sh_adapter st"
  "sh_queue (upd_slot i f st) = sh_queue st" "tr_streams (sh_ctx (upd_slot i f st)) = tr_streams (sh_ctx st)"
  "tr_world (sh_ctx (upd_slot i f st)) = tr_world (sh_ctx st)"
  "tr_failed (sh_ctx (upd_slot i f st)) = tr_failed (sh_ctx st)"
  "length (tr_slots (sh_ctx (upd_slot i f st))) = length (tr_slots (sh_ctx st))"
  by (simp_all add: upd_slot_def)

lemma slot_at_simps [simp]:
  "slot_at (upd_rt i f st) k = slot_at st k" "slot_at (upd_world g st) k = slot_at st k"
  "k < length (tr_slots (sh_ctx st)) \<Longrightarrow> slot_at (upd_slot i h st) k = (if k = i then h (slot_at st i) else slot_at st k)"
  by (auto simp: slot_at_def upd_slot_def)

lemma rt_of_simps [simp]:
  "rt_of (upd_slot i h st) k = rt_of st k" "rt_of (upd_world g st) k = rt_of st k"
  "k < length (tr_streams (sh_ctx st)) \<Longrightarrow> rt_of (upd_rt i f st) k = (if k = i then f (rt_of st i) else rt_of st k)"
  by (auto simp: stream_of_def upd_rt_def upd_stream_def)

section \<open>Slots\<close>

text \<open>The slot array of a connection runtime: as many slots and runtime streams as it counts.\<close>

definition slots_ok :: "'w ism_msquic_connection_runtime \<Rightarrow> 'w rt_state \<Rightarrow> bool" where
  "slots_ok cr st \<longleftrightarrow>
     length (tr_slots (sh_ctx st)) = unat (cr_stream_slot_count cr) \<and>
     length (tr_streams (sh_ctx st)) = unat (cr_stream_slot_count cr)"

definition slot_free :: "'w rt_state \<Rightarrow> nat \<Rightarrow> bool" where
  "slot_free st i \<longleftrightarrow> \<not> sl_in_use (slot_at st i) \<and> sl_ingress_buffer (slot_at st i) \<noteq> NULL
     \<and> sl_ingress_capacity (slot_at st i) > 0"

text \<open>Allocation succeeds exactly when MsQuic reports an eight-byte stream ID and a slot is free;
  it takes the first free slot and binds its runtime stream.\<close>

lemma allocate_slot_cases:
  assumes ok: "slots_ok cr st" and api: "cr_api cr = Some api" and h: "stream \<noteq> 0"
    and get: "GetParam api stream (tr_world (sh_ctx st)) = (status, id_len, sid, w)"
    and run: "ism_msquic_connection_runtime_allocate_slot (Some cr) stream st = (p, st')"
  shows "if tr_failed (sh_ctx st) status \<or> id_len \<noteq> 8 \<or> (\<forall>i<unat (cr_stream_slot_count cr). \<not> slot_free st i)
    then p = None \<and> st' = upd_world (\<lambda>_. w) st
    else \<exists>i<unat (cr_stream_slot_count cr). p = Some i \<and> slot_free st i \<and> (\<forall>k<i. \<not> slot_free st k) \<and>
      st' = upd_slot i (\<lambda>s. s\<lparr>sl_api := Some api, sl_stream := stream, sl_in_use := True\<rparr>)
        (upd_rt i (\<lambda>_. (init_stream (cr_adapter cr) (cr_queue cr) sid (sl_ingress_buffer (slot_at st i))
            (sl_ingress_capacity (slot_at st i)))\<lparr>rt_api := Some api, rt_stream := stream\<rparr>)
          (upd_world (\<lambda>_. w) st))"
proof (cases "tr_failed (sh_ctx st) status \<or> id_len \<noteq> 8")
  case True
  with run api h get have "p = None \<and> st' = upd_world (\<lambda>_. w) st"
    by (auto simp: ism_msquic_connection_runtime_allocate_slot_def)
  with True show ?thesis by auto
next
  case False
  let ?n = "unat (cr_stream_slot_count cr)"
  have P: "(\<lambda>i. \<not> sl_in_use (slot_at st i) \<and> 0 < sl_ingress_buffer (slot_at st i)
      \<and> 0 < sl_ingress_capacity (slot_at st i)) = slot_free st"
    by (simp add: slot_free_def fun_eq_iff)
  show ?thesis
  proof (cases "find (slot_free st) [0..<?n]")
    case None
    then have "\<forall>i<?n. \<not> slot_free st i" by (simp add: find_None_iff)
    with None False run api h get show ?thesis
      by (simp add: ism_msquic_connection_runtime_allocate_slot_def P Let_def)
  next
    case (Some i)
    then have i: "i < ?n" "slot_free st i" "\<forall>k<i. \<not> slot_free st k" by (simp_all add: find_upt_Some)
    have twice: "upd_rt i g (upd_rt i (\<lambda>_. r) s) = upd_rt i (\<lambda>_. g r) s" if "i < length (tr_streams (sh_ctx s))" for g r s
      using that by (simp add: upd_rt_def upd_stream_def)
    have "i < length (tr_streams (sh_ctx st))" using i(1) ok by (simp add: slots_ok_def)
    then show ?thesis
      using Some False run api h get i
      by (auto simp: ism_msquic_connection_runtime_allocate_slot_def P ism_msquic_runtime_stream_init_def
          ism_msquic_runtime_bind_msquic_stream_def twice Let_def)
  qed
qed

text \<open>Release closes the MsQuic handle once and leaves the slot free for the next stream.\<close>

lemma release_slot:
  assumes "i < length (tr_slots (sh_ctx st))" and "i < length (tr_streams (sh_ctx st))"
    and "sl_api (slot_at st i) = Some api" and "sl_stream (slot_at st i) \<noteq> 0"
    and run: "ism_msquic_connection_runtime_release_slot (Some i) st = st'"
  shows "tr_world (sh_ctx st') = StreamClose api (sl_stream (slot_at st i)) (tr_world (sh_ctx st))"
    and "slot_at st' i = (slot_at st i)\<lparr>sl_api := None, sl_stream := 0, sl_in_use := False\<rparr>"
    and "rt_of st' i = init_stream Null Null 0 (sl_ingress_buffer (slot_at st i)) (sl_ingress_capacity (slot_at st i))"
    and "k < length (tr_slots (sh_ctx st)) \<Longrightarrow> k \<noteq> i \<Longrightarrow> slot_at st' k = slot_at st k"
    and "k < length (tr_streams (sh_ctx st)) \<Longrightarrow> k \<noteq> i \<Longrightarrow> rt_of st' k = rt_of st k"
    and "sh_adapter st' = sh_adapter st" and "sh_mem st' = sh_mem st" and "sh_queue st' = sh_queue st"
  using assms
  by (auto simp: ism_msquic_connection_runtime_release_slot_def ism_msquic_runtime_stream_init_def Let_def)

section \<open>Completion and reset callbacks\<close>

lemma adapter_inv_ctx [simp]: "adapter_inv bld (st\<lparr>sh_ctx := c\<rparr>) = adapter_inv bld st"
  by (simp add: adapter_inv_def buffers_separate_def)

lemma runtime_readyD:
  assumes "runtime_ready bld st i"
  shows "adapter_inv bld st" "queue_inv (sh_queue st)" "queue_items (sh_queue st) = []"
    "rt_adapter (rt_of st i) = Obj" "rt_queue (rt_of st i) = Obj"
  using assms by (simp_all add: runtime_ready_def Let_def)

text \<open>On an idle queue the two calls are the adapter's handlers.\<close>

lemma runtime_send_complete:
  assumes rr: "runtime_ready bld st i"
  obtains q where "queue_inv q" "queue_items q = []"
    "ism_msquic_runtime_on_send_complete bld (Some i) len dropped st =
      ism_msquic_adapter_on_send_complete bld Obj (rt_stream_id (rt_of st i)) len dropped (st\<lparr>sh_queue := q\<rparr>)"
proof -
  note D = runtime_readyD [OF rr]
  obtain ok q' where en: "ism_shell_event_queue_enqueue (Some (sh_queue st))
      (complete_event (rt_stream_id (rt_of st i)) len dropped) = (ok, q')" by fastforce
  from enqueue_dispatch(1) [OF D(2,3) en] enqueue_dispatch(2) [OF D(2,3) en, of bld] show ?thesis
    using that en D(4,5)
    by (auto simp: ism_msquic_runtime_on_send_complete_def ism_shell_event_queue_enqueue_send_complete_def
        queue_at_def dispatch_event_def complete_event_def)
qed

lemma runtime_stream_reset:
  assumes rr: "runtime_ready bld st i"
  obtains q where "queue_inv q" "queue_items q = []"
    "ism_msquic_runtime_on_stream_reset bld (Some i) st =
      ism_msquic_adapter_on_stream_reset bld Obj (rt_stream_id (rt_of st i)) (st\<lparr>sh_queue := q\<rparr>)"
proof -
  note D = runtime_readyD [OF rr]
  obtain ok q' where en: "ism_shell_event_queue_enqueue (Some (sh_queue st))
      (reset_event (rt_stream_id (rt_of st i))) = (ok, q')" by fastforce
  from enqueue_dispatch(1) [OF D(2,3) en] enqueue_dispatch(2) [OF D(2,3) en, of bld] show ?thesis
    using that en D(4,5)
    by (auto simp: ism_msquic_runtime_on_stream_reset_def ism_shell_event_queue_enqueue_stream_reset_def
        queue_at_def dispatch_event_def reset_event_def)
qed

definition reset_events :: "quic_stream_event set" where
  "reset_events = {QUIC_STREAM_EVENT_PEER_SEND_ABORTED, QUIC_STREAM_EVENT_PEER_RECEIVE_ABORTED,
     QUIC_STREAM_EVENT_SHUTDOWN_COMPLETE}"

text \<open>The completion of the send in flight: both records of it are cleared and the stream closes.\<close>

lemma send_complete_callback:
  assumes rr: "runtime_ready bld st i" and i: "i < length (tr_streams (sh_ctx st))"
    and rt: "rt_send_in_flight (rt_of st i)"
    and ad: "ad_send_in_flight (sh_adapter st)" "ad_send_stream_id (sh_adapter st) = rt_stream_id (rt_of st i)"
      "ad_send_len (sh_adapter st) = rt_response_len (rt_of st i)"
    and run: "ism_msquic_runtime_stream_callback bld (Some i)
      (Some (QUIC_STREAM_EVENT_SEND_COMPLETE (Some i) canceled)) st = (status, st')"
  shows "status = QUIC_STATUS_SUCCESS" and "\<not> ad_send_in_flight (sh_adapter st')"
    and "abs_table (conn_of st') = (abs_table (conn_of st))(rt_stream_id (rt_of st i) := None)"
    and "rt_of st' i = (rt_of st i)\<lparr>rt_send_buffer := (0, NULL), rt_response_len := 0, rt_send_in_flight := False,
      rt_reset_pending := False\<rparr>"
    and "adapter_inv bld st'" and "queue_items (sh_queue st') = []" and "queue_inv (sh_queue st')"
proof -
  let ?g = "\<lambda>r. r\<lparr>rt_send_buffer := (0, NULL), rt_response_len := 0, rt_send_in_flight := False, rt_reset_pending := False\<rparr>"
  let ?st = "upd_rt i ?g st" and ?sid = "rt_stream_id (rt_of st i)"
  note D = runtime_readyD [OF rr]
  have "runtime_ready bld ?st i"
    using rr i by (simp add: runtime_ready_def upd_rt_def upd_stream_def stream_of_def Let_def)
  from runtime_send_complete [OF this] obtain q where q: "queue_inv q" "queue_items q = []" and
    ev: "ism_msquic_runtime_on_send_complete bld (Some i) (rt_response_len (rt_of st i)) (canceled \<or> rt_reset_pending (rt_of st i)) ?st
      = ism_msquic_adapter_on_send_complete bld Obj (rt_stream_id (rt_of ?st i)) (rt_response_len (rt_of st i))
          (canceled \<or> rt_reset_pending (rt_of st i)) (?st\<lparr>sh_queue := q\<rparr>)" by metis
  have inv: "adapter_inv bld (?st\<lparr>sh_queue := q\<rparr>)" using D(1) by (simp add: upd_rt_def)
  have eff: "status = QUIC_STATUS_SUCCESS \<and> st' = set_send False 0 0
      (set_conn (finish_stream (conn_of st) ?sid) (?st\<lparr>sh_queue := q\<rparr>))"
    using run rt ad ev send_complete_eq [OF inv] i
    by (simp add: ism_msquic_runtime_stream_callback_def Let_def)
  then show "status = QUIC_STATUS_SUCCESS" "\<not> ad_send_in_flight (sh_adapter st')"
    "abs_table (conn_of st') = (abs_table (conn_of st))(?sid := None)" "rt_of st' i = ?g (rt_of st i)"
    "queue_items (sh_queue st') = []" "queue_inv (sh_queue st')"
    using i q by (simp_all add: finish_stream_abs_table [OF adapter_invD(2) [OF D(1)]])
  show "adapter_inv bld st'" using eff finish_adapter_inv [OF inv, of ?sid] by simp
qed

text \<open>An abort or shutdown of a stream with no send of its own in flight.\<close>

lemma reset_callback:
  assumes rr: "runtime_ready bld st i" and rt: "\<not> rt_send_in_flight (rt_of st i)" and ev: "ev \<in> reset_events"
  obtains q where "queue_inv q" "queue_items q = []"
    "ism_msquic_runtime_stream_callback bld (Some i) (Some ev) st =
      (if ad_send_in_flight (sh_adapter st) \<and> ad_send_stream_id (sh_adapter st) \<noteq> rt_stream_id (rt_of st i)
       then (QUIC_STATUS_INVALID_STATE, st\<lparr>sh_queue := q\<rparr>)
       else (QUIC_STATUS_SUCCESS, set_send False 0 0 (set_conn
              (finish_stream (conn_of st) (rt_stream_id (rt_of st i))) (st\<lparr>sh_queue := q\<rparr>))))"
proof -
  obtain q where q: "queue_inv q" "queue_items q = []" and
    call: "ism_msquic_runtime_on_stream_reset bld (Some i) st =
      ism_msquic_adapter_on_stream_reset bld Obj (rt_stream_id (rt_of st i)) (st\<lparr>sh_queue := q\<rparr>)"
    using runtime_stream_reset [OF rr] by metis
  have "adapter_inv bld (st\<lparr>sh_queue := q\<rparr>)" using runtime_readyD(1) [OF rr] by simp
  note eq = stream_reset_eq [OF this]
  show ?thesis
    by (rule that [OF q]) (use ev rt in \<open>auto simp: reset_events_def ism_msquic_runtime_stream_callback_def call eq\<close>)
qed

section \<open>Shutdown of a stream\<close>

lemma shutdown_releases:
  assumes "runtime_ready bld st i" and "\<not> rt_send_in_flight (rt_of st i)" and "\<not> ad_send_in_flight (sh_adapter st)"
    and "i < length (tr_slots (sh_ctx st))" and "i < length (tr_streams (sh_ctx st))"
    and "sl_api (slot_at st i) = Some api" and "sl_stream (slot_at st i) \<noteq> 0"
    and "\<not> tr_failed (sh_ctx st) QUIC_STATUS_SUCCESS"
    and "ism_msquic_connection_runtime_stream_callback bld (Some i) (Some QUIC_STREAM_EVENT_SHUTDOWN_COMPLETE) st
      = (status, st')"
  shows "status = QUIC_STATUS_SUCCESS \<and> adapter_inv bld st' \<and>
    abs_table (conn_of st') = (abs_table (conn_of st))(rt_stream_id (rt_of st i) := None) \<and>
    tr_world (sh_ctx st') = StreamClose api (sl_stream (slot_at st i)) (tr_world (sh_ctx st)) \<and>
    \<not> sl_in_use (slot_at st' i) \<and> sl_stream (slot_at st' i) = 0 \<and>
    (\<forall>k<length (tr_slots (sh_ctx st)). k \<noteq> i \<longrightarrow> slot_at st' k = slot_at st k)"
proof -
  have inv: "adapter_inv bld st" using assms(1) by (rule runtime_readyD)
  obtain q where q: "queue_inv q" and cb: "ism_msquic_runtime_stream_callback bld (Some i)
      (Some QUIC_STREAM_EVENT_SHUTDOWN_COMPLETE) st = (QUIC_STATUS_SUCCESS, set_send False 0 0 (set_conn
        (finish_stream (conn_of st) (rt_stream_id (rt_of st i))) (st\<lparr>sh_queue := q\<rparr>)))"
    using reset_callback [OF assms(1,2), of QUIC_STREAM_EVENT_SHUTDOWN_COMPLETE] assms(3)
    by (metis insertCI reset_events_def)
  let ?st1 = "set_send False 0 0 (set_conn (finish_stream (conn_of st) (rt_stream_id (rt_of st i))) (st\<lparr>sh_queue := q\<rparr>))"
  have slots: "slot_at ?st1 k = slot_at st k" for k by (simp add: slot_at_def)
  have st': "status = QUIC_STATUS_SUCCESS" "ism_msquic_connection_runtime_release_slot (Some i) ?st1 = st'"
    using assms(8,9) cb by (simp_all add: ism_msquic_connection_runtime_stream_callback_def)
  note rel = release_slot [OF _ _ _ _ st'(2), of api, unfolded slots]
  have "adapter_inv bld ?st1" using finish_adapter_inv [of bld "st\<lparr>sh_queue := q\<rparr>"] inv by simp
  moreover have "adapter_inv bld st' = adapter_inv bld ?st1"
    using rel(6) assms(4-7) by (simp add: adapter_inv_def buffers_separate_def)
  ultimately show ?thesis
    using rel(1,2,4,6) st'(1) assms(4-7) finish_stream_abs_table [OF adapter_invD(2) [OF inv]] by simp
qed

lemma shutdown_refused:
  assumes "runtime_ready bld st i" and "\<not> rt_send_in_flight (rt_of st i)"
    and "ad_send_in_flight (sh_adapter st)" and "ad_send_stream_id (sh_adapter st) \<noteq> rt_stream_id (rt_of st i)"
    and "tr_failed (sh_ctx st) QUIC_STATUS_INVALID_STATE"
    and "ism_msquic_connection_runtime_stream_callback bld (Some i) (Some QUIC_STREAM_EVENT_SHUTDOWN_COMPLETE) st
      = (status, st')"
  shows "status = QUIC_STATUS_INVALID_STATE \<and> sh_ctx st' = sh_ctx st \<and> sh_adapter st' = sh_adapter st"
proof -
  obtain q where "ism_msquic_runtime_stream_callback bld (Some i)
      (Some QUIC_STREAM_EVENT_SHUTDOWN_COMPLETE) st = (QUIC_STATUS_INVALID_STATE, st\<lparr>sh_queue := q\<rparr>)"
    using reset_callback [OF assms(1,2), of QUIC_STREAM_EVENT_SHUTDOWN_COMPLETE] assms(3,4)
    by (metis insertCI reset_events_def)
  with assms(5,6) show ?thesis by (auto simp: ism_msquic_connection_runtime_stream_callback_def)
qed

end
