(* ===== verification/Runtime_Errors.thy ===== *)
theory Runtime_Errors
  imports Conn_Runtime
begin

text \<open>
  Protocol errors of the stream runtime (\<^verbatim>\<open>src/shell/msquic_runtime.c\<close>): bytes that cannot be a frame, and a
  FIN on anything but one complete frame with a zero message ID. The callback then fails with
  \<^verbatim>\<open>INVALID_STATE\<close> and closes the connection with the DoQ protocol error code, and nothing is sent.
\<close>

section \<open>Calls on an idle queue\<close>

text \<open>The macro \<^verbatim>\<open>QUIC_FAILED\<close> on the three codes that the sources name.\<close>

definition failed_codes :: "(quic_status \<Rightarrow> bool) \<Rightarrow> bool" where
  "failed_codes failed \<longleftrightarrow> \<not> failed QUIC_STATUS_SUCCESS \<and> failed QUIC_STATUS_INVALID_PARAMETER \<and>
     failed QUIC_STATUS_INVALID_STATE"

definition idle_queue :: "'c shell_state \<Rightarrow> bool" where
  "idle_queue st \<longleftrightarrow> queue_inv (sh_queue st) \<and> queue_items (sh_queue st) = []"

lemma idle_len: "idle_queue st \<Longrightarrow> ism_shell_event_queue_len (queue_at Obj st) = 0"
  by (simp add: idle_queue_def ism_shell_event_queue_len_def queue_at_def queue_items_def unsigned_eq_0_iff)

text \<open>FIN is the adapter's handler, with the result noted in the runtime stream.\<close>

lemma fin_one:
  assumes "queue_inv (sh_queue st)" "queue_items (sh_queue st) = []"
    and "rt_adapter (rt_of st i) = Obj" "rt_queue (rt_of st i) = Obj" and fin: "\<not> rt_received_fin (rt_of st i)"
  obtains q where "queue_inv q" "queue_items q = []"
    "ism_msquic_runtime_on_fin bld (Some i) st =
      (case dispatch_event bld Obj (fin_event (rt_stream_id (rt_of st i))) (st\<lparr>sh_queue := q\<rparr>) of
         (ok, st1) \<Rightarrow> (ok, upd_rt i (\<lambda>r. r\<lparr>rt_received_fin := ok\<rparr>) st1))"
proof -
  let ?e = "fin_event (rt_stream_id (rt_of st i))"
  obtain ok q' where en: "ism_shell_event_queue_enqueue (Some (sh_queue st)) ?e = (ok, q')" by fastforce
  obtain q where q: "ok" "queue_inv q" "queue_items q = []"
      "ism_shell_event_queue_dispatch_one bld Obj Obj (put_queue q' st) = dispatch_event bld Obj ?e (st\<lparr>sh_queue := q\<rparr>)"
    using enqueue_dispatch(1) [OF assms(1,2) en] enqueue_dispatch(2) [OF assms(1,2) en, of bld] by blast
  have "ism_shell_event_queue_len (queue_at Obj st) = 0" using assms(1,2) by (intro idle_len) (simp add: idle_queue_def)
  with assms(3-5) en q show ?thesis
    by (intro that [of q])
      (simp_all add: ism_msquic_runtime_on_fin_def Let_def queue_at_def ism_shell_event_queue_enqueue_authenticated_stream_fin_def
        split: prod.splits)
qed

section \<open>A FIN that is refused\<close>

text \<open>A stream may finish when its bytes are one complete frame with a zero message ID.\<close>

definition may_finish :: "u8 list \<Rightarrow> bool" where
  "may_finish bs \<longleftrightarrow> (\<exists>n. doq_phase bs = AwaitingFin n) \<and> bs ! 2 = 0 \<and> bs ! 3 = 0"

lemma may_finish_code [code]:
  "may_finish bs \<longleftrightarrow> (case doq_phase bs of AwaitingFin n \<Rightarrow> True | _ \<Rightarrow> False) \<and> bs ! 2 = 0 \<and> bs ! 3 = 0"
  by (auto simp: may_finish_def split: model_phase.splits)

lemma ingress_fin_refused:
  assumes inv: "shell_inv conn" and got: "stream_got bs conn sid m" and bad: "\<not> may_finish bs"
    and run: "ingress_fin conn sid m = (code, conn', m')"
  shows "code \<noteq> 2"
proof
  assume two: "code = 2"
  obtain p conn1 where op: "open_result conn sid = (p, conn1)" by fastforce
  with run two obtain k where k: "p = Some k" by (cases p) (simp_all add: ingress_fin_def)
  let ?c = "stream_at conn1 (Some k)"
  obtain phase c where h: "handle_stream_fin ?c m = (phase, c)" by fastforce
  have holds: "stream_holds bs ?c m"
    using opened_holds [OF inv got] open_result_Some(2) [OF inv op [unfolded k]] op by simp
  have "shell_phase_code phase = 2" using run two op k h by (simp add: ingress_fin_def)
  then obtain n where "phase = S_Processing n" by (cases phase) simp_all
  with h have fin: "handle_stream_fin ?c m = (S_Processing n, c)" by simp
  note P = handle_stream_fin_Processing [OF this holds]
  from fin fin_processing_iff [OF holds, of n] have "bs ! 2 = 0" "bs ! 3 = 0" by (simp_all add: P(1))
  with P(2) bad show False by (simp add: may_finish_def)
qed

lemma fin_refused:
  assumes rr: "runtime_ready bld st i" and open': "\<not> rt_received_fin (rt_of st i)"
    and got: "stream_got bs (conn_of st) (rt_stream_id (rt_of st i)) (sh_mem st)" and bad: "\<not> may_finish bs"
    and run: "ism_msquic_runtime_on_fin bld (Some i) st = (ok, st')"
  shows "\<not> ok" and "runtime_ready bld st' i" and "same_setup st st'" and "sh_ctx st' = sh_ctx st" and "sh_mem st' = sh_mem st"
    and "\<exists>conn. sh_adapter st' = (sh_adapter st)\<lparr>ad_connection := conn\<rparr>"
proof -
  let ?sid = "rt_stream_id (rt_of st i)"
  note D = runtime_readyD [OF rr]
  obtain q where q: "queue_inv q" "queue_items q = []" and on: "ism_msquic_runtime_on_fin bld (Some i) st =
      (case dispatch_event bld Obj (fin_event ?sid) (st\<lparr>sh_queue := q\<rparr>) of
         (ok, st1) \<Rightarrow> (ok, upd_rt i (\<lambda>r. r\<lparr>rt_received_fin := ok\<rparr>) st1))"
    by (rule fin_one [OF D(2-5) open'])
  obtain code conn m where f: "ingress_fin (conn_of st) ?sid (sh_mem st) = (code, conn, m)" by (metis prod_cases3)
  have sh: "shell_inv (conn_of st)" using D(1) by (rule adapter_invD)
  note F = ingress_fin_inv [OF sh f]
  have "ingress_ready bld (conn_of st) (rt_ingress_buffer (rt_of st i)) 0" using rr by (simp add: runtime_ready_def Let_def)
  note eq = shell_fin_eq [OF this]
  let ?st = "set_conn conn (st\<lparr>sh_queue := q, sh_mem := m\<rparr>)"
  have "dispatch_event bld Obj (fin_event ?sid) (st\<lparr>sh_queue := q\<rparr>) = (False, ?st)"
    using ingress_fin_refused [OF sh got bad f] f
    by (simp add: dispatch_event_def fin_event_def ism_msquic_adapter_on_authenticated_stream_fin_def eq Let_def)
  moreover have "upd_rt i (\<lambda>r. r\<lparr>rt_received_fin := False\<rparr>) ?st = ?st"
  proof -
    have "upd_stream i (\<lambda>r. r\<lparr>rt_received_fin := False\<rparr>) (sh_ctx st) = sh_ctx st"
      using open' by (cases "i < length (tr_streams (sh_ctx st))")
        (simp_all add: upd_stream_def stream_of_def list_update_same_conv list_update_beyond not_less)
    then show ?thesis by (simp add: upd_rt_def)
  qed
  ultimately have st': "\<not> ok" "st' = ?st" using run on by simp_all
  show "\<not> ok" "sh_ctx st' = sh_ctx st" "sh_mem st' = sh_mem st" using st' F(3) by simp_all
  show "\<exists>conn. sh_adapter st' = (sh_adapter st)\<lparr>ad_connection := conn\<rparr>"
    by (rule exI [of _ conn]) (simp add: st' set_conn_def)
  show stp: "same_setup st st'" using F(2) by (simp add: st' same_setup_def)
  have "adapter_inv bld st'"
    using set_conn_inv(1) [of bld "st\<lparr>sh_queue := q\<rparr>" conn m] D(1) F ingress_fin_keeps_open [OF sh f] st' by simp
  then show "runtime_ready bld st' i" using runtime_ready_setup [OF rr stp] q st' by simp
qed

section \<open>The callback\<close>

text \<open>A RECEIVE whose bytes are a protocol error, or whose FIN is refused.\<close>

theorem receive_protocol_error:
  assumes rr: "runtime_ready bld st i" and open': "\<not> rt_received_fin (rt_of st i)"
    and got: "stream_got bs (conn_of st) (rt_stream_id (rt_of st i)) (sh_mem st)" and live: "doq_phase bs \<noteq> Done"
    and ok: "list_all (buffer_ok st i) buffers" and count: "length buffers < 4294967296"
    and q: "q = bs @ concat (map (buffer_bytes (sh_mem st)) buffers)"
    and bad: "doq_phase q = Done \<or> fin \<and> \<not> may_finish q"
    and run: "ism_msquic_runtime_stream_callback bld (Some i)
      (Some (QUIC_STREAM_EVENT_RECEIVE (Some buffers) (of_nat (length buffers)) fin)) st = (status, st')"
  obtains st1 where "status = QUIC_STATUS_INVALID_STATE" "st' = doq_shutdown i st1" "runtime_ready bld st1 i" "same_setup st st1"
    "sh_ctx st1 = sh_ctx st" "\<exists>conn. sh_adapter st1 = (sh_adapter st)\<lparr>ad_connection := conn\<rparr>"
    "\<forall>b. buffer_ok st i b \<longrightarrow> buffer_bytes (sh_mem st1) b = buffer_bytes (sh_mem st) b"
proof -
  obtain r1 st1 where rb: "receive_buffers bld (Some i) buffers st = (r1, st1)" by fastforce
  note R = receive_buffers_phase [OF rr open' got ok live rb, folded q, unfolded received_buffers_def, folded q]
  have bufs: "map (\<lambda>k. buffers ! k) [0..<unat (of_nat (length buffers) :: u32)] = buffers"
    using count by (simp add: unat_of_nat map_nth)
  have at: "ism_msquic_runtime_on_msquic_receive bld i (Some buffers) (of_nat (length buffers)) fin st =
      (if \<not> r1 then (False, st1) else if \<not> fin then (True, st1) else ism_msquic_runtime_on_fin bld (Some i) st1)"
    using rb by (simp add: ism_msquic_runtime_on_msquic_receive_def bufs [simplified])
  show thesis
  proof (cases r1)
    case False
    with at have "ism_msquic_runtime_on_msquic_receive bld i (Some buffers) (of_nat (length buffers)) fin st = (False, st1)" by simp
    with run have "status = QUIC_STATUS_INVALID_STATE" "st' = doq_shutdown i st1"
      by (simp_all add: ism_msquic_runtime_stream_callback_def protocol_error_eq)
    with R that [of st1] show thesis by simp
  next
    case True
    with R bad have fin: "fin" "\<not> may_finish q" by auto
    obtain r2 st2 where f: "ism_msquic_runtime_on_fin bld (Some i) st1 = (r2, st2)" by fastforce
    have "\<not> rt_received_fin (rt_of st1 i)" "stream_got q (conn_of st1) (rt_stream_id (rt_of st1 i)) (sh_mem st1)"
        "runtime_ready bld st1 i" using R True open' by simp_all
    note F = fin_refused [OF this(3,1,2) fin(2) f]
    have "ism_msquic_runtime_on_msquic_receive bld i (Some buffers) (of_nat (length buffers)) fin st = (False, st2)"
      using at True fin(1) f F(1) by simp
    with run have "status = QUIC_STATUS_INVALID_STATE" "st' = doq_shutdown i st2"
      by (simp_all add: ism_msquic_runtime_stream_callback_def protocol_error_eq)
    moreover have "\<exists>conn. sh_adapter st2 = (sh_adapter st)\<lparr>ad_connection := conn\<rparr>"
      using R F(6) by (elim conjE exE) (simp, blast)
    ultimately show thesis using R F(2-5) same_setup_trans [of st st1 st2] that [of st2] by simp
  qed
qed

end
