(* ===== verification/Smoke_Base.thy ===== *)
theory Smoke_Base
  imports Runtime_Errors
begin

text \<open>
  What the repository's smoke programs share: a way to write a C test as the sequence of its
  conditions, the byte arrays of the fixtures, and the behaviour of a freshly initialised
  adapter on them, for every build and every placement of the variables in memory.
\<close>

section \<open>Tests as sequences of conditions\<close>

text \<open>A C condition may change the state (an assignment, a call). A test \<^verbatim>\<open>if (A || B) return false; ...\<close>
  is the list of the negated conditions; it returns true when each of them holds in the state that
  the previous ones left.\<close>

type_synonym 's check = "'s \<Rightarrow> bool \<times> 's"

fun run_checks :: "'s check list \<Rightarrow> 's \<Rightarrow> bool" where
  "run_checks [] s = True"
| "run_checks (p # ps) s = (case p s of (ok, s') \<Rightarrow> ok \<and> run_checks ps s')"

definition holds :: "('s \<Rightarrow> bool) \<Rightarrow> 's check" where
  "holds P s = (P s, s)"

definition runs :: "('s \<Rightarrow> 's) \<Rightarrow> 's check" where
  "runs f s = (True, f s)"

definition refuses :: "'s check \<Rightarrow> 's check" where
  "refuses p s = (case p s of (ok, s') \<Rightarrow> (\<not> ok, s'))"

definition yields :: "('s \<Rightarrow> 'r \<times> 's) \<Rightarrow> 'r \<Rightarrow> 's check" where
  "yields f r s = (case f s of (x, s') \<Rightarrow> (x = r, s'))"

lemma run_checks_append: "run_checks (ps @ qs) s \<Longrightarrow> run_checks ps s"
  by (induction ps s rule: run_checks.induct) (auto split: prod.splits)

lemmas check_defs = holds_def runs_def refuses_def yields_def

section \<open>Fixtures\<close>

definition exact_a_query :: "u8 list" where
  "exact_a_query =
     [0x00, 0x21,
      0x00, 0x00,
      0x01, 0x00,
      0x00, 0x01,
      0x00, 0x00,
      0x00, 0x00,
      0x00, 0x00,
      0x03, 0x77, 0x77, 0x77,
      0x07, 0x65, 0x78, 0x61, 0x6d, 0x70, 0x6c, 0x65,
      0x03, 0x63, 0x6f, 0x6d,
      0x00,
      0x00, 0x01,
      0x00, 0x01]"

definition expected_validated_stream_response :: "u8 list" where
  "expected_validated_stream_response =
     [0x00, 0x21,
      0x00, 0x00,
      0x81, 0x00,
      0x00, 0x01,
      0x00, 0x00,
      0x00, 0x00,
      0x00, 0x00,
      0x03, 0x77, 0x77, 0x77,
      0x07, 0x65, 0x78, 0x61, 0x6d, 0x70, 0x6c, 0x65,
      0x03, 0x63, 0x6f, 0x6d,
      0x00,
      0x00, 0x01,
      0x00, 0x01]"

definition invalid_header_query :: "u8 list" where
  "invalid_header_query =
     [0x00, 0x0c,
      0x00, 0x00,
      0x01, 0x00,
      0x00, 0x00,
      0x00, 0x00,
      0x00, 0x00,
      0x00, 0x00]"

definition expected_formerr_stream :: "u8 list" where
  "expected_formerr_stream =
     [0x00, 0x0c,
      0x00, 0x00,
      0x81, 0x01,
      0x00, 0x00,
      0x00, 0x00,
      0x00, 0x00,
      0x00, 0x00]"

definition partial_length_prefix :: "u8 list" where
  "partial_length_prefix = [0x00]"

lemma fixture_lengths [simp]:
  "length exact_a_query = 35" "length expected_validated_stream_response = 35"
  "length invalid_header_query = 14" "length expected_formerr_stream = 14" "length partial_length_prefix = 1"
  by (simp_all add: exact_a_query_def expected_validated_stream_response_def invalid_header_query_def
      expected_formerr_stream_def partial_length_prefix_def)

lemma fixture_phases:
  "doq_phase exact_a_query = AwaitingFin 33" "doq_phase invalid_header_query = AwaitingFin 12"
  "doq_phase partial_length_prefix = ReadingLengthHigh 0"
  by (simp_all add: exact_a_query_def invalid_header_query_def partial_length_prefix_def)

lemma fixture_ids:
  "exact_a_query ! 2 = 0" "exact_a_query ! 3 = 0" "invalid_header_query ! 2 = 0" "invalid_header_query ! 3 = 0"
  by (simp_all add: exact_a_query_def invalid_header_query_def)

lemma exact_a_is_question: "question_request (drop 2 exact_a_query)"
  unfolding question_request_def
  by (intro exI [of _ "[1, 0]"] exI [of _ "[[0x77, 0x77, 0x77], [0x65, 0x78, 0x61, 0x6d, 0x70, 0x6c, 0x65], [0x63, 0x6f, 0x6d]]"]
      exI [of _ "[0, 1, 0, 1]"])
    (simp add: exact_a_query_def encode_name_def wf_label_def)

text \<open>The specified responses, framed, are the arrays the programs compare with.\<close>

lemma exact_a_response:
  assumes "33 \<le> cap"
  shows "minimal_response (drop 2 exact_a_query) cap = Some (drop 2 expected_validated_stream_response)"
    and "doq_frame (drop 2 expected_validated_stream_response) = expected_validated_stream_response"
proof -
  have "length (drop 2 exact_a_query) = 33" by simp
  moreover have "echo_response (drop 2 exact_a_query) = drop 2 expected_validated_stream_response"
    by (simp add: echo_response_def exact_a_query_def expected_validated_stream_response_def
        noerror_response_flags_hi_def noerror_response_flags_lo_def)
  ultimately show "minimal_response (drop 2 exact_a_query) cap = Some (drop 2 expected_validated_stream_response)"
    using assms exact_a_is_question fixture_ids by (simp add: minimal_response_def)
  show "doq_frame (drop 2 expected_validated_stream_response) = expected_validated_stream_response"
    by (simp add: doq_frame_def expected_validated_stream_response_def prefix_hi_def prefix_lo_def)
qed

lemma invalid_header_response:
  assumes "12 \<le> cap"
  shows "minimal_response (drop 2 invalid_header_query) cap = Some (drop 2 expected_formerr_stream)"
    and "doq_frame (drop 2 expected_formerr_stream) = expected_formerr_stream"
proof -
  have "\<not> question_request (drop 2 invalid_header_query)"
    using question_request_length(1) [of "drop 2 invalid_header_query"] by auto
  moreover have "formerr_response (drop 2 invalid_header_query) = drop 2 expected_formerr_stream"
    by (simp add: formerr_response_def invalid_header_query_def expected_formerr_stream_def)
  ultimately show "minimal_response (drop 2 invalid_header_query) cap = Some (drop 2 expected_formerr_stream)"
    using assms fixture_ids by (simp add: minimal_response_def)
  show "doq_frame (drop 2 expected_formerr_stream) = expected_formerr_stream"
    by (simp add: doq_frame_def expected_formerr_stream_def prefix_hi_def prefix_lo_def)
qed

section \<open>A fresh adapter\<close>

text \<open>Where a program keeps a fixture: outside the message buffers of the connection.\<close>

definition array_at :: "build \<Rightarrow> 'c shell_state \<Rightarrow> addr \<Rightarrow> u8 list \<Rightarrow> bool" where
  "array_at bld st data bytes \<longleftrightarrow>
     data \<noteq> NULL \<and> mem_bytes (sh_mem st) data (length bytes) = bytes \<and>
     (\<forall>i<4. ranges_disjoint data (length bytes) (message_buffer (conn_streams (conn_of st) ! i)) 65535) \<and>
     (use_pulse_stream bld \<longrightarrow>
        (\<forall>i<4. range_ok (message_buffer (conn_streams (conn_of st) ! i)) 65535 \<and>
               disjoint (message_buffer (conn_streams (conn_of st) ! i)) 65535 data (length bytes)))"

text \<open>The variables of a program before it initialises the adapter: four stream slots, storage
  for the candidate table where it is built, and separate response and send buffers.\<close>

definition placed :: "build \<Rightarrow> addr \<Rightarrow> u32 \<Rightarrow> addr \<Rightarrow> u32 \<Rightarrow> 'c shell_state \<Rightarrow> bool" where
  "placed bld rb rc sb sc st \<longleftrightarrow>
     length (conn_streams (conn_of st)) = 4 \<and> (use_pulse_table bld \<longrightarrow> storage_ok bld (conn_of st)) \<and>
     rb \<noteq> NULL \<and> sb \<noteq> NULL \<and> buffers_separate bld (ism_msquic_adapter_init Obj rb rc sb sc None (sh_ctx st) st) \<and>
     question_validator (check_question bld)"

lemma cc_num_card: "shell_inv conn \<Longrightarrow> unat (cc_num (conn_ctx conn)) = card (dom (abs_table conn))"
  using card_abs_table(2) [OF shell_invD(4)] by simp

lemma cc_num_empty: "shell_inv conn \<Longrightarrow> abs_table conn = Map.empty \<Longrightarrow> cc_num (conn_ctx conn) = 0"
  using cc_num_card [of conn] by (simp add: unsigned_eq_0_iff)

lemma cc_num_single: "shell_inv conn \<Longrightarrow> abs_table conn = [sid \<mapsto> c] \<Longrightarrow> cc_num (conn_ctx conn) = 1"
  using cc_num_card [of conn] by (simp add: word_unat_eq_iff)

lemma mem_bytes_nth: "k < n \<Longrightarrow> mem_bytes m p n = bs \<Longrightarrow> m (p + k) = bs ! k"
  by (auto simp: mem_bytes_def)

lemma mem_bytes_upd:
  assumes "k < n"
  shows "mem_bytes (m(p + k := v)) p n = (mem_bytes m p n)[k := v]"
  using assms by (intro nth_equalityI) (auto simp: nth_list_update)

lemma init_mem_frame:
  assumes "\<forall>s\<in>set ss. ranges_disjoint data n (message_buffer s) 65535"
  shows "mem_bytes (fold (\<lambda>s m. mem_zero m (message_buffer s) ISM_SHELL_STREAM_BUFFER_SIZE) ss m) data n = mem_bytes m data n"
  using assms
proof (induction ss arbitrary: m)
  case (Cons s ss)
  have "mem_bytes (mem_zero m (message_buffer s) ISM_SHELL_STREAM_BUFFER_SIZE) data n = mem_bytes m data n"
    using Cons.prems by (intro mem_bytes_eqI) (auto simp: mem_zero_def ranges_disjoint_def ISM_SHELL_STREAM_BUFFER_SIZE_def)
  then show ?case using Cons by simp
qed simp

lemma init_fresh:
  assumes "placed bld rb rc sb sc st" and st': "st' = ism_msquic_adapter_init Obj rb rc sb sc send ctx st"
  shows "adapter_inv bld st'" and "abs_table (conn_of st') = Map.empty" and "\<not> ad_send_in_flight (sh_adapter st')"
    and "sh_ctx st' = ctx" and "sh_queue st' = sh_queue st" and "ad_send (sh_adapter st') = send"
    and "ad_response_buffer (sh_adapter st') = rb" "ad_response_capacity (sh_adapter st') = rc"
    and "ad_send_buffer (sh_adapter st') = sb" "ad_send_capacity (sh_adapter st') = sc"
    and "array_at bld st data bytes \<Longrightarrow> array_at bld st' data bytes"
proof -
  have raw: "length (conn_streams (conn_of st)) = 4" "use_pulse_table bld \<longrightarrow> storage_ok bld (conn_of st)"
    and "buffers_separate bld (ism_msquic_adapter_init Obj rb rc sb sc None (sh_ctx st) st)"
    using assms(1) by (simp_all add: placed_def)
  then have "buffers_separate bld st'"
    by (simp add: st' buffers_separate_def ism_msquic_adapter_init_def split: prod.splits)
  with raw show "adapter_inv bld st'" unfolding st' by (rule adapter_init_inv)
  obtain conn m where i: "ism_shell_connection_init (conn_of st) (sh_mem st) = (conn, m)" by fastforce
  then show "abs_table (conn_of st') = Map.empty" "\<not> ad_send_in_flight (sh_adapter st')"
    "sh_ctx st' = ctx" "sh_queue st' = sh_queue st" "ad_send (sh_adapter st') = send"
    "ad_response_buffer (sh_adapter st') = rb" "ad_response_capacity (sh_adapter st') = rc"
    "ad_send_buffer (sh_adapter st') = sb" "ad_send_capacity (sh_adapter st') = sc"
    using init_abs_table [of "conn_of st" "sh_mem st"] by (simp_all add: st' ism_msquic_adapter_init_def)
  assume arr: "array_at bld st data bytes"
  have conn: "conn_of st' = conn" "sh_mem st' = m" using i by (simp_all add: st' ism_msquic_adapter_init_def)
  have "conn_layout conn = conn_layout (conn_of st)" using init_layout [OF raw(1), of "sh_mem st"] i by simp
  then have buf: "message_buffer (conn_streams conn ! k) = message_buffer (conn_streams (conn_of st) ! k)" if "k < 4" for k
    using layout_nth(1) [of "conn_of st" conn k] raw(1) that by simp
  have "\<forall>s\<in>set (conn_streams (conn_of st)). ranges_disjoint data (length bytes) (message_buffer s) 65535"
    using arr raw(1) by (auto simp: array_at_def in_set_conv_nth)
  then have "mem_bytes m data (length bytes) = mem_bytes (sh_mem st) data (length bytes)"
    using init_mem_frame [of "conn_streams (conn_of st)" data "length bytes" "sh_mem st"] i
    by (auto simp: ism_shell_connection_init_def Let_def)
  with arr show "array_at bld st' data bytes" by (simp add: array_at_def conn buf)
qed

lemma array_ingress:
  assumes "adapter_inv bld st" and "array_at bld st data bytes" and "len = of_nat (length bytes)" "length bytes < 4294967296"
  shows "ingress_ready bld (conn_of st) data len"
  using assms by (auto simp: ingress_ready_def array_at_def dest: adapter_invD(1))

section \<open>A fragment and FIN on a fresh adapter\<close>

text \<open>The state after a fragment on an adapter with no open stream.\<close>

definition received :: "build \<Rightarrow> u64 \<Rightarrow> u8 list \<Rightarrow> 'c shell_state \<Rightarrow> 'c shell_state \<Rightarrow> bool" where
  "received bld sid bytes st st1 \<longleftrightarrow>
     adapter_inv bld st1 \<and> (\<forall>data. ingress_ready bld (conn_of st1) data 0) \<and>
     (\<exists>c. abs_table (conn_of st1) = [sid \<mapsto> c] \<and> stream_holds bytes c (sh_mem st1)) \<and>
     sh_ctx st1 = sh_ctx st \<and> sh_queue st1 = sh_queue st \<and> same_setup st st1 \<and>
     (\<exists>conn. sh_adapter st1 = (sh_adapter st)\<lparr>ad_connection := conn\<rparr>) \<and>
     (\<exists>p<4. mem_frame (message_buffer (conn_streams (conn_of st) ! p)) 65535 (sh_mem st) (sh_mem st1))"

lemma fresh_ingress:
  assumes inv: "adapter_inv bld st" and tab: "abs_table (conn_of st) = Map.empty"
    and arr: "array_at bld st data bytes" and n: "length bytes < 4294967296" and fits: "doq_phase bytes \<noteq> Done"
    and run: "ism_shell_dispatch_authenticated_stream_data bld (conn_of st) sid data (of_nat (length bytes)) (sh_mem st)
      = (code, conn', m')"
  shows "code = shell_phase_code (from_model (doq_phase bytes))" and "code \<noteq> 2" and "code \<noteq> 3"
    and "received bld sid bytes st (set_conn conn' (st\<lparr>sh_mem := m'\<rparr>))"
proof -
  note ready = array_ingress [OF inv arr refl n]
  have d: "ingress_data (conn_of st) sid data (of_nat (length bytes)) (sh_mem st) = (code, conn', m')"
    using run by (simp add: shell_data_eq [OF ready])
  have sh: "shell_inv (conn_of st)" using inv by (rule adapter_invD)
  have got: "stream_got [] (conn_of st) sid (sh_mem st)"
    using tab cc_num_empty [OF sh tab] by (simp add: stream_got_def)
  note G = ingress_data_got [OF sh got _ _ _ d, of bytes, simplified]
  have bytes: "mem_bytes (sh_mem st) data (length bytes) = bytes" using arr by (simp add: array_at_def)
  show "code = shell_phase_code (from_model (doq_phase bytes))" "code \<noteq> 2" "code \<noteq> 3"
    using G bytes n fits by simp_all
  have keep: "shell_inv conn'" "conn_layout conn' = conn_layout (conn_of st)"
    using ingress_data_inv(1,2) [OF sh d] by simp_all
  have inv1: "adapter_inv bld (set_conn conn' (st\<lparr>sh_mem := m'\<rparr>))"
    using set_conn_inv(1) [OF inv keep] tab by simp
  have "ingress_ready bld (conn_of (set_conn conn' (st\<lparr>sh_mem := m'\<rparr>))) data' 0" for data'
    using ready inv1 layout_nth(1) [OF keep(2)] shell_invD(8) [OF keep(1)]
    by (auto simp: ingress_ready_def dest: adapter_invD(1))
  moreover obtain c where "abs_table conn' = [sid \<mapsto> c]" "stream_holds bytes c m'"
    using G(1,4,5) bytes n fits tab by (auto simp: stream_got_def)
  ultimately show "received bld sid bytes st (set_conn conn' (st\<lparr>sh_mem := m'\<rparr>))"
    using inv1 set_conn_inv(2) [OF inv keep, of m'] tab ingress_data_frame [OF sh d] by (auto simp: received_def set_conn_def)
qed

text \<open>The same through the adapter's entry point.\<close>

lemma fresh_bytes:
  assumes "adapter_inv bld st" and "abs_table (conn_of st) = Map.empty"
    and "array_at bld st data bytes" and "length bytes < 4294967296" and "doq_phase bytes \<noteq> Done"
    and run: "ism_msquic_adapter_on_authenticated_stream_bytes bld Obj sid data (of_nat (length bytes)) st = (code, st1)"
  shows "code = shell_phase_code (from_model (doq_phase bytes))" and "received bld sid bytes st st1"
proof -
  obtain code' conn' m' where d: "ism_shell_dispatch_authenticated_stream_data bld (conn_of st) sid data
      (of_nat (length bytes)) (sh_mem st) = (code', conn', m')" by (metis prod_cases3)
  note F = fresh_ingress [OF assms(1-5) d]
  have "data \<noteq> NULL" using assms(3) by (simp add: array_at_def)
  then have "code = code' \<and> st1 = set_conn conn' (st\<lparr>sh_mem := m'\<rparr>)"
    using run d F(2) by (simp add: ism_msquic_adapter_on_authenticated_stream_bytes_def)
  with F(1,4) show "code = shell_phase_code (from_model (doq_phase bytes))" "received bld sid bytes st st1" by simp_all
qed

text \<open>No handler of one stream opens or closes another.\<close>

lemma prepare_other:
  assumes "adapter_inv bld st" and "ism_msquic_adapter_prepare_ready_response bld adapter sid st = (n, st')" and "s \<noteq> sid"
  shows "abs_table (conn_of st') s = abs_table (conn_of st) s"
  using assms(1,2)
proof (cases rule: prepare_cases)
  case (failed m' f ctx len)
  then show ?thesis using assms(3) finish_stream_abs_table [OF adapter_invD(2) [OF assms(1)]] by simp
qed simp_all

lemma adapter_fin_other:
  assumes inv: "adapter_inv bld st" and ready: "ingress_ready bld (conn_of st) data 0"
    and run: "ism_msquic_adapter_on_authenticated_stream_fin bld Obj sid st = (code, st')" and "s \<noteq> sid"
  shows "abs_table (conn_of st') s = abs_table (conn_of st) s"
proof -
  obtain code' conn m where f: "ingress_fin (conn_of st) sid (sh_mem st) = (code', conn, m)" by (metis prod_cases3)
  let ?st1 = "set_conn conn (st\<lparr>sh_mem := m\<rparr>)"
  have other: "abs_table conn s = abs_table (conn_of st) s"
    using ingress_fin_inv(4) [OF adapter_invD(2) [OF inv] f assms(4)] .
  have "st' = ?st1 \<or> st' = snd (ism_msquic_adapter_prepare_ready_response bld Obj sid ?st1)"
    using run f by (auto simp: ism_msquic_adapter_on_authenticated_stream_fin_def shell_fin_eq [OF ready] Let_def split: if_splits)
  moreover have "adapter_inv bld ?st1"
    using set_conn_inv(1) [OF inv ingress_fin_inv(1,2) [OF adapter_invD(2) [OF inv] f]]
      ingress_fin_keeps_open [OF adapter_invD(2) [OF inv] f] by blast
  ultimately show ?thesis using other prepare_other [of bld ?st1 Obj sid _ _ s] assms(4) by (metis prod.collapse set_conn_simps(1))
qed

text \<open>FIN of a complete query with the adapter idle: the response stands framed in the send buffer and
  the send function got it once.\<close>

lemma received_fin:
  assumes rec: "received bld sid bytes st st1" and val: "question_validator (check_question bld)"
    and free: "\<not> ad_send_in_flight (sh_adapter st)" and f: "ad_send (sh_adapter st) = Some f"
    and bufs: "ad_response_buffer (sh_adapter st) \<noteq> NULL" "ad_send_buffer (sh_adapter st) \<noteq> NULL"
    and full: "doq_phase bytes = AwaitingFin n" and id: "bytes ! 2 = 0" "bytes ! 3 = 0"
    and r: "minimal_response (drop 2 bytes) (unat (ad_response_capacity (sh_adapter st))) = Some r"
    and fits: "length r + 2 \<le> unat (ad_send_capacity (sh_adapter st))"
    and run: "ism_msquic_adapter_on_authenticated_stream_fin bld Obj sid st1 = (code, st2)"
  shows "code = 2" and "adapter_inv bld st2" and "sh_queue st2 = sh_queue st" and "same_setup st st2"
    and "mem_bytes (sh_mem st2) (ad_send_buffer (sh_adapter st)) (length r + 2) = doq_frame r"
    and "f sid (ad_send_buffer (sh_adapter st)) (of_nat (length r + 2)) True (sh_mem st2) (sh_ctx st) =
      (ad_send_in_flight (sh_adapter st2), sh_ctx st2)"
    and "if ad_send_in_flight (sh_adapter st2)
      then ad_send_stream_id (sh_adapter st2) = sid \<and> ad_send_len (sh_adapter st2) = of_nat (length r + 2) \<and>
        dom (abs_table (conn_of st2)) = {sid}
      else abs_table (conn_of st2) = Map.empty \<and> ad_send_stream_id (sh_adapter st2) = 0 \<and> ad_send_len (sh_adapter st2) = 0"
    and "outside_buffers (sh_adapter st) a \<Longrightarrow> sh_mem st2 a = sh_mem st1 a"
proof -
  from rec obtain c conn where inv: "adapter_inv bld st1" and ready: "ingress_ready bld (conn_of st1) 0 0"
    and tab: "abs_table (conn_of st1) = [sid \<mapsto> c]" and h: "stream_holds bytes c (sh_mem st1)"
    and stp: "same_setup st st1"
    and same: "sh_ctx st1 = sh_ctx st" "sh_queue st1 = sh_queue st" "sh_adapter st1 = (sh_adapter st)\<lparr>ad_connection := conn\<rparr>"
    unfolding received_def by blast
  have tab1: "abs_table (conn_of st1) sid = Some c" using tab by simp
  have st1: "\<not> ad_send_in_flight (sh_adapter st1)" "ad_send (sh_adapter st1) = Some f"
      "ad_response_buffer (sh_adapter st1) \<noteq> NULL" "ad_send_buffer (sh_adapter st1) \<noteq> NULL"
      "minimal_response (drop 2 bytes) (unat (ad_response_capacity (sh_adapter st1))) = Some r"
      "length r + 2 \<le> unat (ad_send_capacity (sh_adapter st1))"
      "ad_send_buffer (sh_adapter st1) = ad_send_buffer (sh_adapter st)"
    using free f bufs r fits by (simp_all add: same(3))
  note A = fin_answers [OF inv val ready st1(1-4) tab1 h full id st1(5,6) run, unfolded st1(7) same(1)]
  show "code = 2" "mem_bytes (sh_mem st2) (ad_send_buffer (sh_adapter st)) (length r + 2) = doq_frame r"
    "f sid (ad_send_buffer (sh_adapter st)) (of_nat (length r + 2)) True (sh_mem st2) (sh_ctx st) =
      (ad_send_in_flight (sh_adapter st2), sh_ctx st2)"
    by (rule A)+
  show "sh_mem st2 a = sh_mem st1 a" if "outside_buffers (sh_adapter st) a" using A(5) that by (simp add: same(3))
  have other: "abs_table (conn_of st2) s = None" if "s \<noteq> sid" for s
    using adapter_fin_other [OF inv ready run that] that tab by simp
  show inv2: "adapter_inv bld st2" "sh_queue st2 = sh_queue st" "same_setup st st2"
    using adapter_fin_inv [OF inv ready run] same same_setup_trans [OF stp] by simp_all
  show "if ad_send_in_flight (sh_adapter st2)
      then ad_send_stream_id (sh_adapter st2) = sid \<and> ad_send_len (sh_adapter st2) = of_nat (length r + 2) \<and>
        dom (abs_table (conn_of st2)) = {sid}
      else abs_table (conn_of st2) = Map.empty \<and> ad_send_stream_id (sh_adapter st2) = 0 \<and> ad_send_len (sh_adapter st2) = 0"
  proof (cases "ad_send_in_flight (sh_adapter st2)")
    case True
    have sub: "dom (abs_table (conn_of st2)) \<subseteq> {sid}"
    proof
      fix s assume "s \<in> dom (abs_table (conn_of st2))"
      with other [of s] show "s \<in> {sid}" by (cases "s = sid") (simp_all add: domIff)
    qed
    from True A(4) have "sid \<in> dom (abs_table (conn_of st2))" by (simp add: domIff)
    with sub have "dom (abs_table (conn_of st2)) = {sid}" by blast
    with True A(4) show ?thesis by simp
  next
    case False
    with A(4) have "abs_table (conn_of st2) sid = None" by simp
    with other have "abs_table (conn_of st2) = Map.empty" by (metis ext)
    with False inv2(1) show ?thesis by (simp add: adapter_inv_def Let_def)
  qed
qed

section \<open>Events on an idle queue\<close>

lemma array_at_queue [simp]: "array_at bld (st\<lparr>sh_queue := q\<rparr>) data bytes = array_at bld st data bytes"
  by (simp add: array_at_def)

text \<open>A fragment for an adapter without streams, and the end of its only stream.\<close>

lemma bytes_on_empty:
  assumes "adapter_inv bld st" and "abs_table (conn_of st) = Map.empty" and "array_at bld st data bytes"
    and "length bytes < 4294967296" and "doq_phase bytes \<noteq> Done" and "len = of_nat (length bytes)"
  obtains st1 where "dispatch_event bld Obj (bytes_event sid data len) st = (True, st1)" "received bld sid bytes st st1"
proof -
  obtain code conn' m' where d: "ism_shell_dispatch_authenticated_stream_data bld (conn_of st) sid data
      (of_nat (length bytes)) (sh_mem st) = (code, conn', m')" by (metis prod_cases3)
  note F = fresh_ingress [OF assms(1-5) d]
  have "dispatch_event bld Obj (bytes_event sid data len) st = (True, set_conn conn' (st\<lparr>sh_mem := m'\<rparr>))"
    using d F(2,3) assms(6) by (simp add: dispatch_event_def bytes_event_def)
  with F(4) that show ?thesis by blast
qed

lemma finish_on_only:
  assumes inv: "adapter_inv bld st" and dom: "dom (abs_table (conn_of st)) = {sid}"
    and e: "e = reset_event sid \<and> \<not> ad_send_in_flight (sh_adapter st) \<or>
      e = complete_event sid (ad_send_len (sh_adapter st)) d \<and> ad_send_in_flight (sh_adapter st) \<and>
        ad_send_stream_id (sh_adapter st) = sid"
  obtains st1 where "dispatch_event bld Obj e st = (True, st1)" "adapter_inv bld st1"
    "abs_table (conn_of st1) = Map.empty" "sh_queue st1 = sh_queue st" "sh_ctx st1 = sh_ctx st" "sh_mem st1 = sh_mem st"
    "conn_layout (conn_of st1) = conn_layout (conn_of st)"
proof -
  let ?st = "set_send False 0 0 (set_conn (finish_stream (conn_of st) sid) st)"
  have "dispatch_event bld Obj e st = (True, ?st)"
    using e by (auto simp: dispatch_event_def reset_event_def complete_event_def stream_reset_eq [OF inv] send_complete_eq [OF inv])
  moreover have "abs_table (conn_of ?st) = Map.empty"
    using dom by (auto simp: finish_stream_abs_table [OF adapter_invD(2) [OF inv]] fun_eq_iff)
  ultimately show ?thesis
    using that [of ?st] finish_adapter_inv [OF inv] layout_finish [OF adapter_invD(2) [OF inv]] by simp
qed

text \<open>The first bytes of an array, whatever they are by now, still stand outside the message buffers.\<close>

lemma array_at_moved:
  assumes arr: "array_at bld st data bytes" and lay: "conn_layout (conn_of st') = conn_layout (conn_of st)"
    and len: "length (conn_streams (conn_of st)) = 4" and n: "n \<le> length bytes"
  shows "array_at bld st' data (mem_bytes (sh_mem st') data n)"
proof -
  have buf: "message_buffer (conn_streams (conn_of st') ! k) = message_buffer (conn_streams (conn_of st) ! k)" if "k < 4" for k
    using layout_nth(1) [OF lay [symmetric]] len that by simp
  have "disjoint p 65535 data n" if "disjoint p 65535 data (length bytes)" for p
    using that n by (auto simp: disjoint_def range_ok_def)
  moreover have "ranges_disjoint data n p 65535" if "ranges_disjoint data (length bytes) p 65535" for p
    using that n by (auto simp: ranges_disjoint_def)
  ultimately show ?thesis using arr by (simp add: array_at_def buf)
qed

lemma placed_queue [simp]: "placed bld rb rc sb sc (st\<lparr>sh_queue := q\<rparr>) = placed bld rb rc sb sc st"
  by (simp add: placed_def buffers_separate_def ism_msquic_adapter_init_def split: prod.splits)

lemma received_idle: "received bld sid bytes st st1 \<Longrightarrow> idle_queue st \<Longrightarrow> idle_queue st1"
  by (simp add: received_def idle_queue_def)

end
