(* ===== verification/Smoke_Adapter.thy ===== *)
theory Smoke_Adapter
  imports Smoke_Base
begin

text \<open>
  The adapter test \<^verbatim>\<open>src/shell/link_msquic_adapter_smoke.c\<close> as a program over the model: a fake send
  function that records what it is given, and the five scenarios of the test, each on its own
  adapter. Every scenario returns true in every build and for every placement of its variables.
\<close>

section \<open>The fake transport\<close>

record fake_msquic_send =
  fs_called :: bool
  fs_calls :: u32
  fs_stream_id :: u64
  fs_len :: u32
  fs_fin :: bool
  fs_first :: u8
  fs_second :: u8
  fs_rcode_low :: u8
  fs_fail :: bool

definition fake_send :: "fake_msquic_send ism_msquic_send_fn" where
  "fake_send stream_id data len fin m capture =
     (let c1 = capture\<lparr>fs_called := True, fs_calls := fs_calls capture + 1, fs_stream_id := stream_id,
            fs_len := len, fs_fin := fin\<rparr>;
          c2 = (if len > 0 then c1\<lparr>fs_first := m data\<rparr> else c1);
          c3 = (if len > 1 then c2\<lparr>fs_second := m (data + 1)\<rparr> else c2);
          c4 = (if len > 5 then c3\<lparr>fs_rcode_low := m (data + 5)\<rparr> else c3) in
      (\<not> fs_fail c4, c4))"

definition zero_capture :: fake_msquic_send where
  "zero_capture = \<lparr>fs_called = False, fs_calls = 0, fs_stream_id = 0, fs_len = 0, fs_fin = False,
     fs_first = 0, fs_second = 0, fs_rcode_low = 0, fs_fail = False\<rparr>"

definition ingest_with_fin ::
  "build \<Rightarrow> u64 \<Rightarrow> addr \<Rightarrow> u32 \<Rightarrow> 'c shell_state \<Rightarrow> u8 \<times> 'c shell_state" where
  "ingest_with_fin bld stream_id data len st =
     (let (phase, st1) = ism_msquic_adapter_on_authenticated_stream_bytes bld Obj stream_id data len st in
      if phase = 4 then ism_msquic_adapter_on_authenticated_stream_fin bld Obj stream_id st1 else (phase, st1))"

section \<open>The scenarios\<close>

text \<open>A valid query, then everything the busy adapter must refuse, then reset twice.\<close>

definition smoke_valid :: "build \<Rightarrow> addr \<Rightarrow> addr \<Rightarrow> addr \<Rightarrow> fake_msquic_send shell_state \<Rightarrow> bool" where
  "smoke_valid bld response send_buffer query =
     run_checks
       [runs (ism_msquic_adapter_init Obj response 128 send_buffer 128 (Some fake_send) zero_capture),
        yields (ingest_with_fin bld 17 query 35) 2,
        holds (\<lambda>st. fs_called (sh_ctx st) \<and> fs_stream_id (sh_ctx st) = 17 \<and> fs_calls (sh_ctx st) = 1 \<and>
          fs_len (sh_ctx st) = 35 \<and> fs_fin (sh_ctx st) \<and> ad_send_in_flight (sh_adapter st) \<and>
          ad_send_stream_id (sh_adapter st) = 17 \<and> ad_send_len (sh_adapter st) = fs_len (sh_ctx st) \<and>
          fs_first (sh_ctx st) = 0x00 \<and> fs_second (sh_ctx st) = 0x21 \<and> fs_rcode_low (sh_ctx st) = 0x00 \<and>
          mem_bytes (sh_mem st) send_buffer 35 = expected_validated_stream_response),
        yields (ism_msquic_adapter_prepare_ready_response bld Obj 17) 0,
        holds (\<lambda>st. fs_calls (sh_ctx st) = 1 \<and> ad_send_in_flight (sh_adapter st)),
        (\<lambda>st. refuses (ism_msquic_adapter_on_send_complete bld Obj (17 + 1) (fs_len (sh_ctx st)) False) st),
        holds (\<lambda>st. ad_send_in_flight (sh_adapter st)),
        refuses (ism_msquic_adapter_on_stream_reset bld Obj (17 + 1)),
        holds (\<lambda>st. ad_send_in_flight (sh_adapter st)),
        (\<lambda>st. refuses (ism_msquic_adapter_on_send_complete bld Obj 17 (fs_len (sh_ctx st) + 1) False) st),
        holds (\<lambda>st. ad_send_in_flight (sh_adapter st)),
        ism_msquic_adapter_on_stream_reset bld Obj 17,
        holds (\<lambda>st. \<not> ad_send_in_flight (sh_adapter st) \<and> ad_send_len (sh_adapter st) = 0 \<and>
          cc_num (conn_ctx (conn_of st)) = 0),
        ism_msquic_adapter_on_stream_reset bld Obj 17,
        holds (\<lambda>st. cc_num (conn_ctx (conn_of st)) = 0)]"

text \<open>A request without a question is answered with FORMERR, then completed.\<close>

definition smoke_invalid :: "build \<Rightarrow> addr \<Rightarrow> addr \<Rightarrow> addr \<Rightarrow> fake_msquic_send shell_state \<Rightarrow> bool" where
  "smoke_invalid bld response send_buffer query =
     run_checks
       [runs (ism_msquic_adapter_init Obj response 128 send_buffer 128 (Some fake_send) zero_capture),
        yields (ingest_with_fin bld 19 query 14) 2,
        holds (\<lambda>st. fs_called (sh_ctx st) \<and> fs_stream_id (sh_ctx st) = 19 \<and> fs_calls (sh_ctx st) = 1 \<and>
          fs_len (sh_ctx st) = 14 \<and> fs_fin (sh_ctx st) \<and> ad_send_in_flight (sh_adapter st) \<and>
          ad_send_stream_id (sh_adapter st) = 19 \<and> ad_send_len (sh_adapter st) = fs_len (sh_ctx st) \<and>
          fs_first (sh_ctx st) = 0x00 \<and> fs_second (sh_ctx st) = 0x0c \<and> fs_rcode_low (sh_ctx st) = 0x01 \<and>
          mem_bytes (sh_mem st) send_buffer 14 = expected_formerr_stream),
        (\<lambda>st. ism_msquic_adapter_on_send_complete bld Obj 19 (fs_len (sh_ctx st)) False st),
        holds (\<lambda>st. \<not> ad_send_in_flight (sh_adapter st) \<and> ad_send_len (sh_adapter st) = 0 \<and>
          cc_num (conn_ctx (conn_of st)) = 0)]"

text \<open>An adapter without capacity sends and completes nothing.\<close>

definition smoke_capped :: "build \<Rightarrow> addr \<Rightarrow> addr \<Rightarrow> fake_msquic_send shell_state \<Rightarrow> bool" where
  "smoke_capped bld capped_response capped_send st0 =
     run_checks
       [runs (\<lambda>st. ism_msquic_adapter_init Obj capped_response 0 capped_send 0 (Some fake_send) (sh_ctx st) st),
        yields (ism_msquic_adapter_prepare_ready_response bld Obj 17) 0,
        refuses (ism_msquic_adapter_on_send_complete bld Obj 17 0 False)] st0"

text \<open>A partial length prefix, then reset twice.\<close>

definition smoke_reset :: "build \<Rightarrow> addr \<Rightarrow> addr \<Rightarrow> addr \<Rightarrow> fake_msquic_send shell_state \<Rightarrow> bool" where
  "smoke_reset bld response send_buffer data =
     run_checks
       [runs (ism_msquic_adapter_init Obj response 128 send_buffer 128 (Some fake_send) zero_capture),
        yields (ingest_with_fin bld 23 data 1) 0,
        holds (\<lambda>st. fs_calls (sh_ctx st) = 0 \<and> cc_num (conn_ctx (conn_of st)) = 1),
        ism_msquic_adapter_on_stream_reset bld Obj 23,
        holds (\<lambda>st. cc_num (conn_ctx (conn_of st)) = 0 \<and> \<not> ad_send_in_flight (sh_adapter st)),
        ism_msquic_adapter_on_stream_reset bld Obj 23,
        holds (\<lambda>st. cc_num (conn_ctx (conn_of st)) = 0)]"

text \<open>A transport that refuses the send: the stream is closed and the adapter idle.\<close>

definition smoke_failed_send :: "build \<Rightarrow> addr \<Rightarrow> addr \<Rightarrow> addr \<Rightarrow> fake_msquic_send shell_state \<Rightarrow> bool" where
  "smoke_failed_send bld response send_buffer query =
     run_checks
       [runs (ism_msquic_adapter_init Obj response 128 send_buffer 128 (Some fake_send)
          (zero_capture\<lparr>fs_fail := True\<rparr>)),
        yields (ingest_with_fin bld 17 query 35) 2,
        holds (\<lambda>st. fs_calls (sh_ctx st) = 1 \<and> \<not> ad_send_in_flight (sh_adapter st) \<and>
          ad_send_stream_id (sh_adapter st) = 0 \<and> ad_send_len (sh_adapter st) = 0 \<and>
          cc_num (conn_ctx (conn_of st)) = 0)]"

section \<open>Ingestion of a complete query\<close>

lemma ingest_answers:
  assumes pl: "placed bld rb 128 sb 128 st" and arr: "array_at bld st data bytes"
    and st0: "st0 = ism_msquic_adapter_init Obj rb 128 sb 128 (Some fake_send) cap st"
    and n: "length bytes < 4294967296" and full: "doq_phase bytes = AwaitingFin k"
    and id: "bytes ! 2 = 0" "bytes ! 3 = 0"
    and r: "minimal_response (drop 2 bytes) 128 = Some r" "length r + 2 \<le> 128"
    and run: "ingest_with_fin bld sid data (of_nat (length bytes)) st0 = (code, st2)"
  shows "code = 2" and "adapter_inv bld st2"
    and "mem_bytes (sh_mem st2) sb (length r + 2) = doq_frame r"
    and "fake_send sid sb (of_nat (length r + 2)) True (sh_mem st2) cap = (ad_send_in_flight (sh_adapter st2), sh_ctx st2)"
    and "if ad_send_in_flight (sh_adapter st2)
      then ad_send_stream_id (sh_adapter st2) = sid \<and> ad_send_len (sh_adapter st2) = of_nat (length r + 2) \<and>
        dom (abs_table (conn_of st2)) = {sid}
      else abs_table (conn_of st2) = Map.empty \<and> ad_send_stream_id (sh_adapter st2) = 0 \<and> ad_send_len (sh_adapter st2) = 0"
proof -
  note I = init_fresh [OF pl st0]
  obtain c1 st1 where b: "ism_msquic_adapter_on_authenticated_stream_bytes bld Obj sid data (of_nat (length bytes)) st0 = (c1, st1)"
    by fastforce
  have "doq_phase bytes \<noteq> Done" using full by simp
  note B = fresh_bytes [OF I(1,2) I(11) [OF arr] n this b]
  have "c1 = 4" using B(1) full by simp
  then have f: "ism_msquic_adapter_on_authenticated_stream_fin bld Obj sid st1 = (code, st2)"
    using run b by (simp add: ingest_with_fin_def)
  have bufs: "rb \<noteq> NULL" "sb \<noteq> NULL" "question_validator (check_question bld)" using pl by (simp_all add: placed_def)
  have "minimal_response (drop 2 bytes) (unat (ad_response_capacity (sh_adapter st0))) = Some r"
    and "length r + 2 \<le> unat (ad_send_capacity (sh_adapter st0))"
    using r by (simp_all add: I(8,10))
  note F = received_fin [OF B(2) bufs(3) I(3) I(6) _ _ full id this f, unfolded I(4,7,9), OF bufs(1,2)]
  show "code = 2" "adapter_inv bld st2" "mem_bytes (sh_mem st2) sb (length r + 2) = doq_frame r"
    "fake_send sid sb (of_nat (length r + 2)) True (sh_mem st2) cap = (ad_send_in_flight (sh_adapter st2), sh_ctx st2)"
    "if ad_send_in_flight (sh_adapter st2)
      then ad_send_stream_id (sh_adapter st2) = sid \<and> ad_send_len (sh_adapter st2) = of_nat (length r + 2) \<and>
        dom (abs_table (conn_of st2)) = {sid}
      else abs_table (conn_of st2) = Map.empty \<and> ad_send_stream_id (sh_adapter st2) = 0 \<and> ad_send_len (sh_adapter st2) = 0"
    by (rule F)+
qed

text \<open>After a finish of the only stream the table is empty.\<close>

lemma finish_only:
  assumes "adapter_inv bld st" and "dom (abs_table (conn_of st)) \<subseteq> {sid}"
  shows "cc_num (conn_ctx (finish_stream (conn_of st) sid)) = 0"
proof -
  note sh = adapter_invD(2) [OF assms(1)]
  have "abs_table (finish_stream (conn_of st) sid) = Map.empty"
    unfolding finish_stream_abs_table [OF sh] using assms(2) by (auto simp: fun_eq_iff)
  then show ?thesis using cc_num_empty finish_stream_inv [OF sh] by blast
qed

section \<open>The scenarios return true\<close>

theorem smoke_valid_passes:
  assumes pl: "placed bld response 128 send_buffer 128 st" and arr: "array_at bld st query exact_a_query"
  shows "smoke_valid bld response send_buffer query st"
proof -
  define st0 where "st0 = ism_msquic_adapter_init Obj response 128 send_buffer 128 (Some fake_send) zero_capture st"
  obtain code st2 where ing: "ingest_with_fin bld 17 query 35 st0 = (code, st2)" by fastforce
  have "minimal_response (drop 2 exact_a_query) 128 = Some (drop 2 expected_validated_stream_response)"
    by (rule exact_a_response) simp
  note A = ingest_answers [OF pl arr st0_def _ fixture_phases(1) fixture_ids(1,2) this, simplified, OF ing]
  have mem: "mem_bytes (sh_mem st2) send_buffer 35 = expected_validated_stream_response"
    using A(3) exact_a_response(2) [of 33] by simp
  have at: "sh_mem st2 send_buffer = 0" "sh_mem st2 (send_buffer + 1) = 0x21" "sh_mem st2 (send_buffer + 5) = 0"
    using mem_bytes_nth [OF _ mem, of 0] mem_bytes_nth [OF _ mem, of 1] mem_bytes_nth [OF _ mem, of 5]
    by (simp_all add: expected_validated_stream_response_def)
  have busy: "ad_send_in_flight (sh_adapter st2)" and ctx: "sh_ctx st2 = \<lparr>fs_called = True, fs_calls = 1, fs_stream_id = 17,
      fs_len = 35, fs_fin = True, fs_first = 0, fs_second = 0x21, fs_rcode_low = 0, fs_fail = False\<rparr>"
    using A(4) at by (simp_all add: fake_send_def zero_capture_def)
  let ?f = "\<lambda>st. set_send False 0 0 (set_conn (finish_stream (conn_of st) 17) st)"
  have inv3: "adapter_inv bld (?f st2)" using A(2) by (rule finish_adapter_inv)
  have zero: "cc_num (conn_ctx (finish_stream (conn_of st2) 17)) = 0"
    using finish_only [OF A(2), of 17] A(5) busy by simp
  have "abs_table (finish_stream (conn_of st2) 17) = Map.empty"
    using A(5) busy by (auto simp: finish_stream_abs_table [OF adapter_invD(2) [OF A(2)]] fun_eq_iff)
  then have zero2: "cc_num (conn_ctx (finish_stream (finish_stream (conn_of st2) 17) 17)) = 0"
    using finish_only [OF inv3, of 17] by simp
  show ?thesis
    using A(1,5) busy ing mem
    by (simp add: smoke_valid_def check_defs st0_def [symmetric] ctx prepare_busy send_complete_eq [OF A(2)]
        stream_reset_eq [OF A(2)] stream_reset_eq [OF inv3] zero zero2)
qed

theorem smoke_invalid_passes:
  assumes pl: "placed bld response 128 send_buffer 128 st" and arr: "array_at bld st query invalid_header_query"
  shows "smoke_invalid bld response send_buffer query st"
proof -
  define st0 where "st0 = ism_msquic_adapter_init Obj response 128 send_buffer 128 (Some fake_send) zero_capture st"
  obtain code st2 where ing: "ingest_with_fin bld 19 query 14 st0 = (code, st2)" by fastforce
  have "minimal_response (drop 2 invalid_header_query) 128 = Some (drop 2 expected_formerr_stream)"
    by (rule invalid_header_response) simp
  note A = ingest_answers [OF pl arr st0_def _ fixture_phases(2) fixture_ids(3,4) this, simplified, OF ing]
  have mem: "mem_bytes (sh_mem st2) send_buffer 14 = expected_formerr_stream"
    using A(3) invalid_header_response(2) [of 12] by simp
  have at: "sh_mem st2 send_buffer = 0" "sh_mem st2 (send_buffer + 1) = 0x0c" "sh_mem st2 (send_buffer + 5) = 1"
    using mem_bytes_nth [OF _ mem, of 0] mem_bytes_nth [OF _ mem, of 1] mem_bytes_nth [OF _ mem, of 5]
    by (simp_all add: expected_formerr_stream_def)
  have busy: "ad_send_in_flight (sh_adapter st2)" and ctx: "sh_ctx st2 = \<lparr>fs_called = True, fs_calls = 1, fs_stream_id = 19,
      fs_len = 14, fs_fin = True, fs_first = 0, fs_second = 0x0c, fs_rcode_low = 1, fs_fail = False\<rparr>"
    using A(4) at by (simp_all add: fake_send_def zero_capture_def)
  have zero: "cc_num (conn_ctx (finish_stream (conn_of st2) 19)) = 0"
    using finish_only [OF A(2), of 19] A(5) busy by simp
  show ?thesis
    using A(1,5) busy ing mem
    by (simp add: smoke_invalid_def check_defs st0_def [symmetric] ctx send_complete_eq [OF A(2)] zero)
qed

theorem smoke_capped_passes: "smoke_capped bld capped_response capped_send st"
  by (simp add: smoke_capped_def check_defs ism_msquic_adapter_init_def ism_msquic_adapter_prepare_ready_response_def
      ism_msquic_adapter_on_send_complete_def split: prod.splits)

theorem smoke_reset_passes:
  assumes pl: "placed bld response 128 send_buffer 128 st" and arr: "array_at bld st data partial_length_prefix"
  shows "smoke_reset bld response send_buffer data st"
proof -
  define st0 where "st0 = ism_msquic_adapter_init Obj response 128 send_buffer 128 (Some fake_send) zero_capture st"
  note I = init_fresh [OF pl st0_def]
  obtain code st1 where b: "ism_msquic_adapter_on_authenticated_stream_bytes bld Obj 23 data 1 st0 = (code, st1)"
    by fastforce
  note B = fresh_bytes [OF I(1,2) I(11) [OF arr], of 23 code st1, simplified fixture_phases, simplified, OF b]
  from B(2) obtain c conn where inv: "adapter_inv bld st1" and tab: "abs_table (conn_of st1) = [23 \<mapsto> c]"
    and ctx: "sh_ctx st1 = zero_capture" and ad: "sh_adapter st1 = (sh_adapter st0)\<lparr>ad_connection := conn\<rparr>"
    unfolding received_def I(4) by blast
  let ?f = "\<lambda>st. set_send False 0 0 (set_conn (finish_stream (conn_of st) 23) st)"
  have inv2: "adapter_inv bld (?f st1)" using inv by (rule finish_adapter_inv)
  have one: "cc_num (conn_ctx (conn_of st1)) = 1" by (rule cc_num_single [OF adapter_invD(2) [OF inv] tab])
  have zero: "cc_num (conn_ctx (finish_stream (conn_of st1) 23)) = 0"
    using finish_only [OF inv, of 23] tab by simp
  have "abs_table (finish_stream (conn_of st1) 23) = Map.empty"
    using tab by (simp add: finish_stream_abs_table [OF adapter_invD(2) [OF inv]])
  then have zero2: "cc_num (conn_ctx (finish_stream (finish_stream (conn_of st1) 23) 23)) = 0"
    using finish_only [OF inv2, of 23] by simp
  have ing: "ingest_with_fin bld 23 data 1 st0 = (0, st1)"
    using b B(1) by (simp add: ingest_with_fin_def)
  have idle: "\<not> ad_send_in_flight (sh_adapter st1)" using I(3) by (simp add: ad)
  have calls: "fs_calls (sh_ctx st1) = 0" by (simp add: ctx zero_capture_def)
  show ?thesis
    using idle one calls
    by (simp add: smoke_reset_def check_defs st0_def [symmetric] ing stream_reset_eq [OF inv]
        stream_reset_eq [OF inv2] zero zero2)
qed

theorem smoke_failed_send_passes:
  assumes pl: "placed bld response 128 send_buffer 128 st" and arr: "array_at bld st query exact_a_query"
  shows "smoke_failed_send bld response send_buffer query st"
proof -
  define st0 where "st0 = ism_msquic_adapter_init Obj response 128 send_buffer 128 (Some fake_send)
    (zero_capture\<lparr>fs_fail := True\<rparr>) st"
  obtain code st2 where ing: "ingest_with_fin bld 17 query 35 st0 = (code, st2)" by fastforce
  have "minimal_response (drop 2 exact_a_query) 128 = Some (drop 2 expected_validated_stream_response)"
    by (rule exact_a_response) simp
  note A = ingest_answers [OF pl arr st0_def _ fixture_phases(1) fixture_ids(1,2) this, simplified, OF ing]
  have idle: "\<not> ad_send_in_flight (sh_adapter st2)" and calls: "fs_calls (sh_ctx st2) = 1"
    using arg_cong [OF A(4), of fst] arg_cong [OF A(4), of "\<lambda>x. fs_calls (snd x)"]
    by (simp_all add: fake_send_def zero_capture_def Let_def)
  then have "cc_num (conn_ctx (conn_of st2)) = 0"
    using A(5) cc_num_empty [OF adapter_invD(2) [OF A(2)]] by simp
  with A(1,5) idle calls ing show ?thesis
    by (simp add: smoke_failed_send_def check_defs st0_def [symmetric])
qed

section \<open>The whole test\<close>

text \<open>The scenarios use separate adapters, buffers and captures; \<open>sts\<close> gives the variables of each.\<close>

definition ism_smoke_msquic_adapter ::
  "build \<Rightarrow> (nat \<Rightarrow> addr) \<Rightarrow> (nat \<Rightarrow> addr) \<Rightarrow> addr \<Rightarrow> addr \<Rightarrow> addr \<Rightarrow> (nat \<Rightarrow> fake_msquic_send shell_state) \<Rightarrow> bool" where
  "ism_smoke_msquic_adapter bld responses sends query invalid_query partial sts \<longleftrightarrow>
     smoke_valid bld (responses 0) (sends 0) query (sts 0) \<and>
     smoke_invalid bld (responses 1) (sends 1) invalid_query (sts 1) \<and>
     smoke_capped bld (responses 2) (sends 2) (sts 2) \<and>
     smoke_reset bld (responses 3) (sends 3) partial (sts 3) \<and>
     smoke_failed_send bld (responses 4) (sends 4) query (sts 4)"

lemma smoke_adapter:
  assumes "\<forall>k\<in>{0, 1, 3, 4}. placed bld (responses k) 128 (sends k) 128 (sts k)"
    and "array_at bld (sts 0) query exact_a_query" and "array_at bld (sts 1) invalid_query invalid_header_query"
    and "array_at bld (sts 3) partial partial_length_prefix" and "array_at bld (sts 4) query exact_a_query"
  shows "ism_smoke_msquic_adapter bld responses sends query invalid_query partial sts"
  using assms smoke_valid_passes smoke_invalid_passes smoke_capped_passes smoke_reset_passes smoke_failed_send_passes
  by (simp add: ism_smoke_msquic_adapter_def)

end
