(* ===== verification/Smoke_Queue.thy ===== *)
theory Smoke_Queue
  imports Smoke_Base
begin

text \<open>
  The event queue test \<^verbatim>\<open>src/shell/link_event_queue_smoke.c\<close> as a program over the model: order and
  overflow of the queue, then a query, its completion and a reset dispatched through the queue
  to an adapter with a recording send function.
\<close>

section \<open>The fake transport\<close>

record queue_fake_send =
  qf_called :: bool
  qf_stream_id :: u64
  qf_len :: u32
  qf_fin :: bool

definition queue_fake_send_fn :: "queue_fake_send ism_msquic_send_fn" where
  "queue_fake_send_fn stream_id data len fin m capture =
     (if data = NULL then (False, capture)
      else (True, capture\<lparr>qf_called := True, qf_stream_id := stream_id, qf_len := len, qf_fin := fin\<rparr>))"

definition no_send :: queue_fake_send where
  "no_send = \<lparr>qf_called = False, qf_stream_id = 0, qf_len = 0, qf_fin = False\<rparr>"

section \<open>The program\<close>

text \<open>The variables: the local event, and the state with the queue (whose storage has four entries),
  the adapter and the capture.\<close>

type_synonym smoke_vars = "ism_shell_event \<times> queue_fake_send shell_state"

definition on_queue ::
  "(ism_shell_event_queue option \<Rightarrow> bool \<times> ism_shell_event_queue option) \<Rightarrow> smoke_vars check" where
  "on_queue f v = (let (ok, q) = f (queue_at Obj (snd v)) in (ok, (fst v, put_queue q (snd v))))"

definition on_state :: "(queue_fake_send shell_state \<Rightarrow> bool \<times> queue_fake_send shell_state) \<Rightarrow> smoke_vars check" where
  "on_state f v = (let (ok, st) = f (snd v) in (ok, (fst v, st)))"

definition take_event :: "smoke_vars check" where
  "take_event v =
     (let (ok, e, q) = ism_shell_event_queue_dequeue (queue_at Obj (snd v)) (Some (fst v)) in
      (ok, (the e, put_queue q (snd v))))"

text \<open>\<^verbatim>\<open>ism_shell_event_queue_init (&queue, storage, capacity)\<close> over the program's one storage array.\<close>

definition queue_init :: "u32 \<Rightarrow> smoke_vars check" where
  "queue_init capacity =
     runs (\<lambda>v. (fst v, put_queue (ism_shell_event_queue_init (queue_at Obj (snd v))
            (q_events (sh_queue (snd v))) capacity) (snd v)))"

definition queue_len :: "smoke_vars \<Rightarrow> u32" where
  "queue_len v = ism_shell_event_queue_len (queue_at Obj (snd v))"

text \<open>Order, overflow and underflow of a queue of two events.\<close>

definition smoke_fifo :: "addr \<Rightarrow> smoke_vars check list" where
  "smoke_fifo query =
     [queue_init 2,
      on_queue (\<lambda>q. ism_shell_event_queue_enqueue_authenticated_stream_bytes q 1 query 35),
      on_queue (\<lambda>q. ism_shell_event_queue_enqueue_ready_response q 2),
      refuses (on_queue (\<lambda>q. ism_shell_event_queue_enqueue_send_complete q 3 4 False)),
      holds (\<lambda>v. queue_len v = 2),
      take_event,
      holds (\<lambda>v. ev_kind (fst v) = ISM_SHELL_EVENT_AUTHENTICATED_STREAM_BYTES \<and> ev_stream_id (fst v) = 1 \<and>
        ev_data (fst v) = query \<and> ev_len (fst v) = 35),
      take_event,
      holds (\<lambda>v. ev_kind (fst v) = ISM_SHELL_EVENT_READY_RESPONSE \<and> ev_stream_id (fst v) = 2),
      refuses take_event]"

text \<open>A query through a queue of one event, its completion, a partial query and its reset.\<close>

definition smoke_dispatch :: "build \<Rightarrow> addr \<Rightarrow> addr \<Rightarrow> addr \<Rightarrow> smoke_vars check list" where
  "smoke_dispatch bld response send_buffer query =
     [queue_init 1,
      runs (\<lambda>v. (fst v, ism_msquic_adapter_init Obj response 128 send_buffer 128 (Some queue_fake_send_fn) no_send (snd v))),
      on_queue (\<lambda>q. ism_shell_event_queue_enqueue_authenticated_stream_bytes q 31 query 35),
      on_state (ism_shell_event_queue_dispatch_one bld Obj Obj),
      holds (\<lambda>v. \<not> qf_called (sh_ctx (snd v))),
      on_queue (\<lambda>q. ism_shell_event_queue_enqueue_authenticated_stream_fin q 31),
      on_state (ism_shell_event_queue_dispatch_one bld Obj Obj),
      holds (\<lambda>v. qf_called (sh_ctx (snd v)) \<and> qf_stream_id (sh_ctx (snd v)) = 31 \<and> qf_len (sh_ctx (snd v)) = 35 \<and>
        qf_fin (sh_ctx (snd v)) \<and> queue_len v = 0 \<and>
        mem_bytes (sh_mem (snd v)) send_buffer 35 = expected_validated_stream_response),
      (\<lambda>v. on_queue (\<lambda>q. ism_shell_event_queue_enqueue_send_complete q 31 (qf_len (sh_ctx (snd v))) False) v),
      on_state (ism_shell_event_queue_dispatch_one bld Obj Obj),
      holds (\<lambda>v. cc_num (conn_ctx (conn_of (snd v))) = 0),
      on_queue (\<lambda>q. ism_shell_event_queue_enqueue_authenticated_stream_bytes q 31 query 1),
      on_state (ism_shell_event_queue_dispatch_one bld Obj Obj),
      holds (\<lambda>v. cc_num (conn_ctx (conn_of (snd v))) = 1),
      on_queue (\<lambda>q. ism_shell_event_queue_enqueue_stream_reset q 31),
      on_state (ism_shell_event_queue_dispatch_one bld Obj Obj),
      holds (\<lambda>v. cc_num (conn_ctx (conn_of (snd v))) = 0)]"

definition ism_smoke_event_queue :: "build \<Rightarrow> addr \<Rightarrow> addr \<Rightarrow> addr \<Rightarrow> smoke_vars \<Rightarrow> bool" where
  "ism_smoke_event_queue bld response send_buffer query =
     run_checks (smoke_fifo query @ smoke_dispatch bld response send_buffer query)"

section \<open>An event through an idle queue\<close>

lemma queue_step:
  assumes idle: "idle_queue (snd v)"
    and f: "f (Some (sh_queue (snd v))) = ism_shell_event_queue_enqueue (Some (sh_queue (snd v))) e"
  obtains q where "queue_inv q" "queue_items q = []"
    "run_checks (on_queue f # on_state (ism_shell_event_queue_dispatch_one bld Obj Obj) # ps) v =
      (case dispatch_event bld Obj e ((snd v)\<lparr>sh_queue := q\<rparr>) of (ok, st) \<Rightarrow> ok \<and> run_checks ps (fst v, st))"
proof -
  have q: "queue_inv (sh_queue (snd v))" "queue_items (sh_queue (snd v)) = []" using idle by (simp_all add: idle_queue_def)
  obtain ok q1 where en: "ism_shell_event_queue_enqueue (Some (sh_queue (snd v))) e = (ok, q1)" by fastforce
  from enqueue_dispatch(1) [OF q en] enqueue_dispatch(2) [OF q en, of bld] obtain q2 where
    "ok" "queue_inv q2" "queue_items q2 = []" "ism_shell_event_queue_dispatch_one bld Obj Obj (put_queue q1 (snd v))
      = dispatch_event bld Obj e ((snd v)\<lparr>sh_queue := q2\<rparr>)" by blast
  with that [of q2] en f show ?thesis
    by (simp add: on_queue_def on_state_def queue_at_def split: prod.splits)
qed

section \<open>The test returns true\<close>

lemma smoke_fifo_passes:
  assumes "q_events (sh_queue st) = Some [e0, e1, e2, e3]" and "query \<noteq> NULL"
  shows "run_checks (smoke_fifo query @ ps) (ev, st) = run_checks ps (ready_event 2,
    st\<lparr>sh_queue := \<lparr>q_events = Some [bytes_event 1 query 35, ready_event 2, e2, e3], q_capacity = 2, q_head = 0, q_count = 0\<rparr>\<rparr>)"
proof -
  have "\<not> (2 :: u32) \<le> 1" by (simp add: word_le_nat_alt)
  with assms show ?thesis
    by (cases "sh_queue st")
      (simp add: smoke_fifo_def check_defs queue_init_def on_queue_def take_event_def queue_len_def queue_at_def put_queue_def
        ism_shell_event_queue_init_def ism_shell_event_queue_enqueue_authenticated_stream_bytes_def
        ism_shell_event_queue_enqueue_ready_response_def ism_shell_event_queue_enqueue_send_complete_def
        ism_shell_event_queue_enqueue_def ism_shell_event_queue_dequeue_def ism_shell_event_queue_has_storage_def
        ism_shell_event_queue_len_def bytes_event_def ready_event_def complete_event_def Let_def)
qed

lemma one_slot_queue: "length es = 4 \<Longrightarrow>
    queue_inv \<lparr>q_events = Some es, q_capacity = 1, q_head = 0, q_count = 0\<rparr> \<and>
    queue_items \<lparr>q_events = Some es, q_capacity = 1, q_head = 0, q_count = 0\<rparr> = []"
  by (simp add: queue_inv_def queue_items_def)

text \<open>The first half of the dispatch test: the query is answered.\<close>

lemma smoke_query:
  assumes pl: "placed bld response 128 send_buffer 128 st" and arr: "array_at bld st query exact_a_query"
    and st0: "st0 = ism_msquic_adapter_init Obj response 128 send_buffer 128 (Some queue_fake_send_fn) no_send st"
    and idle: "idle_queue st"
    and rest: "\<And>st2. adapter_inv bld st2 \<Longrightarrow> idle_queue st2 \<Longrightarrow> ad_send_in_flight (sh_adapter st2) \<Longrightarrow>
      ad_send_stream_id (sh_adapter st2) = 31 \<Longrightarrow> ad_send_len (sh_adapter st2) = 35 \<Longrightarrow>
      dom (abs_table (conn_of st2)) = {31} \<Longrightarrow>
      sh_ctx st2 = \<lparr>qf_called = True, qf_stream_id = 31, qf_len = 35, qf_fin = True\<rparr> \<Longrightarrow>
      mem_bytes (sh_mem st2) send_buffer 35 = expected_validated_stream_response \<Longrightarrow> same_setup st0 st2 \<Longrightarrow>
      run_checks ps (ev, st2)"
  shows "run_checks
      (on_queue (\<lambda>q. ism_shell_event_queue_enqueue_authenticated_stream_bytes q 31 query 35) #
       on_state (ism_shell_event_queue_dispatch_one bld Obj Obj) #
       holds (\<lambda>v. \<not> qf_called (sh_ctx (snd v))) #
       on_queue (\<lambda>q. ism_shell_event_queue_enqueue_authenticated_stream_fin q 31) #
       on_state (ism_shell_event_queue_dispatch_one bld Obj Obj) # ps) (ev, st0)"
proof -
  note I = init_fresh [OF pl st0]
  have idle0: "idle_queue st0" using idle I(5) by (simp add: idle_queue_def)
  have arr0: "array_at bld st0 query exact_a_query" using arr by (rule I(11))
  then have null: "query \<noteq> NULL" by (simp add: array_at_def)
  let ?ps = "holds (\<lambda>v. \<not> qf_called (sh_ctx (snd v))) #
       on_queue (\<lambda>q. ism_shell_event_queue_enqueue_authenticated_stream_fin q 31) #
       on_state (ism_shell_event_queue_dispatch_one bld Obj Obj) # ps"
  obtain q where q: "queue_inv q" "queue_items q = []" and r1: "run_checks
      (on_queue (\<lambda>q. ism_shell_event_queue_enqueue_authenticated_stream_bytes q 31 query 35) #
       on_state (ism_shell_event_queue_dispatch_one bld Obj Obj) # ?ps) (ev, st0) =
      (case dispatch_event bld Obj (bytes_event 31 query 35) (st0\<lparr>sh_queue := q\<rparr>) of (ok, st) \<Rightarrow> ok \<and> run_checks ?ps (ev, st))"
    by (rule queue_step [of "(ev, st0)" "\<lambda>q. ism_shell_event_queue_enqueue_authenticated_stream_bytes q 31 query 35"
          "bytes_event 31 query 35" bld ?ps])
      (use idle0 null in \<open>simp_all add: ism_shell_event_queue_enqueue_authenticated_stream_bytes_def\<close>)
  obtain st1 where d1: "dispatch_event bld Obj (bytes_event 31 query 35) (st0\<lparr>sh_queue := q\<rparr>) = (True, st1)"
      and rec: "received bld 31 exact_a_query (st0\<lparr>sh_queue := q\<rparr>) st1"
    by (rule bytes_on_empty [of bld "st0\<lparr>sh_queue := q\<rparr>" query exact_a_query 35 31])
      (use I(1,2) arr0 fixture_phases in simp_all)
  have "idle_queue st1" using received_idle [OF rec] q by (simp add: idle_queue_def)
  then obtain q2 where q2: "queue_inv q2" "queue_items q2 = []" and r2: "run_checks
      (on_queue (\<lambda>q. ism_shell_event_queue_enqueue_authenticated_stream_fin q 31) #
       on_state (ism_shell_event_queue_dispatch_one bld Obj Obj) # ps) (ev, st1) =
      (case dispatch_event bld Obj (fin_event 31) (st1\<lparr>sh_queue := q2\<rparr>) of (ok, st) \<Rightarrow> ok \<and> run_checks ps (ev, st))"
    using queue_step [of "(ev, st1)" "\<lambda>q. ism_shell_event_queue_enqueue_authenticated_stream_fin q 31" "fin_event 31" bld ps]
    by (auto simp: ism_shell_event_queue_enqueue_authenticated_stream_fin_def)
  obtain code st2 where f: "ism_msquic_adapter_on_authenticated_stream_fin bld Obj 31 (st1\<lparr>sh_queue := q2\<rparr>) = (code, st2)"
    by fastforce
  have rec2: "received bld 31 exact_a_query (st0\<lparr>sh_queue := q2\<rparr>) (st1\<lparr>sh_queue := q2\<rparr>)"
    using rec by (simp add: received_def same_setup_def)
  have bufs: "response \<noteq> NULL" "send_buffer \<noteq> NULL" "question_validator (check_question bld)" using pl by (simp_all add: placed_def)
  then have pos: "0 < response" "0 < send_buffer" by (simp_all add: word_gt_0)
  have resp: "minimal_response (drop 2 exact_a_query) 128 = Some (drop 2 expected_validated_stream_response)"
    by (rule exact_a_response) simp
  note F = received_fin [OF rec2 bufs(3) _ _ _ _ fixture_phases(1) fixture_ids(1,2) _ _ f,
      of queue_fake_send_fn "drop 2 expected_validated_stream_response", simplified, OF I(3) I(6), unfolded I(4,7-10), simplified,
      OF pos resp]
  have "ad_send_in_flight (sh_adapter st2)" and ctx: "sh_ctx st2 = \<lparr>qf_called = True, qf_stream_id = 31, qf_len = 35, qf_fin = True\<rparr>"
    using F(6) bufs(2) by (simp_all add: queue_fake_send_fn_def no_send_def)
  moreover have "dispatch_event bld Obj (fin_event 31) (st1\<lparr>sh_queue := q2\<rparr>) = (True, st2)"
    using f F(1) by (simp add: dispatch_event_def fin_event_def)
  moreover have "\<not> qf_called (sh_ctx st1)" using rec I(4) by (simp add: received_def no_send_def)
  moreover have "idle_queue st2" using F(3) q2 by (simp add: idle_queue_def)
  moreover have "same_setup st0 st2" using F(4) by (simp add: same_setup_def)
  ultimately show ?thesis
    using rest [of st2] F r1 r2 d1 exact_a_response(2) [of 33] by (simp add: check_defs)
qed

text \<open>The second half: the completion, a fragment of one byte and its reset.\<close>

lemma smoke_finish:
  assumes idle: "idle_queue st" and inv: "adapter_inv bld st" and dom: "dom (abs_table (conn_of st)) = {sid}"
    and e: "e = reset_event sid \<and> \<not> ad_send_in_flight (sh_adapter st) \<or>
      e = complete_event sid (ad_send_len (sh_adapter st)) d \<and> ad_send_in_flight (sh_adapter st) \<and>
        ad_send_stream_id (sh_adapter st) = sid"
    and f: "f (Some (sh_queue st)) = ism_shell_event_queue_enqueue (Some (sh_queue st)) e"
    and rest: "\<And>st1. idle_queue st1 \<Longrightarrow> adapter_inv bld st1 \<Longrightarrow> abs_table (conn_of st1) = Map.empty \<Longrightarrow>
      \<not> ad_send_in_flight (sh_adapter st1) \<Longrightarrow> conn_layout (conn_of st1) = conn_layout (conn_of st) \<Longrightarrow>
      run_checks ps (ev, st1)"
  shows "run_checks (on_queue f # on_state (ism_shell_event_queue_dispatch_one bld Obj Obj) #
      holds (\<lambda>v. cc_num (conn_ctx (conn_of (snd v))) = 0) # ps) (ev, st)"
proof -
  let ?ps = "holds (\<lambda>v. cc_num (conn_ctx (conn_of (snd v))) = 0) # ps"
  obtain q where q: "queue_inv q" "queue_items q = []" and r: "run_checks (on_queue f #
      on_state (ism_shell_event_queue_dispatch_one bld Obj Obj) # ?ps) (ev, st) =
      (case dispatch_event bld Obj e (st\<lparr>sh_queue := q\<rparr>) of (ok, st) \<Rightarrow> ok \<and> run_checks ?ps (ev, st))"
    using queue_step [of "(ev, st)" f e bld ?ps] idle f by auto
  obtain st1 where S: "dispatch_event bld Obj e (st\<lparr>sh_queue := q\<rparr>) = (True, st1)" "adapter_inv bld st1"
    "abs_table (conn_of st1) = Map.empty" "sh_queue st1 = q" "conn_layout (conn_of st1) = conn_layout (conn_of st)"
    by (rule finish_on_only [of bld "st\<lparr>sh_queue := q\<rparr>" sid e d]) (use inv dom e in simp_all)
  moreover have "\<not> ad_send_in_flight (sh_adapter st1)" using S(2,3) by (auto simp: adapter_inv_def Let_def)
  moreover have "cc_num (conn_ctx (conn_of st1)) = 0" using cc_num_empty [OF adapter_invD(2) [OF S(2)] S(3)] .
  ultimately show ?thesis using rest [of st1] r q by (simp add: check_defs idle_queue_def)
qed

lemma smoke_fragment:
  assumes idle: "idle_queue st" and inv: "adapter_inv bld st" and tab: "abs_table (conn_of st) = Map.empty"
    and arr: "array_at bld st query [b]" and free: "\<not> ad_send_in_flight (sh_adapter st)"
    and rest: "\<And>st1. idle_queue st1 \<Longrightarrow> adapter_inv bld st1 \<Longrightarrow> dom (abs_table (conn_of st1)) = {31} \<Longrightarrow>
      \<not> ad_send_in_flight (sh_adapter st1) \<Longrightarrow>
      run_checks ps (ev, st1)"
  shows "run_checks (on_queue (\<lambda>q. ism_shell_event_queue_enqueue_authenticated_stream_bytes q 31 query 1) #
      on_state (ism_shell_event_queue_dispatch_one bld Obj Obj) #
      holds (\<lambda>v. cc_num (conn_ctx (conn_of (snd v))) = 1) # ps) (ev, st)"
proof -
  let ?ps = "holds (\<lambda>v. cc_num (conn_ctx (conn_of (snd v))) = 1) # ps"
  have null: "query \<noteq> NULL" using arr by (simp add: array_at_def)
  obtain q where q: "queue_inv q" "queue_items q = []" and r: "run_checks
      (on_queue (\<lambda>q. ism_shell_event_queue_enqueue_authenticated_stream_bytes q 31 query 1) #
       on_state (ism_shell_event_queue_dispatch_one bld Obj Obj) # ?ps) (ev, st) =
      (case dispatch_event bld Obj (bytes_event 31 query 1) (st\<lparr>sh_queue := q\<rparr>) of (ok, st) \<Rightarrow> ok \<and> run_checks ?ps (ev, st))"
    by (rule queue_step [of "(ev, st)" "\<lambda>q. ism_shell_event_queue_enqueue_authenticated_stream_bytes q 31 query 1"
          "bytes_event 31 query 1" bld ?ps])
      (use idle null in \<open>simp_all add: ism_shell_event_queue_enqueue_authenticated_stream_bytes_def\<close>)
  obtain st1 where d1: "dispatch_event bld Obj (bytes_event 31 query 1) (st\<lparr>sh_queue := q\<rparr>) = (True, st1)"
      and rec: "received bld 31 [b] (st\<lparr>sh_queue := q\<rparr>) st1"
    by (rule bytes_on_empty [of bld "st\<lparr>sh_queue := q\<rparr>" query "[b]" 1 31]) (use inv tab arr in simp_all)
  have "idle_queue st1" using received_idle [OF rec] q by (simp add: idle_queue_def)
  moreover from rec obtain c where c: "adapter_inv bld st1" "abs_table (conn_of st1) = [31 \<mapsto> c]"
    by (auto simp: received_def)
  moreover have "cc_num (conn_ctx (conn_of st1)) = 1" using cc_num_single [OF adapter_invD(2) [OF c(1)] c(2)] .
  moreover have "\<not> ad_send_in_flight (sh_adapter st1)" using rec free by (auto simp: received_def)
  ultimately show ?thesis using rest [of st1] r d1 by (simp add: check_defs)
qed

lemma smoke_dispatch_passes:
  assumes pl: "placed bld response 128 send_buffer 128 st" and arr: "array_at bld st query exact_a_query"
    and q: "q_events (sh_queue st) = Some es" "length es = 4"
  shows "run_checks (smoke_dispatch bld response send_buffer query) (ev, st)"
proof -
  let ?q = "\<lparr>q_events = Some es, q_capacity = 1, q_head = 0, q_count = 0\<rparr>"
  define st0 where "st0 = ism_msquic_adapter_init Obj response 128 send_buffer 128 (Some queue_fake_send_fn) no_send (st\<lparr>sh_queue := ?q\<rparr>)"
  have pl': "placed bld response 128 send_buffer 128 (st\<lparr>sh_queue := ?q\<rparr>)" using pl by simp
  have idle: "idle_queue (st\<lparr>sh_queue := ?q\<rparr>)" using one_slot_queue [OF q(2)] by (simp add: idle_queue_def)
  have start: "run_checks (queue_init 1 # runs (\<lambda>v. (fst v, ism_msquic_adapter_init Obj response 128 send_buffer 128
      (Some queue_fake_send_fn) no_send (snd v))) # ps) (ev, st) = run_checks ps (ev, st0)" for ps
    using q by (cases "sh_queue st")
      (simp add: queue_init_def check_defs st0_def ism_shell_event_queue_init_def queue_at_def put_queue_def)
  note I = init_fresh [OF pl' st0_def]
  have arr0: "array_at bld st0 query exact_a_query" using arr by (intro I(11)) simp
  have sh0: "length (conn_streams (conn_of st0)) = 4" using adapter_invD(2) [OF I(1)] by (rule shell_invD)
  show ?thesis
    unfolding smoke_dispatch_def start
  proof (rule smoke_query [OF pl' _ st0_def idle, of query], goal_cases)
    case answered: (2 st2)
    have lay2: "conn_layout (conn_of st2) = conn_layout (conn_of st0)" using answered(9) by (simp add: same_setup_def)
    have sent: "run_checks (holds (\<lambda>v. qf_called (sh_ctx (snd v)) \<and> qf_stream_id (sh_ctx (snd v)) = 31 \<and>
        qf_len (sh_ctx (snd v)) = 35 \<and> qf_fin (sh_ctx (snd v)) \<and> queue_len v = 0 \<and>
        mem_bytes (sh_mem (snd v)) send_buffer 35 = expected_validated_stream_response) # ps) (ev, st2) = run_checks ps (ev, st2)" for ps
      using answered(7,8) idle_len [OF answered(2)] by (simp add: check_defs queue_len_def)
    have complete: "run_checks ((\<lambda>v. on_queue (\<lambda>q. ism_shell_event_queue_enqueue_send_complete q 31
          (qf_len (sh_ctx (snd v))) False) v) # ps) (ev, st2) =
        run_checks (on_queue (\<lambda>q. ism_shell_event_queue_enqueue_send_complete q 31 35 False) # ps) (ev, st2)" for ps
      using answered(7) by simp
    show ?case
      unfolding sent complete
    proof (rule smoke_finish [of st2 bld 31 "complete_event 31 35 False" False], goal_cases)
      case done3: (6 st3)
      have lay3: "conn_layout (conn_of st3) = conn_layout (conn_of st0)" using done3(5) lay2 by simp
      have arr3: "array_at bld st3 query [sh_mem st3 query]"
        using array_at_moved [OF arr0 lay3 sh0, of 1] by (simp add: mem_bytes_def)
      show ?case
      proof (rule smoke_fragment [OF done3(1-3) arr3 done3(4)], goal_cases)
        case open4: (1 st4)
        show ?case
          by (rule smoke_finish [of st4 bld 31 "reset_event 31" False])
            (use open4 in \<open>simp_all add: ism_shell_event_queue_enqueue_stream_reset_def\<close>)
      qed
    qed (use answered in \<open>simp_all add: ism_shell_event_queue_enqueue_send_complete_def\<close>)
  qed (use arr in simp)
qed

lemma smoke_event_queue:
  assumes "placed bld response 128 send_buffer 128 st" and arr: "array_at bld st query exact_a_query"
    and "q_events (sh_queue st) = Some [e0, e1, e2, e3]"
  shows "ism_smoke_event_queue bld response send_buffer query (ev, st)"
proof -
  have "query \<noteq> NULL" using arr by (simp add: array_at_def)
  from smoke_fifo_passes [OF assms(3) this] show ?thesis
    unfolding ism_smoke_event_queue_def using assms by (simp add: smoke_dispatch_passes)
qed

end
