(* ===== verification/Smoke_Framing.thy ===== *)
theory Smoke_Framing
  imports Smoke_Base
begin

text \<open>
  The framing test \<^verbatim>\<open>src/shell/link_shell_response_boundary_smoke.c\<close> as a program over the model:
  every length at the boundaries of the framing function, with every capacity at its own
  boundaries, into an output buffer with a guard byte on either side. The test returns true
  wherever its two buffers stand.
\<close>

section \<open>The program\<close>

definition framing_context :: "addr \<Rightarrow> stream_context" where
  "framing_context input = \<lparr>sc_id = 0xFFFFFFFFFFFFFFFF, sc_phase = S_Processing 12, sc_buf = input\<rparr>"

definition framing_lengths :: "u32 list" where
  "framing_lengths = [0, 1, 12, 255, 256, 65534, 65535, 65536]"

definition framing_capacities :: "u32 \<Rightarrow> u32 list" where
  "framing_capacities len = [0, 1, len + 1, len + 2, 65539]"

definition framing_fin_codes :: "u8 list" where
  "framing_fin_codes = [0, 1, 255]"

definition input_byte :: "nat \<Rightarrow> u8" where
  "input_byte i = of_nat (i * 29 + 17)"

definition expected_length :: "u32 \<Rightarrow> u32 \<Rightarrow> u32" where
  "expected_length len capacity = (if len \<le> 65535 \<and> capacity \<ge> len + 2 then len + 2 else 0)"

definition expected_byte :: "(nat \<Rightarrow> u8) \<Rightarrow> u32 \<Rightarrow> u32 \<Rightarrow> nat \<Rightarrow> u8" where
  "expected_byte source len expected i =
     (if expected \<noteq> 0 \<and> i < unat expected
      then if i = 0 then ucast (drop_bit 8 len) else if i = 1 then ucast len else source (i - 2)
      else 0x79)"

text \<open>One iteration. The context is passed by address and not written; the function of the model
  takes its value.\<close>

definition framing_regression :: "addr \<Rightarrow> addr \<Rightarrow> u32 \<Rightarrow> u32 \<Rightarrow> u8 \<Rightarrow> mem check" where
  "framing_regression input guarded_output len capacity fin m =
     (let output = guarded_output + 1;
          expected = expected_length len capacity;
          m1 = mem_write m input (map input_byte [0..<65536]);
          m2 = mem_write m1 guarded_output (replicate 65541 0x79);
          (result, m3) = prepare_doq_response_send_for_stream (framing_context input) input len output capacity fin m2 in
      (result = expected \<and>
       list_all (\<lambda>i. m3 (input + i) = input_byte i) [0..<65536] \<and>
       list_all (\<lambda>i. m3 (output + i) = expected_byte input_byte len expected i) [0..<65539] \<and>
       m3 guarded_output = 0x79 \<and> m3 (guarded_output + 65540) = 0x79, m3))"

definition framing_regressions :: "addr \<Rightarrow> addr \<Rightarrow> mem \<Rightarrow> bool" where
  "framing_regressions input guarded_output =
     run_checks [framing_regression input guarded_output len capacity fin.
       len \<leftarrow> framing_lengths, capacity \<leftarrow> framing_capacities len, fin \<leftarrow> framing_fin_codes]"

section \<open>The test returns true\<close>

lemma run_checks_all: "(\<And>p s. p \<in> set ps \<Longrightarrow> fst (p s)) \<Longrightarrow> run_checks ps s"
proof (induction ps arbitrary: s)
  case (Cons p ps t)
  have "fst (p t)" by (rule Cons.prems) simp
  moreover have "run_checks ps u" for u by (rule Cons.IH) (simp add: Cons.prems)
  ultimately show ?case by (simp add: split_beta)
qed simp

lemma expected_length_eq: "expected_length len capacity = framed_length len capacity"
  by (simp add: expected_length_def framed_length_def Let_def not_less word_le_nat_alt word_less_nat_alt)

text \<open>What the iteration reads before the call.\<close>

lemma framing_memory:
  assumes "ranges_disjoint input 65536 guarded 65541"
  shows "i < 65536 \<Longrightarrow> mem_write (mem_write m input (map source [0..<65536])) guarded (replicate 65541 0x79) (input + i) = source i"
    and "i < 65541 \<Longrightarrow> mem_write (mem_write m input (map source [0..<65536])) guarded (replicate 65541 0x79) (guarded + i) = 0x79"
  using assms by (auto simp: mem_write_def ranges_disjoint_def)

text \<open>What framing leaves in the output, in its guard bytes and in the input.\<close>

lemma framed_buffers:
  assumes sep: "ranges_disjoint input 65536 guarded 65541" and len: "unat len \<le> 65536" and cap: "unat capacity \<le> 65539"
    and M: "\<And>i. i < 65536 \<Longrightarrow> m2 (input + i) = source i" "\<And>i. i < 65541 \<Longrightarrow> m2 (guarded + i) = 0x79"
    and run: "prepare_doq_response_send_for_stream s input len (guarded + 1) capacity fin m2 = (n, m3)"
  shows "n = expected_length len capacity" and "i < 65536 \<Longrightarrow> m3 (input + i) = source i"
    and "i < 65539 \<Longrightarrow> m3 (guarded + 1 + i) = expected_byte source len n i"
    and "m3 guarded = 0x79" and "m3 (guarded + 65540) = 0x79"
proof -
  have dis: "ranges_disjoint input (unat len) (guarded + 1) (unat capacity)"
    using sep len cap by (auto simp: ranges_disjoint_def)
  have "n = framed_length len capacity \<and> mem_frame (guarded + 1) (unat n) m2 m3 \<and> unat n \<le> 65539 \<and>
      (\<forall>i < unat n. m3 (guarded + 1 + i) = expected_byte source len n i)"
  proof (cases "framed_length len capacity = 0")
    case True
    with run show ?thesis by (simp add: prepare_doq_rejects)
  next
    case False
    note F = prepare_doq_frame [OF False dis run]
    have "m3 (guarded + 1 + i) = expected_byte source len n i" if "i < unat n" for i
    proof -
      have "m3 (guarded + 1 + i) = (prefix_hi len # prefix_lo len # mem_bytes m2 input (unat len)) ! i"
        using F(3) that by (rule mem_bytes_nth [rotated])
      with that F(1,2) False len show ?thesis
        by (auto simp: expected_byte_def prefix_hi_def prefix_lo_def nth_Cons mem_bytes_def M(1) split: nat.split)
    qed
    moreover have "unat n \<le> 65539" using False F(2) cap by (simp add: framed_length_eq_0)
    ultimately show ?thesis using F by blast
  qed
  then have n: "n = framed_length len capacity" and fr: "mem_frame (guarded + 1) (unat n) m2 m3" and "unat n \<le> 65539"
    and out: "\<And>i. i < unat n \<Longrightarrow> m3 (guarded + 1 + i) = expected_byte source len n i" by blast+
  show "n = expected_length len capacity" using n by (simp add: expected_length_eq)
  show "m3 (input + i) = source i" if "i < 65536"
    using fr sep that \<open>unat n \<le> 65539\<close> M(1) by (auto simp: mem_frame_def ranges_disjoint_def)
  show "m3 (guarded + 1 + i) = expected_byte source len n i" if "i < 65539"
  proof (cases "i < unat n")
    case False
    with fr M(2) [of "i + 1"] that show ?thesis by (simp add: mem_frame_def expected_byte_def add.assoc)
  qed (rule out)
  show "m3 guarded = 0x79" "m3 (guarded + 65540) = 0x79"
    using fr M(2) [of 0] M(2) [of 65540] \<open>unat n \<le> 65539\<close> by (simp_all add: mem_frame_def)
qed

lemma framing_regression_passes:
  assumes sep: "ranges_disjoint input 65536 guarded 65541" and len: "unat len \<le> 65536" and cap: "unat capacity \<le> 65539"
  shows "fst (framing_regression input guarded len capacity fin m)"
proof -
  let ?m2 = "mem_write (mem_write m input (map input_byte [0..<65536])) guarded (replicate 65541 (0x79 :: u8))"
  obtain n m3 where run: "prepare_doq_response_send_for_stream (framing_context input) input len (guarded + 1) capacity fin ?m2
      = (n, m3)" by fastforce
  from framed_buffers [OF sep len cap framing_memory [OF sep] run] run show ?thesis
    by (simp add: framing_regression_def Let_def list_all_iff)
qed

lemma framing_arguments:
  assumes "len \<in> set framing_lengths" and "capacity \<in> set (framing_capacities len)"
  shows "unat len \<le> 65536" and "unat capacity \<le> 65539"
  using assms by (auto simp: framing_lengths_def framing_capacities_def)

lemma framing_passes:
  assumes "ranges_disjoint input 65536 guarded_output 65541"
  shows "framing_regressions input guarded_output m"
  unfolding framing_regressions_def
  using framing_arguments framing_regression_passes [OF assms] by (intro run_checks_all) auto

end
