(* ===== verification/Smoke_Shell.thy ===== *)
theory Smoke_Shell
  imports Smoke_Base
begin

text \<open>
  The shell test \<^verbatim>\<open>src/shell/link_shell_scaffold_smoke.c\<close> as a program over the model: streams that
  come and go on one connection, then a query on a fresh connection for each of the response
  constructors, called directly and through the scheduler. Every scenario returns true in
  every build and for every placement of its variables.
\<close>

section \<open>The program\<close>

text \<open>The variables of a scenario: its connection, and the memory with the arrays.\<close>

type_synonym scaffold_vars = "ism_shell_connection \<times> mem"

definition ingest_direct_complete ::
  "build \<Rightarrow> u64 \<Rightarrow> addr \<Rightarrow> u32 \<Rightarrow> scaffold_vars \<Rightarrow> u8 \<times> scaffold_vars" where
  "ingest_direct_complete bld stream_id data len v =
     (let (phase, conn, m) = ism_shell_on_authenticated_stream_data bld (fst v) stream_id data len (snd v) in
      if phase = 4 then ism_shell_on_authenticated_stream_fin bld conn stream_id m else (phase, conn, m))"

definition ingest_scheduler_complete ::
  "build \<Rightarrow> u64 \<Rightarrow> addr \<Rightarrow> u32 \<Rightarrow> scaffold_vars \<Rightarrow> u8 \<times> scaffold_vars" where
  "ingest_scheduler_complete bld stream_id data len v =
     (let (phase, conn, m) = ism_shell_dispatch_authenticated_stream_data bld (fst v) stream_id data len (snd v) in
      if phase = 4 then ism_shell_on_authenticated_stream_fin bld conn stream_id m else (phase, conn, m))"

definition header_only_doq_message :: "u8 list" where
  "header_only_doq_message = [0, 12, 0, 0, 0, 0, 0, 0, 0, 0, 0, 0, 0, 0]"

definition expected_validated_response :: "u8 list" where
  "expected_validated_response =
     [0x00, 0x00,
      0x81, 0x00,
      0x00, 0x01,
      0x00, 0x00,
      0x00, 0x00,
      0x00, 0x00,
      0x03, 0x77, 0x77, 0x77,
      0x07, 0x65, 0x78, 0x61, 0x6d, 0x70, 0x6c, 0x65,
      0x03, 0x63, 0x6f, 0x6d,
      0x00,
      0x00, 0x01,
      0x00, 0x01]"

text \<open>The twelve bytes that the test compares one by one.\<close>

definition formerr_header :: "u8 list" where
  "formerr_header = [0x00, 0x00, 0x81, 0x01, 0x00, 0x00, 0x00, 0x00, 0x00, 0x00, 0x00, 0x00]"

definition noerror_header :: "u8 list" where
  "noerror_header = [0x00, 0x00, 0x81, 0x00, 0x00, 0x00, 0x00, 0x00, 0x00, 0x00, 0x00, 0x00]"

text \<open>Calls on the connection, and calls that write a response buffer of 128 bytes.\<close>

definition on_conn :: "(ism_shell_connection \<Rightarrow> 'r \<times> ism_shell_connection) \<Rightarrow> scaffold_vars \<Rightarrow> 'r \<times> scaffold_vars" where
  "on_conn f v = (let (r, conn) = f (fst v) in (r, (conn, snd v)))"

definition respond ::
  "(ism_shell_connection \<Rightarrow> u64 \<Rightarrow> addr \<Rightarrow> u32 \<Rightarrow> mem \<Rightarrow> u32 \<times> mem) \<Rightarrow> u64 \<Rightarrow> addr \<Rightarrow> scaffold_vars \<Rightarrow> u32 \<times> scaffold_vars" where
  "respond f stream_id response v = (let (n, m) = f (fst v) stream_id response 128 (snd v) in (n, (fst v, m)))"

definition init_conn :: "scaffold_vars check" where
  "init_conn = runs (\<lambda>v. ism_shell_connection_init (fst v) (snd v))"

abbreviation num_streams :: "scaffold_vars \<Rightarrow> u32" where
  "num_streams v \<equiv> cc_num (conn_ctx (fst v))"

text \<open>Streams that are ready, prepared, completed and opened again on one connection.\<close>

definition smoke_streams :: "build \<Rightarrow> addr \<Rightarrow> addr \<Rightarrow> scaffold_vars \<Rightarrow> bool" where
  "smoke_streams bld message response =
     run_checks
       [init_conn,
        holds (\<lambda>v. num_streams v = 0 \<and> cc_capacity (conn_ctx (fst v)) = of_nat ISM_SHELL_MAX_STREAMS),
        yields (ingest_direct_complete bld 7 message 14) 2,
        holds (\<lambda>v. num_streams v = 1),
        holds (\<lambda>v. ism_shell_prepare_response_send bld (fst v) 7 response 0 True = 0),
        yields (on_conn (\<lambda>conn. ism_shell_complete_response_send bld conn 7 response
          (ism_shell_prepare_response_send bld conn 7 response 0 True) False)) 1,
        holds (\<lambda>v. num_streams v = 0),
        yields (ingest_direct_complete bld 7 message 14) 2,
        yields (ingest_direct_complete bld 9 message 14) 2,
        holds (\<lambda>v. num_streams v = 2),
        yields (on_conn (\<lambda>conn. ism_shell_complete_response_send bld conn 7 response 0 False)) 1,
        holds (\<lambda>v. num_streams v = 1 \<and> ism_shell_find_stream bld (fst v) 7 = None \<and>
          ism_shell_find_stream bld (fst v) 9 \<noteq> None),
        on_conn (\<lambda>conn. let (p, conn') = ism_shell_open_stream bld conn 11 in (p \<noteq> None, conn')),
        holds (\<lambda>v. num_streams v = 2 \<and> ism_shell_find_stream bld (fst v) 9 \<noteq> None \<and>
          ism_shell_find_stream bld (fst v) 11 \<noteq> None)]"

text \<open>The format-error and the empty response, and the validated one, unframed.\<close>

definition response_checks ::
  "(scaffold_vars \<Rightarrow> u8 \<times> scaffold_vars) \<Rightarrow>
   (ism_shell_connection \<Rightarrow> u64 \<Rightarrow> addr \<Rightarrow> u32 \<Rightarrow> mem \<Rightarrow> u32 \<times> mem) \<Rightarrow> u64 \<Rightarrow> addr \<Rightarrow> u8 list \<Rightarrow> scaffold_vars check list" where
  "response_checks ingest f stream_id response expected =
     [init_conn,
      yields ingest 2,
      yields (respond f stream_id response) (of_nat (length expected)),
      holds (\<lambda>v. mem_bytes (snd v) response (length expected) = expected)]"

definition finished_checks :: "build \<Rightarrow> u64 \<Rightarrow> addr \<Rightarrow> u32 \<Rightarrow> scaffold_vars check list" where
  "finished_checks bld stream_id buffer len =
     [yields (on_conn (\<lambda>conn. ism_shell_dispatch_response_send_finished bld conn stream_id buffer len False)) 1,
      holds (\<lambda>v. num_streams v = 0)]"

definition frame_checks :: "build \<Rightarrow> u64 \<Rightarrow> addr \<Rightarrow> u32 \<Rightarrow> addr \<Rightarrow> u8 list \<Rightarrow> scaffold_vars check list" where
  "frame_checks bld stream_id response response_len stream_response expected =
     [yields (\<lambda>v. let (n, m) = ism_shell_prepare_doq_response_send bld (fst v) stream_id response response_len
          stream_response 128 True (snd v) in (n, (fst v, m))) (of_nat (length expected)),
      holds (\<lambda>v. mem_bytes (snd v) stream_response (length expected) = expected)]"

definition smoke_worker :: "build \<Rightarrow> addr \<Rightarrow> addr \<Rightarrow> scaffold_vars \<Rightarrow> bool" where
  "smoke_worker bld query response =
     run_checks (response_checks (ingest_direct_complete bld 13 query 35) ism_shell_process_ready_stream 13 response
       formerr_header)"

definition smoke_dispatcher :: "build \<Rightarrow> addr \<Rightarrow> addr \<Rightarrow> scaffold_vars \<Rightarrow> bool" where
  "smoke_dispatcher bld query response =
     run_checks (response_checks (ingest_scheduler_complete bld 15 query 35) ism_shell_dispatch_ready_stream 15 response
       formerr_header @ finished_checks bld 15 response 12)"

definition smoke_empty_worker :: "build \<Rightarrow> addr \<Rightarrow> addr \<Rightarrow> scaffold_vars \<Rightarrow> bool" where
  "smoke_empty_worker bld query response =
     run_checks (response_checks (ingest_direct_complete bld 17 query 35)
       ism_shell_process_ready_stream_empty_response 17 response
       noerror_header)"

definition smoke_empty_dispatcher :: "build \<Rightarrow> addr \<Rightarrow> addr \<Rightarrow> scaffold_vars \<Rightarrow> bool" where
  "smoke_empty_dispatcher bld query response =
     run_checks (response_checks (ingest_scheduler_complete bld 19 query 35)
       ism_shell_dispatch_ready_stream_empty_response 19 response
       noerror_header @ finished_checks bld 19 response 12)"

definition smoke_validated_worker :: "build \<Rightarrow> addr \<Rightarrow> addr \<Rightarrow> scaffold_vars \<Rightarrow> bool" where
  "smoke_validated_worker bld query response =
     run_checks (response_checks (ingest_direct_complete bld 21 query 35)
       (ism_shell_process_ready_stream_validated_minimal_response bld) 21 response expected_validated_response)"

definition smoke_validated_dispatcher :: "build \<Rightarrow> addr \<Rightarrow> addr \<Rightarrow> addr \<Rightarrow> scaffold_vars \<Rightarrow> bool" where
  "smoke_validated_dispatcher bld query response stream_response =
     run_checks (response_checks (ingest_scheduler_complete bld 23 query 35)
         (ism_shell_dispatch_ready_stream_validated_minimal_response bld) 23 response expected_validated_response @
       frame_checks bld 23 response 33 stream_response expected_validated_stream_response @
       finished_checks bld 23 stream_response 35)"

definition smoke_invalid_validated :: "build \<Rightarrow> addr \<Rightarrow> addr \<Rightarrow> addr \<Rightarrow> scaffold_vars \<Rightarrow> bool" where
  "smoke_invalid_validated bld query response stream_response =
     run_checks (response_checks (ingest_scheduler_complete bld 25 query 14)
         (ism_shell_dispatch_ready_stream_validated_minimal_response bld) 25 response
         formerr_header @
       frame_checks bld 25 response 12 stream_response expected_formerr_stream)"

text \<open>The scenarios have their own connections and buffers; \<open>vs\<close> gives the variables of each.\<close>

definition ism_smoke_shell_scaffold ::
  "build \<Rightarrow> addr \<Rightarrow> addr \<Rightarrow> addr \<Rightarrow> (nat \<Rightarrow> addr) \<Rightarrow> (nat \<Rightarrow> addr) \<Rightarrow> (nat \<Rightarrow> scaffold_vars) \<Rightarrow> bool" where
  "ism_smoke_shell_scaffold bld message query invalid_query responses streams vs \<longleftrightarrow>
     smoke_streams bld message (responses 0) (vs 0) \<and>
     smoke_worker bld query (responses 1) (vs 1) \<and>
     smoke_dispatcher bld query (responses 2) (vs 2) \<and>
     smoke_empty_worker bld query (responses 3) (vs 3) \<and>
     smoke_empty_dispatcher bld query (responses 4) (vs 4) \<and>
     smoke_validated_worker bld query (responses 5) (vs 5) \<and>
     smoke_validated_dispatcher bld query (responses 6) (streams 6) (vs 6) \<and>
     smoke_invalid_validated bld invalid_query (responses 7) (streams 7) (vs 7)"

section \<open>Where the variables stand\<close>

text \<open>The buffers of a scenario as an adapter would hold them, so that the adapter's facts on placement apply.\<close>

definition scaffold_state :: "addr \<Rightarrow> addr \<Rightarrow> scaffold_vars \<Rightarrow> unit shell_state" where
  "scaffold_state rb sb v =
     \<lparr>sh_mem = snd v,
      sh_adapter = \<lparr>ad_connection = fst v, ad_response_buffer = rb, ad_response_capacity = 128, ad_send_buffer = sb,
        ad_send_capacity = 128, ad_send = None, ad_send_in_flight = False, ad_send_stream_id = 0, ad_send_len = 0\<rparr>,
      sh_queue = \<lparr>q_events = None, q_capacity = 0, q_head = 0, q_count = 0\<rparr>, sh_ctx = ()\<rparr>"

definition scaffold_placed :: "build \<Rightarrow> addr \<Rightarrow> addr \<Rightarrow> addr \<Rightarrow> u8 list \<Rightarrow> scaffold_vars \<Rightarrow> bool" where
  "scaffold_placed bld rb sb data bytes v \<longleftrightarrow>
     length (conn_streams (fst v)) = 4 \<and> (use_pulse_table bld \<longrightarrow> storage_ok bld (fst v)) \<and>
     buffers_separate bld (scaffold_state rb sb v) \<and> array_at bld (scaffold_state rb sb v) data bytes \<and>
     question_validator (check_question bld)"

definition scaffold_ready :: "build \<Rightarrow> addr \<Rightarrow> addr \<Rightarrow> addr \<Rightarrow> u8 list \<Rightarrow> scaffold_vars \<Rightarrow> bool" where
  "scaffold_ready bld rb sb data bytes v \<longleftrightarrow>
     adapter_inv bld (scaffold_state rb sb v) \<and> array_at bld (scaffold_state rb sb v) data bytes"

lemma scaffold_state_simps [simp]:
  "conn_of (scaffold_state rb sb v) = fst v" "sh_mem (scaffold_state rb sb v) = snd v"
  "ad_response_buffer (sh_adapter (scaffold_state rb sb v)) = rb" "ad_response_capacity (sh_adapter (scaffold_state rb sb v)) = 128"
  "ad_send_buffer (sh_adapter (scaffold_state rb sb v)) = sb" "ad_send_capacity (sh_adapter (scaffold_state rb sb v)) = 128"
  "ad_send (sh_adapter (scaffold_state rb sb v)) = None"
  "\<not> ad_send_in_flight (sh_adapter (scaffold_state rb sb v))" "ad_send_stream_id (sh_adapter (scaffold_state rb sb v)) = 0"
  "ad_send_len (sh_adapter (scaffold_state rb sb v)) = 0"
  by (simp_all add: scaffold_state_def)

lemma scaffold_readyD:
  assumes "scaffold_ready bld rb sb data bytes v"
  shows "table_ready bld (fst v)" "shell_inv (fst v)" "buffers_separate bld (scaffold_state rb sb v)"
    "adapter_inv bld (scaffold_state rb sb v)" "array_at bld (scaffold_state rb sb v) data bytes"
  using assms adapter_invD [of bld "scaffold_state rb sb v"] by (simp_all add: scaffold_ready_def)

text \<open>Placement depends on the layout of the connection and on the bytes of the array only.\<close>

lemma placement_moves:
  assumes sep: "buffers_separate bld (scaffold_state rb sb v)" and arr: "array_at bld (scaffold_state rb sb v) data bytes"
    and len: "length (conn_streams (fst v)) = 4" and lay: "conn_layout (fst v') = conn_layout (fst v)"
    and bytes: "mem_bytes (snd v') data (length bytes) = bytes" and ready: "table_ready bld (fst v')"
  shows "scaffold_ready bld rb sb data bytes v'"
proof -
  have "buffers_separate bld (scaffold_state rb sb v')"
    by (rule buffers_separate_setup [OF _ _ sep]) (use len lay in \<open>simp_all add: same_setup_def\<close>)
  moreover have "message_buffer (conn_streams (fst v') ! k) = message_buffer (conn_streams (fst v) ! k)" if "k < 4" for k
    using layout_nth(1) [OF lay [symmetric]] len that by simp
  ultimately show ?thesis using arr bytes ready by (simp add: scaffold_ready_def adapter_inv_def array_at_def)
qed

lemma ready_moves:
  assumes rd: "scaffold_ready bld rb sb data bytes v" and "shell_inv (fst v')" and lay: "conn_layout (fst v') = conn_layout (fst v)"
    and "mem_bytes (snd v') data (length bytes) = bytes"
  shows "scaffold_ready bld rb sb data bytes v'"
  using assms scaffold_readyD [OF rd] table_ready_layout [of bld "fst v" "fst v'"] shell_invD(8) [of "fst v"]
  by (intro placement_moves [of bld rb sb v]) simp_all

lemma init_ready_scaffold:
  assumes pl: "scaffold_placed bld rb sb data bytes v" and init: "ism_shell_connection_init (fst v) (snd v) = v'"
  shows "scaffold_ready bld rb sb data bytes v'" and "abs_table (fst v') = Map.empty"
    and "cc_num (conn_ctx (fst v')) = 0" and "cc_capacity (conn_ctx (fst v')) = 4"
proof -
  have len: "length (conn_streams (fst v)) = 4" using pl by (simp add: scaffold_placed_def)
  have "\<forall>s\<in>set (conn_streams (fst v)). ranges_disjoint data (length bytes) (message_buffer s) 65535"
    using pl len by (auto simp: scaffold_placed_def array_at_def in_set_conv_nth)
  then have "mem_bytes (snd v') data (length bytes) = bytes"
    using init_mem_frame [of "conn_streams (fst v)" data "length bytes" "snd v"] init pl
    by (auto simp: ism_shell_connection_init_def Let_def scaffold_placed_def array_at_def)
  moreover have "table_ready bld (fst v')" "conn_layout (fst v') = conn_layout (fst v)"
    using init_ready [OF len, of bld "snd v"] init_layout [OF len, of "snd v"] pl init by (auto simp: scaffold_placed_def)
  ultimately show "scaffold_ready bld rb sb data bytes v'"
    using pl len by (intro placement_moves [of bld rb sb v]) (simp_all add: scaffold_placed_def)
  show "abs_table (fst v') = Map.empty" using init_abs_table [of "fst v" "snd v"] init by simp
  show "cc_num (conn_ctx (fst v')) = 0" "cc_capacity (conn_ctx (fst v')) = 4"
    using init by (auto simp: ism_shell_connection_init_def ISM_SHELL_MAX_STREAMS_def Let_def)
qed

section \<open>A complete query on a new stream\<close>

lemma ingest_new:
  assumes rd: "scaffold_ready bld rb sb data bytes v" and new: "abs_table (fst v) sid = None" and room: "active_count (fst v) < 4"
    and n: "length bytes < 4294967296" "len = of_nat (length bytes)" and full: "doq_phase bytes = AwaitingFin k"
    and id: "bytes ! 2 = 0" "bytes ! 3 = 0"
  obtains v' c where "ingest_direct_complete bld sid data len v = (2, v')" "ingest_scheduler_complete bld sid data len v = (2, v')"
    "scaffold_ready bld rb sb data bytes v'" "abs_table (fst v') = (abs_table (fst v))(sid \<mapsto> c)" "sc_phase c = S_Processing k"
    "mem_bytes (snd v') (sc_buf c) (unat k) = drop 2 bytes"
proof -
  note D = scaffold_readyD [OF rd]
  have ready: "ingress_ready bld (fst v) data len"
    using array_ingress [OF D(4,5) n(2,1)] by simp
  obtain code conn1 m1 where d: "ingress_data (fst v) sid data len (snd v) = (code, conn1, m1)" by (metis prod_cases3)
  have got: "stream_got [] (fst v) sid (snd v)" using new room by (simp add: stream_got_def)
  have bytes: "mem_bytes (snd v) data (length bytes) = bytes" using D(5) by (simp add: array_at_def)
  note G = ingress_data_got [OF D(2) got _ bytes _ d, simplified]
  have got1: "stream_got bytes conn1 sid m1" "abs_table conn1 sid \<noteq> None" "code = 4"
      "abs_table conn1 = (abs_table (fst v))(sid := abs_table conn1 sid)"
    using G full n by (simp_all add: unat_of_nat)
  then obtain c where c: "abs_table conn1 sid = Some c" "stream_holds bytes c m1" by (auto simp: stream_got_def)
  have keep: "shell_inv conn1" "conn_layout conn1 = conn_layout (fst v)" using ingress_data_inv(1,2) [OF D(2) d] by simp_all
  obtain p where "p < 4" "mem_frame (message_buffer (conn_streams (fst v) ! p)) 65535 (snd v) m1"
    using ingress_data_frame [OF D(2) d] by blast
  then have bytes1: "mem_bytes m1 data (length bytes) = bytes"
    using mem_bytes_frame [of _ 65535 "snd v" m1 data "length bytes"] bytes D(5) by (simp add: array_at_def)
  have rd1: "scaffold_ready bld rb sb data bytes (conn1, m1)" using keep bytes1 by (intro ready_moves [OF rd]) simp_all
  have ready1: "ingress_ready bld conn1 data 0"
    using ready scaffold_readyD(1) [OF rd1] layout_nth(1) [OF keep(2)] shell_invD(8) [OF keep(1)]
    by (simp add: ingress_ready_def)
  obtain conn2 where f: "ingress_fin conn1 sid m1 = (2, conn2, m1)" and keep2: "shell_inv conn2" "conn_layout conn2 = conn_layout conn1"
    and tab: "abs_table conn2 = (abs_table conn1)(sid \<mapsto> c\<lparr>sc_phase := S_Processing k\<rparr>)"
    and body: "mem_bytes m1 (sc_buf c) (unat k) = drop 2 bytes"
    using fin_processing [OF keep(1) c full id] by metis
  have "ingest_direct_complete bld sid data len v = (2, conn2, m1)" "ingest_scheduler_complete bld sid data len v = (2, conn2, m1)"
    using d f got1(3)
    by (simp_all add: ingest_direct_complete_def ingest_scheduler_complete_def shell_data_eq [OF ready] shell_fin_eq [OF ready1])
  moreover have "scaffold_ready bld rb sb data bytes (conn2, m1)" using keep2 bytes1 by (intro ready_moves [OF rd1]) simp_all
  moreover have "abs_table conn2 = (abs_table (fst v))(sid \<mapsto> c\<lparr>sc_phase := S_Processing k\<rparr>)"
    unfolding tab by (subst got1(4)) simp
  ultimately show ?thesis using that [of "(conn2, m1)" "c\<lparr>sc_phase := S_Processing k\<rparr>"] body by simp
qed

section \<open>Streams come and go\<close>

lemma num_streams_card:
  assumes "scaffold_ready bld rb sb data bytes v" and "card (dom (abs_table (fst v))) = k" and "k < 4294967296"
  shows "num_streams v = of_nat k"
  using cc_num_card [OF scaffold_readyD(2) [OF assms(1)]] assms(2,3) by (metis u32_of_nat_unat)

lemma room_card:
  assumes "scaffold_ready bld rb sb data bytes v" and "card (dom (abs_table (fst v))) < 4"
  shows "active_count (fst v) < 4"
  using cc_num_card [OF scaffold_readyD(2) [OF assms(1)]] assms(2) by simp

lemma complete_ready:
  assumes rd: "scaffold_ready bld rb sb data bytes v"
  shows "on_conn (\<lambda>conn. ism_shell_complete_response_send bld conn sid buf len d) v = (1, (finish_stream (fst v) sid, snd v))"
    and "on_conn (\<lambda>conn. ism_shell_dispatch_response_send_finished bld conn sid buf len d) v =
      (1, (finish_stream (fst v) sid, snd v))"
    and "scaffold_ready bld rb sb data bytes (finish_stream (fst v) sid, snd v)"
    and "abs_table (finish_stream (fst v) sid) = (abs_table (fst v))(sid := None)"
proof -
  note D = scaffold_readyD [OF rd]
  show "on_conn (\<lambda>conn. ism_shell_complete_response_send bld conn sid buf len d) v = (1, (finish_stream (fst v) sid, snd v))"
    "on_conn (\<lambda>conn. ism_shell_dispatch_response_send_finished bld conn sid buf len d) v = (1, (finish_stream (fst v) sid, snd v))"
    by (simp_all add: on_conn_def shell_finish_eq [OF D(1)])
  show "scaffold_ready bld rb sb data bytes (finish_stream (fst v) sid, snd v)"
    using D(5) by (intro ready_moves [OF rd]) (simp_all add: finish_stream_inv [OF D(2)] layout_finish [OF D(2)] array_at_def)
  show "abs_table (finish_stream (fst v) sid) = (abs_table (fst v))(sid := None)" by (rule finish_stream_abs_table [OF D(2)])
qed

lemma find_ready:
  assumes rd: "scaffold_ready bld rb sb data bytes v"
  shows "ism_shell_find_stream bld (fst v) sid = None \<longleftrightarrow> abs_table (fst v) sid = None"
proof (cases "abs_table (fst v) sid")
  case None
  then show ?thesis by (simp add: shell_find_eq [OF scaffold_readyD(1) [OF rd]] find_stream_eq abs_table_None)
next
  case (Some c)
  obtain p where "find_stream (fst v) sid = Some p" using abs_table_find [OF scaffold_readyD(2) [OF rd] Some] by metis
  with Some show ?thesis by (simp add: shell_find_eq [OF scaffold_readyD(1) [OF rd]])
qed

lemma open_ready:
  assumes rd: "scaffold_ready bld rb sb data bytes v" and "abs_table (fst v) sid = None" "card (dom (abs_table (fst v))) < 4"
  obtains p conn c where "ism_shell_open_stream bld (fst v) sid = (Some p, conn)" "scaffold_ready bld rb sb data bytes (conn, snd v)"
    "abs_table conn = (abs_table (fst v))(sid \<mapsto> c)"
proof -
  note D = scaffold_readyD [OF rd]
  have "fst (open_result (fst v) sid) \<noteq> None"
    using open_result_abs_table(4) [OF D(2), of sid] room_card [OF rd assms(3)] by simp
  then obtain p conn where op: "open_result (fst v) sid = (Some p, conn)" by (metis option.collapse prod.collapse)
  note o = open_result_Some [OF D(2) op]
  have "abs_table conn = (abs_table (fst v))(sid \<mapsto> stream_at conn (Some p))"
    using o(2) open_result_abs_table(1) [OF D(2), of _ sid] op by (intro ext) simp
  moreover have "scaffold_ready bld rb sb data bytes (conn, snd v)"
    using D(5) o(3) layout_open [of "fst v" sid] op by (intro ready_moves [OF rd]) (simp_all add: array_at_def)
  ultimately show ?thesis using that [of p conn "stream_at conn (Some p)"] op shell_open_eq [OF D(1)] by auto
qed

lemma header_only_facts:
  "length header_only_doq_message = 14" "doq_phase header_only_doq_message = AwaitingFin 12"
  "header_only_doq_message ! 2 = 0" "header_only_doq_message ! 3 = 0"
  by (simp_all add: header_only_doq_message_def)

theorem smoke_streams_passes:
  assumes pl: "scaffold_placed bld response sb message header_only_doq_message v"
  shows "smoke_streams bld message response v"
proof -
  let ?rd = "scaffold_ready bld response sb message header_only_doq_message"
  obtain v0 where v0: "ism_shell_connection_init (fst v) (snd v) = v0" by blast
  note I = init_ready_scaffold [OF pl v0]
  have ingest: "\<exists>w' c. ingest_direct_complete bld sid message 14 w = (2, w') \<and> ?rd w' \<and> abs_table (fst w') = (abs_table (fst w))(sid \<mapsto> c)"
    if "?rd w" "abs_table (fst w) sid = None" "card (dom (abs_table (fst w))) < 4" for w sid
    by (rule ingest_new [OF that(1,2) room_card [OF that(1,3)] _ _ header_only_facts(2-4), of 14])
      (auto simp: header_only_facts)
  obtain v1 c1 where v1: "ingest_direct_complete bld 7 message 14 v0 = (2, v1)" "?rd v1" "abs_table (fst v1) = [7 \<mapsto> c1]"
    using ingest [OF I(1), of 7] I(2) by auto
  define v2 where "v2 = (finish_stream (fst v1) 7, snd v1)"
  note F1 = complete_ready [OF v1(2), of 7, folded v2_def]
  have t2: "abs_table (fst v2) = Map.empty" using F1(4) v1(3) by (simp add: v2_def)
  obtain v3 c3 where v3: "ingest_direct_complete bld 7 message 14 v2 = (2, v3)" "?rd v3" "abs_table (fst v3) = [7 \<mapsto> c3]"
    using ingest [OF F1(3), of 7] t2 by auto
  obtain v4 c4 where v4: "ingest_direct_complete bld 9 message 14 v3 = (2, v4)" "?rd v4" "abs_table (fst v4) = [7 \<mapsto> c3, 9 \<mapsto> c4]"
    using ingest [OF v3(2), of 9] v3(3) by auto
  define v5 where "v5 = (finish_stream (fst v4) 7, snd v4)"
  note F4 = complete_ready [OF v4(2), of 7, folded v5_def]
  have t5: "abs_table (fst v5) = [9 \<mapsto> c4]" using F4(4) v4(3) by (simp add: v5_def fun_upd_twist)
  obtain p conn c6 where op: "ism_shell_open_stream bld (fst v5) 11 = (Some p, conn)" "?rd (conn, snd v5)"
    "abs_table conn = [9 \<mapsto> c4, 11 \<mapsto> c6]"
    using open_ready [OF F4(3), of 11] t5 by auto
  have num: "num_streams v1 = 1" "num_streams v2 = 0" "num_streams v4 = 2" "num_streams v5 = 1"
    "cc_num (conn_ctx conn) = 2"
    using num_streams_card [OF v1(2), of 1] num_streams_card [OF F1(3), of 0] num_streams_card [OF v4(2), of 2]
      num_streams_card [OF F4(3), of 1] num_streams_card [OF op(2), of 2] v1(3) t2 v4(3) t5 op(3) by simp_all
  have found: "ism_shell_find_stream bld (fst v5) 7 = None" "ism_shell_find_stream bld (fst v5) 9 \<noteq> None"
    "ism_shell_find_stream bld conn 9 \<noteq> None" "ism_shell_find_stream bld conn 11 \<noteq> None"
    using find_ready [OF F4(3)] find_ready [OF op(2)] t5 op(3) by auto
  have prepared: "ism_shell_prepare_response_send bld conn' 7 response 0 True = 0" for conn'
    by (simp add: ism_shell_prepare_response_send_def prepare_response_send_for_stream_def prepare_response_send_def Let_def)
  have init: "runs (\<lambda>v. ism_shell_connection_init (fst v) (snd v)) v = (True, v0)" using v0 by (simp add: runs_def)
  have opened: "on_conn (\<lambda>conn. let (p, conn') = ism_shell_open_stream bld conn 11 in (p \<noteq> None, conn')) v5 = (True, (conn, snd v5))"
    using op(1) by (simp add: on_conn_def)
  show ?thesis
    unfolding smoke_streams_def init_conn_def prepared
    using I(3,4) v1(1) v3(1) v4(1) num found opened F1(1) F4(1) init
    by (simp add: yields_def holds_def ISM_SHELL_MAX_STREAMS_def prepared)
qed

section \<open>Responses\<close>

lemma ready_dispatch:
  assumes "shell_inv conn" and "abs_table conn sid = Some c" and "sc_phase c = S_Processing k"
  shows "dispatch_ready prepare conn rb rc sid m = prepare c rb rc k m"
proof -
  obtain p where "find_stream conn sid = Some p" "stream_at conn (Some p) = c" using abs_table_find [OF assms(1,2)] by metis
  with assms(3) show ?thesis by (simp add: dispatch_ready_def)
qed

text \<open>The four entry points of each constructor are the two dispatchers of the core.\<close>

lemma respond_eqs:
  "ism_shell_process_ready_stream conn sid rb rc m = dispatch_ready prepare_worker_minimal_error_response_send conn rb rc sid m"
  "ism_shell_dispatch_ready_stream conn sid rb rc m = dispatch_ready prepare_worker_minimal_error_response_send conn rb rc sid m"
  "ism_shell_process_ready_stream_empty_response conn sid rb rc m =
     dispatch_ready prepare_worker_empty_noerror_response_send conn rb rc sid m"
  "ism_shell_dispatch_ready_stream_empty_response conn sid rb rc m =
     dispatch_ready prepare_worker_empty_noerror_response_send conn rb rc sid m"
  "ism_shell_process_ready_stream_validated_minimal_response bld conn sid rb rc m =
     dispatch_ready (prepare_worker_validated_minimal_response_send (check_question bld)) conn rb rc sid m"
  "ism_shell_dispatch_ready_stream_validated_minimal_response bld conn sid rb rc m =
     dispatch_ready (prepare_worker_validated_minimal_response_send (check_question bld)) conn rb rc sid m"
  by (simp_all add: ism_shell_process_ready_stream_def process_ready_stream_for_response_def ism_shell_dispatch_ready_stream_def
      dispatch_ready_stream_for_response_via_scheduler_def dispatch_minimal_worker_error_response_event_def
      ism_shell_process_ready_stream_empty_response_def process_ready_stream_for_empty_response_def
      ism_shell_dispatch_ready_stream_empty_response_def dispatch_ready_stream_for_empty_response_via_scheduler_def
      dispatch_empty_noerror_response_event_def ism_shell_process_ready_stream_validated_minimal_response_def
      process_ready_stream_for_validated_minimal_response_def ism_shell_dispatch_ready_stream_validated_minimal_response_def
      dispatch_ready_stream_for_validated_minimal_response_via_scheduler_def dispatch_validated_minimal_response_event_def)

text \<open>A scenario up to its response: it continues on a connection with the one ready stream and the
  expected bytes in the response buffer.\<close>

lemma response_scenario:
  assumes pl: "scaffold_placed bld rb sb data bytes v" and n: "length bytes < 4294967296"
    and full: "doq_phase bytes = AwaitingFin k" and id: "bytes ! 2 = 0" "bytes ! 3 = 0"
    and ingest: "ingest = ingest_direct_complete bld sid data (of_nat (length bytes)) \<or>
      ingest = ingest_scheduler_complete bld sid data (of_nat (length bytes))"
    and f: "\<And>conn m. f conn sid rb 128 m = dispatch_ready prepare conn rb 128 sid m"
    and prepare: "\<And>c m. mem_bytes m (sc_buf c) (unat k) = drop 2 bytes \<Longrightarrow>
      ranges_disjoint (sc_buf c) 65535 rb 128 \<Longrightarrow>
      \<exists>m'. prepare c rb 128 k m = (of_nat (length expected), m') \<and> mem_bytes m' rb (length expected) = expected"
    and rest: "\<And>conn m m' c. scaffold_ready bld rb sb data bytes (conn, m) \<Longrightarrow> abs_table conn = [sid \<mapsto> c] \<Longrightarrow>
      mem_bytes m' rb (length expected) = expected \<Longrightarrow> run_checks ps (conn, m')"
  shows "run_checks (response_checks ingest f sid rb expected @ ps) v"
proof -
  obtain v0 where v0: "ism_shell_connection_init (fst v) (snd v) = v0" by blast
  note I = init_ready_scaffold [OF pl v0]
  have "abs_table (fst v0) sid = None" "active_count (fst v0) < 4" using I(2,3) by simp_all
  then obtain v1 c where v1: "ingest v0 = (2, v1)" "scaffold_ready bld rb sb data bytes v1" "abs_table (fst v1) = [sid \<mapsto> c]"
      "sc_phase c = S_Processing k" "mem_bytes (snd v1) (sc_buf c) (unat k) = drop 2 bytes"
    using ingest_new [OF I(1) _ _ n refl full id, of sid] ingest I(2) by metis
  note D = scaffold_readyD [OF v1(2)]
  obtain p where "p < 4" "sc_buf c = message_buffer (conn_streams (fst v1) ! p)"
    using abs_table_find [OF D(2), of sid c] v1(3) by auto
  then have "ranges_disjoint (sc_buf c) 65535 rb 128" using D(3) by (simp add: buffers_separate_def Let_def)
  then obtain m' where m': "prepare c rb 128 k (snd v1) = (of_nat (length expected), m')" "mem_bytes m' rb (length expected) = expected"
    using prepare [OF v1(5)] by blast
  have "respond f sid rb v1 = (of_nat (length expected), (fst v1, m'))"
    using m'(1) v1(3,4) by (simp add: respond_def f ready_dispatch [OF D(2)])
  moreover have "run_checks ps (fst v1, m')" using rest [of "fst v1" "snd v1" c m'] v1(2,3) m'(2) by simp
  ultimately show ?thesis
    using v0 v1(1) m'(2) by (simp add: response_checks_def init_conn_def check_defs)
qed

lemma finished_passes:
  assumes "scaffold_ready bld rb sb data bytes (conn, m)" and "abs_table conn = [sid \<mapsto> c]"
  shows "run_checks (finished_checks bld sid buf len) (conn, m')"
proof -
  note F = complete_ready [OF assms(1), of sid]
  have "cc_num (conn_ctx (finish_stream conn sid)) = 0"
    using num_streams_card [OF F(3), of 0] F(4) assms(2) by simp
  then show ?thesis
    using shell_finish_eq(2) [OF scaffold_readyD(1) [OF assms(1)]]
    by (simp add: finished_checks_def check_defs on_conn_def)
qed

lemma frame_passes:
  assumes rd: "scaffold_ready bld rb sb data bytes (conn, m0)" and tab: "abs_table conn = [sid \<mapsto> c]"
    and r: "mem_bytes m rb (length r) = r" "12 \<le> length r" "length r \<le> 126" and expected: "doq_frame r = expected"
    and len: "len = of_nat (length r)" and rest: "\<And>m'. run_checks ps (conn, m')"
  shows "run_checks (frame_checks bld sid rb len sb expected @ ps) (conn, m)"
proof -
  note D = scaffold_readyD [OF rd]
  have l: "unat len = length r" using len r(3) by (simp add: unat_of_nat)
  have ne: "r \<noteq> []" using r(2) by auto
  obtain n m' where d: "prepare_doq_response_send_for_stream c rb len sb 128 1 m = (n, m')" by fastforce
  have "ism_shell_prepare_doq_response_send bld conn sid rb len sb 128 True m = (n, m')"
    using shell_prepare_doq_eq [OF D(4), of sid c len m] tab d l r(2,3) ne
    by (simp add: word_less_nat_alt word_le_nat_alt)
  moreover have nz: "framed_length len 128 \<noteq> 0" using l r(3) by (simp add: framed_length_eq_0)
  have "ranges_disjoint rb 128 sb 128" using D(3) by (simp add: buffers_separate_def Let_def)
  then have "ranges_disjoint rb (unat len) sb (unat (128 :: u32))" by (rule ranges_disjoint_mono) (use l r(3) in simp_all)
  note F = prepare_doq_frame [OF nz this d]
  have "mem_bytes m' sb (length expected) = expected"
    using F(2,3) l r(1) len unfolding expected [symmetric] by (simp add: doq_frame_def)
  moreover have "n = of_nat (length expected)"
    using F(2) l expected by (metis length_doq_frame u32_of_nat_unat)
  ultimately show ?thesis using rest [of m'] by (simp add: frame_checks_def check_defs)
qed

text \<open>What the three constructors write for the fixtures.\<close>

lemma header_lengths [simp]: "length formerr_header = 12" "length noerror_header = 12"
  by (simp_all add: formerr_header_def noerror_header_def)

lemma fixture_error:
  assumes "mem_bytes m (sc_buf c) (unat k) = drop 2 bytes" and "12 \<le> k" and "bytes ! 2 = 0" "bytes ! 3 = 0" "4 \<le> length bytes"
  shows "\<exists>m'. prepare_worker_minimal_error_response_send c rb 128 k m = (12, m') \<and>
    mem_bytes m' rb 12 = formerr_header"
proof -
  obtain n m' where run: "prepare_worker_minimal_error_response_send c rb 128 k m = (n, m')" by fastforce
  from error_response_send [OF assms(2) _ run] assms run show ?thesis by (simp add: formerr_response_def formerr_header_def)
qed

lemma fixture_empty:
  assumes bytes: "mem_bytes m (sc_buf c) (unat (33 :: u32)) = drop 2 exact_a_query"
  shows "\<exists>m'. prepare_worker_empty_noerror_response_send c rb 128 33 m = (12, m') \<and>
    mem_bytes m' rb 12 = noerror_header"
proof -
  obtain n m' where run: "prepare_worker_empty_noerror_response_send c rb 128 33 m = (n, m')" by fastforce
  have "m (sc_buf c + i) = drop 2 exact_a_query ! i" if "i < 33" for i using mem_bytes_nth [OF _ bytes] that by simp
  from this [of 0] this [of 1] this [of 2] this [of 3] empty_noerror_response_send [OF _ _ run] run show ?thesis
    by (simp add: exact_a_query_def noerror_header_def noerror_response_flags_hi_def noerror_response_flags_lo_def)
qed

lemma fixture_validated:
  assumes val: "question_validator check" and bytes: "mem_bytes m (sc_buf c) (unat k) = drop 2 bytes"
    and dis: "ranges_disjoint (sc_buf c) 65535 rb 128" and k: "unat k \<le> 65535" and r: "minimal_response (drop 2 bytes) 128 = Some r"
  shows "\<exists>m'. prepare_worker_validated_minimal_response_send check c rb 128 k m = (of_nat (length r), m') \<and>
    mem_bytes m' rb (length r) = r"
proof -
  obtain n m' where run: "prepare_worker_validated_minimal_response_send check c rb 128 k m = (n, m')" by fastforce
  have "ranges_disjoint (sc_buf c) (unat k) rb (unat (128 :: u32))"
    using dis by (rule ranges_disjoint_mono) (use k in simp_all)
  from question_validator.validated_response_send [OF val this run] bytes r
  have "unat n = length r" "mem_bytes m' rb (length r) = r" by simp_all
  with run show ?thesis by (metis u32_of_nat_unat)
qed

section \<open>The response scenarios return true\<close>

lemma validated_eq: "drop 2 expected_validated_stream_response = expected_validated_response"
  by (simp add: expected_validated_stream_response_def expected_validated_response_def)

lemma formerr_eq: "drop 2 expected_formerr_stream = formerr_header"
  by (simp add: expected_formerr_stream_def formerr_header_def)

lemma exact_a_scenario:
  assumes pl: "scaffold_placed bld rb sb query exact_a_query v"
    and ingest: "ingest = ingest_direct_complete bld sid query 35 \<or> ingest = ingest_scheduler_complete bld sid query 35"
    and f: "\<And>conn m. f conn sid rb 128 m = dispatch_ready prepare conn rb 128 sid m"
    and prepare: "\<And>c m. mem_bytes m (sc_buf c) (unat (33 :: u32)) = drop 2 exact_a_query \<Longrightarrow>
      ranges_disjoint (sc_buf c) 65535 rb 128 \<Longrightarrow>
      \<exists>m'. prepare c rb 128 33 m = (of_nat (length expected), m') \<and> mem_bytes m' rb (length expected) = expected"
    and rest: "\<And>conn m m' c. scaffold_ready bld rb sb query exact_a_query (conn, m) \<Longrightarrow> abs_table conn = [sid \<mapsto> c] \<Longrightarrow>
      mem_bytes m' rb (length expected) = expected \<Longrightarrow> run_checks ps (conn, m')"
  shows "run_checks (response_checks ingest f sid rb expected @ ps) v"
proof (rule response_scenario [OF pl _ fixture_phases(1) fixture_ids(1,2), where prepare = prepare])
  show "ingest = ingest_direct_complete bld sid query (of_nat (length exact_a_query)) \<or>
      ingest = ingest_scheduler_complete bld sid query (of_nat (length exact_a_query))" using ingest by simp
qed (simp, rule f, erule (1) prepare, erule (2) rest)

theorem smoke_worker_passes:
  assumes "scaffold_placed bld response sb query exact_a_query v"
  shows "smoke_worker bld query response v"
proof -
  have "run_checks (response_checks (ingest_direct_complete bld 13 query 35) ism_shell_process_ready_stream 13 response
       formerr_header @ []) v"
    by (rule exact_a_scenario [where f = ism_shell_process_ready_stream and prepare = prepare_worker_minimal_error_response_send,
      OF assms _ respond_eqs(1)]) (simp_all add: fixture_error fixture_ids)
  then show ?thesis by (simp add: smoke_worker_def)
qed

theorem smoke_dispatcher_passes:
  assumes "scaffold_placed bld response sb query exact_a_query v"
  shows "smoke_dispatcher bld query response v"
  unfolding smoke_dispatcher_def
  by (rule exact_a_scenario [where f = ism_shell_dispatch_ready_stream and prepare = prepare_worker_minimal_error_response_send,
      OF assms _ respond_eqs(2) _ finished_passes]) (simp_all add: fixture_error fixture_ids)

theorem smoke_empty_worker_passes:
  assumes "scaffold_placed bld response sb query exact_a_query v"
  shows "smoke_empty_worker bld query response v"
proof -
  have "run_checks (response_checks (ingest_direct_complete bld 17 query 35) ism_shell_process_ready_stream_empty_response 17 response
       noerror_header @ []) v"
    by (rule exact_a_scenario [where f = ism_shell_process_ready_stream_empty_response and prepare = prepare_worker_empty_noerror_response_send,
      OF assms _ respond_eqs(3)]) (simp_all add: fixture_empty)
  then show ?thesis by (simp add: smoke_empty_worker_def)
qed

theorem smoke_empty_dispatcher_passes:
  assumes "scaffold_placed bld response sb query exact_a_query v"
  shows "smoke_empty_dispatcher bld query response v"
  unfolding smoke_empty_dispatcher_def
  by (rule exact_a_scenario [where f = ism_shell_dispatch_ready_stream_empty_response and prepare = prepare_worker_empty_noerror_response_send,
      OF assms _ respond_eqs(4) _ finished_passes]) (simp_all add: fixture_empty)

lemma validated_exact_a:
  assumes pl: "scaffold_placed bld rb sb query exact_a_query v"
    and bytes: "mem_bytes m (sc_buf c) (unat (33 :: u32)) = drop 2 exact_a_query" and dis: "ranges_disjoint (sc_buf c) 65535 rb 128"
  shows "\<exists>m'. prepare_worker_validated_minimal_response_send (check_question bld) c rb 128 33 m =
      (of_nat (length expected_validated_response), m') \<and>
    mem_bytes m' rb (length expected_validated_response) = expected_validated_response"
  by (rule fixture_validated [OF _ bytes dis])
    (use pl exact_a_response(1) [of 128] in \<open>simp_all add: scaffold_placed_def validated_eq\<close>)

theorem smoke_validated_worker_passes:
  assumes "scaffold_placed bld response sb query exact_a_query v"
  shows "smoke_validated_worker bld query response v"
proof -
  have "run_checks (response_checks (ingest_direct_complete bld 21 query 35)
      (ism_shell_process_ready_stream_validated_minimal_response bld) 21 response expected_validated_response @ []) v"
    by (rule exact_a_scenario [where f = "ism_shell_process_ready_stream_validated_minimal_response bld" and prepare = "prepare_worker_validated_minimal_response_send (check_question bld)",
      OF assms _ respond_eqs(5) validated_exact_a [OF assms]]) simp_all
  then show ?thesis by (simp add: smoke_validated_worker_def)
qed

theorem smoke_validated_dispatcher_passes:
  assumes pl: "scaffold_placed bld response stream_response query exact_a_query v"
  shows "smoke_validated_dispatcher bld query response stream_response v"
  unfolding smoke_validated_dispatcher_def
proof (rule exact_a_scenario [where f = "ism_shell_dispatch_ready_stream_validated_minimal_response bld" and prepare = "prepare_worker_validated_minimal_response_send (check_question bld)",
      OF pl _ respond_eqs(6) validated_exact_a [OF pl]])
  fix conn m m' c
  assume rd: "scaffold_ready bld response stream_response query exact_a_query (conn, m)" and tab: "abs_table conn = [23 \<mapsto> c]"
    and resp: "mem_bytes m' response (length expected_validated_response) = expected_validated_response"
  have frame: "doq_frame expected_validated_response = expected_validated_stream_response"
    using exact_a_response(2) [of 33] by (simp add: validated_eq)
  have len: "length expected_validated_response = 33" by (simp add: expected_validated_response_def)
  show "run_checks (frame_checks bld 23 response 33 stream_response expected_validated_stream_response @
      finished_checks bld 23 stream_response 35) (conn, m')"
    by (rule frame_passes [OF rd tab resp _ _ frame _ finished_passes [OF rd tab]]) (simp_all add: len)
qed simp_all

theorem smoke_invalid_validated_passes:
  assumes pl: "scaffold_placed bld response stream_response query invalid_header_query v"
  shows "smoke_invalid_validated bld query response stream_response v"
  unfolding smoke_invalid_validated_def formerr_eq [symmetric]
proof (rule response_scenario [where f = "ism_shell_dispatch_ready_stream_validated_minimal_response bld" and prepare = "prepare_worker_validated_minimal_response_send (check_question bld)",
      OF pl _ fixture_phases(2) fixture_ids(3,4) _ respond_eqs(6)])
  fix conn m m' c
  assume rd: "scaffold_ready bld response stream_response query invalid_header_query (conn, m)" and tab: "abs_table conn = [25 \<mapsto> c]"
    and resp: "mem_bytes m' response (length (drop 2 expected_formerr_stream)) = drop 2 expected_formerr_stream"
  have "run_checks (frame_checks bld 25 response 12 stream_response expected_formerr_stream @ []) (conn, m')"
    by (rule frame_passes [OF rd tab resp _ _ invalid_header_response(2) [of 12]]) simp_all
  then show "run_checks (frame_checks bld 25 response 12 stream_response expected_formerr_stream) (conn, m')" by simp
next
  fix c :: stream_context and m
  assume "mem_bytes m (sc_buf c) (unat (12 :: u32)) = drop 2 invalid_header_query" "ranges_disjoint (sc_buf c) 65535 response 128"
  then show "\<exists>m'. prepare_worker_validated_minimal_response_send (check_question bld) c response 128 12 m =
      (of_nat (length (drop 2 expected_formerr_stream)), m') \<and>
    mem_bytes m' response (length (drop 2 expected_formerr_stream)) = drop 2 expected_formerr_stream"
    by (rule fixture_validated [rotated])
      (use pl invalid_header_response(1) [of 128] in \<open>simp_all add: scaffold_placed_def\<close>)
qed simp_all

lemma shell_scaffold:
  assumes "scaffold_placed bld (responses 0) (streams 0) message header_only_doq_message (vs 0)"
    and "\<forall>k\<in>{1..6}. scaffold_placed bld (responses k) (streams k) query exact_a_query (vs k)"
    and "scaffold_placed bld (responses 7) (streams 7) invalid_query invalid_header_query (vs 7)"
  shows "ism_smoke_shell_scaffold bld message query invalid_query responses streams vs"
  unfolding ism_smoke_shell_scaffold_def
  using smoke_streams_passes [OF assms(1)] smoke_invalid_validated_passes [OF assms(3)] assms(2)
  by (auto intro: smoke_worker_passes smoke_dispatcher_passes smoke_empty_worker_passes smoke_empty_dispatcher_passes
      smoke_validated_worker_passes smoke_validated_dispatcher_passes)

end
