(* ===== verification/Smoke_Audit.thy ===== *)
theory Smoke_Audit
  imports Smoke_Shell
begin

text \<open>
  The regression test \<^verbatim>\<open>src/shell/link_proof_audit_smoke.c\<close> as a program over the model: a query cut at every
  position, with a byte too many, and cut short; announced lengths below a header; a nonzero message ID; and the pointer
  table when a stream closes and another opens. The test runs on one connection, in order; every iteration
  leaves the variables placed as it found them. Its last two calls go to a generated validator, the
  parameter \<open>check\<close>, whose documented grammar is that of \<^verbatim>\<open>src/everparse/DNSProtocol.3d\<close>.
\<close>

section \<open>The program\<close>

definition audit_query :: "u8 list" where
  "audit_query = [0, 17, 0, 0, 1, 0, 0, 1, 0, 0, 0, 0, 0, 0, 0, 0, 1, 0, 1]"

definition audit_data :: "build \<Rightarrow> addr \<Rightarrow> nat \<Rightarrow> scaffold_vars \<Rightarrow> u8 \<times> scaffold_vars" where
  "audit_data bld data len v = ism_shell_dispatch_authenticated_stream_data bld (fst v) 4 data (of_nat len) (snd v)"

definition audit_fin :: "build \<Rightarrow> scaffold_vars \<Rightarrow> u8 \<times> scaffold_vars" where
  "audit_fin bld v = ism_shell_on_authenticated_stream_fin bld (fst v) 4 (snd v)"

definition audit_respond :: "build \<Rightarrow> addr \<Rightarrow> scaffold_vars \<Rightarrow> u32 \<times> scaffold_vars" where
  "audit_respond bld response v =
     (let (n, m) = ism_shell_process_ready_stream_validated_minimal_response bld (fst v) 4 response 64 (snd v) in (n, (fst v, m)))"

definition audit_split :: "build \<Rightarrow> addr \<Rightarrow> addr \<Rightarrow> nat \<Rightarrow> scaffold_vars check list" where
  "audit_split bld query response split =
     [init_conn,
      runs (\<lambda>v. snd (audit_data bld query split v)),
      yields (audit_data bld (query + split) (19 - split)) 4,
      yields (audit_respond bld response) 0,
      holds (\<lambda>v. case ism_shell_find_stream bld (fst v) 4 of
          Some p \<Rightarrow> mem_bytes (snd v) (sc_buf (stream_at (fst v) (Some p))) 17 = mem_bytes (snd v) (query + 2) 17
        | None \<Rightarrow> False),
      yields (audit_fin bld) 2,
      yields (audit_respond bld response) 17,
      holds (\<lambda>v. snd v response = 0 \<and> snd v (response + 1) = 0 \<and> snd v (response + 3) = 0)]"

definition audit_excess :: "build \<Rightarrow> addr \<Rightarrow> nat \<Rightarrow> scaffold_vars check list" where
  "audit_excess bld excess split =
     [init_conn,
      runs (\<lambda>v. snd (audit_data bld excess split v)),
      yields (audit_data bld (excess + split) (20 - split)) 3,
      yields (audit_fin bld) 3]"

definition audit_cut :: "build \<Rightarrow> addr \<Rightarrow> nat \<Rightarrow> scaffold_vars check list" where
  "audit_cut bld query k =
     [init_conn, runs (\<lambda>v. snd (audit_data bld query k v)), yields (audit_fin bld) 3]"

definition audit_short :: "build \<Rightarrow> addr \<Rightarrow> nat \<Rightarrow> scaffold_vars check list" where
  "audit_short bld pre k =
     [runs (\<lambda>v. (fst v, mem_write (snd v) pre [0, of_nat k])), init_conn, yields (audit_data bld pre 2) 3]"

definition audit_id :: "build \<Rightarrow> addr \<Rightarrow> addr \<Rightarrow> scaffold_vars check list" where
  "audit_id bld query response =
     [runs (\<lambda>v. (fst v, (snd v)(query + 2 := 0x12, query + 3 := 0x34))),
      init_conn,
      yields (audit_data bld query 19) 4,
      yields (audit_fin bld) 3,
      yields (audit_respond bld response) 0]"

definition audit_streams :: "build \<Rightarrow> scaffold_vars check list" where
  "audit_streams bld =
     [init_conn,
      on_conn (\<lambda>conn.
        let (a, conn1) = ism_shell_open_stream bld conn 0;
            (b, conn2) = ism_shell_open_stream bld conn1 4;
            (code, conn3) = ism_shell_dispatch_stream_reset bld conn2 0;
            (c, conn4) = ism_shell_open_stream bld conn3 8;
            (d, conn5) = ism_shell_open_stream bld conn4 8 in
        (a \<noteq> None \<and> b \<noteq> None \<and> a \<noteq> b \<and> code = 1 \<and> cc_num (conn_ctx conn3) = 1 \<and>
         active_at conn3 0 = b \<and> active_at conn3 1 = a \<and> c = a \<and> sc_id (stream_at conn4 b) = 4 \<and> d = a \<and>
         cc_num (conn_ctx conn5) = 2, conn5)),
      holds (\<lambda>v. \<forall>i<ISM_SHELL_MAX_STREAMS. \<forall>j<ISM_SHELL_MAX_STREAMS. i < j \<longrightarrow> active_at (fst v) i \<noteq> active_at (fst v) j)]"

definition pointer_packet :: "u8 \<Rightarrow> u8 list" where
  "pointer_packet lo =
     [0, 0, 0x81, 0x80, 0, 1, 0, 1, 0, 0, 0, 0, 0, 0, 1, 0, 1,
      0xc0, lo, 0, 1, 0, 1, 0, 0, 0, 1, 0, 4, 127, 0, 0, 1]"

definition ism_smoke_proof_audit ::
  "build \<Rightarrow> (u32 \<Rightarrow> u32 \<Rightarrow> u32 \<Rightarrow> u32 \<Rightarrow> u8 list \<Rightarrow> bool) \<Rightarrow> addr \<Rightarrow> addr \<Rightarrow> addr \<Rightarrow> addr \<Rightarrow> scaffold_vars \<Rightarrow> bool" where
  "ism_smoke_proof_audit bld check query response excess pre v \<longleftrightarrow>
     run_checks
       ([runs (\<lambda>v. (fst v, mem_write (snd v) query audit_query))] @
        concat (map (audit_split bld query response) [0..<20]) @
        [runs (\<lambda>v. (fst v, mem_write (snd v) excess (mem_bytes (snd v) query 19 @ [0xff])))] @
        concat (map (audit_excess bld excess) [0..<21]) @
        concat (map (audit_cut bld query) [0..<19]) @
        concat (map (audit_short bld pre) [0..<12]) @
        audit_id bld query response @ audit_streams bld) v \<and>
     \<not> check 1 4 192 0 (pointer_packet 0) \<and> check 1 4 192 12 (pointer_packet 12)"

section \<open>Triples for tests\<close>

text \<open>The state a test leaves, and the triple: from a state in \<open>P\<close> every condition holds and the test ends in \<open>Q\<close>.\<close>

fun leaves :: "'s check list \<Rightarrow> 's \<Rightarrow> 's" where
  "leaves [] s = s"
| "leaves (p # ps) s = leaves ps (snd (p s))"

definition passes :: "('s \<Rightarrow> bool) \<Rightarrow> 's check list \<Rightarrow> ('s \<Rightarrow> bool) \<Rightarrow> bool" where
  "passes P ps Q \<longleftrightarrow> (\<forall>s. P s \<longrightarrow> run_checks ps s \<and> Q (leaves ps s))"

lemma leaves_append [simp]: "leaves (ps @ qs) s = leaves qs (leaves ps s)"
  by (induction ps arbitrary: s) simp_all

lemma run_checks_append_iff: "run_checks (ps @ qs) s \<longleftrightarrow> run_checks ps s \<and> run_checks qs (leaves ps s)"
  by (induction ps arbitrary: s) (simp_all split: prod.splits)

lemma passes_Nil: "(\<And>s. P s \<Longrightarrow> Q s) \<Longrightarrow> passes P [] Q"
  by (simp add: passes_def)

lemma passes_Cons: "(\<And>s. P s \<Longrightarrow> fst (p s) \<and> R (snd (p s))) \<Longrightarrow> passes R ps Q \<Longrightarrow> passes P (p # ps) Q"
  by (simp add: passes_def case_prod_beta)

lemma passes_append: "passes P ps R \<Longrightarrow> passes R qs Q \<Longrightarrow> passes P (ps @ qs) Q"
  by (simp add: passes_def run_checks_append_iff)

lemma passes_loop: "(\<And>x. x \<in> set xs \<Longrightarrow> passes P (f x) P) \<Longrightarrow> passes P (concat (map f xs)) P"
  by (induction xs) (auto intro: passes_Nil passes_append)

section \<open>Placement\<close>

definition area_ok :: "build \<Rightarrow> ism_shell_connection \<Rightarrow> addr \<Rightarrow> nat \<Rightarrow> bool" where
  "area_ok bld conn p n \<longleftrightarrow> p \<noteq> NULL \<and> n < 65536 \<and>
     (\<forall>i<4. ranges_disjoint p n (message_buffer (conn_streams conn ! i)) 65535 \<and>
        (use_pulse_stream bld \<longrightarrow> range_ok (message_buffer (conn_streams conn ! i)) 65535 \<and>
           disjoint (message_buffer (conn_streams conn ! i)) 65535 p n))"

text \<open>The connection's storage, the response buffer of 64 bytes, and the arrays with their bytes.\<close>

definition arrays_at :: "build \<Rightarrow> addr \<Rightarrow> (addr \<times> u8 list) list \<Rightarrow> scaffold_vars \<Rightarrow> bool" where
  "arrays_at bld response arrs v \<longleftrightarrow>
     length (conn_streams (fst v)) = 4 \<and> (use_pulse_table bld \<longrightarrow> storage_ok bld (fst v)) \<and>
     question_validator (check_question bld) \<and> area_ok bld (fst v) response 64 \<and>
     (\<forall>(p, bs)\<in>set arrs. area_ok bld (fst v) p (length bs) \<and> ranges_disjoint response 64 p (length bs) \<and>
        mem_bytes (snd v) p (length bs) = bs)"

lemma area_ok_layout:
  assumes "conn_layout conn' = conn_layout conn" and "length (conn_streams conn) = 4"
  shows "area_ok bld conn' p n = area_ok bld conn p n"
proof -
  have "length (conn_streams conn') = 4" using assms by (metis conn_layout_def length_map)
  then show ?thesis using layout_nth(1) [OF assms(1)] by (simp add: area_ok_def)
qed

lemma arrays_at_moves:
  assumes "arrays_at bld response arrs v" and lay: "conn_layout (fst v') = conn_layout (fst v)"
    and same: "\<And>p bs. (p, bs) \<in> set arrs \<Longrightarrow> mem_bytes (snd v') p (length bs) = mem_bytes (snd v) p (length bs)"
  shows "arrays_at bld response arrs v'"
proof -
  have len: "length (conn_streams (fst v)) = 4" using assms(1) by (simp add: arrays_at_def)
  then have len': "length (conn_streams (fst v')) = 4" using lay by (metis conn_layout_def length_map)
  show ?thesis
    using assms(1) len' same
    by (fastforce simp: arrays_at_def area_ok_layout [OF lay len] storage_ok_layout [OF lay len'])
qed

text \<open>Writes into a message buffer, or into the response buffer, leave the arrays alone.\<close>

lemma arrays_at_frame:
  assumes "arrays_at bld response arrs v" and lay: "conn_layout (fst v') = conn_layout (fst v)"
    and "q < 4" and "mem_frame (message_buffer (conn_streams (fst v) ! q)) 65535 (snd v) (snd v')"
  shows "arrays_at bld response arrs v'"
proof (rule arrays_at_moves [OF assms(1,2)])
  fix p bs assume "(p, bs) \<in> set arrs"
  then have "ranges_disjoint p (length bs) (message_buffer (conn_streams (fst v) ! q)) 65535"
    using assms(1,3) by (auto simp: arrays_at_def area_ok_def)
  then show "mem_bytes (snd v') p (length bs) = mem_bytes (snd v) p (length bs)"
    using mem_bytes_frame [OF assms(4)] by simp
qed

lemma area_ingress:
  assumes "table_ready bld conn" and "area_ok bld conn p n" and "off + k \<le> n"
  shows "ingress_ready bld conn (p + off) (of_nat k)"
proof -
  have k: "unat (of_nat k :: u32) = k" using assms(2,3) by (intro unat_of_nat_u32) (simp add: area_ok_def)
  show ?thesis
    using assms by (auto simp: ingress_ready_def area_ok_def disjoint_def range_ok_def k)
qed

section \<open>What the calls do\<close>

definition audit_got :: "build \<Rightarrow> addr \<Rightarrow> (addr \<times> u8 list) list \<Rightarrow> u8 list \<Rightarrow> scaffold_vars \<Rightarrow> bool" where
  "audit_got bld response arrs bs v \<longleftrightarrow> arrays_at bld response arrs v \<and> shell_inv (fst v) \<and> stream_got bs (fst v) 4 (snd v)"

text \<open>Stream 4 is ready: its buffer holds the request \<open>bs\<close>.\<close>

definition audit_ready :: "build \<Rightarrow> addr \<Rightarrow> (addr \<times> u8 list) list \<Rightarrow> u8 list \<Rightarrow> scaffold_vars \<Rightarrow> bool" where
  "audit_ready bld response arrs bs v \<longleftrightarrow> arrays_at bld response arrs v \<and> shell_inv (fst v) \<and>
     (\<exists>c n. abs_table (fst v) 4 = Some c \<and> sc_phase c = S_Processing n \<and> unat n = length bs \<and>
        mem_bytes (snd v) (sc_buf c) (length bs) = bs)"

lemma got_ready: "audit_got bld response arrs bs v \<Longrightarrow> table_ready bld (fst v)"
  by (simp add: audit_got_def arrays_at_def table_ready_def)

lemma init_got:
  assumes pl: "arrays_at bld response arrs v"
  shows "audit_got bld response arrs [] (ism_shell_connection_init (fst v) (snd v))"
proof -
  obtain v' where v': "ism_shell_connection_init (fst v) (snd v) = v'" by blast
  have len: "length (conn_streams (fst v)) = 4" and st: "use_pulse_table bld \<longrightarrow> storage_ok bld (fst v)"
    using pl by (simp_all add: arrays_at_def)
  have lay: "conn_layout (fst v') = conn_layout (fst v)" using init_layout [OF len, of "snd v"] v' by simp
  have "arrays_at bld response arrs v'"
  proof (rule arrays_at_moves [OF pl lay])
    fix p bs assume "(p, bs) \<in> set arrs"
    then have "area_ok bld (fst v) p (length bs)" using pl by (auto simp: arrays_at_def)
    then have "\<forall>s\<in>set (conn_streams (fst v)). ranges_disjoint p (length bs) (message_buffer s) 65535"
      using len by (auto simp: area_ok_def in_set_conv_nth)
    then show "mem_bytes (snd v') p (length bs) = mem_bytes (snd v) p (length bs)"
      using init_mem_frame v' by (auto simp: ism_shell_connection_init_def Let_def)
  qed
  moreover have "shell_inv (fst v')" using init_shell_inv [OF len, of "snd v"] v' by simp
  moreover have "stream_got [] (fst v') 4 (snd v')"
    using init_abs_table [of "fst v" "snd v"] v'
    by (auto simp: stream_got_def ism_shell_connection_init_def Let_def)
  ultimately show ?thesis by (simp add: audit_got_def v')
qed

lemma data_got:
  assumes g: "audit_got bld response arrs bs v" and arr: "(p, ar) \<in> set arrs" and k: "off + k \<le> length ar"
    and run: "audit_data bld (p + off) k v = (code, v')"
  shows "audit_got bld response arrs (bs @ take k (drop off ar)) v'" and "abs_table (fst v') 4 \<noteq> None"
    and "code = shell_phase_code (from_model (doq_phase (bs @ take k (drop off ar))))"
proof -
  let ?chunk = "take k (drop off ar)"
  have pl: "arrays_at bld response arrs v" and inv: "shell_inv (fst v)" and sg: "stream_got bs (fst v) 4 (snd v)"
    using g by (simp_all add: audit_got_def)
  have area: "area_ok bld (fst v) p (length ar)" and ar: "mem_bytes (snd v) p (length ar) = ar"
    using pl arr by (auto simp: arrays_at_def)
  have kk: "unat (of_nat k :: u32) = length ?chunk"
    using area k by (subst unat_of_nat_u32) (simp_all add: area_ok_def)
  have chunk: "mem_bytes (snd v) (p + off) (length ?chunk) = ?chunk"
    using k arg_cong [OF ar, of "\<lambda>xs. take k (drop off xs)"] by (simp add: drop_mem_bytes min_def split: if_splits)
  have d: "ingress_data (fst v) 4 (p + off) (of_nat k) (snd v) = (code, fst v', snd v')"
    using run by (simp add: audit_data_def shell_data_eq [OF area_ingress [OF got_ready [OF g] area k]])
  note P = ingress_data_phase [OF inv sg kk chunk d]
  note I = ingress_data_inv [OF inv d]
  obtain q where "q < 4" "mem_frame (message_buffer (conn_streams (fst v) ! q)) 65535 (snd v) (snd v')"
    using ingress_data_frame [OF inv d] by blast
  with arrays_at_frame [OF pl I(2)] have "arrays_at bld response arrs v'" by simp
  with I(1) P(1) show "audit_got bld response arrs (bs @ ?chunk) v'" by (simp add: audit_got_def)
  show "abs_table (fst v') 4 \<noteq> None" and "code = shell_phase_code (from_model (doq_phase (bs @ ?chunk)))"
    using P(4,6) by simp_all
qed

lemma respond_idle:
  assumes "shell_inv (fst v)" and "\<And>c n. abs_table (fst v) 4 = Some c \<Longrightarrow> sc_phase c \<noteq> S_Processing n"
  shows "audit_respond bld response v = (0, v)"
proof (cases "abs_table (fst v) 4")
  case None
  then show ?thesis by (simp add: audit_respond_def respond_eqs dispatch_ready_def find_stream_eq abs_table_None)
next
  case (Some c)
  obtain p where "find_stream (fst v) 4 = Some p" "stream_at (fst v) (Some p) = c" using abs_table_find [OF assms(1) Some] by metis
  with assms(2) [OF Some] show ?thesis
    by (simp add: audit_respond_def respond_eqs dispatch_ready_def split: stream_phase.splits)
qed

lemma respond_before_fin: "audit_got bld response arrs bs v \<Longrightarrow> audit_respond bld response v = (0, v)"
  by (rule respond_idle) (auto simp: audit_got_def stream_got_def stream_holds_def, metis doq_phase_not_Processing to_model.simps(5))

lemma fin_bad:
  assumes g: "audit_got bld response arrs bs v" and bad: "\<not> may_finish bs"
  obtains v' where "audit_fin bld v = (3, v')" and "arrays_at bld response arrs v'" and "audit_respond bld response v' = (0, v')"
proof -
  have pl: "arrays_at bld response arrs v" and inv: "shell_inv (fst v)" and sg: "stream_got bs (fst v) 4 (snd v)"
    using g by (simp_all add: audit_got_def)
  have ready: "ingress_ready bld (fst v) response 0"
    using got_ready [OF g] pl by (auto simp: ingress_ready_def arrays_at_def area_ok_def)
  obtain code conn' m' where f: "ingress_fin (fst v) 4 (snd v) = (code, conn', m')" by (metis prod_cases3)
  note I = ingress_fin_inv [OF inv f]
  have room: "abs_table (fst v) 4 \<noteq> None \<or> active_count (fst v) < 4"
    using sg by (auto simp: stream_got_def split: option.splits)
  then have "fst (open_result (fst v) 4) \<noteq> None" using open_result_abs_table(4) [OF inv, of 4] by auto
  then obtain q conn1 where op: "open_result (fst v) 4 = (Some q, conn1)" by (metis option.collapse prod.collapse)
  obtain phase c where h: "handle_stream_fin (stream_at conn1 (Some q)) (snd v) = (phase, c)" by fastforce
  have code: "code = shell_phase_code phase" and conn': "conn' = set_stream conn1 (Some q) c"
    using f op h by (simp_all add: ingress_fin_def)
  note o = opened_stream [OF inv op]
  have tab: "abs_table conn' 4 = Some c"
    using write_back(2) [OF inv op handle_stream_fin_valid(3) [OF h] handle_stream_fin_valid(1) [OF h o(4)]
        handle_stream_fin_valid(2) [OF h o(3)]] by (simp add: conn')
  have "(\<exists>n. phase = S_Processing n) \<or> phase = S_Done" and ph: "sc_phase c = phase"
    using h by (auto simp: handle_stream_fin_def stream_finish_doq_phase_def finish_doq_phase_def finish_stream_phase_def
        Let_def split: model_phase.splits if_splits)
  moreover have "code \<noteq> 2" by (rule ingress_fin_refused [OF inv sg bad f])
  ultimately have dn: "phase = S_Done" "code = 3" using code by auto
  have "audit_fin bld v = (3, (conn', snd v))"
    using f dn(2) I(3) by (simp add: audit_fin_def shell_fin_eq [OF ready])
  moreover have "arrays_at bld response arrs (conn', snd v)" using I(2) by (intro arrays_at_moves [OF pl]) simp_all
  moreover have "audit_respond bld response (conn', snd v) = (0, (conn', snd v))"
    using I(1) tab ph dn(1) by (intro respond_idle) auto
  ultimately show ?thesis by (rule that)
qed

lemma fin_good:
  assumes g: "audit_got bld response arrs bs v" and "may_finish bs" and tab: "abs_table (fst v) 4 \<noteq> None"
  obtains v' where "audit_fin bld v = (2, v')" and "audit_ready bld response arrs (drop 2 bs) v'"
proof -
  have pl: "arrays_at bld response arrs v" and inv: "shell_inv (fst v)" using g by (simp_all add: audit_got_def)
  obtain n where n: "doq_phase bs = AwaitingFin n" and id: "bs ! 2 = 0" "bs ! 3 = 0" using assms(2) by (auto simp: may_finish_def)
  obtain c where c: "abs_table (fst v) 4 = Some c" "stream_holds bs c (snd v)"
    using g tab by (auto simp: audit_got_def stream_got_def)
  have ready: "ingress_ready bld (fst v) response 0"
    using got_ready [OF g] pl by (auto simp: ingress_ready_def arrays_at_def area_ok_def)
  obtain conn' where f: "ingress_fin (fst v) 4 (snd v) = (2, conn', snd v)" "shell_inv conn'" "conn_layout conn' = conn_layout (fst v)"
      "abs_table conn' = (abs_table (fst v))(4 \<mapsto> c\<lparr>sc_phase := S_Processing n\<rparr>)"
      "mem_bytes (snd v) (sc_buf c) (unat n) = drop 2 bs"
    using fin_processing [OF inv c n id] by metis
  have len: "unat n = length (drop 2 bs)" using arg_cong [OF f(5), of length] by simp
  have "audit_fin bld v = (2, (conn', snd v))" using f(1) by (simp add: audit_fin_def shell_fin_eq [OF ready])
  moreover have "arrays_at bld response arrs (conn', snd v)" using f(3) by (intro arrays_at_moves [OF pl]) simp_all
  then have "audit_ready bld response arrs (drop 2 bs) (conn', snd v)"
    using f(2,4,5) len by (auto simp: audit_ready_def)
  ultimately show ?thesis by (rule that)
qed

lemma respond_processing:
  assumes p: "audit_ready bld response arrs bs v" and "length bs \<le> 65535" and r: "minimal_response bs 64 = Some r"
  obtains v' where "audit_respond bld response v = (of_nat (length r), v')" and "arrays_at bld response arrs v'"
    and "mem_bytes (snd v') response (length r) = r"
proof -
  obtain c n where pl: "arrays_at bld response arrs v" and inv: "shell_inv (fst v)" and c: "abs_table (fst v) 4 = Some c"
    "sc_phase c = S_Processing n" "unat n = length bs" "mem_bytes (snd v) (sc_buf c) (length bs) = bs"
    using p by (auto simp: audit_ready_def)
  obtain k m' where w: "prepare_worker_validated_minimal_response_send (check_question bld) c response 64 n (snd v) = (k, m')" by fastforce
  have val: "question_validator (check_question bld)" and area: "area_ok bld (fst v) response 64"
    using pl by (simp_all add: arrays_at_def)
  obtain q where "q < 4" "sc_buf c = message_buffer (conn_streams (fst v) ! q)" using abs_table_find [OF inv c(1)] by metis
  then have "ranges_disjoint response 64 (sc_buf c) 65535" using area by (simp add: area_ok_def)
  then have "ranges_disjoint (sc_buf c) (unat n) response (unat (64 :: u32))"
    using assms(2) c(3) by (auto simp: ranges_disjoint_def)
  from question_validator.validated_response_send [OF val this w] c(3,4) r
  have k: "unat k = length r" "mem_bytes m' response (length r) = r" "mem_frame response (length r) (snd v) m'" by simp_all
  have "length r \<le> 64" using r by (auto simp: minimal_response_def split: if_splits)
  have "k = of_nat (length r)" using k(1) by (metis u32_of_nat_unat)
  then have "audit_respond bld response v = (of_nat (length r), (fst v, m'))"
    using w c by (simp add: audit_respond_def respond_eqs ready_dispatch [OF inv])
  moreover have "arrays_at bld response arrs (fst v, m')"
  proof (rule arrays_at_moves [OF pl])
    fix p as assume "(p, as) \<in> set arrs"
    then have "ranges_disjoint response 64 p (length as)" using pl by (auto simp: arrays_at_def)
    then have "ranges_disjoint p (length as) response (length r)" using \<open>length r \<le> 64\<close> by (auto simp: ranges_disjoint_def)
    then show "mem_bytes (snd (fst v, m')) p (length as) = mem_bytes (snd v) p (length as)"
      using mem_bytes_frame [OF k(3)] by simp
  qed simp
  ultimately show ?thesis using that [of "(fst v, m')"] k(2) by simp
qed

section \<open>The loops\<close>

lemma audit_query_facts:
  "length audit_query = 19" "doq_phase audit_query = AwaitingFin 17" "may_finish audit_query"
  "doq_phase (audit_query @ [0xff]) = Done"
  by (simp_all add: audit_query_def may_finish_code)

lemma audit_query_question: "question_request (drop 2 audit_query)"
  unfolding question_request_def
  by (intro exI [of _ "[1, 0]"] exI [of _ "[]"] exI [of _ "[0, 1, 0, 1]"]) (simp add: audit_query_def encode_name_def)

lemma audit_query_response:
  "minimal_response (drop 2 audit_query) 64 = Some (echo_response (drop 2 audit_query))"
  "length (echo_response (drop 2 audit_query)) = 17"
  "echo_response (drop 2 audit_query) ! 0 = 0" "echo_response (drop 2 audit_query) ! 1 = 0"
  "echo_response (drop 2 audit_query) ! 3 = 0"
  using audit_query_question
  by (simp_all add: minimal_response_def echo_response_def audit_query_def noerror_response_flags_hi_def noerror_response_flags_lo_def)

lemma truncated_refused: "k < 19 \<Longrightarrow> \<not> may_finish (take k audit_query)"
proof -
  have "list_all (\<lambda>k. \<not> may_finish (take k audit_query)) [0..<19]" by (simp add: audit_query_def may_finish_code upt_rec)
  then show "k < 19 \<Longrightarrow> ?thesis" by (simp add: list_all_iff)
qed

lemma short_prefix_Done: "k < 12 \<Longrightarrow> doq_phase [0, of_nat k] = Done"
proof -
  have "list_all (\<lambda>k. doq_phase [0, of_nat k] = Done) [0..<12]" by (simp add: upt_rec)
  then show "k < 12 \<Longrightarrow> ?thesis" by (simp add: list_all_iff)
qed

lemma init_passes: "passes (arrays_at bld response arrs) [init_conn] (audit_got bld response arrs [])"
  by (simp add: passes_def init_conn_def runs_def init_got)

text \<open>The two fragments of an array cut at \<open>split\<close>, in a row.\<close>

lemma split_data:
  assumes "(p, ar) \<in> set arrs" and "split \<le> length ar"
  shows "passes (arrays_at bld response arrs)
     [init_conn, runs (\<lambda>v. snd (audit_data bld p split v)),
      yields (audit_data bld (p + split) (length ar - split)) (shell_phase_code (from_model (doq_phase ar)))]
     (\<lambda>v. audit_got bld response arrs ar v \<and> abs_table (fst v) 4 \<noteq> None)"
proof -
  have first: "passes (audit_got bld response arrs []) [runs (\<lambda>v. snd (audit_data bld p split v))] (audit_got bld response arrs (take split ar))"
    using data_got(1) [OF _ assms(1), of bld response "[]" _ 0 split] assms(2)
    by (auto simp: passes_def runs_def) (metis prod.collapse)
  have "passes (audit_got bld response arrs (take split ar))
     [yields (audit_data bld (p + split) (length ar - split)) (shell_phase_code (from_model (doq_phase ar)))]
     (\<lambda>v. audit_got bld response arrs ar v \<and> abs_table (fst v) 4 \<noteq> None)"
    using data_got [OF _ assms(1), of bld response "take split ar" _ split "length ar - split"] assms(2)
    by (auto simp: passes_def yields_def split: prod.splits)
  from passes_append [OF init_passes passes_append [OF first this]] show ?thesis by simp
qed

lemma split_passes:
  assumes q: "(query, audit_query) \<in> set arrs" and split: "split < 20"
  shows "passes (arrays_at bld response arrs) (audit_split bld query response split) (arrays_at bld response arrs)"
proof -
  let ?r = "echo_response (drop 2 audit_query)" and ?rest = "drop 3 (audit_split bld query response split)"
  have data: "passes (arrays_at bld response arrs)
     [init_conn, runs (\<lambda>v. snd (audit_data bld query split v)), yields (audit_data bld (query + split) (19 - split)) 4]
     (\<lambda>v. audit_got bld response arrs audit_query v \<and> abs_table (fst v) 4 \<noteq> None)"
    using split_data [OF q, of split bld response] split by (simp add: audit_query_facts)
  have rest: "passes (\<lambda>v. audit_got bld response arrs audit_query v \<and> abs_table (fst v) 4 \<noteq> None) ?rest (arrays_at bld response arrs)"
    unfolding passes_def
  proof (intro allI impI)
    fix v assume a: "audit_got bld response arrs audit_query v \<and> abs_table (fst v) 4 \<noteq> None"
    then have g: "audit_got bld response arrs audit_query v" and tab: "abs_table (fst v) 4 \<noteq> None" by simp_all
    have inv: "shell_inv (fst v)" using g by (simp add: audit_got_def)
    obtain c where c: "abs_table (fst v) 4 = Some c" "stream_holds audit_query c (snd v)"
      using g tab by (auto simp: audit_got_def stream_got_def)
    obtain p where p: "find_stream (fst v) 4 = Some p" "stream_at (fst v) (Some p) = c" using abs_table_find [OF inv c(1)] by metis
    have "mem_bytes (snd v) query 19 = audit_query" using g q by (auto simp: audit_got_def arrays_at_def audit_query_facts)
    then have "mem_bytes (snd v) (query + 2) 17 = drop 2 audit_query" using drop_mem_bytes [of 2 "snd v" query 19] by simp
    then have same: "mem_bytes (snd v) (sc_buf c) 17 = mem_bytes (snd v) (query + 2) 17"
      using c(2) by (simp add: stream_holds_def audit_query_facts)
    obtain v1 where v1: "audit_fin bld v = (2, v1)" "audit_ready bld response arrs (drop 2 audit_query) v1"
      using fin_good [OF g audit_query_facts(3) tab] .
    obtain v2 where v2: "audit_respond bld response v1 = (of_nat (length ?r), v2)" "arrays_at bld response arrs v2"
        "mem_bytes (snd v2) response (length ?r) = ?r"
      using respond_processing [OF v1(2) _ audit_query_response(1)] by (auto simp: audit_query_facts)
    have "snd v2 (response + i) = ?r ! i" if "i < 17" for i using mem_bytes_nth [OF _ v2(3)] that audit_query_response(2) by simp
    from this [of 0] this [of 1] this [of 3] v2(1,2)
    show "run_checks ?rest v \<and> arrays_at bld response arrs (leaves ?rest v)"
      using respond_before_fin [OF g] v1(1) same p audit_query_response
      by (simp add: audit_split_def check_defs shell_find_eq [OF got_ready [OF g]])
  qed
  from passes_append [OF data rest] show ?thesis by (simp add: audit_split_def)
qed

lemma fin_bad_passes:
  assumes "\<not> may_finish bs"
  shows "passes (audit_got bld response arrs bs) [yields (audit_fin bld) 3] (arrays_at bld response arrs)"
    and "passes (audit_got bld response arrs bs) [yields (audit_fin bld) 3, yields (audit_respond bld response) 0] (arrays_at bld response arrs)"
proof -
  have "\<exists>v'. audit_fin bld v = (3, v') \<and> arrays_at bld response arrs v' \<and> audit_respond bld response v' = (0, v')"
    if "audit_got bld response arrs bs v" for v
    using fin_bad [OF that assms] by metis
  then show "passes (audit_got bld response arrs bs) [yields (audit_fin bld) 3] (arrays_at bld response arrs)"
    "passes (audit_got bld response arrs bs) [yields (audit_fin bld) 3, yields (audit_respond bld response) 0] (arrays_at bld response arrs)"
    by (fastforce simp: passes_def yields_def)+
qed

lemma passes_weaken: "passes P ps Q \<Longrightarrow> (\<And>s. P' s \<Longrightarrow> P s) \<Longrightarrow> (\<And>s. Q s \<Longrightarrow> Q' s) \<Longrightarrow> passes P' ps Q'"
  by (simp add: passes_def)

lemma excess_passes:
  assumes e: "(excess, audit_query @ [0xff]) \<in> set arrs" and split: "split < 21"
  shows "passes (arrays_at bld response arrs) (audit_excess bld excess split) (arrays_at bld response arrs)"
proof -
  have "passes (arrays_at bld response arrs)
     [init_conn, runs (\<lambda>v. snd (audit_data bld excess split v)), yields (audit_data bld (excess + split) (20 - split)) 3]
     (audit_got bld response arrs (audit_query @ [0xff]))"
    using passes_weaken [OF split_data [OF e, of split bld response], of "arrays_at bld response arrs"
        "audit_got bld response arrs (audit_query @ [0xff])"] split by (simp add: audit_query_facts)
  moreover have "\<not> may_finish (audit_query @ [0xff])" using audit_query_facts(4) by (simp add: may_finish_def)
  ultimately show ?thesis
    using passes_append [OF _ fin_bad_passes(1)] by (fastforce simp: audit_excess_def)
qed

lemma cut_passes:
  assumes q: "(query, audit_query) \<in> set arrs" and k: "k < 19"
  shows "passes (arrays_at bld response arrs) (audit_cut bld query k) (arrays_at bld response arrs)"
proof -
  have "passes (audit_got bld response arrs []) [runs (\<lambda>v. snd (audit_data bld query k v))] (audit_got bld response arrs (take k audit_query))"
    using data_got(1) [OF _ q, of bld response "[]" _ 0 k] k
    by (auto simp: passes_def runs_def audit_query_facts) (metis prod.collapse)
  from passes_append [OF init_passes passes_append [OF this fin_bad_passes(1) [OF truncated_refused [OF k]]]]
  show ?thesis by (simp add: audit_cut_def)
qed

text \<open>Storing into an array that stands apart from the others.\<close>

lemma arrays_at_store:
  assumes "arrays_at bld response ((p, old) # arrs) v" and len: "length bs = length old"
    and apart: "\<forall>(q, as)\<in>set arrs. ranges_disjoint p (length bs) q (length as)"
  shows "arrays_at bld response ((p, bs) # arrs) (fst v, mem_write (snd v) p bs)"
proof -
  have "arrays_at bld response arrs (fst v, mem_write (snd v) p bs)"
  proof (rule arrays_at_moves)
    show "arrays_at bld response arrs v" using assms(1) by (simp add: arrays_at_def)
    fix q as assume "(q, as) \<in> set arrs"
    then have "ranges_disjoint p (length bs) q (length as)" using apart by auto
    then show "mem_bytes (snd (fst v, mem_write (snd v) p bs)) q (length as) = mem_bytes (snd v) q (length as)"
      by (intro mem_bytes_eqI) (auto simp: mem_write_def ranges_disjoint_def)
  qed simp
  then show ?thesis using assms(1) mem_bytes_write_same [of "snd v" p bs] unfolding len by (simp add: arrays_at_def len)
qed

lemma arrays_at_less: "arrays_at bld response arrs v \<Longrightarrow> set arrs' \<subseteq> set arrs \<Longrightarrow> arrays_at bld response arrs' v"
  by (auto simp: arrays_at_def)

lemma short_passes:
  assumes k: "k < 12" and apart: "\<forall>(q, as)\<in>set arrs. ranges_disjoint pre 2 q (length as)"
  shows "passes (\<lambda>v. \<exists>bs. length bs = 2 \<and> arrays_at bld response ((pre, bs) # arrs) v) (audit_short bld pre k)
     (\<lambda>v. \<exists>bs. length bs = 2 \<and> arrays_at bld response ((pre, bs) # arrs) v)"
proof -
  let ?bs = "[0, of_nat k] :: u8 list"
  have store: "passes (\<lambda>v. \<exists>bs. length bs = 2 \<and> arrays_at bld response ((pre, bs) # arrs) v)
     [runs (\<lambda>v. (fst v, mem_write (snd v) pre ?bs))] (arrays_at bld response ((pre, ?bs) # arrs))"
    unfolding passes_def
  proof (intro allI impI)
    fix v assume "\<exists>bs. length bs = 2 \<and> arrays_at bld response ((pre, bs) # arrs) v"
    then obtain bs where bs: "length bs = 2" "arrays_at bld response ((pre, bs) # arrs) v" by blast
    have "arrays_at bld response ((pre, ?bs) # arrs) (fst v, mem_write (snd v) pre ?bs)"
      by (rule arrays_at_store [OF bs(2)]) (use bs(1) apart in \<open>simp_all add: eval_nat_numeral\<close>)
    then show "run_checks [runs (\<lambda>v. (fst v, mem_write (snd v) pre ?bs))] v \<and>
        arrays_at bld response ((pre, ?bs) # arrs) (leaves [runs (\<lambda>v. (fst v, mem_write (snd v) pre ?bs))] v)"
      by (simp add: runs_def)
  qed
  have "passes (audit_got bld response ((pre, ?bs) # arrs) []) [yields (audit_data bld pre 2) 3] (arrays_at bld response ((pre, ?bs) # arrs))"
    unfolding passes_def
  proof (intro allI impI)
    fix v assume g: "audit_got bld response ((pre, ?bs) # arrs) [] v"
    obtain code v' where r: "audit_data bld (pre + 0) 2 v = (code, v')" by (metis surj_pair)
    note d = data_got [OF g _ _ r, of ?bs, simplified]
    have "code = 3" "arrays_at bld response ((pre, ?bs) # arrs) v'"
      using d short_prefix_Done [OF k] by (simp_all add: audit_got_def)
    with r show "run_checks [yields (audit_data bld pre 2) 3] v \<and>
        arrays_at bld response ((pre, ?bs) # arrs) (leaves [yields (audit_data bld pre 2) 3] v)"
      by (simp add: yields_def)
  qed
  then have "passes (audit_got bld response ((pre, ?bs) # arrs) []) [yields (audit_data bld pre 2) 3]
      (\<lambda>v. \<exists>bs. length bs = 2 \<and> arrays_at bld response ((pre, bs) # arrs) v)"
    by (rule passes_weaken) (auto intro!: exI [of _ ?bs])
  from passes_append [OF store passes_append [OF init_passes this]] show ?thesis by (simp add: audit_short_def)
qed

lemma id_passes:
  shows "passes (arrays_at bld response [(query, audit_query)]) (audit_id bld query response) (arrays_at bld response [])"
proof -
  let ?bs = "audit_query[2 := 0x12, 3 := 0x34]"
  have store: "passes (arrays_at bld response [(query, audit_query)])
     [runs (\<lambda>v. (fst v, (snd v)(query + 2 := 0x12, query + 3 := 0x34)))] (arrays_at bld response [(query, ?bs)])"
    using mem_bytes_upd [of 2 19] mem_bytes_upd [of 3 19]
    by (simp add: passes_def runs_def arrays_at_def audit_query_facts)
  have bad: "\<not> may_finish ?bs" "doq_phase ?bs = AwaitingFin 17" "length ?bs = 19"
    by (simp_all add: may_finish_code audit_query_def)
  have "passes (audit_got bld response [(query, ?bs)] []) [yields (audit_data bld query 19) 4] (audit_got bld response [(query, ?bs)] ?bs)"
    using data_got [of bld response "[(query, ?bs)]" "[]" _ query ?bs 0 19] bad(2,3)
    by (fastforce simp: passes_def yields_def split: prod.splits)
  from passes_append [OF store passes_append [OF init_passes passes_append [OF this fin_bad_passes(2) [OF bad(1)]]]]
  have "passes (arrays_at bld response [(query, audit_query)]) (audit_id bld query response) (arrays_at bld response [(query, ?bs)])"
    by (simp add: audit_id_def)
  then show ?thesis by (rule passes_weaken) (auto elim: arrays_at_less)
qed

section \<open>Slots that come back\<close>

text \<open>A connection whose four slots read a length prefix: the number of streams, the table, and the
  identifier and flag of each slot, over the storage \<open>xs\<close> (address and buffer of each slot).\<close>

definition fresh_table :: "(addr \<times> addr) list \<Rightarrow> u32 \<Rightarrow> nat list \<Rightarrow> (u64 \<times> bool) list \<Rightarrow> ism_shell_connection" where
  "fresh_table xs n act slots =
     \<lparr>conn_ctx = \<lparr>cc_active = ConnActive, cc_num = n, cc_capacity = 4\<rparr>, conn_active = map Some act,
      conn_streams = map2 (\<lambda>(a, b) (sid, flag). \<lparr>ss_ctx = \<lparr>sc_id = sid, sc_phase = S_ReadingLength, sc_buf = b\<rparr>,
        ctx_addr = a, message_buffer = b, ss_active = flag\<rparr>) xs slots\<rparr>"

lemma init_fresh_table:
  assumes "length (conn_streams conn) = 4"
  shows "fst (ism_shell_connection_init conn m) =
    fresh_table (map (\<lambda>s. (ctx_addr s, message_buffer s)) (conn_streams conn)) 0 [0, 1, 2, 3] [(0, False), (0, False), (0, False), (0, False)]"
proof -
  obtain a b c d where "conn_streams conn = [a, b, c, d]"
    using assms by (auto simp: length_Suc_conv eval_nat_numeral)
  then show ?thesis
    by (simp add: ism_shell_connection_init_def ism_shell_reset_stream_def fresh_table_def Let_def ISM_SHELL_MAX_STREAMS_def upt_rec)
qed

lemma audit_table:
  assumes "length xs = 4"
  shows "open_result (fresh_table xs 0 [0, 1, 2, 3] [(0, False), (0, False), (0, False), (0, False)]) 0 =
      (Some 0, fresh_table xs 1 [0, 1, 2, 3] [(0, True), (0, False), (0, False), (0, False)])"
    and "open_result (fresh_table xs 1 [0, 1, 2, 3] [(0, True), (0, False), (0, False), (0, False)]) 4 =
      (Some 1, fresh_table xs 2 [0, 1, 2, 3] [(0, True), (4, True), (0, False), (0, False)])"
    and "finish_stream (fresh_table xs 2 [0, 1, 2, 3] [(0, True), (4, True), (0, False), (0, False)]) 0 =
      fresh_table xs 1 [1, 0, 2, 3] [(0, False), (4, True), (0, False), (0, False)]"
    and "open_result (fresh_table xs 1 [1, 0, 2, 3] [(0, False), (4, True), (0, False), (0, False)]) 8 =
      (Some 0, fresh_table xs 2 [1, 0, 2, 3] [(8, True), (4, True), (0, False), (0, False)])"
    and "open_result (fresh_table xs 2 [1, 0, 2, 3] [(8, True), (4, True), (0, False), (0, False)]) 8 =
      (Some 0, fresh_table xs 2 [1, 0, 2, 3] [(8, True), (4, True), (0, False), (0, False)])"
proof -
  obtain x0 x1 x2 x3 where xs: "xs = [x0, x1, x2, x3]" using assms by (auto simp: length_Suc_conv eval_nat_numeral)
  obtain a0 b0 a1 b1 a2 b2 a3 b3 where ab: "x0 = (a0, b0)" "x1 = (a1, b1)" "x2 = (a2, b2)" "x3 = (a3, b3)" by (metis surj_pair)
  note ev = xs ab fresh_table_def open_result_def active_index_def activate_next_def stream_at_def upt_rec
  show "open_result (fresh_table xs 0 [0, 1, 2, 3] [(0, False), (0, False), (0, False), (0, False)]) 0 =
      (Some 0, fresh_table xs 1 [0, 1, 2, 3] [(0, True), (0, False), (0, False), (0, False)])"
    by (simp add: ev)
  show "open_result (fresh_table xs 1 [0, 1, 2, 3] [(0, True), (0, False), (0, False), (0, False)]) 4 =
      (Some 1, fresh_table xs 2 [0, 1, 2, 3] [(0, True), (4, True), (0, False), (0, False)])"
    by (simp add: ev)
  show "finish_stream (fresh_table xs 2 [0, 1, 2, 3] [(0, True), (4, True), (0, False), (0, False)]) 0 =
      fresh_table xs 1 [1, 0, 2, 3] [(0, False), (4, True), (0, False), (0, False)]"
    by (simp add: ev finish_stream_def close_stream_def close_stream_from.simps Let_def ism_shell_sync_stream_slots_def
        ism_shell_stream_is_active_ptr_def ism_shell_reset_stream_def ISM_SHELL_MAX_STREAMS_def)
  show "open_result (fresh_table xs 1 [1, 0, 2, 3] [(0, False), (4, True), (0, False), (0, False)]) 8 =
      (Some 0, fresh_table xs 2 [1, 0, 2, 3] [(8, True), (4, True), (0, False), (0, False)])"
    by (simp add: ev)
  show "open_result (fresh_table xs 2 [1, 0, 2, 3] [(8, True), (4, True), (0, False), (0, False)]) 8 =
      (Some 0, fresh_table xs 2 [1, 0, 2, 3] [(8, True), (4, True), (0, False), (0, False)])"
    by (simp add: ev)
qed

lemma streams_passes: "passes (arrays_at bld response []) (audit_streams bld) (\<lambda>_. True)"
  unfolding passes_def
proof (intro allI impI)
  fix v assume pl: "arrays_at bld response [] v"
  obtain v' where v': "ism_shell_connection_init (fst v) (snd v) = v'" by blast
  let ?xs = "map (\<lambda>s. (ctx_addr s, message_buffer s)) (conn_streams (fst v))"
  have len: "length (conn_streams (fst v)) = 4" "length ?xs = 4" using pl by (simp_all add: arrays_at_def)
  note E = audit_table [OF len(2)]
  have t0: "fst v' = fresh_table ?xs 0 [0, 1, 2, 3] [(0, False), (0, False), (0, False), (0, False)]"
    using init_fresh_table [OF len(1), of "snd v"] v' by simp
  have opens: "table_ready bld (snd (open_result conn sid))" if "table_ready bld conn" for conn sid
    using that shell_table.opn_inv [OF that] by (simp add: shell_open_eq [OF that])
  have closes: "table_ready bld (finish_stream conn sid)" if "table_ready bld conn" for conn sid
    using shell_table.cls_inv [OF that, of sid] by (simp add: shell_finish_eq [OF that])
  have r0: "table_ready bld (fst v')" using got_ready [OF init_got [OF pl]] v' by simp
  define t where "t = fresh_table ?xs 0 [0, 1, 2, 3] [(0, False), (0, False), (0, False), (0, False)]"
  define u where "u = fresh_table ?xs 1 [0, 1, 2, 3] [(0, True), (0, False), (0, False), (0, False)]"
  define w where "w = fresh_table ?xs 2 [0, 1, 2, 3] [(0, True), (4, True), (0, False), (0, False)]"
  define x where "x = fresh_table ?xs 1 [1, 0, 2, 3] [(0, False), (4, True), (0, False), (0, False)]"
  define y where "y = fresh_table ?xs 2 [1, 0, 2, 3] [(8, True), (4, True), (0, False), (0, False)]"
  note F = E [folded t_def u_def w_def x_def y_def]
  have rt: "table_ready bld t" using r0 t0 by (simp add: t_def)
  note ru = opens [OF rt, of 0, unfolded F(1) snd_conv]
  note rw = opens [OF ru, of 4, unfolded F(2) snd_conv]
  note rx = closes [OF rw, of 0, unfolded F(3)]
  note ry = opens [OF rx, of 8, unfolded F(4) snd_conv]
  obtain x0 x1 x2 x3 where xs: "?xs = [x0, x1, x2, x3]" using len(2) by (auto simp: length_Suc_conv eval_nat_numeral)
  have ends: "sc_id (stream_at y (Some 1)) = 4" "cc_num (conn_ctx x) = 1" "cc_num (conn_ctx y) = 2"
    "active_at x 0 = Some 1" "active_at x 1 = Some 0" "conn_active y = [Some 1, Some 0, Some 2, Some 3]"
    unfolding x_def y_def xs by (simp_all add: fresh_table_def stream_at_def split: prod.splits)
  have "run_checks (audit_streams bld) v"
    using v' t0 [folded t_def] ends
    by (simp add: audit_streams_def init_conn_def check_defs on_conn_def F shell_open_eq [OF rt]
        shell_open_eq [OF ru] shell_finish_eq(3) [OF rw] shell_open_eq [OF rx] shell_open_eq [OF ry])
      (simp add: ISM_SHELL_MAX_STREAMS_def eval_nat_numeral less_Suc_eq all_conj_distrib)
  then show "run_checks (audit_streams bld) v \<and> True" by simp
qed

end
