(* ===== verification/Dns_Name.thy ===== *)
theory Dns_Name
  imports Prelude
begin

text \<open>
  Domain names: \<^verbatim>\<open>src/src/protocol/DNS.Name.fst\<close> and the name functions of
  \<^verbatim>\<open>src/src/protocol/DNS.Protocol.Serializer.fst\<close>. A name is a list of labels of 1 to 63 bytes; on the wire each
  label follows its length, a zero byte ends the name, and a compressed name may end in a pointer to an
  earlier position. The plain parser accepts exactly the serialized names of at most 255 bytes, and the
  parser of compressed names is sound and complete for an inductive reading of them in which every pointer
  goes strictly backwards to a known position.
\<close>

section \<open>Names and their comparison\<close>

type_synonym label = "u8 list"
type_synonym qname = "label list"

definition valid_label :: "label \<Rightarrow> bool" where
  "valid_label l \<longleftrightarrow> 1 \<le> length l \<and> length l \<le> 63"

definition fold_ascii :: "u8 \<Rightarrow> u8" where
  "fold_ascii b = (if 65 \<le> unat b \<and> unat b \<le> 90 then of_nat (unat b + 32) else b)"

primrec canonical_bytes :: "u8 list \<Rightarrow> u8 list" where
  "canonical_bytes [] = []"
| "canonical_bytes (b # rest) = fold_ascii b # canonical_bytes rest"

definition canonical_label :: "label \<Rightarrow> label" where
  "canonical_label l = canonical_bytes l"

primrec canonical_name :: "qname \<Rightarrow> qname" where
  "canonical_name [] = []"
| "canonical_name (l # rest) = canonical_label l # canonical_name rest"

definition label_eq :: "label \<Rightarrow> label \<Rightarrow> bool" where
  "label_eq a b \<longleftrightarrow> canonical_label a = canonical_label b"

definition qname_eq :: "qname \<Rightarrow> qname \<Rightarrow> bool" where
  "qname_eq a b \<longleftrightarrow> canonical_name a = canonical_name b"

datatype tree_key = TreeKey qname

definition name_to_tree_key :: "qname \<Rightarrow> tree_key" where
  "name_to_tree_key name = TreeKey (rev name)"

primrec dns_name_length :: "qname \<Rightarrow> nat" where
  "dns_name_length [] = 1"
| "dns_name_length (l # rest) = length l + 1 + dns_name_length rest"

section \<open>Serialization and the plain parser\<close>

primrec serialize_qname_labels :: "qname \<Rightarrow> u8 list" where
  "serialize_qname_labels [] = [0]"
| "serialize_qname_labels (l # rest) = (of_nat (length l) # l) @ serialize_qname_labels rest"

definition serialize_qname_uncompressed :: "qname \<Rightarrow> u8 list option" where
  "serialize_qname_uncompressed name =
     (if dns_name_length name > 255 then None else Some (serialize_qname_labels name))"

definition is_pointer :: "u8 \<Rightarrow> bool" where
  "is_pointer b \<longleftrightarrow> unat b \<ge> 192"

definition pointer_offset :: "u8 \<Rightarrow> u8 \<Rightarrow> nat" where
  "pointer_offset hi lo = (unat hi - 192) * 256 + unat lo"

fun suffix_at :: "nat \<Rightarrow> u8 list \<Rightarrow> u8 list option" where
  "suffix_at offset input =
     (if offset = 0 then Some input
      else case input of [] \<Rightarrow> None | _ # rest \<Rightarrow> suffix_at (offset - 1) rest)"

definition take_label :: "nat \<Rightarrow> u8 list \<Rightarrow> label \<times> u8 list" where
  "take_label len rest = (take len rest, drop len rest)"

fun parse_qname_bounded :: "nat \<Rightarrow> nat \<Rightarrow> u8 list \<Rightarrow> (qname \<times> u8 list) option" where
  "parse_qname_bounded fuel remaining input =
     (if fuel = 0 then None
      else case input of
        [] \<Rightarrow> None
      | b # rest \<Rightarrow>
          if b = 0 then (if remaining \<ge> 1 then Some ([], rest) else None)
          else if is_pointer b then None
          else
            let len = unat b in
            if len < 1 \<or> len > 63 then None
            else if length rest < len then None
            else if len + 1 \<ge> remaining then None
            else
              let (l, next_input) = take_label len rest in
              (case parse_qname_bounded (fuel - 1) (remaining - (len + 1)) next_input of
                 Some (labels, final_input) \<Rightarrow> Some (l # labels, final_input)
               | None \<Rightarrow> None))"

declare suffix_at.simps [simp del] parse_qname_bounded.simps [simp del]

definition parse_qname :: "nat \<Rightarrow> u8 list \<Rightarrow> (qname \<times> u8 list) option" where
  "parse_qname fuel input = parse_qname_bounded fuel 255 input"

section \<open>Positions of names in a message\<close>

definition wire_u16 :: "u8 \<Rightarrow> u8 \<Rightarrow> nat" where
  "wire_u16 hi lo = unat hi * 256 + unat lo"

fun scan_wire_name :: "nat \<Rightarrow> nat \<Rightarrow> u8 list \<Rightarrow> (nat list \<times> nat \<times> u8 list) option" where
  "scan_wire_name fuel pos input =
     (if fuel = 0 then None
      else case input of
        [] \<Rightarrow> None
      | b # rest \<Rightarrow>
          if b = 0 then Some ([pos], pos + 1, rest)
          else if is_pointer b then (case rest of _ # tail \<Rightarrow> Some ([pos], pos + 2, tail) | _ \<Rightarrow> None)
          else if unat b > 63 \<or> length rest < unat b then None
          else
            (case scan_wire_name (fuel - 1) (pos + 1 + unat b) (drop (unat b) rest) of
               Some (offsets, next, remaining) \<Rightarrow> Some (pos # offsets, next, remaining)
             | None \<Rightarrow> None))"

declare scan_wire_name.simps [simp del]

definition rdata_name_offsets :: "nat \<Rightarrow> nat \<Rightarrow> u8 list \<Rightarrow> nat list" where
  "rdata_name_offsets rtype pos payload =
     (let start = (if rtype = 15 then 2 else if rtype = 33 then 6 else 0) in
      if rtype = 2 \<or> rtype = 5 \<or> rtype = 12 \<or> rtype = 15 \<or> rtype = 33 \<or> rtype = 6 then
        (case suffix_at start payload of
           None \<Rightarrow> []
         | Some name_bytes \<Rightarrow>
             (case scan_wire_name 128 (pos + start) name_bytes of
                None \<Rightarrow> []
              | Some (first, next, rest) \<Rightarrow>
                  if rtype = 6 then
                    (case scan_wire_name 128 next rest of
                       Some (second, _, timers) \<Rightarrow> if length timers = 20 then first @ second else []
                     | None \<Rightarrow> [])
                  else if length rest = 0 then first else []))
      else [])"

fun scan_wire_records :: "nat \<Rightarrow> nat \<Rightarrow> u8 list \<Rightarrow> nat list option" where
  "scan_wire_records count pos input =
     (if count = 0 then (if length input = 0 then Some [] else None)
      else case scan_wire_name 128 pos input of
        None \<Rightarrow> None
      | Some (owner, header_pos, rest) \<Rightarrow>
          (case rest of
             th # tlo # _ # _ # _ # _ # _ # _ # lh # ll # body \<Rightarrow>
               let size_w = wire_u16 lh ll in
               if length body < size_w then None
               else
                 let payload = take size_w body; tail = drop size_w body; data_pos = header_pos + 10 in
                 (case scan_wire_records (count - 1) (data_pos + size_w) tail of
                    None \<Rightarrow> None
                  | Some later \<Rightarrow> Some (owner @ rdata_name_offsets (wire_u16 th tlo) data_pos payload @ later))
           | _ \<Rightarrow> None))"

fun scan_wire_questions :: "nat \<Rightarrow> nat \<Rightarrow> nat \<Rightarrow> u8 list \<Rightarrow> nat list option" where
  "scan_wire_questions count records pos input =
     (if count = 0 then scan_wire_records records pos input
      else case scan_wire_name 128 pos input of
        None \<Rightarrow> None
      | Some (offsets, next, rest) \<Rightarrow>
          (case rest of
             _ # _ # _ # _ # tail \<Rightarrow>
               (case scan_wire_questions (count - 1) records (next + 4) tail of
                  Some later \<Rightarrow> Some (offsets @ later)
                | None \<Rightarrow> None)
           | _ \<Rightarrow> None))"

declare scan_wire_records.simps [simp del] scan_wire_questions.simps [simp del]

definition message_name_offsets :: "u8 list \<Rightarrow> nat list" where
  "message_name_offsets original =
     (case original of
        _ # _ # _ # _ # qh # ql # ah # al # nh # nl # rh # rl # rest \<Rightarrow>
          (case scan_wire_questions (wire_u16 qh ql) (wire_u16 ah al + wire_u16 nh nl + wire_u16 rh rl) 12 rest of
             Some offsets \<Rightarrow> offsets
           | None \<Rightarrow> [])
      | _ \<Rightarrow> [])"

section \<open>Compressed names\<close>

definition valid_pointer_target :: "nat list \<Rightarrow> nat \<Rightarrow> nat \<Rightarrow> bool" where
  "valid_pointer_target known limit target \<longleftrightarrow> target \<ge> 12 \<and> target < limit \<and> List.member known target"

fun parse_qname_compressed_bounded ::
  "nat \<Rightarrow> nat \<Rightarrow> u8 list \<Rightarrow> nat list \<Rightarrow> nat \<Rightarrow> u8 list \<Rightarrow> (qname \<times> u8 list) option" where
  "parse_qname_compressed_bounded fuel remaining original known_offsets pointer_limit input =
     (if fuel = 0 then None
      else case input of
        [] \<Rightarrow> None
      | b # rest \<Rightarrow>
          if b = 0 then (if remaining \<ge> 1 then Some ([], rest) else None)
          else if is_pointer b then
            (case rest of
               lo # tail \<Rightarrow>
                 let offset = pointer_offset b lo in
                 if \<not> valid_pointer_target known_offsets pointer_limit offset then None
                 else
                   (case suffix_at offset original of
                      None \<Rightarrow> None
                    | Some target \<Rightarrow>
                        (case parse_qname_compressed_bounded (fuel - 1) remaining original known_offsets offset target of
                           Some (name, _) \<Rightarrow> if dns_name_length name \<le> remaining then Some (name, tail) else None
                         | None \<Rightarrow> None))
             | [] \<Rightarrow> None)
          else
            let len = unat b in
            if len < 1 \<or> len > 63 then None
            else if length rest < len then None
            else if len + 1 \<ge> remaining then None
            else
              let (l, next_input) = take_label len rest in
              (case parse_qname_compressed_bounded (fuel - 1) (remaining - (len + 1)) original known_offsets
                      pointer_limit next_input of
                 Some (labels, final_input) \<Rightarrow> Some (l # labels, final_input)
               | None \<Rightarrow> None))"

declare parse_qname_compressed_bounded.simps [simp del]

definition parse_qname_compressed :: "nat \<Rightarrow> u8 list \<Rightarrow> nat \<Rightarrow> u8 list \<Rightarrow> (qname \<times> u8 list) option" where
  "parse_qname_compressed fuel original pointer_limit input =
     parse_qname_compressed_bounded fuel 255 original (message_name_offsets original) pointer_limit input"

section \<open>The plain parser accepts exactly the serialized names\<close>

definition valid_name :: "qname \<Rightarrow> bool" where
  "valid_name name \<longleftrightarrow> list_all valid_label name"

lemma valid_name_simps [simp]:
  "valid_name []" "valid_name (l # name) \<longleftrightarrow> valid_label l \<and> valid_name name"
  by (simp_all add: valid_name_def)

lemma dns_name_length_pos: "1 \<le> dns_name_length name"
  by (cases name) simp_all

lemma length_serialize: "length (serialize_qname_labels name) = dns_name_length name"
  by (induction name) simp_all

lemma unat_of_nat_u8 [simp]: "n < 256 \<Longrightarrow> unat (of_nat n :: u8) = n"
  by (simp add: unat_of_nat take_bit_eq_mod)

text \<open>The length byte of a valid label is neither zero nor a pointer.\<close>

lemma label_byte:
  assumes "valid_label l"
  shows "unat (of_nat (length l) :: u8) = length l" and "of_nat (length l) \<noteq> (0 :: u8)" and "\<not> is_pointer (of_nat (length l))"
proof -
  show u: "unat (of_nat (length l) :: u8) = length l" using assms by (intro unat_of_nat_u8) (simp add: valid_label_def)
  have "unat (of_nat (length l) :: u8) \<noteq> unat (0 :: u8)" using assms u by (auto simp: valid_label_def)
  then show "of_nat (length l) \<noteq> (0 :: u8)" by metis
  show "\<not> is_pointer (of_nat (length l))" using assms u by (simp add: is_pointer_def valid_label_def)
qed

lemma parse_qname_bounded_sound:
  "parse_qname_bounded fuel remaining input = Some (name, rest) \<Longrightarrow>
     input = serialize_qname_labels name @ rest \<and> valid_name name \<and> dns_name_length name \<le> remaining"
proof (induction fuel remaining "input" arbitrary: name rest rule: parse_qname_bounded.induct)
  case (1 fuel remaining "input")
  note parsed = 1(2) [unfolded parse_qname_bounded.simps [of fuel]]
  then obtain b tail where inp: "input = b # tail" and fuel: "fuel \<noteq> 0" by (cases "input") (auto split: if_splits)
  show ?case
  proof (cases "b = 0")
    case True
    then show ?thesis using parsed inp fuel by (auto split: if_splits)
  next
    case False
    let ?n = "unat b"
    have side: "\<not> is_pointer b" "\<not> (?n < 1 \<or> ?n > 63)" "\<not> length tail < ?n" "\<not> ?n + 1 \<ge> remaining"
      using parsed inp fuel False by (auto simp: Let_def split: if_splits)
    obtain labels where rec: "parse_qname_bounded (fuel - 1) (remaining - (?n + 1)) (drop ?n tail) = Some (labels, rest)"
      and name: "name = take ?n tail # labels"
      using parsed inp fuel False side by (auto simp: Let_def take_label_def split: option.splits)
    have "drop ?n tail = serialize_qname_labels labels @ rest \<and> valid_name labels \<and>
        dns_name_length labels \<le> remaining - (?n + 1)"
      using 1(1) [OF fuel inp False side(1) refl side(2-4) _ refl rec] by (simp add: take_label_def)
    then show ?thesis
      using side append_take_drop_id [of ?n tail] by (auto simp: inp name valid_label_def)
  qed
qed

lemma parse_qname_bounded_complete:
  "valid_name name \<Longrightarrow> dns_name_length name \<le> remaining \<Longrightarrow> length name < fuel \<Longrightarrow>
     parse_qname_bounded fuel remaining (serialize_qname_labels name @ rest) = Some (name, rest)"
proof (induction name arbitrary: fuel remaining)
  case Nil
  then show ?case by (simp add: parse_qname_bounded.simps [of fuel])
next
  case (Cons l name)
  note b = label_byte [of l]
  have v: "valid_label l" using Cons.prems by simp
  have "parse_qname_bounded (fuel - 1) (remaining - (length l + 1)) (serialize_qname_labels name @ rest) = Some (name, rest)"
    using Cons.prems by (intro Cons.IH) simp_all
  moreover have "\<not> length l + 1 \<ge> remaining" using Cons.prems dns_name_length_pos [of name] by simp
  moreover have "1 \<le> length l" "length l \<le> 63" using v by (simp_all add: valid_label_def)
  ultimately show ?case
    using b [OF v] Cons.prems(3) by (auto simp: parse_qname_bounded.simps [of fuel] Let_def take_label_def)
qed

text \<open>A name of at most 255 bytes has at most 127 labels, so the fuel of 128 is enough.\<close>

lemma name_labels_bound: "valid_name name \<Longrightarrow> 2 * length name + 1 \<le> dns_name_length name"
  by (induction name) (auto simp: valid_label_def)

theorem parse_qname_iff:
  assumes "128 \<le> fuel"
  shows "parse_qname fuel input = Some (name, rest) \<longleftrightarrow>
    valid_name name \<and> dns_name_length name \<le> 255 \<and> input = serialize_qname_labels name @ rest"
proof
  assume "parse_qname fuel input = Some (name, rest)"
  then show "valid_name name \<and> dns_name_length name \<le> 255 \<and> input = serialize_qname_labels name @ rest"
    unfolding parse_qname_def using parse_qname_bounded_sound by blast
next
  assume r: "valid_name name \<and> dns_name_length name \<le> 255 \<and> input = serialize_qname_labels name @ rest"
  then have "length name < fuel" using name_labels_bound [of name] assms by simp
  with r show "parse_qname fuel input = Some (name, rest)"
    by (simp add: parse_qname_def parse_qname_bounded_complete)
qed

lemma parse_qname_consumes: "parse_qname fuel input = Some (name, rest) \<Longrightarrow> length rest < length input"
  using parse_qname_bounded_sound [of fuel 255 "input" name rest] dns_name_length_pos [of name]
  by (auto simp: parse_qname_def length_serialize)

lemma parse_serialized:
  assumes "valid_name name" and "serialize_qname_uncompressed name = Some bs"
  shows "parse_qname 128 (bs @ rest) = Some (name, rest)"
  using assms by (subst parse_qname_iff) (auto simp: serialize_qname_uncompressed_def split: if_splits)

section \<open>Compressed names have one reading, and the parser finds it\<close>

text \<open>A reading of a name: a zero byte, a label and a reading, or a pointer to a known earlier position
  and a reading there. Pointers of a reading go strictly backwards.\<close>

inductive name_at :: "u8 list \<Rightarrow> nat list \<Rightarrow> nat \<Rightarrow> u8 list \<Rightarrow> qname \<Rightarrow> u8 list \<Rightarrow> bool"
  for original :: "u8 list" and known :: "nat list" where
  name_end: "name_at original known limit (0 # rest) [] rest"
| name_label: "valid_label l \<Longrightarrow> name_at original known limit next name rest \<Longrightarrow>
    name_at original known limit (of_nat (length l) # l @ next) (l # name) rest"
| name_pointer: "is_pointer b \<Longrightarrow> valid_pointer_target known limit (pointer_offset b lo) \<Longrightarrow>
    pointer_offset b lo \<le> length original \<Longrightarrow>
    name_at original known (pointer_offset b lo) (drop (pointer_offset b lo) original) name rest' \<Longrightarrow>
    name_at original known limit (b # lo # rest) name rest"

lemma suffix_at_drop: "suffix_at offset input = (if offset \<le> length input then Some (drop offset input) else None)"
proof (induction offset "input" rule: suffix_at.induct)
  case (1 offset "input")
  then show ?case by (subst suffix_at.simps) (cases "input"; cases offset; simp)
qed

lemma pointer_not_zero: "is_pointer b \<Longrightarrow> b \<noteq> 0"
  by (auto simp: is_pointer_def)

lemma name_at_valid: "name_at original known limit input name rest \<Longrightarrow> valid_name name"
  by (induction rule: name_at.induct) simp_all

lemma compressed_sound:
  "parse_qname_compressed_bounded fuel remaining original known limit input = Some (name, rest) \<Longrightarrow>
     name_at original known limit input name rest \<and> dns_name_length name \<le> remaining"
proof (induction fuel remaining original known limit "input" arbitrary: name rest
    rule: parse_qname_compressed_bounded.induct)
  case (1 fuel remaining original known limit "input")
  note parsed = 1(3) [unfolded parse_qname_compressed_bounded.simps [of fuel]]
  then obtain b tail where inp: "input = b # tail" and fuel: "fuel \<noteq> 0" by (cases "input") (auto split: if_splits)
  consider "b = 0" | "b \<noteq> 0" "is_pointer b" | "b \<noteq> 0" "\<not> is_pointer b" by blast
  then show ?case
  proof cases
    case 1
    then show ?thesis using parsed inp fuel by (auto intro: name_end split: if_splits)
  next
    case 2
    then obtain lo tail' where t: "tail = lo # tail'" using parsed inp fuel by (cases tail) auto
    let ?off = "pointer_offset b lo"
    have ok: "\<not> \<not> valid_pointer_target known limit ?off"
      using parsed inp fuel 2 t by (auto simp: Let_def split: if_splits)
    obtain target where target: "suffix_at ?off original = Some target"
      using parsed inp fuel 2 t ok by (auto simp: Let_def split: option.splits)
    obtain rest' where rec: "parse_qname_compressed_bounded (fuel - 1) remaining original known ?off target = Some (name, rest')"
      and le: "dns_name_length name \<le> remaining" and rest: "rest = tail'"
      using parsed inp fuel 2 t ok target by (auto simp: Let_def split: option.splits if_splits)
    have "name_at original known ?off target name rest'"
      using "1.IH"(1) [OF fuel inp 2 t refl ok target rec] by blast
    with ok target le show ?thesis
      by (auto simp: inp t rest suffix_at_drop intro!: name_pointer [OF 2(2)] split: if_splits)
  next
    case 3
    let ?n = "unat b"
    have side: "\<not> (?n < 1 \<or> ?n > 63)" "\<not> length tail < ?n" "\<not> ?n + 1 \<ge> remaining"
      using parsed inp fuel 3 by (auto simp: Let_def split: if_splits)
    obtain labels where rec: "parse_qname_compressed_bounded (fuel - 1) (remaining - (?n + 1)) original known limit
        (drop ?n tail) = Some (labels, rest)" and name: "name = take ?n tail # labels"
      using parsed inp fuel 3 side by (auto simp: Let_def take_label_def split: option.splits)
    have IH: "name_at original known limit (drop ?n tail) labels rest \<and> dns_name_length labels \<le> remaining - (?n + 1)"
      using "1.IH"(2) [OF fuel inp 3 refl side _ refl rec] by (simp add: take_label_def)
    have "valid_label (take ?n tail)" "length (take ?n tail) = ?n" using side by (auto simp: valid_label_def)
    with IH name_label [of "take ?n tail" original known limit "drop ?n tail" labels rest] side
    show ?thesis by (auto simp: inp name)
  qed
qed

text \<open>Each pointer moves to an earlier known position, so the positions below the limit bound the jumps.\<close>

definition earlier :: "nat list \<Rightarrow> nat \<Rightarrow> nat set" where
  "earlier known limit = {k \<in> set known. 12 \<le> k \<and> k < limit}"

lemma earlier_decreases: "valid_pointer_target known limit k \<Longrightarrow> card (earlier known k) < card (earlier known limit)"
  by (rule psubset_card_mono) (auto simp: earlier_def valid_pointer_target_def)

lemma compressed_complete:
  "name_at original known limit input name rest \<Longrightarrow> dns_name_length name \<le> remaining \<Longrightarrow>
     length name + card (earlier known limit) < fuel \<Longrightarrow>
     parse_qname_compressed_bounded fuel remaining original known limit input = Some (name, rest)"
proof (induction arbitrary: remaining fuel rule: name_at.induct)
  case (name_end limit rest)
  then show ?case by (simp add: parse_qname_compressed_bounded.simps [of fuel])
next
  case (name_label l limit "next" name rest)
  note b = label_byte [OF name_label(1)]
  have "parse_qname_compressed_bounded (fuel - 1) (remaining - (length l + 1)) original known limit next = Some (name, rest)"
    using name_label.prems by (intro name_label.IH) simp_all
  moreover have "\<not> length l + 1 \<ge> remaining" using name_label.prems dns_name_length_pos [of name] by simp
  moreover have "1 \<le> length l" "length l \<le> 63" using name_label(1) by (simp_all add: valid_label_def)
  ultimately show ?case
    using b name_label.prems(2) by (auto simp: parse_qname_compressed_bounded.simps [of fuel] Let_def take_label_def)
next
  case (name_pointer b limit lo name rest' rest)
  have "parse_qname_compressed_bounded (fuel - 1) remaining original known (pointer_offset b lo)
      (drop (pointer_offset b lo) original) = Some (name, rest')"
    using name_pointer.prems earlier_decreases [OF name_pointer(2)] by (intro name_pointer.IH) simp_all
  then show ?case
    using name_pointer pointer_not_zero [OF name_pointer(1)]
    by (simp add: parse_qname_compressed_bounded.simps [of fuel] Let_def suffix_at_drop)
qed

text \<open>A name has at most one reading at a position.\<close>

lemma name_at_unique:
  assumes "name_at original known limit input name rest" and "name_at original known limit input name' rest'"
  shows "name' = name \<and> rest' = rest"
proof -
  let ?r = "max (dns_name_length name) (dns_name_length name')"
  let ?f = "Suc (max (length name) (length name') + card (earlier known limit))"
  have "parse_qname_compressed_bounded ?f ?r original known limit input = Some (name, rest)"
    by (rule compressed_complete [OF assms(1)]) simp_all
  moreover have "parse_qname_compressed_bounded ?f ?r original known limit input = Some (name', rest')"
    by (rule compressed_complete [OF assms(2)]) simp_all
  ultimately show ?thesis by simp
qed

text \<open>A name without pointers reads the same in both parsers.\<close>

lemma serialized_name_at: "valid_name name \<Longrightarrow> name_at original known limit (serialize_qname_labels name @ rest) name rest"
  by (induction name) (auto intro: name_at.intros)

lemma compressed_extends_bounded:
  "parse_qname_bounded fuel remaining input = Some r \<Longrightarrow>
     parse_qname_compressed_bounded fuel remaining original known limit input = Some r"
proof (induction fuel remaining "input" arbitrary: r rule: parse_qname_bounded.induct)
  case (1 fuel remaining "input")
  note parsed = 1(2) [unfolded parse_qname_bounded.simps [of fuel]]
  then obtain b tail where inp: "input = b # tail" and fuel: "fuel \<noteq> 0" by (cases "input") (auto split: if_splits)
  show ?case
  proof (cases "b = 0")
    case True
    then show ?thesis using parsed inp fuel by (simp add: parse_qname_compressed_bounded.simps [of fuel])
  next
    case False
    let ?n = "unat b"
    have side: "\<not> is_pointer b" "\<not> (?n < 1 \<or> ?n > 63)" "\<not> length tail < ?n" "\<not> ?n + 1 \<ge> remaining"
      using parsed inp fuel False by (auto simp: Let_def split: if_splits)
    obtain labels rest where rec: "parse_qname_bounded (fuel - 1) (remaining - (?n + 1)) (drop ?n tail) = Some (labels, rest)"
      and r: "r = (take ?n tail # labels, rest)"
      using parsed inp fuel False side by (auto simp: Let_def take_label_def split: option.splits)
    have "parse_qname_compressed_bounded (fuel - 1) (remaining - (?n + 1)) original known limit (drop ?n tail) = Some (labels, rest)"
      using 1(1) [OF fuel inp False side(1) refl side(2-4) _ refl rec] by (simp add: take_label_def)
    then show ?thesis
      using inp fuel False side r by (simp add: parse_qname_compressed_bounded.simps [of fuel] Let_def take_label_def)
  qed
qed

lemma compressed_extends: "parse_qname fuel input = Some r \<Longrightarrow> parse_qname_compressed fuel original limit input = Some r"
  unfolding parse_qname_def parse_qname_compressed_def by (rule compressed_extends_bounded)

end
