(* ===== verification/Dns_Packet.thy ===== *)
theory Dns_Packet
  imports Dns_Name
begin

text \<open>
  DNS messages: the types of \<^verbatim>\<open>src/src/protocol/DNS.Protocol.fst\<close>, \<^verbatim>\<open>DNS.RCode.fst\<close> and
  \<^verbatim>\<open>DNS.Constants.fst\<close>, and the EDNS options and padding of \<^verbatim>\<open>DNS.Protocol.OPT.fst\<close>, with the big-endian fields and the flag word
  that the parser and the serializer share. \<open>FStar.Bytes\<close> values are lists of bytes.
\<close>

type_synonym u16 = "16 word"

section \<open>Messages\<close>

record dns_flags =
  fl_qr :: bool
  fl_opcode :: u16
  fl_aa :: bool
  fl_tc :: bool
  fl_rd :: bool
  fl_ra :: bool
  fl_z :: bool
  fl_ad :: bool
  fl_cd :: bool
  fl_rcode :: u16

record header =
  h_id :: u16
  h_flags :: dns_flags
  h_qdcount :: u16
  h_ancount :: u16
  h_nscount :: u16
  h_arcount :: u16

datatype qtype =
    A | AAAA | APL | CAA | CDNSKEY | CDS | CERT | CNAME | CSYNC | DHCID | DLV | DNAME | DNSKEY | DS
  | EUI48 | EUI64 | HINFO | HIP | HTTPS | IPSECKEY | KX | LOC | MX | NAPTR | NS | NSEC3 | NSEC3PARAM | OPT
  | PTR | RP | RRSIG | SMIMEA | SOA | SSHFP | SVCB | SRV | TA | TKEY | TLSA | TSIG | TXT | URI | ZONEMD
  | UNKNOWN u16

record question =
  q_qname :: qname
  q_qtype :: qtype
  q_qclass :: u16

record resource_record =
  rr_name :: qname
  rr_rtype :: qtype
  rr_rclass :: u16
  rr_ttl :: u32
  rr_rdlen :: u16
  rr_rdata :: "u8 list"

record dns_packet =
  p_header :: header
  p_questions :: "question list"
  p_answers :: "resource_record list"
  p_authorities :: "resource_record list"
  p_additionals :: "resource_record list"

fun qtype_to_u16 :: "qtype \<Rightarrow> u16" where
  "qtype_to_u16 A = 1"
| "qtype_to_u16 NS = 2"
| "qtype_to_u16 CNAME = 5"
| "qtype_to_u16 SOA = 6"
| "qtype_to_u16 PTR = 12"
| "qtype_to_u16 HINFO = 13"
| "qtype_to_u16 MX = 15"
| "qtype_to_u16 TXT = 16"
| "qtype_to_u16 RP = 17"
| "qtype_to_u16 AAAA = 28"
| "qtype_to_u16 LOC = 29"
| "qtype_to_u16 SRV = 33"
| "qtype_to_u16 NAPTR = 35"
| "qtype_to_u16 KX = 36"
| "qtype_to_u16 CERT = 37"
| "qtype_to_u16 DNAME = 39"
| "qtype_to_u16 OPT = 41"
| "qtype_to_u16 APL = 42"
| "qtype_to_u16 DS = 43"
| "qtype_to_u16 SSHFP = 44"
| "qtype_to_u16 IPSECKEY = 45"
| "qtype_to_u16 RRSIG = 46"
| "qtype_to_u16 DNSKEY = 48"
| "qtype_to_u16 DHCID = 49"
| "qtype_to_u16 NSEC3 = 50"
| "qtype_to_u16 NSEC3PARAM = 51"
| "qtype_to_u16 TLSA = 52"
| "qtype_to_u16 SMIMEA = 53"
| "qtype_to_u16 HIP = 55"
| "qtype_to_u16 CDS = 59"
| "qtype_to_u16 CDNSKEY = 60"
| "qtype_to_u16 CSYNC = 62"
| "qtype_to_u16 ZONEMD = 63"
| "qtype_to_u16 SVCB = 64"
| "qtype_to_u16 HTTPS = 65"
| "qtype_to_u16 EUI48 = 108"
| "qtype_to_u16 EUI64 = 109"
| "qtype_to_u16 TKEY = 249"
| "qtype_to_u16 TSIG = 250"
| "qtype_to_u16 URI = 256"
| "qtype_to_u16 CAA = 257"
| "qtype_to_u16 TA = 32768"
| "qtype_to_u16 DLV = 32769"
| "qtype_to_u16 (UNKNOWN n) = n"

definition u16_to_qtype :: "u16 \<Rightarrow> qtype" where
  "u16_to_qtype n =
     (if n = 1 then A else if n = 2 then NS else if n = 5 then CNAME else if n = 6 then SOA else
      if n = 12 then PTR else if n = 13 then HINFO else if n = 15 then MX else if n = 16 then TXT else
      if n = 17 then RP else if n = 28 then AAAA else if n = 29 then LOC else if n = 33 then SRV else
      if n = 35 then NAPTR else if n = 36 then KX else if n = 37 then CERT else if n = 39 then DNAME else
      if n = 41 then OPT else if n = 42 then APL else if n = 43 then DS else if n = 44 then SSHFP else
      if n = 45 then IPSECKEY else if n = 46 then RRSIG else if n = 48 then DNSKEY else if n = 49 then DHCID else
      if n = 50 then NSEC3 else if n = 51 then NSEC3PARAM else if n = 52 then TLSA else if n = 53 then SMIMEA else
      if n = 55 then HIP else if n = 59 then CDS else if n = 60 then CDNSKEY else if n = 62 then CSYNC else
      if n = 63 then ZONEMD else if n = 64 then SVCB else if n = 65 then HTTPS else if n = 108 then EUI48 else
      if n = 109 then EUI64 else if n = 249 then TKEY else if n = 250 then TSIG else if n = 256 then URI else
      if n = 257 then CAA else if n = 32768 then TA else if n = 32769 then DLV else
      UNKNOWN n)"


datatype rcode =
    NoError | FormErr | ServFail | NXDomain | NotImp | Refused | YXDomain | YXRRSet | NXRRSet
  | NotAuth | NotZone | DSOTYPENI | BadVers | UnknownR u16

fun rcode_to_u4 :: "rcode \<Rightarrow> u16" where
  "rcode_to_u4 NoError = 0"
| "rcode_to_u4 FormErr = 1"
| "rcode_to_u4 ServFail = 2"
| "rcode_to_u4 NXDomain = 3"
| "rcode_to_u4 NotImp = 4"
| "rcode_to_u4 Refused = 5"
| "rcode_to_u4 YXDomain = 6"
| "rcode_to_u4 YXRRSet = 7"
| "rcode_to_u4 NXRRSet = 8"
| "rcode_to_u4 NotAuth = 9"
| "rcode_to_u4 NotZone = 10"
| "rcode_to_u4 DSOTYPENI = 11"
| "rcode_to_u4 BadVers = 0"
| "rcode_to_u4 (UnknownR n) = n"

datatype dns_result = Success "resource_record list" | Error rcode

section \<open>Big-endian fields\<close>

definition u16_from_be :: "u8 \<Rightarrow> u8 \<Rightarrow> u16" where
  "u16_from_be hi lo = of_nat (unat hi * 256 + unat lo)"

definition u32_from_be :: "u8 \<Rightarrow> u8 \<Rightarrow> u8 \<Rightarrow> u8 \<Rightarrow> u32" where
  "u32_from_be b0 b1 b2 b3 = of_nat (unat b0 * 16777216 + (unat b1 * 65536 + (unat b2 * 256 + unat b3)))"

definition u16_hi :: "u16 \<Rightarrow> u8" where "u16_hi n = of_nat (unat n div 256)"
definition u16_lo :: "u16 \<Rightarrow> u8" where "u16_lo n = of_nat (unat n mod 256)"

definition u32_b0 :: "u32 \<Rightarrow> u8" where "u32_b0 n = of_nat (unat n div 16777216 mod 256)"
definition u32_b1 :: "u32 \<Rightarrow> u8" where "u32_b1 n = of_nat (unat n div 65536 mod 256)"
definition u32_b2 :: "u32 \<Rightarrow> u8" where "u32_b2 n = of_nat (unat n div 256 mod 256)"
definition u32_b3 :: "u32 \<Rightarrow> u8" where "u32_b3 n = of_nat (unat n mod 256)"

definition uint16_to_flags :: "u16 \<Rightarrow> dns_flags" where
  "uint16_to_flags raw_flags =
     (let raw = unat raw_flags in
      \<lparr>fl_qr = (raw div 32768 = 1), fl_opcode = of_nat (raw div 2048 mod 16), fl_aa = (raw div 1024 mod 2 = 1),
       fl_tc = (raw div 512 mod 2 = 1), fl_rd = (raw div 256 mod 2 = 1), fl_ra = (raw div 128 mod 2 = 1),
       fl_z = (raw div 64 mod 2 = 1), fl_ad = (raw div 32 mod 2 = 1), fl_cd = (raw div 16 mod 2 = 1),
       fl_rcode = of_nat (raw mod 16)\<rparr>)"

definition flags_to_u16 :: "dns_flags \<Rightarrow> u16" where
  "flags_to_u16 flags = of_nat
     ((if fl_qr flags then 32768 else 0) + unat (fl_opcode flags) * 2048 + (if fl_aa flags then 1024 else 0) +
      (if fl_tc flags then 512 else 0) + (if fl_rd flags then 256 else 0) + (if fl_ra flags then 128 else 0) +
      (if fl_z flags then 64 else 0) + (if fl_ad flags then 32 else 0) + (if fl_cd flags then 16 else 0) +
      unat (fl_rcode flags))"

section \<open>EDNS options\<close>

record opt_flags =
  of_do_bit :: bool
  of_z :: u16

record edns_option =
  eo_code :: u16
  eo_len :: u16
  eo_data :: "u8 list"

record opt_record =
  or_udp_payload_size :: u16
  or_ext_rcode :: u8
  or_version :: u8
  or_flags :: opt_flags
  or_options :: "edns_option list"

definition padding_option_code :: u16 where "padding_option_code = 12"

primrec bytes_to_list_from :: "nat \<Rightarrow> nat \<Rightarrow> u8 list \<Rightarrow> u8 list" where
  "bytes_to_list_from 0 offset b = []"
| "bytes_to_list_from (Suc fuel) offset b = b ! offset # bytes_to_list_from fuel (offset + 1) b"

definition bytes_to_list :: "u8 list \<Rightarrow> u8 list" where
  "bytes_to_list b = bytes_to_list_from (length b) 0 b"

primrec repeat_byte :: "nat \<Rightarrow> u8 \<Rightarrow> u8 list" where
  "repeat_byte 0 b = []"
| "repeat_byte (Suc n) b = b # repeat_byte n b"

definition serialize_edns_option_bytes :: "edns_option \<Rightarrow> u8 list" where
  "serialize_edns_option_bytes opt =
     [u16_hi (eo_code opt), u16_lo (eo_code opt), u16_hi (eo_len opt), u16_lo (eo_len opt)] @ bytes_to_list (eo_data opt)"

primrec serialize_edns_options_bytes :: "edns_option list \<Rightarrow> u8 list" where
  "serialize_edns_options_bytes [] = []"
| "serialize_edns_options_bytes (opt # rest) = serialize_edns_option_bytes opt @ serialize_edns_options_bytes rest"

definition serialize_padding_option_bytes :: "u16 \<Rightarrow> u8 list" where
  "serialize_padding_option_bytes padding_len =
     [u16_hi padding_option_code, u16_lo padding_option_code, u16_hi padding_len, u16_lo padding_len] @
     repeat_byte (unat padding_len) 0"

definition opt_flags_to_u16 :: "opt_flags \<Rightarrow> u16" where
  "opt_flags_to_u16 flags = (if of_do_bit flags then of_nat (32768 + unat (of_z flags)) else of_z flags)"

definition serialize_opt_rr_bytes_with_payload :: "u16 \<Rightarrow> u8 \<Rightarrow> u8 \<Rightarrow> opt_flags \<Rightarrow> u8 list \<Rightarrow> u8 list option" where
  "serialize_opt_rr_bytes_with_payload udp_payload_size ext_rcode version flags option_payload =
     (let rdlen = length option_payload in
      if rdlen > 65535 then None
      else
        let rdlen_u16 = of_nat rdlen; flag_bits = opt_flags_to_u16 flags in
        Some ([0, 0, 0x29, u16_hi udp_payload_size, u16_lo udp_payload_size, ext_rcode, version,
               u16_hi flag_bits, u16_lo flag_bits, u16_hi rdlen_u16, u16_lo rdlen_u16] @ option_payload))"

definition serialize_opt_rr_bytes :: "opt_record \<Rightarrow> u8 list option" where
  "serialize_opt_rr_bytes opt =
     serialize_opt_rr_bytes_with_payload (or_udp_payload_size opt) (or_ext_rcode opt) (or_version opt) (or_flags opt)
       (serialize_edns_options_bytes (or_options opt))"

definition parse_option_data_bytes :: "u16 \<Rightarrow> u8 list \<Rightarrow> (u8 list \<times> u8 list) option" where
  "parse_option_data_bytes len input =
     (let n = unat len in if length input < n then None else Some (take n input, drop n input))"

definition parse_edns_option_bytes :: "u8 list \<Rightarrow> (edns_option \<times> u8 list) option" where
  "parse_edns_option_bytes input =
     (if length input < 4 then None
      else case input of
        code_hi # code_lo # len_hi # len_lo # option_data \<Rightarrow>
          (let code = u16_from_be code_hi code_lo; len = u16_from_be len_hi len_lo in
           case parse_option_data_bytes len option_data of
             None \<Rightarrow> None
           | Some (data, tail) \<Rightarrow> Some (\<lparr>eo_code = code, eo_len = len, eo_data = data\<rparr>, tail))
      | _ \<Rightarrow> None)"

fun parse_edns_options_bytes :: "nat \<Rightarrow> u8 list \<Rightarrow> edns_option list option" where
  "parse_edns_options_bytes fuel input =
     (case input of
        [] \<Rightarrow> Some []
      | _ \<Rightarrow>
          if fuel = 0 then None
          else case parse_edns_option_bytes input of
            None \<Rightarrow> None
          | Some (opt, rest) \<Rightarrow>
              (case parse_edns_options_bytes (fuel - 1) rest of None \<Rightarrow> None | Some opts \<Rightarrow> Some (opt # opts)))"

declare parse_edns_options_bytes.simps [simp del]

definition safe_payload_size :: "u16 \<Rightarrow> u16" where
  "safe_payload_size requested = (if unat requested > 4096 then 4096 else requested)"

definition calculate_padding_len :: "u32 \<Rightarrow> u32 \<Rightarrow> u32" where
  "calculate_padding_len current_len block_size =
     (if unat block_size = 0 then 0
      else
        let remainder = unat current_len mod unat block_size in
        if remainder = 0 then 0 else of_nat (unat block_size - remainder))"

definition serialize_padding_option_for_block :: "u32 \<Rightarrow> u32 \<Rightarrow> u8 list option" where
  "serialize_padding_option_for_block current_len block_size =
     (if unat block_size = 0 then Some []
      else if unat current_len > 4294967291 then None
      else
        let padded_base = of_nat (unat current_len + 4); padding_len = calculate_padding_len padded_base block_size in
        if unat padding_len > 65535 then None
        else Some (serialize_padding_option_bytes (of_nat (unat padding_len))))"

end
