(* ===== verification/Link_Smoke.thy ===== *)
theory Link_Smoke
  imports Smoke_Audit Dns_Packet
begin

text \<open>
  The linked test program \<^verbatim>\<open>src/shell/link_smoke.c\<close>, which runs the tests in order and reports the first that
  fails, and the tests of the generated code it links: \<^verbatim>\<open>link_everparse_smoke.c\<close>, \<^verbatim>\<open>link_protocol_smoke.c\<close>,
  \<^verbatim>\<open>link_shell_boundary_smoke.c\<close> and the last two calls of \<^verbatim>\<open>link_proof_audit_smoke.c\<close>. The validators that EverParse
  generates are parameters; the locale states the grammars of \<^verbatim>\<open>src/everparse/DNSProtocol.3d\<close> that they decide.
\<close>

section \<open>Grammars\<close>

definition be16 :: "u8 list \<Rightarrow> nat \<Rightarrow> nat" where
  "be16 bs i = unat (bs ! i) * 256 + unat (bs ! (i + 1))"

definition dns_header :: "u8 list \<Rightarrow> bool" where
  "dns_header bs \<longleftrightarrow> 12 \<le> length bs"

text \<open>One question and one answer: the counts of the header, and the question.\<close>

definition question_and_answer :: "nat \<Rightarrow> u8 list \<Rightarrow> bool" where
  "question_and_answer qname_length bs \<longleftrightarrow>
     dns_header bs \<and> be16 bs 4 = 1 \<and> be16 bs 6 = 1 \<and> be16 bs 8 = 0 \<and> be16 bs 10 = 0 \<and>
     dns_uncompressed_question qname_length (drop 12 bs)"

definition dns_uncompressed_question_a_answer_packet :: "nat \<Rightarrow> nat \<Rightarrow> u8 list \<Rightarrow> bool" where
  "dns_uncompressed_question_a_answer_packet qname_length rr_name_length bs \<longleftrightarrow>
     question_and_answer qname_length bs \<and> 1 \<le> rr_name_length \<and> rr_name_length \<le> 255 \<and>
     (let rr = drop (16 + qname_length) bs in
      rr_name_length + 14 \<le> length rr \<and> dns_labels (take (rr_name_length - 1) rr) \<and> rr ! (rr_name_length - 1) = 0 \<and>
      be16 rr rr_name_length = 1 \<and> be16 rr (rr_name_length + 8) = 4)"

definition dns_uncompressed_question_compressed_answer_name_packet :: "nat \<Rightarrow> nat \<Rightarrow> nat \<Rightarrow> nat \<Rightarrow> u8 list \<Rightarrow> bool" where
  "dns_uncompressed_question_compressed_answer_name_packet qname_length rdata_length hi lo bs \<longleftrightarrow>
     question_and_answer qname_length bs \<and> rdata_length \<le> 65535 \<and> 192 \<le> hi \<and> hi \<le> 255 \<and> lo \<le> 255 \<and>
     (let rr = drop (16 + qname_length) bs in
      rdata_length + 12 \<le> length rr \<and> unat (rr ! 0) = hi \<and> unat (rr ! 1) = lo \<and> (hi > 192 \<or> lo \<ge> 12) \<and>
      be16 rr 10 = rdata_length)"

section \<open>The tests of generated code\<close>

definition valid_single_answer :: "u8 list" where
  "valid_single_answer =
     [0x12, 0x34, 0x81, 0x80, 0x00, 0x01, 0x00, 0x01, 0x00, 0x00, 0x00, 0x00,
      0x00, 0x00, 0x01, 0x00, 0x01,
      0x00, 0x00, 0x01, 0x00, 0x01, 0x00, 0x00, 0x00, 0x3c, 0x00, 0x04, 0x01, 0x02, 0x03, 0x04]"

definition answer_without_question :: "u8 list" where
  "answer_without_question =
     [0x12, 0x34, 0x81, 0x80, 0x00, 0x00, 0x00, 0x01, 0x00, 0x00, 0x00, 0x00,
      0x00, 0x00, 0x01, 0x00, 0x01, 0x00, 0x00, 0x00, 0x3c, 0x00, 0x04, 0x01, 0x02, 0x03, 0x04]"

definition two_questions :: "u8 list" where
  "two_questions =
     [0x12, 0x38, 0x01, 0x00, 0x00, 0x02, 0x00, 0x00, 0x00, 0x00, 0x00, 0x00,
      0x00, 0x00, 0x01, 0x00, 0x01,
      0x00, 0x00, 0x1c, 0x00, 0x01]"

definition ism_smoke_everparse_header ::
  "(u8 list \<Rightarrow> bool) \<Rightarrow> (u32 \<Rightarrow> u32 \<Rightarrow> u8 list \<Rightarrow> bool) \<Rightarrow> bool" where
  "ism_smoke_everparse_header check_header check_a \<longleftrightarrow>
     check_header (replicate 12 0) \<and> check_a 1 1 valid_single_answer \<and>
     \<not> check_a 1 1 answer_without_question \<and> \<not> check_a 1 1 two_questions"

definition is_A :: "qtype \<Rightarrow> bool" where
  "is_A q \<longleftrightarrow> (case q of A \<Rightarrow> True | _ \<Rightarrow> False)"

definition ism_smoke_protocol_qtype :: bool where
  "ism_smoke_protocol_qtype \<longleftrightarrow> is_A A"

definition ism_smoke_shell_boundary :: bool where
  "ism_smoke_shell_boundary \<longleftrightarrow> shell_phase_code S_Done = 3"

text \<open>The program: it stops at the first test that fails, names it, and returns 1; otherwise it returns 0.\<close>

fun link_smoke_main :: "(string \<times> bool) list \<Rightarrow> int \<times> string option" where
  "link_smoke_main [] = (0, None)"
| "link_smoke_main ((name, ok) # checks) = (if ok then link_smoke_main checks else (1, Some name))"

lemma link_smoke_main_iff: "fst (link_smoke_main checks) = 0 \<longleftrightarrow> list_all snd checks"
  by (induction checks rule: link_smoke_main.induct) simp_all

lemma generated_tests: ism_smoke_protocol_qtype ism_smoke_shell_boundary
  by (simp_all add: ism_smoke_protocol_qtype_def is_A_def ism_smoke_shell_boundary_def)

section \<open>The validators' contract\<close>

locale packet_validators =
  fixes check_header :: "u8 list \<Rightarrow> bool"
    and check_a :: "u32 \<Rightarrow> u32 \<Rightarrow> u8 list \<Rightarrow> bool"
    and check_compressed :: "u32 \<Rightarrow> u32 \<Rightarrow> u32 \<Rightarrow> u32 \<Rightarrow> u8 list \<Rightarrow> bool"
  assumes check_header_iff: "check_header bs \<longleftrightarrow> dns_header bs"
    and check_a_iff: "check_a q r bs \<longleftrightarrow> dns_uncompressed_question_a_answer_packet (unat q) (unat r) bs"
    and check_compressed_iff: "check_compressed q d hi lo bs \<longleftrightarrow>
      dns_uncompressed_question_compressed_answer_name_packet (unat q) (unat d) (unat hi) (unat lo) bs"
begin

lemma everparse_passes: "ism_smoke_everparse_header check_header check_a"
  by (simp add: ism_smoke_everparse_header_def check_header_iff check_a_iff dns_header_def be16_def question_and_answer_def
      dns_uncompressed_question_a_answer_packet_def dns_uncompressed_question_def valid_single_answer_def
      answer_without_question_def two_questions_def)

text \<open>A compression pointer into the header is refused, one to the question is accepted.\<close>

lemma pointer_packets: "\<not> check_compressed 1 4 192 0 (pointer_packet 0)" "check_compressed 1 4 192 12 (pointer_packet 12)"
  by (simp_all add: check_compressed_iff dns_uncompressed_question_compressed_answer_name_packet_def question_and_answer_def
      dns_header_def be16_def dns_uncompressed_question_def pointer_packet_def)

end

text \<open>The grammars as functions: an instance of the contract.\<close>

definition grammar_check_a :: "u32 \<Rightarrow> u32 \<Rightarrow> u8 list \<Rightarrow> bool" where
  "grammar_check_a q r = dns_uncompressed_question_a_answer_packet (unat q) (unat r)"

definition grammar_check_compressed :: "u32 \<Rightarrow> u32 \<Rightarrow> u32 \<Rightarrow> u32 \<Rightarrow> u8 list \<Rightarrow> bool" where
  "grammar_check_compressed q d hi lo =
     dns_uncompressed_question_compressed_answer_name_packet (unat q) (unat d) (unat hi) (unat lo)"

interpretation grammar_packets: packet_validators dns_header grammar_check_a grammar_check_compressed
  by unfold_locales (simp_all add: grammar_check_a_def grammar_check_compressed_def)

section \<open>The regression test returns true\<close>

definition audit_placed :: "build \<Rightarrow> addr \<Rightarrow> addr \<Rightarrow> addr \<Rightarrow> addr \<Rightarrow> scaffold_vars \<Rightarrow> bool" where
  "audit_placed bld query response excess pre v \<longleftrightarrow>
     arrays_at bld response [(query, mem_bytes (snd v) query 19), (excess, mem_bytes (snd v) excess 20),
       (pre, mem_bytes (snd v) pre 2)] v \<and>
     ranges_disjoint query 19 excess 20 \<and> ranges_disjoint query 19 pre 2 \<and> ranges_disjoint excess 20 pre 2"

text \<open>The copy of the query, with a byte more.\<close>

lemma store_excess:
  fixes z :: "u8 list"
  assumes "length y = 20" and "length z = 2" and "ranges_disjoint query 19 excess 20" and "ranges_disjoint excess 20 pre 2"
  shows "passes (arrays_at bld response [(query, audit_query), (excess, y), (pre, z)])
    [runs (\<lambda>v. (fst v, mem_write (snd v) excess (mem_bytes (snd v) query 19 @ [0xff])))]
    (arrays_at bld response [(pre, z), (query, audit_query), (excess, audit_query @ [0xff])])"
  unfolding passes_def
proof (intro allI impI)
  let ?e = "audit_query @ [0xff]" and ?step = "runs (\<lambda>v. (fst v, mem_write (snd v) excess (mem_bytes (snd v) query 19 @ [0xff])))"
  fix w assume w: "arrays_at bld response [(query, audit_query), (excess, y), (pre, z)] w"
  then have q: "mem_bytes (snd w) query 19 = audit_query" by (simp add: arrays_at_def audit_query_facts)
  have "arrays_at bld response [(excess, y), (pre, z), (query, audit_query)] w"
    using w by (rule arrays_at_less) auto
  then have "arrays_at bld response [(excess, ?e), (pre, z), (query, audit_query)] (fst w, mem_write (snd w) excess ?e)"
    by (rule arrays_at_store) (use assms in \<open>simp_all add: audit_query_facts ranges_disjoint_sym\<close>)
  then have "arrays_at bld response [(pre, z), (query, audit_query), (excess, ?e)] (fst w, mem_write (snd w) excess ?e)"
    by (rule arrays_at_less) auto
  then show "run_checks [?step] w \<and> arrays_at bld response [(pre, z), (query, audit_query), (excess, ?e)] (leaves [?step] w)"
    by (simp add: runs_def q)
qed

lemma smoke_audit:
  assumes pl: "audit_placed bld query response excess pre v" and val: "packet_validators check_header check_a check"
  shows "ism_smoke_proof_audit bld check query response excess pre v"
proof -
  let ?e = "audit_query @ [0xff]"
  define v1 where "v1 = (fst v, mem_write (snd v) query audit_query)"
  obtain x y where pl0: "arrays_at bld response [(query, x), (excess, y), (pre, mem_bytes (snd v) pre 2)] v"
      and xy: "length x = 19" "length y = 20"
    using pl by (simp add: audit_placed_def) (metis length_mem_bytes)
  have sep: "ranges_disjoint query 19 excess 20" "ranges_disjoint query 19 pre 2" "ranges_disjoint excess 20 pre 2"
    using pl by (simp_all add: audit_placed_def)
  have one: "arrays_at bld response [(query, audit_query), (excess, y), (pre, mem_bytes (snd v) pre 2)] v1"
    unfolding v1_def by (rule arrays_at_store [OF pl0]) (use xy sep in \<open>simp_all add: audit_query_facts\<close>)
  let ?P = "arrays_at bld response [(query, audit_query), (excess, y), (pre, mem_bytes (snd v) pre 2)]"
  let ?Q = "arrays_at bld response [(pre, mem_bytes (snd v) pre 2), (query, audit_query), (excess, ?e)]"
  let ?R = "\<lambda>w. \<exists>bs. length bs = 2 \<and> arrays_at bld response [(pre, bs), (query, audit_query), (excess, ?e)] w"
  have splits: "passes ?P (concat (map (audit_split bld query response) [0..<20])) ?P"
    by (rule passes_loop) (rule split_passes, simp_all)
  have store: "passes ?P [runs (\<lambda>v. (fst v, mem_write (snd v) excess (mem_bytes (snd v) query 19 @ [0xff])))] ?Q"
    by (rule store_excess [OF xy(2)]) (use sep in simp_all)
  have excesses: "passes ?Q (concat (map (audit_excess bld excess) [0..<21])) ?Q"
    by (rule passes_loop) (rule excess_passes, simp_all)
  have cuts: "passes ?Q (concat (map (audit_cut bld query) [0..<19])) ?R"
    by (rule passes_weaken [of ?Q _ ?Q], rule passes_loop, rule cut_passes) (auto intro!: exI [of _ "mem_bytes (snd v) pre 2"])
  have shorts: "passes ?R (concat (map (audit_short bld pre) [0..<12])) (arrays_at bld response [(query, audit_query)])"
    by (rule passes_weaken [of ?R _ ?R], rule passes_loop, rule short_passes)
      (use sep in \<open>auto simp: audit_query_facts ranges_disjoint_sym elim: arrays_at_less\<close>)
  note all = passes_append [OF splits passes_append [OF store passes_append [OF excesses passes_append [OF cuts
      passes_append [OF shorts passes_append [OF id_passes streams_passes]]]]]]
  have "run_checks (concat (map (audit_split bld query response) [0..<20]) @
      [runs (\<lambda>v. (fst v, mem_write (snd v) excess (mem_bytes (snd v) query 19 @ [0xff])))] @
      concat (map (audit_excess bld excess) [0..<21]) @ concat (map (audit_cut bld query) [0..<19]) @
      concat (map (audit_short bld pre) [0..<12]) @ audit_id bld query response @ audit_streams bld) v1"
    using all one unfolding passes_def by blast
  then show ?thesis
    using packet_validators.pointer_packets [OF val]
    by (simp add: ism_smoke_proof_audit_def runs_def v1_def)
qed

end
