(* ===== verification/Smoke_Runtime.thy ===== *)
theory Smoke_Runtime
  imports Smoke_Base
begin

text \<open>
  The runtime test \<^verbatim>\<open>src/shell/link_msquic_runtime_smoke.c\<close> as a program over the model: a query
  received, answered and completed through a runtime stream with a recording send function, a
  partial query and its reset, and a fragment that exceeds the ingress buffer. The first
  section has what the tests of both runtimes share.
\<close>

section \<open>A runtime stream on an adapter without streams\<close>

text \<open>One buffer: the stream has received its bytes through the ingress buffer.\<close>

lemma receive_one:
  assumes rr: "runtime_ready bld st i" and fin: "\<not> rt_received_fin (rt_of st i)"
    and tab: "abs_table (conn_of st) = Map.empty"
    and data: "data \<noteq> NULL" "mem_bytes (sh_mem st) data (length bytes) = bytes"
    and n: "len = of_nat (length bytes)" "length bytes < 4294967296" "bytes \<noteq> []" "len \<le> rt_ingress_capacity (rt_of st i)"
    and fits: "doq_phase bytes \<noteq> Done"
  obtains q st1 where "queue_inv q" "queue_items q = []"
    "receive_buffers bld (Some i) [(data, len)] st = (True, st1)"
    "received bld (rt_stream_id (rt_of st i)) bytes
      (st\<lparr>sh_mem := mem_copy (sh_mem st) (rt_ingress_buffer (rt_of st i)) data (unat len), sh_queue := q\<rparr>) st1"
proof -
  let ?r = "rt_of st i"
  let ?st = "st\<lparr>sh_mem := mem_copy (sh_mem st) (rt_ingress_buffer ?r) data (unat len)\<rparr>"
  note D = runtime_readyD [OF rr]
  have l: "unat len = length bytes" using n(1,2) by (simp add: unat_of_nat)
  have len: "ism_shell_event_queue_len (queue_at Obj st) = 0" using D(2,3) by (intro idle_len) (simp add: idle_queue_def)
  have ingress: "rt_ingress_buffer ?r \<noteq> NULL" "ingress_ready bld (conn_of st) (rt_ingress_buffer ?r) len"
    and apart: "\<forall>k<4. ranges_disjoint (message_buffer (conn_streams (conn_of st) ! k)) 65535
      (rt_ingress_buffer ?r) (unat (rt_ingress_capacity ?r))"
    using rr n(4) by (simp_all add: runtime_ready_def Let_def)
  have pos: "len \<noteq> 0" using l n(3) by (auto simp: unsigned_eq_0_iff [symmetric])
  have "\<forall>k<4. ranges_disjoint (rt_ingress_buffer ?r) (length bytes) (message_buffer (conn_streams (conn_of st) ! k)) 65535"
    using apart l n(4) by (auto simp: ranges_disjoint_def word_le_nat_alt)
  then have arr: "array_at bld ?st (rt_ingress_buffer ?r) bytes"
    using ingress pos l data(2) by (simp add: array_at_def ingress_ready_def)
  obtain ok q' where en: "ism_shell_event_queue_enqueue (Some (sh_queue ?st)) (bytes_event (rt_stream_id ?r) (rt_ingress_buffer ?r) len)
      = (ok, q')" by fastforce
  have idle: "queue_inv (sh_queue ?st)" "queue_items (sh_queue ?st) = []" using D by simp_all
  obtain q where q: "ok" "queue_inv q" "queue_items q = []" "ism_shell_event_queue_dispatch_one bld Obj Obj (put_queue q' ?st) =
      dispatch_event bld Obj (bytes_event (rt_stream_id ?r) (rt_ingress_buffer ?r) len) (?st\<lparr>sh_queue := q\<rparr>)"
    using enqueue_dispatch(1) [OF idle en] enqueue_dispatch(2) [OF idle en, of bld] by blast
  obtain st1 where st1: "dispatch_event bld Obj (bytes_event (rt_stream_id ?r) (rt_ingress_buffer ?r) len) (?st\<lparr>sh_queue := q\<rparr>) = (True, st1)"
      "received bld (rt_stream_id ?r) bytes (?st\<lparr>sh_queue := q\<rparr>) st1"
    by (rule bytes_on_empty [of bld "?st\<lparr>sh_queue := q\<rparr>" "rt_ingress_buffer ?r" bytes len "rt_stream_id ?r"])
      (use D(1) tab arr n(1,2) fits in \<open>simp_all add: adapter_inv_def buffers_separate_def\<close>)
  have "ism_msquic_runtime_copy_enqueue_and_dispatch bld (Some i) data len st = (True, st1)"
    using D(4,5) ingress(1) data(1) n(4) len fin en q st1(1)
    by (simp add: ism_msquic_runtime_copy_enqueue_and_dispatch_def Let_def queue_at_def not_less
        ism_shell_event_queue_enqueue_authenticated_stream_bytes_def)
  then have "receive_buffers bld (Some i) [(data, len)] st = (True, st1)" using pos data(1) by simp
  with q(2,3) st1(2) that show ?thesis by simp
qed

text \<open>FIN after a complete query: the response stands framed in the send buffer, the send function got it
  once, and both the adapter and the queue are ready for what follows.\<close>

lemma fin_after:
  assumes rec: "received bld sid bytes st st1" and idle: "idle_queue st"
    and rt: "rt_stream_id (rt_of st1 i) = sid" "rt_adapter (rt_of st1 i) = Obj" "rt_queue (rt_of st1 i) = Obj"
      "\<not> rt_received_fin (rt_of st1 i)"
    and val: "question_validator (check_question bld)"
    and free: "\<not> ad_send_in_flight (sh_adapter st)" and f: "ad_send (sh_adapter st) = Some f"
    and bufs: "ad_response_buffer (sh_adapter st) \<noteq> NULL" "ad_send_buffer (sh_adapter st) \<noteq> NULL"
    and full: "doq_phase bytes = AwaitingFin n" and id: "bytes ! 2 = 0" "bytes ! 3 = 0"
    and r: "minimal_response (drop 2 bytes) (unat (ad_response_capacity (sh_adapter st))) = Some r"
    and fits: "length r + 2 \<le> unat (ad_send_capacity (sh_adapter st))"
  obtains st2 where
    "ism_msquic_runtime_on_fin bld (Some i) st1 = (True, upd_rt i (\<lambda>r. r\<lparr>rt_received_fin := True\<rparr>) st2)"
    "adapter_inv bld st2" "idle_queue st2" "same_setup st st2"
    "mem_bytes (sh_mem st2) (ad_send_buffer (sh_adapter st)) (length r + 2) = doq_frame r"
    "f sid (ad_send_buffer (sh_adapter st)) (of_nat (length r + 2)) True (sh_mem st2) (sh_ctx st) =
      (ad_send_in_flight (sh_adapter st2), sh_ctx st2)"
    "if ad_send_in_flight (sh_adapter st2)
      then ad_send_stream_id (sh_adapter st2) = sid \<and> ad_send_len (sh_adapter st2) = of_nat (length r + 2) \<and>
        dom (abs_table (conn_of st2)) = {sid}
      else abs_table (conn_of st2) = Map.empty \<and> ad_send_stream_id (sh_adapter st2) = 0 \<and> ad_send_len (sh_adapter st2) = 0"
    "\<forall>a. outside_buffers (sh_adapter st) a \<longrightarrow> sh_mem st2 a = sh_mem st1 a"
proof -
  have idle1: "idle_queue st1" by (rule received_idle [OF rec idle])
  obtain q where q: "queue_inv q" "queue_items q = []" and on: "ism_msquic_runtime_on_fin bld (Some i) st1 =
      (case dispatch_event bld Obj (fin_event sid) (st1\<lparr>sh_queue := q\<rparr>) of
         (ok, st1) \<Rightarrow> (ok, upd_rt i (\<lambda>r. r\<lparr>rt_received_fin := ok\<rparr>) st1))"
    by (rule fin_one [of st1 i bld]) (use rt idle1 in \<open>simp_all add: idle_queue_def\<close>)
  have rec2: "received bld sid bytes (st\<lparr>sh_queue := q\<rparr>) (st1\<lparr>sh_queue := q\<rparr>)"
    using rec by (simp add: received_def same_setup_def)
  obtain code st2 where fin: "ism_msquic_adapter_on_authenticated_stream_fin bld Obj sid (st1\<lparr>sh_queue := q\<rparr>) = (code, st2)"
    by fastforce
  have H: "\<not> ad_send_in_flight (sh_adapter (st\<lparr>sh_queue := q\<rparr>))" "ad_send (sh_adapter (st\<lparr>sh_queue := q\<rparr>)) = Some f"
    "ad_response_buffer (sh_adapter (st\<lparr>sh_queue := q\<rparr>)) \<noteq> NULL" "ad_send_buffer (sh_adapter (st\<lparr>sh_queue := q\<rparr>)) \<noteq> NULL"
    "minimal_response (drop 2 bytes) (unat (ad_response_capacity (sh_adapter (st\<lparr>sh_queue := q\<rparr>)))) = Some r"
    "length r + 2 \<le> unat (ad_send_capacity (sh_adapter (st\<lparr>sh_queue := q\<rparr>)))"
    using free f bufs r fits by simp_all
  note F = received_fin [OF rec2 val H(1-4) full id H(5,6) fin]
  have "dispatch_event bld Obj (fin_event sid) (st1\<lparr>sh_queue := q\<rparr>) = (True, st2)"
    using fin F(1) by (simp add: dispatch_event_def fin_event_def)
  then have "ism_msquic_runtime_on_fin bld (Some i) st1 = (True, upd_rt i (\<lambda>r. r\<lparr>rt_received_fin := True\<rparr>) st2)"
    by (simp add: on)
  moreover have "idle_queue st2" using F(3) q by (simp add: idle_queue_def)
  moreover have "same_setup st st2" using F(4) by (simp add: same_setup_def)
  ultimately show ?thesis using that [of st2] F(2,5-8) by simp
qed

section \<open>The fake transport\<close>

record runtime_send_capture =
  rs_called :: bool
  rs_stream_id :: u64
  rs_len :: u32
  rs_fin :: bool

definition no_capture :: runtime_send_capture where
  "no_capture = \<lparr>rs_called = False, rs_stream_id = 0, rs_len = 0, rs_fin = False\<rparr>"

definition runtime_fake_send :: "runtime_send_capture transport ism_msquic_send_fn" where
  "runtime_fake_send stream_id data len fin m tr =
     (if data = NULL then (False, tr)
      else (True, tr\<lparr>tr_world := (tr_world tr)\<lparr>rs_called := True, rs_stream_id := stream_id, rs_len := len,
        rs_fin := fin\<rparr>\<rparr>))"

section \<open>The program\<close>

text \<open>The capture is the world of the transport, the runtime stream its entry 0.\<close>

type_synonym runtime_vars = "runtime_send_capture rt_state"

abbreviation capture :: "runtime_vars \<Rightarrow> runtime_send_capture" where
  "capture st \<equiv> tr_world (sh_ctx st)"

definition runtime_queue_init :: "'w rt_state \<Rightarrow> 'w rt_state" where
  "runtime_queue_init st =
     put_queue (ism_shell_event_queue_init (queue_at Obj st) (q_events (sh_queue st)) 1) st"

text \<open>The three initialisation calls, with a queue of one event.\<close>

definition fresh_runtime ::
  "addr \<Rightarrow> u32 \<Rightarrow> addr \<Rightarrow> u32 \<Rightarrow> 'w transport ism_msquic_send_fn option \<Rightarrow> u64 \<Rightarrow> addr \<Rightarrow> u32 \<Rightarrow> 'w rt_state \<Rightarrow> 'w rt_state" where
  "fresh_runtime response response_capacity send_buffer send_capacity send stream_id ingress_buffer ingress_capacity st =
     ism_msquic_runtime_stream_init (Some 0) Obj Obj stream_id ingress_buffer ingress_capacity
       (runtime_queue_init
         (ism_msquic_adapter_init Obj response response_capacity send_buffer send_capacity send (sh_ctx st) st))"

text \<open>The capture is cleared first.\<close>

definition runtime_setup :: "addr \<Rightarrow> addr \<Rightarrow> u64 \<Rightarrow> addr \<Rightarrow> u32 \<Rightarrow> runtime_vars \<Rightarrow> runtime_vars" where
  "runtime_setup response send_buffer stream_id ingress_buffer ingress_capacity st =
     fresh_runtime response 128 send_buffer 128 (Some runtime_fake_send) stream_id ingress_buffer ingress_capacity
       (upd_world (\<lambda>_. no_capture) st)"

definition runtime_queue_len :: "runtime_vars \<Rightarrow> u32" where
  "runtime_queue_len st = ism_shell_event_queue_len (queue_at Obj st)"

definition smoke_runtime_answer :: "build \<Rightarrow> addr \<Rightarrow> addr \<Rightarrow> addr \<Rightarrow> addr \<Rightarrow> runtime_vars check list" where
  "smoke_runtime_answer bld response send_buffer ingress_buffer query =
     [runs (runtime_setup response send_buffer 31 ingress_buffer 64),
      ism_msquic_runtime_on_receive bld (Some 0) (Some [(query, 35)]) 1,
      holds (\<lambda>st. \<not> rs_called (capture st)),
      ism_msquic_runtime_on_fin bld (Some 0),
      holds (\<lambda>st. rs_called (capture st) \<and> rs_stream_id (capture st) = 31 \<and> rs_len (capture st) = 35 \<and>
        rs_fin (capture st) \<and>
        mem_bytes (sh_mem st) ingress_buffer 35 = mem_bytes (sh_mem st) query 35 \<and>
        mem_bytes (sh_mem st) send_buffer 35 = expected_validated_stream_response \<and> runtime_queue_len st = 0),
      runs (\<lambda>st. st\<lparr>sh_mem := mem_zero (sh_mem st) query 35\<rparr>),
      (\<lambda>st. ism_msquic_runtime_on_send_complete bld (Some 0) (rs_len (capture st)) False st),
      holds (\<lambda>st. cc_num (conn_ctx (conn_of st)) = 0 \<and> runtime_queue_len st = 0)]"

definition smoke_runtime_reset :: "build \<Rightarrow> addr \<Rightarrow> addr \<Rightarrow> addr \<Rightarrow> addr \<Rightarrow> runtime_vars check list" where
  "smoke_runtime_reset bld reset_response reset_send_buffer reset_ingress_buffer partial =
     [runs (runtime_setup reset_response reset_send_buffer 37 reset_ingress_buffer 4),
      ism_msquic_runtime_on_receive bld (Some 0) (Some [(partial, 1)]) 1,
      holds (\<lambda>st. \<not> rs_called (capture st) \<and> cc_num (conn_ctx (conn_of st)) = 1),
      ism_msquic_runtime_on_stream_reset bld (Some 0),
      holds (\<lambda>st. cc_num (conn_ctx (conn_of st)) = 0),
      ism_msquic_runtime_on_stream_reset bld (Some 0),
      holds (\<lambda>st. runtime_queue_len st = 0)]"

definition smoke_runtime_undersized :: "build \<Rightarrow> addr \<Rightarrow> addr \<Rightarrow> runtime_vars check list" where
  "smoke_runtime_undersized bld undersized_ingress_buffer query =
     [runs runtime_queue_init,
      runs (ism_msquic_runtime_stream_init (Some 0) Obj Obj 31 undersized_ingress_buffer 1),
      refuses (ism_msquic_runtime_on_receive bld (Some 0) (Some [(query, 35)]) 1),
      holds (\<lambda>st. runtime_queue_len st = 0)]"

definition ism_smoke_msquic_runtime ::
  "build \<Rightarrow> addr \<Rightarrow> addr \<Rightarrow> addr \<Rightarrow> addr \<Rightarrow> addr \<Rightarrow> addr \<Rightarrow> addr \<Rightarrow> addr \<Rightarrow> addr \<Rightarrow> runtime_vars \<Rightarrow> bool" where
  "ism_smoke_msquic_runtime bld response send_buffer ingress_buffer query
       reset_response reset_send_buffer reset_ingress_buffer partial undersized_ingress_buffer =
     run_checks
       (smoke_runtime_answer bld response send_buffer ingress_buffer query @
        smoke_runtime_reset bld reset_response reset_send_buffer reset_ingress_buffer partial @
        smoke_runtime_undersized bld undersized_ingress_buffer query)"

section \<open>The initialised state\<close>

text \<open>Storage for one event and one runtime stream.\<close>

definition has_storage :: "'w rt_state \<Rightarrow> bool" where
  "has_storage st \<longleftrightarrow> (\<exists>es. q_events (sh_queue st) = Some es \<and> es \<noteq> []) \<and> tr_streams (sh_ctx st) \<noteq> []"

lemma idle_storage: "idle_queue st \<Longrightarrow> tr_streams (sh_ctx st) \<noteq> [] \<Longrightarrow> has_storage st"
  by (auto simp: idle_queue_def queue_inv_def has_storage_def word_less_nat_alt)

lemma queue_init_idle:
  assumes "has_storage st"
  shows "idle_queue (runtime_queue_init st)"
    and "runtime_queue_init st = st\<lparr>sh_queue := sh_queue (runtime_queue_init st)\<rparr>"
  using assms
  by (auto simp: runtime_queue_init_def ism_shell_event_queue_init_def queue_at_def put_queue_def idle_queue_def
      queue_inv_def queue_items_def has_storage_def Suc_le_eq)

lemma placed_moved:
  fixes st st' :: "'c shell_state"
  assumes "placed bld rb rc sb sc st" and "conn_layout (conn_of st') = conn_layout (conn_of st)"
  shows "placed bld rb rc sb sc st'"
proof -
  let ?i = "\<lambda>st. ism_msquic_adapter_init Obj rb rc sb sc None (sh_ctx st) st"
  have len: "length (conn_streams (conn_of st)) = 4" "length (conn_streams (conn_of st')) = 4"
    using assms by (simp add: placed_def) (metis assms conn_layout_def length_map placed_def)
  have lay: "conn_layout (conn_of (?i s)) = conn_layout (conn_of s)" if "length (conn_streams (conn_of s)) = 4" for s :: "'c shell_state"
    using init_layout [OF that, of "sh_mem s"] by (auto simp: ism_msquic_adapter_init_def split: prod.splits)
  have "same_setup (?i st) (?i st')"
    using lay [OF len(1)] lay [OF len(2)] assms(2) by (simp add: same_setup_def ism_msquic_adapter_init_def split: prod.splits)
  moreover have "length (conn_streams (conn_of (?i st))) = 4"
    using lay [OF len(1)] len(1) by (metis conn_layout_def length_map)
  ultimately have "buffers_separate bld (?i st')"
    using buffers_separate_setup assms(1) unfolding placed_def by blast
  moreover have "storage_ok bld (conn_of st') = storage_ok bld (conn_of st)"
    using layout_nth(1) [OF assms(2)] len by (simp add: storage_ok_def)
  ultimately show ?thesis using assms(1) len by (simp add: placed_def)
qed

lemma array_at_ctx [simp]: "array_at bld (st\<lparr>sh_ctx := c\<rparr>) data bytes = array_at bld st data bytes"
  by (simp add: array_at_def)

text \<open>A runtime stream whose ingress buffer is an array of the program is ready.\<close>

lemma area_ready:
  assumes inv: "adapter_inv bld st" and idle: "idle_queue st" and a: "array_at bld st (rt_ingress_buffer (rt_of st i)) area"
    and n: "unat (rt_ingress_capacity (rt_of st i)) = length area"
    and rt: "rt_adapter (rt_of st i) = Obj" "rt_queue (rt_of st i) = Obj"
  shows "runtime_ready bld st i"
proof -
  let ?ib = "rt_ingress_buffer (rt_of st i)"
  have sh: "length (conn_streams (conn_of st)) = 4" using inv by (rule adapter_invD)
  have "ingress_ready bld (conn_of st) ?ib len" if "len \<le> rt_ingress_capacity (rt_of st i)" for len
  proof -
    have "array_at bld st ?ib (mem_bytes (sh_mem st) ?ib (unat len))"
      using that n by (intro array_at_moved [OF a refl sh]) (simp add: word_le_nat_alt)
    from array_ingress [OF inv this, of len] show ?thesis using unsigned_less [of len] by simp
  qed
  moreover have "ranges_disjoint (message_buffer (conn_streams (conn_of st) ! k)) 65535 ?ib (length area)" if "k < 4" for k
    using a that by (auto simp: array_at_def ranges_disjoint_def)
  ultimately show ?thesis
    using inv idle a rt n by (simp add: runtime_ready_def Let_def idle_queue_def array_at_def)
qed

text \<open>After the initialisation the runtime stream is ready, on an adapter without streams.\<close>

lemma fresh_ready:
  assumes pl: "placed bld rb rc sb sc st" and ib: "array_at bld st ib area" "unat ic = length area"
    and has: "has_storage st" and st': "st' = fresh_runtime rb rc sb sc send sid ib ic st"
  shows "runtime_ready bld st' 0" and "rt_of st' 0 = init_stream Obj Obj sid ib ic"
    and "abs_table (conn_of st') = Map.empty" and "\<not> ad_send_in_flight (sh_adapter st')"
    and "ad_send (sh_adapter st') = send" and "sh_ctx st' = upd_stream 0 (\<lambda>_. init_stream Obj Obj sid ib ic) (sh_ctx st)"
    and "ad_response_buffer (sh_adapter st') = rb" "ad_response_capacity (sh_adapter st') = rc"
    and "ad_send_buffer (sh_adapter st') = sb" "ad_send_capacity (sh_adapter st') = sc"
    and "array_at bld st data bytes \<Longrightarrow> array_at bld st' data bytes"
    and "conn_layout (conn_of st') = conn_layout (conn_of st)" and "tr_streams (sh_ctx st') \<noteq> []"
proof -
  define st2 where "st2 = ism_msquic_adapter_init Obj rb rc sb sc send (sh_ctx st) st"
  define st3 where "st3 = runtime_queue_init st2"
  have st3': "st' = ism_msquic_runtime_stream_init (Some 0) Obj Obj sid ib ic st3"
    using st' by (simp add: fresh_runtime_def st2_def st3_def)
  note I = init_fresh [OF pl st2_def]
  have has2: "has_storage st2" using has I(4,5) by (simp add: has_storage_def)
  note Q = queue_init_idle [OF has2, folded st3_def]
  show ctx: "sh_ctx st' = upd_stream 0 (\<lambda>_. init_stream Obj Obj sid ib ic) (sh_ctx st)"
    using I(4) by (simp_all add: st3' ism_msquic_runtime_stream_init_def upd_rt_def) (subst Q(2); simp)+
  have same: "sh_adapter st' = sh_adapter st2" "sh_queue st' = sh_queue st3" "sh_mem st' = sh_mem st2"
    by (simp_all add: st3' ism_msquic_runtime_stream_init_def upd_rt_def) (subst Q(2); simp)+
  show rt: "rt_of st' 0 = init_stream Obj Obj sid ib ic" and "tr_streams (sh_ctx st') \<noteq> []"
    using has by (simp_all add: ctx stream_of_def upd_stream_def has_storage_def)
  show "abs_table (conn_of st') = Map.empty" "\<not> ad_send_in_flight (sh_adapter st')"
    "ad_send (sh_adapter st') = send"
    "ad_response_buffer (sh_adapter st') = rb" "ad_response_capacity (sh_adapter st') = rc"
    "ad_send_buffer (sh_adapter st') = sb" "ad_send_capacity (sh_adapter st') = sc"
    using I by (simp_all add: same)
  show arr: "array_at bld st' data bytes" if "array_at bld st data bytes" for data bytes
    using I(11) [of data bytes] that by (simp add: array_at_def same)
  have "length (conn_streams (conn_of st)) = 4" using pl by (simp add: placed_def)
  from init_layout [OF this, of "sh_mem st"] show "conn_layout (conn_of st') = conn_layout (conn_of st)"
    by (auto simp: same st2_def ism_msquic_adapter_init_def split: prod.splits)
  have "adapter_inv bld st'" using I(1) by (simp add: adapter_inv_def same buffers_separate_def)
  moreover have "idle_queue st'" using Q(1) by (simp add: idle_queue_def same(2))
  ultimately show "runtime_ready bld st' 0"
    by (rule area_ready) (use arr [OF ib(1)] ib(2) rt in \<open>simp_all add: init_stream_def\<close>)
qed

lemma setup_ready:
  assumes pl: "placed bld rb 128 sb 128 st" and ib: "array_at bld st ib area" "unat ic = length area"
    and has: "has_storage st" and st': "st' = runtime_setup rb sb sid ib ic st"
  shows "runtime_ready bld st' 0" and "rt_of st' 0 = init_stream Obj Obj sid ib ic"
    and "abs_table (conn_of st') = Map.empty" and "\<not> ad_send_in_flight (sh_adapter st')"
    and "ad_send (sh_adapter st') = Some runtime_fake_send" and "capture st' = no_capture"
    and "ad_response_buffer (sh_adapter st') = rb" "ad_response_capacity (sh_adapter st') = 128"
    and "ad_send_buffer (sh_adapter st') = sb" "ad_send_capacity (sh_adapter st') = 128"
    and "array_at bld st data bytes \<Longrightarrow> array_at bld st' data bytes"
    and "conn_layout (conn_of st') = conn_layout (conn_of st)" and "tr_streams (sh_ctx st') \<noteq> []"
proof -
  define st1 where "st1 = upd_world (\<lambda>_. no_capture) st"
  have pl1: "placed bld rb 128 sb 128 st1" by (rule placed_moved [OF pl]) (simp add: st1_def)
  have ib1: "array_at bld st1 ib area" and has1: "has_storage st1" and arr1: "array_at bld st1 data bytes = array_at bld st data bytes"
    using ib(1) has by (simp_all add: st1_def upd_world_def has_storage_def)
  note F = fresh_ready [OF pl1 ib1 ib(2) has1 st' [unfolded runtime_setup_def, folded st1_def]]
  show "runtime_ready bld st' 0" "rt_of st' 0 = init_stream Obj Obj sid ib ic"
    "abs_table (conn_of st') = Map.empty" "\<not> ad_send_in_flight (sh_adapter st')" "ad_send (sh_adapter st') = Some runtime_fake_send"
    "ad_response_buffer (sh_adapter st') = rb" "ad_response_capacity (sh_adapter st') = 128"
    "ad_send_buffer (sh_adapter st') = sb" "ad_send_capacity (sh_adapter st') = 128" "tr_streams (sh_ctx st') \<noteq> []"
    by (fact F)+
  show "capture st' = no_capture" by (simp add: F(6) upd_stream_def st1_def)
  show "array_at bld st data bytes \<Longrightarrow> array_at bld st' data bytes" using F(11) arr1 by simp
  show "conn_layout (conn_of st') = conn_layout (conn_of st)" using F(12) by (simp add: st1_def)
qed

section \<open>The end of the only stream\<close>

lemma ready_received [simp]:
  assumes "i < length (tr_streams (sh_ctx st))"
  shows "runtime_ready bld (upd_rt i (\<lambda>r. r\<lparr>rt_received_fin := b\<rparr>) st) i = runtime_ready bld st i"
  using assms by (simp add: runtime_ready_def Let_def upd_rt_def upd_stream_def stream_of_def)

text \<open>Completion or reset of the only stream leaves an idle adapter without streams.\<close>

definition finished :: "build \<Rightarrow> 'w rt_state \<Rightarrow> nat \<Rightarrow> 'w rt_state \<Rightarrow> bool" where
  "finished bld st i st' \<longleftrightarrow> runtime_ready bld st' i \<and> abs_table (conn_of st') = Map.empty \<and>
     \<not> ad_send_in_flight (sh_adapter st') \<and> sh_ctx st' = sh_ctx st \<and> sh_mem st' = sh_mem st \<and>
     same_setup st st' \<and> conn_layout (conn_of st') = conn_layout (conn_of st) \<and> cc_num (conn_ctx (conn_of st')) = 0 \<and>
     ism_shell_event_queue_len (queue_at Obj st') = 0"

lemma finished_eq:
  assumes rr: "runtime_ready bld st i" and q: "queue_inv q" "queue_items q = []"
    and dom: "dom (abs_table (conn_of st)) \<subseteq> {sid}"
  shows "finished bld st i (set_send False 0 0 (set_conn (finish_stream (conn_of st) sid) (st\<lparr>sh_queue := q\<rparr>)))"
proof -
  note D = runtime_readyD [OF rr]
  let ?st = "set_send False 0 0 (set_conn (finish_stream (conn_of st) sid) (st\<lparr>sh_queue := q\<rparr>))"
  have inv: "adapter_inv bld ?st"
    using finish_adapter_inv [of bld "st\<lparr>sh_queue := q\<rparr>" sid] D(1) by (simp add: adapter_inv_def buffers_separate_def)
  have lay: "conn_layout (conn_of ?st) = conn_layout (conn_of st)" using layout_finish [OF adapter_invD(2) [OF D(1)]] by simp
  have "abs_table (conn_of st) s = None" if "s \<noteq> sid" for s using dom that by (auto simp: domIff)
  then have tab: "abs_table (conn_of ?st) = Map.empty"
    by (auto simp: finish_stream_abs_table [OF adapter_invD(2) [OF D(1)]] fun_eq_iff)
  have "runtime_ready bld ?st i"
    by (rule runtime_ready_setup [OF rr]) (use inv q lay in \<open>simp_all add: same_setup_def\<close>)
  then show ?thesis
    using tab lay cc_num_empty [OF adapter_invD(2) [OF inv] tab] idle_len [of ?st] q
    by (simp add: finished_def idle_queue_def same_setup_def)
qed

lemma complete_only:
  assumes rr: "runtime_ready bld st i" and "dom (abs_table (conn_of st)) = {rt_stream_id (rt_of st i)}"
    and "ad_send_in_flight (sh_adapter st)" "ad_send_stream_id (sh_adapter st) = rt_stream_id (rt_of st i)"
      "ad_send_len (sh_adapter st) = len"
  obtains st' where "ism_msquic_runtime_on_send_complete bld (Some i) len dropped st = (True, st')" "finished bld st i st'"
proof -
  obtain q where q: "queue_inv q" "queue_items q = []" "ism_msquic_runtime_on_send_complete bld (Some i) len dropped st =
      ism_msquic_adapter_on_send_complete bld Obj (rt_stream_id (rt_of st i)) len dropped (st\<lparr>sh_queue := q\<rparr>)"
    by (rule runtime_send_complete [OF rr])
  have "adapter_inv bld (st\<lparr>sh_queue := q\<rparr>)" using runtime_readyD(1) [OF rr] by (simp add: adapter_inv_def buffers_separate_def)
  with q(3) assms finished_eq [OF rr q(1,2)] that show ?thesis by (simp add: send_complete_eq)
qed

lemma reset_only:
  assumes rr: "runtime_ready bld st i" and "dom (abs_table (conn_of st)) \<subseteq> {rt_stream_id (rt_of st i)}"
    and "\<not> ad_send_in_flight (sh_adapter st)"
  obtains st' where "ism_msquic_runtime_on_stream_reset bld (Some i) st = (True, st')" "finished bld st i st'"
proof -
  obtain q where q: "queue_inv q" "queue_items q = []" "ism_msquic_runtime_on_stream_reset bld (Some i) st =
      ism_msquic_adapter_on_stream_reset bld Obj (rt_stream_id (rt_of st i)) (st\<lparr>sh_queue := q\<rparr>)"
    by (rule runtime_stream_reset [OF rr])
  have "adapter_inv bld (st\<lparr>sh_queue := q\<rparr>)" using runtime_readyD(1) [OF rr] by (simp add: adapter_inv_def buffers_separate_def)
  with q(3) assms finished_eq [OF rr q(1,2)] that show ?thesis by (simp add: stream_reset_eq)
qed

lemma finished_storage:
  assumes "finished bld st i st'" and "tr_streams (sh_ctx st) \<noteq> []"
  shows "has_storage st'"
  using assms runtime_readyD(2,3) [of bld st' i] by (intro idle_storage) (simp_all add: finished_def idle_queue_def)

section \<open>The scenarios return true\<close>

lemma on_receive_one:
  assumes "runtime_ready bld st i"
  shows "ism_msquic_runtime_on_receive bld (Some i) (Some [b]) 1 st = receive_buffers bld (Some i) [b] st"
  using runtime_readyD(4,5) [OF assms] by (simp add: ism_msquic_runtime_on_receive_def)

lemma smoke_reset_rest:
  assumes pl: "placed bld rb 128 sb 128 st" and ib: "array_at bld st ib area" "length area = 4" and has: "has_storage st"
    and data: "partial \<noteq> NULL"
    and rest: "\<And>st'. has_storage st' \<Longrightarrow> run_checks ps st'"
  shows "run_checks (smoke_runtime_reset bld rb sb ib partial @ ps) st"
proof -
  define st0 where "st0 = runtime_setup rb sb 37 ib 4 st"
  note S = setup_ready [OF pl ib(1) _ has st0_def, unfolded ib(2), simplified]
  let ?b = "[sh_mem st0 partial]"
  obtain q st1 where q: "queue_inv q" "queue_items q = []" and r: "receive_buffers bld (Some 0) [(partial, 1)] st0 = (True, st1)"
    and rec: "received bld 37 ?b (st0\<lparr>sh_mem := mem_copy (sh_mem st0) ib partial 1, sh_queue := q\<rparr>) st1"
    using receive_one [OF S(1), of partial ?b 1] S(2,3) data by (auto simp: init_stream_def mem_bytes_def)
  from rec obtain c where c: "adapter_inv bld st1" "abs_table (conn_of st1) = [37 \<mapsto> c]" "sh_ctx st1 = sh_ctx st0" "sh_queue st1 = q"
    "same_setup st0 st1" "\<not> ad_send_in_flight (sh_adapter st1)"
    using S(4) unfolding received_def same_setup_def by auto
  have rr1: "runtime_ready bld st1 0" using runtime_ready_setup [OF S(1) c(5,1)] q c(3,4) by simp
  have rt1: "rt_stream_id (rt_of st1 0) = 37" using S(2) c(3) by (simp add: init_stream_def)
  obtain st2 where st2: "ism_msquic_runtime_on_stream_reset bld (Some 0) st1 = (True, st2)" "finished bld st1 0 st2"
    by (rule reset_only [OF rr1]) (use c(2,6) rt1 in simp_all)
  obtain st3 where st3: "ism_msquic_runtime_on_stream_reset bld (Some 0) st2 = (True, st3)" "finished bld st2 0 st3"
    using reset_only [of bld st2 0] st2(2) unfolding finished_def by auto
  have "tr_streams (sh_ctx st2) \<noteq> []" using S(13) c(3) st2(2) by (simp add: finished_def)
  then have "run_checks ps st3" using finished_storage [OF st3(2)] by (intro rest)
  with S(6) st2 st3 show ?thesis
    using r on_receive_one [OF S(1)] cc_num_single [OF adapter_invD(2) [OF c(1)] c(2)] c(3)
    by (simp add: smoke_runtime_reset_def check_defs st0_def [symmetric] finished_def no_capture_def runtime_queue_len_def)
qed

lemma smoke_undersized_passes:
  assumes "has_storage st" and "query \<noteq> NULL"
  shows "run_checks (smoke_runtime_undersized bld ib query) st"
proof -
  let ?st = "ism_msquic_runtime_stream_init (Some 0) Obj Obj 31 ib 1 (runtime_queue_init st)"
  note Q = queue_init_idle [OF assms(1)]
  have ctx: "sh_ctx (runtime_queue_init st) = sh_ctx st" by (subst Q(2)) simp
  have rt: "rt_of ?st 0 = init_stream Obj Obj 31 ib 1"
    using assms(1) ctx by (simp add: ism_msquic_runtime_stream_init_def upd_rt_def upd_stream_def stream_of_def has_storage_def)
  have "(35 :: u32) > 1" by (simp add: word_less_nat_alt)
  then have "ism_msquic_runtime_on_receive bld (Some 0) (Some [(query, 35)]) 1 ?st = (False, ?st)"
    using rt assms(2) by (simp add: ism_msquic_runtime_on_receive_def init_stream_def
        ism_msquic_runtime_copy_enqueue_and_dispatch_def Let_def)
  moreover have "idle_queue ?st" using Q(1) by (simp add: idle_queue_def ism_msquic_runtime_stream_init_def upd_rt_def)
  ultimately show ?thesis
    using idle_len [of ?st] by (simp add: smoke_runtime_undersized_def check_defs runtime_queue_len_def)
qed

text \<open>An array of the program is outside the response and send buffers.\<close>

definition apart_from :: "addr \<Rightarrow> nat \<Rightarrow> addr \<Rightarrow> addr \<Rightarrow> bool" where
  "apart_from p n rb sb \<longleftrightarrow> ranges_disjoint p n rb 128 \<and> ranges_disjoint p n sb 128"

lemma apart_outside:
  assumes "apart_from p n rb sb" and "p \<le> a" "a < p + n"
    and "ad_response_buffer ad = rb" "ad_response_capacity ad = 128" "ad_send_buffer ad = sb" "ad_send_capacity ad = 128"
  shows "outside_buffers ad a"
  using assms by (auto simp: apart_from_def ranges_disjoint_def outside_buffers_def)

text \<open>What stands in memory outside every buffer of the shell is as it was after a receive and FIN.\<close>

lemma bytes_survive:
  assumes rec: "received bld sid bytes st st1" and arr: "array_at bld st p area" and n: "n \<le> length area"
    and apart: "\<And>a. p \<le> a \<Longrightarrow> a < p + n \<Longrightarrow> outside_buffers (sh_adapter st) a"
    and keep: "\<forall>a. outside_buffers (sh_adapter st) a \<longrightarrow> sh_mem st2 a = sh_mem st1 a"
  shows "mem_bytes (sh_mem st2) p n = mem_bytes (sh_mem st) p n"
proof (rule mem_bytes_eqI)
  fix k assume k: "k < n"
  from rec obtain j where j: "j < 4" "mem_frame (message_buffer (conn_streams (conn_of st) ! j)) 65535 (sh_mem st) (sh_mem st1)"
    by (auto simp: received_def)
  then have "sh_mem st1 (p + k) = sh_mem st (p + k)"
    using arr k n by (auto simp: array_at_def ranges_disjoint_def mem_frame_def)
  with keep apart k show "sh_mem st2 (p + k) = sh_mem st (p + k)" by simp
qed

text \<open>The query received through a ready runtime stream and answered: what the send function does with the
  response decides the state of the adapter.\<close>

definition answered ::
  "build \<Rightarrow> u64 \<Rightarrow> addr \<Rightarrow> addr \<Rightarrow> addr \<Rightarrow> 'w transport ism_msquic_send_fn \<Rightarrow> 'w rt_state \<Rightarrow> 'w rt_state \<Rightarrow> bool" where
  "answered bld sid sb ib query f st st2 \<longleftrightarrow>
     adapter_inv bld st2 \<and> idle_queue st2 \<and> same_setup st st2 \<and>
     f sid sb 35 True (sh_mem st2) (sh_ctx st) = (ad_send_in_flight (sh_adapter st2), sh_ctx st2) \<and>
     (ad_send_in_flight (sh_adapter st2) \<longrightarrow> ad_send_stream_id (sh_adapter st2) = sid \<and>
        ad_send_len (sh_adapter st2) = 35 \<and> dom (abs_table (conn_of st2)) = {sid}) \<and>
     mem_bytes (sh_mem st2) query 35 = exact_a_query \<and> mem_bytes (sh_mem st2) ib 35 = exact_a_query \<and>
     mem_bytes (sh_mem st2) sb 35 = expected_validated_stream_response"

lemma query_answered:
  assumes rr: "runtime_ready bld st0 i" and tab: "abs_table (conn_of st0) = Map.empty"
    and rt: "rt_stream_id (rt_of st0 i) = sid" "\<not> rt_received_fin (rt_of st0 i)" "rt_ingress_buffer (rt_of st0 i) = ib"
      "rt_ingress_capacity (rt_of st0 i) = 64"
    and qu0: "array_at bld st0 query exact_a_query" and ib0: "array_at bld st0 ib area" "length area = 64"
    and free: "\<not> ad_send_in_flight (sh_adapter st0)" and f: "ad_send (sh_adapter st0) = Some f"
    and bufs0: "ad_response_buffer (sh_adapter st0) = rb" "ad_response_capacity (sh_adapter st0) = 128"
      "ad_send_buffer (sh_adapter st0) = sb" "ad_send_capacity (sh_adapter st0) = 128" "rb \<noteq> NULL" "sb \<noteq> NULL"
    and val: "question_validator (check_question bld)"
    and sep: "ranges_disjoint query 35 ib 64" "apart_from query 35 rb sb" "apart_from ib 35 rb sb"
  obtains st1 st2 where "receive_buffers bld (Some i) [(query, 35)] st0 = (True, st1)" "sh_ctx st1 = sh_ctx st0"
    "ism_msquic_runtime_on_fin bld (Some i) st1 = (True, upd_rt i (\<lambda>r. r\<lparr>rt_received_fin := True\<rparr>) st2)"
    "answered bld sid sb ib query f st0 st2"
proof -
  have null: "query \<noteq> NULL" using qu0 by (simp add: array_at_def)
  obtain q st1 where q: "queue_inv q" "queue_items q = []" and r: "receive_buffers bld (Some i) [(query, 35)] st0 = (True, st1)"
    and rec': "received bld (rt_stream_id (rt_of st0 i)) exact_a_query (st0\<lparr>sh_mem := mem_copy (sh_mem st0)
      (rt_ingress_buffer (rt_of st0 i)) query (unat (35 :: u32)), sh_queue := q\<rparr>) st1"
    by (rule receive_one [OF rr rt(2) tab, of query exact_a_query 35])
      (use rt null qu0 fixture_phases(1) in \<open>simp_all add: array_at_def word_le_nat_alt exact_a_query_def\<close>)
  define st where "st = st0\<lparr>sh_mem := mem_copy (sh_mem st0) ib query 35, sh_queue := q\<rparr>"
  have rec: "received bld sid exact_a_query st st1" using rec' rt by (simp add: st_def)
  have ctx1: "sh_ctx st1 = sh_ctx st0" using rec by (simp add: received_def st_def)
  have rt1: "rt_stream_id (rt_of st1 i) = sid" "rt_adapter (rt_of st1 i) = Obj" "rt_queue (rt_of st1 i) = Obj"
      "\<not> rt_received_fin (rt_of st1 i)" using rt runtime_readyD(4,5) [OF rr] by (simp_all add: ctx1)
  have idle: "idle_queue st" using q by (simp add: idle_queue_def st_def)
  have ad: "\<not> ad_send_in_flight (sh_adapter st)" "ad_send (sh_adapter st) = Some f"
      "ad_response_buffer (sh_adapter st) \<noteq> NULL" "ad_send_buffer (sh_adapter st) \<noteq> NULL"
      "minimal_response (drop 2 exact_a_query) (unat (ad_response_capacity (sh_adapter st)))
        = Some (drop 2 expected_validated_stream_response)"
      "length (drop 2 expected_validated_stream_response) + 2 \<le> unat (ad_send_capacity (sh_adapter st))"
    using free f bufs0 exact_a_response(1) [of 128] by (simp_all add: st_def)
  obtain st2 where F: "ism_msquic_runtime_on_fin bld (Some i) st1 = (True, upd_rt i (\<lambda>r. r\<lparr>rt_received_fin := True\<rparr>) st2)"
    "adapter_inv bld st2" "idle_queue st2" "same_setup st st2"
    "mem_bytes (sh_mem st2) (ad_send_buffer (sh_adapter st)) (length (drop 2 expected_validated_stream_response) + 2)
       = doq_frame (drop 2 expected_validated_stream_response)"
    "f sid (ad_send_buffer (sh_adapter st)) (of_nat (length (drop 2 expected_validated_stream_response) + 2))
       True (sh_mem st2) (sh_ctx st) = (ad_send_in_flight (sh_adapter st2), sh_ctx st2)"
    and G: "if ad_send_in_flight (sh_adapter st2)
      then ad_send_stream_id (sh_adapter st2) = sid \<and>
        ad_send_len (sh_adapter st2) = of_nat (length (drop 2 expected_validated_stream_response) + 2) \<and>
        dom (abs_table (conn_of st2)) = {sid}
      else abs_table (conn_of st2) = Map.empty \<and> ad_send_stream_id (sh_adapter st2) = 0 \<and> ad_send_len (sh_adapter st2) = 0"
    and keep: "\<forall>a. outside_buffers (sh_adapter st) a \<longrightarrow> sh_mem st2 a = sh_mem st1 a"
    by (rule fin_after [OF rec idle rt1 val ad(1-4) fixture_phases(1) fixture_ids(1,2) ad(5,6)])
  have bufs: "ad_response_buffer (sh_adapter st) = rb" "ad_response_capacity (sh_adapter st) = 128"
    "ad_send_buffer (sh_adapter st) = sb" "ad_send_capacity (sh_adapter st) = 128" "sh_ctx st = sh_ctx st0"
    using bufs0 by (simp_all add: st_def)
  have arrs: "array_at bld st query exact_a_query" "array_at bld st ib (mem_bytes (sh_mem st) ib 64)"
    using qu0 ib0 sep(1) mem_bytes_copy_disjoint [of query 35 ib 35 "sh_mem st0" query]
    by (auto simp: st_def array_at_def ranges_disjoint_def)
  have "mem_bytes (sh_mem st2) ib 35 = mem_bytes (sh_mem st) ib 35"
    by (rule bytes_survive [OF rec arrs(2) _ _ keep]) (auto intro: apart_outside [OF sep(3)] simp: bufs)
  moreover have "mem_bytes (sh_mem st2) query 35 = mem_bytes (sh_mem st) query 35"
    by (rule bytes_survive [OF rec arrs(1) _ _ keep]) (auto intro: apart_outside [OF sep(2)] simp: bufs)
  moreover have "mem_bytes (sh_mem st) query 35 = exact_a_query" "mem_bytes (sh_mem st) ib 35 = exact_a_query"
    using arrs(1) qu0 by (simp_all add: array_at_def st_def)
  moreover have "same_setup st0 st2" using F(4) by (simp add: same_setup_def st_def)
  ultimately have "answered bld sid sb ib query f st0 st2"
    using F(2,3,5,6) G exact_a_response(2) [of 128] by (simp add: answered_def bufs)
  with that [OF r ctx1 F(1)] show ?thesis by blast
qed

lemma smoke_answer_rest:
  assumes pl: "placed bld rb 128 sb 128 st" and ib: "array_at bld st ib area" "length area = 64"
    and qu: "array_at bld st query exact_a_query" and has: "has_storage st"
    and sep: "ranges_disjoint query 35 ib 64" "apart_from query 35 rb sb" "apart_from ib 35 rb sb"
    and rest: "\<And>st'. has_storage st' \<Longrightarrow> conn_layout (conn_of st') = conn_layout (conn_of st) \<Longrightarrow> run_checks ps st'"
  shows "run_checks (smoke_runtime_answer bld rb sb ib query @ ps) st"
proof -
  define st0 where "st0 = runtime_setup rb sb 31 ib 64 st"
  have rr0: "runtime_ready bld st0 0" by (rule setup_ready [OF pl ib(1) _ has st0_def]) (simp add: ib(2))
  note S = setup_ready [OF pl ib(1) _ has st0_def, unfolded ib(2), simplified]
  have bufs: "rb \<noteq> NULL" "sb \<noteq> NULL" "question_validator (check_question bld)" using pl by (simp_all add: placed_def)
  have rt0: "rt_stream_id (rt_of st0 0) = 31" "\<not> rt_received_fin (rt_of st0 0)" "rt_ingress_buffer (rt_of st0 0) = ib"
    "rt_ingress_capacity (rt_of st0 0) = 64" using S(2) by (simp_all add: init_stream_def)
  obtain st1 st2 where A: "receive_buffers bld (Some 0) [(query, 35)] st0 = (True, st1)" "sh_ctx st1 = sh_ctx st0"
    "ism_msquic_runtime_on_fin bld (Some 0) st1 = (True, upd_rt 0 (\<lambda>r. r\<lparr>rt_received_fin := True\<rparr>) st2)"
    and B: "answered bld 31 sb ib query runtime_fake_send st0 st2"
    by (rule query_answered [OF S(1,3) rt0 S(11) [OF qu] S(11) [OF ib(1)] ib(2) S(4,5,7-10) bufs sep])
  have sent: "ad_send_in_flight (sh_adapter st2)" "sh_ctx st2 = (sh_ctx st0)\<lparr>tr_world := \<lparr>rs_called = True, rs_stream_id = 31,
      rs_len = 35, rs_fin = True\<rparr>\<rparr>"
    using B bufs(2) S(6) by (auto simp: answered_def runtime_fake_send_def no_capture_def)
  have rt2: "rt_of st2 0 = rt_of st0 0" "tr_streams (sh_ctx st2) \<noteq> []" "capture st2 = \<lparr>rs_called = True, rs_stream_id = 31,
      rs_len = 35, rs_fin = True\<rparr>" using S(13) by (simp_all add: sent stream_of_def)
  have rr2: "runtime_ready bld st2 0" and lay2: "conn_layout (conn_of st2) = conn_layout (conn_of st)"
    using runtime_ready_setup [OF S(1), of st2] B rt2(1) S(12) by (simp_all add: answered_def idle_queue_def same_setup_def)
  define st3 where "st3 = upd_rt 0 (\<lambda>r. r\<lparr>rt_received_fin := True\<rparr>) st2"
  define st4 where "st4 = st3\<lparr>sh_mem := mem_zero (sh_mem st3) query 35\<rparr>"
  have same: "sh_adapter st3 = sh_adapter st2" "sh_queue st3 = sh_queue st2" "sh_mem st3 = sh_mem st2" "capture st3 = capture st2"
    by (simp_all add: st3_def upd_rt_def upd_stream_def)
  have rt: "rt_stream_id (rt_of st4 0) = 31" and ne: "tr_streams (sh_ctx st4) \<noteq> []"
    using rt2 rt0 by (simp_all add: st4_def st3_def upd_rt_def upd_stream_def stream_of_def)
  have "runtime_ready bld st3 0" using rr2 rt2(2) by (simp add: st3_def)
  then have rr: "runtime_ready bld st4 0" and len: "ism_shell_event_queue_len (queue_at Obj st3) = 0"
    using idle_len [of st3] runtime_readyD(2,3) [of bld st3 0] by (simp_all add: st4_def idle_queue_def)
  obtain st5 where D: "ism_msquic_runtime_on_send_complete bld (Some 0) 35 False st4 = (True, st5)" "finished bld st4 0 st5"
    by (rule complete_only [OF rr, of 35]) (use B sent(1) rt in \<open>simp_all add: st4_def same answered_def\<close>)
  have "run_checks ps st5"
    using D(2) finished_storage [OF D(2) ne] lay2 by (intro rest) (simp_all add: finished_def st4_def same)
  then show ?thesis
    using A B S(6) len D on_receive_one [OF rr0] rt2(3)
    by (simp add: smoke_runtime_answer_def check_defs st0_def [symmetric] st3_def [symmetric] same runtime_queue_len_def
        st4_def [symmetric] finished_def answered_def no_capture_def) (simp add: st4_def same rt2(3) D(1) [unfolded st4_def])
qed

section \<open>The whole test\<close>

lemma smoke_runtime:
  assumes pl: "placed bld response 128 send_buffer 128 st" "placed bld reset_response 128 reset_send_buffer 128 st"
    and arr: "array_at bld st query exact_a_query" "array_at bld st ingress_buffer (replicate 64 0)"
      "array_at bld st reset_ingress_buffer (replicate 4 0)" "array_at bld st partial partial_length_prefix"
    and has: "has_storage st"
    and sep: "ranges_disjoint query 35 ingress_buffer 64" "apart_from query 35 response send_buffer"
      "apart_from ingress_buffer 35 response send_buffer"
  shows "ism_smoke_msquic_runtime bld response send_buffer ingress_buffer query
    reset_response reset_send_buffer reset_ingress_buffer partial undersized_ingress_buffer st"
  unfolding ism_smoke_msquic_runtime_def
proof (rule smoke_answer_rest [OF pl(1) arr(2) _ arr(1) has sep])
  fix st' :: runtime_vars assume st': "has_storage st'" "conn_layout (conn_of st') = conn_layout (conn_of st)"
  have null: "partial \<noteq> NULL" "query \<noteq> NULL" using arr by (simp_all add: array_at_def)
  have len: "length (conn_streams (conn_of st)) = 4" using pl by (simp add: placed_def)
  have ib: "array_at bld st' reset_ingress_buffer (mem_bytes (sh_mem st') reset_ingress_buffer 4)"
    by (rule array_at_moved [OF arr(3) st'(2) len]) simp
  show "run_checks (smoke_runtime_reset bld reset_response reset_send_buffer reset_ingress_buffer partial @
      smoke_runtime_undersized bld undersized_ingress_buffer query) st'"
    by (rule smoke_reset_rest [OF placed_moved [OF pl(2) st'(2)] ib _ st'(1) null(1)])
      (simp_all add: smoke_undersized_passes null(2))
qed simp

end
