(* ===== verification/Smoke_Connection.thy ===== *)
theory Smoke_Connection
  imports Smoke_Runtime
begin

text \<open>
  The connection test \<^verbatim>\<open>src/shell/msquic_connection_smoke.c\<close> as a program over the model: a fake MsQuic
  function table that records its calls, a listener and a connection with one stream slot, two
  streams served one after the other (the second one aborted while its response is sent), the
  refusals of a stream without a slot, and the protocol errors that close the connection.
\<close>

section \<open>The fake MsQuic\<close>

text \<open>A callback and its context are one value: the connection's is the runtime, a stream's its slot.\<close>

record connection_smoke_state =
  ws_connection :: hquic
  ws_configuration :: hquic
  ws_stream :: hquic
  ws_closed_connections :: "hquic list"
  ws_closed_streams :: "hquic list"
  ws_closed_connection_count :: u32
  ws_closed_stream_count :: u32
  ws_set_callback_count :: u32
  ws_get_param_count :: u32
  ws_set_configuration_count :: u32
  ws_stream_id_len :: u32
  ws_stream_id :: u64
  ws_connection_handler :: "quic_callback option"
  ws_stream_handler :: "quic_callback option"
  ws_send_buffers :: "(u32 \<times> addr) option"
  ws_send_client_context :: "nat option"
  ws_send_fin :: bool
  ws_stream_send_count :: u32
  ws_get_param_should_fail :: bool

definition smoke_set_callback_handler ::
  "hquic \<Rightarrow> quic_callback \<Rightarrow> connection_smoke_state \<Rightarrow> connection_smoke_state" where
  "smoke_set_callback_handler handle handler w =
     (let w1 = w\<lparr>ws_set_callback_count := ws_set_callback_count w + 1\<rparr> in
      if handle = ws_connection w1 then w1\<lparr>ws_connection_handler := Some handler\<rparr>
      else if handle = ws_stream w1 then w1\<lparr>ws_stream_handler := Some handler\<rparr>
      else w1)"

text \<open>The caller asks for the stream ID with a zeroed variable of eight bytes.\<close>

definition smoke_get_param ::
  "hquic \<Rightarrow> connection_smoke_state \<Rightarrow> quic_status \<times> u32 \<times> u64 \<times> connection_smoke_state" where
  "smoke_get_param handle w =
     (if handle \<noteq> ws_stream w \<or> ws_get_param_should_fail w then (QUIC_STATUS_INVALID_PARAMETER, 8, 0, w)
      else (QUIC_STATUS_SUCCESS, ws_stream_id_len w, ws_stream_id w,
        w\<lparr>ws_get_param_count := ws_get_param_count w + 1\<rparr>))"

definition smoke_connection_set_configuration ::
  "hquic \<Rightarrow> hquic \<Rightarrow> connection_smoke_state \<Rightarrow> quic_status \<times> connection_smoke_state" where
  "smoke_connection_set_configuration connection configuration w =
     (if connection \<noteq> ws_connection w \<or> configuration \<noteq> ws_configuration w then (QUIC_STATUS_INVALID_PARAMETER, w)
      else (QUIC_STATUS_SUCCESS, w\<lparr>ws_set_configuration_count := ws_set_configuration_count w + 1\<rparr>))"

definition smoke_connection_close :: "hquic \<Rightarrow> connection_smoke_state \<Rightarrow> connection_smoke_state" where
  "smoke_connection_close connection w =
     (if ws_closed_connection_count w \<ge> 2 then w
      else w\<lparr>ws_closed_connections := (ws_closed_connections w)[unat (ws_closed_connection_count w) := connection],
        ws_closed_connection_count := ws_closed_connection_count w + 1\<rparr>)"

definition smoke_stream_close :: "hquic \<Rightarrow> connection_smoke_state \<Rightarrow> connection_smoke_state" where
  "smoke_stream_close stream w =
     (if ws_closed_stream_count w \<ge> 4 then w
      else w\<lparr>ws_closed_streams := (ws_closed_streams w)[unat (ws_closed_stream_count w) := stream],
        ws_closed_stream_count := ws_closed_stream_count w + 1\<rparr>)"

definition smoke_stream_send ::
  "hquic \<Rightarrow> addr \<Rightarrow> u32 \<Rightarrow> bool \<Rightarrow> nat \<Rightarrow> mem \<Rightarrow> connection_smoke_state \<Rightarrow> quic_status \<times> connection_smoke_state" where
  "smoke_stream_send stream data len fin client_send_context m w =
     (if stream \<noteq> ws_stream w \<or> data = NULL \<or> len = 0 then (QUIC_STATUS_INVALID_PARAMETER, w)
      else (QUIC_STATUS_SUCCESS, w\<lparr>ws_send_buffers := Some (len, data),
        ws_send_client_context := Some client_send_context, ws_send_fin := fin,
        ws_stream_send_count := ws_stream_send_count w + 1\<rparr>))"

definition smoke_api :: "connection_smoke_state quic_api" where
  "smoke_api = \<lparr>StreamSend = Some smoke_stream_send, ConnectionShutdown = None, StreamClose = smoke_stream_close,
     SetCallbackHandler = smoke_set_callback_handler, GetParam = smoke_get_param,
     ConnectionSetConfiguration = smoke_connection_set_configuration, ConnectionClose = Some smoke_connection_close\<rparr>"

definition smoke_start :: connection_smoke_state where
  "smoke_start = \<lparr>ws_connection = 1, ws_configuration = 2, ws_stream = 3, ws_closed_connections = [0, 0],
     ws_closed_streams = [0, 0, 0, 0], ws_closed_connection_count = 0, ws_closed_stream_count = 0,
     ws_set_callback_count = 0, ws_get_param_count = 0, ws_set_configuration_count = 0, ws_stream_id_len = 8,
     ws_stream_id = 41, ws_connection_handler = None, ws_stream_handler = None, ws_send_buffers = None,
     ws_send_client_context = None, ws_send_fin = False, ws_stream_send_count = 0, ws_get_param_should_fail = False\<rparr>"

section \<open>The program\<close>

type_synonym conn_vars = "connection_smoke_state rt_state"

abbreviation world :: "conn_vars \<Rightarrow> connection_smoke_state" where
  "world st \<equiv> tr_world (sh_ctx st)"

definition smoke_runtime_record ::
  "connection_smoke_state ism_msquic_connection_runtime \<Rightarrow> connection_smoke_state ism_msquic_connection_runtime option" where
  "smoke_runtime_record raw = ism_msquic_connection_runtime_init (Some raw) (Some smoke_api) 2 Obj Obj Obj 1"

definition smoke_conn_setup ::
  "connection_smoke_state ism_msquic_connection_runtime \<Rightarrow> addr \<Rightarrow> addr \<Rightarrow> addr \<Rightarrow> conn_vars \<Rightarrow> conn_vars" where
  "smoke_conn_setup raw response_buffer send_buffer ingress_buffer st =
     (let st1 = upd_world (\<lambda>_. smoke_start) st;
          st2 = ism_msquic_adapter_init Obj response_buffer 128 send_buffer 128
            (Some (ism_msquic_connection_runtime_send (smoke_runtime_record raw))) (sh_ctx st1) st1;
          st3 = put_queue (ism_shell_event_queue_init (queue_at Obj st2) (q_events (sh_queue st2)) 2) st2 in
      ism_msquic_connection_stream_slot_init (Some 0) ingress_buffer 64 st3)"

text \<open>A call whose status must not fail, and one that must return a given status.\<close>

definition accepted :: "('w rt_state \<Rightarrow> quic_status \<times> 'w rt_state) \<Rightarrow> 'w rt_state check" where
  "accepted f st = (case f st of (status, st') \<Rightarrow> (\<not> tr_failed (sh_ctx st') status, st'))"

text \<open>The stream handler and its context, as the fake table recorded them.\<close>

definition stream_handler :: "build \<Rightarrow> quic_stream_event \<Rightarrow> conn_vars \<Rightarrow> quic_status \<times> conn_vars" where
  "stream_handler bld event st =
     (case ws_stream_handler (world st) of
        Some (StreamCallback i) \<Rightarrow> ism_msquic_connection_runtime_stream_callback bld (Some i) (Some event) st
      | _ \<Rightarrow> (QUIC_STATUS_INVALID_PARAMETER, st))"

definition receive_event :: "addr \<Rightarrow> quic_stream_event" where
  "receive_event query = QUIC_STREAM_EVENT_RECEIVE (Some [(query, 35)]) 1 True"

definition smoke_accept :: "connection_smoke_state ism_msquic_connection_runtime option \<Rightarrow> conn_vars check list" where
  "smoke_accept runtime =
     [accepted (ism_msquic_connection_runtime_listener_callback runtime (Some (QUIC_LISTENER_EVENT_NEW_CONNECTION 1))),
      holds (\<lambda>st. ws_set_callback_count (world st) = 1 \<and> ws_connection_handler (world st) = Some ConnectionCallback \<and>
        ws_set_configuration_count (world st) = 1)]"

definition smoke_peer_stream ::
  "connection_smoke_state ism_msquic_connection_runtime option \<Rightarrow> addr \<Rightarrow> conn_vars check list" where
  "smoke_peer_stream runtime ingress_buffer =
     [accepted (\<lambda>st. ism_msquic_connection_runtime_connection_callback runtime 1
        (Some (QUIC_CONNECTION_EVENT_PEER_STREAM_STARTED (ws_stream (world st)))) st),
      holds (\<lambda>st. ws_get_param_count (world st) = 1 \<and> ws_set_callback_count (world st) = 2 \<and>
        ws_stream_handler (world st) = Some (StreamCallback 0) \<and> sl_in_use (slot_at st 0) \<and>
        sl_api (slot_at st 0) = Some smoke_api \<and> sl_stream (slot_at st 0) = ws_stream (world st) \<and>
        rt_adapter (rt_of st 0) = Obj \<and> rt_queue (rt_of st 0) = Obj \<and>
        rt_stream_id (rt_of st 0) = ws_stream_id (world st) \<and>
        rt_ingress_buffer (rt_of st 0) = ingress_buffer \<and> rt_ingress_capacity (rt_of st 0) = 64)]"

definition smoke_serve :: "build \<Rightarrow> addr \<Rightarrow> addr \<Rightarrow> conn_vars check list" where
  "smoke_serve bld send_buffer query =
     [accepted (stream_handler bld (receive_event query)),
      holds (\<lambda>st. ws_stream_send_count (world st) = 1 \<and> ws_send_buffers (world st) = Some (35, send_buffer) \<and>
        ws_send_fin (world st) \<and> ws_send_client_context (world st) = Some 0 \<and> rt_send_in_flight (rt_of st 0) \<and>
        ad_send_in_flight (sh_adapter st) \<and>
        mem_bytes (sh_mem st) send_buffer 35 = expected_validated_stream_response),
      accepted (\<lambda>st. stream_handler bld
        (QUIC_STREAM_EVENT_SEND_COMPLETE (ws_send_client_context (world st)) False) st),
      holds (\<lambda>st. \<not> rt_send_in_flight (rt_of st 0) \<and> \<not> ad_send_in_flight (sh_adapter st) \<and>
        cc_num (conn_ctx (conn_of st)) = 0),
      accepted (stream_handler bld QUIC_STREAM_EVENT_SHUTDOWN_COMPLETE),
      holds (\<lambda>st. \<not> sl_in_use (slot_at st 0) \<and> sl_stream (slot_at st 0) = 0 \<and> sl_api (slot_at st 0) = None \<and>
        ws_closed_stream_count (world st) = 1 \<and> ws_closed_streams (world st) ! 0 = ws_stream (world st))]"

definition smoke_aborted ::
  "build \<Rightarrow> connection_smoke_state ism_msquic_connection_runtime option \<Rightarrow> addr \<Rightarrow> conn_vars check list" where
  "smoke_aborted bld runtime query =
     [runs (upd_world (\<lambda>w. w\<lparr>ws_stream := 7, ws_stream_id := 43\<rparr>)),
      accepted (\<lambda>st. ism_msquic_connection_runtime_connection_callback runtime 1
        (Some (QUIC_CONNECTION_EVENT_PEER_STREAM_STARTED (ws_stream (world st)))) st),
      accepted (stream_handler bld (receive_event query)),
      holds (\<lambda>st. ws_stream_send_count (world st) = 2 \<and> rt_send_in_flight (rt_of st 0) \<and>
        ad_send_in_flight (sh_adapter st) \<and> cc_num (conn_ctx (conn_of st)) = 1),
      accepted (stream_handler bld QUIC_STREAM_EVENT_PEER_RECEIVE_ABORTED),
      holds (\<lambda>st. rt_send_in_flight (rt_of st 0) \<and> rt_reset_pending (rt_of st 0) \<and>
        ad_send_in_flight (sh_adapter st) \<and> cc_num (conn_ctx (conn_of st)) = 1),
      accepted (\<lambda>st. stream_handler bld
        (QUIC_STREAM_EVENT_SEND_COMPLETE (ws_send_client_context (world st)) True) st),
      holds (\<lambda>st. \<not> rt_send_in_flight (rt_of st 0) \<and> \<not> rt_reset_pending (rt_of st 0) \<and>
        \<not> ad_send_in_flight (sh_adapter st) \<and> cc_num (conn_ctx (conn_of st)) = 0),
      accepted (stream_handler bld QUIC_STREAM_EVENT_SHUTDOWN_COMPLETE),
      holds (\<lambda>st. \<not> sl_in_use (slot_at st 0) \<and> ws_closed_stream_count (world st) = 2 \<and>
        ws_closed_streams (world st) ! 1 = ws_stream (world st))]"

definition smoke_refused :: "connection_smoke_state ism_msquic_connection_runtime option \<Rightarrow> conn_vars check list" where
  "smoke_refused runtime =
     [accepted (ism_msquic_connection_runtime_connection_callback runtime 1
        (Some QUIC_CONNECTION_EVENT_SHUTDOWN_COMPLETE)),
      holds (\<lambda>st. ws_closed_connection_count (world st) = 1 \<and>
        ws_closed_connections (world st) ! 0 = ws_connection (world st)),
      runs (upd_world (\<lambda>w. w\<lparr>ws_stream := 5\<rparr>)),
      runs (upd_slot 0 (\<lambda>s. s\<lparr>sl_in_use := True\<rparr>)),
      yields (\<lambda>st. ism_msquic_connection_runtime_connection_callback runtime 1
        (Some (QUIC_CONNECTION_EVENT_PEER_STREAM_STARTED (ws_stream (world st)))) st) QUIC_STATUS_INVALID_STATE,
      holds (\<lambda>st. ws_closed_stream_count (world st) = 3 \<and> ws_closed_streams (world st) ! 2 = ws_stream (world st)),
      runs (upd_world (\<lambda>w. w\<lparr>ws_stream := 6, ws_get_param_should_fail := True\<rparr>)),
      runs (upd_slot 0 (\<lambda>s. s\<lparr>sl_in_use := False\<rparr>)),
      yields (\<lambda>st. ism_msquic_connection_runtime_connection_callback runtime 1
        (Some (QUIC_CONNECTION_EVENT_PEER_STREAM_STARTED (ws_stream (world st)))) st) QUIC_STATUS_INVALID_STATE,
      holds (\<lambda>st. ws_closed_stream_count (world st) = 4 \<and> ws_closed_streams (world st) ! 3 = ws_stream (world st))]"

definition smoke_connection ::
  "build \<Rightarrow> connection_smoke_state ism_msquic_connection_runtime \<Rightarrow> addr \<Rightarrow> addr \<Rightarrow> addr \<Rightarrow> addr \<Rightarrow> conn_vars \<Rightarrow> bool" where
  "smoke_connection bld raw response_buffer send_buffer ingress_buffer query =
     (let runtime = smoke_runtime_record raw in
      run_checks
        (runs (smoke_conn_setup raw response_buffer send_buffer ingress_buffer) #
         smoke_accept runtime @ smoke_peer_stream runtime ingress_buffer @ smoke_serve bld send_buffer query @
         smoke_aborted bld runtime query @ smoke_refused runtime))"

section \<open>The state between the calls\<close>

definition smoke_cr :: "connection_smoke_state ism_msquic_connection_runtime" where
  "smoke_cr = \<lparr>cr_api = Some smoke_api, cr_configuration = 2, cr_adapter = Obj, cr_queue = Obj,
     cr_stream_slots = Obj, cr_stream_slot_count = 1\<rparr>"

lemma smoke_runtime_record_eq: "smoke_runtime_record raw = Some smoke_cr"
  by (cases raw) (simp add: smoke_runtime_record_def ism_msquic_connection_runtime_init_def smoke_cr_def)

lemma smoke_cr_simps [simp]:
  "cr_api smoke_cr = Some smoke_api" "cr_configuration smoke_cr = 2" "cr_adapter smoke_cr = Obj" "cr_queue smoke_cr = Obj"
  "cr_stream_slots smoke_cr = Obj" "cr_stream_slot_count smoke_cr = 1"
  by (simp_all add: smoke_cr_def)

definition conn_base :: "build \<Rightarrow> addr \<Rightarrow> addr \<Rightarrow> addr \<Rightarrow> addr \<Rightarrow> conn_vars \<Rightarrow> bool" where
  "conn_base bld rb sb ib query st \<longleftrightarrow>
     adapter_inv bld st \<and> idle_queue st \<and>
     ad_send (sh_adapter st) = Some (ism_msquic_connection_runtime_send (Some smoke_cr)) \<and>
     ad_response_buffer (sh_adapter st) = rb \<and> ad_response_capacity (sh_adapter st) = 128 \<and>
     ad_send_buffer (sh_adapter st) = sb \<and> ad_send_capacity (sh_adapter st) = 128 \<and> rb \<noteq> NULL \<and> sb \<noteq> NULL \<and>
     array_at bld st query exact_a_query \<and> array_at bld st ib (mem_bytes (sh_mem st) ib 64) \<and>
     slots_ok smoke_cr st \<and> failed_codes (tr_failed (sh_ctx st)) \<and>
     sl_ingress_buffer (slot_at st 0) = ib \<and> sl_ingress_capacity (slot_at st 0) = 64"

text \<open>No stream is open, nothing is being sent.\<close>

definition conn_idle :: "build \<Rightarrow> addr \<Rightarrow> addr \<Rightarrow> addr \<Rightarrow> addr \<Rightarrow> conn_vars \<Rightarrow> bool" where
  "conn_idle bld rb sb ib query st \<longleftrightarrow> conn_base bld rb sb ib query st \<and> abs_table (conn_of st) = Map.empty \<and>
     \<not> ad_send_in_flight (sh_adapter st)"

text \<open>The response of the only stream is being sent.\<close>

definition conn_sending :: "build \<Rightarrow> addr \<Rightarrow> addr \<Rightarrow> addr \<Rightarrow> addr \<Rightarrow> u64 \<Rightarrow> conn_vars \<Rightarrow> bool" where
  "conn_sending bld rb sb ib query sid st \<longleftrightarrow> conn_base bld rb sb ib query st \<and> dom (abs_table (conn_of st)) = {sid} \<and>
     ad_send_in_flight (sh_adapter st) \<and> ad_send_stream_id (sh_adapter st) = sid \<and> ad_send_len (sh_adapter st) = 35"

text \<open>The runtime stream of slot 0, idle and while it sends.\<close>

definition smoke_stream :: "addr \<Rightarrow> u64 \<Rightarrow> hquic \<Rightarrow> bool \<Rightarrow> connection_smoke_state ism_msquic_runtime_stream" where
  "smoke_stream ib sid h fin =
     (init_stream Obj Obj sid ib 64)\<lparr>rt_api := Some smoke_api, rt_stream := h, rt_connection := 1, rt_received_fin := fin\<rparr>"

definition smoke_sender ::
  "addr \<Rightarrow> addr \<Rightarrow> u64 \<Rightarrow> hquic \<Rightarrow> bool \<Rightarrow> bool \<Rightarrow> connection_smoke_state ism_msquic_runtime_stream" where
  "smoke_sender sb ib sid h fin pending =
     (smoke_stream ib sid h fin)\<lparr>rt_send_buffer := (35, sb), rt_response_len := 35, rt_send_in_flight := True,
       rt_reset_pending := pending\<rparr>"

lemma smoke_stream_simps [simp]:
  "rt_adapter (smoke_stream ib sid h fin) = Obj" "rt_queue (smoke_stream ib sid h fin) = Obj"
  "rt_stream_id (smoke_stream ib sid h fin) = sid" "rt_ingress_buffer (smoke_stream ib sid h fin) = ib"
  "rt_ingress_capacity (smoke_stream ib sid h fin) = 64" "rt_received_fin (smoke_stream ib sid h fin) = fin"
  "rt_api (smoke_stream ib sid h fin) = Some smoke_api" "rt_stream (smoke_stream ib sid h fin) = h"
  "rt_connection (smoke_stream ib sid h fin) = 1" "rt_send_in_flight (smoke_stream ib sid h fin) = False"
  "rt_reset_pending (smoke_stream ib sid h fin) = False"
  "rt_adapter (smoke_sender sb ib sid h fin p) = Obj" "rt_queue (smoke_sender sb ib sid h fin p) = Obj"
  "rt_stream_id (smoke_sender sb ib sid h fin p) = sid" "rt_ingress_buffer (smoke_sender sb ib sid h fin p) = ib"
  "rt_ingress_capacity (smoke_sender sb ib sid h fin p) = 64" "rt_send_in_flight (smoke_sender sb ib sid h fin p)"
  "rt_response_len (smoke_sender sb ib sid h fin p) = 35" "rt_reset_pending (smoke_sender sb ib sid h fin p) = p"
  "(smoke_sender sb ib sid h fin p)\<lparr>rt_send_buffer := (0, NULL), rt_response_len := 0, rt_send_in_flight := False,
     rt_reset_pending := False\<rparr> = smoke_stream ib sid h fin"
  "(smoke_sender sb ib sid h fin p)\<lparr>rt_reset_pending := q\<rparr> = smoke_sender sb ib sid h fin q"
  by (simp_all add: smoke_stream_def smoke_sender_def init_stream_def)

lemma conn_baseD:
  assumes "conn_base bld rb sb ib query st"
  shows "adapter_inv bld st" "idle_queue st" "length (tr_slots (sh_ctx st)) = 1" "length (tr_streams (sh_ctx st)) = 1"
    "failed_codes (tr_failed (sh_ctx st))"
  using assms by (simp_all add: conn_base_def slots_ok_def)

text \<open>What a step must keep.\<close>

lemma base_step:
  assumes base: "conn_base bld rb sb ib query st" and inv: "adapter_inv bld st'" "idle_queue st'" and stp: "same_setup st st'"
    and query: "mem_bytes (sh_mem st') query 35 = exact_a_query"
    and tr: "length (tr_streams (sh_ctx st')) = 1" "length (tr_slots (sh_ctx st')) = 1"
      "tr_failed (sh_ctx st') = tr_failed (sh_ctx st)"
      "sl_ingress_buffer (slot_at st' 0) = ib" "sl_ingress_capacity (slot_at st' 0) = 64"
  shows "conn_base bld rb sb ib query st'"
proof -
  have lay: "conn_layout (conn_of st') = conn_layout (conn_of st)" using stp by (simp add: same_setup_def)
  have len: "length (conn_streams (conn_of st)) = 4" using conn_baseD(1) [OF base] by (rule adapter_invD)
  have "array_at bld st' query (mem_bytes (sh_mem st') query 35)" "array_at bld st' ib (mem_bytes (sh_mem st') ib 64)"
    using base array_at_moved [OF _ lay len, of bld query exact_a_query 35]
      array_at_moved [OF _ lay len, of bld ib "mem_bytes (sh_mem st) ib 64" 64] by (simp_all add: conn_base_def)
  with base inv stp query tr show ?thesis
    by (simp add: conn_base_def same_setup_def slots_ok_def)
qed

text \<open>A step of the transport alone.\<close>

lemma base_transport:
  assumes "conn_base bld rb sb ib query st" and "st' = st\<lparr>sh_ctx := c\<rparr>"
    and "length (tr_streams c) = 1" "length (tr_slots c) = 1" "tr_failed c = tr_failed (sh_ctx st)"
      "sl_ingress_buffer (slot_at st' 0) = ib" "sl_ingress_capacity (slot_at st' 0) = 64"
  shows "conn_base bld rb sb ib query st'"
  using assms(2-) conn_baseD [OF assms(1)]
  by (intro base_step [OF assms(1)]) (use assms(1) in \<open>simp_all add: idle_queue_def conn_base_def array_at_def\<close>)

lemma base_ready:
  assumes "conn_base bld rb sb ib query st" and "rt_adapter (rt_of st 0) = Obj" "rt_queue (rt_of st 0) = Obj"
    "rt_ingress_buffer (rt_of st 0) = ib" "rt_ingress_capacity (rt_of st 0) = 64"
  shows "runtime_ready bld st 0"
  using assms by (intro area_ready [of bld st 0 "mem_bytes (sh_mem st) ib 64"]) (simp_all add: conn_base_def)

section \<open>The calls\<close>

text \<open>A new stream takes the free slot.\<close>

lemma smoke_stream_started:
  assumes idle: "conn_idle bld rb sb ib query st" and free: "\<not> sl_in_use (slot_at st 0)" and ib: "ib \<noteq> NULL"
    and w: "ws_stream (world st) = h" "h \<noteq> 0" "h \<noteq> ws_connection (world st)" "ws_stream_id_len (world st) = 8"
      "\<not> ws_get_param_should_fail (world st)"
  obtains st' where "ism_msquic_connection_runtime_connection_callback (Some smoke_cr) 1
      (Some (QUIC_CONNECTION_EVENT_PEER_STREAM_STARTED h)) st = (QUIC_STATUS_SUCCESS, st')"
    "conn_idle bld rb sb ib query st'" "rt_of st' 0 = smoke_stream ib (ws_stream_id (world st)) h False"
    "slot_at st' 0 = (slot_at st 0)\<lparr>sl_api := Some smoke_api, sl_stream := h, sl_in_use := True\<rparr>"
    "world st' = (world st)\<lparr>ws_get_param_count := ws_get_param_count (world st) + 1,
      ws_set_callback_count := ws_set_callback_count (world st) + 1, ws_stream_handler := Some (StreamCallback 0)\<rparr>"
proof -
  have base: "conn_base bld rb sb ib query st" using idle by (simp add: conn_idle_def)
  note B = conn_baseD [OF base]
  let ?w = "(world st)\<lparr>ws_get_param_count := ws_get_param_count (world st) + 1\<rparr>"
  let ?r = "init_stream Obj Obj (ws_stream_id (world st)) ib 64"
  let ?st1 = "upd_slot 0 (\<lambda>s. s\<lparr>sl_api := Some smoke_api, sl_stream := h, sl_in_use := True\<rparr>)
    (upd_rt 0 (\<lambda>_. ?r\<lparr>rt_api := Some smoke_api, rt_stream := h\<rparr>) (upd_world (\<lambda>_. ?w) st))"
  obtain p st1 where al: "ism_msquic_connection_runtime_allocate_slot (Some smoke_cr) h st = (p, st1)" by fastforce
  have slot: "sl_ingress_buffer (slot_at st 0) = ib" "sl_ingress_capacity (slot_at st 0) = 64" "slots_ok smoke_cr st"
    using base by (simp_all add: conn_base_def)
  have get: "GetParam smoke_api h (world st) = (QUIC_STATUS_SUCCESS, 8, ws_stream_id (world st), ?w)"
    using w by (simp add: smoke_api_def smoke_get_param_def)
  have "slot_free st 0" using free ib slot by (simp add: slot_free_def)
  then have "\<not> (tr_failed (sh_ctx st) QUIC_STATUS_SUCCESS \<or> (8 :: u32) \<noteq> 8 \<or>
      (\<forall>i<unat (cr_stream_slot_count smoke_cr). \<not> slot_free st i))"
    using B(5) by (auto simp: failed_codes_def)
  from allocate_slot_cases [OF slot(3) smoke_cr_simps(1) w(2) get al, unfolded if_not_P [OF this]] slot
  have "p = Some 0 \<and> st1 = ?st1" by auto
  define st' where "st' = upd_world (smoke_set_callback_handler h (StreamCallback 0))
    (upd_rt 0 (\<lambda>r. r\<lparr>rt_connection := 1\<rparr>) ?st1)"
  with al \<open>p = Some 0 \<and> st1 = ?st1\<close>
  have run: "ism_msquic_connection_runtime_connection_callback (Some smoke_cr) 1
      (Some (QUIC_CONNECTION_EVENT_PEER_STREAM_STARTED h)) st = (QUIC_STATUS_SUCCESS, st')"
    by (simp add: ism_msquic_connection_runtime_connection_callback_def) (simp add: smoke_api_def)
  have rt: "rt_of st' 0 = smoke_stream ib (ws_stream_id (world st)) h False"
    using B(4) by (simp add: st'_def smoke_stream_def init_stream_def)
  have sl: "slot_at st' 0 = (slot_at st 0)\<lparr>sl_api := Some smoke_api, sl_stream := h, sl_in_use := True\<rparr>"
    using B(3) by (simp add: st'_def)
  have "conn_base bld rb sb ib query st'"
    by (rule base_transport [OF base, of _ "sh_ctx st'"])
      (use B(3,4) sl slot in \<open>simp_all add: st'_def upd_world_def upd_rt_def upd_slot_def upd_stream_def\<close>)
  then have "conn_idle bld rb sb ib query st'" using idle by (simp add: conn_idle_def st'_def)
  from that [OF run this rt sl] w show ?thesis by (simp add: st'_def smoke_set_callback_handler_def)
qed

text \<open>The send function finds the slot of the stream and submits the response.\<close>

lemma connection_send:
  assumes sl: "sl_in_use (tr_slots tr ! 0)" and rt: "stream_of tr 0 = smoke_stream ib sid h False" "length (tr_streams tr) = 1"
    and h: "h \<noteq> 0" "h = ws_stream (tr_world tr)" and args: "data \<noteq> NULL" "len \<noteq> 0" and codes: "failed_codes (tr_failed tr)"
  shows "ism_msquic_connection_runtime_send (Some smoke_cr) sid data len True m tr =
    (True, (upd_stream 0 (\<lambda>r. r\<lparr>rt_send_buffer := (len, data), rt_response_len := len, rt_send_in_flight := True,
        rt_reset_pending := False\<rparr>) tr)
      \<lparr>tr_world := (tr_world tr)\<lparr>ws_send_buffers := Some (len, data), ws_send_client_context := Some 0, ws_send_fin := True,
        ws_stream_send_count := ws_stream_send_count (tr_world tr) + 1\<rparr>\<rparr>)"
proof -
  have "StreamSend smoke_api = Some smoke_stream_send" by (simp add: smoke_api_def)
  moreover have "tr_failed (upd_stream i f tr) = tr_failed tr" "tr_world (upd_stream i f tr) = tr_world tr" for i f
    by (simp_all add: upd_stream_def)
  ultimately show ?thesis
    using assms by (simp add: ism_msquic_connection_runtime_send_def ism_msquic_runtime_send_def smoke_stream_send_def
        failed_codes_def Let_def)
qed

text \<open>The query of the bound stream is answered with one send.\<close>

definition smoke_separate :: "build \<Rightarrow> addr \<Rightarrow> addr \<Rightarrow> addr \<Rightarrow> addr \<Rightarrow> bool" where
  "smoke_separate bld rb sb ib query \<longleftrightarrow> question_validator (check_question bld) \<and>
     ranges_disjoint query 35 ib 64 \<and> apart_from query 35 rb sb \<and> apart_from ib 35 rb sb"

lemma receive_and_send:
  assumes idle: "conn_idle bld rb sb ib query st" and rt: "rt_of st 0 = smoke_stream ib sid h False"
    and sl: "sl_in_use (slot_at st 0)" and h: "h \<noteq> 0" "ws_stream (world st) = h" and sep: "smoke_separate bld rb sb ib query"
  obtains st' where "ism_msquic_runtime_stream_callback bld (Some 0) (Some (receive_event query)) st = (QUIC_STATUS_SUCCESS, st')"
    "conn_sending bld rb sb ib query sid st'" "rt_of st' 0 = smoke_sender sb ib sid h True False"
    "slot_at st' 0 = slot_at st 0" "mem_bytes (sh_mem st') sb 35 = expected_validated_stream_response"
    "world st' = (world st)\<lparr>ws_send_buffers := Some (35, sb), ws_send_client_context := Some 0, ws_send_fin := True,
      ws_stream_send_count := ws_stream_send_count (world st) + 1\<rparr>"
proof -
  have base: "conn_base bld rb sb ib query st" and tab: "abs_table (conn_of st) = Map.empty"
    and free: "\<not> ad_send_in_flight (sh_adapter st)" using idle by (simp_all add: conn_idle_def)
  note B = conn_baseD [OF base]
  let ?f = "ism_msquic_connection_runtime_send (Some smoke_cr)"
  have bufs: "ad_send (sh_adapter st) = Some ?f" "ad_response_buffer (sh_adapter st) = rb" "ad_response_capacity (sh_adapter st) = 128"
      "ad_send_buffer (sh_adapter st) = sb" "ad_send_capacity (sh_adapter st) = 128" "rb \<noteq> NULL" "sb \<noteq> NULL"
    and arr: "array_at bld st query exact_a_query" "array_at bld st ib (mem_bytes (sh_mem st) ib 64)"
    and slot: "sl_ingress_buffer (slot_at st 0) = ib" "sl_ingress_capacity (slot_at st 0) = 64"
    using base by (simp_all add: conn_base_def)
  have rr: "runtime_ready bld st 0" by (rule base_ready [OF base]) (simp_all add: rt)
  have rtf: "rt_stream_id (rt_of st 0) = sid" "\<not> rt_received_fin (rt_of st 0)" "rt_ingress_buffer (rt_of st 0) = ib"
      "rt_ingress_capacity (rt_of st 0) = 64"
    and sp: "question_validator (check_question bld)" "ranges_disjoint query 35 ib 64" "apart_from query 35 rb sb"
      "apart_from ib 35 rb sb"
    using rt sep by (simp_all add: smoke_separate_def)
  obtain st1 st2 where A: "receive_buffers bld (Some 0) [(query, 35)] st = (True, st1)" "sh_ctx st1 = sh_ctx st"
    "ism_msquic_runtime_on_fin bld (Some 0) st1 = (True, upd_rt 0 (\<lambda>r. r\<lparr>rt_received_fin := True\<rparr>) st2)"
    and An: "answered bld sid sb ib query ?f st st2"
    by (rule query_answered [OF rr tab rtf arr _ free bufs sp]) simp
  define st' where "st' = upd_rt 0 (\<lambda>r. r\<lparr>rt_received_fin := True\<rparr>) st2"
  have inuse: "sl_in_use (tr_slots (sh_ctx st) ! 0)" using sl by (simp add: slot_at_def)
  have len: "(35 :: u32) \<noteq> 0" by simp
  note sub = connection_send [OF inuse rt B(4) h(1) h(2) [symmetric] bufs(7) len B(5), of "sh_mem st2"]
  have call: "?f sid sb 35 True (sh_mem st2) (sh_ctx st) = (ad_send_in_flight (sh_adapter st2), sh_ctx st2)"
    using An unfolding answered_def by blast
  have sent: "ad_send_in_flight (sh_adapter st2)" and ctx2: "sh_ctx st2 = (upd_stream 0 (\<lambda>r. r\<lparr>rt_send_buffer := (35, sb),
        rt_response_len := 35, rt_send_in_flight := True, rt_reset_pending := False\<rparr>) (sh_ctx st))
      \<lparr>tr_world := (world st)\<lparr>ws_send_buffers := Some (35, sb), ws_send_client_context := Some 0, ws_send_fin := True,
        ws_stream_send_count := ws_stream_send_count (world st) + 1\<rparr>\<rparr>"
    using trans [OF call [symmetric] sub]
    by (simp_all only: prod.inject simp_thms)
  have run: "ism_msquic_runtime_stream_callback bld (Some 0) (Some (receive_event query)) st = (QUIC_STATUS_SUCCESS, st')"
    using A by (simp add: ism_msquic_runtime_stream_callback_def receive_event_def ism_msquic_runtime_on_msquic_receive_def st'_def)
  have rt': "rt_of st' 0 = smoke_sender sb ib sid h True False"
    using B(4) rt by (simp add: st'_def ctx2 upd_stream_def upd_rt_def stream_of_def smoke_sender_def smoke_stream_def)
  have sl': "slot_at st' 0 = slot_at st 0" by (simp add: st'_def ctx2 slot_at_def upd_stream_def)
  have "conn_base bld rb sb ib query st'"
    by (rule base_step [OF base])
      (use An B(3,4) slot sl' in \<open>simp_all add: answered_def st'_def ctx2 upd_stream_def upd_rt_def idle_queue_def same_setup_def\<close>)
  then have "conn_sending bld rb sb ib query sid st'"
    using An sent by (simp add: conn_sending_def st'_def answered_def)
  from that [OF run this rt' sl'] An show ?thesis by (simp add: st'_def ctx2 answered_def)
qed

text \<open>The completion of the send.\<close>

lemma send_completed:
  assumes sending: "conn_sending bld rb sb ib query sid st" and rt: "rt_of st 0 = smoke_sender sb ib sid h fin pending"
  obtains st' where "ism_msquic_runtime_stream_callback bld (Some 0)
      (Some (QUIC_STREAM_EVENT_SEND_COMPLETE (Some 0) canceled)) st = (QUIC_STATUS_SUCCESS, st')"
    "conn_idle bld rb sb ib query st'" "rt_of st' 0 = smoke_stream ib sid h fin" "slot_at st' 0 = slot_at st 0" "world st' = world st"
    "cc_num (conn_ctx (conn_of st')) = 0"
proof -
  have base: "conn_base bld rb sb ib query st" using sending by (simp add: conn_sending_def)
  note B = conn_baseD [OF base]
  define st1 where "st1 = upd_rt 0 (\<lambda>r. r\<lparr>rt_send_buffer := (0, NULL), rt_response_len := 0,
    rt_send_in_flight := False, rt_reset_pending := False\<rparr>) st"
  have rt1: "rt_of st1 0 = smoke_stream ib sid h fin" using rt B(4) by (simp add: st1_def)
  have slot: "sl_ingress_buffer (slot_at st1 0) = ib" "sl_ingress_capacity (slot_at st1 0) = 64"
    using base by (simp_all add: conn_base_def st1_def)
  have base1: "conn_base bld rb sb ib query st1"
    by (rule base_transport [OF base, of _ "sh_ctx st1"]) (use B(3,4) slot in \<open>simp_all add: st1_def upd_rt_def upd_stream_def\<close>)
  have rr: "runtime_ready bld st1 0" by (rule base_ready [OF base1]) (simp_all add: rt1)
  obtain st2 where D: "ism_msquic_runtime_on_send_complete bld (Some 0) 35 (canceled \<or> pending) st1 = (True, st2)"
      "finished bld st1 0 st2"
    by (rule complete_only [OF rr, of 35]) (use sending rt1 in \<open>simp_all add: conn_sending_def st1_def\<close>)
  have "ism_msquic_runtime_stream_callback bld (Some 0)
      (Some (QUIC_STREAM_EVENT_SEND_COMPLETE (Some 0) canceled)) st = (QUIC_STATUS_SUCCESS, st2)"
    using sending rt D(1) by (simp add: ism_msquic_runtime_stream_callback_def Let_def st1_def conn_sending_def)
  moreover have "rt_of st2 0 = smoke_stream ib sid h fin" "slot_at st2 0 = slot_at st 0" "world st2 = world st"
      "cc_num (conn_ctx (conn_of st2)) = 0"
    using D(2) rt1 B(3) by (simp_all add: finished_def slot_at_def) (simp_all add: st1_def)
  moreover have "conn_base bld rb sb ib query st2"
    by (rule base_step [OF base1])
      (use D(2) runtime_readyD(1-3) [of bld st2 0] conn_baseD [OF base1] slot base1
        in \<open>simp_all add: finished_def idle_queue_def slot_at_def conn_base_def array_at_def\<close>)
  ultimately show ?thesis using D(2) that [of st2] by (simp add: conn_idle_def finished_def)
qed

text \<open>An abort while the response is sent is only noted.\<close>

lemma abort_noted:
  assumes sending: "conn_sending bld rb sb ib query sid st" and rt: "rt_of st 0 = smoke_sender sb ib sid h fin pending"
  obtains st' where "ism_msquic_runtime_stream_callback bld (Some 0)
      (Some QUIC_STREAM_EVENT_PEER_RECEIVE_ABORTED) st = (QUIC_STATUS_SUCCESS, st')"
    "conn_sending bld rb sb ib query sid st'" "rt_of st' 0 = smoke_sender sb ib sid h fin True" "slot_at st' 0 = slot_at st 0"
    "world st' = world st"
proof -
  have base: "conn_base bld rb sb ib query st" using sending by (simp add: conn_sending_def)
  note B = conn_baseD [OF base]
  let ?st = "upd_rt 0 (\<lambda>r. r\<lparr>rt_reset_pending := True\<rparr>) st"
  have slot: "sl_ingress_buffer (slot_at st 0) = ib" "sl_ingress_capacity (slot_at st 0) = 64"
    using base by (simp_all add: conn_base_def)
  have "conn_base bld rb sb ib query ?st"
    by (rule base_transport [OF base, of _ "sh_ctx ?st"])
      (use B(3,4) slot in \<open>simp_all add: upd_rt_def upd_stream_def slot_at_def\<close>)
  then have "conn_sending bld rb sb ib query sid ?st" using sending by (simp add: conn_sending_def)
  with that [of ?st] rt B(4) show ?thesis by (simp add: ism_msquic_runtime_stream_callback_def)
qed

text \<open>Shutdown of an idle stream closes the handle and frees the slot.\<close>

lemma smoke_stream_shut:
  assumes idle: "conn_idle bld rb sb ib query st" and rt: "rt_of st 0 = smoke_stream ib sid h fin"
    and sl: "sl_api (slot_at st 0) = Some smoke_api" "sl_stream (slot_at st 0) = h" "h \<noteq> 0"
  obtains st' where "ism_msquic_connection_runtime_stream_callback bld (Some 0)
      (Some QUIC_STREAM_EVENT_SHUTDOWN_COMPLETE) st = (QUIC_STATUS_SUCCESS, st')"
    "conn_idle bld rb sb ib query st'" "world st' = smoke_stream_close h (world st)"
    "slot_at st' 0 = (slot_at st 0)\<lparr>sl_api := None, sl_stream := 0, sl_in_use := False\<rparr>"
proof -
  have base: "conn_base bld rb sb ib query st" and tab: "abs_table (conn_of st) = Map.empty"
    and free: "\<not> ad_send_in_flight (sh_adapter st)" using idle by (simp_all add: conn_idle_def)
  note B = conn_baseD [OF base]
  have slot: "sl_ingress_buffer (slot_at st 0) = ib" "sl_ingress_capacity (slot_at st 0) = 64"
    and query: "mem_bytes (sh_mem st) query 35 = exact_a_query"
    using base by (simp_all add: conn_base_def array_at_def)
  have rr: "runtime_ready bld st 0" by (rule base_ready [OF base]) (simp_all add: rt)
  obtain st1 where R: "ism_msquic_runtime_on_stream_reset bld (Some 0) st = (True, st1)" "finished bld st 0 st1"
    by (rule reset_only [OF rr]) (use tab free in simp_all)
  have ctx: "sh_ctx st1 = sh_ctx st" "sh_mem st1 = sh_mem st" "same_setup st st1" "abs_table (conn_of st1) = Map.empty"
      "\<not> ad_send_in_flight (sh_adapter st1)" "adapter_inv bld st1" "idle_queue st1"
    using R(2) runtime_readyD(1-3) [of bld st1 0] by (simp_all add: finished_def idle_queue_def)
  then have at1: "slot_at st1 0 = slot_at st 0" by (simp add: slot_at_def)
  define st2 where "st2 = ism_msquic_connection_runtime_release_slot (Some 0) st1"
  have l1: "0 < length (tr_slots (sh_ctx st1))" "0 < length (tr_streams (sh_ctx st1))" using B(3,4) ctx(1) by simp_all
  have s1: "sl_api (slot_at st1 0) = Some smoke_api" "sl_stream (slot_at st1 0) \<noteq> 0" using at1 sl by simp_all
  note L = release_slot [OF l1 s1 st2_def [symmetric], unfolded at1 ctx(1)]
  have "ism_msquic_runtime_stream_callback bld (Some 0) (Some QUIC_STREAM_EVENT_SHUTDOWN_COMPLETE) st = (QUIC_STATUS_SUCCESS, st1)"
    using rt R(1) by (simp add: ism_msquic_runtime_stream_callback_def)
  then have run: "ism_msquic_connection_runtime_stream_callback bld (Some 0)
      (Some QUIC_STREAM_EVENT_SHUTDOWN_COMPLETE) st = (QUIC_STATUS_SUCCESS, st2)"
    using B(5) ctx(1) by (simp add: ism_msquic_connection_runtime_stream_callback_def failed_codes_def st2_def)
  have tr2: "length (tr_streams (sh_ctx st2)) = 1" "length (tr_slots (sh_ctx st2)) = 1" "tr_failed (sh_ctx st2) = tr_failed (sh_ctx st)"
    using B(3,4) ctx(1) by (simp_all add: st2_def ism_msquic_connection_runtime_release_slot_def Let_def
        ism_msquic_runtime_stream_init_def split: option.splits)
  have "conn_base bld rb sb ib query st2"
    by (rule base_step [OF base])
      (use L ctx query slot tr2 in \<open>simp_all add: adapter_inv_def buffers_separate_def idle_queue_def same_setup_def\<close>)
  then have "conn_idle bld rb sb ib query st2" using L(6) ctx by (simp add: conn_idle_def)
  from that [OF run this] L(1,2) sl(2) show ?thesis by (simp add: smoke_api_def)
qed

section \<open>The scenarios return true\<close>

lemma conn_idle_world [simp]: "conn_idle bld rb sb ib query (upd_world f st) = conn_idle bld rb sb ib query st"
  by (simp add: conn_idle_def conn_base_def upd_world_def idle_queue_def array_at_def slots_ok_def slot_at_def)

lemma conn_idle_failed: "conn_idle bld rb sb ib query st \<Longrightarrow> \<not> tr_failed (sh_ctx st) QUIC_STATUS_SUCCESS"
  and conn_sending_failed: "conn_sending bld rb sb ib query sid st \<Longrightarrow> \<not> tr_failed (sh_ctx st) QUIC_STATUS_SUCCESS"
  by (simp_all add: conn_idle_def conn_sending_def conn_base_def failed_codes_def)

lemma handler_step:
  assumes "ws_stream_handler (world st) = Some (StreamCallback 0)" and "ev \<noteq> QUIC_STREAM_EVENT_SHUTDOWN_COMPLETE"
  shows "stream_handler bld ev st = ism_msquic_runtime_stream_callback bld (Some 0) (Some ev) st"
  using assms by (simp add: stream_handler_def ism_msquic_connection_runtime_stream_callback_def split: prod.splits)

lemma handler_shutdown:
  assumes "ws_stream_handler (world st) = Some (StreamCallback 0)"
  shows "stream_handler bld ev st = ism_msquic_connection_runtime_stream_callback bld (Some 0) (Some ev) st"
  using assms by (simp add: stream_handler_def)

text \<open>The initialised program.\<close>

lemma conn_setup_idle:
  assumes pl: "placed bld rb 128 sb 128 st" and arr: "array_at bld st query exact_a_query" "array_at bld st ib area" "length area = 64"
    and q: "q_events (sh_queue st) = Some es" "2 \<le> length es"
    and tr: "length (tr_streams (sh_ctx st)) = 1" "length (tr_slots (sh_ctx st)) = 1" "failed_codes (tr_failed (sh_ctx st))"
    and st': "st' = smoke_conn_setup raw rb sb ib st"
  shows "conn_idle bld rb sb ib query st'" and "\<not> sl_in_use (slot_at st' 0)" and "world st' = smoke_start"
proof -
  define st1 where "st1 = upd_world (\<lambda>_. smoke_start) st"
  define st2 where "st2 = ism_msquic_adapter_init Obj rb 128 sb 128
    (Some (ism_msquic_connection_runtime_send (Some smoke_cr))) (sh_ctx st1) st1"
  define st3 where "st3 = put_queue (ism_shell_event_queue_init (queue_at Obj st2) (q_events (sh_queue st2)) 2) st2"
  have st4: "st' = ism_msquic_connection_stream_slot_init (Some 0) ib 64 st3"
    by (simp add: st' smoke_conn_setup_def Let_def st1_def st2_def st3_def smoke_runtime_record_eq)
  have pl1: "placed bld rb 128 sb 128 st1" by (rule placed_moved [OF pl]) (simp add: st1_def upd_world_def)
  note I = init_fresh [OF pl1 st2_def]
  have same: "sh_adapter st' = sh_adapter st2" "sh_mem st' = sh_mem st2" "world st' = smoke_start"
    using I(4) by (simp_all add: st4 st3_def ism_msquic_connection_stream_slot_init_def put_queue_def
        ism_shell_event_queue_init_def queue_at_def st1_def)
  have "q_events (sh_queue st2) = Some es" using q I(5) by (simp add: st1_def upd_world_def)
  then have idle: "idle_queue st'"
    using q(2) by (simp add: st4 st3_def ism_msquic_connection_stream_slot_init_def put_queue_def queue_at_def
        ism_shell_event_queue_init_def idle_queue_def queue_inv_def queue_items_def)
  have slot: "slot_at st' 0 = \<lparr>sl_api = None, sl_ingress_buffer = ib, sl_ingress_capacity = 64, sl_stream = 0, sl_in_use = False\<rparr>"
    and ctx: "length (tr_streams (sh_ctx st')) = 1" "length (tr_slots (sh_ctx st')) = 1" "tr_failed (sh_ctx st') = tr_failed (sh_ctx st)"
    using tr I(4) by (simp_all add: st4 st3_def ism_msquic_connection_stream_slot_init_def put_queue_def
        ism_shell_event_queue_init_def queue_at_def st1_def)
  have arr2: "array_at bld st' data bytes" if "array_at bld st data bytes" for data bytes
    using I(11) [of data bytes] that by (simp add: array_at_def same st1_def upd_world_def)
  have inv: "adapter_inv bld st'" using I(1) by (simp add: adapter_inv_def same buffers_separate_def)
  have "array_at bld st' ib (mem_bytes (sh_mem st') ib 64)"
    using arr2 [OF arr(2)] arr(3) by (simp add: array_at_def)
  then have "conn_base bld rb sb ib query st'"
    using inv idle I same slot ctx tr(3) arr2 [OF arr(1)] pl by (simp add: conn_base_def placed_def slots_ok_def)
  then show "conn_idle bld rb sb ib query st'" using I(2,3) by (simp add: conn_idle_def same)
  show "\<not> sl_in_use (slot_at st' 0)" "world st' = smoke_start" using slot same by simp_all
qed

lemma accept_rest:
  assumes idle: "conn_idle bld rb sb ib query st" and free: "\<not> sl_in_use (slot_at st 0)" and w: "world st = smoke_start"
    and rest: "\<And>st'. conn_idle bld rb sb ib query st' \<Longrightarrow> \<not> sl_in_use (slot_at st' 0) \<Longrightarrow>
      world st' = smoke_start\<lparr>ws_set_callback_count := 1, ws_connection_handler := Some ConnectionCallback,
        ws_set_configuration_count := 1\<rparr> \<Longrightarrow> run_checks ps st'"
  shows "run_checks (smoke_accept (Some smoke_cr) @ ps) st"
proof -
  let ?w = "smoke_start\<lparr>ws_set_callback_count := 1, ws_connection_handler := Some ConnectionCallback, ws_set_configuration_count := 1\<rparr>"
  have run: "ism_msquic_connection_runtime_listener_callback (Some smoke_cr) (Some (QUIC_LISTENER_EVENT_NEW_CONNECTION 1)) st =
      (QUIC_STATUS_SUCCESS, upd_world (\<lambda>_. ?w) st)"
    using w by (simp add: ism_msquic_connection_runtime_listener_callback_def ism_msquic_connection_runtime_accept_connection_def Let_def)
      (simp add: smoke_api_def smoke_set_callback_handler_def smoke_connection_set_configuration_def smoke_start_def upd_world_def)
  have "run_checks ps (upd_world (\<lambda>_. ?w) st)" using idle free by (intro rest) simp_all
  then show ?thesis
    using run conn_idle_failed [OF idle] by (simp add: smoke_accept_def check_defs accepted_def)
qed

text \<open>A stream from its start to its response in flight.\<close>

lemma started_and_answered:
  assumes idle: "conn_idle bld rb sb ib query st" and free: "\<not> sl_in_use (slot_at st 0)" and sep: "smoke_separate bld rb sb ib query"
    and w: "ws_stream (world st) = h" "h \<noteq> 0" "h \<noteq> ws_connection (world st)" "ws_stream_id_len (world st) = 8"
      "\<not> ws_get_param_should_fail (world st)" and sid: "ws_stream_id (world st) = sid"
  obtains st1 st2 where "ism_msquic_connection_runtime_connection_callback (Some smoke_cr) 1
      (Some (QUIC_CONNECTION_EVENT_PEER_STREAM_STARTED h)) st = (QUIC_STATUS_SUCCESS, st1)"
    "conn_idle bld rb sb ib query st1" "rt_of st1 0 = smoke_stream ib sid h False"
    "slot_at st1 0 = (slot_at st 0)\<lparr>sl_api := Some smoke_api, sl_stream := h, sl_in_use := True\<rparr>"
    "world st1 = (world st)\<lparr>ws_get_param_count := ws_get_param_count (world st) + 1,
      ws_set_callback_count := ws_set_callback_count (world st) + 1, ws_stream_handler := Some (StreamCallback 0)\<rparr>"
    "stream_handler bld (receive_event query) st1 = (QUIC_STATUS_SUCCESS, st2)"
    "conn_sending bld rb sb ib query sid st2" "rt_of st2 0 = smoke_sender sb ib sid h True False"
    "slot_at st2 0 = slot_at st1 0" "mem_bytes (sh_mem st2) sb 35 = expected_validated_stream_response"
    "world st2 = (world st1)\<lparr>ws_send_buffers := Some (35, sb), ws_send_client_context := Some 0, ws_send_fin := True,
      ws_stream_send_count := ws_stream_send_count (world st1) + 1\<rparr>"
proof -
  have ib: "ib \<noteq> NULL" using idle by (simp add: conn_idle_def conn_base_def array_at_def)
  obtain st1 where P: "ism_msquic_connection_runtime_connection_callback (Some smoke_cr) 1
      (Some (QUIC_CONNECTION_EVENT_PEER_STREAM_STARTED h)) st = (QUIC_STATUS_SUCCESS, st1)"
    "conn_idle bld rb sb ib query st1" "rt_of st1 0 = smoke_stream ib sid h False"
    "slot_at st1 0 = (slot_at st 0)\<lparr>sl_api := Some smoke_api, sl_stream := h, sl_in_use := True\<rparr>"
    "world st1 = (world st)\<lparr>ws_get_param_count := ws_get_param_count (world st) + 1,
      ws_set_callback_count := ws_set_callback_count (world st) + 1, ws_stream_handler := Some (StreamCallback 0)\<rparr>"
    by (rule smoke_stream_started [OF idle free ib w, unfolded sid])
  have w1: "ws_stream_handler (world st1) = Some (StreamCallback 0)" "ws_stream (world st1) = h" "sl_in_use (slot_at st1 0)"
    by (simp_all add: P(4,5) w(1))
  obtain st2 where R: "ism_msquic_runtime_stream_callback bld (Some 0) (Some (receive_event query)) st1 = (QUIC_STATUS_SUCCESS, st2)"
    "conn_sending bld rb sb ib query sid st2" "rt_of st2 0 = smoke_sender sb ib sid h True False"
    "slot_at st2 0 = slot_at st1 0" "mem_bytes (sh_mem st2) sb 35 = expected_validated_stream_response"
    "world st2 = (world st1)\<lparr>ws_send_buffers := Some (35, sb), ws_send_client_context := Some 0, ws_send_fin := True,
      ws_stream_send_count := ws_stream_send_count (world st1) + 1\<rparr>"
    by (rule receive_and_send [OF P(2,3) w1(3) w(2) w1(2) sep])
  have "stream_handler bld (receive_event query) st1 = (QUIC_STATUS_SUCCESS, st2)"
    using handler_step [OF w1(1), of "receive_event query" bld] R(1) by (simp add: receive_event_def)
  from that [OF P this R(2-6)] show ?thesis .
qed

text \<open>The completed send, then the shutdown of the stream.\<close>

lemma completed_and_shut:
  assumes sending: "conn_sending bld rb sb ib query sid st" and rt: "rt_of st 0 = smoke_sender sb ib sid h fin pending"
    and sl: "sl_api (slot_at st 0) = Some smoke_api" "sl_stream (slot_at st 0) = h" "h \<noteq> 0"
    and w: "ws_stream_handler (world st) = Some (StreamCallback 0)"
  obtains st1 st2 where "stream_handler bld (QUIC_STREAM_EVENT_SEND_COMPLETE (Some 0) canceled) st = (QUIC_STATUS_SUCCESS, st1)"
    "\<not> ad_send_in_flight (sh_adapter st1)" "rt_of st1 0 = smoke_stream ib sid h fin" "cc_num (conn_ctx (conn_of st1)) = 0"
    "\<not> tr_failed (sh_ctx st1) QUIC_STATUS_SUCCESS" "world st1 = world st"
    "stream_handler bld QUIC_STREAM_EVENT_SHUTDOWN_COMPLETE st1 = (QUIC_STATUS_SUCCESS, st2)"
    "conn_idle bld rb sb ib query st2" "world st2 = smoke_stream_close h (world st)"
    "slot_at st2 0 = (slot_at st 0)\<lparr>sl_api := None, sl_stream := 0, sl_in_use := False\<rparr>"
proof -
  obtain st1 where C: "ism_msquic_runtime_stream_callback bld (Some 0)
      (Some (QUIC_STREAM_EVENT_SEND_COMPLETE (Some 0) canceled)) st = (QUIC_STATUS_SUCCESS, st1)"
    "conn_idle bld rb sb ib query st1" "rt_of st1 0 = smoke_stream ib sid h fin"
    "slot_at st1 0 = slot_at st 0" "world st1 = world st" "cc_num (conn_ctx (conn_of st1)) = 0"
    by (rule send_completed [OF sending rt])
  obtain st2 where S: "ism_msquic_connection_runtime_stream_callback bld (Some 0)
      (Some QUIC_STREAM_EVENT_SHUTDOWN_COMPLETE) st1 = (QUIC_STATUS_SUCCESS, st2)"
    "conn_idle bld rb sb ib query st2" "world st2 = smoke_stream_close h (world st1)"
    "slot_at st2 0 = (slot_at st1 0)\<lparr>sl_api := None, sl_stream := 0, sl_in_use := False\<rparr>"
    by (rule smoke_stream_shut [OF C(2,3)]) (simp_all add: C(4) sl)
  have "stream_handler bld (QUIC_STREAM_EVENT_SEND_COMPLETE (Some 0) canceled) st = (QUIC_STATUS_SUCCESS, st1)"
      "stream_handler bld QUIC_STREAM_EVENT_SHUTDOWN_COMPLETE st1 = (QUIC_STATUS_SUCCESS, st2)"
    using handler_step [OF w, of "QUIC_STREAM_EVENT_SEND_COMPLETE (Some 0) canceled" bld] handler_shutdown [of st1 bld] C(1,5) S(1) w
    by simp_all
  with that [of st1 st2] C S show ?thesis by (simp add: conn_idle_failed) (simp add: conn_idle_def)
qed

text \<open>What the next stream needs of the fake MsQuic after \<open>n\<close> streams.\<close>

definition served_world :: "connection_smoke_state \<Rightarrow> u32 \<Rightarrow> bool" where
  "served_world w n \<longleftrightarrow> ws_connection w = 1 \<and> ws_stream_id_len w = 8 \<and> \<not> ws_get_param_should_fail w \<and>
     ws_closed_stream_count w = n \<and> length (ws_closed_streams w) = 4 \<and>
     ws_closed_connection_count w = 0 \<and> length (ws_closed_connections w) = 2 \<and> ws_stream_send_count w = n"

lemma serve_rest:
  assumes idle: "conn_idle bld rb sb ib query st" and free: "\<not> sl_in_use (slot_at st 0)" and sep: "smoke_separate bld rb sb ib query"
    and w: "world st = smoke_start\<lparr>ws_set_callback_count := 1, ws_connection_handler := Some ConnectionCallback,
        ws_set_configuration_count := 1\<rparr>"
    and rest: "\<And>st'. conn_idle bld rb sb ib query st' \<Longrightarrow> \<not> sl_in_use (slot_at st' 0) \<Longrightarrow> served_world (world st') 1 \<Longrightarrow>
      run_checks ps st'"
  shows "run_checks (smoke_peer_stream (Some smoke_cr) ib @ smoke_serve bld sb query @ ps) st"
proof -
  have w0: "ws_stream (world st) = 3" "3 \<noteq> ws_connection (world st)" "ws_stream_id_len (world st) = 8"
      "\<not> ws_get_param_should_fail (world st)" "ws_stream_id (world st) = 41" by (simp_all add: w smoke_start_def)
  obtain st1 st2 where P: "ism_msquic_connection_runtime_connection_callback (Some smoke_cr) 1
      (Some (QUIC_CONNECTION_EVENT_PEER_STREAM_STARTED 3)) st = (QUIC_STATUS_SUCCESS, st1)"
    "conn_idle bld rb sb ib query st1" "rt_of st1 0 = smoke_stream ib 41 3 False"
    "slot_at st1 0 = (slot_at st 0)\<lparr>sl_api := Some smoke_api, sl_stream := 3, sl_in_use := True\<rparr>"
    "world st1 = (world st)\<lparr>ws_get_param_count := ws_get_param_count (world st) + 1,
      ws_set_callback_count := ws_set_callback_count (world st) + 1, ws_stream_handler := Some (StreamCallback 0)\<rparr>"
    and R: "stream_handler bld (receive_event query) st1 = (QUIC_STATUS_SUCCESS, st2)"
    "conn_sending bld rb sb ib query 41 st2" "rt_of st2 0 = smoke_sender sb ib 41 3 True False"
    "slot_at st2 0 = slot_at st1 0" "mem_bytes (sh_mem st2) sb 35 = expected_validated_stream_response"
    "world st2 = (world st1)\<lparr>ws_send_buffers := Some (35, sb), ws_send_client_context := Some 0, ws_send_fin := True,
      ws_stream_send_count := ws_stream_send_count (world st1) + 1\<rparr>"
    by (rule started_and_answered [OF idle free sep w0(1) _ w0(2-5)]) simp
  obtain st3 st4 where C: "stream_handler bld (QUIC_STREAM_EVENT_SEND_COMPLETE (Some 0) False) st2 = (QUIC_STATUS_SUCCESS, st3)"
    "\<not> ad_send_in_flight (sh_adapter st3)" "rt_of st3 0 = smoke_stream ib 41 3 True" "cc_num (conn_ctx (conn_of st3)) = 0"
    "\<not> tr_failed (sh_ctx st3) QUIC_STATUS_SUCCESS" "world st3 = world st2"
    and S: "stream_handler bld QUIC_STREAM_EVENT_SHUTDOWN_COMPLETE st3 = (QUIC_STATUS_SUCCESS, st4)"
    "conn_idle bld rb sb ib query st4" "world st4 = smoke_stream_close 3 (world st2)"
    "slot_at st4 0 = (slot_at st2 0)\<lparr>sl_api := None, sl_stream := 0, sl_in_use := False\<rparr>"
    by (rule completed_and_shut [OF R(2,3)]) (simp_all add: R(4,6) P(4,5))
  have ok: "\<not> tr_failed (sh_ctx st1) QUIC_STATUS_SUCCESS" "\<not> tr_failed (sh_ctx st2) QUIC_STATUS_SUCCESS"
      "\<not> tr_failed (sh_ctx st4) QUIC_STATUS_SUCCESS" "ad_send_in_flight (sh_adapter st2)"
    using P(2) R(2) S(2) by (simp_all add: conn_idle_failed conn_sending_failed) (simp add: conn_sending_def)
  have w4: "world st4 = smoke_start\<lparr>ws_set_callback_count := 2, ws_connection_handler := Some ConnectionCallback,
      ws_set_configuration_count := 1, ws_get_param_count := 1, ws_stream_handler := Some (StreamCallback 0),
      ws_send_buffers := Some (35, sb), ws_send_client_context := Some 0, ws_send_fin := True, ws_stream_send_count := 1,
      ws_closed_streams := [3, 0, 0, 0], ws_closed_stream_count := 1\<rparr>"
    unfolding S(3) R(6) P(5) w by (simp add: smoke_stream_close_def smoke_start_def word_le_nat_alt)
  have "run_checks ps st4" using S(2,4) by (intro rest) (simp_all add: w4, simp_all add: smoke_start_def served_world_def)
  then show ?thesis
    using P(1) R(1,3,5) C(1-5) ok w4 S(1,4)
    by (simp add: smoke_peer_stream_def smoke_serve_def check_defs accepted_def w0(1) P(3-5) R(4,6) C(6))
      (simp add: w smoke_start_def)
qed

lemma cc_num_dom:
  assumes "conn_sending bld rb sb ib query sid st"
  shows "cc_num (conn_ctx (conn_of st)) = 1"
proof -
  have "shell_inv (conn_of st)" using assms adapter_invD(2) by (auto simp: conn_sending_def conn_base_def)
  then have "unat (cc_num (conn_ctx (conn_of st))) = 1" using cc_num_card assms by (simp add: conn_sending_def)
  then show ?thesis by (simp add: word_unat_eq_iff)
qed

lemma aborted_rest:
  assumes idle: "conn_idle bld rb sb ib query st" and free: "\<not> sl_in_use (slot_at st 0)" and sep: "smoke_separate bld rb sb ib query"
    and w: "served_world (world st) 1"
    and rest: "\<And>st'. conn_idle bld rb sb ib query st' \<Longrightarrow> \<not> sl_in_use (slot_at st' 0) \<Longrightarrow> served_world (world st') 2 \<Longrightarrow>
      run_checks ps st'"
  shows "run_checks (smoke_aborted bld (Some smoke_cr) query @ ps) st"
proof -
  define st0 where "st0 = upd_world (\<lambda>w. w\<lparr>ws_stream := 7, ws_stream_id := 43\<rparr>) st"
  have s0: "conn_idle bld rb sb ib query st0" "\<not> sl_in_use (slot_at st0 0)" using idle free by (simp_all add: st0_def)
  have w0: "ws_stream (world st0) = 7" "7 \<noteq> ws_connection (world st0)" "ws_stream_id_len (world st0) = 8"
      "\<not> ws_get_param_should_fail (world st0)" "ws_stream_id (world st0) = 43" using w by (simp_all add: st0_def served_world_def)
  obtain st1 st2 where P: "ism_msquic_connection_runtime_connection_callback (Some smoke_cr) 1
      (Some (QUIC_CONNECTION_EVENT_PEER_STREAM_STARTED 7)) st0 = (QUIC_STATUS_SUCCESS, st1)"
    "conn_idle bld rb sb ib query st1" "rt_of st1 0 = smoke_stream ib 43 7 False"
    "slot_at st1 0 = (slot_at st0 0)\<lparr>sl_api := Some smoke_api, sl_stream := 7, sl_in_use := True\<rparr>"
    "world st1 = (world st0)\<lparr>ws_get_param_count := ws_get_param_count (world st0) + 1,
      ws_set_callback_count := ws_set_callback_count (world st0) + 1, ws_stream_handler := Some (StreamCallback 0)\<rparr>"
    and R: "stream_handler bld (receive_event query) st1 = (QUIC_STATUS_SUCCESS, st2)"
    "conn_sending bld rb sb ib query 43 st2" "rt_of st2 0 = smoke_sender sb ib 43 7 True False"
    "slot_at st2 0 = slot_at st1 0" "mem_bytes (sh_mem st2) sb 35 = expected_validated_stream_response"
    "world st2 = (world st1)\<lparr>ws_send_buffers := Some (35, sb), ws_send_client_context := Some 0, ws_send_fin := True,
      ws_stream_send_count := ws_stream_send_count (world st1) + 1\<rparr>"
    by (rule started_and_answered [OF s0 sep w0(1) _ w0(2-5)]) simp
  have w2: "ws_stream_handler (world st2) = Some (StreamCallback 0)" by (simp add: R(6) P(5))
  obtain st3 where N: "ism_msquic_runtime_stream_callback bld (Some 0)
      (Some QUIC_STREAM_EVENT_PEER_RECEIVE_ABORTED) st2 = (QUIC_STATUS_SUCCESS, st3)"
    "conn_sending bld rb sb ib query 43 st3" "rt_of st3 0 = smoke_sender sb ib 43 7 True True" "slot_at st3 0 = slot_at st2 0"
    "world st3 = world st2"
    by (rule abort_noted [OF R(2,3)])
  have abort: "stream_handler bld QUIC_STREAM_EVENT_PEER_RECEIVE_ABORTED st2 = (QUIC_STATUS_SUCCESS, st3)"
    using handler_step [OF w2] N(1) by simp
  obtain st4 st5 where C: "stream_handler bld (QUIC_STREAM_EVENT_SEND_COMPLETE (Some 0) True) st3 = (QUIC_STATUS_SUCCESS, st4)"
    "\<not> ad_send_in_flight (sh_adapter st4)" "rt_of st4 0 = smoke_stream ib 43 7 True" "cc_num (conn_ctx (conn_of st4)) = 0"
    "\<not> tr_failed (sh_ctx st4) QUIC_STATUS_SUCCESS" "world st4 = world st3"
    and S: "stream_handler bld QUIC_STREAM_EVENT_SHUTDOWN_COMPLETE st4 = (QUIC_STATUS_SUCCESS, st5)"
    "conn_idle bld rb sb ib query st5" "world st5 = smoke_stream_close 7 (world st3)"
    "slot_at st5 0 = (slot_at st3 0)\<lparr>sl_api := None, sl_stream := 0, sl_in_use := False\<rparr>"
    by (rule completed_and_shut [OF N(2,3)]) (simp_all add: N(4,5) R(4,6) P(4,5))
  have ok: "\<not> tr_failed (sh_ctx st1) QUIC_STATUS_SUCCESS" "\<not> tr_failed (sh_ctx st2) QUIC_STATUS_SUCCESS"
      "\<not> tr_failed (sh_ctx st3) QUIC_STATUS_SUCCESS" "\<not> tr_failed (sh_ctx st5) QUIC_STATUS_SUCCESS"
      "ad_send_in_flight (sh_adapter st2)" "ad_send_in_flight (sh_adapter st3)"
    using P(2) R(2) N(2) S(2) by (simp_all add: conn_idle_failed conn_sending_failed) (simp_all add: conn_sending_def)
  have w2': "ws_stream_send_count (world st2) = 2" "ws_stream (world st2) = 7"
      "ws_send_client_context (world st2) = Some 0"
    using w by (simp_all add: R(6) P(5) st0_def served_world_def)
  have "ws_closed_stream_count (world st2) = 1" "length (ws_closed_streams (world st2)) = 4"
    using w by (simp_all add: R(6) P(5) st0_def served_world_def)
  then have w5: "served_world (world st5) 2" "ws_closed_streams (world st5) ! 1 = 7" "ws_stream (world st5) = 7"
    using w by (simp_all add: S(3) N(5) R(6) P(5) st0_def served_world_def smoke_stream_close_def word_le_nat_alt)
  have "run_checks ps st5" using S(2,4) w5(1) by (intro rest) simp_all
  then show ?thesis
    using P(1) R(1,3) abort N(3) C(1-5) S(1,4) ok w5 w2' cc_num_dom [OF R(2)] cc_num_dom [OF N(2)]
    by (simp add: smoke_aborted_def check_defs accepted_def st0_def [symmetric] w0(1) N(5) C(6)) (auto simp: served_world_def)
qed

text \<open>The connection closes; a stream without a slot or without an identifier is refused and closed.\<close>

lemma refused_passes:
  assumes idle: "conn_idle bld rb sb ib query st" and w: "served_world (world st) 2"
  shows "run_checks (smoke_refused (Some smoke_cr)) st"
proof -
  have base: "conn_base bld rb sb ib query st" using idle by (simp add: conn_idle_def)
  note B = conn_baseD [OF base]
  have close: "ism_msquic_connection_runtime_connection_callback (Some smoke_cr) c
      (Some QUIC_CONNECTION_EVENT_SHUTDOWN_COMPLETE) s = (QUIC_STATUS_SUCCESS, upd_world (smoke_connection_close c) s)"
    if "c \<noteq> 0" for s c using that
    by (simp add: ism_msquic_connection_runtime_connection_callback_def smoke_api_def [THEN arg_cong [where f = ConnectionClose]])
  have refuse: "ism_msquic_connection_runtime_connection_callback (Some smoke_cr) c
      (Some (QUIC_CONNECTION_EVENT_PEER_STREAM_STARTED h)) s =
      (QUIC_STATUS_INVALID_STATE, upd_world (\<lambda>w. smoke_stream_close h (snd (snd (snd (smoke_get_param h w))))) s)"
    if "ws_get_param_should_fail (world s) \<or> sl_in_use (slot_at s 0)" "h \<noteq> 0" "failed_codes (tr_failed (sh_ctx s))" for s c h
    using that
    by (auto simp: ism_msquic_connection_runtime_connection_callback_def ism_msquic_connection_runtime_allocate_slot_def
        smoke_get_param_def failed_codes_def Let_def smoke_api_def [THEN arg_cong [where f = GetParam]]
        smoke_api_def [THEN arg_cong [where f = StreamClose]] upd_world_def slot_at_def)
  have ok: "\<not> tr_failed (sh_ctx st) QUIC_STATUS_SUCCESS" using B(5) by (simp add: failed_codes_def)
  show ?thesis
    using w B(3,5) ok
    by (simp add: smoke_refused_def check_defs accepted_def close refuse served_world_def smoke_connection_close_def
        smoke_get_param_def smoke_stream_close_def word_le_nat_alt)
qed

lemma smoke_connection_passes:
  assumes pl: "placed bld response_buffer 128 send_buffer 128 st"
    and arr: "array_at bld st query exact_a_query" "array_at bld st ingress_buffer (replicate 64 0)"
    and q: "q_events (sh_queue st) = Some es" "2 \<le> length es"
    and tr: "length (tr_streams (sh_ctx st)) = 1" "length (tr_slots (sh_ctx st)) = 1" "failed_codes (tr_failed (sh_ctx st))"
    and sep: "ranges_disjoint query 35 ingress_buffer 64" "apart_from query 35 response_buffer send_buffer"
      "apart_from ingress_buffer 35 response_buffer send_buffer"
  shows "smoke_connection bld raw response_buffer send_buffer ingress_buffer query st"
proof -
  define st0 where "st0 = smoke_conn_setup raw response_buffer send_buffer ingress_buffer st"
  note S = conn_setup_idle [OF pl arr _ q tr st0_def, simplified]
  have sp: "smoke_separate bld response_buffer send_buffer ingress_buffer query"
    using pl sep by (simp add: smoke_separate_def placed_def)
  have "run_checks (smoke_accept (Some smoke_cr) @ smoke_peer_stream (Some smoke_cr) ingress_buffer @
      smoke_serve bld send_buffer query @ smoke_aborted bld (Some smoke_cr) query @ smoke_refused (Some smoke_cr)) st0"
    by (rule accept_rest [OF S], rule serve_rest, assumption, assumption, rule sp, assumption,
        rule aborted_rest, assumption, assumption, rule sp, assumption, rule refused_passes, assumption, assumption)
  then show ?thesis
    by (simp add: smoke_connection_def smoke_runtime_record_eq check_defs st0_def Let_def)
qed

end
