(* ===== verification/Smoke_Protocol.thy ===== *)
theory Smoke_Protocol
  imports Smoke_Runtime
begin

text \<open>
  The protocol-error part of \<^verbatim>\<open>src/shell/msquic_connection_smoke.c\<close> (\<^verbatim>\<open>smoke_protocol_errors\<close>) as a program over
  the model: four queries that are truncated, carry a message ID, are too long, or are followed
  by a byte too many. Each one fails and shuts the connection down once.
\<close>

section \<open>The program\<close>

text \<open>The world is the counter \<^verbatim>\<open>protocol_shutdowns\<close>. Of the function table only the shutdown is set; the
  other entries are never called.\<close>

definition smoke_protocol_shutdown :: "hquic \<Rightarrow> u64 \<Rightarrow> u32 \<Rightarrow> u32" where
  "smoke_protocol_shutdown connection error shutdowns =
     (if connection = 99 \<and> error = 2 then shutdowns + 1 else shutdowns)"

definition protocol_api :: "u32 quic_api" where
  "protocol_api = \<lparr>StreamSend = None, ConnectionShutdown = Some smoke_protocol_shutdown, StreamClose = (\<lambda>_ w. w),
     SetCallbackHandler = (\<lambda>_ _ w. w), GetParam = (\<lambda>_ w. (QUIC_STATUS_INVALID_STATE, 0, 0, w)),
     ConnectionSetConfiguration = (\<lambda>_ _ w. (QUIC_STATUS_INVALID_STATE, w)), ConnectionClose = None\<rparr>"

definition protocol_query :: "u8 list" where
  "protocol_query = [0, 17, 0, 0, 1, 0, 0, 1, 0, 0, 0, 0, 0, 0, 0, 0, 1, 0, 1, 0xff]"

definition protocol_setup :: "addr \<Rightarrow> addr \<Rightarrow> addr \<Rightarrow> addr \<Rightarrow> nat \<Rightarrow> u32 rt_state \<Rightarrow> u32 rt_state" where
  "protocol_setup response send ingress query scenario st =
     (let st1 = fresh_runtime response 64 send 64 None 4 ingress 64 st;
          st2 = ism_msquic_runtime_bind_msquic_stream (Some 0) (Some protocol_api) 98 st1;
          st3 = upd_rt 0 (\<lambda>r. r\<lparr>rt_connection := 99\<rparr>) st2 in
      st3\<lparr>sh_mem := (sh_mem st3)(query + 2 := if scenario = 1 then 1 else 0)\<rparr>)"

definition protocol_scenario :: "build \<Rightarrow> addr \<Rightarrow> addr \<Rightarrow> addr \<Rightarrow> addr \<Rightarrow> nat \<Rightarrow> u32 rt_state check" where
  "protocol_scenario bld response send ingress query scenario st =
     (let st1 = protocol_setup response send ingress query scenario st;
          len = (if scenario = 0 then 10 else if scenario = 2 then 20 else 19);
          (status, st2) = ism_msquic_runtime_stream_callback bld (Some 0)
            (Some (QUIC_STREAM_EVENT_RECEIVE (Some [(query, len)]) 1 (scenario \<noteq> 3))) st1 in
      if scenario = 3 \<and> tr_failed (sh_ctx st2) status then (False, st2)
      else
        let (status, st3) =
              (if scenario = 3
               then ism_msquic_runtime_stream_callback bld (Some 0)
                 (Some (QUIC_STREAM_EVENT_RECEIVE (Some [(query + 19, 1)]) 1 True)) st2
               else (status, st2)) in
        (tr_failed (sh_ctx st3) status \<and> tr_world (sh_ctx st3) = of_nat scenario + 1, st3))"

definition smoke_protocol_errors :: "build \<Rightarrow> addr \<Rightarrow> addr \<Rightarrow> addr \<Rightarrow> addr \<Rightarrow> u32 rt_state \<Rightarrow> bool" where
  "smoke_protocol_errors bld response send ingress query =
     run_checks (runs (upd_world (\<lambda>_. 0)) #
       map (protocol_scenario bld response send ingress query) [0..<4])"

section \<open>The state between the scenarios\<close>

text \<open>Byte 2 of the query is written by every scenario.\<close>

definition protocol_vars :: "build \<Rightarrow> addr \<Rightarrow> addr \<Rightarrow> addr \<Rightarrow> addr \<Rightarrow> nat \<Rightarrow> u32 rt_state \<Rightarrow> bool" where
  "protocol_vars bld rb sb ib query n st \<longleftrightarrow>
     placed bld rb 64 sb 64 st \<and> has_storage st \<and> failed_codes (tr_failed (sh_ctx st)) \<and> tr_world (sh_ctx st) = of_nat n \<and>
     array_at bld st ib (mem_bytes (sh_mem st) ib 64) \<and> array_at bld st query (mem_bytes (sh_mem st) query 20) \<and>
     (mem_bytes (sh_mem st) query 20)[2 := 0] = protocol_query \<and> ranges_disjoint query 20 ib 64"

lemma mem_bytes_part:
  assumes "a + k \<le> n"
  shows "mem_bytes m (p + a) k = take k (drop a (mem_bytes m p n))"
  using assms by (intro nth_equalityI) (auto simp: add.assoc)

text \<open>A scenario after its initialisation.\<close>

definition protocol_ready :: "build \<Rightarrow> addr \<Rightarrow> addr \<Rightarrow> addr \<Rightarrow> addr \<Rightarrow> nat \<Rightarrow> u8 \<Rightarrow> u32 rt_state \<Rightarrow> bool" where
  "protocol_ready bld rb sb ib query n v st \<longleftrightarrow>
     runtime_ready bld st 0 \<and> rt_of st 0 = (init_stream Obj Obj 4 ib 64)\<lparr>rt_api := Some protocol_api, rt_stream := 98, rt_connection := 99\<rparr> \<and>
     tr_streams (sh_ctx st) \<noteq> [] \<and> placed bld rb 64 sb 64 st \<and> failed_codes (tr_failed (sh_ctx st)) \<and>
     tr_world (sh_ctx st) = of_nat n \<and> array_at bld st ib (mem_bytes (sh_mem st) ib 64) \<and>
     array_at bld st query (protocol_query[2 := v]) \<and> ranges_disjoint query 20 ib 64"

lemma length_protocol_query [simp]: "length protocol_query = 20"
  by (simp add: protocol_query_def)

lemma setup_protocol_ready:
  assumes vars: "protocol_vars bld rb sb ib query n st"
  shows "protocol_ready bld rb sb ib query n (if s = 1 then 1 else 0) (protocol_setup rb sb ib query s st)"
    and "abs_table (conn_of (protocol_setup rb sb ib query s st)) = Map.empty"
proof -
  let ?v = "if s = 1 then 1 else 0 :: u8"
  have V: "placed bld rb 64 sb 64 st" "has_storage st" "failed_codes (tr_failed (sh_ctx st))" "tr_world (sh_ctx st) = of_nat n"
    "array_at bld st ib (mem_bytes (sh_mem st) ib 64)" "array_at bld st query (mem_bytes (sh_mem st) query 20)"
    "(mem_bytes (sh_mem st) query 20)[2 := 0] = protocol_query" "ranges_disjoint query 20 ib 64"
    using vars by (simp_all add: protocol_vars_def)
  define st1 where "st1 = fresh_runtime rb 64 sb 64 None 4 ib 64 st"
  define st3 where "st3 = protocol_setup rb sb ib query s st"
  note F = fresh_ready [OF V(1,5) _ V(2) st1_def, simplified]
  have same: "sh_adapter st3 = sh_adapter st1" "sh_queue st3 = sh_queue st1" "sh_mem st3 = (sh_mem st1)(query + 2 := ?v)"
      "tr_world (sh_ctx st3) = tr_world (sh_ctx st)" "tr_failed (sh_ctx st3) = tr_failed (sh_ctx st)"
    by (simp_all add: st3_def protocol_setup_def Let_def st1_def [symmetric] ism_msquic_runtime_bind_msquic_stream_def F(6)) (simp_all add: upd_stream_def)
  have rt: "rt_of st3 0 = (init_stream Obj Obj 4 ib 64)\<lparr>rt_api := Some protocol_api, rt_stream := 98, rt_connection := 99\<rparr>"
      "tr_streams (sh_ctx st3) \<noteq> []"
    using F(2,13) by (simp_all add: st3_def protocol_setup_def Let_def st1_def [symmetric] ism_msquic_runtime_bind_msquic_stream_def
        upd_rt_def upd_stream_def stream_of_def)
  have lay: "conn_layout (conn_of st3) = conn_layout (conn_of st)" using F(12) by (simp add: same)
  have len: "length (conn_streams (conn_of st)) = 4" using V(1) by (simp add: placed_def)
  have inv: "adapter_inv bld st3" "idle_queue st3"
    using runtime_readyD(1-3) [OF F(1)] by (simp_all add: adapter_inv_def buffers_separate_def same idle_queue_def)
  have areas: "array_at bld st3 ib (mem_bytes (sh_mem st3) ib 64)" "array_at bld st3 query (mem_bytes (sh_mem st3) query 20)"
    using array_at_moved [OF V(5) lay len, of 64] array_at_moved [OF V(6) lay len, of 20] by simp_all
  have "mem_bytes (sh_mem st1) query 20 = mem_bytes (sh_mem st) query 20" using F(11) [OF V(6)] by (simp add: array_at_def)
  then have "mem_bytes (sh_mem st3) query 20 = (mem_bytes (sh_mem st) query 20)[2 := ?v]"
    using mem_bytes_upd [of 2 20 "sh_mem st1" query ?v] by (simp add: same)
  then have "mem_bytes (sh_mem st3) query 20 = protocol_query[2 := ?v]" by (simp flip: V(7))
  then have "array_at bld st3 query (protocol_query[2 := ?v])" using areas(2) by simp
  moreover have "runtime_ready bld st3 0"
    by (rule area_ready [OF inv, of 0 "mem_bytes (sh_mem st3) ib 64"]) (use rt areas in \<open>simp_all add: init_stream_def\<close>)
  ultimately show "protocol_ready bld rb sb ib query n ?v st3"
    using rt V areas(1) placed_moved [OF V(1) lay] by (simp add: protocol_ready_def same)
  show "abs_table (conn_of st3) = Map.empty" using F(3) by (simp add: same)
qed

section \<open>The scenarios return true\<close>

lemma query_buffer_ok:
  assumes rd: "protocol_ready bld rb sb ib query n v st" and len: "len \<le> 20" and off: "off + unat len \<le> 20"
  shows "buffer_ok st 0 (query + off, len)"
proof (cases "len = 0")
  case False
  have q: "query \<noteq> NULL" "\<forall>k<4. ranges_disjoint query 20 (message_buffer (conn_streams (conn_of st) ! k)) 65535"
      "ranges_disjoint query 20 ib 64" and rt: "rt_ingress_buffer (rt_of st 0) = ib" "rt_ingress_capacity (rt_of st 0) = 64"
    using rd by (simp_all add: protocol_ready_def array_at_def init_stream_def)
  have sub: "ranges_disjoint (query + off) (unat len) p k" if "ranges_disjoint query 20 p k" for p k
    using that off by (auto simp: ranges_disjoint_def)
  have "len \<le> 64" using len by (simp add: word_le_nat_alt)
  with False q sub rt show ?thesis by (simp add: buffer_ok_def)
qed (simp add: buffer_ok_def)

lemma query_bytes:
  assumes rd: "protocol_ready bld rb sb ib query n v st" and off: "off + unat len \<le> 20"
  shows "buffer_bytes (sh_mem st) (query + off, len) = take (unat len) (drop off (protocol_query[2 := v]))"
proof -
  have "mem_bytes (sh_mem st) query 20 = protocol_query[2 := v]" using rd by (simp add: protocol_ready_def array_at_def)
  with mem_bytes_part [OF off, of "sh_mem st" query] show ?thesis by (simp add: buffer_bytes_def)
qed

text \<open>A callback that fails leaves the variables of the program ready for the next scenario.\<close>

lemma protocol_failed:
  assumes rd: "protocol_ready bld rb sb ib query n v st"
    and got: "stream_got bs (conn_of st) 4 (sh_mem st)" "doq_phase bs \<noteq> Done"
    and b: "len \<le> 20" "off + unat len \<le> 20"
    and bad: "doq_phase (bs @ take (unat len) (drop off (protocol_query[2 := v]))) = Done \<or>
      \<not> may_finish (bs @ take (unat len) (drop off (protocol_query[2 := v])))"
    and run: "ism_msquic_runtime_stream_callback bld (Some 0)
      (Some (QUIC_STREAM_EVENT_RECEIVE (Some [(query + off, len)]) 1 True)) st = (status, st')"
  shows "status = QUIC_STATUS_INVALID_STATE" and "protocol_vars bld rb sb ib query (Suc n) st'"
proof -
  have R: "runtime_ready bld st 0" "placed bld rb 64 sb 64 st" "failed_codes (tr_failed (sh_ctx st))" "tr_world (sh_ctx st) = of_nat n"
      "array_at bld st ib (mem_bytes (sh_mem st) ib 64)" "array_at bld st query (protocol_query[2 := v])" "ranges_disjoint query 20 ib 64"
      "tr_streams (sh_ctx st) \<noteq> []"
    and rt: "rt_of st 0 = (init_stream Obj Obj 4 ib 64)\<lparr>rt_api := Some protocol_api, rt_stream := 98, rt_connection := 99\<rparr>"
    using rd by (simp_all add: protocol_ready_def)
  have rt0: "\<not> rt_received_fin (rt_of st 0)" "rt_stream_id (rt_of st 0) = 4" using rt by (simp_all add: init_stream_def)
  let ?q = "bs @ concat (map (buffer_bytes (sh_mem st)) [(query + off, len)])"
  have bytes: "?q = bs @ take (unat len) (drop off (protocol_query[2 := v]))" using query_bytes [OF rd b(2)] by simp
  have ok: "list_all (buffer_ok st 0) [(query + off, len)]" using query_buffer_ok [OF rd b] by simp
  have bad': "doq_phase ?q = Done \<or> True \<and> \<not> may_finish ?q" using bad by (simp only: bytes simp_thms)
  have run': "ism_msquic_runtime_stream_callback bld (Some 0) (Some (QUIC_STREAM_EVENT_RECEIVE (Some [(query + off, len)])
      (of_nat (length [(query + off, len)])) True)) st = (status, st')" using run by simp
  obtain st1 where S: "status = QUIC_STATUS_INVALID_STATE" "st' = doq_shutdown 0 st1" "runtime_ready bld st1 0" "same_setup st st1"
    "sh_ctx st1 = sh_ctx st" "\<forall>b. buffer_ok st 0 b \<longrightarrow> buffer_bytes (sh_mem st1) b = buffer_bytes (sh_mem st) b"
    by (rule receive_protocol_error [OF R(1) rt0(1) _ got(2) ok _ refl bad' run']) (use got(1) rt0 in simp_all)
  show "status = QUIC_STATUS_INVALID_STATE" by (rule S)
  have st': "st' = upd_world (\<lambda>w. w + 1) st1"
    using S(2,5) rt by (simp add: doq_shutdown_def) (simp add: protocol_api_def smoke_protocol_shutdown_def upd_world_def)
  have "buffer_bytes (sh_mem st1) (query + 0, 20) = buffer_bytes (sh_mem st) (query + 0, 20)"
    using S(6) query_buffer_ok [OF rd, of 20 0] by (simp add: word_le_nat_alt)
  then have q1: "mem_bytes (sh_mem st1) query 20 = protocol_query[2 := v]" using R(6) by (simp add: buffer_bytes_def array_at_def)
  have lay: "conn_layout (conn_of st') = conn_layout (conn_of st)" using S(4) by (simp add: st' same_setup_def)
  have len: "length (conn_streams (conn_of st)) = 4" using R(2) by (simp add: placed_def)
  have "has_storage st'"
    using idle_storage [of st'] runtime_readyD(2,3) [OF S(3)] S(5) R(8) by (simp add: st' idle_queue_def)
  moreover have "array_at bld st' ib (mem_bytes (sh_mem st') ib 64)" "array_at bld st' query (mem_bytes (sh_mem st') query 20)"
    using array_at_moved [OF R(5) lay len, of 64] array_at_moved [OF R(6) lay len, of 20] by simp_all
  moreover have "(mem_bytes (sh_mem st') query 20)[2 := 0] = protocol_query" by (simp add: st' q1) (simp add: protocol_query_def)
  ultimately show "protocol_vars bld rb sb ib query (Suc n) st'"
    using placed_moved [OF R(2) lay] R(3,4,7) S(5) by (simp add: protocol_vars_def st')
qed

text \<open>The first buffer of the last scenario is accepted.\<close>

lemma protocol_accepted:
  assumes rd: "protocol_ready bld rb sb ib query n 0 st" and tab: "abs_table (conn_of st) = Map.empty"
    and run: "ism_msquic_runtime_stream_callback bld (Some 0)
      (Some (QUIC_STREAM_EVENT_RECEIVE (Some [(query, 19)]) 1 False)) st = (status, st')"
  shows "status = QUIC_STATUS_SUCCESS" and "protocol_ready bld rb sb ib query n 0 st'"
    and "stream_got (take 19 protocol_query) (conn_of st') 4 (sh_mem st')"
proof -
  have R: "runtime_ready bld st 0" "placed bld rb 64 sb 64 st" "array_at bld st ib (mem_bytes (sh_mem st) ib 64)"
      "array_at bld st query (protocol_query[2 := 0])"
    and rt: "\<not> rt_received_fin (rt_of st 0)" "rt_stream_id (rt_of st 0) = 4"
    using rd by (simp_all add: protocol_ready_def init_stream_def)
  have q0: "protocol_query[2 := 0] = protocol_query" by (simp add: protocol_query_def)
  obtain ok st1 where rb: "receive_buffers bld (Some 0) [(query, 19)] st = (ok, st1)" by fastforce
  have got: "stream_got [] (conn_of st) (rt_stream_id (rt_of st 0)) (sh_mem st)"
    using tab cc_num_empty [OF adapter_invD(2) [OF runtime_readyD(1) [OF R(1)]] tab] by (simp add: stream_got_def)
  have bytes: "concat (map (buffer_bytes (sh_mem st)) [(query, 19)]) = take 19 protocol_query"
    using query_bytes [OF rd, of 0 19] q0 by simp
  have bok: "list_all (buffer_ok st 0) [(query, 19)]" using query_buffer_ok [OF rd, of 19 0] by (simp add: word_le_nat_alt)
  have phase: "doq_phase (take 19 protocol_query) = AwaitingFin 17" by (simp add: protocol_query_def)
  from receive_buffers_phase [OF R(1) rt(1) got bok _ rb] phase
  have S: ok "runtime_ready bld st1 0" "same_setup st st1" "sh_ctx st1 = sh_ctx st"
    "stream_got (take 19 protocol_query) (conn_of st1) 4 (sh_mem st1)"
    "\<forall>b. buffer_ok st 0 b \<longrightarrow> buffer_bytes (sh_mem st1) b = buffer_bytes (sh_mem st) b"
    using rt(2) unfolding received_buffers_def bytes by simp_all
  have st': "status = QUIC_STATUS_SUCCESS" "st' = st1"
    using run rb S(1) by (simp_all add: ism_msquic_runtime_stream_callback_def ism_msquic_runtime_on_msquic_receive_def)
  show "status = QUIC_STATUS_SUCCESS" "stream_got (take 19 protocol_query) (conn_of st') 4 (sh_mem st')" using st' S(5) by simp_all
  have "buffer_bytes (sh_mem st1) (query + 0, 20) = buffer_bytes (sh_mem st) (query + 0, 20)"
    using S(6) query_buffer_ok [OF rd, of 20 0] by (simp add: word_le_nat_alt)
  then have q1: "mem_bytes (sh_mem st1) query 20 = protocol_query" using R(4) q0 by (simp add: buffer_bytes_def array_at_def)
  have lay: "conn_layout (conn_of st1) = conn_layout (conn_of st)" using S(3) by (simp add: same_setup_def)
  have len: "length (conn_streams (conn_of st)) = 4" using R(2) by (simp add: placed_def)
  show "protocol_ready bld rb sb ib query n 0 st'"
    using rd S(2,4) placed_moved [OF R(2) lay] array_at_moved [OF R(3) lay len, of 64] array_at_moved [OF R(4) lay len, of 20] q0 q1
    by (simp add: protocol_ready_def st')
qed

text \<open>What the bytes of the scenarios are to the framing machine.\<close>

lemma protocol_bytes:
  "\<not> may_finish (take 10 (protocol_query[2 := 0]))" "\<not> may_finish (take 19 (protocol_query[2 := 1]))"
  "doq_phase (take 20 (protocol_query[2 := 0])) = Done"
  "doq_phase (take 19 protocol_query) = AwaitingFin 17" "doq_phase (take 19 protocol_query @ take 1 (drop 19 protocol_query)) = Done"
  by (simp_all add: may_finish_def protocol_query_def)

lemma protocol_scenario_passes:
  assumes vars: "protocol_vars bld rb sb ib query s st" and s: "s < 4"
  obtains st' where "protocol_scenario bld rb sb ib query s st = (True, st')" "protocol_vars bld rb sb ib query (Suc s) st'"
proof -
  define st1 where "st1 = protocol_setup rb sb ib query s st"
  define v :: u8 where "v = (if s = 1 then 1 else 0)"
  define len :: u32 where "len = (if s = 0 then 10 else if s = 2 then 20 else 19)"
  have rd: "protocol_ready bld rb sb ib query s v st1" and tab: "abs_table (conn_of st1) = Map.empty"
    using setup_protocol_ready [OF vars] by (simp_all add: st1_def v_def)
  have rr: "runtime_ready bld st1 0" using rd by (simp add: protocol_ready_def)
  have got: "stream_got [] (conn_of st1) 4 (sh_mem st1)"
    using tab cc_num_empty [OF adapter_invD(2) [OF runtime_readyD(1) [OF rr]] tab] by (simp add: stream_got_def)
  obtain status st2 where cb: "ism_msquic_runtime_stream_callback bld (Some 0)
      (Some (QUIC_STREAM_EVENT_RECEIVE (Some [(query, len)]) 1 (s \<noteq> 3))) st1 = (status, st2)" by fastforce
  have code: "tr_failed (sh_ctx st') QUIC_STATUS_INVALID_STATE" "tr_world (sh_ctx st') = of_nat s + 1"
    "\<not> tr_failed (sh_ctx st') QUIC_STATUS_SUCCESS" if "protocol_vars bld rb sb ib query (Suc s) st'" for st'
    using that by (simp_all add: protocol_vars_def failed_codes_def)
  show thesis
  proof (cases "s = 3")
    case False
    have l: "len \<le> 20" "0 + unat len \<le> 20" by (simp_all add: len_def word_le_nat_alt)
    have "s = 0 \<or> s = 1 \<or> s = 2" using s False by auto
    then have bad: "doq_phase ([] @ take (unat len) (drop 0 (protocol_query[2 := v]))) = Done \<or>
        \<not> may_finish ([] @ take (unat len) (drop 0 (protocol_query[2 := v])))"
      using protocol_bytes(1-3) by (auto simp: len_def v_def)
    have cb': "ism_msquic_runtime_stream_callback bld (Some 0)
        (Some (QUIC_STREAM_EVENT_RECEIVE (Some [(query + 0, len)]) 1 True)) st1 = (status, st2)" using cb False by simp
    note F = protocol_failed [OF rd got _ l bad cb', simplified]
    show thesis
      by (rule that [of st2]) (use F cb code [OF F(2)] False in \<open>simp_all add: protocol_scenario_def Let_def st1_def [symmetric] len_def\<close>)
  next
    case True
    have rd3: "protocol_ready bld rb sb ib query s 0 st1" using rd True by (simp add: v_def)
    have cb': "ism_msquic_runtime_stream_callback bld (Some 0)
        (Some (QUIC_STREAM_EVENT_RECEIVE (Some [(query, 19)]) 1 False)) st1 = (status, st2)" using cb True by (simp add: len_def)
    note A = protocol_accepted [OF rd3 tab cb']
    obtain status' st3 where cb3: "ism_msquic_runtime_stream_callback bld (Some 0)
      (Some (QUIC_STREAM_EVENT_RECEIVE (Some [(query + 19, 1)]) 1 True)) st2 = (status', st3)" by fastforce
    have l: "(1 :: u32) \<le> 20" "19 + unat (1 :: u32) \<le> 20" and q0: "protocol_query[2 := 0] = protocol_query"
      by (simp_all add: word_le_nat_alt protocol_query_def)
    have bad: "doq_phase (take 19 protocol_query @ take (unat (1 :: u32)) (drop 19 (protocol_query[2 := 0]))) = Done \<or>
        \<not> may_finish (take 19 protocol_query @ take (unat (1 :: u32)) (drop 19 (protocol_query[2 := 0])))"
      using protocol_bytes(5) q0 by simp
    note F = protocol_failed [OF A(2,3) _ l bad cb3, simplified protocol_bytes(4), simplified]
    have setup3: "protocol_setup rb sb ib query 3 st = st1" using True by (simp add: st1_def)
    have "\<not> tr_failed (sh_ctx st2) QUIC_STATUS_SUCCESS" using A(2) by (simp add: protocol_ready_def failed_codes_def)
    then show thesis
      by (intro that [of st3])
        (use F A(1) cb' cb3 code [OF F(2)] True in \<open>simp_all add: protocol_scenario_def Let_def setup3\<close>)
  qed
qed

lemma protocol_scenarios_pass:
  assumes "protocol_vars bld rb sb ib query k st" and "k \<le> 4"
  shows "run_checks (map (protocol_scenario bld rb sb ib query) [k..<4]) st"
  using assms
proof (induction "4 - k" arbitrary: k st)
  case (Suc d)
  then have k: "k < 4" by simp
  obtain st' where "protocol_scenario bld rb sb ib query k st = (True, st')" "protocol_vars bld rb sb ib query (Suc k) st'"
    by (rule protocol_scenario_passes [OF Suc.prems(1) k])
  with Suc.hyps(1) [of "Suc k" st'] Suc.hyps(2) k show ?case by (simp add: upt_conv_Cons)
qed simp

lemma smoke_protocol:
  assumes "placed bld response 64 send 64 st" and "has_storage st" and "failed_codes (tr_failed (sh_ctx st))"
    and ib: "array_at bld st ingress area" "length area = 64" and q: "array_at bld st query protocol_query"
    and "ranges_disjoint query 20 ingress 64"
  shows "smoke_protocol_errors bld response send ingress query st"
proof -
  let ?st = "upd_world (\<lambda>_. 0) st"
  have arr: "mem_bytes (sh_mem st) query 20 = protocol_query" "array_at bld st ingress (mem_bytes (sh_mem st) ingress 64)"
    using q ib by (simp_all add: array_at_def)
  have "placed bld response 64 send 64 ?st" by (rule placed_moved [OF assms(1)]) simp
  then have "protocol_vars bld response send ingress query 0 ?st"
    using assms arr by (simp add: protocol_vars_def upd_world_def has_storage_def) (simp add: protocol_query_def)
  from protocol_scenarios_pass [OF this] show ?thesis by (simp add: smoke_protocol_errors_def check_defs)
qed

end
