(* ===== verification/Live_Msquic.thy ===== *)
theory Live_Msquic
  imports Smoke_Base
begin

text \<open>
  The programs that drive the real MsQuic library: \<^verbatim>\<open>src/shell/msquic_link_smoke.c\<close>, \<^verbatim>\<open>src/shell/msquic_lifecycle_smoke.c\<close>,
  \<^verbatim>\<open>src/shell/msquic_listener_smoke.c\<close> and \<^verbatim>\<open>src/shell/msquic_stream_smoke.c\<close>. The library, its threads and
  the network are one parameter: a function from the calls made so far and the next call to its
  results, so every behaviour of the library is an instance. The theorems are about what
  the programs themselves promise: every handle they get is released once, in the reverse
  order, on every path; and success means that everything succeeded.
\<close>

section \<open>The library\<close>

datatype msquic_call =
    Call_MsQuicOpen2
  | Call_RegistrationOpen string
  | Call_ConfigurationOpen hquic string "16 word option"
  | Call_LoadServerCredential hquic string string
  | Call_LoadClientCredential hquic
  | Call_ListenerOpen hquic
  | Call_ListenerStart hquic string
  | Call_GetLocalAddress hquic
  | Call_ConnectionOpen hquic
  | Call_ConnectionStart hquic hquic "16 word"
  | Call_StreamOpen hquic
  | Call_StreamStart hquic
  | Call_StreamSend hquic "u8 list"
  | Call_StreamShutdown hquic
  | Call_StreamClose hquic
  | Call_ConnectionShutdown hquic
  | Call_ConnectionClose hquic
  | Call_ListenerStop hquic
  | Call_ListenerClose hquic
  | Call_ConfigurationClose hquic
  | Call_RegistrationClose hquic
  | Call_MsQuicClose hquic

text \<open>The results of a call: its status, what the handle variable holds afterwards (the function table for
  \<^verbatim>\<open>MsQuicOpen2\<close>), and the length and port of a local address.\<close>

record call_result =
  out_status :: quic_status
  out_handle :: hquic
  out_len :: u32
  out_port :: "16 word"

record msquic =
  ms_call :: "msquic_call list \<Rightarrow> msquic_call \<Rightarrow> call_result"
  ms_failed :: "quic_status \<Rightarrow> bool"
  ms_addr_size :: u32

definition invoke :: "msquic \<Rightarrow> msquic_call \<Rightarrow> msquic_call list \<Rightarrow> call_result \<times> msquic_call list" where
  "invoke ms c tr = (ms_call ms tr c, tr @ [c])"

definition open_failed :: "msquic \<Rightarrow> call_result \<Rightarrow> bool" where
  "open_failed ms r \<longleftrightarrow> ms_failed ms (out_status r) \<or> out_handle r = 0"

definition address_failed :: "msquic \<Rightarrow> call_result \<Rightarrow> bool" where
  "address_failed ms r \<longleftrightarrow> ms_failed ms (out_status r) \<or> out_len r \<noteq> ms_addr_size ms \<or> out_port r = 0"

text \<open>The protocol that the programs negotiate and the names that they register with. The last argument of
  \<^verbatim>\<open>ConfigurationOpen\<close> is the setting \<^verbatim>\<open>PeerBidiStreamCount\<close>, where the program gives settings.\<close>

definition alpn_bytes :: string where "alpn_bytes = ''doq''"

definition lifecycle_name :: string where "lifecycle_name = ''ism-msquic-lifecycle-smoke''"
definition listener_name :: string where "listener_name = ''ism-msquic-listener-smoke''"
definition stream_server_name :: string where "stream_server_name = ''ism-msquic-stream-smoke-server''"
definition stream_client_name :: string where "stream_client_name = ''ism-msquic-stream-smoke-client''"

section \<open>The lifecycle and listener programs\<close>

record msquic_vars =
  mv_api :: hquic
  mv_registration :: hquic
  mv_configuration :: hquic
  mv_listener :: hquic
  mv_listener_started :: bool
  mv_result :: int

definition msquic_start :: msquic_vars where
  "msquic_start = \<lparr>mv_api = 0, mv_registration = 0, mv_configuration = 0, mv_listener = 0,
     mv_listener_started = False, mv_result = 1\<rparr>"

text \<open>The link test opens the library and closes it again.\<close>

definition link_main :: "msquic \<Rightarrow> int \<times> msquic_call list" where
  "link_main ms =
     (let (r, tr) = invoke ms Call_MsQuicOpen2 [] in
      if open_failed ms r then (1, tr) else (0, tr @ [Call_MsQuicClose (out_handle r)]))"

text \<open>\<^verbatim>\<open>goto cleanup\<close> ends the body; the callbacks given to \<^verbatim>\<open>ListenerOpen\<close> return success and do nothing.\<close>

definition ism_msquic_lifecycle_listener_callback :: "'e \<Rightarrow> quic_status" where
  "ism_msquic_lifecycle_listener_callback event = QUIC_STATUS_SUCCESS"

definition ism_msquic_listener_start_callback :: "'e \<Rightarrow> quic_status" where
  "ism_msquic_listener_start_callback event = QUIC_STATUS_SUCCESS"

definition lifecycle_body :: "msquic \<Rightarrow> msquic_vars \<Rightarrow> msquic_call list \<Rightarrow> msquic_vars \<times> msquic_call list" where
  "lifecycle_body ms v tr =
     (let (r, tr) = invoke ms (Call_RegistrationOpen lifecycle_name) tr; v = v\<lparr>mv_registration := out_handle r\<rparr> in
      if open_failed ms r then (v, tr) else
      let (r, tr) = invoke ms (Call_ConfigurationOpen (mv_registration v) alpn_bytes None) tr; v = v\<lparr>mv_configuration := out_handle r\<rparr> in
      if open_failed ms r then (v, tr) else
      let (r, tr) = invoke ms (Call_ListenerOpen (mv_registration v)) tr; v = v\<lparr>mv_listener := out_handle r\<rparr> in
      if open_failed ms r then (v, tr) else
      (v\<lparr>mv_result := 0\<rparr>, tr))"

definition lifecycle_cleanup :: "msquic_vars \<Rightarrow> msquic_call list" where
  "lifecycle_cleanup v =
     (if mv_listener v \<noteq> 0 then [Call_ListenerClose (mv_listener v)] else []) @
     (if mv_configuration v \<noteq> 0 then [Call_ConfigurationClose (mv_configuration v)] else []) @
     (if mv_registration v \<noteq> 0 then [Call_RegistrationClose (mv_registration v)] else []) @
     [Call_MsQuicClose (mv_api v)]"

definition lifecycle_main :: "msquic \<Rightarrow> int \<times> msquic_call list" where
  "lifecycle_main ms =
     (let (r, tr) = invoke ms Call_MsQuicOpen2 []; v = msquic_start\<lparr>mv_api := out_handle r\<rparr> in
      if open_failed ms r then (mv_result v, tr)
      else
        let (v, tr) = lifecycle_body ms v tr in
        (mv_result v, tr @ lifecycle_cleanup v))"

text \<open>The listener program goes on to start the listener and to read the address it is bound to.\<close>

definition listener_body :: "msquic \<Rightarrow> msquic_vars \<Rightarrow> msquic_call list \<Rightarrow> msquic_vars \<times> msquic_call list" where
  "listener_body ms v tr =
     (let (r, tr) = invoke ms (Call_RegistrationOpen listener_name) tr; v = v\<lparr>mv_registration := out_handle r\<rparr> in
      if open_failed ms r then (v, tr) else
      let (r, tr) = invoke ms (Call_ConfigurationOpen (mv_registration v) alpn_bytes None) tr; v = v\<lparr>mv_configuration := out_handle r\<rparr> in
      if open_failed ms r then (v, tr) else
      let (r, tr) = invoke ms (Call_ListenerOpen (mv_registration v)) tr; v = v\<lparr>mv_listener := out_handle r\<rparr> in
      if open_failed ms r then (v, tr) else
      let (r, tr) = invoke ms (Call_ListenerStart (mv_listener v) alpn_bytes) tr in
      if ms_failed ms (out_status r) then (v, tr) else
      let v = v\<lparr>mv_listener_started := True\<rparr>; (r, tr) = invoke ms (Call_GetLocalAddress (mv_listener v)) tr in
      if address_failed ms r then (v, tr) else
      (v\<lparr>mv_result := 0\<rparr>, tr))"

definition listener_cleanup :: "msquic_vars \<Rightarrow> msquic_call list" where
  "listener_cleanup v =
     (if mv_listener v \<noteq> 0
      then (if mv_listener_started v then [Call_ListenerStop (mv_listener v)] else []) @ [Call_ListenerClose (mv_listener v)]
      else []) @
     (if mv_configuration v \<noteq> 0 then [Call_ConfigurationClose (mv_configuration v)] else []) @
     (if mv_registration v \<noteq> 0 then [Call_RegistrationClose (mv_registration v)] else []) @
     [Call_MsQuicClose (mv_api v)]"

definition listener_main :: "msquic \<Rightarrow> int \<times> msquic_call list" where
  "listener_main ms =
     (let (r, tr) = invoke ms Call_MsQuicOpen2 []; v = msquic_start\<lparr>mv_api := out_handle r\<rparr> in
      if open_failed ms r then (mv_result v, tr)
      else let (v, tr) = listener_body ms v tr in (mv_result v, tr @ listener_cleanup v))"

section \<open>The stream program\<close>

subsection \<open>The shared state and the wait loop\<close>

text \<open>The state that the main thread and the callbacks share under a mutex.\<close>

record stream_smoke_state =
  sm_failed :: bool
  sm_client_connected :: bool
  sm_client_stream_started :: bool
  sm_server_new_connection :: bool
  sm_server_peer_stream_started :: bool
  sm_server_receive_seen :: bool
  sm_server_send_complete :: bool
  sm_client_response_finished :: bool
  sm_server_receive_buffer_count :: u32
  sm_server_stream_id :: u64
  sm_client_response_len :: u32
  sm_client_response :: "u8 list"

definition stream_smoke_start :: stream_smoke_state where
  "stream_smoke_start = \<lparr>sm_failed = False, sm_client_connected = False, sm_client_stream_started = False,
     sm_server_new_connection = False, sm_server_peer_stream_started = False, sm_server_receive_seen = False,
     sm_server_send_complete = False, sm_client_response_finished = False, sm_server_receive_buffer_count = 0,
     sm_server_stream_id = 0, sm_client_response_len = 0, sm_client_response = replicate 128 0\<rparr>"

datatype stream_smoke_wait =
    ISM_STREAM_SMOKE_WAIT_CLIENT_CONNECTED
  | ISM_STREAM_SMOKE_WAIT_CLIENT_STREAM_STARTED
  | ISM_STREAM_SMOKE_WAIT_SERVER_RESPONSE

definition ism_msquic_stream_smoke_set_failed :: "stream_smoke_state \<Rightarrow> stream_smoke_state" where
  "ism_msquic_stream_smoke_set_failed s = s\<lparr>sm_failed := True\<rparr>"

definition ism_msquic_stream_smoke_condition_met :: "stream_smoke_state \<Rightarrow> stream_smoke_wait \<Rightarrow> bool" where
  "ism_msquic_stream_smoke_condition_met s condition =
     (case condition of
        ISM_STREAM_SMOKE_WAIT_CLIENT_CONNECTED \<Rightarrow> sm_client_connected s
      | ISM_STREAM_SMOKE_WAIT_CLIENT_STREAM_STARTED \<Rightarrow> sm_client_stream_started s
      | ISM_STREAM_SMOKE_WAIT_SERVER_RESPONSE \<Rightarrow> sm_server_send_complete s \<and> sm_client_response_finished s)"

text \<open>\<open>seen i\<close> is the state that iteration \<open>i\<close> of the loop finds: the callbacks on other threads decide it.\<close>

fun wait_loop :: "(nat \<Rightarrow> stream_smoke_state) \<Rightarrow> stream_smoke_wait \<Rightarrow> nat \<Rightarrow> nat \<Rightarrow> bool" where
  "wait_loop seen condition i 0 = False"
| "wait_loop seen condition i (Suc n) =
     (if sm_failed (seen i) then False
      else if ism_msquic_stream_smoke_condition_met (seen i) condition then True
      else wait_loop seen condition (Suc i) n)"

definition ism_msquic_stream_smoke_wait_for :: "(nat \<Rightarrow> stream_smoke_state) \<Rightarrow> stream_smoke_wait \<Rightarrow> bool" where
  "ism_msquic_stream_smoke_wait_for seen condition = wait_loop seen condition 0 10000"

subsection \<open>The client's callbacks\<close>

datatype client_connection_event =
    CLIENT_CONNECTION_CONNECTED
  | CLIENT_CONNECTION_SHUTDOWN_INITIATED_BY_TRANSPORT
  | CLIENT_CONNECTION_OTHER

datatype client_stream_event =
    CLIENT_STREAM_START_COMPLETE quic_status
  | CLIENT_STREAM_SEND_COMPLETE bool
  | CLIENT_STREAM_RECEIVE "(addr \<times> u32) list option" u32
  | CLIENT_STREAM_PEER_SEND_SHUTDOWN
  | CLIENT_STREAM_OTHER

definition ism_msquic_stream_smoke_client_connection_callback ::
  "client_connection_event option \<Rightarrow> stream_smoke_state option \<Rightarrow> quic_status \<times> stream_smoke_state option" where
  "ism_msquic_stream_smoke_client_connection_callback event state =
     (case (state, event) of
        (Some s, Some ev) \<Rightarrow>
          (case ev of
             CLIENT_CONNECTION_CONNECTED \<Rightarrow> (QUIC_STATUS_SUCCESS, Some (s\<lparr>sm_client_connected := True\<rparr>))
           | CLIENT_CONNECTION_SHUTDOWN_INITIATED_BY_TRANSPORT \<Rightarrow>
               (QUIC_STATUS_SUCCESS, Some (if \<not> sm_server_send_complete s then ism_msquic_stream_smoke_set_failed s else s))
           | CLIENT_CONNECTION_OTHER \<Rightarrow> (QUIC_STATUS_SUCCESS, Some s))
      | _ \<Rightarrow> (QUIC_STATUS_INVALID_PARAMETER, state))"

text \<open>The loop over the received buffers, with \<^verbatim>\<open>break\<close> on a buffer that is null or does not fit.\<close>

fun collect_response :: "mem \<Rightarrow> (addr \<times> u32) list \<Rightarrow> stream_smoke_state \<Rightarrow> stream_smoke_state" where
  "collect_response m [] s = s"
| "collect_response m ((data, len) # rest) s =
     (if data = NULL \<or> len > 128 - sm_client_response_len s then s\<lparr>sm_failed := True\<rparr>
      else collect_response m rest
        (s\<lparr>sm_client_response :=
             take (unat (sm_client_response_len s)) (sm_client_response s) @ mem_bytes m data (unat len) @
             drop (unat (sm_client_response_len s) + unat len) (sm_client_response s),
           sm_client_response_len := sm_client_response_len s + len\<rparr>))"

definition ism_msquic_stream_smoke_client_stream_callback ::
  "(quic_status \<Rightarrow> bool) \<Rightarrow> client_stream_event option \<Rightarrow> mem \<Rightarrow> stream_smoke_state option \<Rightarrow> quic_status \<times> stream_smoke_state option" where
  "ism_msquic_stream_smoke_client_stream_callback quic_failed event m state =
     (case (state, event) of
        (Some s, Some ev) \<Rightarrow>
          (case ev of
             CLIENT_STREAM_START_COMPLETE status \<Rightarrow>
               (QUIC_STATUS_SUCCESS, Some (if quic_failed status then ism_msquic_stream_smoke_set_failed s
                  else s\<lparr>sm_client_stream_started := True\<rparr>))
           | CLIENT_STREAM_SEND_COMPLETE canceled \<Rightarrow>
               (QUIC_STATUS_SUCCESS, Some (if canceled then ism_msquic_stream_smoke_set_failed s else s))
           | CLIENT_STREAM_RECEIVE buffers buffer_count \<Rightarrow>
               if buffers = None \<and> buffer_count > 0
               then (QUIC_STATUS_INVALID_PARAMETER, Some (ism_msquic_stream_smoke_set_failed s))
               else (QUIC_STATUS_SUCCESS,
                 Some (collect_response m (map (\<lambda>k. the buffers ! k) [0..<unat buffer_count]) s))
           | CLIENT_STREAM_PEER_SEND_SHUTDOWN \<Rightarrow> (QUIC_STATUS_SUCCESS, Some (s\<lparr>sm_client_response_finished := True\<rparr>))
           | CLIENT_STREAM_OTHER \<Rightarrow> (QUIC_STATUS_SUCCESS, Some s))
      | _ \<Rightarrow> (QUIC_STATUS_INVALID_PARAMETER, state))"

subsection \<open>The server's callbacks\<close>

text \<open>The server context points to the function table, the runtime stream and the shared state. The
  callbacks it installs are the server's own; \<open>StreamCallback i\<close> stands for the one of runtime stream \<open>i\<close>.\<close>

record 'w stream_smoke_server_context =
  svr_api :: "'w quic_api option"
  svr_configuration :: hquic
  svr_stream_runtime :: rt_ptr
  svr_state :: obj_ptr

type_synonym 'w server_vars = "'w rt_state \<times> stream_smoke_state"

definition ism_msquic_stream_smoke_server_stream_callback ::
  "build \<Rightarrow> hquic \<Rightarrow> 'w stream_smoke_server_context option \<Rightarrow> quic_stream_event option \<Rightarrow> 'w server_vars
     \<Rightarrow> quic_status \<times> 'w server_vars" where
  "ism_msquic_stream_smoke_server_stream_callback bld stream context event v =
     (case (context, event) of
        (Some c, Some ev) \<Rightarrow>
          if svr_stream_runtime c = None \<or> svr_state c = Null then (QUIC_STATUS_INVALID_PARAMETER, v)
          else
            let s1 = (case ev of
                        QUIC_STREAM_EVENT_RECEIVE _ buffer_count _ \<Rightarrow>
                          (snd v)\<lparr>sm_server_receive_seen := True,
                            sm_server_receive_buffer_count := sm_server_receive_buffer_count (snd v) + buffer_count\<rparr>
                      | _ \<Rightarrow> snd v);
                (status, st1) = ism_msquic_runtime_stream_callback bld (svr_stream_runtime c) event (fst v);
                s2 = (case ev of
                        QUIC_STREAM_EVENT_SEND_COMPLETE _ canceled \<Rightarrow>
                          if tr_failed (sh_ctx st1) status \<or> canceled then s1\<lparr>sm_failed := True\<rparr>
                          else s1\<lparr>sm_server_send_complete := True\<rparr>
                      | _ \<Rightarrow> s1);
                st2 = (case svr_api c of
                         Some api \<Rightarrow>
                           if \<not> tr_failed (sh_ctx st1) status \<and> ev = QUIC_STREAM_EVENT_SHUTDOWN_COMPLETE
                           then upd_world (StreamClose api stream) st1 else st1
                       | None \<Rightarrow> st1) in
            (status, (st2, s2))
      | _ \<Rightarrow> (QUIC_STATUS_INVALID_PARAMETER, v))"

definition ism_msquic_stream_smoke_server_connection_callback ::
  "hquic \<Rightarrow> 'w stream_smoke_server_context option \<Rightarrow> quic_connection_event option \<Rightarrow> 'w server_vars
     \<Rightarrow> quic_status \<times> 'w server_vars" where
  "ism_msquic_stream_smoke_server_connection_callback connection context event v =
     (case (context, event) of
        (Some c, Some ev) \<Rightarrow>
          (case svr_api c of
             None \<Rightarrow> (QUIC_STATUS_INVALID_PARAMETER, v)
           | Some api \<Rightarrow>
               (case ev of
                  QUIC_CONNECTION_EVENT_PEER_STREAM_STARTED stream \<Rightarrow>
                    let s1 = (snd v)\<lparr>sm_server_peer_stream_started := True\<rparr> in
                    if stream = 0 then (QUIC_STATUS_INVALID_STATE, (fst v, ism_msquic_stream_smoke_set_failed s1))
                    else
                      let (status, stream_id_len, stream_id, w) = GetParam api stream (tr_world (sh_ctx (fst v)));
                          st1 = upd_world (\<lambda>_. w) (fst v) in
                      if tr_failed (sh_ctx st1) status \<or> stream_id_len \<noteq> 8
                      then (QUIC_STATUS_INVALID_STATE, (st1, ism_msquic_stream_smoke_set_failed s1))
                      else
                        let i = the (svr_stream_runtime c);
                            st2 = upd_rt i (\<lambda>r. r\<lparr>rt_stream_id := stream_id\<rparr>) st1;
                            s2 = s1\<lparr>sm_server_stream_id := stream_id\<rparr>;
                            st3 = ism_msquic_runtime_bind_msquic_stream (svr_stream_runtime c) (Some api) stream st2 in
                        (QUIC_STATUS_SUCCESS,
                         (upd_world (SetCallbackHandler api stream (StreamCallback i)) st3, s2))
                | QUIC_CONNECTION_EVENT_SHUTDOWN_COMPLETE \<Rightarrow>
                    (QUIC_STATUS_SUCCESS,
                     (if connection \<noteq> 0
                      then (case ConnectionClose api of Some close \<Rightarrow> upd_world (close connection) (fst v) | None \<Rightarrow> fst v)
                      else fst v, snd v))
                | QUIC_CONNECTION_EVENT_OTHER \<Rightarrow> (QUIC_STATUS_SUCCESS, v)))
      | _ \<Rightarrow> (QUIC_STATUS_INVALID_PARAMETER, v))"

definition ism_msquic_stream_smoke_server_listener_callback ::
  "'w stream_smoke_server_context option \<Rightarrow> quic_listener_event option \<Rightarrow> 'w server_vars \<Rightarrow> quic_status \<times> 'w server_vars" where
  "ism_msquic_stream_smoke_server_listener_callback context event v =
     (case (context, event) of
        (Some c, Some ev) \<Rightarrow>
          (case svr_api c of
             None \<Rightarrow> (QUIC_STATUS_INVALID_PARAMETER, v)
           | Some api \<Rightarrow>
               (case ev of
                  QUIC_LISTENER_EVENT_NEW_CONNECTION connection \<Rightarrow>
                    if connection = 0 then (QUIC_STATUS_INVALID_PARAMETER, (fst v, ism_msquic_stream_smoke_set_failed (snd v)))
                    else
                      let s1 = (snd v)\<lparr>sm_server_new_connection := True\<rparr>;
                          st1 = upd_world (SetCallbackHandler api connection ConnectionCallback) (fst v);
                          (status, w) = ConnectionSetConfiguration api connection (svr_configuration c) (tr_world (sh_ctx st1)) in
                      (status, (upd_world (\<lambda>_. w) st1, s1))
                | QUIC_LISTENER_EVENT_OTHER \<Rightarrow> (QUIC_STATUS_SUCCESS, v)))
      | _ \<Rightarrow> (QUIC_STATUS_INVALID_PARAMETER, v))"

text \<open>The server side that the main function sets up: adapter, queue of four events and runtime stream 0.\<close>

definition stream_smoke_server_setup :: "addr \<Rightarrow> addr \<Rightarrow> addr \<Rightarrow> 'w rt_state \<Rightarrow> 'w rt_state" where
  "stream_smoke_server_setup response_buffer send_buffer ingress_buffer st =
     (let st1 = ism_msquic_adapter_init Obj response_buffer 128 send_buffer 128
            (Some (ism_msquic_runtime_send (Some 0))) (sh_ctx st) st;
          st2 = put_queue (ism_shell_event_queue_init (queue_at Obj st1) (q_events (sh_queue st1)) 4) st1 in
      ism_msquic_runtime_stream_init (Some 0) Obj Obj 0 ingress_buffer 128 st2)"

subsection \<open>The main function\<close>

record stream_vars =
  st_api :: hquic
  st_server_registration :: hquic
  st_client_registration :: hquic
  st_server_configuration :: hquic
  st_client_configuration :: hquic
  st_listener :: hquic
  st_listener_started :: bool
  st_client_connection :: hquic
  st_client_stream :: hquic
  st_result :: int

definition stream_vars_start :: stream_vars where
  "stream_vars_start = \<lparr>st_api = 0, st_server_registration = 0, st_client_registration = 0, st_server_configuration = 0,
     st_client_configuration = 0, st_listener = 0, st_listener_started = False, st_client_connection = 0,
     st_client_stream = 0, st_result = 1\<rparr>"

text \<open>The verdict on the shared state at the end.\<close>

definition stream_smoke_ok :: "stream_smoke_state \<Rightarrow> bool" where
  "stream_smoke_ok s \<longleftrightarrow> \<not> sm_failed s \<and> sm_server_stream_id s = 0 \<and> sm_server_send_complete s \<and>
     sm_client_response_finished s \<and> sm_client_response_len s = 35 \<and>
     take 35 (sm_client_response s) = expected_validated_stream_response"

definition ism_msquic_stream_smoke_load_server_credentials ::
  "msquic \<Rightarrow> hquic \<Rightarrow> string \<Rightarrow> string \<Rightarrow> msquic_call list \<Rightarrow> bool \<times> msquic_call list" where
  "ism_msquic_stream_smoke_load_server_credentials ms configuration cert_file key_file tr =
     (let (r, tr) = invoke ms (Call_LoadServerCredential configuration cert_file key_file) tr in
      (\<not> ms_failed ms (out_status r), tr))"

definition ism_msquic_stream_smoke_load_client_credentials ::
  "msquic \<Rightarrow> hquic \<Rightarrow> msquic_call list \<Rightarrow> bool \<times> msquic_call list" where
  "ism_msquic_stream_smoke_load_client_credentials ms configuration tr =
     (let (r, tr) = invoke ms (Call_LoadClientCredential configuration) tr in
      (\<not> ms_failed ms (out_status r), tr))"

text \<open>\<open>seen tr i\<close> is the shared state as iteration \<open>i\<close> of the wait loop after the calls \<open>tr\<close> finds it,
  \<open>final\<close> the one that the verdict reads.\<close>

definition stream_open_part ::
  "msquic \<Rightarrow> string \<Rightarrow> string \<Rightarrow> stream_vars \<Rightarrow> msquic_call list \<Rightarrow> bool \<times> stream_vars \<times> msquic_call list" where
  "stream_open_part ms cert key v tr =
     (let (r, tr) = invoke ms Call_MsQuicOpen2 tr; v = v\<lparr>st_api := out_handle r\<rparr> in
      if open_failed ms r then (False, v, tr) else
      let (r, tr) = invoke ms (Call_RegistrationOpen stream_server_name) tr;
          v = v\<lparr>st_server_registration := out_handle r\<rparr> in
      if open_failed ms r then (False, v, tr) else
      let (r, tr) = invoke ms (Call_RegistrationOpen stream_client_name) tr;
          v = v\<lparr>st_client_registration := out_handle r\<rparr> in
      if open_failed ms r then (False, v, tr) else
      let (r, tr) = invoke ms (Call_ConfigurationOpen (st_server_registration v) alpn_bytes (Some 1)) tr;
          v = v\<lparr>st_server_configuration := out_handle r\<rparr> in
      if open_failed ms r then (False, v, tr) else
      let (r, tr) = invoke ms (Call_ConfigurationOpen (st_client_registration v) alpn_bytes None) tr;
          v = v\<lparr>st_client_configuration := out_handle r\<rparr> in
      if open_failed ms r then (False, v, tr) else
      let (loaded, tr) = ism_msquic_stream_smoke_load_server_credentials ms (st_server_configuration v) cert key tr in
      if \<not> loaded then (False, v, tr) else
      let (loaded, tr) = ism_msquic_stream_smoke_load_client_credentials ms (st_client_configuration v) tr in
      if \<not> loaded then (False, v, tr) else
      let (r, tr) = invoke ms (Call_ListenerOpen (st_server_registration v)) tr; v = v\<lparr>st_listener := out_handle r\<rparr> in
      if open_failed ms r then (False, v, tr) else
      let (r, tr) = invoke ms (Call_ListenerStart (st_listener v) alpn_bytes) tr in
      if ms_failed ms (out_status r) then (False, v, tr) else
      (True, v\<lparr>st_listener_started := True\<rparr>, tr))"

definition stream_client_part ::
  "msquic \<Rightarrow> (msquic_call list \<Rightarrow> nat \<Rightarrow> stream_smoke_state) \<Rightarrow> stream_smoke_state \<Rightarrow> u8 list \<Rightarrow> stream_vars \<Rightarrow> msquic_call list
     \<Rightarrow> stream_vars \<times> msquic_call list" where
  "stream_client_part ms seen final query v tr =
     (let (r, tr) = invoke ms (Call_GetLocalAddress (st_listener v)) tr in
      if address_failed ms r then (v, tr) else
      let port = out_port r;
          (r, tr) = invoke ms (Call_ConnectionOpen (st_client_registration v)) tr; v = v\<lparr>st_client_connection := out_handle r\<rparr> in
      if open_failed ms r then (v, tr) else
      let (r, tr) = invoke ms (Call_ConnectionStart (st_client_connection v) (st_client_configuration v) port) tr in
      if ms_failed ms (out_status r) then (v, tr) else
      if \<not> ism_msquic_stream_smoke_wait_for (seen tr) ISM_STREAM_SMOKE_WAIT_CLIENT_CONNECTED then (v, tr) else
      let (r, tr) = invoke ms (Call_StreamOpen (st_client_connection v)) tr; v = v\<lparr>st_client_stream := out_handle r\<rparr> in
      if open_failed ms r then (v, tr) else
      let (r, tr) = invoke ms (Call_StreamStart (st_client_stream v)) tr in
      if ms_failed ms (out_status r) then (v, tr) else
      if \<not> ism_msquic_stream_smoke_wait_for (seen tr) ISM_STREAM_SMOKE_WAIT_CLIENT_STREAM_STARTED then (v, tr) else
      let (r, tr) = invoke ms (Call_StreamSend (st_client_stream v) query) tr in
      if ms_failed ms (out_status r) then (v, tr) else
      if \<not> ism_msquic_stream_smoke_wait_for (seen tr) ISM_STREAM_SMOKE_WAIT_SERVER_RESPONSE then (v, tr) else
      if \<not> stream_smoke_ok final then (v, tr) else
      (v\<lparr>st_result := 0\<rparr>, tr))"

definition stream_cleanup :: "stream_vars \<Rightarrow> msquic_call list" where
  "stream_cleanup v =
     (if st_client_stream v \<noteq> 0 \<and> st_api v \<noteq> 0 then [Call_StreamShutdown (st_client_stream v)] else []) @
     (if st_client_stream v \<noteq> 0 \<and> st_api v \<noteq> 0 then [Call_StreamClose (st_client_stream v)] else []) @
     (if st_client_connection v \<noteq> 0 \<and> st_api v \<noteq> 0 then [Call_ConnectionShutdown (st_client_connection v)] else []) @
     (if st_client_connection v \<noteq> 0 \<and> st_api v \<noteq> 0 then [Call_ConnectionClose (st_client_connection v)] else []) @
     (if st_listener v \<noteq> 0 \<and> st_api v \<noteq> 0
      then (if st_listener_started v then [Call_ListenerStop (st_listener v)] else []) @ [Call_ListenerClose (st_listener v)]
      else []) @
     (if st_client_configuration v \<noteq> 0 \<and> st_api v \<noteq> 0 then [Call_ConfigurationClose (st_client_configuration v)] else []) @
     (if st_server_configuration v \<noteq> 0 \<and> st_api v \<noteq> 0 then [Call_ConfigurationClose (st_server_configuration v)] else []) @
     (if st_client_registration v \<noteq> 0 \<and> st_api v \<noteq> 0 then [Call_RegistrationClose (st_client_registration v)] else []) @
     (if st_server_registration v \<noteq> 0 \<and> st_api v \<noteq> 0 then [Call_RegistrationClose (st_server_registration v)] else []) @
     (if st_api v \<noteq> 0 then [Call_MsQuicClose (st_api v)] else [])"

definition stream_main ::
  "msquic \<Rightarrow> (msquic_call list \<Rightarrow> nat \<Rightarrow> stream_smoke_state) \<Rightarrow> stream_smoke_state \<Rightarrow> string list \<Rightarrow> int \<times> msquic_call list" where
  "stream_main ms seen final argv =
     (if length argv \<noteq> 3 then (1, [])
      else
        let (go, v, tr) = stream_open_part ms (argv ! 1) (argv ! 2) stream_vars_start [];
            (v, tr) = (if go then stream_client_part ms seen final exact_a_query v tr else (v, tr)) in
        (st_result v, tr @ stream_cleanup v))"

section \<open>Every handle is released once, in reverse order\<close>

datatype resource = Api | Registration | Configuration | Listener | Connection | Stream

fun opens :: "msquic_call \<Rightarrow> resource option" where
  "opens Call_MsQuicOpen2 = Some Api"
| "opens (Call_RegistrationOpen _) = Some Registration"
| "opens (Call_ConfigurationOpen _ _ _) = Some Configuration"
| "opens (Call_ListenerOpen _) = Some Listener"
| "opens (Call_ConnectionOpen _) = Some Connection"
| "opens (Call_StreamOpen _) = Some Stream"
| "opens _ = None"

fun closes :: "msquic_call \<Rightarrow> (resource \<times> hquic) list" where
  "closes (Call_MsQuicClose h) = [(Api, h)]"
| "closes (Call_RegistrationClose h) = [(Registration, h)]"
| "closes (Call_ConfigurationClose h) = [(Configuration, h)]"
| "closes (Call_ListenerClose h) = [(Listener, h)]"
| "closes (Call_ConnectionClose h) = [(Connection, h)]"
| "closes (Call_StreamClose h) = [(Stream, h)]"
| "closes _ = []"

text \<open>What a run got from the library, and what it gave back.\<close>

definition got_handle :: "resource \<Rightarrow> hquic \<Rightarrow> (resource \<times> hquic) list" where
  "got_handle k h = (if h \<noteq> 0 then [(k, h)] else [])"

fun acquired_from :: "msquic \<Rightarrow> msquic_call list \<Rightarrow> msquic_call list \<Rightarrow> (resource \<times> hquic) list" where
  "acquired_from ms done [] = []"
| "acquired_from ms done (c # cs) =
     (case opens c of
        Some k \<Rightarrow> got_handle k (out_handle (ms_call ms done c))
      | None \<Rightarrow> []) @ acquired_from ms (done @ [c]) cs"

definition acquired :: "msquic \<Rightarrow> msquic_call list \<Rightarrow> (resource \<times> hquic) list" where
  "acquired ms tr = acquired_from ms [] tr"

definition released :: "msquic_call list \<Rightarrow> (resource \<times> hquic) list" where
  "released tr = concat (map closes tr)"

text \<open>Every call that can fail succeeded.\<close>

fun may_fail :: "msquic_call \<Rightarrow> bool" where
  "may_fail (Call_StreamShutdown _) = False"
| "may_fail (Call_StreamClose _) = False"
| "may_fail (Call_ConnectionShutdown _) = False"
| "may_fail (Call_ConnectionClose _) = False"
| "may_fail (Call_ListenerStop _) = False"
| "may_fail (Call_ListenerClose _) = False"
| "may_fail (Call_ConfigurationClose _) = False"
| "may_fail (Call_RegistrationClose _) = False"
| "may_fail (Call_MsQuicClose _) = False"
| "may_fail _ = True"

definition call_ok :: "msquic \<Rightarrow> msquic_call \<Rightarrow> call_result \<Rightarrow> bool" where
  "call_ok ms c r \<longleftrightarrow>
     (may_fail c \<longrightarrow> \<not> ms_failed ms (out_status r)) \<and> (opens c \<noteq> None \<longrightarrow> out_handle r \<noteq> 0) \<and>
     (case c of Call_GetLocalAddress _ \<Rightarrow> out_len r = ms_addr_size ms \<and> out_port r \<noteq> 0 | _ \<Rightarrow> True)"

fun succeeded_from :: "msquic \<Rightarrow> msquic_call list \<Rightarrow> msquic_call list \<Rightarrow> bool" where
  "succeeded_from ms done [] = True"
| "succeeded_from ms done (c # cs) = (call_ok ms c (ms_call ms done c) \<and> succeeded_from ms (done @ [c]) cs)"

definition succeeded :: "msquic \<Rightarrow> msquic_call list \<Rightarrow> bool" where
  "succeeded ms tr = succeeded_from ms [] tr"

text \<open>The documented behaviour of \<^verbatim>\<open>MsQuicOpen2\<close>: it sets the function table only when it succeeds.\<close>

definition open_documented :: "msquic \<Rightarrow> bool" where
  "open_documented ms \<longleftrightarrow>
     (ms_failed ms (out_status (ms_call ms [] Call_MsQuicOpen2)) \<longrightarrow> out_handle (ms_call ms [] Call_MsQuicOpen2) = 0)"

lemmas trace_defs = acquired_def released_def succeeded_def invoke_def Let_def

lemma got_handle_simps [simp]: "got_handle k 0 = []" "h \<noteq> 0 \<Longrightarrow> got_handle k h = [(k, h)]" "rev (got_handle k h) = got_handle k h" "got_handle k h = [] \<longleftrightarrow> h = 0"
  by (simp_all add: got_handle_def)

lemma call_ok_simps [simp]:
  "call_ok ms Call_MsQuicOpen2 r = (\<not> open_failed ms r)" "call_ok ms (Call_RegistrationOpen n) r = (\<not> open_failed ms r)"
  "call_ok ms (Call_ConfigurationOpen h a s) r = (\<not> open_failed ms r)" "call_ok ms (Call_ListenerOpen h) r = (\<not> open_failed ms r)"
  "call_ok ms (Call_ConnectionOpen h) r = (\<not> open_failed ms r)" "call_ok ms (Call_StreamOpen h) r = (\<not> open_failed ms r)"
  "call_ok ms (Call_GetLocalAddress h) r = (\<not> address_failed ms r)"
  "may_fail c \<Longrightarrow> opens c = None \<Longrightarrow> (\<And>h. c \<noteq> Call_GetLocalAddress h) \<Longrightarrow> call_ok ms c r = (\<not> ms_failed ms (out_status r))"
  "\<not> may_fail c \<Longrightarrow> call_ok ms c r"
  by (auto simp: call_ok_def open_failed_def address_failed_def split: msquic_call.splits)

lemma null_handle_failed [simp]: "out_handle r = 0 \<Longrightarrow> open_failed ms r"
  by (simp add: open_failed_def)

lemma handle_pos: "\<not> open_failed ms r \<Longrightarrow> 0 < out_handle r"
  by (simp add: open_failed_def)

lemma link_balanced:
  assumes "open_documented ms" and "link_main ms = (result, tr)"
  shows "released tr = rev (acquired ms tr)" and "result = 0 \<longleftrightarrow> succeeded ms tr"
  using assms by (auto simp: link_main_def open_documented_def trace_defs open_failed_def split: if_splits)

lemma lifecycle_balanced:
  assumes "open_documented ms" and "lifecycle_main ms = (result, tr)"
  shows "released tr = rev (acquired ms tr)" and "result = 0 \<longleftrightarrow> succeeded ms tr"
  using assms
  by (auto simp: lifecycle_main_def lifecycle_body_def lifecycle_cleanup_def msquic_start_def open_documented_def
      trace_defs open_failed_def split: if_splits)

lemma listener_balanced:
  assumes "open_documented ms" and "listener_main ms = (result, tr)"
  shows "released tr = rev (acquired ms tr)" and "result = 0 \<longleftrightarrow> succeeded ms tr"
  using assms
  by (auto simp: listener_main_def listener_body_def listener_cleanup_def msquic_start_def open_documented_def
      trace_defs open_failed_def split: if_splits)

text \<open>The stream program in two halves: the handles of its variables are what it acquired so far.\<close>

definition stream_handles :: "stream_vars \<Rightarrow> (resource \<times> hquic) list" where
  "stream_handles v = got_handle Api (st_api v) @ got_handle Registration (st_server_registration v) @
     got_handle Registration (st_client_registration v) @ got_handle Configuration (st_server_configuration v) @
     got_handle Configuration (st_client_configuration v) @ got_handle Listener (st_listener v) @
     got_handle Connection (st_client_connection v) @ got_handle Stream (st_client_stream v)"

lemma acquired_append: "acquired_from ms done (xs @ ys) = acquired_from ms done xs @ acquired_from ms (done @ xs) ys"
  by (induction xs arbitrary: "done") simp_all

lemma succeeded_append:
  "succeeded_from ms done (xs @ ys) \<longleftrightarrow> succeeded_from ms done xs \<and> succeeded_from ms (done @ xs) ys"
  by (induction xs arbitrary: "done") simp_all

lemma stream_open_handles:
  assumes "stream_open_part ms cert key stream_vars_start [] = (go, v, tr)"
  shows "acquired ms tr = stream_handles v" and "released tr = []" and "go \<longleftrightarrow> succeeded ms tr"
    and "st_client_connection v = 0" "st_client_stream v = 0" "st_result v = 1"
    and "st_api v = 0 \<longrightarrow> stream_handles v = []" and "go \<longrightarrow> st_api v \<noteq> 0"
  using assms
  by (auto simp: stream_open_part_def stream_vars_start_def stream_handles_def trace_defs
      ism_msquic_stream_smoke_load_server_credentials_def ism_msquic_stream_smoke_load_client_credentials_def intro: handle_pos split: if_split_asm)

lemma stream_client_handles:
  assumes "stream_client_part ms seen final query v tr = (v', tr')" and "st_client_connection v = 0" "st_client_stream v = 0"
    and "st_result v = 1"
  obtains new where "tr' = tr @ new" "stream_handles v' = stream_handles v @ acquired_from ms tr new" "released new = []"
    "st_result v' = 0 \<longrightarrow> succeeded_from ms tr new \<and> stream_smoke_ok final" "st_api v' = st_api v"
proof -
  have "\<exists>new. tr' = tr @ new \<and> stream_handles v' = stream_handles v @ acquired_from ms tr new \<and> released new = [] \<and>
      (st_result v' = 0 \<longrightarrow> succeeded_from ms tr new \<and> stream_smoke_ok final) \<and> st_api v' = st_api v"
    using assms
    by (auto simp: stream_client_part_def stream_handles_def trace_defs split: if_split_asm)
  then show ?thesis using that by blast
qed

lemma released_append [simp]: "released (xs @ ys) = released xs @ released ys" "released [] = []"
  by (simp_all add: released_def)

lemma stream_cleanup_released:
  assumes "st_api v = 0 \<longrightarrow> stream_handles v = []"
  shows "released (stream_cleanup v) = rev (stream_handles v)"
proof (cases "st_api v = 0")
  case True
  with assms show ?thesis by (simp add: stream_handles_def stream_cleanup_def)
next
  case False
  have close: "released (if h \<noteq> 0 \<and> st_api v \<noteq> 0 then [c] else []) = got_handle k h" if "closes c = [(k, h)]" for c k h
    using that False by (simp add: got_handle_def released_def)
  have none: "released (if b then [c] else []) = []" if "closes c = []" for b c using that by (simp add: released_def)
  have listener: "released (if h \<noteq> 0 \<and> st_api v \<noteq> 0 then (if b then [Call_ListenerStop h] else []) @ [Call_ListenerClose h] else [])
      = got_handle Listener h" for h b
    using False by (simp add: got_handle_def released_def)
  show ?thesis
    unfolding stream_cleanup_def stream_handles_def released_append listener
    using False by (simp add: close none released_def del: if_split)
qed

lemma stream_balanced:
  assumes "stream_main ms seen final argv = (result, tr)"
  shows "released tr = rev (acquired ms tr)" and "result = 0 \<longrightarrow> succeeded ms tr \<and> stream_smoke_ok final"
proof -
  have "released tr = rev (acquired ms tr) \<and> (result = 0 \<longrightarrow> succeeded ms tr \<and> stream_smoke_ok final)"
  proof (cases "length argv = 3")
    case False
    with assms show ?thesis by (auto simp: stream_main_def acquired_def)
  next
    case True
    obtain go v tr1 where o: "stream_open_part ms (argv ! 1) (argv ! 2) stream_vars_start [] = (go, v, tr1)"
      by (metis prod_cases3)
    note O = stream_open_handles [OF o]
    have close: "acquired_from ms d (stream_cleanup w) = []" "succeeded_from ms d (stream_cleanup w)" for d w
      by (simp_all add: stream_cleanup_def acquired_append succeeded_append)
    show ?thesis
    proof (cases go)
      case False
      then have "tr = tr1 @ stream_cleanup v" "result = 1" using assms True o O(6) by (simp_all add: stream_main_def)
      with O(1,2,7) close stream_cleanup_released [of v] show ?thesis
        by (simp add: acquired_def acquired_append)
    next
      case go: True
      obtain v' tr2 where c: "stream_client_part ms seen final exact_a_query v tr1 = (v', tr2)" by fastforce
      obtain new where N: "tr2 = tr1 @ new" "stream_handles v' = stream_handles v @ acquired_from ms tr1 new" "released new = []"
        "st_result v' = 0 \<longrightarrow> succeeded_from ms tr1 new \<and> stream_smoke_ok final" "st_api v' = st_api v"
        by (rule stream_client_handles [OF c O(4-6)])
      have st: "tr = tr2 @ stream_cleanup v'" "result = st_result v'" using assms True o c go by (simp_all add: stream_main_def)
      have "st_api v' \<noteq> 0" using go O(8) N(5) by simp
      then have "released (stream_cleanup v') = rev (stream_handles v')" by (intro stream_cleanup_released) simp
      with st N O(1-3) go close show ?thesis
        by (simp add: acquired_def succeeded_def acquired_append succeeded_append)
    qed
  qed
  then show "released tr = rev (acquired ms tr)" and "result = 0 \<longrightarrow> succeeded ms tr \<and> stream_smoke_ok final" by simp_all
qed

section \<open>The wait loop and the client's response\<close>

lemma wait_loop_iff:
  "wait_loop seen condition i n \<longleftrightarrow>
     (\<exists>k<n. ism_msquic_stream_smoke_condition_met (seen (i + k)) condition \<and> (\<forall>j\<le>k. \<not> sm_failed (seen (i + j))))"
proof (induction n arbitrary: i)
  case (Suc n)
  show ?case
  proof (cases "sm_failed (seen i) \<or> ism_msquic_stream_smoke_condition_met (seen i) condition")
    case True
    then show ?thesis
    proof (cases "sm_failed (seen i)")
      case True
      then have "\<not> (\<forall>j\<le>k. \<not> sm_failed (seen (i + j)))" for k by (auto intro!: exI [of _ 0])
      with True show ?thesis by simp
    qed (auto intro!: exI [of _ 0])
  next
    case False
    have shift: "(\<forall>j\<le>Suc k. \<not> sm_failed (seen (i + j))) \<longleftrightarrow> (\<forall>j\<le>k. \<not> sm_failed (seen (Suc i + j)))" for k
      using False by (auto simp: all_conj_distrib less_Suc_eq_le [symmetric] All_less_Suc2)
    from False have "\<not> ism_msquic_stream_smoke_condition_met (seen (i + 0)) condition" by simp
    with False Suc.IH [of "Suc i"] shift show ?thesis by (simp add: Ex_less_Suc2)
  qed
qed simp

text \<open>The response collected so far stands at the beginning of the client's buffer.\<close>

definition collected :: "u8 list \<Rightarrow> stream_smoke_state \<Rightarrow> bool" where
  "collected bs s \<longleftrightarrow> length (sm_client_response s) = 128 \<and> unat (sm_client_response_len s) = length bs \<and>
     take (length bs) (sm_client_response s) = bs"

definition response_bytes :: "mem \<Rightarrow> (addr \<times> u32) list \<Rightarrow> u8 list" where
  "response_bytes m bufs = concat (map (buffer_bytes m) bufs)"

lemma collected_le: "collected bs s \<Longrightarrow> length bs \<le> 128"
  by (auto simp: collected_def) (metis length_take min.cobounded1 min_def)

lemma collect_one:
  assumes c: "collected bs s" and room: "length bs + unat len \<le> 128"
  shows "collected (bs @ mem_bytes m data (unat len)) (s\<lparr>sm_client_response :=
      take (unat (sm_client_response_len s)) (sm_client_response s) @ mem_bytes m data (unat len) @
      drop (unat (sm_client_response_len s) + unat len) (sm_client_response s),
    sm_client_response_len := sm_client_response_len s + len\<rparr>)"
proof -
  have "unat (sm_client_response_len s + len) = length bs + unat len"
    using c room by (simp add: collected_def unat_word_ariths)
  with c room show ?thesis by (simp add: collected_def)
qed


lemma collect_response_frame [simp]:
  "sm_client_connected (collect_response m bufs s) = sm_client_connected s"
  "sm_client_stream_started (collect_response m bufs s) = sm_client_stream_started s"
  "sm_server_new_connection (collect_response m bufs s) = sm_server_new_connection s"
  "sm_server_peer_stream_started (collect_response m bufs s) = sm_server_peer_stream_started s"
  "sm_server_receive_seen (collect_response m bufs s) = sm_server_receive_seen s"
  "sm_server_send_complete (collect_response m bufs s) = sm_server_send_complete s"
  "sm_client_response_finished (collect_response m bufs s) = sm_client_response_finished s"
  "sm_server_receive_buffer_count (collect_response m bufs s) = sm_server_receive_buffer_count s"
  "sm_server_stream_id (collect_response m bufs s) = sm_server_stream_id s"
  by (induction m bufs s rule: collect_response.induct) simp_all

lemma collected_room:
  assumes "collected bs s"
  shows "len > 128 - sm_client_response_len s \<longleftrightarrow> 128 < length bs + unat len"
proof -
  have le: "length bs \<le> 128" "unat (sm_client_response_len s) = length bs"
    using assms collected_le by (auto simp: collected_def)
  then have "unat (128 - sm_client_response_len s) = 128 - length bs"
    by (subst unat_sub) (simp_all add: word_le_nat_alt)
  with le show ?thesis by (auto simp: word_less_nat_alt)
qed

text \<open>A batch of buffers that fits is collected whole; a batch that does not fit marks the run as failed.\<close>

lemma collect_response_fits:
  assumes "collected bs s" and "\<forall>b\<in>set bufs. fst b \<noteq> NULL" and "length bs + length (response_bytes m bufs) \<le> 128"
  shows "collected (bs @ response_bytes m bufs) (collect_response m bufs s) \<and>
    sm_failed (collect_response m bufs s) = sm_failed s"
  using assms
proof (induction m bufs s arbitrary: bs rule: collect_response.induct)
  case (2 m data len rest s)
  have fits: "length bs + unat len \<le> 128" "length bs + unat len + length (response_bytes m rest) \<le> 128"
    using 2(4) by (simp_all add: response_bytes_def buffer_bytes_def)
  have go: "\<not> (data = NULL \<or> len > 128 - sm_client_response_len s)"
    using 2(3) fits(1) collected_room [OF 2(2)] by simp
  show ?case
    using 2(1) [OF go collect_one [OF 2(2) fits(1)]] 2(3) fits(2) go
    by (simp add: response_bytes_def buffer_bytes_def)
qed (simp add: response_bytes_def)

lemma collect_response_overflows:
  assumes "collected bs s" and "\<forall>b\<in>set bufs. fst b \<noteq> NULL" and "128 < length bs + length (response_bytes m bufs)"
  shows "sm_failed (collect_response m bufs s)"
  using assms
proof (induction m bufs s arbitrary: bs rule: collect_response.induct)
  case (1 m s)
  then show ?case using collected_le by (fastforce simp: response_bytes_def)
next
  case (2 m data len rest s)
  show ?case
  proof (cases "length bs + unat len \<le> 128")
    case True
    then have go: "\<not> (data = NULL \<or> len > 128 - sm_client_response_len s)"
      using 2(3) collected_room [OF 2(2)] by simp
    show ?thesis
      using 2(1) [OF go collect_one [OF 2(2) True]] 2(3,4) go by (simp add: response_bytes_def buffer_bytes_def)
  qed (use collected_room [OF 2(2)] in simp)
qed


subsection \<open>The verdict\<close>

text \<open>The stream callbacks of the client, one after the other.\<close>

definition client_step ::
  "(quic_status \<Rightarrow> bool) \<Rightarrow> stream_smoke_state \<Rightarrow> client_stream_event \<times> mem \<Rightarrow> stream_smoke_state" where
  "client_step failed s em =
     the (snd (ism_msquic_stream_smoke_client_stream_callback failed (Some (fst em)) (snd em) (Some s)))"

definition client_run ::
  "(quic_status \<Rightarrow> bool) \<Rightarrow> stream_smoke_state \<Rightarrow> (client_stream_event \<times> mem) list \<Rightarrow> stream_smoke_state" where
  "client_run failed s evs = fold (\<lambda>em s. client_step failed s em) evs s"

text \<open>The bytes an event delivers, what MsQuic promises of a receive event, and the events that report a failure.\<close>

definition event_bytes :: "client_stream_event \<times> mem \<Rightarrow> u8 list" where
  "event_bytes em =
     (case fst em of CLIENT_STREAM_RECEIVE (Some bufs) n \<Rightarrow> response_bytes (snd em) (take (unat n) bufs) | _ \<Rightarrow> [])"

definition event_ok :: "client_stream_event \<Rightarrow> bool" where
  "event_ok ev =
     (case ev of
        CLIENT_STREAM_RECEIVE (Some bufs) n \<Rightarrow> unat n = length bufs \<and> (\<forall>b\<in>set bufs. fst b \<noteq> NULL)
      | CLIENT_STREAM_RECEIVE None n \<Rightarrow> n = 0
      | _ \<Rightarrow> True)"

definition event_failed :: "(quic_status \<Rightarrow> bool) \<Rightarrow> client_stream_event \<Rightarrow> bool" where
  "event_failed failed ev =
     (case ev of
        CLIENT_STREAM_START_COMPLETE status \<Rightarrow> failed status
      | CLIENT_STREAM_SEND_COMPLETE canceled \<Rightarrow> canceled
      | _ \<Rightarrow> False)"

lemma client_step_receive:
  assumes "event_ok (CLIENT_STREAM_RECEIVE bufs n)"
  shows "client_step failed s (CLIENT_STREAM_RECEIVE bufs n, m) =
    collect_response m (case bufs of None \<Rightarrow> [] | Some bs \<Rightarrow> bs) s"
proof (cases bufs)
  case (Some bs)
  have "map (\<lambda>k. bs ! k) [0..<length bs] = bs" by (rule map_nth)
  with assms Some show ?thesis
    by (simp add: client_step_def ism_msquic_stream_smoke_client_stream_callback_def event_ok_def)
qed (use assms in \<open>simp add: client_step_def ism_msquic_stream_smoke_client_stream_callback_def event_ok_def\<close>)

lemma client_step_other [simp]:
  "client_step failed s (CLIENT_STREAM_START_COMPLETE status, m) =
     (if failed status then s\<lparr>sm_failed := True\<rparr> else s\<lparr>sm_client_stream_started := True\<rparr>)"
  "client_step failed s (CLIENT_STREAM_SEND_COMPLETE canceled, m) = (if canceled then s\<lparr>sm_failed := True\<rparr> else s)"
  "client_step failed s (CLIENT_STREAM_PEER_SEND_SHUTDOWN, m) = s\<lparr>sm_client_response_finished := True\<rparr>"
  "client_step failed s (CLIENT_STREAM_OTHER, m) = s"
  by (simp_all add: client_step_def ism_msquic_stream_smoke_client_stream_callback_def
      ism_msquic_stream_smoke_set_failed_def)

lemma client_step_frame:
  assumes "event_ok (fst em)"
  shows "sm_server_stream_id (client_step failed s em) = sm_server_stream_id s"
    and "sm_server_send_complete (client_step failed s em) = sm_server_send_complete s"
    and "sm_client_response_finished (client_step failed s em) \<longleftrightarrow>
      sm_client_response_finished s \<or> fst em = CLIENT_STREAM_PEER_SEND_SHUTDOWN"
proof -
  obtain ev m where em: "em = (ev, m)" by fastforce
  show "sm_server_stream_id (client_step failed s em) = sm_server_stream_id s"
    "sm_server_send_complete (client_step failed s em) = sm_server_send_complete s"
    "sm_client_response_finished (client_step failed s em) \<longleftrightarrow>
      sm_client_response_finished s \<or> fst em = CLIENT_STREAM_PEER_SEND_SHUTDOWN"
    using assms by (cases ev; simp add: em client_step_receive)+
qed

lemma client_step_collects:
  assumes "event_ok (fst em)" and "collected bs s" and "\<not> sm_failed s"
  shows "if event_failed failed (fst em) \<or> 128 < length bs + length (event_bytes em) then sm_failed (client_step failed s em)
    else \<not> sm_failed (client_step failed s em) \<and> collected (bs @ event_bytes em) (client_step failed s em)"
proof (cases em)
  case (Pair ev m)
  show ?thesis
  proof (cases ev)
    case (CLIENT_STREAM_RECEIVE bufs n)
    let ?bufs = "case bufs of None \<Rightarrow> [] | Some bs \<Rightarrow> bs"
    have nn: "\<forall>b\<in>set ?bufs. fst b \<noteq> NULL" and eb: "event_bytes em = response_bytes m ?bufs"
      using assms(1) by (auto simp: Pair CLIENT_STREAM_RECEIVE event_ok_def event_bytes_def response_bytes_def split: option.splits)
    have st: "client_step failed s em = collect_response m ?bufs s"
      using assms(1) client_step_receive [of bufs n failed s m] by (simp add: Pair CLIENT_STREAM_RECEIVE)
    show ?thesis
      using collect_response_fits [OF assms(2) nn, of m] collect_response_overflows [OF assms(2) nn, of m] assms(3)
      by (auto simp: st eb) (simp_all add: Pair CLIENT_STREAM_RECEIVE event_failed_def)
  qed (use assms collected_le [OF assms(2)] in \<open>simp_all add: Pair event_failed_def event_bytes_def collected_def\<close>)
qed

lemma client_step_failed: "sm_failed s \<Longrightarrow> event_ok (fst em) \<Longrightarrow> sm_failed (client_step failed s em)"
proof -
  assume a: "sm_failed s" "event_ok (fst em)"
  have keep: "sm_failed s \<Longrightarrow> sm_failed (collect_response m bufs s)" for m bufs s
    by (induction m bufs s rule: collect_response.induct) simp_all
  obtain ev m where em: "em = (ev, m)" by fastforce
  show ?thesis using a by (cases ev; simp add: em client_step_receive keep)
qed

lemma client_run_failed:
  "sm_failed s \<Longrightarrow> \<forall>em\<in>set evs. event_ok (fst em) \<Longrightarrow> sm_failed (client_run failed s evs)"
  by (induction evs arbitrary: s) (simp_all add: client_run_def client_step_failed)

lemma client_run_collects:
  assumes "\<forall>em\<in>set evs. event_ok (fst em)" and "collected bs s" and "\<not> sm_failed s"
  shows "\<not> sm_failed (client_run failed s evs) \<longleftrightarrow>
      (\<forall>em\<in>set evs. \<not> event_failed failed (fst em)) \<and> length bs + length (concat (map event_bytes evs)) \<le> 128"
    and "\<not> sm_failed (client_run failed s evs) \<longrightarrow> collected (bs @ concat (map event_bytes evs)) (client_run failed s evs)"
  using assms
proof (induction evs arbitrary: s bs)
  case Nil
  { case 1 then show ?case using collected_le by (auto simp: client_run_def) }
  { case 2 then show ?case by (simp add: client_run_def) }
next
  case (Cons em evs)
  have run: "client_run failed s (em # evs) = client_run failed (client_step failed s em) evs" for s
    by (simp add: client_run_def)
  { case 1
    note step = client_step_collects [of em bs s failed, OF _ 1(2,3)]
    show ?case
    proof (cases "event_failed failed (fst em) \<or> 128 < length bs + length (event_bytes em)")
      case True
      then have "sm_failed (client_run failed s (em # evs))"
        using step 1(1) client_run_failed [of "client_step failed s em" evs] by (simp add: run)
      with True show ?thesis by auto
    next
      case False
      with step 1(1) have "collected (bs @ event_bytes em) (client_step failed s em)" "\<not> sm_failed (client_step failed s em)"
        by simp_all
      with Cons.IH(1) [OF _ this] 1(1) False show ?thesis by (auto simp: run)
    qed }
  { case 2
    note step = client_step_collects [of em bs s failed, OF _ 2(2,3)]
    show ?case
    proof (cases "event_failed failed (fst em) \<or> 128 < length bs + length (event_bytes em)")
      case True
      then show ?thesis
        using step 2(1) client_run_failed [of "client_step failed s em" evs] by (simp add: run)
    next
      case False
      with step 2(1) have "collected (bs @ event_bytes em) (client_step failed s em)" "\<not> sm_failed (client_step failed s em)"
        by simp_all
      with Cons.IH(2) [OF _ this] 2(1) show ?thesis by (simp add: run)
    qed }
qed

lemma client_run_frame:
  assumes "\<forall>em\<in>set evs. event_ok (fst em)"
  shows "sm_server_stream_id (client_run failed s evs) = sm_server_stream_id s"
    and "sm_server_send_complete (client_run failed s evs) = sm_server_send_complete s"
    and "sm_client_response_finished (client_run failed s evs) \<longleftrightarrow>
      sm_client_response_finished s \<or> CLIENT_STREAM_PEER_SEND_SHUTDOWN \<in> fst ` set evs"
  using assms by (induction evs arbitrary: s) (auto simp: client_run_def client_step_frame)

text \<open>The client accepts exactly the expected response, whatever the fragments it arrives in: no event reports a
  failure, the peer finishes, and the bytes of all fragments together are the expected ones.\<close>

lemma client_verdict:
  assumes "\<forall>em\<in>set evs. event_ok (fst em)" and "collected [] s" and "\<not> sm_failed s" and "\<not> sm_client_response_finished s"
  shows "stream_smoke_ok (client_run failed s evs) \<longleftrightarrow>
    sm_server_stream_id s = 0 \<and> sm_server_send_complete s \<and>
    (\<forall>em\<in>set evs. \<not> event_failed failed (fst em)) \<and> CLIENT_STREAM_PEER_SEND_SHUTDOWN \<in> fst ` set evs \<and>
    concat (map event_bytes evs) = expected_validated_stream_response"
proof (cases "sm_failed (client_run failed s evs)")
  case True
  have "length expected_validated_stream_response = 35" by (simp add: expected_validated_stream_response_def)
  with True client_run_collects(1) [OF assms(1-3), of failed] show ?thesis by (auto simp: stream_smoke_ok_def)
next
  case False
  let ?r = "concat (map event_bytes evs)" and ?s = "client_run failed s evs"
  from False client_run_collects [OF assms(1-3), of failed]
  have ok: "\<forall>em\<in>set evs. \<not> event_failed failed (fst em)" and c: "collected ?r ?s" by simp_all
  have len: "length expected_validated_stream_response = 35" by (simp add: expected_validated_stream_response_def)
  have n: "sm_client_response_len ?s = 35 \<longleftrightarrow> length ?r = 35"
    using c by (auto simp: collected_def word_unat_eq_iff)
  have "sm_client_response_len ?s = 35 \<and> take 35 (sm_client_response ?s) = expected_validated_stream_response \<longleftrightarrow>
    ?r = expected_validated_stream_response"
    using c len unfolding n collected_def by auto
  with False ok assms(4) show ?thesis
    by (auto simp: stream_smoke_ok_def client_run_frame [OF assms(1)])
qed

end
