(* ===== verification/Live_Server.thy ===== *)
theory Live_Server
  imports Live_Msquic Smoke_Runtime
begin

text \<open>
  The server of the live stream program, \<^verbatim>\<open>src/shell/msquic_stream_smoke.c\<close>: set up as its main function does it, it accepts
  a connection and a stream through its three callbacks and answers the client's query, in whatever fragments it
  arrives, with the bytes that the client's verdict expects, whatever the library answers to the send. The wrapper of the
  stream callback records exactly the completions that succeeded.
\<close>

section \<open>The setup of the main function\<close>

definition stream_server_context :: "'w quic_api \<Rightarrow> hquic \<Rightarrow> 'w stream_smoke_server_context" where
  "stream_server_context api configuration =
     \<lparr>svr_api = Some api, svr_configuration = configuration, svr_stream_runtime = Some 0, svr_state = Obj\<rparr>"

lemma server_setup_ready:
  assumes pl: "placed bld rb 128 sb 128 st" and ib: "array_at bld st ib area" "length area = 128"
    and es: "q_events (sh_queue st) = Some es" "4 \<le> length es" and tr: "tr_streams (sh_ctx st) \<noteq> []"
    and st': "st' = stream_smoke_server_setup rb sb ib st"
  shows "runtime_ready bld st' 0" and "rt_of st' 0 = init_stream Obj Obj 0 ib 128"
    and "abs_table (conn_of st') = Map.empty" and "\<not> ad_send_in_flight (sh_adapter st')"
    and "ad_send (sh_adapter st') = Some (ism_msquic_runtime_send (Some 0))"
    and "sh_ctx st' = upd_stream 0 (\<lambda>_. init_stream Obj Obj 0 ib 128) (sh_ctx st)"
    and "ad_response_buffer (sh_adapter st') = rb" "ad_response_capacity (sh_adapter st') = 128"
    and "ad_send_buffer (sh_adapter st') = sb" "ad_send_capacity (sh_adapter st') = 128"
proof -
  let ?f = "fresh_runtime rb 128 sb 128 (Some (ism_msquic_runtime_send (Some 0))) 0 ib 128 st"
  have has: "has_storage st" using es tr by (auto simp: has_storage_def)
  note F = fresh_ready [OF pl ib(1) _ has refl, where ic = 128 and send = "Some (ism_msquic_runtime_send (Some 0))" and sid = 0, unfolded ib(2), simplified]
  have q: "sh_queue st' = \<lparr>q_events = Some es, q_capacity = 4, q_head = 0, q_count = 0\<rparr>"
    and eq: "st' = ?f\<lparr>sh_queue := sh_queue st'\<rparr>"
    using es(1) by (simp_all add: st' stream_smoke_server_setup_def fresh_runtime_def runtime_queue_init_def Let_def
        ism_shell_event_queue_init_def queue_at_def put_queue_def ism_msquic_runtime_stream_init_def upd_rt_def
        ism_msquic_adapter_init_def split: prod.splits)
  have idle: "queue_inv (sh_queue st')" "queue_items (sh_queue st') = []"
    using es(2) by (simp_all add: q queue_inv_def queue_items_def)
  have same: "sh_adapter st' = sh_adapter ?f" "sh_ctx st' = sh_ctx ?f" by (subst eq; simp)+
  have "runtime_ready bld (?f\<lparr>sh_queue := sh_queue st'\<rparr>) 0"
    using F(1) idle by (simp add: runtime_ready_def Let_def adapter_inv_def buffers_separate_def)
  then show "runtime_ready bld st' 0" using eq by simp
  show "rt_of st' 0 = init_stream Obj Obj 0 ib 128" "abs_table (conn_of st') = Map.empty" "\<not> ad_send_in_flight (sh_adapter st')"
    "ad_send (sh_adapter st') = Some (ism_msquic_runtime_send (Some 0))"
    "sh_ctx st' = upd_stream 0 (\<lambda>_. init_stream Obj Obj 0 ib 128) (sh_ctx st)"
    "ad_response_buffer (sh_adapter st') = rb" "ad_response_capacity (sh_adapter st') = 128"
    "ad_send_buffer (sh_adapter st') = sb" "ad_send_capacity (sh_adapter st') = 128"
    unfolding same by (fact F)+
qed

section \<open>The callbacks\<close>

text \<open>The stream callback adds to the runtime's callback: it returns its status, counts receives, records a completion exactly
  when it succeeded and was not cancelled, and a failure exactly when it was not.\<close>

lemma server_stream_callback:
  assumes "ism_msquic_stream_smoke_server_stream_callback bld stream (Some (stream_server_context api conf)) (Some ev) v = (status, v')"
    and "ism_msquic_runtime_stream_callback bld (Some 0) (Some ev) (fst v) = (status', st')"
  shows "status = status'"
    and "ev \<noteq> QUIC_STREAM_EVENT_SHUTDOWN_COMPLETE \<Longrightarrow> fst v' = st'"
    and "ev = QUIC_STREAM_EVENT_SHUTDOWN_COMPLETE \<Longrightarrow> \<not> tr_failed (sh_ctx st') status' \<Longrightarrow> fst v' = upd_world (StreamClose api stream) st'"
    and "sm_server_send_complete (snd v') \<longleftrightarrow> sm_server_send_complete (snd v) \<or>
      (\<exists>x. ev = QUIC_STREAM_EVENT_SEND_COMPLETE x False) \<and> \<not> tr_failed (sh_ctx st') status'"
    and "sm_failed (snd v') \<longleftrightarrow> sm_failed (snd v) \<or>
      (\<exists>x c. ev = QUIC_STREAM_EVENT_SEND_COMPLETE x c \<and> (c \<or> tr_failed (sh_ctx st') status'))"
    and "sm_server_receive_seen (snd v') \<longleftrightarrow> sm_server_receive_seen (snd v) \<or> (\<exists>bs n fin. ev = QUIC_STREAM_EVENT_RECEIVE bs n fin)"
    and "sm_server_stream_id (snd v') = sm_server_stream_id (snd v)"
  using assms
  by (auto simp: ism_msquic_stream_smoke_server_stream_callback_def stream_server_context_def Let_def
      split: quic_stream_event.splits if_splits)

lemma ready_bound:
  assumes "runtime_ready bld st 0" and "tr_streams (sh_ctx st) \<noteq> []"
    and "sh_ctx st' = upd_stream 0 (\<lambda>r. r\<lparr>rt_stream_id := sid, rt_api := a, rt_stream := h\<rparr>) (sh_ctx st)\<lparr>tr_world := w\<rparr>"
    and "st' = st\<lparr>sh_ctx := sh_ctx st'\<rparr>"
  shows "runtime_ready bld st' 0"
    and "rt_of st' 0 = (rt_of st 0)\<lparr>rt_stream_id := sid, rt_api := a, rt_stream := h\<rparr>"
proof -
  show rt: "rt_of st' 0 = (rt_of st 0)\<lparr>rt_stream_id := sid, rt_api := a, rt_stream := h\<rparr>"
    using assms(2,3) by (simp add: upd_stream_def stream_of_def)
  have "sh_adapter st' = sh_adapter st" "sh_queue st' = sh_queue st" "sh_mem st' = sh_mem st" by (subst assms(4); simp)+
  then show "runtime_ready bld st' 0"
    using assms(1) by (simp add: runtime_ready_def Let_def rt adapter_inv_def buffers_separate_def)
qed

text \<open>A connection and a stream on it: the runtime stream has the library's ID, function table and handle.\<close>

lemma server_accepts:
  assumes l: "ism_msquic_stream_smoke_server_listener_callback (Some (stream_server_context api conf))
      (Some (QUIC_LISTENER_EVENT_NEW_CONNECTION connection)) (st, s) = (status1, v1)" "connection \<noteq> 0"
    and c: "ism_msquic_stream_smoke_server_connection_callback connection (Some (stream_server_context api conf))
      (Some (QUIC_CONNECTION_EVENT_PEER_STREAM_STARTED stream)) v1 = (status2, v2)" "stream \<noteq> 0"
    and g: "GetParam api stream (tr_world (sh_ctx (fst v1))) = (got, 8, sid, w)" "\<not> tr_failed (sh_ctx st) got"
    and rr: "runtime_ready bld st 0" and tr: "tr_streams (sh_ctx st) \<noteq> []"
  shows "status2 = QUIC_STATUS_SUCCESS" and "runtime_ready bld (fst v2) 0"
    and "rt_of (fst v2) 0 = (rt_of st 0)\<lparr>rt_stream_id := sid, rt_api := Some api, rt_stream := stream\<rparr>"
    and "fst v2 = st\<lparr>sh_ctx := sh_ctx (fst v2)\<rparr>"
    and "tr_world (sh_ctx (fst v2)) = SetCallbackHandler api stream (StreamCallback 0) w"
    and "tr_failed (sh_ctx (fst v2)) = tr_failed (sh_ctx st)"
    and "snd v2 = s\<lparr>sm_server_new_connection := True, sm_server_peer_stream_started := True, sm_server_stream_id := sid\<rparr>"
proof -
  obtain cs w1 where w1: "ConnectionSetConfiguration api connection conf (SetCallbackHandler api connection ConnectionCallback
      (tr_world (sh_ctx st))) = (cs, w1)" by fastforce
  have v1: "fst v1 = st\<lparr>sh_ctx := (sh_ctx st)\<lparr>tr_world := w1\<rparr>\<rparr>" "snd v1 = s\<lparr>sm_server_new_connection := True\<rparr>"
    using l w1 by (auto simp: ism_msquic_stream_smoke_server_listener_callback_def stream_server_context_def upd_world_def Let_def)
  have v2: "status2 = QUIC_STATUS_SUCCESS"
    "fst v2 = st\<lparr>sh_ctx := upd_stream 0 (\<lambda>r. r\<lparr>rt_stream_id := sid, rt_api := Some api, rt_stream := stream\<rparr>) (sh_ctx st)
      \<lparr>tr_world := SetCallbackHandler api stream (StreamCallback 0) w\<rparr>\<rparr>"
    "snd v2 = s\<lparr>sm_server_new_connection := True, sm_server_peer_stream_started := True, sm_server_stream_id := sid\<rparr>"
    using c g v1 tr
    by (auto simp: ism_msquic_stream_smoke_server_connection_callback_def stream_server_context_def upd_world_def upd_rt_def
        upd_stream_def stream_of_def ism_msquic_runtime_bind_msquic_stream_def Let_def)
  note R = ready_bound [OF rr tr, where st' = "fst v2" and sid = sid and a = "Some api" and h = stream and
      w = "SetCallbackHandler api stream (StreamCallback 0) w"]
  show "status2 = QUIC_STATUS_SUCCESS" by (fact v2)
  show "runtime_ready bld (fst v2) 0" "rt_of (fst v2) 0 = (rt_of st 0)\<lparr>rt_stream_id := sid, rt_api := Some api, rt_stream := stream\<rparr>"
    using R v2(2) by simp_all
  show "fst v2 = st\<lparr>sh_ctx := sh_ctx (fst v2)\<rparr>" "tr_world (sh_ctx (fst v2)) = SetCallbackHandler api stream (StreamCallback 0) w"
    "tr_failed (sh_ctx (fst v2)) = tr_failed (sh_ctx st)"
    "snd v2 = s\<lparr>sm_server_new_connection := True, sm_server_peer_stream_started := True, sm_server_stream_id := sid\<rparr>"
    using v2(2,3) by (simp_all add: upd_stream_def)
qed

section \<open>The query is answered\<close>

theorem live_server_answers:
  assumes pl: "placed bld rb 128 sb 128 st" and ib: "array_at bld st ib area" "length area = 128"
    and es: "q_events (sh_queue st) = Some es" "4 \<le> length es" and tr: "tr_streams (sh_ctx st) \<noteq> []"
    and l: "ism_msquic_stream_smoke_server_listener_callback (Some (stream_server_context api conf))
      (Some (QUIC_LISTENER_EVENT_NEW_CONNECTION connection)) (stream_smoke_server_setup rb sb ib st, s) = (status1, v1)" "connection \<noteq> 0"
    and c: "ism_msquic_stream_smoke_server_connection_callback connection (Some (stream_server_context api conf))
      (Some (QUIC_CONNECTION_EVENT_PEER_STREAM_STARTED stream)) v1 = (status2, v2)" "stream \<noteq> 0"
    and g: "GetParam api stream (tr_world (sh_ctx (fst v1))) = (got, 8, sid, w)" "\<not> tr_failed (sh_ctx st) got"
    and bs: "list_all (buffer_ok (fst v2) 0) buffers" "length buffers < 4294967296"
      "concat (map (buffer_bytes (sh_mem (fst v2))) buffers) = exact_a_query"
    and submit: "StreamSend api = Some submit"
    and r: "ism_msquic_stream_smoke_server_stream_callback bld stream (Some (stream_server_context api conf))
      (Some (QUIC_STREAM_EVENT_RECEIVE (Some buffers) (of_nat (length buffers)) True)) v2 = (status3, v3)"
  shows "status2 = QUIC_STATUS_SUCCESS" and "status3 = QUIC_STATUS_SUCCESS"
    and "mem_bytes (sh_mem (fst v3)) sb 35 = expected_validated_stream_response"
    and "\<exists>sent. submit stream sb 35 True 0 (sh_mem (fst v3)) (SetCallbackHandler api stream (StreamCallback 0) w)
        = (sent, tr_world (sh_ctx (fst v3))) \<and> ad_send_in_flight (sh_adapter (fst v3)) = (\<not> tr_failed (sh_ctx st) sent)"
    and "sm_server_stream_id (snd v3) = sid" and "sm_server_receive_seen (snd v3)" and "sm_failed (snd v3) = sm_failed s"
proof -
  define st0 where "st0 = stream_smoke_server_setup rb sb ib st"
  note S = server_setup_ready [OF pl ib es tr st0_def]
  have tr0: "tr_streams (sh_ctx st0) \<noteq> []" "tr_failed (sh_ctx st0) = tr_failed (sh_ctx st)" using tr by (simp_all add: S(6) upd_stream_def)
  note A = server_accepts [OF l(1) [folded st0_def] l(2) c g(1) g(2) [folded tr0(2)] S(1) tr0(1)]
  have ad: "sh_adapter (fst v2) = sh_adapter st0" by (subst A(4)) simp
  have nn: "rb \<noteq> NULL" "sb \<noteq> NULL" and val: "question_validator (check_question bld)" using pl by (simp_all add: placed_def)
  have "shell_inv (conn_of (fst v2))" using runtime_readyD(1) [OF A(2)] by (rule adapter_invD(2))
  then have gotn: "stream_got [] (conn_of (fst v2)) (rt_stream_id (rt_of (fst v2) 0)) (sh_mem (fst v2))"
    using cc_num_empty [of "conn_of (fst v2)"] S(3) by (simp add: ad stream_got_def)
  obtain status' st' where run: "ism_msquic_runtime_stream_callback bld (Some 0)
      (Some (QUIC_STREAM_EVENT_RECEIVE (Some buffers) (of_nat (length buffers)) True)) (fst v2) = (status', st')" by fastforce
  note W = server_stream_callback [OF r run]
  have H: "\<not> rt_received_fin (rt_of (fst v2) 0)" "\<not> ad_send_in_flight (sh_adapter (fst v2))"
      "ad_send (sh_adapter (fst v2)) = Some (ism_msquic_runtime_send (Some 0))"
      "ad_response_buffer (sh_adapter (fst v2)) \<noteq> NULL" "ad_send_buffer (sh_adapter (fst v2)) \<noteq> NULL"
      "exact_a_query = [] @ concat (map (buffer_bytes (sh_mem (fst v2))) buffers)"
      "minimal_response (drop 2 exact_a_query) (unat (ad_response_capacity (sh_adapter (fst v2)))) =
        Some (drop 2 expected_validated_stream_response)"
      "length (drop 2 expected_validated_stream_response) + 2 \<le> unat (ad_send_capacity (sh_adapter (fst v2)))"
    using S A(3) bs(3) nn exact_a_response(1) [of 128] by (simp_all add: ad init_stream_def)
  note R = receive_callback_answers [OF A(2) H(1) val H(2-5) gotn bs(1,2) H(6) fixture_phases(1) fixture_ids(1,2) H(7,8) run]
  have st': "fst v3 = st'" using W(2) by simp
  show "status2 = QUIC_STATUS_SUCCESS" "status3 = QUIC_STATUS_SUCCESS" using A(1) R(1) W(1) by simp_all
  show "mem_bytes (sh_mem (fst v3)) sb 35 = expected_validated_stream_response"
    using R(2) S(9) exact_a_response(2) [of 128] by (simp add: st' ad)
  from R(3) obtain t where t: "ism_msquic_runtime_send (Some 0) sid sb 35 True (sh_mem st') (sh_ctx (fst v2)) = (ad_send_in_flight (sh_adapter st'), t)"
      "sh_ctx st' = upd_stream 0 (\<lambda>r. r\<lparr>rt_received_fin := True\<rparr>) t"
    using S(9) A(3) by (auto simp: ad)
  show "\<exists>sent. submit stream sb 35 True 0 (sh_mem (fst v3)) (SetCallbackHandler api stream (StreamCallback 0) w)
        = (sent, tr_world (sh_ctx (fst v3))) \<and> ad_send_in_flight (sh_adapter (fst v3)) = (\<not> tr_failed (sh_ctx st) sent)"
    using t A(3,5,6) S(2) submit c(2) nn(2) tr0(2)
    by (auto simp: st' ism_msquic_runtime_send_def init_stream_def upd_stream_def Let_def split: prod.splits if_splits)
  show "sm_server_stream_id (snd v3) = sid" "sm_server_receive_seen (snd v3)" "sm_failed (snd v3) = sm_failed s"
    using W(5-7) A(7) by auto
qed

end
