(* ===== verification/Smoke_Table.thy ===== *)
theory Smoke_Table
  imports Smoke_Base
begin

text \<open>
  The tests of the candidate table: \<^verbatim>\<open>src/migration/c/pulse_multiplexer_smoke.c\<close>, which runs the candidate
  operations against an integer-index oracle, and \<^verbatim>\<open>src/migration/c/pulse_table_abi_smoke.c\<close>, which tries
  malformed descriptors and every phase at the neutral interface. The oracle agrees with the
  candidate on every table, operation and stream ID, so in particular on those the program tries.
\<close>

section \<open>Programs made of blocks\<close>

text \<open>A block begins by setting its variables, so that it passes in every state, whatever follows it.\<close>

definition block_passes :: "'s check list \<Rightarrow> bool" where
  "block_passes ps \<longleftrightarrow> (\<forall>s qs. (\<forall>s'. run_checks qs s') \<longrightarrow> run_checks (ps @ qs) s)"

lemma run_blocks: "(\<And>ps. ps \<in> set pss \<Longrightarrow> block_passes ps) \<Longrightarrow> run_checks (concat pss) s"
proof (induction pss arbitrary: s)
  case (Cons ps pss)
  have "block_passes ps" and "\<forall>s'. run_checks (concat pss) s'" using Cons by simp_all
  then show ?case by (simp add: block_passes_def)
qed simp

lemma run_invariant:
  assumes "P s" and "\<And>p s. p \<in> set ps \<Longrightarrow> P s \<Longrightarrow> fst (p s) \<and> P (snd (p s))" and "\<forall>s'. run_checks qs s'"
  shows "run_checks (ps @ qs) s"
  using assms
proof (induction ps arbitrary: s)
  case (Cons p ps)
  have "fst (p s) \<and> P (snd (p s))" using Cons.prems(1,2) by simp
  with Cons.IH [of "snd (p s)"] Cons.prems(2,3) show ?case by (simp add: split_beta)
qed simp

lemma block_invariant:
  fixes i :: "'s check"
  assumes "\<And>s. fst (i s) \<and> P (snd (i s))" and "\<And>p s. p \<in> set ps \<Longrightarrow> P s \<Longrightarrow> fst (p s) \<and> P (snd (p s))"
  shows "block_passes (i # ps)"
  unfolding block_passes_def
proof (intro allI impI)
  fix s and qs :: "'s check list" assume "\<forall>s'. run_checks qs s'"
  then have "run_checks (ps @ qs) (snd (i s))" using assms run_invariant [of P "snd (i s)" ps qs] by blast
  with assms(1) [of s] show "run_checks ((i # ps) @ qs) s" by (simp add: split_beta)
qed

section \<open>The candidate operations against the oracle\<close>

subsection \<open>The program\<close>

text \<open>The static struct of the program. The operations have no access to the message bytes, so their
  comparison has no counterpart; the buffers appear as addresses.\<close>

record table_fixture =
  tf_contexts :: "pulse_context list"
  tf_expected :: "pulse_context list"
  tf_order :: "nat list"
  tf_conn :: pulse_connection
  tf_count :: nat
  tf_capacity :: nat

fun phase_equal :: "model_phase \<Rightarrow> model_phase \<Rightarrow> bool" where
  "phase_equal Done b = (case b of Done \<Rightarrow> True | _ \<Rightarrow> False)"
| "phase_equal ReadingLength b = (case b of ReadingLength \<Rightarrow> True | _ \<Rightarrow> False)"
| "phase_equal (ReadingLengthHigh hi) b = (case b of ReadingLengthHigh hi' \<Rightarrow> hi = hi' | _ \<Rightarrow> False)"
| "phase_equal (ReadingMessage expected current) b =
     (case b of ReadingMessage expected' current' \<Rightarrow> expected = expected' \<and> current = current' | _ \<Rightarrow> False)"
| "phase_equal (AwaitingFin n) b = (case b of AwaitingFin n' \<Rightarrow> n = n' | _ \<Rightarrow> False)"
| "phase_equal (Processing n) b = (case b of Processing n' \<Rightarrow> n = n' | _ \<Rightarrow> False)"

definition table_buffer :: "addr \<Rightarrow> nat \<Rightarrow> addr" where
  "table_buffer bytes i = bytes + i * 65535"

definition table_initialize :: "addr \<Rightarrow> nat list \<Rightarrow> nat \<Rightarrow> nat \<Rightarrow> bool \<Rightarrow> table_fixture \<Rightarrow> table_fixture" where
  "table_initialize bytes order capacity count duplicate_ids f =
     (let contexts = map (\<lambda>i. \<lparr>pc_id = of_nat (if duplicate_ids then i mod 2 else i) * 4,
            pc_phase = Processing (12 + of_nat i), pc_buf = table_buffer bytes i\<rparr>) [0..<4] in
      \<lparr>tf_contexts = contexts, tf_expected = contexts, tf_order = order,
       tf_conn = \<lparr>pcc_active = order, pcc_num = of_nat count, pcc_capacity = of_nat capacity\<rparr>,
       tf_count = count, tf_capacity = capacity\<rparr>)"

definition table_check_state :: "addr \<Rightarrow> table_fixture \<Rightarrow> bool" where
  "table_check_state bytes f \<longleftrightarrow>
     pcc_num (tf_conn f) = of_nat (tf_count f) \<and> pcc_capacity (tf_conn f) = of_nat (tf_capacity f) \<and>
     (\<forall>i<4. pcc_active (tf_conn f) ! i = tf_order f ! i \<and>
        pc_id (tf_contexts f ! i) = pc_id (tf_expected f ! i) \<and>
        phase_equal (pc_phase (tf_contexts f ! i)) (pc_phase (tf_expected f ! i)) \<and>
        pc_buf (tf_contexts f ! i) = table_buffer bytes i)"

text \<open>The loop of the oracle, and one step: 0 looks up, 1 reserves a slot, 2 closes.\<close>

function oracle_find :: "pulse_context list \<Rightarrow> nat list \<Rightarrow> nat \<Rightarrow> u64 \<Rightarrow> nat \<Rightarrow> nat" where
  "oracle_find expected order count sid found =
     (if found < count \<and> pc_id (expected ! (order ! found)) \<noteq> sid
      then oracle_find expected order count sid (found + 1) else found)"
  by auto
termination by (relation "measure (\<lambda>(_, _, count, _, found). count - found)") auto

declare oracle_find.simps [simp del]

definition table_step :: "addr \<Rightarrow> nat \<Rightarrow> u64 \<Rightarrow> table_fixture check" where
  "table_step bytes op sid f =
     (let found = oracle_find (tf_expected f) (tf_order f) (tf_count f) sid 0;
          (ok, f') =
            (if op = 0 then (pulse_find_stream (tf_contexts f) (tf_conn f) sid = of_nat found, f)
             else if op = 1 then
               let (result, f1) =
                     (if found = tf_count f \<and> tf_count f < tf_capacity f
                      then let p = tf_order f ! tf_count f in
                        (tf_count f, f\<lparr>tf_count := tf_count f + 1,
                           tf_expected := (tf_expected f)[p := (tf_expected f ! p)\<lparr>pc_id := sid, pc_phase := ReadingLength\<rparr>]\<rparr>)
                      else (tf_capacity f, f));
                   (actual, contexts, conn) = pulse_allocate_stream (tf_contexts f1) (tf_conn f1) sid in
               (actual = of_nat result, f1\<lparr>tf_contexts := contexts, tf_conn := conn\<rparr>)
             else if op = 2 then
               let closed = (found < tf_count f);
                   f1 = (if closed
                         then let removed = tf_order f ! found; last = tf_count f - 1 in
                           f\<lparr>tf_count := last, tf_order := (tf_order f)[found := tf_order f ! last, last := removed]\<rparr>
                         else f);
                   (actual, conn) = pulse_close_stream (tf_contexts f1) (tf_conn f1) sid in
               (actual = closed, f1\<lparr>tf_conn := conn\<rparr>)
             else (False, f)) in
      (ok \<and> table_check_state bytes f', f'))"

definition table_ids :: "u64 list" where
  "table_ids = [0, 4, 8, 12, 99, 0xFFFFFFFFFFFFFFFF]"

definition permutations_of_slots :: "nat list list" where
  "permutations_of_slots =
     [[a, b, c, d]. a \<leftarrow> [0..<4], b \<leftarrow> [0..<4], c \<leftarrow> [0..<4], d \<leftarrow> [0..<4],
        \<not> (a = b \<or> a = c \<or> a = d \<or> b = c \<or> b = d \<or> c = d)]"

definition single_steps :: "addr \<Rightarrow> table_fixture check list list" where
  "single_steps bytes =
     [[runs (table_initialize bytes order cap count duplicate), table_step bytes op sid].
        order \<leftarrow> permutations_of_slots, cap \<leftarrow> [0..<5], count \<leftarrow> [0..<cap + 1], duplicate \<leftarrow> [False, True],
        sid \<leftarrow> table_ids, op \<leftarrow> [0..<3]]"

definition table_round :: "(nat \<times> u64) list" where
  "table_round =
     [(1, 0), (1, 0xFFFFFFFFFFFFFFFF), (1, 4), (1, 8), (1, 0xFFFFFFFFFFFFFFFF), (1, 99), (0, 0xFFFFFFFFFFFFFFFF),
      (2, 0), (2, 0), (1, 12), (0, 12), (2, 0xFFFFFFFFFFFFFFFF), (2, 4), (2, 8), (2, 12), (2, 99)]"

definition chained_steps :: "addr \<Rightarrow> table_fixture check list list" where
  "chained_steps bytes =
     [runs (table_initialize bytes [0, 1, 2, 3] cap 0 False) #
        map (\<lambda>(op, sid). table_step bytes op sid) (concat (replicate 32 table_round)).
        cap \<leftarrow> [0..<5]]"

definition pulse_multiplexer_smoke :: "addr \<Rightarrow> table_fixture \<Rightarrow> bool" where
  "pulse_multiplexer_smoke bytes = run_checks (concat (single_steps bytes @ chained_steps bytes))"

subsection \<open>The oracle agrees\<close>

text \<open>The relation between the candidate's state and the oracle's, over any four distinct contexts.\<close>

definition oracle_agrees :: "addr \<Rightarrow> table_fixture \<Rightarrow> bool" where
  "oracle_agrees bytes f \<longleftrightarrow>
     tf_contexts f = tf_expected f \<and> length (tf_expected f) = 4 \<and> pcc_active (tf_conn f) = tf_order f \<and>
     length (tf_order f) = 4 \<and> distinct (tf_order f) \<and> set (tf_order f) \<subseteq> {..<4} \<and>
     pcc_num (tf_conn f) = of_nat (tf_count f) \<and> pcc_capacity (tf_conn f) = of_nat (tf_capacity f) \<and>
     tf_count f \<le> tf_capacity f \<and> tf_capacity f \<le> 4 \<and>
     (\<forall>i<4. pc_buf (tf_expected f ! i) = table_buffer bytes i)"

lemma phase_equal_iff [simp]: "phase_equal a b \<longleftrightarrow> a = b"
  by (cases a; cases b; simp)

lemma agrees_check: "oracle_agrees bytes f \<Longrightarrow> table_check_state bytes f"
  by (simp add: oracle_agrees_def table_check_state_def)

lemma oracle_find_eq: "oracle_find expected order count sid found = find_index_from expected order count sid found"
proof (induction expected order count sid found rule: oracle_find.induct)
  case (1 expected order count sid found)
  then show ?case
    by (subst oracle_find.simps, subst find_index_from.simps) (simp add: Let_def)
qed

lemma oracle_find_le:
  "found \<le> count \<Longrightarrow> oracle_find expected order count sid found \<le> count"
  by (induction expected order count sid found rule: oracle_find.induct) (subst oracle_find.simps, simp)

lemma small_u32:
  "n \<le> 4 \<Longrightarrow> unat (of_nat n :: u32) = n" "n \<le> 4 \<Longrightarrow> k \<le> 4 \<Longrightarrow> (of_nat n :: u32) = of_nat k \<longleftrightarrow> n = k"
  "n \<le> 4 \<Longrightarrow> k \<le> 4 \<Longrightarrow> (of_nat n :: u32) < of_nat k \<longleftrightarrow> n < k"
  "0 < n \<Longrightarrow> (of_nat n :: u32) - 1 = of_nat (n - 1)"
proof -
  have u: "unat (of_nat n :: u32) = n" if "n \<le> 4" for n using that by (simp add: unat_of_nat)
  show "n \<le> 4 \<Longrightarrow> unat (of_nat n :: u32) = n" "n \<le> 4 \<Longrightarrow> k \<le> 4 \<Longrightarrow> (of_nat n :: u32) = of_nat k \<longleftrightarrow> n = k"
    "n \<le> 4 \<Longrightarrow> k \<le> 4 \<Longrightarrow> (of_nat n :: u32) < of_nat k \<longleftrightarrow> n < k" "0 < n \<Longrightarrow> (of_nat n :: u32) - 1 = of_nat (n - 1)"
    by (simp_all add: u word_less_nat_alt word_unat_eq_iff of_nat_diff)
qed

lemma list_update_agrees:
  assumes "p < 4" "length xs = 4" "\<forall>i<4. pc_buf (xs ! i) = table_buffer bytes i" "pc_buf x = pc_buf (xs ! p)"
  shows "\<forall>i<4. pc_buf (xs[p := x] ! i) = table_buffer bytes i"
  using assms by (simp add: nth_list_update)

theorem table_step_agrees:
  assumes "oracle_agrees bytes f" and "op < 3"
  shows "fst (table_step bytes op sid f) \<and> oracle_agrees bytes (snd (table_step bytes op sid f))"
proof -
  let ?found = "oracle_find (tf_expected f) (tf_order f) (tf_count f) sid 0"
  have F: "find_index (tf_contexts f) (pcc_active (tf_conn f)) (pcc_num (tf_conn f)) sid = of_nat ?found"
    using assms(1) by (simp add: find_index_def oracle_find_eq oracle_agrees_def small_u32)
  have le: "?found \<le> tf_count f" "tf_count f \<le> 4" "tf_capacity f \<le> 4"
    using assms(1) oracle_find_le [of 0] by (simp_all add: oracle_agrees_def)
  have n: "pcc_num (tf_conn f) = of_nat (tf_count f)" "pcc_capacity (tf_conn f) = of_nat (tf_capacity f)"
    using assms(1) by (simp_all add: oracle_agrees_def)
  consider "op = 0" | "op = 1" | "op = 2" using assms(2) by linarith
  then show ?thesis
  proof cases
    case 1
    then have "table_step bytes op sid f = (table_check_state bytes f, f)"
      using F by (simp add: table_step_def pulse_find_stream_def)
    with assms(1) agrees_check show ?thesis by simp
  next
    case 2
    show ?thesis
    proof (cases "?found = tf_count f \<and> tf_count f < tf_capacity f")
      case True
      let ?p = "tf_order f ! tf_count f"
      have "?p \<in> set (tf_order f)" using assms(1) True le by (intro nth_mem) (simp add: oracle_agrees_def)
      then have p: "?p < 4" using assms(1) by (auto simp: oracle_agrees_def)
      let ?f = "f\<lparr>tf_count := tf_count f + 1,
        tf_expected := (tf_expected f)[?p := (tf_expected f ! ?p)\<lparr>pc_id := sid, pc_phase := ReadingLength\<rparr>],
        tf_contexts := (tf_expected f)[?p := (tf_expected f ! ?p)\<lparr>pc_id := sid, pc_phase := ReadingLength\<rparr>],
        tf_conn := (tf_conn f)\<lparr>pcc_num := of_nat (tf_count f) + 1\<rparr>\<rparr>"
      have "pulse_allocate_stream (tf_contexts f) (tf_conn f) sid =
          (of_nat (tf_count f), tf_contexts ?f, tf_conn ?f)"
        using True F n le assms(1) by (simp add: pulse_allocate_stream_def Let_def small_u32 oracle_agrees_def)
      then have st: "table_step bytes op sid f = (table_check_state bytes ?f, ?f)"
        using 2 True by (simp add: table_step_def Let_def)
      have "oracle_agrees bytes ?f"
        using assms(1) True p le list_update_agrees [OF p, of "tf_expected f" bytes] by (simp add: oracle_agrees_def)
      with st agrees_check show ?thesis by simp
    next
      case False
      have "pulse_allocate_stream (tf_contexts f) (tf_conn f) sid = (of_nat (tf_capacity f), tf_contexts f, tf_conn f)"
        using False F n le by (auto simp: pulse_allocate_stream_def Let_def small_u32)
      then have "table_step bytes op sid f = (table_check_state bytes f, f)"
        using 2 by (simp add: table_step_def Let_def if_not_P [OF False])
      with assms(1) agrees_check show ?thesis by simp
    qed
  next
    case 3
    show ?thesis
    proof (cases "?found < tf_count f")
      case True
      let ?last = "tf_count f - 1"
      let ?order = "(tf_order f)[?found := tf_order f ! ?last, ?last := tf_order f ! ?found]"
      let ?f = "f\<lparr>tf_count := ?last, tf_order := ?order, tf_conn := (tf_conn f)\<lparr>pcc_active := ?order, pcc_num := of_nat ?last\<rparr>\<rparr>"
      have len: "length (tf_order f) = 4" "pcc_active (tf_conn f) = tf_order f" using assms(1) by (simp_all add: oracle_agrees_def)
      have swap': "(tf_order f)[?last := tf_order f ! ?found, ?found := tf_order f ! ?last] = ?order"
        by (cases "?last = ?found") (simp_all add: list_update_swap)
      then have swap: "?order = list_swap (tf_order f) ?found ?last" by (simp only: list_swap_def)
      have last: "pcc_num (tf_conn f) - 1 = of_nat ?last" using True n small_u32(4) [of "tf_count f"] by simp
      have unat: "unat (of_nat ?last :: u32) = ?last" "unat (of_nat ?found :: u32) = ?found"
        using True le by (intro small_u32(1); simp)+
      have lt: "of_nat ?found < pcc_num (tf_conn f)" using True le n by (simp add: small_u32(3))
      have "pulse_close_stream (tf_contexts f) (tf_conn f) sid = (True, tf_conn ?f)"
        using swap' by (simp only: pulse_close_stream_def Let_def F [unfolded len(2)] lt if_True last unat len) simp
      then have st: "table_step bytes op sid f = (table_check_state bytes ?f, ?f)"
        using 3 True by (simp add: table_step_def Let_def)
      have idx: "?found < length (tf_order f)" "?last < length (tf_order f)" using True le len(1) by linarith+
      have "length ?order = 4" "distinct ?order" "set ?order \<subseteq> {..<4}"
        using assms(1) idx unfolding swap oracle_agrees_def by (simp_all add: distinct_list_swap set_list_swap)
      then have "oracle_agrees bytes ?f" using assms(1) True by (auto simp: oracle_agrees_def)
      with st agrees_check show ?thesis by simp
    next
      case False
      have "pulse_close_stream (tf_contexts f) (tf_conn f) sid = (False, tf_conn f)"
        using False F n le by (simp add: pulse_close_stream_def Let_def small_u32)
      then have "table_step bytes op sid f = (table_check_state bytes f, f)"
        using 3 False by (simp add: table_step_def Let_def)
      with assms(1) agrees_check show ?thesis by simp
    qed
  qed
qed

lemma table_initialize_agrees:
  assumes "order \<in> set permutations_of_slots" and "count \<le> cap" "cap \<le> 4"
  shows "oracle_agrees bytes (table_initialize bytes order cap count duplicate f)"
proof -
  have "length order = 4 \<and> distinct order \<and> set order \<subseteq> {..<4}"
    using assms(1) by (auto simp: permutations_of_slots_def)
  with assms(2,3) show ?thesis by (simp add: oracle_agrees_def table_initialize_def Let_def)
qed

lemma table_smoke: "pulse_multiplexer_smoke bytes f"
  unfolding pulse_multiplexer_smoke_def
proof (rule run_blocks)
  fix ps assume ps: "ps \<in> set (single_steps bytes @ chained_steps bytes)"
  have init: "fst (runs (table_initialize bytes order cap count dup) s) \<and>
      oracle_agrees bytes (snd (runs (table_initialize bytes order cap count dup) s))"
    if "order \<in> set permutations_of_slots" "count \<le> cap" "cap \<le> 4" for order cap count dup s
    using table_initialize_agrees [OF that] by (simp add: runs_def)
  from ps consider
      order cap count dup sid op where "ps = [runs (table_initialize bytes order cap count dup), table_step bytes op sid]"
        "order \<in> set permutations_of_slots" "count \<le> cap" "cap \<le> 4" "op < 3"
    | cap where "ps = runs (table_initialize bytes [0, 1, 2, 3] cap 0 False) #
        map (\<lambda>(op, sid). table_step bytes op sid) (concat (replicate 32 table_round))" "cap \<le> 4"
    by (auto simp: single_steps_def chained_steps_def)
  then show "block_passes ps"
  proof cases
    case 1
    show ?thesis unfolding 1(1)
      by (rule block_invariant [where P = "oracle_agrees bytes", OF init [OF 1(2-4)]]) (use table_step_agrees 1(5) in auto)
  next
    case 2
    have "[0, 1, 2, 3] \<in> set permutations_of_slots" by (simp add: permutations_of_slots_def upt_rec)
    note i = init [OF this _ 2(2)]
    have "\<forall>(op, sid)\<in>set (concat (replicate 32 table_round)). op < 3" by (auto simp: table_round_def)
    then show ?thesis unfolding 2(1)
      by (intro block_invariant [where P = "oracle_agrees bytes"]) (use i table_step_agrees in auto)
  qed
qed

section \<open>The neutral interface\<close>

subsection \<open>The program\<close>

record abi_vars =
  av_wire :: ism_pulse_table
  av_saved :: ism_pulse_table
  av_mem :: mem

definition abi_slot :: "addr \<Rightarrow> nat \<Rightarrow> ism_pulse_table_slot" where
  "abi_slot bytes i = \<lparr>ts_id = 99 + of_nat i,
     ts_phase = (wire_tagged ISM_PULSE_PROCESSING)\<lparr>wp_expected := 12 + of_nat i\<rparr>,
     ts_message = table_buffer bytes i, ts_message_capacity = 65535\<rparr>"

definition abi_init :: "addr \<Rightarrow> abi_vars \<Rightarrow> abi_vars" where
  "abi_init bytes v = v\<lparr>
     av_wire := \<lparr>wt_slots = map (abi_slot bytes) [0..<4], wt_order = map of_nat [0..<4], wt_count = 0,
       wt_capacity = of_nat ISM_PULSE_TABLE_SLOTS\<rparr>,
     av_mem := fold (\<lambda>i m. mem_write m (table_buffer bytes i) (replicate 65535 (0x70 + of_nat i))) [0..<4] (av_mem v)\<rparr>"

definition abi_set :: "(ism_pulse_table \<Rightarrow> ism_pulse_table) \<Rightarrow> abi_vars check" where
  "abi_set g = runs (\<lambda>v. v\<lparr>av_wire := g (av_wire v)\<rparr>)"

definition abi_set_slot :: "nat \<Rightarrow> (ism_pulse_table_slot \<Rightarrow> ism_pulse_table_slot) \<Rightarrow> abi_vars check" where
  "abi_set_slot i g = abi_set (\<lambda>w. w\<lparr>wt_slots := (wt_slots w)[i := g (wt_slots w ! i)]\<rparr>)"

definition abi_save :: "abi_vars check" where
  "abi_save = runs (\<lambda>v. v\<lparr>av_saved := av_wire v\<rparr>)"

definition abi_apply :: "addr \<Rightarrow> u32 \<Rightarrow> u64 \<Rightarrow> u32 \<Rightarrow> abi_vars check" where
  "abi_apply wire_p operation sid expected v =
     (let (result, wire) = ism_pulse_table_apply wire_p (av_wire v) operation sid in
      (result = expected, v\<lparr>av_wire := wire\<rparr>))"

definition abi_unchanged :: "abi_vars check" where
  "abi_unchanged = holds (\<lambda>v. av_wire v = av_saved v)"

definition abi_rejected :: "addr \<Rightarrow> u32 \<Rightarrow> abi_vars check list" where
  "abi_rejected wire_p operation =
     [abi_save, abi_apply wire_p operation 4 ISM_PULSE_TABLE_INVALID, abi_unchanged]"

definition abi_malformed :: "addr \<Rightarrow> addr \<Rightarrow> (abi_vars check list \<times> u32) list" where
  "abi_malformed wire_p bytes =
     [([], 99),
      ([abi_set (\<lambda>w. w\<lparr>wt_capacity := 0xFFFFFFFF\<rparr>)], ISM_PULSE_TABLE_ALLOCATE),
      ([abi_set (\<lambda>w. w\<lparr>wt_count := 5\<rparr>)], ISM_PULSE_TABLE_CLOSE),
      ([abi_set (\<lambda>w. w\<lparr>wt_order := (wt_order w)[3 := 0]\<rparr>)], ISM_PULSE_TABLE_ALLOCATE),
      ([abi_set (\<lambda>w. w\<lparr>wt_order := (wt_order w)[3 := 0xFFFFFFFF]\<rparr>)], ISM_PULSE_TABLE_FIND),
      ([abi_set_slot 2 (\<lambda>s. s\<lparr>ts_message := NULL\<rparr>)], ISM_PULSE_TABLE_CLOSE),
      ([abi_set_slot 2 (\<lambda>s. s\<lparr>ts_message_capacity := 65534\<rparr>)], ISM_PULSE_TABLE_ALLOCATE),
      ([abi_set_slot 2 (\<lambda>s. s\<lparr>ts_message_capacity := UINTPTR_MAX\<rparr>)], ISM_PULSE_TABLE_FIND),
      ([abi_set_slot 2 (\<lambda>s. s\<lparr>ts_message := table_buffer bytes 0\<rparr>)], ISM_PULSE_TABLE_CLOSE),
      ([abi_set_slot 2 (\<lambda>s. s\<lparr>ts_message := wire_p\<rparr>)], ISM_PULSE_TABLE_FIND),
      ([abi_set_slot 3 (\<lambda>s. s\<lparr>ts_phase := (ts_phase s)\<lparr>wp_tag := 255\<rparr>\<rparr>)], ISM_PULSE_TABLE_ALLOCATE)] @
     map (\<lambda>tag. ([abi_set_slot 3 (\<lambda>s. s\<lparr>ts_phase := (wire_tagged tag)\<lparr>wp_expected := 65536\<rparr>\<rparr>)], ISM_PULSE_TABLE_FIND))
       [ISM_PULSE_BODY, ISM_PULSE_AWAITING_FIN, ISM_PULSE_PROCESSING]"

definition abi_phase :: "addr \<Rightarrow> addr \<Rightarrow> u8 \<Rightarrow> abi_vars check list" where
  "abi_phase wire_p bytes tag =
     [runs (abi_init bytes), abi_set (\<lambda>w. w\<lparr>wt_count := 4\<rparr>),
      abi_set_slot 0 (\<lambda>s. s\<lparr>ts_phase := \<lparr>wp_expected = 0, wp_current = 0xFFFFFFFF, wp_tag = tag, wp_high = 255\<rparr>\<rparr>),
      abi_save,
      abi_apply wire_p ISM_PULSE_TABLE_FIND 99 0, abi_unchanged,
      abi_apply wire_p ISM_PULSE_TABLE_CLOSE 99 1,
      holds (\<lambda>v. wt_order (av_wire v) ! 0 = 3 \<and> wt_order (av_wire v) ! 3 = 0 \<and> wt_count (av_wire v) = 3 \<and>
        wt_slots (av_wire v) = wt_slots (av_saved v)),
      abi_apply wire_p ISM_PULSE_TABLE_ALLOCATE 0xFFFFFFFFFFFFFFFF 3,
      holds (\<lambda>v. ts_id (wt_slots (av_wire v) ! 0) = 0xFFFFFFFFFFFFFFFF \<and>
        wp_tag (ts_phase (wt_slots (av_wire v) ! 0)) = ISM_PULSE_LENGTH \<and>
        ts_message (wt_slots (av_wire v) ! 0) = table_buffer bytes 0 \<and> wt_count (av_wire v) = 4),
      abi_save, abi_apply wire_p ISM_PULSE_TABLE_ALLOCATE 55 4, abi_unchanged,
      holds (\<lambda>v. list_all (\<lambda>i. list_all (\<lambda>j. av_mem v (table_buffer bytes i + j) = 0x70 + of_nat i) [0..<65535]) [0..<4])]"

definition abi_last :: "addr \<Rightarrow> addr \<Rightarrow> abi_vars check list" where
  "abi_last wire_p bytes =
     [runs (abi_init bytes), abi_set (\<lambda>w. w\<lparr>wt_count := 2\<rparr>), abi_save,
      abi_apply wire_p ISM_PULSE_TABLE_ALLOCATE 99 4, abi_apply wire_p ISM_PULSE_TABLE_CLOSE 42 0, abi_unchanged,
      runs (abi_init bytes), abi_set (\<lambda>w. w\<lparr>wt_capacity := 0\<rparr>), abi_apply wire_p ISM_PULSE_TABLE_ALLOCATE 0 0,
      holds (\<lambda>v. wt_count (av_wire v) = 0)]"

definition pulse_table_abi_smoke :: "addr \<Rightarrow> addr \<Rightarrow> abi_vars \<Rightarrow> bool" where
  "pulse_table_abi_smoke wire_p bytes =
     run_checks (concat
       ([[holds (\<lambda>v. ism_pulse_table_abi_version = ISM_PULSE_TABLE_ABI_VERSION)],
         [abi_apply NULL ISM_PULSE_TABLE_FIND 0 ISM_PULSE_TABLE_INVALID]] @
        map (\<lambda>(change, operation). runs (abi_init bytes) # change @ abi_rejected wire_p operation) (abi_malformed wire_p bytes) @
        map (abi_phase wire_p bytes) [0, 1, 2, 3, 4, 5] @
        [abi_last wire_p bytes]))"

subsection \<open>The test returns true\<close>

definition abi_placed :: "addr \<Rightarrow> addr \<Rightarrow> bool" where
  "abi_placed wire_p bytes \<longleftrightarrow> wire_p \<noteq> NULL \<and> wire_p mod 8 = 0 \<and> wire_p + 184 \<le> UINTPTR_MAX \<and> bytes \<noteq> NULL \<and>
     bytes + 262140 \<le> UINTPTR_MAX \<and> ranges_disjoint wire_p 184 bytes 262140"

lemma all_less_4:
  "(\<forall>i<4 :: nat. P i) \<longleftrightarrow> P 0 \<and> P 1 \<and> P 2 \<and> P 3" "(\<forall>i<3 :: nat. P i) \<longleftrightarrow> P 0 \<and> P 1 \<and> P 2"
  "(\<forall>i<2 :: nat. P i) \<longleftrightarrow> P 0 \<and> P 1" "(\<forall>i<Suc 0. P i) \<longleftrightarrow> P 0"
  by (auto simp: numeral_eq_Suc less_Suc_eq)

lemma abi_disjoint:
  assumes "abi_placed wire_p bytes"
  shows "i < 4 \<Longrightarrow> disjoint wire_p 184 (table_buffer bytes i) 65535"
    and "i < 4 \<Longrightarrow> j < i \<Longrightarrow> disjoint (table_buffer bytes i) 65535 (table_buffer bytes j) 65535"
    and "range_ok wire_p 184"
proof -
  note b = assms [unfolded abi_placed_def ranges_disjoint_def]
  show "disjoint wire_p 184 (table_buffer bytes i) 65535" if "i < 4"
    using b that by (auto simp: disjoint_def range_ok_def table_buffer_def)
  show "disjoint (table_buffer bytes i) 65535 (table_buffer bytes j) 65535" if "i < 4" "j < i"
  proof -
    have "j * 65535 + 65535 \<le> i * 65535" "i * 65535 \<le> 3 * 65535" using that by simp_all
    with b show ?thesis by (auto simp: disjoint_def range_ok_def table_buffer_def)
  qed
  show "range_ok wire_p 184" using b by (auto simp: range_ok_def)
qed

lemma abi_mem:
  assumes "i < 4" "j < 65535"
  shows "av_mem (abi_init bytes v) (table_buffer bytes i + j) = 0x70 + of_nat i"
proof -
  have "i = 0 \<or> i = 1 \<or> i = 2 \<or> i = 3" using assms(1) by auto
  then show ?thesis
    using assms(2) by (auto simp: abi_init_def upt_rec table_buffer_def mem_write_def)
qed

text \<open>The descriptor that the program starts from.\<close>

definition abi_wire :: "addr \<Rightarrow> ism_pulse_table" where
  "abi_wire bytes = \<lparr>wt_slots = [abi_slot bytes 0, abi_slot bytes 1, abi_slot bytes 2, abi_slot bytes 3],
     wt_order = [0, 1, 2, 3], wt_count = 0, wt_capacity = 4\<rparr>"

lemma upt_4: "[0..<4] = [0, 1, 2, 3 :: nat]"
  by (simp add: upt_rec numeral_2_eq_2 numeral_3_eq_3)

lemma abi_init_wire: "av_wire (abi_init bytes v) = abi_wire bytes" "av_saved (abi_init bytes v) = av_saved v"
  by (simp_all add: abi_init_def abi_wire_def upt_4 pulse_table_consts)

lemma run_then_any: "run_checks ps s \<Longrightarrow> \<forall>s'. run_checks qs s' \<Longrightarrow> run_checks (ps @ qs) s"
  by (induction ps arbitrary: s) (simp_all add: split_beta)

lemma block_from: "(\<And>s. run_checks ps s) \<Longrightarrow> block_passes ps"
  by (simp add: block_passes_def run_then_any)

lemmas abi_checks = abi_set_def abi_set_slot_def abi_save_def abi_apply_def abi_unchanged_def check_defs

text \<open>A change after which the descriptor fails a check.\<close>

lemma refused_change:
  assumes "\<not> descriptor_accepted wire_p (g (abi_wire bytes))"
  shows "run_checks (runs (abi_init bytes) # [abi_set g] @ abi_rejected wire_p operation) v"
  using table_apply_rejects [of wire_p "g (abi_wire bytes)" operation 4] assms
  by (simp add: abi_rejected_def abi_checks abi_init_wire)

lemma not_accepted: "i < 4 \<Longrightarrow> \<not> slot_accepted wire_p w i \<Longrightarrow> \<not> descriptor_accepted wire_p w"
  by (auto simp: descriptor_accepted_def)

lemma refused_slot:
  assumes "i < 4" and "\<not> slot_accepted wire_p ((abi_wire bytes)\<lparr>wt_slots := (wt_slots (abi_wire bytes))[i := g (abi_slot bytes i)]\<rparr>) i"
  shows "run_checks (runs (abi_init bytes) # [abi_set_slot i g] @ abi_rejected wire_p operation) v"
proof -
  have "wt_slots (abi_wire bytes) ! i = abi_slot bytes i" using assms(1) by (auto simp: abi_wire_def numeral_eq_Suc less_Suc_eq)
  then show ?thesis unfolding abi_set_slot_def using assms by (intro refused_change not_accepted [of i]) simp_all
qed

lemma slot_refused:
  assumes "unat (wt_order w ! i) \<ge> 4 \<or> ts_message_capacity (wt_slots w ! i) < 65535 \<or>
    \<not> disjoint wire_p 184 (ts_message (wt_slots w ! i)) (ts_message_capacity (wt_slots w ! i)) \<or>
    ism_pulse_decode_phase (ts_phase (wt_slots w ! i)) = None \<or>
    (\<exists>j<i. wt_order w ! i = wt_order w ! j \<or> \<not> disjoint (ts_message (wt_slots w ! i)) (ts_message_capacity (wt_slots w ! i))
         (ts_message (wt_slots w ! j)) (ts_message_capacity (wt_slots w ! j)))"
  shows "\<not> slot_accepted wire_p w i"
  using assms by (auto simp: slot_accepted_def Let_def)

lemma abi_malformed_refused:
  assumes "(change, operation) \<in> set (abi_malformed wire_p bytes)"
  shows "run_checks (runs (abi_init bytes) # change @ abi_rejected wire_p operation) v"
proof -
  have bad: "\<not> disjoint wire_p 184 q UINTPTR_MAX" "\<not> disjoint wire_p 184 NULL n" "\<not> disjoint wire_p 184 wire_p 65535" for q n
    by (auto simp: disjoint_def range_ok_def)
  have same: "\<not> disjoint (table_buffer bytes 0) 65535 (table_buffer bytes 0) 65535" by (simp add: disjoint_def)
  let ?run = "\<lambda>change operation. run_checks (runs (abi_init bytes) # change @ abi_rejected wire_p operation) v"
  let ?slot = "\<lambda>i g operation. ?run [abi_set_slot i g] operation"
  note wire = abi_wire_def abi_slot_def
  have 0: "?run [] 99"
    using table_apply_rejects [of wire_p _ 99 4] by (simp add: abi_rejected_def abi_checks)
  have 1: "?run [abi_set (\<lambda>w. w\<lparr>wt_capacity := 0xFFFFFFFF\<rparr>)] op" "?run [abi_set (\<lambda>w. w\<lparr>wt_count := 5\<rparr>)] op" for op
    by (intro refused_change; simp add: descriptor_accepted_def wire)+
  have 2: "?run [abi_set (\<lambda>w. w\<lparr>wt_order := (wt_order w)[3 := 0]\<rparr>)] op" for op
    by (rule refused_change, rule not_accepted [of 3], simp, rule slot_refused) (simp add: wire exI [of _ 0])
  have 7: "?run [abi_set (\<lambda>w. w\<lparr>wt_order := (wt_order w)[3 := 0xFFFFFFFF]\<rparr>)] op" for op
    by (rule refused_change, rule not_accepted [of 3], simp, rule slot_refused) (simp add: wire)
  have 3: "?slot 2 (\<lambda>s. s\<lparr>ts_message := NULL\<rparr>) op" "?slot 2 (\<lambda>s. s\<lparr>ts_message_capacity := 65534\<rparr>) op"
      "?slot 2 (\<lambda>s. s\<lparr>ts_message_capacity := UINTPTR_MAX\<rparr>) op" "?slot 2 (\<lambda>s. s\<lparr>ts_message := wire_p\<rparr>) op" for op
    by (intro refused_slot slot_refused; simp add: wire bad)+
  have 4: "?slot 2 (\<lambda>s. s\<lparr>ts_message := table_buffer bytes 0\<rparr>) op" for op
    by (rule refused_slot, simp, rule slot_refused) (simp add: wire same exI [of _ 0])
  have 5: "?slot 3 (\<lambda>s. s\<lparr>ts_phase := (ts_phase s)\<lparr>wp_tag := 255\<rparr>\<rparr>) op" for op
    by (rule refused_slot, simp, rule slot_refused) (simp add: wire ism_pulse_decode_phase_def pulse_tags)
  have 6: "?slot 3 (\<lambda>s. s\<lparr>ts_phase := (wire_tagged tag)\<lparr>wp_expected := 65536\<rparr>\<rparr>) op"
    if "tag \<in> {ISM_PULSE_BODY, ISM_PULSE_AWAITING_FIN, ISM_PULSE_PROCESSING}" for tag op
    using that by (intro refused_slot slot_refused)
      (auto simp: wire ism_pulse_decode_phase_def pulse_tags wire_tagged_def ISM_PULSE_MESSAGE_CAPACITY_def)
  have "list_all (\<lambda>(change, operation). ?run change operation) (abi_malformed wire_p bytes)"
    unfolding abi_malformed_def list_all_append list.map list.pred_inject prod.case
    by (intro conjI TrueI 0 1 2 7 3 4 5 6) simp_all
  with assms show ?thesis by (auto simp: list_all_iff)
qed

text \<open>On an accepted descriptor the operation is the candidate's on the contexts of its slots.\<close>

lemma table_apply_accepted:
  assumes "descriptor_accepted wire_p wire"
  shows "table_contexts wire_p wire [0..<4] = Some (map (\<lambda>i. slot_context (wt_slots wire ! i)) [0, 1, 2, 3],
    map (\<lambda>i. unat (wt_order wire ! i)) [0, 1, 2, 3])"
  using assms by (simp add: table_contexts_cases descriptor_accepted_def upt_4 all_less_4)

definition abi_table :: "addr \<Rightarrow> ism_pulse_table_slot \<Rightarrow> u32 list \<Rightarrow> u32 \<Rightarrow> u32 \<Rightarrow> ism_pulse_table" where
  "abi_table bytes s order count capacity = \<lparr>wt_slots = [s, abi_slot bytes 1, abi_slot bytes 2, abi_slot bytes 3],
     wt_order = order, wt_count = count, wt_capacity = capacity\<rparr>"

lemma abi_accepted:
  assumes pl: "abi_placed wire_p bytes" and s: "ism_pulse_decode_phase (ts_phase s) \<noteq> None" "ts_message s = table_buffer bytes 0"
      "ts_message_capacity s = 65535" and "order \<in> {[0, 1, 2, 3], [3, 1, 2, 0]}" and "count \<le> capacity" "unat capacity \<le> 4"
  shows "descriptor_accepted wire_p (abi_table bytes s order count capacity)"
proof -
  have phase: "ism_pulse_decode_phase (ts_phase (abi_slot bytes i)) \<noteq> None" if "i < 4" for i
  proof -
    have "i = 0 \<or> i = 1 \<or> i = 2 \<or> i = 3" using that by auto
    then show ?thesis
      by (auto simp: abi_slot_def ism_pulse_decode_phase_def pulse_tags wire_tagged_def ISM_PULSE_MESSAGE_CAPACITY_def)
  qed
  have slot: "ts_message (abi_slot bytes i) = table_buffer bytes i" "ts_message_capacity (abi_slot bytes i) = 65535" for i
    by (simp_all add: abi_slot_def)
  have "wire_p mod 8 = 0" using pl by (simp add: abi_placed_def)
  moreover have "\<forall>i<4. slot_accepted wire_p (abi_table bytes s order count capacity) i"
    using assms(5) s phase [of 1] phase [of 2] phase [of 3] abi_disjoint(1) [OF pl]
      abi_disjoint(2) [OF pl, of 1 0] abi_disjoint(2) [OF pl, of 2 0] abi_disjoint(2) [OF pl, of 2 1]
      abi_disjoint(2) [OF pl, of 3 0] abi_disjoint(2) [OF pl, of 3 1] abi_disjoint(2) [OF pl, of 3 2]
    unfolding all_less_4 slot_accepted_def by (auto simp: abi_table_def slot all_less_4)
  ultimately show ?thesis
    using assms(6,7) abi_disjoint(3) [OF pl] by (simp add: descriptor_accepted_def abi_table_def)
qed

lemma abi_operations:
  assumes pl: "abi_placed wire_p bytes" and s: "ism_pulse_decode_phase (ts_phase s) \<noteq> None" "ts_message s = table_buffer bytes 0"
      "ts_message_capacity s = 65535"
  shows "ts_id s = 99 \<Longrightarrow> ism_pulse_table_apply wire_p (abi_table bytes s [0, 1, 2, 3] 4 4) ISM_PULSE_TABLE_FIND 99 =
      (0, abi_table bytes s [0, 1, 2, 3] 4 4)"
    and "ts_id s = 99 \<Longrightarrow> ism_pulse_table_apply wire_p (abi_table bytes s [0, 1, 2, 3] 4 4) ISM_PULSE_TABLE_CLOSE 99 =
      (1, abi_table bytes s [3, 1, 2, 0] 3 4)"
    and "ism_pulse_table_apply wire_p (abi_table bytes s [3, 1, 2, 0] 3 4) ISM_PULSE_TABLE_ALLOCATE 0xFFFFFFFFFFFFFFFF =
      (3, abi_table bytes (s\<lparr>ts_id := 0xFFFFFFFFFFFFFFFF, ts_phase := wire_tagged ISM_PULSE_LENGTH\<rparr>) [3, 1, 2, 0] 4 4)"
    and "ts_id s = 0xFFFFFFFFFFFFFFFF \<Longrightarrow>
      ism_pulse_table_apply wire_p (abi_table bytes s [3, 1, 2, 0] 4 4) ISM_PULSE_TABLE_ALLOCATE 55 =
      (4, abi_table bytes s [3, 1, 2, 0] 4 4)"
    and "ts_id s = 99 \<Longrightarrow> ism_pulse_table_apply wire_p (abi_table bytes s [0, 1, 2, 3] 2 4) ISM_PULSE_TABLE_ALLOCATE 99 =
      (4, abi_table bytes s [0, 1, 2, 3] 2 4)"
    and "ts_id s = 99 \<Longrightarrow> ism_pulse_table_apply wire_p (abi_table bytes s [0, 1, 2, 3] 2 4) ISM_PULSE_TABLE_CLOSE 42 =
      (0, abi_table bytes s [0, 1, 2, 3] 2 4)"
    and "ism_pulse_table_apply wire_p (abi_table bytes s [0, 1, 2, 3] 0 0) ISM_PULSE_TABLE_ALLOCATE 0 =
      (0, abi_table bytes s [0, 1, 2, 3] 0 0)"
proof -
  note acc = abi_accepted [OF assms]
  have start: "range_ok wire_p 184" "wire_p mod 8 = 0" using pl abi_disjoint(3) [OF pl] by (simp_all add: abi_placed_def)
  have size: "wt_count (abi_table bytes s order count capacity) = count"
    "wt_capacity (abi_table bytes s order count capacity) = capacity" for order count capacity
    by (simp_all add: abi_table_def)
  note eval = ism_pulse_table_apply_def pulse_table_consts start size table_apply_accepted acc
    pulse_find_stream_def pulse_allocate_stream_def pulse_close_stream_def find_index_def find_index_from.simps Let_def
    slot_context_def abi_slot_def
  show "ts_id s = 99 \<Longrightarrow> ism_pulse_table_apply wire_p (abi_table bytes s [0, 1, 2, 3] 4 4) ISM_PULSE_TABLE_FIND 99 =
      (0, abi_table bytes s [0, 1, 2, 3] 4 4)"
    "ts_id s = 99 \<Longrightarrow> ism_pulse_table_apply wire_p (abi_table bytes s [0, 1, 2, 3] 4 4) ISM_PULSE_TABLE_CLOSE 99 =
      (1, abi_table bytes s [3, 1, 2, 0] 3 4)"
    "ism_pulse_table_apply wire_p (abi_table bytes s [3, 1, 2, 0] 3 4) ISM_PULSE_TABLE_ALLOCATE 0xFFFFFFFFFFFFFFFF =
      (3, abi_table bytes (s\<lparr>ts_id := 0xFFFFFFFFFFFFFFFF, ts_phase := wire_tagged ISM_PULSE_LENGTH\<rparr>) [3, 1, 2, 0] 4 4)"
    "ts_id s = 0xFFFFFFFFFFFFFFFF \<Longrightarrow>
      ism_pulse_table_apply wire_p (abi_table bytes s [3, 1, 2, 0] 4 4) ISM_PULSE_TABLE_ALLOCATE 55 =
      (4, abi_table bytes s [3, 1, 2, 0] 4 4)"
    "ts_id s = 99 \<Longrightarrow> ism_pulse_table_apply wire_p (abi_table bytes s [0, 1, 2, 3] 2 4) ISM_PULSE_TABLE_ALLOCATE 99 =
      (4, abi_table bytes s [0, 1, 2, 3] 2 4)"
    "ts_id s = 99 \<Longrightarrow> ism_pulse_table_apply wire_p (abi_table bytes s [0, 1, 2, 3] 2 4) ISM_PULSE_TABLE_CLOSE 42 =
      (0, abi_table bytes s [0, 1, 2, 3] 2 4)"
    "ism_pulse_table_apply wire_p (abi_table bytes s [0, 1, 2, 3] 0 0) ISM_PULSE_TABLE_ALLOCATE 0 =
      (0, abi_table bytes s [0, 1, 2, 3] 0 0)"
    by (simp add: eval; simp add: abi_table_def find_index_from.simps upt_4 abi_slot_def)+
qed

lemma abi_table_simps:
  "abi_wire bytes = abi_table bytes (abi_slot bytes 0) [0, 1, 2, 3] 0 4"
  "(abi_table bytes s order count capacity)\<lparr>wt_count := count'\<rparr> = abi_table bytes s order count' capacity"
  "(abi_table bytes s order count capacity)\<lparr>wt_capacity := capacity'\<rparr> = abi_table bytes s order count capacity'"
  "(abi_table bytes s order count capacity)\<lparr>wt_slots := (wt_slots (abi_table bytes s order count' capacity))[0 := s']\<rparr> =
     abi_table bytes s' order count capacity"
  "wt_slots (abi_table bytes s order count capacity) ! 0 = s" "wt_order (abi_table bytes s order count capacity) = order"
  "wt_count (abi_table bytes s order count capacity) = count"
  "wt_slots (abi_table bytes s order count capacity) = wt_slots (abi_table bytes s order' count' capacity') \<longleftrightarrow> True"
  by (simp_all add: abi_wire_def abi_table_def)

text \<open>The phases that the program tries are all accepted.\<close>

lemma abi_phase_passes:
  assumes pl: "abi_placed wire_p bytes" and "tag \<in> {0, 1, 2, 3, 4, 5}"
  shows "run_checks (abi_phase wire_p bytes tag) v"
proof -
  let ?s = "(abi_slot bytes 0)\<lparr>ts_phase := \<lparr>wp_expected = 0, wp_current = 0xFFFFFFFF, wp_tag = tag, wp_high = 255\<rparr>\<rparr>"
  let ?s' = "(abi_slot bytes 0)\<lparr>ts_id := 0xFFFFFFFFFFFFFFFF, ts_phase := wire_tagged ISM_PULSE_LENGTH\<rparr>"
  have s: "ism_pulse_decode_phase (ts_phase ?s) \<noteq> None" "ism_pulse_decode_phase (ts_phase ?s') \<noteq> None"
    using assms(2) by (auto simp: ism_pulse_decode_phase_def pulse_tags wire_tagged_def ISM_PULSE_MESSAGE_CAPACITY_def)
  have m: "ts_message ?s = table_buffer bytes 0" "ts_message_capacity ?s = 65535" "ts_id ?s = 99"
    "ts_message ?s' = table_buffer bytes 0" "ts_message_capacity ?s' = 65535" "ts_id ?s' = 0xFFFFFFFFFFFFFFFF"
    by (simp_all add: abi_slot_def)
  have f: "wp_tag (wire_tagged ISM_PULSE_LENGTH) = ISM_PULSE_LENGTH" "ts_message (abi_slot bytes 0) = table_buffer bytes 0"
    by (simp_all add: wire_tagged_def abi_slot_def)
  note op = abi_operations [OF pl s(1) m(1,2)] abi_operations [OF pl s(2) m(4,5)]
  show ?thesis
    by (simp add: abi_phase_def abi_checks abi_init_wire abi_table_simps op(1,2,3,11) m f
        abi_mem list_all_iff)
qed

lemma abi_last_passes:
  assumes pl: "abi_placed wire_p bytes"
  shows "run_checks (abi_last wire_p bytes) v"
proof -
  let ?s = "abi_slot bytes 0"
  have s: "ism_pulse_decode_phase (ts_phase ?s) \<noteq> None" "ts_message ?s = table_buffer bytes 0" "ts_message_capacity ?s = 65535"
      "ts_id ?s = 99"
    by (simp_all add: abi_slot_def ism_pulse_decode_phase_def pulse_tags wire_tagged_def ISM_PULSE_MESSAGE_CAPACITY_def)
  show ?thesis
    by (simp add: abi_last_def abi_checks abi_init_wire abi_table_simps abi_operations(5,6,7) [OF pl s(1-3)] s)
qed

lemma table_abi_smoke:
  assumes "abi_placed wire_p bytes"
  shows "pulse_table_abi_smoke wire_p bytes v"
  unfolding pulse_table_abi_smoke_def
proof (rule run_blocks)
  fix ps
  let ?fixed = "[[holds (\<lambda>v. ism_pulse_table_abi_version = ISM_PULSE_TABLE_ABI_VERSION)],
    [abi_apply NULL ISM_PULSE_TABLE_FIND 0 ISM_PULSE_TABLE_INVALID]] :: abi_vars check list list"
  assume "ps \<in> set (?fixed @ map (\<lambda>(change, operation). runs (abi_init bytes) # change @ abi_rejected wire_p operation)
      (abi_malformed wire_p bytes) @ map (abi_phase wire_p bytes) [0, 1, 2, 3, 4, 5] @ [abi_last wire_p bytes])"
  then consider "ps \<in> set ?fixed"
    | change operation where "ps = runs (abi_init bytes) # change @ abi_rejected wire_p operation"
        "(change, operation) \<in> set (abi_malformed wire_p bytes)"
    | tag where "ps = abi_phase wire_p bytes tag" "tag \<in> {0, 1, 2, 3, 4, 5}"
    | "ps = abi_last wire_p bytes" by auto
  then show "block_passes ps"
  proof cases
    case 1
    have "\<not> descriptor_accepted NULL w" for w by (simp add: descriptor_accepted_def range_ok_def)
    with 1 show ?thesis
      by (intro block_from) (auto simp: abi_checks ism_pulse_table_abi_version_def table_apply_rejects)
  next
    case 2
    with abi_malformed_refused show ?thesis by (simp add: block_from)
  next
    case 3
    with abi_phase_passes [OF assms] show ?thesis by (simp add: block_from)
  next
    case 4
    with abi_last_passes [OF assms] show ?thesis by (simp add: block_from)
  qed
qed

end
