(* ===== verification/Smoke_Stream.thy ===== *)
theory Smoke_Stream
  imports Smoke_Table
begin

text \<open>
  The test of the candidate stream lane as a program over the model:
  \<^verbatim>\<open>src/migration/c/pulse_stream_smoke.c\<close>, which cuts a query at every position, cuts it short, extends it and
  tries malformed descriptors. It returns true wherever its buffers stand.
\<close>

section \<open>One call of the candidate\<close>

lemma decode_bounded: "ism_pulse_decode_phase w = Some p \<Longrightarrow> phase_bounded p"
  by (auto simp: ism_pulse_decode_phase_def ISM_PULSE_MESSAGE_CAPACITY_def word_le_nat_alt split: if_splits)

lemma decode_encode: "phase_bounded p \<Longrightarrow> ism_pulse_decode_phase (wr_phase (encode p)) = Some p"
  by (cases p) (simp_all add: ism_pulse_decode_phase_def rejected_def wire_tagged_def pulse_tags
      ISM_PULSE_MESSAGE_CAPACITY_def word_le_nat_alt)

text \<open>The message length that the first two bytes announce bounds what is written.\<close>

definition announced :: "u8 list \<Rightarrow> nat" where
  "announced bs = (case bs of hi # lo # body \<Rightarrow> unat hi * 256 + unat lo | _ \<Rightarrow> 0)"

lemma plan_announced:
  assumes len: "unat len = length chunk"
    and plan: "plan = fragment_copy_plan (doq_phase bs) len (byte_at chunk 0) (byte_at chunk 1)"
  shows "copy_count plan = 0 \<or> unat (destination_offset plan) + unat (copy_count plan) \<le> announced (bs @ chunk)"
proof (cases bs rule: doq_phase.cases)
  case 1
  show ?thesis
  proof (cases "2 \<le> len")
    case True
    then obtain a b rest where "chunk = a # b # rest"
      using len by (cases chunk; cases "tl chunk") (auto simp: word_le_nat_alt)
    with True show ?thesis
      by (simp add: plan 1 fragment_copy_plan_def Let_def byte_at_def announced_def unat_u32_from_be_u16_bytes)
  qed (simp add: plan 1 fragment_copy_plan_def)
next
  case (2 hi)
  show ?thesis
  proof (cases "1 \<le> len")
    case True
    then obtain b rest where "chunk = b # rest" using len by (cases chunk) (auto simp: word_le_nat_alt)
    with True show ?thesis
      by (simp add: plan 2 fragment_copy_plan_def Let_def byte_at_def announced_def unat_u32_from_be_u16_bytes)
  qed (simp add: plan 2 fragment_copy_plan_def)
next
  case (3 hi lo body)
  let ?n = "unat hi * 256 + unat lo"
  have "unat (of_nat (length body) :: u32) = length body" if "length body < ?n"
    using that StreamModel.prefix_length_le [of hi lo] by simp
  moreover have "unat (of_nat ?n :: u32) = ?n" by (rule unat_prefix_length)
  ultimately show ?thesis
    by (auto simp: plan 3 fragment_copy_plan_def Let_def announced_def word_less_nat_alt)
qed

definition message_context :: "u8 list \<Rightarrow> addr \<Rightarrow> stream_context" where
  "message_context bs message = \<lparr>sc_id = 0, sc_phase = from_model (doq_phase bs), sc_buf = message\<rparr>"

text \<open>A call on a stream that received \<open>bs\<close>: the result is the phase of all bytes, and only the announced
  part of the message buffer may change.\<close>

lemma stream_data_step:
  assumes dec: "ism_pulse_decode_phase ph = Some (doq_phase bs)" and range: "range_ok message 65535"
    and icap: "unat len \<le> icap" and dis: "len \<noteq> 0 \<longrightarrow> disjoint message 65535 input icap"
    and len: "unat len = length chunk" and chunk: "mem_bytes m input (length chunk) = chunk"
    and run: "ism_pulse_stream_data empty_p ph sid message 65535 input icap len m = (r, m')"
  shows "r = encode (doq_phase (bs @ chunk))" and "ism_pulse_decode_phase (wr_phase r) = Some (doq_phase (bs @ chunk))"
    and "mem_frame message (announced (bs @ chunk)) m m'"
    and "stream_holds bs (message_context bs message) m \<Longrightarrow>
      stream_holds (bs @ chunk) (message_context (bs @ chunk) message) m'"
proof -
  let ?c = "message_context bs message"
  obtain phase c' m1 where h: "handle_stream_data ?c input len m = (phase, c', m1)" by (metis prod_cases3)
  have bounded: "phase_bounded (to_model (sc_phase ?c))" by (simp add: message_context_def doq_phase_bounded)
  have sep: "ingress_separate ?c input len"
    using range dis icap by (auto simp: ingress_separate_def message_context_def disjoint_def range_ok_def)
  note P = pulse_handle_stream_data_eq [OF bounded sep h, of sid empty_p]
  have bytes: "(if len > 0 then m input else 0) = byte_at chunk 0" "(if len > 1 then m (input + 1) else 0) = byte_at chunk 1"
    using fragment_bytes [OF len chunk] by blast+
  have "phase = from_model (fragment_phase (doq_phase bs) len (byte_at chunk 0) (byte_at chunk 1))"
    using h unfolding handle_stream_data_def next_stream_phase_def Let_def bytes
    by (auto simp: stream_fragment_phase_def message_context_def)
  then have phase: "to_model phase = doq_phase (bs @ chunk)" using fragment_phase_refines [OF len, of bs] by simp
  have r: "r = encode (to_model phase)" "m' = m1"
    using run dec range icap dis P
    by (cases "len = 0"; simp add: ism_pulse_stream_data_def ISM_PULSE_MESSAGE_CAPACITY_def message_context_def)+
  then show "r = encode (doq_phase (bs @ chunk))" by (simp add: phase)
  then show "ism_pulse_decode_phase (wr_phase r) = Some (doq_phase (bs @ chunk))"
    by (simp add: decode_encode doq_phase_bounded)
  have m1: "m1 = copy_body_bytes ?c input len m" using h by (simp add: handle_stream_data_def Let_def)
  show "mem_frame message (announced (bs @ chunk)) m m'"
    using plan_announced [OF len refl, of bs] unfolding r(2) m1 copy_body_bytes_def Let_def bytes
    by (auto simp: message_context_def mem_frame_def mem_copy_def)
  have "c' = message_context (bs @ chunk) message"
    using handle_stream_data_ctx [OF h] phase by (simp add: message_context_def flip: to_model_inj)
  then show "stream_holds bs ?c m \<Longrightarrow> stream_holds (bs @ chunk) (message_context (bs @ chunk) message) m'"
    using handle_stream_data_holds [OF _ len chunk h] r(2) by simp
qed

section \<open>The stream test\<close>

subsection \<open>The program\<close>

definition pulse_initial :: ism_pulse_phase where
  "pulse_initial = wire_tagged ISM_PULSE_LENGTH"

definition pulse_query :: "u8 list" where
  "pulse_query = [0, 12, 0, 0, 0, 0, 0, 0, 0, 0, 0, 0, 0, 0xa5]"

text \<open>The message buffer is the storage without its first and last byte, which guard it.\<close>

definition split_run :: "addr \<Rightarrow> addr \<Rightarrow> addr \<Rightarrow> nat \<Rightarrow> nat \<Rightarrow> mem \<Rightarrow> ism_pulse_result \<times> mem" where
  "split_run empty_p storage input n split m =
     (let m1 = mem_write m storage (replicate 65537 0xff);
          (a, m2) = ism_pulse_stream_data empty_p pulse_initial 7 (storage + 1) 65535 input n (of_nat split) m1 in
      ism_pulse_stream_data empty_p (wr_phase a) 7 (storage + 1) 65535 (input + split) (n - split) (of_nat (n - split)) m2)"

definition stream_split :: "addr \<Rightarrow> addr \<Rightarrow> addr \<Rightarrow> nat \<Rightarrow> mem check" where
  "stream_split empty_p storage query split m =
     (let message = storage + 1;
          (b, m3) = split_run empty_p storage query 14 split m;
          fin = ism_pulse_stream_fin (wr_phase b) 7 message 65535 m3 in
      (wr_code b = 4 \<and> wp_tag (wr_phase b) = ISM_PULSE_AWAITING_FIN \<and> wp_expected (wr_phase b) = 12 \<and>
       mem_bytes m3 message 12 = mem_bytes m3 (query + 2) 12 \<and> m3 (message + 12) = 0xff \<and>
       m3 storage = 0xff \<and> m3 (storage + 65536) = 0xff \<and>
       wr_code fin = 2 \<and> wp_tag (wr_phase fin) = ISM_PULSE_PROCESSING \<and> wp_expected (wr_phase fin) = 12 \<and>
       wr_code (ism_pulse_stream_fin (wr_phase fin) 7 message 65535 m3) = 2 \<and>
       mem_bytes m3 message 12 = mem_bytes m3 (query + 2) 12 \<and> m3 (query + 13) = 0xa5, m3))"

definition stream_cut :: "addr \<Rightarrow> addr \<Rightarrow> addr \<Rightarrow> nat \<Rightarrow> mem check" where
  "stream_cut empty_p storage query cut_at m =
     (let m1 = mem_write m storage (replicate 65537 0);
          (a, m2) = ism_pulse_stream_data empty_p pulse_initial 7 (storage + 1) 65535 query 14 (of_nat cut_at) m1 in
      (wr_code (ism_pulse_stream_fin (wr_phase a) 7 (storage + 1) 65535 m2) = 3, m2))"

definition stream_excess :: "addr \<Rightarrow> addr \<Rightarrow> addr \<Rightarrow> nat \<Rightarrow> mem check" where
  "stream_excess empty_p storage excess split m =
     (let (b, m3) = split_run empty_p storage excess 15 split m in
      (wr_code b = 3 \<and> wp_tag (wr_phase b) = ISM_PULSE_DONE \<and> m3 (storage + 13) = 0xff \<and>
       wr_code (ism_pulse_stream_fin (wr_phase b) 7 (storage + 1) 65535 m3) = 3, m3))"

definition data_code :: "u8 \<Rightarrow> (mem \<Rightarrow> ism_pulse_result \<times> mem) \<Rightarrow> mem check" where
  "data_code code call m = (let (r, m') = call m in (wr_code r = code, m'))"

definition stream_short :: "addr \<Rightarrow> addr \<Rightarrow> addr \<Rightarrow> nat \<Rightarrow> mem check list" where
  "stream_short empty_p storage short_prefix n =
     [runs (\<lambda>m. mem_write m short_prefix [0, of_nat n]),
      data_code 3 (ism_pulse_stream_data empty_p pulse_initial 7 (storage + 1) 65535 short_prefix 2 2)]"

definition stream_id_bytes :: "addr \<Rightarrow> nat \<Rightarrow> mem check list" where
  "stream_id_bytes storage i =
     [runs (\<lambda>m. m(storage + 1 + i := 1)),
      holds (\<lambda>m. wr_code (ism_pulse_stream_fin ((wire_tagged ISM_PULSE_AWAITING_FIN)\<lparr>wp_expected := 12\<rparr>)
        7 (storage + 1) 65535 m) = 3),
      runs (\<lambda>m. m(storage + 1 + i := 0))]"

definition stream_policy :: "addr \<Rightarrow> addr \<Rightarrow> addr \<Rightarrow> mem check list" where
  "stream_policy empty_p storage query =
     (let message = storage + 1; zero = holds (\<lambda>m. m message = 0 \<and> m (message + 11) = 0);
          data = ism_pulse_stream_data empty_p in
      [holds (\<lambda>m. wr_code (ism_pulse_stream_fin (wire_tagged ISM_PULSE_AWAITING_FIN) 7 message 65535 m) = 2),
       data_code 3 (data ((wire_tagged ISM_PULSE_BODY)\<lparr>wp_expected := 12, wp_current := 13\<rparr>) 7 message 65535 NULL 0 0),
       data_code 3 (data (wire_tagged ISM_PULSE_DONE) 7 message 65535 query 14 14),
       zero,
       data_code 3 (data (wire_tagged 99) 7 message 65535 query 14 14),
       data_code 3 (data ((wire_tagged ISM_PULSE_BODY)\<lparr>wp_expected := 65536\<rparr>) 7 message 65535 query 14 14),
       data_code 3 (data pulse_initial 7 message 65535 query 14 0xFFFFFFFF),
       data_code 3 (data pulse_initial 7 message 65535 NULL 1 1),
       data_code 3 (data pulse_initial 7 message 65534 query 14 14),
       data_code 3 (data pulse_initial 7 NULL 65535 query 14 14),
       data_code 3 (data pulse_initial 7 message 65535 message 14 14),
       data_code 3 (data pulse_initial 7 message 65535 (message + 1) 14 14),
       holds (\<lambda>m. wr_code (ism_pulse_stream_fin pulse_initial 7 message 1 m) = 3),
       zero,
       (\<lambda>m. case data pulse_initial 7 message 65535 NULL 0 0 m of
              (r, m') \<Rightarrow> (wp_tag (wr_phase r) = ISM_PULSE_LENGTH, m'))])"

definition stream_maximum :: "addr \<Rightarrow> addr \<Rightarrow> addr \<Rightarrow> mem check" where
  "stream_maximum empty_p storage large_input m =
     (let message = storage + 1;
          m1 = mem_write m storage (replicate 65537 0x79);
          m2 = (mem_write m1 large_input (replicate 65538 0))(large_input := 255, large_input + 1 := 255, large_input + 65536 := 0xa5);
          (maximum, m3) = ism_pulse_stream_data empty_p pulse_initial 0xFFFFFFFFFFFFFFFF message 65535 large_input 65538 65537 m2;
          (r, m4) = ism_pulse_stream_data empty_p pulse_initial 7 message 65535 large_input 65538 65538 m3 in
      (wr_code maximum = 4 \<and> wp_expected (wr_phase maximum) = 65535 \<and>
       m3 (message + 65534) = 0xa5 \<and> m3 storage = 0x79 \<and> m3 (storage + 65536) = 0x79 \<and>
       wr_code (ism_pulse_stream_fin (wr_phase maximum) 0xFFFFFFFFFFFFFFFF message 65535 m3) = 2 \<and>
       wr_code r = 3, m4))"

definition pulse_stream_smoke :: "addr \<Rightarrow> addr \<Rightarrow> addr \<Rightarrow> addr \<Rightarrow> addr \<Rightarrow> addr \<Rightarrow> mem \<Rightarrow> bool" where
  "pulse_stream_smoke empty_p storage query excess short_prefix large_input =
     run_checks
       ([runs (\<lambda>m. mem_write m query pulse_query),
         holds (\<lambda>m. ism_pulse_stream_abi_version = ISM_PULSE_STREAM_ABI_VERSION)] @
        map (stream_split empty_p storage query) [0..<15] @
        map (stream_cut empty_p storage query) [0..<14] @
        [runs (\<lambda>m. (mem_copy m excess query 14)(excess + 14 := 0x79))] @
        map (stream_excess empty_p storage excess) [0..<16] @
        concat (map (stream_short empty_p storage short_prefix) [0..<12]) @
        [runs (\<lambda>m. mem_write m storage (replicate 65537 0))] @
        concat (map (stream_id_bytes storage) [0..<2]) @
        stream_policy empty_p storage query @
        [stream_maximum empty_p storage large_input])"

subsection \<open>The test returns true\<close>

definition stream_array :: "addr \<Rightarrow> addr \<Rightarrow> nat \<Rightarrow> bool" where
  "stream_array storage p n \<longleftrightarrow> p \<noteq> NULL \<and> p + n \<le> UINTPTR_MAX \<and> ranges_disjoint p n storage 65537"

definition stream_placed :: "addr \<Rightarrow> addr \<Rightarrow> addr \<Rightarrow> addr \<Rightarrow> addr \<Rightarrow> bool" where
  "stream_placed storage query excess short_prefix large_input \<longleftrightarrow> storage \<noteq> NULL \<and> storage + 65537 \<le> UINTPTR_MAX \<and>
     stream_array storage query 14 \<and> stream_array storage excess 15 \<and> stream_array storage short_prefix 2 \<and>
     stream_array storage large_input 65538"

lemma run_phase:
  assumes "P s" and "\<And>p s. p \<in> set ps \<Longrightarrow> P s \<Longrightarrow> fst (p s) \<and> P (snd (p s))" and "\<And>s. P s \<Longrightarrow> run_checks qs s"
  shows "run_checks (ps @ qs) s"
  using assms
proof (induction ps arbitrary: s)
  case (Cons p ps)
  have "fst (p s) \<and> P (snd (p s))" using Cons.prems(1,2) by simp
  with Cons.IH [of "snd (p s)"] Cons.prems(2,3) show ?case by (simp add: split_beta)
qed simp

lemma run_blocks_then:
  assumes "\<And>ps. ps \<in> set pss \<Longrightarrow> block_passes ps" and "\<And>s. run_checks qs s"
  shows "run_checks (concat pss @ qs) s"
  using run_blocks [of "pss @ [qs]" s] assms block_from [of qs] by auto

lemma array_disjoint:
  assumes "storage \<noteq> NULL" "storage + 65537 \<le> UINTPTR_MAX" and "stream_array storage p n" and "q + k = p + n" "p \<le> q"
  shows "disjoint (storage + 1) 65535 q k" and "range_ok (storage + 1) 65535"
  using assms by (auto simp: stream_array_def disjoint_def range_ok_def ranges_disjoint_def)

lemma stream_fin_eq:
  assumes "ism_pulse_decode_phase ph = Some p" and "range_ok message 65535"
  shows "ism_pulse_stream_fin ph sid message 65535 m = encode (finish_doq_phase p (m message) (m (message + 1)))"
  using assms by (simp add: ism_pulse_stream_fin_def pulse_handle_stream_fin_def Let_def)

lemma announced_take: "announced (take k bs) \<le> announced bs"
  by (cases bs; cases "tl bs"; cases k; cases "k - 1") (auto simp: announced_def)

lemma announced_le: "announced bs \<le> 65535"
  using StreamModel.prefix_length_le by (simp add: announced_def split: list.split)

lemma decode_initial: "ism_pulse_decode_phase pulse_initial = Some (doq_phase [])"
  by (simp add: pulse_initial_def ism_pulse_decode_phase_def wire_tagged_def)

text \<open>A buffer cut in two anywhere: the phase of all its bytes, and nothing written past the announced end.\<close>

lemma split_run_result:
  assumes st: "storage \<noteq> NULL" "storage + 65537 \<le> UINTPTR_MAX" and arr: "stream_array storage input n"
    and bs: "mem_bytes m input n = bs" and n: "split \<le> n" "n < 1000"
    and run: "split_run empty_p storage input n split m = (b, m3)"
  shows "b = encode (doq_phase bs)" and "ism_pulse_decode_phase (wr_phase b) = Some (doq_phase bs)"
    and "mem_frame (storage + 1) (announced bs) (mem_write m storage (replicate 65537 0xff)) m3"
    and "stream_holds bs (message_context bs (storage + 1)) m3"
proof -
  let ?m1 = "mem_write m storage (replicate 65537 (0xff :: u8))" and ?msg = "storage + 1"
  obtain a m2 where first: "ism_pulse_stream_data empty_p pulse_initial 7 ?msg 65535 input n (of_nat split) ?m1 = (a, m2)"
    by fastforce
  have second: "ism_pulse_stream_data empty_p (wr_phase a) 7 ?msg 65535 (input + split) (n - split) (of_nat (n - split)) m2 = (b, m3)"
    using run first by (simp add: split_run_def)
  have len: "length bs = n" using bs by auto
  have u: "unat (of_nat split :: u32) = split" "unat (of_nat (n - split) :: u32) = n - split"
    using n by (intro unat_of_nat_u32; linarith)+
  have D: "disjoint ?msg 65535 input n" "range_ok ?msg 65535" "disjoint ?msg 65535 (input + split) (n - split)"
    using array_disjoint [OF st arr, of input n] array_disjoint [OF st arr, of "input + split" "n - split"] n by simp_all
  have "mem_bytes ?m1 input n = bs"
    using arr bs by (simp add: stream_array_def mem_bytes_write_disjoint)
  then have b1: "mem_bytes ?m1 input n = bs" and t: "mem_bytes ?m1 input (length (take split bs)) = take split bs"
    using n len take_mem_bytes [of split ?m1 input n] by (simp_all add: min_def)
  have holds0: "stream_holds [] (message_context [] ?msg) ?m1" by (simp add: stream_holds_def message_context_def)
  note S1 = stream_data_step [OF decode_initial D(2) _ _ _ t first, simplified]
  have s1: "ism_pulse_decode_phase (wr_phase a) = Some (doq_phase (take split bs))"
      "mem_frame ?msg (announced (take split bs)) ?m1 m2"
      "stream_holds (take split bs) (message_context (take split bs) ?msg) m2"
    using S1(2-4) holds0 D(1) u(1) n len by (simp_all add: min_def)
  have fr: "ranges_disjoint (input + split) (n - split) ?msg (announced (take split bs))"
    using arr announced_le [of "take split bs"] n by (auto simp: stream_array_def ranges_disjoint_def)
  have d: "mem_bytes m2 (input + split) (length (drop split bs)) = drop split bs"
    using mem_bytes_frame [OF s1(2) fr] mem_bytes_suffix [of ?m1 input bs split] b1 len n by simp
  note S2 = stream_data_step [OF s1(1) D(2) _ _ _ d second]
  have s2: "b = encode (doq_phase bs)" "ism_pulse_decode_phase (wr_phase b) = Some (doq_phase bs)"
      "mem_frame ?msg (announced bs) m2 m3" "stream_holds bs (message_context bs ?msg) m3"
    using S2 s1(3) D(3) u(2) len by simp_all
  then show "b = encode (doq_phase bs)" "ism_pulse_decode_phase (wr_phase b) = Some (doq_phase bs)"
    "stream_holds bs (message_context bs ?msg) m3" by blast+
  show "mem_frame ?msg (announced bs) ?m1 m3"
    using mem_frame_trans [OF mem_frame_mono [OF s1(2)] s2(3)] announced_take [of split bs] by simp
qed

lemma array_kept:
  assumes "stream_array storage p n" and "mem_frame (storage + 1) k (mem_write m storage (replicate 65537 v)) m'" and "k \<le> 65535"
  shows "mem_bytes m' p n = mem_bytes m p n"
proof -
  have "ranges_disjoint p n (storage + 1) k" using assms(1,3) by (auto simp: stream_array_def ranges_disjoint_def)
  then show ?thesis using assms(1) mem_bytes_frame [OF assms(2)] by (simp add: stream_array_def mem_bytes_write_disjoint)
qed

lemma pulse_query_phase: "doq_phase pulse_query = AwaitingFin 12" "announced pulse_query = 12" "length pulse_query = 14"
    "drop 2 pulse_query = [0, 0, 0, 0, 0, 0, 0, 0, 0, 0, 0, 0xa5]"
  by (simp_all add: pulse_query_def announced_def)

lemma stream_split_passes:
  assumes st: "storage \<noteq> NULL" "storage + 65537 \<le> UINTPTR_MAX" and arr: "stream_array storage query 14"
    and q: "mem_bytes m query 14 = pulse_query" and "split \<le> 14"
  shows "fst (stream_split empty_p storage query split m) \<and>
    mem_bytes (snd (stream_split empty_p storage query split m)) query 14 = pulse_query"
proof -
  obtain b m3 where run: "split_run empty_p storage query 14 split m = (b, m3)" by fastforce
  have "(14 :: nat) < 1000" by simp
  note R = split_run_result [OF st arr q \<open>split \<le> 14\<close> this run, unfolded pulse_query_phase]
  have msg: "mem_bytes m3 (storage + 1) 12 = drop 2 pulse_query"
    using R(4) by (simp add: stream_holds_def message_context_def pulse_query_phase)
  have kept: "mem_bytes m3 query 14 = pulse_query" using array_kept [OF arr R(3)] q by simp
  have body: "mem_bytes m3 (query + 2) 12 = drop 2 pulse_query"
    using mem_bytes_suffix [of m3 query pulse_query 2] kept by (simp add: pulse_query_phase)
  have zero: "m3 (storage + 1) = 0" "m3 (storage + 2) = 0"
    using arg_cong [OF msg, of "\<lambda>bs. bs ! 0"] arg_cong [OF msg, of "\<lambda>bs. bs ! 1"]
    by (simp_all add: pulse_query_phase)
  have last: "m3 (query + 13) = 0xa5"
    using arg_cong [OF kept, of "\<lambda>bs. bs ! 13"] by (simp add: pulse_query_def)
  have out: "m3 a = 0xff" if "a = storage \<or> storage + 13 \<le> a \<and> a < storage + 65537" for a
    using R(3) that by (auto simp: mem_frame_def mem_simps)
  have ok: "range_ok (storage + 1) 65535" using array_disjoint [OF st arr, of query 14] by simp
  have fin: "ism_pulse_stream_fin (wr_phase b) 7 (storage + 1) 65535 m3 = encode (Processing 12)"
    using stream_fin_eq [OF R(2) ok] zero by (simp add: finish_doq_phase_def finish_stream_phase_def)
  have again: "ism_pulse_stream_fin (wr_phase (encode (Processing 12))) 7 (storage + 1) 65535 m3 = encode (Processing 12)"
    using stream_fin_eq [OF decode_encode ok, of "Processing 12"] zero
    by (simp add: finish_doq_phase_def finish_stream_phase_def)
  show ?thesis
    using R(1) fin msg body last out kept again
    by (simp add: stream_split_def run Let_def wire_tagged_def)
qed

text \<open>A stream that ends before or after its announced length is answered with code 3.\<close>

lemma finish_incomplete: "length bs \<noteq> announced bs + 2 \<Longrightarrow> finish_doq_phase (doq_phase bs) hi lo = Done"
  by (cases bs rule: doq_phase.cases) (auto simp: finish_doq_phase_def finish_stream_phase_def announced_def Let_def)

lemma stream_cut_passes:
  assumes st: "storage \<noteq> NULL" "storage + 65537 \<le> UINTPTR_MAX" and arr: "stream_array storage query 14"
    and q: "mem_bytes m query 14 = pulse_query" and "cut_at < 14"
  shows "fst (stream_cut empty_p storage query cut_at m) \<and>
    mem_bytes (snd (stream_cut empty_p storage query cut_at m)) query 14 = pulse_query"
proof -
  let ?m1 = "mem_write m storage (replicate 65537 (0 :: u8))" and ?bs = "take cut_at pulse_query"
  obtain a m2 where run: "ism_pulse_stream_data empty_p pulse_initial 7 (storage + 1) 65535 query 14 (of_nat cut_at) ?m1 = (a, m2)"
    by fastforce
  have u: "unat (of_nat cut_at :: u32) = cut_at" using \<open>cut_at < 14\<close> by (intro unat_of_nat_u32) linarith
  have len: "length ?bs = cut_at" using \<open>cut_at < 14\<close> by (simp add: pulse_query_phase)
  have "mem_bytes ?m1 query 14 = pulse_query"
    using arr q by (simp add: stream_array_def mem_bytes_write_disjoint)
  then have t: "mem_bytes ?m1 query (length ?bs) = ?bs"
    using len take_mem_bytes [of cut_at ?m1 query 14] \<open>cut_at < 14\<close> by (simp add: min_def)
  have D: "disjoint (storage + 1) 65535 query 14" "range_ok (storage + 1) 65535"
    using array_disjoint [OF st arr, of query 14] by simp_all
  have S: "ism_pulse_decode_phase (wr_phase a) = Some (doq_phase ?bs)" "mem_frame (storage + 1) (announced ?bs) ?m1 m2"
    using stream_data_step(2,3) [OF decode_initial D(2) _ _ _ t run] D(1) u len \<open>cut_at < 14\<close> by simp_all
  have "announced ?bs + 2 \<noteq> cut_at"
    using \<open>cut_at < 14\<close> by (cases cut_at; cases "cut_at - 1") (auto simp: pulse_query_def announced_def)
  then have "ism_pulse_stream_fin (wr_phase a) 7 (storage + 1) 65535 m2 = rejected"
    using stream_fin_eq [OF S(1) D(2)] finish_incomplete [of ?bs] len by simp
  moreover have "mem_bytes m2 query 14 = pulse_query" using array_kept [OF arr S(2) announced_le] q by simp
  ultimately show ?thesis using run by (simp add: stream_cut_def rejected_def)
qed

lemma stream_excess_passes:
  assumes st: "storage \<noteq> NULL" "storage + 65537 \<le> UINTPTR_MAX" and arr: "stream_array storage excess 15"
    and q: "mem_bytes m excess 15 = pulse_query @ [0x79]" and "split \<le> 15"
  shows "fst (stream_excess empty_p storage excess split m) \<and>
    mem_bytes (snd (stream_excess empty_p storage excess split m)) excess 15 = pulse_query @ [0x79]"
proof -
  obtain b m3 where run: "split_run empty_p storage excess 15 split m = (b, m3)" by fastforce
  have "(15 :: nat) < 1000" by simp
  note R = split_run_result [OF st arr q \<open>split \<le> 15\<close> this run]
  have facts: "doq_phase (pulse_query @ [0x79]) = Done" "announced (pulse_query @ [0x79]) = 12"
    by (simp_all add: pulse_query_def announced_def)
  note R = R [unfolded facts]
  have ok: "range_ok (storage + 1) 65535" using array_disjoint [OF st arr, of excess 15] by simp
  have "ism_pulse_stream_fin (wr_phase b) 7 (storage + 1) 65535 m3 = rejected"
    using stream_fin_eq [OF R(2) ok] by simp
  moreover have "m3 (storage + 13) = 0xff" using R(3) by (simp add: mem_frame_def mem_simps)
  moreover have "mem_bytes m3 excess 15 = pulse_query @ [0x79]" using array_kept [OF arr R(3)] q by simp
  ultimately show ?thesis using R(1) by (simp add: stream_excess_def run rejected_def wire_tagged_def)
qed

text \<open>A prefix that announces less than a DNS header is refused.\<close>

lemma stream_short_passes:
  assumes st: "storage \<noteq> NULL" "storage + 65537 \<le> UINTPTR_MAX" and arr: "stream_array storage short_prefix 2" and n: "n < 12"
  shows "block_passes (stream_short empty_p storage short_prefix n)"
proof -
  have "fst (data_code 3 (ism_pulse_stream_data empty_p pulse_initial 7 (storage + 1) 65535 short_prefix 2 2)
      (mem_write m short_prefix [0, of_nat n]))" (is "fst (data_code 3 ?f ?m)") for m
  proof -
    obtain r m' where run: "?f ?m = (r, m')" by fastforce
    have chunk: "mem_bytes ?m short_prefix (length [0, of_nat n :: u8]) = [0, of_nat n]"
      by (rule mem_bytes_write_same)
    have "unat (of_nat n :: u8) = n" using n by (simp add: unat_of_nat take_bit_eq_mod)
    moreover have "r = encode (doq_phase [0, of_nat n])"
      using stream_data_step(1) [OF decode_initial _ _ _ _ chunk run] array_disjoint [OF st arr, of short_prefix 2] by simp
    ultimately show ?thesis using n run by (simp add: data_code_def rejected_def)
  qed
  then show ?thesis by (simp add: stream_short_def block_from runs_def split_beta)
qed

definition zero_header :: "addr \<Rightarrow> mem \<Rightarrow> bool" where
  "zero_header message m \<longleftrightarrow> (\<forall>i < 12. m (message + i) = 0)"

lemma zero_header_bytes:
  assumes "zero_header message m"
  shows "m message = 0" and "m (message + 1) = 0" and "m (message + 11) = 0"
  using assms [unfolded zero_header_def, rule_format, of 0] assms [unfolded zero_header_def, rule_format, of 1]
    assms [unfolded zero_header_def, rule_format, of 11] by simp_all

text \<open>Calls that write nothing.\<close>

lemma copy_range_none [simp]: "copy_range src dst source destination 0 m = m"
  by (simp add: copy_range_def copy_range_from.simps)

lemma data_code_rejected:
  assumes "ism_pulse_decode_phase phase = None \<or> cap < 65535 \<or> \<not> range_ok message cap \<or>
    unat len > icap \<or> len \<noteq> 0 \<and> \<not> disjoint message cap input icap"
  shows "data_code 3 (ism_pulse_stream_data empty_p phase sid message cap input icap len) m = (True, m)"
  by (simp add: data_code_def pulse_stream_data_rejects [OF assms] rejected_def)

lemma data_body_past_end:
  assumes "range_ok message 65535"
  shows "data_code 3 (ism_pulse_stream_data empty_p ((wire_tagged ISM_PULSE_BODY)\<lparr>wp_expected := 12, wp_current := 13\<rparr>)
    sid message 65535 NULL 0 0) m = (True, m)"
  using assms
  by (simp add: data_code_def ism_pulse_stream_data_def ism_pulse_decode_phase_def wire_tagged_def pulse_tags
      ISM_PULSE_MESSAGE_CAPACITY_def pulse_handle_stream_data_def fragment_phase_def fragment_copy_plan_def
      advance_body_phase_def advance_message_checked_def Let_def rejected_def)

lemma data_after_done:
  assumes "disjoint message 65535 input icap" "unat len \<le> icap"
  shows "data_code 3 (ism_pulse_stream_data empty_p (wire_tagged ISM_PULSE_DONE) sid message 65535 input icap len) m = (True, m)"
  using assms
  by (simp add: data_code_def ism_pulse_stream_data_def ism_pulse_decode_phase_def wire_tagged_def pulse_tags disjoint_def
      ISM_PULSE_MESSAGE_CAPACITY_def pulse_handle_stream_data_def fragment_phase_def fragment_copy_plan_def
      advance_body_phase_def Let_def rejected_def)

lemma data_nothing_yet:
  assumes "range_ok message 65535"
  shows "ism_pulse_stream_data empty_p pulse_initial sid message 65535 NULL 0 0 m = (encode ReadingLength, m)"
  using assms
  by (simp add: ism_pulse_stream_data_def decode_initial ISM_PULSE_MESSAGE_CAPACITY_def pulse_handle_stream_data_def
      fragment_phase_def fragment_copy_plan_def Let_def)

lemma fin_awaiting:
  assumes "range_ok message 65535" and "n \<le> 65535"
  shows "ism_pulse_stream_fin ((wire_tagged ISM_PULSE_AWAITING_FIN)\<lparr>wp_expected := n\<rparr>) sid message 65535 m =
    encode (if m message = 0 \<and> m (message + 1) = 0 then Processing n else Done)"
proof -
  have "ism_pulse_decode_phase ((wire_tagged ISM_PULSE_AWAITING_FIN)\<lparr>wp_expected := n\<rparr>) = Some (AwaitingFin n)"
    using assms(2)
    by (simp add: ism_pulse_decode_phase_def wire_tagged_def pulse_tags ISM_PULSE_MESSAGE_CAPACITY_def word_le_nat_alt)
  from stream_fin_eq [OF this assms(1)] show ?thesis by (simp add: finish_doq_phase_def finish_stream_phase_def)
qed

lemma stream_id_passes:
  assumes ok: "range_ok (storage + 1) 65535" and i: "i < 2" and z: "zero_header (storage + 1) m"
    and rest: "\<And>m'. zero_header (storage + 1) m' \<Longrightarrow> run_checks qs m'"
  shows "run_checks (stream_id_bytes storage i @ qs) m"
proof -
  let ?m = "m(storage + 1 + i := 1)"
  have "ism_pulse_stream_fin ((wire_tagged ISM_PULSE_AWAITING_FIN)\<lparr>wp_expected := 12\<rparr>) 7 (storage + 1) 65535 ?m = rejected"
    using i fin_awaiting [OF ok, of 12 7 ?m] by (auto simp: less_2_cases_iff)
  moreover have "zero_header (storage + 1) (?m(storage + 1 + i := 0))" using z by (simp add: zero_header_def)
  ultimately show ?thesis using rest by (simp add: stream_id_bytes_def holds_def runs_def rejected_def)
qed

lemma stream_policy_passes:
  assumes st: "storage \<noteq> NULL" "storage + 65537 \<le> UINTPTR_MAX" and arr: "stream_array storage query 14"
    and z: "zero_header (storage + 1) m"
    and rest: "\<And>m'. zero_header (storage + 1) m' \<Longrightarrow> run_checks qs m'"
  shows "run_checks (stream_policy empty_p storage query @ qs) m"
proof -
  define message where msg: "message = storage + 1"
  let ?data = "\<lambda>phase input icap len. data_code 3 (ism_pulse_stream_data empty_p phase 7 message 65535 input icap len) m"
  have ok: "range_ok message 65535" "disjoint message 65535 query 14"
    using array_disjoint [OF st arr, of query 14] by (simp_all add: msg)
  have zero: "m message = 0" "m (message + 1) = 0" "m (message + 11) = 0"
    using zero_header_bytes [OF z] by (simp_all only: msg)
  have await: "wr_code (ism_pulse_stream_fin (wire_tagged ISM_PULSE_AWAITING_FIN) 7 message 65535 m) = 2"
    using fin_awaiting [OF ok(1), of 0 7 m] zero by (simp add: wire_tagged_def)
  have "ism_pulse_decode_phase (wire_tagged 99) = None"
    and "ism_pulse_decode_phase ((wire_tagged ISM_PULSE_BODY)\<lparr>wp_expected := 65536\<rparr>) = None"
    by (simp_all add: ism_pulse_decode_phase_def wire_tagged_def pulse_tags ISM_PULSE_MESSAGE_CAPACITY_def)
  then have states: "?data (wire_tagged 99) query 14 14 = (True, m)"
      "?data ((wire_tagged ISM_PULSE_BODY)\<lparr>wp_expected := 65536\<rparr>) query 14 14 = (True, m)"
    by (simp_all add: data_code_rejected)
  have "\<not> disjoint message 65535 message 14" "\<not> disjoint message 65535 (message + 1) 14" "\<not> disjoint message 65535 NULL 1"
    by (simp_all add: disjoint_def range_ok_def)
  then have ranges: "?data pulse_initial query 14 0xFFFFFFFF = (True, m)" "?data pulse_initial NULL 1 1 = (True, m)"
      "?data pulse_initial message 14 14 = (True, m)" "?data pulse_initial (message + 1) 14 14 = (True, m)"
      "data_code 3 (ism_pulse_stream_data empty_p pulse_initial 7 message 65534 query 14 14) m = (True, m)"
      "data_code 3 (ism_pulse_stream_data empty_p pulse_initial 7 NULL 65535 query 14 14) m = (True, m)"
    by (simp_all add: data_code_rejected range_ok_def)
  have small: "wr_code (ism_pulse_stream_fin pulse_initial 7 message 1 m) = 3"
    by (simp add: ism_pulse_stream_fin_def decode_initial rejected_def)
  have done_state: "?data (wire_tagged ISM_PULSE_DONE) query 14 14 = (True, m)"
    by (rule data_after_done [OF ok(2)]) simp
  have start: "ism_pulse_stream_data empty_p pulse_initial 7 message 65535 NULL 0 0 m = (encode ReadingLength, m)"
    by (rule data_nothing_yet [OF ok(1)])
  show ?thesis
    unfolding stream_policy_def Let_def msg [symmetric] append_Cons append_Nil run_checks.simps holds_def zero await small
      states ranges done_state start data_body_past_end [OF ok(1)] prod.case
    using rest [OF z] by (simp add: wire_tagged_def)
qed

text \<open>A message of the largest length fills the buffer exactly, and one byte more is refused.\<close>

definition largest :: "u8 list" where
  "largest = 255 # 255 # replicate 65534 0 @ [0xa5]"

lemma largest_phase: "doq_phase largest = AwaitingFin 65535" "announced largest = 65535" "length largest = 65537"
    "drop 2 largest = replicate 65534 0 @ [0xa5]" "doq_phase (largest @ [0]) = Done"
  by (simp_all add: largest_def announced_def)

lemma largest_bytes:
  fixes m :: mem and p :: addr
  defines "m2 \<equiv> (mem_write m p (replicate 65538 0))(p := 255, p + 1 := 255, p + 65536 := 0xa5)"
  shows "mem_bytes m2 p 65538 = largest @ [0]"
proof (rule nth_equalityI)
  fix i assume "i < length (mem_bytes m2 p 65538)"
  then have "i = 0 \<or> i = 1 \<or> 2 \<le> i \<and> i < 65536 \<or> i = 65536 \<or> i = 65537" by auto
  then show "mem_bytes m2 p 65538 ! i = (largest @ [0]) ! i"
    by (elim disjE) (auto simp: m2_def largest_def mem_simps nth_append nth_Cons' nth_replicate)
qed (simp add: largest_phase)

lemma stream_maximum_passes:
  assumes st: "storage \<noteq> NULL" "storage + 65537 \<le> UINTPTR_MAX" and arr: "stream_array storage large_input 65538"
  shows "fst (stream_maximum empty_p storage large_input m)"
proof -
  let ?msg = "storage + 1" and ?m1 = "mem_write m storage (replicate 65537 (0x79 :: u8))"
  define m2 where "m2 = (mem_write ?m1 large_input (replicate 65538 0))(large_input := 255, large_input + 1 := 255, large_input + 65536 := 0xa5)"
  obtain b m3 where run: "ism_pulse_stream_data empty_p pulse_initial 0xFFFFFFFFFFFFFFFF ?msg 65535 large_input 65538 65537 m2 = (b, m3)"
    by fastforce
  obtain r m4 where run2: "ism_pulse_stream_data empty_p pulse_initial 7 ?msg 65535 large_input 65538 65538 m3 = (r, m4)"
    by fastforce
  have D: "disjoint ?msg 65535 large_input 65538" "range_ok ?msg 65535"
    using array_disjoint [OF st arr, of large_input 65538] by simp_all
  have all: "mem_bytes m2 large_input 65538 = largest @ [0]" unfolding m2_def by (rule largest_bytes)
  have chunk: "mem_bytes m2 large_input (length largest) = largest"
    using take_mem_bytes [of 65537 m2 large_input 65538] all by (simp add: largest_phase)
  note S = stream_data_step [OF decode_initial D(2) _ _ _ chunk run, simplified append_Nil largest_phase]
  have S: "b = encode (AwaitingFin 65535)" "ism_pulse_decode_phase (wr_phase b) = Some (AwaitingFin 65535)"
      "mem_frame ?msg 65535 m2 m3" "stream_holds largest (message_context largest ?msg) m3"
    using S D(1) by (simp_all add: stream_holds_def message_context_def)
  have msg: "mem_bytes m3 ?msg 65535 = replicate 65534 0 @ [0xa5]"
    using S(4) by (simp add: stream_holds_def message_context_def largest_phase)
  have at: "m3 (?msg + i) = (if i = 65534 then 0xa5 else 0)" if "i < 65535" for i
    using that arg_cong [OF msg, of "\<lambda>bs. bs ! i"] by (simp add: nth_append)
  have out: "m3 storage = 0x79" "m3 (storage + 65536) = 0x79"
    using S(3) arr by (auto simp: mem_frame_def m2_def mem_simps stream_array_def ranges_disjoint_def)
  have "ranges_disjoint large_input 65538 ?msg 65535" using arr by (auto simp: stream_array_def ranges_disjoint_def)
  then have "mem_bytes m3 large_input (length (largest @ [0])) = largest @ [0]"
    using mem_bytes_frame [OF S(3)] all by (simp add: largest_phase)
  from stream_data_step(1) [OF decode_initial D(2) _ _ _ this run2] have "r = rejected"
    using D(1) by (simp add: largest_phase)
  moreover have "ism_pulse_stream_fin (wr_phase b) 0xFFFFFFFFFFFFFFFF ?msg 65535 m3 = encode (Processing 65535)"
    using stream_fin_eq [OF S(2) D(2)] at [of 0] at [of 1] by (simp add: finish_doq_phase_def finish_stream_phase_def)
  ultimately show ?thesis
    unfolding stream_maximum_def Let_def m2_def [symmetric] run prod.case run2
    using S(1) out at [of 65534] by (simp add: rejected_def)
qed

text \<open>The whole test.\<close>

lemma stream_smoke:
  assumes "stream_placed storage query excess short_prefix large_input"
  shows "pulse_stream_smoke empty_p storage query excess short_prefix large_input m"
proof -
  have st: "storage \<noteq> NULL" "storage + 65537 \<le> UINTPTR_MAX"
    and arr: "stream_array storage query 14" "stream_array storage excess 15" "stream_array storage short_prefix 2"
      "stream_array storage large_input 65538"
    using assms by (simp_all add: stream_placed_def)
  have ok: "range_ok (storage + 1) 65535" using array_disjoint [OF st arr(1), of query 14] by simp
  let ?P = "\<lambda>m. mem_bytes m query 14 = pulse_query" and ?E = "\<lambda>m. mem_bytes m excess 15 = pulse_query @ [0x79]"
  have policy: "run_checks (concat (map (stream_id_bytes storage) [0..<2]) @ stream_policy empty_p storage query @
      [stream_maximum empty_p storage large_input]) m" if "zero_header (storage + 1) m" for m
    using that stream_maximum_passes [OF st arr(4)]
    by (auto simp: upt_rec split_beta intro!: stream_id_passes [OF ok] stream_policy_passes [OF st arr(1)])
  have zeroed: "run_checks ([runs (\<lambda>m. mem_write m storage (replicate 65537 0))] @
      concat (map (stream_id_bytes storage) [0..<2]) @ stream_policy empty_p storage query @
      [stream_maximum empty_p storage large_input]) m" for m
    using policy [of "mem_write m storage (replicate 65537 0)"]
    by (simp add: runs_def zero_header_def mem_simps)
  have short: "run_checks (concat (map (stream_short empty_p storage short_prefix) [0..<12]) @
      [runs (\<lambda>m. mem_write m storage (replicate 65537 0))] @ concat (map (stream_id_bytes storage) [0..<2]) @
      stream_policy empty_p storage query @ [stream_maximum empty_p storage large_input]) m" for m
    by (rule run_blocks_then [OF _ zeroed]) (auto intro!: stream_short_passes [OF st arr(3)])
  have copied: "?E ((mem_copy m excess query 14)(excess + 14 := 0x79))" if "?P m" for m
  proof -
    let ?m' = "(mem_copy m excess query 14)(excess + 14 := 0x79)"
    have "mem_bytes ?m' excess 14 = mem_bytes (mem_copy m excess query 14) excess 14" by (rule mem_bytes_eqI) simp
    with that mem_bytes_add [of ?m' excess 14 1] show ?thesis by (simp add: mem_bytes_Suc)
  qed
  have "run_checks (map (stream_split empty_p storage query) [0..<15] @ map (stream_cut empty_p storage query) [0..<14] @
      [runs (\<lambda>m. (mem_copy m excess query 14)(excess + 14 := 0x79))] @ map (stream_excess empty_p storage excess) [0..<16] @
      concat (map (stream_short empty_p storage short_prefix) [0..<12]) @
      [runs (\<lambda>m. mem_write m storage (replicate 65537 0))] @ concat (map (stream_id_bytes storage) [0..<2]) @
      stream_policy empty_p storage query @ [stream_maximum empty_p storage large_input]) m" if "?P m" for m
  proof (rule run_phase [where P = ?P, OF that], goal_cases)
    case (1 p s)
    then show ?case using stream_split_passes [OF st arr(1)] by auto
  next
    case (2 s)
    show ?case
    proof (rule run_phase [where P = ?P, OF 2], goal_cases)
      case (1 p s)
      then show ?case using stream_cut_passes [OF st arr(1)] by auto
    next
      case (2 s)
      have "run_checks (map (stream_excess empty_p storage excess) [0..<16] @
          concat (map (stream_short empty_p storage short_prefix) [0..<12]) @
          [runs (\<lambda>m. mem_write m storage (replicate 65537 0))] @ concat (map (stream_id_bytes storage) [0..<2]) @
          stream_policy empty_p storage query @ [stream_maximum empty_p storage large_input])
          ((mem_copy s excess query 14)(excess + 14 := 0x79))"
        by (rule run_phase [where P = ?E, OF copied [OF 2] _ short]) (use stream_excess_passes [OF st arr(2)] in auto)
      then show ?case by (simp add: runs_def)
    qed
  qed
  from this [of "mem_write m query pulse_query"] show ?thesis
    using mem_bytes_write_same [of m query pulse_query]
    by (simp add: pulse_stream_smoke_def runs_def holds_def pulse_query_phase ism_pulse_stream_abi_version_def)
qed

end
