(* ===== verification/Smoke_Response.thy ===== *)
theory Smoke_Response
  imports Smoke_Framing
begin

text \<open>
  The test of the candidate response lane, \<^verbatim>\<open>src/migration/c/pulse_response_smoke.c\<close>, as a program over the
  model: the candidate function and its C entry point on every length and capacity at the
  boundaries, with three patterns of source bytes, then descriptors that must be refused without a
  write. The test returns true wherever its two buffers stand.
\<close>

section \<open>The program\<close>

definition pattern_byte :: "nat \<Rightarrow> nat \<Rightarrow> u8" where
  "pattern_byte pattern i = of_nat (i * (pattern + 1) * 29 + pattern * 17)"

text \<open>\<open>empty_p\<close> is the address of the local byte that stands in for an empty response.\<close>

definition response_compare :: "addr \<Rightarrow> addr \<Rightarrow> addr \<Rightarrow> u32 \<Rightarrow> u32 \<Rightarrow> nat \<Rightarrow> nat \<Rightarrow> mem check" where
  "response_compare empty_p input output len capacity api pattern m =
     (let m1 = mem_write m input (map (pattern_byte pattern) [0..<65536]);
          m2 = mem_write m1 output (replicate 65541 0x79);
          expected = expected_length len capacity;
          (actual, m3) =
            (if api = 0 then frame_response input (output + 1) len capacity m2
             else ism_pulse_response_frame empty_p input 65536 len (output + 1) 65539 capacity m2) in
      (actual = expected \<and>
       list_all (\<lambda>i. m3 (input + i) = pattern_byte pattern i) [0..<65536] \<and>
       list_all (\<lambda>i. m3 (output + 1 + i) = expected_byte (pattern_byte pattern) len expected i) [0..<65539] \<and>
       m3 output = 0x79 \<and> m3 (output + 65540) = 0x79, m3))"

text \<open>A call that must return 0 and leave both arrays as they were filled before.\<close>

definition response_rejects :: "addr \<Rightarrow> addr \<Rightarrow> (mem \<Rightarrow> u32 \<times> mem) \<Rightarrow> mem check" where
  "response_rejects input output call m =
     (let (result, m') = call m in
      (result = 0 \<and> mem_bytes m' input 65536 = replicate 65536 0x17 \<and>
       mem_bytes m' output 65541 = replicate 65541 0x79, m'))"

definition response_refused :: "addr \<Rightarrow> addr \<Rightarrow> addr \<Rightarrow> (mem \<Rightarrow> u32 \<times> mem) list" where
  "response_refused empty_p input output =
     [ism_pulse_response_frame empty_p NULL 12 12 output 65541 14,
      ism_pulse_response_frame empty_p NULL 1 0 output 65541 2,
      ism_pulse_response_frame empty_p input 11 12 output 65541 14,
      ism_pulse_response_frame empty_p input 65536 0xFFFFFFFF output 65541 14,
      ism_pulse_response_frame empty_p input 65536 12 NULL 14 14,
      ism_pulse_response_frame empty_p input 65536 0 NULL 0 0,
      ism_pulse_response_frame empty_p input 65536 12 output 13 14,
      ism_pulse_response_frame empty_p input 65536 12 input 14 14,
      ism_pulse_response_frame empty_p input 12 12 (input + 1) 14 14,
      ism_pulse_response_frame empty_p (input + 4) 12 12 (input + 3) 14 14,
      ism_pulse_response_frame empty_p input 64 1 (input + 32) 10 3,
      ism_pulse_response_frame empty_p (UINTPTR_MAX - 3) 12 12 output 14 14,
      ism_pulse_response_frame empty_p input 12 12 (UINTPTR_MAX - 3) 14 14,
      ism_pulse_response_frame empty_p input 65536 12 output 65541 0xFFFFFFFF]"

definition pulse_response_smoke :: "addr \<Rightarrow> addr \<Rightarrow> addr \<Rightarrow> mem \<Rightarrow> bool" where
  "pulse_response_smoke empty_p input output =
     run_checks
       ([holds (\<lambda>m. ism_pulse_response_abi_version = ISM_PULSE_RESPONSE_ABI_VERSION)] @
        [response_compare empty_p input output len capacity api pattern.
           len \<leftarrow> framing_lengths, capacity \<leftarrow> framing_capacities len, api \<leftarrow> [0..<2], pattern \<leftarrow> [0..<3]] @
        [runs (\<lambda>m. mem_write (mem_write m input (replicate 65536 0x17)) output (replicate 65541 0x79))] @
        map (response_rejects input output) (response_refused empty_p input output) @
        [yields (ism_pulse_response_frame empty_p NULL 0 0 (output + 1) 4 2) 2,
         holds (\<lambda>m. m output = 0x79 \<and> m (output + 1) = 0 \<and> m (output + 2) = 0 \<and> m (output + 3) = 0x79),
         yields (ism_pulse_response_frame empty_p input 12 12 (input + 12) 14 14) 14,
         holds (\<lambda>m. m (input + 12) = 0 \<and> m (input + 13) = 12 \<and> m (input + 25) = 0x17 \<and> m (input + 26) = 0x17)])"

section \<open>The test returns true\<close>

definition response_placed :: "addr \<Rightarrow> addr \<Rightarrow> addr \<Rightarrow> bool" where
  "response_placed empty_p input output \<longleftrightarrow> empty_p \<noteq> NULL \<and> empty_p \<le> UINTPTR_MAX \<and> input \<noteq> NULL \<and> output \<noteq> NULL \<and>
     input + 65536 \<le> UINTPTR_MAX \<and> output + 65541 \<le> UINTPTR_MAX \<and> ranges_disjoint input 65536 output 65541"

lemma frame_response_eq:
  assumes "ranges_disjoint response (unat len) destination (unat capacity)"
  shows "frame_response response destination len capacity m =
    prepare_doq_response_send_for_stream s response len destination capacity fin m"
proof (cases "framed_length len capacity = 0")
  case True
  then show ?thesis by (simp add: frame_response_def prepare_doq_rejects)
next
  case False
  then have "unat len + 2 \<le> unat capacity" by (simp add: framed_length_eq_0)
  with assms have "ranges_disjoint response (unat len) (destination + 2) (unat len)"
    by (auto simp: ranges_disjoint_def)
  with False show ?thesis
    by (simp add: frame_response_def Let_def prepare_doq_memory [OF False assms] copy_range_eq_mem_copy)
qed

lemma response_compare_passes:
  assumes pl: "response_placed empty_p input output" and len: "unat len \<le> 65536" and cap: "unat capacity \<le> 65539"
  shows "fst (response_compare empty_p input output len capacity api pattern m)"
proof -
  have sep: "ranges_disjoint input 65536 output 65541" using pl by (simp add: response_placed_def)
  let ?m2 = "mem_write (mem_write m input (map (pattern_byte pattern) [0..<65536])) output (replicate 65541 (0x79 :: u8))"
  obtain n m3 where run: "prepare_doq_response_send_for_stream (framing_context input) input len (output + 1) capacity 0 ?m2
      = (n, m3)" by fastforce
  have "ranges_disjoint input (unat len) (output + 1) (unat capacity)"
    using sep len cap by (auto simp: ranges_disjoint_def)
  then have direct: "frame_response input (output + 1) len capacity ?m2 = (n, m3)"
    using run frame_response_eq by metis
  have "ism_response_disjoint input 65536 (output + 1) 65539"
    using pl by (auto simp: response_placed_def ism_response_disjoint_def ism_response_range_ok_def ranges_disjoint_def)
  then have "ism_pulse_response_frame empty_p input 65536 len (output + 1) 65539 capacity ?m2 = (n, m3)"
    using direct len cap by (auto simp: ism_pulse_response_frame_def ism_response_disjoint_def)
  with direct framed_buffers [OF sep len cap framing_memory [OF sep] run] show ?thesis
    by (simp add: response_compare_def Let_def list_all_iff)
qed

text \<open>A descriptor with a length beyond its capacity, an unrepresentable range or an overlap is refused.\<close>

lemma response_refused_all:
  "list_all (\<lambda>call. call m = (0, m)) (response_refused empty_p input output)"
proof -
  have overlap: "\<not> ism_response_disjoint input 65536 input 14" "\<not> ism_response_disjoint input 12 (Suc input) 14"
    "\<not> ism_response_disjoint (input + 4) 12 (input + 3) 14" "\<not> ism_response_disjoint input 64 (input + 32) 10"
    by (simp_all add: ism_response_disjoint_def)
  have range: "\<not> ism_response_disjoint NULL n p k" "\<not> ism_response_range_ok NULL n"
    "\<not> ism_response_disjoint (UINTPTR_MAX - 3) 12 output 14" "\<not> ism_response_disjoint input 12 (UINTPTR_MAX - 3) 14" for n p k
    by (simp_all add: ism_response_disjoint_def ism_response_range_ok_def UINTPTR_MAX_def)
  show ?thesis
    unfolding response_refused_def list.pred_inject
    by (intro conjI TrueI response_frame_rejects) (simp_all add: overlap range)
qed

lemma run_rejects:
  assumes "list_all (\<lambda>call. \<forall>m. call m = (0, m)) calls" and "mem_bytes m input 65536 = replicate 65536 0x17"
    and "mem_bytes m output 65541 = replicate 65541 0x79" and "run_checks qs m"
  shows "run_checks (map (response_rejects input output) calls @ qs) m"
  using assms by (induction calls) (simp_all add: response_rejects_def)

lemma run_checks_any:
  assumes "\<And>p s. p \<in> set ps \<Longrightarrow> fst (p s)" and "\<forall>s. run_checks qs s"
  shows "run_checks (ps @ qs) s"
  using assms by (induction ps arbitrary: s) (simp_all add: split_beta)

lemma response_last:
  assumes pl: "response_placed empty_p input output"
    and i: "mem_bytes m input 65536 = replicate 65536 0x17" and o: "mem_bytes m output 65541 = replicate 65541 0x79"
  shows "run_checks [yields (ism_pulse_response_frame empty_p NULL 0 0 (output + 1) 4 2) 2,
         holds (\<lambda>m. m output = 0x79 \<and> m (output + 1) = 0 \<and> m (output + 2) = 0 \<and> m (output + 3) = 0x79),
         yields (ism_pulse_response_frame empty_p input 12 12 (input + 12) 14 14) 14,
         holds (\<lambda>m. m (input + 12) = 0 \<and> m (input + 13) = 12 \<and> m (input + 25) = 0x17 \<and> m (input + 26) = 0x17)] m"
proof -
  have bytes: "m (input + k) = 0x17" if "k < 65536" for k
    using arg_cong [OF i, of "\<lambda>xs. xs ! k"] that by simp
  have out: "m (output + k) = 0x79" if "k < 65541" for k
    using arg_cong [OF o, of "\<lambda>xs. xs ! k"] that by simp
  have ok: "ism_response_range_ok (output + 1) 4" "ism_response_disjoint empty_p 0 (output + 1) 4"
    "ism_response_range_ok (input + 12) 14" "ism_response_disjoint input 12 (input + 12) 14"
    using pl by (auto simp: response_placed_def ism_response_disjoint_def ism_response_range_ok_def)
  have apart: "input + 65536 \<le> output \<or> output + 65541 \<le> input"
    using pl by (simp add: response_placed_def ranges_disjoint_def)
  let ?m1 = "m(output + 1 := 0, output + 2 := 0)"
  have first: "ism_pulse_response_frame empty_p NULL 0 0 (output + 1) 4 2 m = (2, ?m1)"
    using ok(1,2) by (simp add: ism_pulse_response_frame_def frame_response_def framed_length_def prefix_hi_def prefix_lo_def)
  let ?m2 = "mem_copy (?m1(input + 12 := 0, input + 13 := 12)) (input + 14) input 12"
  have "copy_range input (input + 12) 0 2 12 m' = mem_copy m' (input + 14) input 12" for m'
    using copy_range_eq_mem_copy [of input 0 12 "input + 12" 2 m'] by (simp add: ranges_disjoint_def add.commute)
  then have second: "ism_pulse_response_frame empty_p input 12 12 (input + 12) 14 14 ?m1 = (14, ?m2)"
    using ok(3,4)
    by (simp add: ism_pulse_response_frame_def frame_response_def framed_length_def prefix_hi_def prefix_lo_def add.commute [of input])
  from apart show ?thesis
    by (elim disjE) (use first second out [of 0] out [of 3] bytes [of 11] bytes [of 26] in
      \<open>simp_all add: check_defs mem_copy_def\<close>)
qed

lemma response_smoke:
  assumes pl: "response_placed empty_p input output"
  shows "pulse_response_smoke empty_p input output m"
proof -
  let ?fill = "\<lambda>m. mem_write (mem_write m input (replicate 65536 (0x17 :: u8))) output (replicate 65541 (0x79 :: u8))"
  have sep: "ranges_disjoint input 65536 output 65541" using pl by (simp add: response_placed_def)
  have i: "mem_bytes (?fill m) input 65536 = replicate 65536 0x17" for m
    by (rule nth_equalityI) (use sep in \<open>auto simp: mem_write_def ranges_disjoint_def\<close>)
  have o: "mem_bytes (?fill m) output 65541 = replicate 65541 0x79" for m
    by (rule nth_equalityI) (auto simp: mem_write_def)
  have calls: "list_all (\<lambda>call. \<forall>m. call m = (0, m)) (response_refused empty_p input output)"
    using response_refused_all [of _ empty_p input "output"] by (simp add: list_all_iff)
  have "run_checks (map (response_rejects input output) (response_refused empty_p input output) @
      [yields (ism_pulse_response_frame empty_p NULL 0 0 (output + 1) 4 2) 2,
       holds (\<lambda>m. m output = 0x79 \<and> m (output + 1) = 0 \<and> m (output + 2) = 0 \<and> m (output + 3) = 0x79),
       yields (ism_pulse_response_frame empty_p input 12 12 (input + 12) 14 14) 14,
       holds (\<lambda>m. m (input + 12) = 0 \<and> m (input + 13) = 12 \<and> m (input + 25) = 0x17 \<and> m (input + 26) = 0x17)]) (?fill m)" for m
    by (rule run_rejects [OF calls i o response_last [OF pl i o]])
  then have rest: "\<forall>m. run_checks ([runs ?fill] @ map (response_rejects input output) (response_refused empty_p input output) @
      [yields (ism_pulse_response_frame empty_p NULL 0 0 (output + 1) 4 2) 2,
       holds (\<lambda>m. m output = 0x79 \<and> m (output + 1) = 0 \<and> m (output + 2) = 0 \<and> m (output + 3) = 0x79),
       yields (ism_pulse_response_frame empty_p input 12 12 (input + 12) 14 14) 14,
       holds (\<lambda>m. m (input + 12) = 0 \<and> m (input + 13) = 12 \<and> m (input + 25) = 0x17 \<and> m (input + 26) = 0x17)]) m"
    by (simp add: runs_def)
  show ?thesis
    unfolding pulse_response_smoke_def
    by (intro run_checks_any allI rest [rule_format])
      (auto simp: holds_def ism_pulse_response_abi_version_def intro!: response_compare_passes [OF pl] dest: framing_arguments)
qed

end
