(* ===== verification/Scenario.thy ===== *)
theory Scenario
  imports Smoke_Adapter Smoke_Queue Smoke_Framing Link_Smoke Smoke_Connection Smoke_Protocol Live_Server
    Smoke_Table Smoke_Stream Smoke_Response
begin

text \<open>
  A concrete placement of the program in memory, used to exhibit states that satisfy the
  contracts: a stable and a candidate build, a connection of four slots, an adapter with
  its buffers, an event queue of capacity 4, a runtime stream, a transport that records what it
  is asked to do, and a framed query for the name \<^verbatim>\<open>a\<close>.
\<close>

section \<open>Builds and connection\<close>

definition stable_build :: build where
  "stable_build = \<lparr>use_pulse_stream = False, use_pulse_table = False, use_pulse_response = False,
     wire_addr = 4096, empty_addr = 8192, sizeof_stream_context = 32, check_question = dns_question_check\<rparr>"

definition pulse_build :: build where
  "pulse_build = stable_build\<lparr>use_pulse_stream := True, use_pulse_table := True, use_pulse_response := True\<rparr>"

definition raw_slot :: "nat \<Rightarrow> ism_shell_stream" where
  "raw_slot i = \<lparr>ss_ctx = \<lparr>sc_id = 0, sc_phase = S_Done, sc_buf = 0\<rparr>, ctx_addr = 131072 * (i + 1) - 64,
     message_buffer = 131072 * (i + 1), ss_active = False\<rparr>"

definition raw_conn :: ism_shell_connection where
  "raw_conn = \<lparr>conn_ctx = \<lparr>cc_active = TableNull, cc_num = 0, cc_capacity = 0\<rparr>,
     conn_active = [None, None, None, None], conn_streams = map raw_slot [0..<4]\<rparr>"

definition demo_conn :: ism_shell_connection where
  "demo_conn = fst (ism_shell_connection_init raw_conn (\<lambda>_. 0))"

lemma demo_conn_inv: "shell_inv demo_conn"
  unfolding demo_conn_def by (rule init_shell_inv) (simp add: raw_conn_def)

lemma demo_conn_empty: "abs_table demo_conn = Map.empty"
  unfolding demo_conn_def by (rule init_abs_table)

lemma less_4: "(i :: nat) < 4 \<longleftrightarrow> i = 0 \<or> i = 1 \<or> i = 2 \<or> i = 3"
  by auto

lemma demo_streams:
  "conn_streams demo_conn = map (\<lambda>i. ism_shell_reset_stream (raw_slot i)) [0..<4]"
  by (simp add: demo_conn_def ism_shell_connection_init_def raw_conn_def Let_def ISM_SHELL_MAX_STREAMS_def
      ism_shell_reset_stream_def)

lemma demo_buffer: "i < 4 \<Longrightarrow> message_buffer (conn_streams demo_conn ! i) = 131072 * (i + 1)"
  and demo_ctx: "i < 4 \<Longrightarrow> ctx_addr (conn_streams demo_conn ! i) = 131072 * (i + 1) - 64"
  by (simp_all add: demo_streams ism_shell_reset_stream_def raw_slot_def)

lemma demo_count: "active_count demo_conn = 0"
  by (simp add: demo_conn_def ism_shell_connection_init_def Let_def)

lemma demo_storage: "storage_ok pulse_build demo_conn"
proof -
  have "disjoint (131072 * (i + 1)) 65535 (131072 * (j + 1)) 65535" if "i < 4" "j < i" for i j :: nat
    using that by (auto simp: disjoint_def range_ok_def UINTPTR_MAX_def)
  moreover have "disjoint 4096 184 (131072 * (i + 1)) 65535" if "i < 4" for i :: nat
    using that by (auto simp: disjoint_def range_ok_def UINTPTR_MAX_def)
  moreover have "range_ok 4096 184" by (simp add: range_ok_def UINTPTR_MAX_def)
  ultimately show ?thesis
    by (simp add: storage_ok_def demo_buffer pulse_build_def stable_build_def)
qed

lemma demo_ready: "table_ready stable_build demo_conn" "table_ready pulse_build demo_conn"
  using demo_conn_inv demo_storage by (simp_all add: table_ready_def stable_build_def)

lemma demo_ingress:
  assumes "bld = stable_build \<or> bld = pulse_build" and "3000000 \<le> data" and "data \<le> 4000000"
    and "unat len \<le> 1000"
  shows "ingress_ready bld demo_conn data len"
  using assms demo_ready
  by (auto simp: ingress_ready_def demo_buffer disjoint_def range_ok_def UINTPTR_MAX_def)

section \<open>A query\<close>

definition query_message :: "u8 list" where
  "query_message = [0, 0, 1, 0, 0, 1, 0, 0, 0, 0, 0, 0, 1, 97, 0, 0, 1, 0, 1]"

definition framed_query :: "u8 list" where
  "framed_query = [0, 19] @ query_message"

text \<open>The query stands in memory at address 3500000.\<close>

definition demo_mem :: mem where
  "demo_mem = mem_write (\<lambda>_. 0) 3500000 framed_query"

lemma length_framed_query: "length framed_query = 21"
  by (simp add: framed_query_def query_message_def)

lemma framed_query_phase: "doq_phase framed_query = AwaitingFin 19"
  by (simp add: framed_query_def query_message_def)

lemma query_is_request: "question_request query_message"
  unfolding question_request_def
  by (intro exI [of _ "[1, 0]"] exI [of _ "[[97]]"] exI [of _ "[0, 1, 0, 1]"])
    (simp add: query_message_def encode_name_def wf_label_def)

lemma query_response:
  "19 \<le> cap \<Longrightarrow> minimal_response query_message cap = Some (echo_response query_message)"
  using query_is_request by (simp add: minimal_response_def query_message_def)

lemma demo_mem_bytes: "mem_bytes demo_mem 3500000 21 = framed_query"
  using mem_bytes_write_same [of "\<lambda>_. 0" 3500000 framed_query]
  by (simp add: demo_mem_def length_framed_query)

lemma length_query: "length query_message = 19" "length (echo_response query_message) = 19"
  by (simp_all add: query_message_def echo_response_def)

lemma demo_query_bytes: "mem_bytes demo_mem 3500002 19 = query_message"
  using mem_bytes_suffix [of demo_mem 3500000 framed_query 2] demo_mem_bytes
  by (simp add: length_framed_query) (simp add: framed_query_def)

section \<open>Adapter, queue and runtime\<close>

text \<open>A transport world that records every send (handle, bytes, FIN), connection shutdown and
  stream close.\<close>

datatype log_entry =
    Sent hquic "u8 list" bool
  | Shutdown hquic u64
  | Closed hquic
  | Handler hquic quic_callback

definition log_api :: "log_entry list quic_api" where
  "log_api = \<lparr>
     StreamSend = Some (\<lambda>s data len fin ctx m w. (QUIC_STATUS_SUCCESS, w @ [Sent s (mem_bytes m data (unat len)) fin])),
     ConnectionShutdown = Some (\<lambda>c code w. w @ [Shutdown c code]),
     StreamClose = (\<lambda>s w. w @ [Closed s]),
     SetCallbackHandler = (\<lambda>h cb w. w @ [Handler h cb]),
     GetParam = (\<lambda>s w. (QUIC_STATUS_SUCCESS, 8, of_nat s, w)),
     ConnectionSetConfiguration = (\<lambda>c cfg w. (QUIC_STATUS_SUCCESS, w)),
     ConnectionClose = Some (\<lambda>c w. w @ [Closed c])\<rparr>"

definition log_failed :: "quic_status \<Rightarrow> bool" where
  "log_failed s \<longleftrightarrow> s \<noteq> QUIC_STATUS_SUCCESS"

definition demo_queue :: ism_shell_event_queue where
  "demo_queue = \<lparr>q_events = Some (replicate 4 (ready_event 0)), q_capacity = 4, q_head = 0, q_count = 0\<rparr>"

definition demo_runtime :: "u64 \<Rightarrow> log_entry list ism_msquic_runtime_stream" where
  "demo_runtime sid = (init_stream Obj Obj sid 3000000 1000)
     \<lparr>rt_api := Some log_api, rt_stream := 7, rt_connection := 9\<rparr>"

definition demo_slot :: "log_entry list ism_msquic_connection_stream_slot" where
  "demo_slot = \<lparr>sl_api = Some log_api, sl_ingress_buffer = 3000000, sl_ingress_capacity = 1000,
     sl_stream = 7, sl_in_use = True\<rparr>"

definition demo_transport :: "log_entry list transport" where
  "demo_transport = \<lparr>tr_streams = [demo_runtime 4], tr_slots = [demo_slot], tr_world = [], tr_failed = log_failed\<rparr>"

definition demo_adapter :: "log_entry list transport ism_msquic_adapter" where
  "demo_adapter = \<lparr>ad_connection = demo_conn, ad_response_buffer = 1000000, ad_response_capacity = 512,
     ad_send_buffer = 2000000, ad_send_capacity = 514, ad_send = Some (ism_msquic_runtime_send (Some 0)),
     ad_send_in_flight = False, ad_send_stream_id = 0, ad_send_len = 0\<rparr>"

definition demo_state :: "log_entry list rt_state" where
  "demo_state = \<lparr>sh_mem = demo_mem, sh_adapter = demo_adapter, sh_queue = demo_queue, sh_ctx = demo_transport\<rparr>"

lemma demo_queue_inv: "queue_inv demo_queue" "queue_items demo_queue = []"
  by (simp_all add: queue_inv_def queue_items_def demo_queue_def)

lemma demo_separate: "buffers_separate stable_build demo_state" "buffers_separate pulse_build demo_state"
proof -
  have base: "\<forall>i<4. ranges_disjoint (131072 * (i + 1)) 65535 1000000 512 \<and>
      ranges_disjoint (131072 * (i + 1)) 65535 2000000 514 \<and>
      (\<forall>j<4. j \<noteq> i \<longrightarrow> ranges_disjoint (131072 * (i + 1)) 65535 (131072 * (j + 1)) 65535)"
    by (auto simp: less_4 ranges_disjoint_def)
  have ctx: "\<forall>i<4. ism_response_disjoint (131072 * (i + 1) - 64) 32 2000000 514"
    by (auto simp: less_4 ism_response_disjoint_def ism_response_range_ok_def UINTPTR_MAX_def)
  show "buffers_separate stable_build demo_state"
    using base by (simp add: buffers_separate_def demo_state_def demo_adapter_def stable_build_def demo_buffer
        ranges_disjoint_def)
  show "buffers_separate pulse_build demo_state"
    using base ctx by (simp add: buffers_separate_def demo_state_def demo_adapter_def pulse_build_def
        stable_build_def demo_buffer demo_ctx ranges_disjoint_def ism_response_disjoint_def
        ism_response_range_ok_def UINTPTR_MAX_def)
qed

lemma demo_adapter_inv: "adapter_inv stable_build demo_state" "adapter_inv pulse_build demo_state"
  using demo_separate demo_ready by (simp_all add: adapter_inv_def demo_state_def demo_adapter_def)

lemma demo_runtime_ready:
  assumes "bld = stable_build \<or> bld = pulse_build"
  shows "runtime_ready bld demo_state 0"
proof -
  have "adapter_inv bld demo_state" using assms demo_adapter_inv by auto
  moreover have "ingress_ready bld demo_conn 3000000 len" if "len \<le> 1000" for len
    using that by (intro demo_ingress [OF assms]) (simp_all add: word_le_nat_alt)
  ultimately show ?thesis
    by (simp add: runtime_ready_def demo_state_def demo_adapter_def demo_transport_def stream_of_def
        demo_runtime_def init_stream_def demo_queue_inv demo_buffer ranges_disjoint_def)
qed

section \<open>A connection with two streams and a send in flight\<close>

definition demo_conn2 :: ism_shell_connection where
  "demo_conn2 = snd (open_result (snd (open_result demo_conn 4)) 8)"

text \<open>The first stream's response of 21 bytes is in flight. The second runtime stream is bound to
  stream 8; the third slot is free.\<close>

definition busy_runtime :: "log_entry list ism_msquic_runtime_stream" where
  "busy_runtime = (demo_runtime 4)\<lparr>rt_received_fin := True, rt_send_buffer := (21, 2000000),
     rt_response_len := 21, rt_send_in_flight := True\<rparr>"

definition busy_state :: "log_entry list rt_state" where
  "busy_state = set_send True 4 21 (set_conn demo_conn2 demo_state)
     \<lparr>sh_ctx := demo_transport\<lparr>
        tr_streams := [busy_runtime, (demo_runtime 8)\<lparr>rt_stream := 8\<rparr>, init_stream Null Null 0 NULL 0],
        tr_slots := [demo_slot, demo_slot\<lparr>sl_stream := 8\<rparr>, \<lparr>sl_api = None, sl_ingress_buffer = 3600000,
          sl_ingress_capacity = 1000, sl_stream = 0, sl_in_use = False\<rparr>]\<rparr>\<rparr>"

lemma demo_conn2_inv: "shell_inv demo_conn2" "conn_layout demo_conn2 = conn_layout demo_conn"
  using demo_conn_inv by (simp_all add: demo_conn2_def open_result_inv)

lemma demo_conn2_ready: "table_ready stable_build demo_conn2" "table_ready pulse_build demo_conn2"
  using demo_ready demo_conn2_inv by (blast intro: table_ready_layout)+

lemma demo_conn2_table: "phase_table demo_conn2 = [4 \<mapsto> S_ReadingLength, 8 \<mapsto> S_ReadingLength]"
proof -
  have "phase_table demo_conn = Map.empty" by (rule ext) (simp add: phase_table_def demo_conn_empty)
  then have one: "phase_table (snd (open_result demo_conn 4)) = [4 \<mapsto> S_ReadingLength]"
    using open_phase_table [OF demo_conn_inv, of 4] by simp
  show ?thesis
    using open_phase_table [OF open_result_inv [OF demo_conn_inv, of 4], of 8] unfolding demo_conn2_def one by simp
qed

lemma demo_conn2_buffer: "i < 4 \<Longrightarrow> message_buffer (conn_streams demo_conn2 ! i) = 131072 * (i + 1)"
  using layout_nth(1) [OF demo_conn2_inv(2)] shell_invD(8) [OF demo_conn2_inv(1)] demo_buffer by simp

lemma demo_conn2_open: "abs_table demo_conn2 4 \<noteq> None" "abs_table demo_conn2 8 \<noteq> None"
  using fun_cong [OF demo_conn2_table, of 4] fun_cong [OF demo_conn2_table, of 8]
  by (auto simp: phase_table_def)

lemma busy_simps [simp]:
  "conn_of busy_state = demo_conn2" "sh_mem busy_state = demo_mem" "sh_queue busy_state = demo_queue"
  "ad_send_in_flight (sh_adapter busy_state)" "ad_send_stream_id (sh_adapter busy_state) = 4"
  "ad_send_len (sh_adapter busy_state) = 21" "ad_send_buffer (sh_adapter busy_state) = 2000000"
  "ad_send_capacity (sh_adapter busy_state) = 514"
  "length (tr_streams (sh_ctx busy_state)) = 3" "length (tr_slots (sh_ctx busy_state)) = 3"
  "rt_of busy_state 0 = busy_runtime" "rt_of busy_state (Suc 0) = (demo_runtime 8)\<lparr>rt_stream := 8\<rparr>"
  "tr_failed (sh_ctx busy_state) = log_failed" "tr_world (sh_ctx busy_state) = []"
  "slot_at busy_state 0 = demo_slot" "slot_at busy_state (Suc 0) = demo_slot\<lparr>sl_stream := 8\<rparr>"
  "slot_at busy_state 2 = \<lparr>sl_api = None, sl_ingress_buffer = 3600000, sl_ingress_capacity = 1000,
     sl_stream = 0, sl_in_use = False\<rparr>"
  by (simp_all add: busy_state_def set_send_def set_conn_def demo_state_def demo_adapter_def demo_transport_def
      stream_of_def slot_at_def)

lemma busy_adapter_inv: "adapter_inv stable_build busy_state" "adapter_inv pulse_build busy_state"
proof -
  have "same_setup demo_state busy_state"
    using demo_conn2_inv(2)
    by (simp add: same_setup_def busy_state_def set_send_def set_conn_def demo_state_def demo_adapter_def)
  note sep = buffers_separate_setup [OF this adapter_invD(4) [OF demo_adapter_inv(1)]]
  show "adapter_inv stable_build busy_state" "adapter_inv pulse_build busy_state"
    using sep [OF demo_separate(1)] sep [OF demo_separate(2)] demo_conn2_ready demo_conn2_open
    by (simp_all add: adapter_inv_def)
qed

lemma busy_ingress:
  assumes "bld = stable_build \<or> bld = pulse_build" and "3000000 \<le> data" and "data \<le> 4000000"
    and "unat len \<le> 1000"
  shows "ingress_ready bld demo_conn2 data len"
  using assms demo_conn2_ready
  by (auto simp: ingress_ready_def demo_conn2_buffer disjoint_def range_ok_def UINTPTR_MAX_def)

lemma busy_runtime_ready:
  assumes "bld = stable_build \<or> bld = pulse_build"
  shows "runtime_ready bld busy_state 0" "runtime_ready bld busy_state 1"
proof -
  have "adapter_inv bld busy_state" using assms busy_adapter_inv by auto
  moreover have "ingress_ready bld demo_conn2 3000000 len" if "len \<le> 1000" for len
    using that by (intro busy_ingress [OF assms]) (simp_all add: word_le_nat_alt)
  ultimately show "runtime_ready bld busy_state 0" "runtime_ready bld busy_state 1"
    by (simp_all add: runtime_ready_def busy_runtime_def demo_runtime_def init_stream_def demo_queue_inv
        demo_conn2_buffer ranges_disjoint_def)
qed

section \<open>A stream that received the query\<close>

lemma query_received:
  assumes inv: "adapter_inv bld st" and ready: "ingress_ready bld (conn_of st) 3500000 21"
    and got: "stream_got [] (conn_of st) sid demo_mem" and m: "sh_mem st = demo_mem"
    and run: "ism_msquic_adapter_on_authenticated_stream_bytes bld Obj sid 3500000 21 st = (code, st1)"
  shows "adapter_inv bld st1" and "stream_got framed_query (conn_of st1) sid (sh_mem st1)"
    and "\<exists>c. abs_table (conn_of st1) sid = Some c \<and> stream_holds framed_query c (sh_mem st1)"
    and "\<exists>conn mem. st1 = set_conn conn (st\<lparr>sh_mem := mem\<rparr>)"
    and "ingress_ready bld (conn_of st1) 3500000 0"
proof -
  obtain code' conn' m' where d: "ingress_data (conn_of st) sid 3500000 21 demo_mem = (code', conn', m')"
    by (metis prod_cases3)
  have "code' \<noteq> 2" and g: "stream_got framed_query conn' sid m'" and o: "abs_table conn' sid \<noteq> None"
    using ingress_data_got [OF adapter_invD(2) [OF inv] got, of 21 framed_query, OF _ _ _ d]
    by (simp_all add: length_framed_query demo_mem_bytes framed_query_phase)
  then have st1: "st1 = set_conn conn' (st\<lparr>sh_mem := m'\<rparr>)"
    using run d by (simp add: ism_msquic_adapter_on_authenticated_stream_bytes_def shell_data_eq [OF ready] m)
  show inv1: "adapter_inv bld st1" by (rule adapter_bytes_inv(1) [OF inv ready run])
  show "stream_got framed_query (conn_of st1) sid (sh_mem st1)" using g st1 by simp
  then show "\<exists>c. abs_table (conn_of st1) sid = Some c \<and> stream_holds framed_query c (sh_mem st1)"
    using o st1 by (auto simp: stream_got_def)
  show "\<exists>conn mem. st1 = set_conn conn (st\<lparr>sh_mem := mem\<rparr>)" using st1 by blast
  have "ingress_ready bld (conn_of st) 3500000 0" using ready by (simp add: ingress_ready_def)
  then show "ingress_ready bld (conn_of st1) 3500000 0"
    using adapter_bytes_inv(2) [OF inv ready run] inv inv1 by (rule ingress_ready_setup)
qed

lemma query_id: "framed_query ! 2 = 0" "framed_query ! 3 = 0" "drop 2 framed_query = query_message"
  by (simp_all add: framed_query_def query_message_def)

lemma demo_received:
  obtains st1 c where "adapter_inv pulse_build st1" "ingress_ready pulse_build (conn_of st1) 3500000 0"
    "abs_table (conn_of st1) 4 = Some c" "stream_holds framed_query c (sh_mem st1)"
    "sh_ctx st1 = demo_transport" "\<exists>conn. sh_adapter st1 = demo_adapter\<lparr>ad_connection := conn\<rparr>"
proof -
  obtain code st1 where run: "ism_msquic_adapter_on_authenticated_stream_bytes pulse_build Obj 4 3500000 21 demo_state
      = (code, st1)" by fastforce
  have conn: "conn_of demo_state = demo_conn" "sh_mem demo_state = demo_mem"
    by (simp_all add: demo_state_def demo_adapter_def)
  have got: "stream_got [] (conn_of demo_state) 4 demo_mem"
    by (simp add: conn stream_got_def demo_conn_empty demo_count)
  have ready: "ingress_ready pulse_build (conn_of demo_state) 3500000 21"
    unfolding conn by (rule demo_ingress) simp_all
  note R = query_received [OF demo_adapter_inv(2) ready got conn(2) run]
  have "sh_ctx st1 = demo_transport" "\<exists>conn. sh_adapter st1 = demo_adapter\<lparr>ad_connection := conn\<rparr>"
    using R(4) by (auto simp: set_conn_def demo_state_def)
  with R(1,3,5) that show ?thesis by blast
qed

lemma busy_received:
  obtains st1 c where "adapter_inv pulse_build st1" "ingress_ready pulse_build (conn_of st1) 3500000 0"
    "abs_table (conn_of st1) 8 = Some c" "stream_holds framed_query c (sh_mem st1)"
    "sh_ctx st1 = sh_ctx busy_state" "\<exists>conn. sh_adapter st1 = (sh_adapter busy_state)\<lparr>ad_connection := conn\<rparr>"
proof -
  obtain code st1 where run: "ism_msquic_adapter_on_authenticated_stream_bytes pulse_build Obj 8 3500000 21 busy_state
      = (code, st1)" by fastforce
  obtain c where c: "abs_table demo_conn2 8 = Some c" using demo_conn2_open(2) by blast
  then have "sc_phase c = S_ReadingLength"
    using fun_cong [OF demo_conn2_table, of 8] by (simp add: phase_table_def)
  with c have got: "stream_got [] (conn_of busy_state) 8 demo_mem"
    by (simp add: stream_got_def stream_holds_init)
  have ready: "ingress_ready pulse_build (conn_of busy_state) 3500000 21"
    unfolding busy_simps by (rule busy_ingress) simp_all
  note R = query_received [OF busy_adapter_inv(2) ready got busy_simps(2) run]
  have "sh_ctx st1 = sh_ctx busy_state" "\<exists>conn. sh_adapter st1 = (sh_adapter busy_state)\<lparr>ad_connection := conn\<rparr>"
    using R(4) by (auto simp: set_conn_def)
  with R(1,3,5) that show ?thesis by blast
qed

section \<open>The variables of a test program\<close>

text \<open>One test's variables in memory: the fixture at address 3500000, four queue entries.\<close>

definition fixture_state :: "u8 list \<Rightarrow> 'c \<Rightarrow> 'c shell_state" where
  "fixture_state bytes c = \<lparr>sh_mem = mem_write (\<lambda>_. 0) 3500000 bytes,
     sh_adapter = \<lparr>ad_connection = demo_conn, ad_response_buffer = NULL, ad_response_capacity = 0, ad_send_buffer = NULL,
       ad_send_capacity = 0, ad_send = None, ad_send_in_flight = False, ad_send_stream_id = 0, ad_send_len = 0\<rparr>,
     sh_queue = demo_queue, sh_ctx = c\<rparr>"

lemma fixture_array:
  assumes "bld = stable_build \<or> bld = pulse_build" and "length bytes \<le> 1000"
  shows "array_at bld (fixture_state bytes c) 3500000 bytes"
  using assms by (auto simp: array_at_def fixture_state_def demo_buffer ranges_disjoint_def disjoint_def range_ok_def
      UINTPTR_MAX_def)

text \<open>Memory from 3600000 on is zero.\<close>

lemma fixture_zeros:
  assumes "bld = stable_build \<or> bld = pulse_build" and "length bytes \<le> 1000"
    and "3600000 \<le> p" "p \<le> 3700000" "n \<le> 64"
  shows "array_at bld (fixture_state bytes c) p (replicate n 0)"
proof -
  have "mem_bytes (mem_write (\<lambda>_. 0) 3500000 bytes) p n = mem_bytes (\<lambda>_. 0) p n"
    using assms(2,3) by (intro mem_bytes_write_disjoint) (simp add: ranges_disjoint_def)
  then have "mem_bytes (mem_write (\<lambda>_. 0) 3500000 bytes) p n = replicate n 0"
    by (simp add: mem_bytes_def map_replicate_const)
  with assms show ?thesis
    by (auto simp: array_at_def fixture_state_def demo_buffer ranges_disjoint_def disjoint_def range_ok_def
        UINTPTR_MAX_def)
qed

text \<open>A transport with one runtime stream and one slot, over any world.\<close>

definition fixture_transport :: "'w \<Rightarrow> 'w transport" where
  "fixture_transport w = \<lparr>tr_streams = [init_stream Null Null 0 NULL 0],
     tr_slots = [\<lparr>sl_api = None, sl_ingress_buffer = NULL, sl_ingress_capacity = 0, sl_stream = 0, sl_in_use = False\<rparr>],
     tr_world = w, tr_failed = log_failed\<rparr>"

lemma fixture_storage: "has_storage (fixture_state bytes (fixture_transport w))"
  by (simp add: has_storage_def fixture_state_def demo_queue_def fixture_transport_def)

lemma log_failed_codes: "failed_codes log_failed"
  by (simp add: failed_codes_def log_failed_def)

text \<open>Up to 128 bytes of buffer at 1000000 and at 2000000 are apart from the four message buffers.\<close>

lemma fixture_separate:
  assumes bld: "bld = stable_build \<or> bld = pulse_build" and lay: "conn_layout (conn_of st) = conn_layout demo_conn"
    and st: "ad_response_buffer (sh_adapter st) = 1000000" "ad_response_capacity (sh_adapter st) = n"
      "ad_send_buffer (sh_adapter st) = 2000000" "ad_send_capacity (sh_adapter st) = n" and n: "unat n \<le> 128"
  shows "buffers_separate bld st"
proof -
  note lay' = layout_nth [OF lay [symmetric], unfolded shell_invD(8) [OF demo_conn_inv], symmetric]
  have buf: "message_buffer (conn_streams (conn_of st) ! i) = 131072 * (i + 1)"
      "ctx_addr (conn_streams (conn_of st) ! i) = 131072 * (i + 1) - 64" if "i < 4" for i
    using that by (simp_all add: lay' demo_buffer demo_ctx)
  have base: "\<forall>i<4. ranges_disjoint (131072 * (i + 1)) 65535 1000000 (unat n) \<and>
      ranges_disjoint (131072 * (i + 1)) 65535 2000000 (unat n) \<and>
      (\<forall>j<4. j \<noteq> i \<longrightarrow> ranges_disjoint (131072 * (i + 1)) 65535 (131072 * (j + 1)) 65535)"
    using n by (auto simp: less_4 ranges_disjoint_def)
  have ctx: "\<forall>i<4. ism_response_disjoint (131072 * (i + 1) - 64) 32 2000000 (unat n)"
    using n by (auto simp: less_4 ism_response_disjoint_def ism_response_range_ok_def UINTPTR_MAX_def)
  have rs: "ranges_disjoint 1000000 (unat n) 2000000 (unat n)" "ism_response_disjoint 1000000 (unat n) 2000000 (unat n)"
    using n by (simp_all add: ranges_disjoint_def ism_response_disjoint_def ism_response_range_ok_def UINTPTR_MAX_def)
  have "sizeof_stream_context bld = 32" using bld by (auto simp: pulse_build_def stable_build_def)
  then show ?thesis using base ctx rs by (simp add: buffers_separate_def st buf)
qed

lemma build_validator: "bld = stable_build \<or> bld = pulse_build \<Longrightarrow> question_validator (check_question bld)"
  using grammar_validator.question_validator_axioms by (auto simp: pulse_build_def stable_build_def)

lemma fixture_placed:
  assumes "bld = stable_build \<or> bld = pulse_build" and n: "unat n \<le> 128"
  shows "placed bld 1000000 n 2000000 n (fixture_state bytes c)"
proof -
  let ?st = "ism_msquic_adapter_init Obj 1000000 n 2000000 n None c (fixture_state bytes c)"
  have "conn_layout (fst (ism_shell_connection_init demo_conn (sh_mem (fixture_state bytes c)))) = conn_layout demo_conn"
    using init_layout [of demo_conn] shell_invD(8) [OF demo_conn_inv] by simp
  then have "buffers_separate bld ?st"
    by (intro fixture_separate [OF assms(1)])
      (use n in \<open>auto simp: ism_msquic_adapter_init_def fixture_state_def split: prod.splits\<close>)
  then show ?thesis
    using assms(1) demo_storage shell_invD(8) [OF demo_conn_inv] build_validator [OF assms(1)]
    by (auto simp: placed_def fixture_state_def stable_build_def)
qed

lemma fixture_scaffold:
  assumes "bld = stable_build \<or> bld = pulse_build" and "length bytes \<le> 1000"
  shows "scaffold_placed bld 1000000 2000000 3500000 bytes (demo_conn, mem_write (\<lambda>_. 0) 3500000 bytes)"
proof -
  let ?v = "(demo_conn, mem_write (\<lambda>_. 0) 3500000 bytes)"
  have "array_at bld (scaffold_state 1000000 2000000 ?v) 3500000 bytes"
    using fixture_array [OF assms, of "()"] by (simp add: array_at_def fixture_state_def)
  moreover have "buffers_separate bld (scaffold_state 1000000 2000000 ?v)"
    by (rule fixture_separate [OF assms(1), of _ 128]) simp_all
  ultimately show ?thesis
    using assms(1) demo_storage shell_invD(8) [OF demo_conn_inv] build_validator [OF assms(1)]
    by (auto simp: scaffold_placed_def stable_build_def)
qed

lemma demo_audit_placed: "audit_placed pulse_build 3500000 1000000 3600000 3700000 (demo_conn, demo_mem)"
proof -
  have "area_ok pulse_build demo_conn p n" if "700000 \<le> p" "p \<le> 4000000" "n \<le> 64" for p n
    using that by (auto simp: area_ok_def demo_buffer ranges_disjoint_def disjoint_def range_ok_def UINTPTR_MAX_def)
  then show ?thesis
    using demo_storage shell_invD(8) [OF demo_conn_inv] build_validator [of pulse_build]
    by (simp add: audit_placed_def arrays_at_def ranges_disjoint_def)
qed

lemma fixture_queue:
  "q_events (sh_queue (fixture_state bytes c)) = Some [ready_event 0, ready_event 0, ready_event 0, ready_event 0]"
proof -
  have "replicate 4 x = [x, x, x, x]" for x :: ism_shell_event by (simp add: numeral_eq_Suc)
  then show ?thesis by (simp add: fixture_state_def demo_queue_def)
qed

section \<open>A library that cannot start a listener\<close>

definition demo_msquic :: msquic where
  "demo_msquic = \<lparr>ms_call = (\<lambda>tr c. \<lparr>out_status = (case c of Call_ListenerStart _ _ \<Rightarrow> QUIC_STATUS_INVALID_STATE
       | _ \<Rightarrow> QUIC_STATUS_SUCCESS), out_handle = length tr + 1, out_len = 28, out_port = 4433\<rparr>),
     ms_failed = log_failed, ms_addr_size = 28\<rparr>"

text \<open>A descriptor whose slot order names a slot twice.\<close>

definition repeated_order :: ism_pulse_table where
  "repeated_order = \<lparr>wt_slots = map (abi_slot 131072) [0..<4], wt_order = [0, 1, 2, 0], wt_count = 2, wt_capacity = 4\<rparr>"

end
