(* ===== verification/Pulse_Value.thy ===== *)
theory Pulse_Value
  imports Smoke_Base
begin

text \<open>
  The value pilot of the candidate lane: \<^verbatim>\<open>src/migration/DNS.Migration.PulseShellBoundaryValue.fst\<close> on machine
  integers, the same pilot on unbounded integers
  (\<^verbatim>\<open>src/migration/DNS.Migration.PulseShellBoundary.fst\<close>), the C interface that
  \<^verbatim>\<open>src/migration/rust/pulse_value_ffi.rs\<close> gives it, and the two C programs that exercise them. The machine
  version refines the unbounded one: the modular arithmetic never wraps on an accepted fragment.
\<close>

section \<open>The pilot on machine integers\<close>

datatype value_phase = ValueReading | ValueProcessing | ValueClosed

record value_state =
  vs_buffered :: u32
  vs_capacity :: u32
  vs_phase :: value_phase

record value_result =
  vr_accepted :: bool
  vr_next :: value_state

definition value_available :: "value_state \<Rightarrow> u32" where
  "value_available s = (if vs_buffered s \<le> vs_capacity s then vs_capacity s - vs_buffered s else 0)"

definition value_accepts_fragment :: "value_state \<Rightarrow> u32 \<Rightarrow> bool" where
  "value_accepts_fragment s len \<longleftrightarrow> len \<le> value_available s"

definition value_next_state :: "value_state \<Rightarrow> u32 \<Rightarrow> value_state" where
  "value_next_state s len =
     (if value_accepts_fragment s len
      then \<lparr>vs_buffered = vs_buffered s + len, vs_capacity = vs_capacity s, vs_phase = ValueProcessing\<rparr>
      else \<lparr>vs_buffered = vs_buffered s, vs_capacity = vs_capacity s, vs_phase = ValueClosed\<rparr>)"

definition dispatch_authenticated_bytes_value :: "value_state \<Rightarrow> u32 \<Rightarrow> value_result" where
  "dispatch_authenticated_bytes_value s len =
     \<lparr>vr_accepted = value_accepts_fragment s len, vr_next = value_next_state s len\<rparr>"

section \<open>The pilot on unbounded integers\<close>

datatype pilot_phase = MigrationReading | MigrationProcessing | MigrationClosed

record pilot_state =
  ps_buffered :: nat
  ps_capacity :: nat
  ps_phase :: pilot_phase

definition pilot_available :: "pilot_state \<Rightarrow> nat" where
  "pilot_available s = (if ps_buffered s \<le> ps_capacity s then ps_capacity s - ps_buffered s else 0)"

definition pilot_accepts_fragment :: "pilot_state \<Rightarrow> nat \<Rightarrow> bool" where
  "pilot_accepts_fragment s len \<longleftrightarrow> len \<le> pilot_available s"

definition pilot_next_state :: "pilot_state \<Rightarrow> nat \<Rightarrow> pilot_state" where
  "pilot_next_state s len =
     (if pilot_accepts_fragment s len
      then \<lparr>ps_buffered = ps_buffered s + len, ps_capacity = ps_capacity s, ps_phase = MigrationProcessing\<rparr>
      else \<lparr>ps_buffered = ps_buffered s, ps_capacity = ps_capacity s, ps_phase = MigrationClosed\<rparr>)"

definition dispatch_authenticated_bytes_pilot :: "pilot_state \<Rightarrow> nat \<Rightarrow> bool \<times> pilot_state" where
  "dispatch_authenticated_bytes_pilot s len = (pilot_accepts_fragment s len, pilot_next_state s len)"

subsection \<open>Refinement\<close>

fun abs_value_phase :: "value_phase \<Rightarrow> pilot_phase" where
  "abs_value_phase ValueReading = MigrationReading"
| "abs_value_phase ValueProcessing = MigrationProcessing"
| "abs_value_phase ValueClosed = MigrationClosed"

definition abs_value :: "value_state \<Rightarrow> pilot_state" where
  "abs_value s = \<lparr>ps_buffered = unat (vs_buffered s), ps_capacity = unat (vs_capacity s), ps_phase = abs_value_phase (vs_phase s)\<rparr>"

lemma value_available_refines: "unat (value_available s) = pilot_available (abs_value s)"
  by (simp add: value_available_def pilot_available_def abs_value_def word_le_nat_alt unat_sub)

lemma value_accepts_refines: "value_accepts_fragment s len \<longleftrightarrow> pilot_accepts_fragment (abs_value s) (unat len)"
  by (simp add: value_accepts_fragment_def pilot_accepts_fragment_def word_le_nat_alt value_available_refines)

lemma accepted_no_wrap:
  assumes "value_accepts_fragment s len"
  shows "unat (vs_buffered s + len) = unat (vs_buffered s) + unat len"
proof (rule unat_add_u32)
  have "unat len \<le> pilot_available (abs_value s)"
    using assms by (simp add: value_accepts_refines pilot_accepts_fragment_def)
  then show "unat (vs_buffered s) + unat len < 4294967296"
    using unat_lt_u32 [of "vs_capacity s"] unat_lt_u32 [of "vs_buffered s"]
    by (auto simp: pilot_available_def abs_value_def split: if_splits)
qed

theorem dispatch_value_refines:
  "dispatch_authenticated_bytes_pilot (abs_value s) (unat len) =
     (vr_accepted (dispatch_authenticated_bytes_value s len), abs_value (vr_next (dispatch_authenticated_bytes_value s len)))"
  using accepted_no_wrap [of s len] value_accepts_refines [of s len]
  by (auto simp: dispatch_authenticated_bytes_pilot_def dispatch_authenticated_bytes_value_def value_next_state_def
      pilot_next_state_def abs_value_def)

text \<open>The buffered count never passes the capacity once it is within it, over any sequence of fragments.\<close>

lemma value_next_bounded:
  assumes "vs_buffered s \<le> vs_capacity s"
  shows "vs_buffered (value_next_state s len) \<le> vs_capacity (value_next_state s len)"
  using assms accepted_no_wrap [of s len] value_accepts_refines [of s len]
  by (auto simp: value_next_state_def word_le_nat_alt pilot_accepts_fragment_def pilot_available_def abs_value_def)

section \<open>The C interface\<close>

record DnsPulseStreamState =
  fs_buffered :: u32
  fs_capacity :: u32
  fs_phase :: u32

record DnsPulseDispatchResult =
  fr_accepted :: u8
  fr_next :: DnsPulseStreamState

definition DNS_PULSE_PHASE_READING :: u32 where "DNS_PULSE_PHASE_READING = 0"
definition DNS_PULSE_PHASE_PROCESSING :: u32 where "DNS_PULSE_PHASE_PROCESSING = 1"
definition DNS_PULSE_PHASE_CLOSED :: u32 where "DNS_PULSE_PHASE_CLOSED = 2"

lemmas pulse_phase_codes = DNS_PULSE_PHASE_READING_def DNS_PULSE_PHASE_PROCESSING_def DNS_PULSE_PHASE_CLOSED_def

definition to_pilot_phase :: "u32 \<Rightarrow> value_phase" where
  "to_pilot_phase phase =
     (if phase = DNS_PULSE_PHASE_READING then ValueReading
      else if phase = DNS_PULSE_PHASE_PROCESSING then ValueProcessing else ValueClosed)"

fun from_pilot_phase :: "value_phase \<Rightarrow> u32" where
  "from_pilot_phase ValueReading = DNS_PULSE_PHASE_READING"
| "from_pilot_phase ValueProcessing = DNS_PULSE_PHASE_PROCESSING"
| "from_pilot_phase ValueClosed = DNS_PULSE_PHASE_CLOSED"

definition to_pilot_state :: "DnsPulseStreamState \<Rightarrow> value_state" where
  "to_pilot_state s = \<lparr>vs_buffered = fs_buffered s, vs_capacity = fs_capacity s, vs_phase = to_pilot_phase (fs_phase s)\<rparr>"

definition from_pilot_state :: "value_state \<Rightarrow> DnsPulseStreamState" where
  "from_pilot_state s = \<lparr>fs_buffered = vs_buffered s, fs_capacity = vs_capacity s, fs_phase = from_pilot_phase (vs_phase s)\<rparr>"

definition dns_pulse_available :: "DnsPulseStreamState \<Rightarrow> u32" where
  "dns_pulse_available s = value_available (to_pilot_state s)"

definition dns_pulse_accepts_fragment :: "DnsPulseStreamState \<Rightarrow> u32 \<Rightarrow> u8" where
  "dns_pulse_accepts_fragment s len = (if value_accepts_fragment (to_pilot_state s) len then 1 else 0)"

definition dns_pulse_dispatch_authenticated_bytes :: "DnsPulseStreamState \<Rightarrow> u32 \<Rightarrow> DnsPulseDispatchResult" where
  "dns_pulse_dispatch_authenticated_bytes s len =
     (let result = dispatch_authenticated_bytes_value (to_pilot_state s) len in
      \<lparr>fr_accepted = (if vr_accepted result then 1 else 0), fr_next = from_pilot_state (vr_next result)\<rparr>)"

lemma pilot_phase_codes [simp]: "to_pilot_phase (from_pilot_phase p) = p"
  by (cases p) (simp_all add: to_pilot_phase_def pulse_phase_codes)

lemma pilot_state_roundtrip: "to_pilot_state (from_pilot_state s) = s"
  by (simp add: to_pilot_state_def from_pilot_state_def)

section \<open>The two test programs\<close>

text \<open>The first program asserts; the second returns the number of the first comparison that fails.\<close>

definition pulse_value_smoke :: bool where
  "pulse_value_smoke \<longleftrightarrow>
     (let initial = \<lparr>vs_buffered = 4, vs_capacity = 12, vs_phase = ValueReading\<rparr>;
          accepted = dispatch_authenticated_bytes_value initial 3;
          rejected_r = dispatch_authenticated_bytes_value initial 9;
          near_limit = \<lparr>vs_buffered = 0xFFFFFFFF - 1, vs_capacity = 0xFFFFFFFF, vs_phase = ValueReading\<rparr>;
          exact = dispatch_authenticated_bytes_value near_limit 1;
          overflow = dispatch_authenticated_bytes_value near_limit 2 in
      vr_accepted accepted \<and> vs_buffered (vr_next accepted) = 7 \<and> vs_capacity (vr_next accepted) = 12 \<and>
      vs_phase (vr_next accepted) = ValueProcessing \<and>
      \<not> vr_accepted rejected_r \<and> vs_buffered (vr_next rejected_r) = 4 \<and> vs_capacity (vr_next rejected_r) = 12 \<and>
      vs_phase (vr_next rejected_r) = ValueClosed \<and>
      vr_accepted exact \<and> vs_buffered (vr_next exact) = 0xFFFFFFFF \<and>
      \<not> vr_accepted overflow \<and> vs_buffered (vr_next overflow) = 0xFFFFFFFF - 1)"

definition pulse_value_ffi_smoke :: nat where
  "pulse_value_ffi_smoke =
     (let initial = \<lparr>fs_buffered = 4, fs_capacity = 12, fs_phase = DNS_PULSE_PHASE_READING\<rparr>;
          accepted = dns_pulse_dispatch_authenticated_bytes initial 8;
          rejected_r = dns_pulse_dispatch_authenticated_bytes (fr_next accepted) 1;
          invalid = dns_pulse_dispatch_authenticated_bytes \<lparr>fs_buffered = 0, fs_capacity = 1, fs_phase = 99\<rparr> 2 in
      if dns_pulse_available initial \<noteq> 8 then 1
      else if dns_pulse_accepts_fragment initial 8 \<noteq> 1 then 2
      else if fr_accepted accepted \<noteq> 1 then 3
      else if fs_buffered (fr_next accepted) \<noteq> 12 then 4
      else if fs_phase (fr_next accepted) \<noteq> DNS_PULSE_PHASE_PROCESSING then 5
      else if fr_accepted rejected_r \<noteq> 0 then 6
      else if fs_phase (fr_next rejected_r) \<noteq> DNS_PULSE_PHASE_CLOSED then 7
      else if fr_accepted invalid \<noteq> 0 then 8
      else if fs_phase (fr_next invalid) \<noteq> DNS_PULSE_PHASE_CLOSED then 9 else 0)"

lemma value_smoke: "pulse_value_smoke" and value_ffi_smoke: "pulse_value_ffi_smoke = 0"
  by (code_simp; rule TrueI)+

end
