(* ===== verification/Pulse_Send.thy ===== *)
theory Pulse_Send
  imports Pulse_Table
begin

text \<open>
  The send reservation of the candidate lane (\<^verbatim>\<open>src/migration/DNS.Migration.PulseSend.fst\<close> and its interface): a send
  that is in flight reserves the position of its stream in the pointer table; the table may change meanwhile, and
  the completion removes exactly the reserved context, wherever compaction has moved it. The ownership
  predicates of the source are the invariant \<open>send_inv\<close>; the cells it owns are the fields of a record.
\<close>

section \<open>State and operations\<close>

record descriptor =
  de_stream_id :: u64
  de_data :: addr
  de_length :: u32
  de_fin :: bool
  de_context :: nat

record reservation =
  re_send :: descriptor
  re_index :: u32

datatype outcome = SendCompleted | SendDropped

record send_state =
  sn_slot :: "reservation option"
  sn_conn :: pulse_connection
  sn_contexts :: "pulse_context list"

definition close_index :: "pulse_connection \<Rightarrow> u32 \<Rightarrow> pulse_connection" where
  "close_index c index =
     (let last_p = pcc_num c - 1;
          removed = pcc_active c ! unat index;
          final_p = pcc_active c ! unat last_p in
      c\<lparr>pcc_active := (pcc_active c)[unat last_p := removed, unat index := final_p], pcc_num := last_p\<rparr>)"

definition begin_send :: "send_state \<Rightarrow> addr \<Rightarrow> u32 \<Rightarrow> u64 \<Rightarrow> bool \<Rightarrow> descriptor option \<times> send_state" where
  "begin_send st response len sid fin =
     (let c = sn_conn st; found = pulse_find_stream (sn_contexts st) c sid in
      if found < pcc_num c then
        let d = \<lparr>de_stream_id = sid, de_data = response, de_length = len, de_fin = fin, de_context = pcc_active c ! unat found\<rparr> in
        (Some d, st\<lparr>sn_slot := Some \<lparr>re_send = d, re_index = found\<rparr>\<rparr>)
      else (None, st))"

definition inspect_pending :: "send_state \<Rightarrow> descriptor" where
  "inspect_pending st = re_send (the (sn_slot st))"

definition find_while_pending :: "send_state \<Rightarrow> u64 \<Rightarrow> u32" where
  "find_while_pending st sid = pulse_find_stream (sn_contexts st) (sn_conn st) sid"

definition allocate_while_pending :: "send_state \<Rightarrow> u64 \<Rightarrow> u32 \<times> send_state" where
  "allocate_while_pending st sid =
     (let (result, contexts, c) = pulse_allocate_stream (sn_contexts st) (sn_conn st) sid in
      (result, st\<lparr>sn_contexts := contexts, sn_conn := c\<rparr>))"

definition close_other :: "send_state \<Rightarrow> u64 \<Rightarrow> bool \<times> send_state" where
  "close_other st sid =
     (let r = the (sn_slot st); c = sn_conn st in
      if sid = de_stream_id (re_send r) then (False, st)
      else
        let found = pulse_find_stream (sn_contexts st) c sid in
        if found < pcc_num c then
          let last_p = pcc_num c - 1;
              index = (if re_index r = last_p then found else re_index r) in
          (True, st\<lparr>sn_conn := close_index c found, sn_slot := Some \<lparr>re_send = re_send r, re_index = index\<rparr>\<rparr>)
        else (False, st))"

definition finish_send :: "send_state \<Rightarrow> u64 \<Rightarrow> outcome \<Rightarrow> bool \<times> send_state" where
  "finish_send st completion_id oc =
     (let r = the (sn_slot st) in
      if completion_id = de_stream_id (re_send r)
      then (True, st\<lparr>sn_conn := close_index (sn_conn st) (re_index r), sn_slot := None\<rparr>)
      else (False, st))"

section \<open>The table\<close>

definition pulse_table_ok :: "pulse_connection \<Rightarrow> nat \<Rightarrow> bool" where
  "pulse_table_ok c n \<longleftrightarrow> unat (pcc_num c) \<le> unat (pcc_capacity c) \<and> unat (pcc_capacity c) \<le> length (pcc_active c) \<and>
     length (pcc_active c) < 4294967296 \<and> distinct (pcc_active c) \<and> (\<forall>p\<in>set (pcc_active c). p < n)"

definition open_contexts :: "pulse_connection \<Rightarrow> nat set" where
  "open_contexts c = (\<lambda>i. pcc_active c ! i) ` {..<unat (pcc_num c)}"

lemma find_index_lt:
  assumes "unat (pcc_num c) \<le> length (pcc_active c)"
  shows "pulse_find_stream contexts c sid \<le> pcc_num c"
    and "pulse_find_stream contexts c sid < pcc_num c \<Longrightarrow>
      pc_id (contexts ! (pcc_active c ! unat (pulse_find_stream contexts c sid))) = sid"
    and "pulse_find_stream contexts c sid < pcc_num c \<longleftrightarrow> (\<exists>p\<in>open_contexts c. pc_id (contexts ! p) = sid)"
proof -
  let ?P = "\<lambda>i. pc_id (contexts ! (pcc_active c ! i)) = sid"
  let ?k = "find_index_from contexts (pcc_active c) (unat (pcc_num c)) sid 0"
  have k: "?k = (case find ?P [0..<unat (pcc_num c)] of None \<Rightarrow> unat (pcc_num c) | Some k \<Rightarrow> k)"
    by (rule find_index_from_eq) simp
  have facts: "?k \<le> unat (pcc_num c) \<and> (?k < unat (pcc_num c) \<longrightarrow> ?P ?k) \<and>
      (?k < unat (pcc_num c) \<longleftrightarrow> (\<exists>i<unat (pcc_num c). ?P i))"
  proof (cases "find ?P [0..<unat (pcc_num c)]")
    case None
    then have "\<forall>i<unat (pcc_num c). \<not> ?P i" by (auto simp: find_None_iff)
    with None show ?thesis unfolding k by simp
  next
    case (Some i)
    then have "i < unat (pcc_num c)" "?P i" by (auto simp: find_Some_iff)
    with Some show ?thesis unfolding k by auto
  qed
  then have small: "?k \<le> unat (pcc_num c)" and hit: "?k < unat (pcc_num c) \<Longrightarrow> ?P ?k"
    and iff: "?k < unat (pcc_num c) \<longleftrightarrow> (\<exists>i<unat (pcc_num c). ?P i)" by blast+
  have "?k < 4294967296" using small unat_lt_u32 [of "pcc_num c"] by linarith
  then have u: "unat (pulse_find_stream contexts c sid) = ?k"
    by (simp add: pulse_find_stream_def find_index_def unat_of_nat_u32)
  show "pulse_find_stream contexts c sid \<le> pcc_num c" using small by (simp add: word_le_nat_alt u)
  show "pulse_find_stream contexts c sid < pcc_num c \<Longrightarrow>
      pc_id (contexts ! (pcc_active c ! unat (pulse_find_stream contexts c sid))) = sid"
    using hit by (simp add: word_less_nat_alt u)
  show "pulse_find_stream contexts c sid < pcc_num c \<longleftrightarrow> (\<exists>p\<in>open_contexts c. pc_id (contexts ! p) = sid)"
    using iff by (auto simp: word_less_nat_alt u open_contexts_def)
qed

lemma unat_u32_inject: "unat (a :: u32) = unat b \<longleftrightarrow> a = b"
  by (metis unsigned_word_eqI)

lemma unat_pred: "(index :: u32) < n \<Longrightarrow> unat (n - 1) = unat n - 1"
  by (subst unat_sub) (auto simp: word_le_nat_alt word_less_nat_alt)

lemma close_index_swap:
  "close_index c index = c\<lparr>pcc_active := list_swap (pcc_active c) (unat index) (unat (pcc_num c - 1)), pcc_num := pcc_num c - 1\<rparr>"
  by (simp add: close_index_def list_swap_def Let_def)

text \<open>Closing a position removes its context from the open ones; any other position keeps its context, at the
  freed position when it was the last.\<close>

lemma close_index_facts:
  assumes ok: "pulse_table_ok c n" and i: "index < pcc_num c"
  shows "pulse_table_ok (close_index c index) n"
    and "open_contexts (close_index c index) = open_contexts c - {pcc_active c ! unat index}"
    and "k < pcc_num c \<Longrightarrow> k \<noteq> index \<Longrightarrow> j = (if k = pcc_num c - 1 then index else k) \<Longrightarrow>
      j < pcc_num (close_index c index) \<and> pcc_active (close_index c index) ! unat j = pcc_active c ! unat k"
proof -
  let ?l = "unat (pcc_num c) - 1" and ?a = "pcc_active c"
  note last_p = unat_pred [OF i]
  have b: "unat index \<le> ?l" "?l < unat (pcc_num c)" "unat (pcc_num c) \<le> length ?a" "unat index < length ?a" "?l < length ?a"
    using ok i by (auto simp: pulse_table_ok_def word_less_nat_alt)
  have nth: "list_swap ?a (unat index) ?l ! k = (if k = unat index then ?a ! ?l else if k = ?l then ?a ! unat index else ?a ! k)"
    if "k < length ?a" for k using b that by (simp add: nth_list_swap)
  show "pulse_table_ok (close_index c index) n"
    using ok b by (simp add: pulse_table_ok_def close_index_swap last_p)
  have inj: "?a ! x = ?a ! y \<longleftrightarrow> x = y" if "x < length ?a" "y < length ?a" for x y
    using ok that by (simp add: pulse_table_ok_def nth_eq_iff_index_eq)
  show "open_contexts (close_index c index) = open_contexts c - {?a ! unat index}" (is "?L = ?R")
  proof
    show "?L \<subseteq> ?R"
    proof
      fix p assume "p \<in> ?L"
      then obtain k where k: "k < ?l" "p = list_swap ?a (unat index) ?l ! k"
        by (auto simp: open_contexts_def close_index_swap last_p)
      let ?k = "if k = unat index then ?l else k"
      have "p = ?a ! ?k" "?k < unat (pcc_num c)" "?k \<noteq> unat index" using k b nth [of k] by auto
      then show "p \<in> ?R" using b inj [of ?k "unat index"] by (auto simp: open_contexts_def)
    qed
    show "?R \<subseteq> ?L"
    proof
      fix p assume "p \<in> ?R"
      then obtain k where k: "k < unat (pcc_num c)" "p = ?a ! k" "k \<noteq> unat index" by (auto simp: open_contexts_def)
      let ?k = "if k = ?l then unat index else k"
      have "?k < ?l" "list_swap ?a (unat index) ?l ! ?k = p" using k b nth [of ?k] by auto
      then show "p \<in> ?L" by (auto simp: open_contexts_def close_index_swap last_p)
    qed
  qed
  assume k: "k < pcc_num c" "k \<noteq> index" "j = (if k = pcc_num c - 1 then index else k)"
  have "unat k \<noteq> unat index" "unat k < unat (pcc_num c)" using k(1,2) unat_u32_inject [of k index] by (auto simp: word_less_nat_alt)
  moreover have "k = pcc_num c - 1 \<longleftrightarrow> unat k = ?l" using last_p unat_u32_inject [of k "pcc_num c - 1"] by simp
  ultimately show "j < pcc_num (close_index c index) \<and> pcc_active (close_index c index) ! unat j = ?a ! unat k"
    using k(3) b nth [of "unat j"] by (auto simp: close_index_swap word_less_nat_alt last_p)
qed

section \<open>The reservation\<close>

definition send_inv :: "send_state \<Rightarrow> bool" where
  "send_inv st \<longleftrightarrow> pulse_table_ok (sn_conn st) (length (sn_contexts st)) \<and>
     (case sn_slot st of
        None \<Rightarrow> True
      | Some r \<Rightarrow> re_index r < pcc_num (sn_conn st) \<and> pcc_active (sn_conn st) ! unat (re_index r) = de_context (re_send r) \<and>
          pc_id (sn_contexts st ! de_context (re_send r)) = de_stream_id (re_send r))"

text \<open>The steps of the interface: a send begins when none is pending; the other calls are made while one is.\<close>

inductive send_step :: "send_state \<Rightarrow> send_state \<Rightarrow> bool" where
  step_begin: "sn_slot st = None \<Longrightarrow> begin_send st response len sid fin = (result, st') \<Longrightarrow> send_step st st'"
| step_allocate: "allocate_while_pending st sid = (result, st') \<Longrightarrow> send_step st st'"
| step_close: "sn_slot st \<noteq> None \<Longrightarrow> close_other st sid = (closed, st') \<Longrightarrow> send_step st st'"
| step_finish: "sn_slot st \<noteq> None \<Longrightarrow> finish_send st sid oc = (accepted, st') \<Longrightarrow> send_step st st'"

inductive_cases send_stepE: "send_step st st'"

lemma table_ok_le: "pulse_table_ok c n \<Longrightarrow> unat (pcc_num c) \<le> length (pcc_active c)"
  by (auto simp: pulse_table_ok_def)

lemma begin_send_spec:
  assumes inv: "send_inv st" and idle: "sn_slot st = None" and run: "begin_send st response len sid fin = (result, st')"
  shows "send_inv st' \<and> sn_conn st' = sn_conn st \<and> sn_contexts st' = sn_contexts st \<and>
    (case result of
       None \<Rightarrow> st' = st \<and> (\<forall>p\<in>open_contexts (sn_conn st). pc_id (sn_contexts st ! p) \<noteq> sid)
     | Some d \<Rightarrow> (\<exists>i. sn_slot st' = Some \<lparr>re_send = d, re_index = i\<rparr>) \<and> de_stream_id d = sid \<and> de_data d = response \<and>
         de_length d = len \<and> de_fin d = fin \<and> de_context d \<in> open_contexts (sn_conn st))"
proof -
  have ok: "unat (pcc_num (sn_conn st)) \<le> length (pcc_active (sn_conn st))"
    using inv by (auto simp: send_inv_def intro: table_ok_le)
  note F = find_index_lt [OF ok, of "sn_contexts st" sid]
  show ?thesis
  proof (cases "pulse_find_stream (sn_contexts st) (sn_conn st) sid < pcc_num (sn_conn st)")
    case True
    with run inv F(2) show ?thesis by (auto simp: begin_send_def Let_def send_inv_def open_contexts_def word_less_nat_alt)
  next
    case False
    with run inv F(3) show ?thesis by (auto simp: begin_send_def Let_def)
  qed
qed

text \<open>Opening another stream writes a context that is not open, so the reserved one keeps its value.\<close>

lemma allocate_spec:
  assumes inv: "send_inv st" and run: "allocate_while_pending st sid = (result, st')"
  shows "send_inv st' \<and> sn_slot st' = sn_slot st \<and> open_contexts (sn_conn st) \<subseteq> open_contexts (sn_conn st') \<and>
    (\<forall>p\<in>open_contexts (sn_conn st). sn_contexts st' ! p = sn_contexts st ! p)"
proof -
  let ?c = "sn_conn st" and ?ctx = "sn_contexts st"
  have ok: "pulse_table_ok ?c (length ?ctx)" using inv by (simp add: send_inv_def)
  show ?thesis
  proof (cases "find_index ?ctx (pcc_active ?c) (pcc_num ?c) sid < pcc_num ?c \<or> \<not> pcc_num ?c < pcc_capacity ?c")
    case True
    with run have "st' = st" by (auto simp: allocate_while_pending_def pulse_allocate_stream_def Let_def)
    with inv show ?thesis by simp
  next
    case False
    let ?n = "unat (pcc_num ?c)"
    let ?p = "pcc_active ?c ! ?n"
    let ?ctx' = "?ctx[?p := (?ctx ! ?p)\<lparr>pc_id := sid, pc_phase := ReadingLength\<rparr>]"
    have st': "st' = st\<lparr>sn_contexts := ?ctx', sn_conn := ?c\<lparr>pcc_num := pcc_num ?c + 1\<rparr>\<rparr>"
      using run False by (auto simp: allocate_while_pending_def pulse_allocate_stream_def Let_def)
    have n: "?n < unat (pcc_capacity ?c)" using False by (simp add: word_less_nat_alt)
    then have len: "?n < length (pcc_active ?c)" using ok by (auto simp: pulse_table_ok_def)
    have n1: "unat (pcc_num ?c + 1) = Suc ?n"
      using n unat_lt_u32 [of "pcc_capacity ?c"] by (subst unat_add_lem [THEN iffD1]) auto
    have keep: "?ctx' ! (pcc_active ?c ! i) = ?ctx ! (pcc_active ?c ! i)" if "i < ?n" for i
    proof -
      have "pcc_active ?c ! i \<noteq> ?p" using ok len that by (simp add: pulse_table_ok_def nth_eq_iff_index_eq)
      then show ?thesis by simp
    qed
    have "pulse_table_ok (?c\<lparr>pcc_num := pcc_num ?c + 1\<rparr>) (length ?ctx')"
      using ok n by (simp add: pulse_table_ok_def n1)
    moreover have "open_contexts ?c \<subseteq> open_contexts (?c\<lparr>pcc_num := pcc_num ?c + 1\<rparr>)"
      by (auto simp: open_contexts_def n1)
    ultimately show ?thesis
      using inv keep
      by (auto simp: st' send_inv_def open_contexts_def n1 word_less_nat_alt split: option.splits)
        (metis keep)
  qed
qed

text \<open>Closing another stream moves the reservation with its context.\<close>

lemma close_other_spec:
  assumes inv: "send_inv st" and pend: "sn_slot st = Some r" and run: "close_other st sid = (closed, st')"
  shows "send_inv st' \<and> sn_contexts st' = sn_contexts st \<and> (\<exists>i. sn_slot st' = Some \<lparr>re_send = re_send r, re_index = i\<rparr>) \<and>
    (if closed then sid \<noteq> de_stream_id (re_send r) \<and>
       (\<exists>p. p \<in> open_contexts (sn_conn st) \<and> pc_id (sn_contexts st ! p) = sid \<and> p \<noteq> de_context (re_send r) \<and>
         open_contexts (sn_conn st') = open_contexts (sn_conn st) - {p})
     else st' = st \<and> (sid = de_stream_id (re_send r) \<or> (\<forall>p\<in>open_contexts (sn_conn st). pc_id (sn_contexts st ! p) \<noteq> sid)))"
proof -
  let ?c = "sn_conn st" and ?ctx = "sn_contexts st"
  have ok: "pulse_table_ok ?c (length ?ctx)" and r: "re_index r < pcc_num ?c"
      "pcc_active ?c ! unat (re_index r) = de_context (re_send r)" "pc_id (?ctx ! de_context (re_send r)) = de_stream_id (re_send r)"
    using inv pend by (simp_all add: send_inv_def)
  have same: "\<exists>i. sn_slot st = Some \<lparr>re_send = re_send r, re_index = i\<rparr>" using pend by (cases r) simp
  let ?f = "pulse_find_stream ?ctx ?c sid"
  note F = find_index_lt [OF table_ok_le [OF ok], of ?ctx sid]
  show ?thesis
  proof (cases "sid \<noteq> de_stream_id (re_send r) \<and> ?f < pcc_num ?c")
    case False
    then have "st' = st" "\<not> closed" using run pend by (auto simp: close_other_def Let_def split: if_splits)
    with False F(3) inv same show ?thesis by auto
  next
    case True
    then have hit: "pc_id (?ctx ! (pcc_active ?c ! unat ?f)) = sid" using F(2) by simp
    then have ne: "re_index r \<noteq> ?f" using True r by auto
    let ?j = "if re_index r = pcc_num ?c - 1 then ?f else re_index r"
    have st': "closed" "st' = st\<lparr>sn_conn := close_index ?c ?f, sn_slot := Some \<lparr>re_send = re_send r, re_index = ?j\<rparr>\<rparr>"
      using run pend True by (auto simp: close_other_def Let_def)
    note C = close_index_facts [OF ok conjunct2 [OF True]]
    have mem: "pcc_active ?c ! unat ?f \<in> open_contexts ?c" using True by (auto simp: open_contexts_def word_less_nat_alt)
    have "pcc_active ?c ! unat ?f \<noteq> de_context (re_send r)" using hit r(3) True by auto
    then show ?thesis
      using st' C(1,2) C(3) [OF r(1) ne refl] r True hit mem by (auto simp: send_inv_def)
  qed
qed

lemma finish_spec:
  assumes inv: "send_inv st" and pend: "sn_slot st = Some r" and run: "finish_send st sid oc = (accepted, st')"
  shows "(accepted \<longleftrightarrow> sid = de_stream_id (re_send r)) \<and> send_inv st' \<and> sn_contexts st' = sn_contexts st \<and>
    (if accepted then sn_slot st' = None \<and> open_contexts (sn_conn st') = open_contexts (sn_conn st) - {de_context (re_send r)}
     else st' = st)"
proof -
  have ok: "pulse_table_ok (sn_conn st) (length (sn_contexts st))" and r: "re_index r < pcc_num (sn_conn st)"
      "pcc_active (sn_conn st) ! unat (re_index r) = de_context (re_send r)"
    using inv pend by (simp_all add: send_inv_def)
  show ?thesis
  proof (cases "sid = de_stream_id (re_send r)")
    case True
    with run pend have "accepted" "st' = st\<lparr>sn_conn := close_index (sn_conn st) (re_index r), sn_slot := None\<rparr>"
      by (auto simp: finish_send_def)
    with True close_index_facts(1,2) [OF ok r(1)] r(2) show ?thesis by (simp add: send_inv_def)
  next
    case False
    with run pend have "\<not> accepted" "st' = st" by (auto simp: finish_send_def)
    with False inv show ?thesis by simp
  qed
qed

section \<open>Every sequence of steps\<close>

lemma send_step_inv: "send_step st st' \<Longrightarrow> send_inv st \<Longrightarrow> send_inv st'"
  by (erule send_stepE) (auto dest: begin_send_spec allocate_spec close_other_spec finish_spec)

lemma send_steps_inv: "send_step\<^sup>*\<^sup>* st st' \<Longrightarrow> send_inv st \<Longrightarrow> send_inv st'"
  by (induction rule: rtranclp_induct) (auto intro: send_step_inv)

text \<open>While a send is pending its descriptor, and the context it reserved, stay as they are and the context stays open.\<close>

definition reserves :: "send_state \<Rightarrow> descriptor \<Rightarrow> pulse_context \<Rightarrow> bool" where
  "reserves st d saved \<longleftrightarrow> (\<exists>i. sn_slot st = Some \<lparr>re_send = d, re_index = i\<rparr>) \<and>
     de_context d \<in> open_contexts (sn_conn st) \<and> sn_contexts st ! de_context d = saved"

inductive waiting :: "send_state \<Rightarrow> send_state \<Rightarrow> bool" where
  waiting_refl: "waiting st st"
| waiting_allocate: "waiting st st1 \<Longrightarrow> allocate_while_pending st1 sid = (result, st2) \<Longrightarrow> waiting st st2"
| waiting_close: "waiting st st1 \<Longrightarrow> close_other st1 sid = (closed, st2) \<Longrightarrow> waiting st st2"
| waiting_refused: "waiting st st1 \<Longrightarrow> finish_send st1 sid oc = (False, st2) \<Longrightarrow> waiting st st2"

lemma reserved_open:
  assumes "send_inv st" and "sn_slot st = Some r"
  shows "de_context (re_send r) \<in> open_contexts (sn_conn st)"
  using assms by (auto simp: send_inv_def open_contexts_def word_less_nat_alt intro!: image_eqI [of _ _ "unat (re_index r)"])

lemma waiting_keeps:
  "waiting st st' \<Longrightarrow> send_inv st \<Longrightarrow> reserves st d saved \<Longrightarrow> send_inv st' \<and> reserves st' d saved"
proof (induction rule: waiting.induct)
  case (waiting_allocate st st1 sid result st2)
  then have "send_inv st1" "reserves st1 d saved" by simp_all
  with allocate_spec [OF _ waiting_allocate(2)] show ?case by (auto simp: reserves_def)
next
  case (waiting_close st st1 sid closed st2)
  then have inv: "send_inv st1" and res: "reserves st1 d saved" by simp_all
  then obtain i where i: "sn_slot st1 = Some \<lparr>re_send = d, re_index = i\<rparr>" by (auto simp: reserves_def)
  note C = close_other_spec [OF inv i waiting_close(2)]
  then obtain j where "sn_slot st2 = Some \<lparr>re_send = d, re_index = j\<rparr>" by auto
  with reserved_open [of st2] C res show ?case by (auto simp: reserves_def)
next
  case (waiting_refused st st1 sid oc st2)
  then have inv: "send_inv st1" and res: "reserves st1 d saved" by simp_all
  then obtain i where i: "sn_slot st1 = Some \<lparr>re_send = d, re_index = i\<rparr>" by (auto simp: reserves_def)
  from finish_spec [OF inv i waiting_refused(2)] inv res show ?case by simp
qed simp_all

text \<open>From the begin of a send to its completion, whatever happens in between.\<close>

theorem send_reservation:
  assumes inv: "send_inv st" and idle: "sn_slot st = None" and begin_run: "begin_send st response len sid fin = (Some d, st1)"
    and wait: "waiting st1 st2" and fin: "finish_send st2 completion oc = (accepted, st3)"
  shows "de_stream_id d = sid \<and> de_data d = response \<and> de_length d = len \<and> de_fin d = fin \<and>
    inspect_pending st2 = d \<and> sn_contexts st2 ! de_context d = sn_contexts st ! de_context d \<and>
    (accepted \<longleftrightarrow> completion = sid) \<and> send_inv st3 \<and>
    (if accepted then sn_slot st3 = None \<and> open_contexts (sn_conn st3) = open_contexts (sn_conn st2) - {de_context d}
     else st3 = st2)"
proof -
  note B = begin_send_spec [OF inv idle begin_run]
  then have "reserves st1 d (sn_contexts st ! de_context d)" by (auto simp: reserves_def)
  from waiting_keeps [OF wait _ this] B have W: "send_inv st2" "reserves st2 d (sn_contexts st ! de_context d)" by simp_all
  then obtain i where i: "sn_slot st2 = Some \<lparr>re_send = d, re_index = i\<rparr>" by (auto simp: reserves_def)
  from finish_spec [OF W(1) i fin] B W(2) i show ?thesis by (auto simp: reserves_def inspect_pending_def)
qed

section \<open>A pending send\<close>

text \<open>Streams 4 and 8 are open, at slots 3 and 2.\<close>

definition demo_send :: send_state where
  "demo_send = \<lparr>sn_slot = None, sn_conn = \<lparr>pcc_active = [3, 2, 1, 0], pcc_num = 2, pcc_capacity = 4\<rparr>,
     sn_contexts = map (\<lambda>k. \<lparr>pc_id = k, pc_phase = ReadingLength, pc_buf = 0\<rparr>) [16, 12, 8, 4]\<rparr>"

lemma demo_send_inv: "send_inv demo_send"
  by (simp add: send_inv_def demo_send_def pulse_table_ok_def)

lemma demo_begin_send:
  "begin_send demo_send 2000000 21 8 True =
     (Some \<lparr>de_stream_id = 8, de_data = 2000000, de_length = 21, de_fin = True, de_context = 2\<rparr>,
      demo_send\<lparr>sn_slot := Some \<lparr>re_send = \<lparr>de_stream_id = 8, de_data = 2000000, de_length = 21, de_fin = True, de_context = 2\<rparr>,
        re_index = 1\<rparr>\<rparr>)"
  by (simp add: begin_send_def demo_send_def pulse_find_stream_def find_index_def find_index_from.simps Let_def)

lemma demo_close_other:
  obtains st2 where "close_other (demo_send\<lparr>sn_slot := Some \<lparr>re_send = \<lparr>de_stream_id = 8, de_data = 2000000, de_length = 21, de_fin = True,
      de_context = 2\<rparr>, re_index = 1\<rparr>\<rparr>) 4 = (True, st2)" and "open_contexts (sn_conn st2) = {2}"
  by (simp add: close_other_def demo_send_def pulse_find_stream_def find_index_def find_index_from.simps Let_def
      close_index_def open_contexts_def lessThan_Suc)

end
