(* ===== verification/Dns_Parser.thy ===== *)
theory Dns_Parser
  imports Dns_Packet
begin

text \<open>
  The message parser of \<^verbatim>\<open>src/src/protocol/DNS.Protocol.Parser.fst\<close>: header, questions, records with plain and with
  compressed names, the checks of record data by type, and whole messages. What it accepts is the subject of the theory
  of the serializer.
\<close>

section \<open>Parser\<close>

definition raw_header_to_header :: "u16 \<times> u16 \<times> u16 \<times> u16 \<times> u16 \<times> u16 \<Rightarrow> header" where
  "raw_header_to_header r =
     (case r of (hid, flags_raw, qd, an, ns, ar) \<Rightarrow>
        \<lparr>h_id = hid, h_flags = uint16_to_flags flags_raw, h_qdcount = qd, h_ancount = an, h_nscount = ns, h_arcount = ar\<rparr>)"

definition parse_header_bytes :: "u8 list \<Rightarrow> (header \<times> u8 list) option" where
  "parse_header_bytes input =
     (if length input < 12 then None
      else case input of
        id_hi # id_lo # fl_hi # fl_lo # qd_hi # qd_lo # an_hi # an_lo # ns_hi # ns_lo # ar_hi # ar_lo # rest \<Rightarrow>
          Some (raw_header_to_header (u16_from_be id_hi id_lo, u16_from_be fl_hi fl_lo, u16_from_be qd_hi qd_lo,
            u16_from_be an_hi an_lo, u16_from_be ns_hi ns_lo, u16_from_be ar_hi ar_lo), rest)
      | _ \<Rightarrow> None)"

definition parse_question_bytes :: "u8 list \<Rightarrow> (question \<times> u8 list) option" where
  "parse_question_bytes input =
     (case parse_qname 128 input of
        None \<Rightarrow> None
      | Some (name, rest) \<Rightarrow>
          (case rest of
             qt_hi # qt_lo # qc_hi # qc_lo # tail \<Rightarrow>
               Some (\<lparr>q_qname = name, q_qtype = u16_to_qtype (u16_from_be qt_hi qt_lo), q_qclass = u16_from_be qc_hi qc_lo\<rparr>, tail)
           | _ \<Rightarrow> None))"

fun parse_questions_bytes :: "nat \<Rightarrow> nat \<Rightarrow> u8 list \<Rightarrow> (question list \<times> u8 list) option" where
  "parse_questions_bytes fuel count input =
     (if count = 0 then Some ([], input)
      else if fuel = 0 then None
      else case parse_question_bytes input of
        None \<Rightarrow> None
      | Some (q, rest) \<Rightarrow>
          (case parse_questions_bytes (fuel - 1) (count - 1) rest of
             None \<Rightarrow> None
           | Some (qs, tail) \<Rightarrow> Some (q # qs, tail)))"

definition parse_rdata_bytes :: "u16 \<Rightarrow> u8 list \<Rightarrow> (u8 list \<times> u8 list) option" where
  "parse_rdata_bytes rdlen input =
     (let len = unat rdlen in
      if len = 0 then Some ([], input)
      else if length input < len then None
      else Some (take len input, drop len input))"

definition valid_rdata_length :: "qtype \<Rightarrow> u16 \<Rightarrow> bool" where
  "valid_rdata_length rtype rdlen = (case rtype of A \<Rightarrow> rdlen = 4 | AAAA \<Rightarrow> rdlen = 16 | _ \<Rightarrow> True)"

definition edns_version_from_ttl :: "u32 \<Rightarrow> u8" where
  "edns_version_from_ttl ttl = of_nat (unat ttl div 65536 mod 256)"

definition valid_rr_position_and_shape :: "bool \<Rightarrow> qname \<Rightarrow> qtype \<Rightarrow> u32 \<Rightarrow> bool" where
  "valid_rr_position_and_shape additional_section name rtype ttl =
     (case rtype of OPT \<Rightarrow> additional_section \<and> name = [] \<and> edns_version_from_ttl ttl = 0 | _ \<Rightarrow> True)"

definition valid_opt_options_payload :: "u16 \<Rightarrow> u8 list \<Rightarrow> bool" where
  "valid_opt_options_payload rdlen input =
     (let len = unat rdlen in
      if length input < len then False
      else case parse_edns_options_bytes len (take len input) of Some _ \<Rightarrow> True | None \<Rightarrow> False)"

definition whole_name :: "(qname \<times> u8 list) option \<Rightarrow> bool" where
  "whole_name parsed = (case parsed of Some (_, tail) \<Rightarrow> length tail = 0 | None \<Rightarrow> False)"

definition valid_name_rdata_payload :: "u16 \<Rightarrow> u8 list \<Rightarrow> bool" where
  "valid_name_rdata_payload rdlen input =
     (let len = unat rdlen in
      if length input < len then False else whole_name (parse_qname 128 (take len input)))"

definition valid_name_rdata_payload_at :: "u8 list \<Rightarrow> nat \<Rightarrow> u16 \<Rightarrow> u8 list \<Rightarrow> bool" where
  "valid_name_rdata_payload_at original rdata_offset rdlen input =
     (let len = unat rdlen in
      if length input < len then False
      else whole_name (parse_qname_compressed 128 original rdata_offset (take len input)))"

definition valid_mx_rdata_payload :: "u16 \<Rightarrow> u8 list \<Rightarrow> bool" where
  "valid_mx_rdata_payload rdlen input =
     (let len = unat rdlen in
      if len < 3 \<or> length input < len then False
      else case take len input of
        _ # _ # exchange \<Rightarrow> whole_name (parse_qname 128 exchange)
      | _ \<Rightarrow> False)"

definition valid_mx_rdata_payload_at :: "u8 list \<Rightarrow> nat \<Rightarrow> u16 \<Rightarrow> u8 list \<Rightarrow> bool" where
  "valid_mx_rdata_payload_at original rdata_offset rdlen input =
     (let len = unat rdlen in
      if len < 3 \<or> length input < len then False
      else case take len input of
        _ # _ # exchange \<Rightarrow> whole_name (parse_qname_compressed 128 original (rdata_offset + 2) exchange)
      | _ \<Rightarrow> False)"

definition valid_soa_rdata_after_mname :: "u8 list \<Rightarrow> bool" where
  "valid_soa_rdata_after_mname input =
     (case parse_qname 128 input of Some (_, timers) \<Rightarrow> length timers = 20 | None \<Rightarrow> False)"

definition valid_soa_rdata_payload :: "u16 \<Rightarrow> u8 list \<Rightarrow> bool" where
  "valid_soa_rdata_payload rdlen input =
     (let len = unat rdlen in
      if len < 22 \<or> length input < len then False
      else case parse_qname 128 (take len input) of
        Some (_, after_mname) \<Rightarrow> valid_soa_rdata_after_mname after_mname
      | None \<Rightarrow> False)"

definition valid_soa_rdata_payload_at :: "u8 list \<Rightarrow> nat \<Rightarrow> u16 \<Rightarrow> u8 list \<Rightarrow> bool" where
  "valid_soa_rdata_payload_at original rdata_offset rdlen input =
     (let len = unat rdlen in
      if len < 22 \<or> length input < len then False
      else
        let payload = take len input in
        case parse_qname_compressed 128 original rdata_offset payload of
          Some (_, after_mname) \<Rightarrow>
            (let mname_consumed =
                   (if length after_mname \<le> length payload then length payload - length after_mname else 0);
                 rname_offset = rdata_offset + mname_consumed in
             case parse_qname_compressed 128 original rname_offset after_mname of
               Some (_, timers) \<Rightarrow> length timers = 20
             | None \<Rightarrow> False)
        | None \<Rightarrow> False)"

fun valid_txt_strings :: "nat \<Rightarrow> u8 list \<Rightarrow> bool" where
  "valid_txt_strings fuel input =
     (if length input = 0 then True
      else if fuel = 0 then False
      else case input of
        slen_b # rest \<Rightarrow>
          (let slen = unat slen_b in
           if length rest < slen then False else valid_txt_strings (fuel - 1) (drop slen rest))
      | [] \<Rightarrow> True)"

definition valid_txt_rdata_payload :: "u16 \<Rightarrow> u8 list \<Rightarrow> bool" where
  "valid_txt_rdata_payload rdlen input =
     (let len = unat rdlen in
      if len = 0 \<or> length input < len then False else valid_txt_strings len (take len input))"

definition valid_srv_rdata_payload :: "u16 \<Rightarrow> u8 list \<Rightarrow> bool" where
  "valid_srv_rdata_payload rdlen input =
     (let len = unat rdlen in
      if len < 7 \<or> length input < len then False
      else case take len input of
        _ # _ # _ # _ # _ # _ # target \<Rightarrow> whole_name (parse_qname 128 target)
      | _ \<Rightarrow> False)"

definition valid_srv_rdata_payload_at :: "u8 list \<Rightarrow> nat \<Rightarrow> u16 \<Rightarrow> u8 list \<Rightarrow> bool" where
  "valid_srv_rdata_payload_at original rdata_offset rdlen input =
     (let len = unat rdlen in
      if len < 7 \<or> length input < len then False
      else case take len input of
        _ # _ # _ # _ # _ # _ # target \<Rightarrow> whole_name (parse_qname_compressed 128 original (rdata_offset + 6) target)
      | _ \<Rightarrow> False)"

definition valid_rdata_shape :: "qtype \<Rightarrow> u16 \<Rightarrow> u8 list \<Rightarrow> bool" where
  "valid_rdata_shape rtype rdlen input =
     (case rtype of
        OPT \<Rightarrow> valid_opt_options_payload rdlen input
      | NS \<Rightarrow> valid_name_rdata_payload rdlen input
      | CNAME \<Rightarrow> valid_name_rdata_payload rdlen input
      | PTR \<Rightarrow> valid_name_rdata_payload rdlen input
      | MX \<Rightarrow> valid_mx_rdata_payload rdlen input
      | SOA \<Rightarrow> valid_soa_rdata_payload rdlen input
      | TXT \<Rightarrow> valid_txt_rdata_payload rdlen input
      | SRV \<Rightarrow> valid_srv_rdata_payload rdlen input
      | _ \<Rightarrow> True)"

definition valid_rdata_shape_at :: "u8 list \<Rightarrow> nat \<Rightarrow> qtype \<Rightarrow> u16 \<Rightarrow> u8 list \<Rightarrow> bool" where
  "valid_rdata_shape_at original rdata_offset rtype rdlen input =
     (case rtype of
        NS \<Rightarrow> valid_name_rdata_payload_at original rdata_offset rdlen input
      | CNAME \<Rightarrow> valid_name_rdata_payload_at original rdata_offset rdlen input
      | PTR \<Rightarrow> valid_name_rdata_payload_at original rdata_offset rdlen input
      | MX \<Rightarrow> valid_mx_rdata_payload_at original rdata_offset rdlen input
      | SOA \<Rightarrow> valid_soa_rdata_payload_at original rdata_offset rdlen input
      | SRV \<Rightarrow> valid_srv_rdata_payload_at original rdata_offset rdlen input
      | _ \<Rightarrow> valid_rdata_shape rtype rdlen input)"

definition offset_from_tail :: "u8 list \<Rightarrow> u8 list \<Rightarrow> nat" where
  "offset_from_tail original tail = (if length tail \<le> length original then length original - length tail else 0)"

text \<open>The fixed fields after the owner name, shared by both record parsers; \<open>shape\<close> is the check of the
  record data.\<close>

definition parse_record_fields ::
  "bool \<Rightarrow> qname \<Rightarrow> (qtype \<Rightarrow> u16 \<Rightarrow> u8 list \<Rightarrow> bool) \<Rightarrow> u8 list \<Rightarrow> (resource_record \<times> u8 list) option" where
  "parse_record_fields additional_section name shape rest =
     (if length rest < 10 then None
      else case rest of
        rt_hi # rt_lo # rc_hi # rc_lo # ttl_0 # ttl_1 # ttl_2 # ttl_3 # rdlen_hi # rdlen_lo # rdata_input \<Rightarrow>
          (let rdlen = u16_from_be rdlen_hi rdlen_lo;
               rtype = u16_to_qtype (u16_from_be rt_hi rt_lo);
               ttl = u32_from_be ttl_0 ttl_1 ttl_2 ttl_3 in
           if valid_rr_position_and_shape additional_section name rtype ttl \<and> valid_rdata_length rtype rdlen \<and>
              shape rtype rdlen rdata_input
           then case parse_rdata_bytes rdlen rdata_input of
                  None \<Rightarrow> None
                | Some (rdata, tail) \<Rightarrow>
                    Some (\<lparr>rr_name = name, rr_rtype = rtype, rr_rclass = u16_from_be rc_hi rc_lo, rr_ttl = ttl,
                      rr_rdlen = rdlen, rr_rdata = rdata\<rparr>, tail)
           else None)
      | _ \<Rightarrow> None)"

definition parse_resource_record_bytes :: "bool \<Rightarrow> u8 list \<Rightarrow> (resource_record \<times> u8 list) option" where
  "parse_resource_record_bytes additional_section input =
     (case parse_qname 128 input of
        None \<Rightarrow> None
      | Some (name, rest) \<Rightarrow> parse_record_fields additional_section name valid_rdata_shape rest)"

definition parse_resource_record_bytes_at ::
  "u8 list \<Rightarrow> nat \<Rightarrow> bool \<Rightarrow> u8 list \<Rightarrow> (resource_record \<times> u8 list) option" where
  "parse_resource_record_bytes_at original current_offset additional_section input =
     (case parse_qname_compressed 128 original current_offset input of
        None \<Rightarrow> None
      | Some (name, rest) \<Rightarrow>
          parse_record_fields additional_section name
            (valid_rdata_shape_at original (current_offset + offset_from_tail input rest + 10)) rest)"

fun parse_resource_records_bytes ::
  "bool \<Rightarrow> nat \<Rightarrow> nat \<Rightarrow> u8 list \<Rightarrow> (resource_record list \<times> u8 list) option" where
  "parse_resource_records_bytes additional_section fuel count input =
     (if count = 0 then Some ([], input)
      else if fuel = 0 then None
      else case parse_resource_record_bytes additional_section input of
        None \<Rightarrow> None
      | Some (rr, rest) \<Rightarrow>
          (case parse_resource_records_bytes additional_section (fuel - 1) (count - 1) rest of
             None \<Rightarrow> None
           | Some (rrs, tail) \<Rightarrow> Some (rr # rrs, tail)))"

fun parse_resource_records_bytes_at ::
  "u8 list \<Rightarrow> nat \<Rightarrow> bool \<Rightarrow> nat \<Rightarrow> nat \<Rightarrow> u8 list \<Rightarrow> (resource_record list \<times> u8 list) option" where
  "parse_resource_records_bytes_at original current_offset additional_section fuel count input =
     (if count = 0 then Some ([], input)
      else if fuel = 0 then None
      else case parse_resource_record_bytes_at original current_offset additional_section input of
        None \<Rightarrow> None
      | Some (rr, rest) \<Rightarrow>
          (let consumed = (if length rest \<le> length input then length input - length rest else 0) in
           case parse_resource_records_bytes_at original (current_offset + consumed) additional_section
                  (fuel - 1) (count - 1) rest of
             None \<Rightarrow> None
           | Some (rrs, tail) \<Rightarrow> Some (rr # rrs, tail)))"

declare parse_questions_bytes.simps [simp del] valid_txt_strings.simps [simp del]
  parse_resource_records_bytes.simps [simp del] parse_resource_records_bytes_at.simps [simp del]

definition parse_dns_packet_bytes :: "u8 list \<Rightarrow> dns_packet option" where
  "parse_dns_packet_bytes input =
     (case parse_header_bytes input of
        None \<Rightarrow> None
      | Some (h, rest) \<Rightarrow>
          (let qd = unat (h_qdcount h); an = unat (h_ancount h); ns = unat (h_nscount h); ar = unat (h_arcount h) in
           case parse_questions_bytes qd qd rest of
             None \<Rightarrow> None
           | Some (qs, after_questions) \<Rightarrow>
               (let answer_offset = offset_from_tail input after_questions in
                case parse_resource_records_bytes_at input answer_offset False an an after_questions of
                  None \<Rightarrow> None
                | Some (answers, after_answers) \<Rightarrow>
                    (let authority_offset = offset_from_tail input after_answers in
                     case parse_resource_records_bytes_at input authority_offset False ns ns after_answers of
                       None \<Rightarrow> None
                     | Some (authorities, after_authorities) \<Rightarrow>
                         (let additional_offset = offset_from_tail input after_authorities in
                          case parse_resource_records_bytes_at input additional_offset True ar ar after_authorities of
                            None \<Rightarrow> None
                          | Some (additionals, tail) \<Rightarrow>
                              if length tail = 0
                              then Some \<lparr>p_header = h, p_questions = qs, p_answers = answers,
                                     p_authorities = authorities, p_additionals = additionals\<rparr>
                              else None)))))"

definition validate_dns_packet_bytes :: "u8 list \<Rightarrow> bool" where
  "validate_dns_packet_bytes input = (case parse_dns_packet_bytes input of Some _ \<Rightarrow> True | None \<Rightarrow> False)"

end
