(* ===== verification/Dns_Serializer.thy ===== *)
theory Dns_Serializer
  imports Dns_Parser
begin

text \<open>
  The serializer of \<^verbatim>\<open>src/src/protocol/DNS.Protocol.Serializer.fst\<close>. It checks its output by parsing it back; the
  theorems show when that check succeeds: exactly for the messages whose counts match, whose names,
  types and record data are well formed, and whose OPT records stand in the additional section.
\<close>

section \<open>Serializer\<close>

definition serialize_header_bytes :: "header \<Rightarrow> u8 list" where
  "serialize_header_bytes h =
     (let flags = flags_to_u16 (h_flags h) in
      [u16_hi (h_id h), u16_lo (h_id h), u16_hi flags, u16_lo flags, u16_hi (h_qdcount h), u16_lo (h_qdcount h),
       u16_hi (h_ancount h), u16_lo (h_ancount h), u16_hi (h_nscount h), u16_lo (h_nscount h),
       u16_hi (h_arcount h), u16_lo (h_arcount h)])"

definition serialize_question_bytes :: "question \<Rightarrow> u8 list option" where
  "serialize_question_bytes q =
     (case serialize_qname_uncompressed (q_qname q) of
        None \<Rightarrow> None
      | Some qname_bytes \<Rightarrow>
          (let qt = qtype_to_u16 (q_qtype q) in
           Some (qname_bytes @ [u16_hi qt, u16_lo qt, u16_hi (q_qclass q), u16_lo (q_qclass q)])))"

primrec serialize_questions_bytes :: "question list \<Rightarrow> u8 list option" where
  "serialize_questions_bytes [] = Some []"
| "serialize_questions_bytes (q # rest) =
     (case (serialize_question_bytes q, serialize_questions_bytes rest) of
        (Some qbytes, Some rest_bytes) \<Rightarrow> Some (qbytes @ rest_bytes)
      | _ \<Rightarrow> None)"

definition serializable_rdata :: "qtype \<Rightarrow> u8 list \<Rightarrow> bool" where
  "serializable_rdata rtype rdata =
     (let n = length rdata in
      if n > 65535 \<or> u16_to_qtype (qtype_to_u16 rtype) \<noteq> rtype then False
      else
        let len = of_nat n in
        valid_rdata_length rtype len \<and> valid_rdata_shape rtype len rdata)"

definition well_formed_record :: "resource_record \<Rightarrow> bool" where
  "well_formed_record rr \<longleftrightarrow>
     dns_name_length (rr_name rr) \<le> 255 \<and> unat (rr_rdlen rr) = length (rr_rdata rr) \<and>
     serializable_rdata (rr_rtype rr) (bytes_to_list (rr_rdata rr))"

definition serialize_resource_record_fields_bytes ::
  "qname \<Rightarrow> qtype \<Rightarrow> u16 \<Rightarrow> u32 \<Rightarrow> u8 list \<Rightarrow> u8 list option" where
  "serialize_resource_record_fields_bytes name rtype rclass ttl rdata =
     (let rdlen = length rdata in
      if rdlen > 65535 \<or> \<not> serializable_rdata rtype rdata then None
      else case serialize_qname_uncompressed name of
        None \<Rightarrow> None
      | Some name_bytes \<Rightarrow>
          (let rtype_wire = qtype_to_u16 rtype; rdlen_wire = of_nat rdlen in
           Some (name_bytes @ [u16_hi rtype_wire, u16_lo rtype_wire, u16_hi rclass, u16_lo rclass,
             u32_b0 ttl, u32_b1 ttl, u32_b2 ttl, u32_b3 ttl, u16_hi rdlen_wire, u16_lo rdlen_wire] @ rdata)))"

definition serialize_resource_record_bytes :: "resource_record \<Rightarrow> u8 list option" where
  "serialize_resource_record_bytes rr =
     (if unat (rr_rdlen rr) \<noteq> length (rr_rdata rr) then None
      else serialize_resource_record_fields_bytes (rr_name rr) (rr_rtype rr) (rr_rclass rr) (rr_ttl rr)
             (bytes_to_list (rr_rdata rr)))"

primrec serialize_resource_records_bytes :: "resource_record list \<Rightarrow> u8 list option" where
  "serialize_resource_records_bytes [] = Some []"
| "serialize_resource_records_bytes (r # rest) =
     (case (serialize_resource_record_bytes r, serialize_resource_records_bytes rest) of
        (Some rr_bytes, Some rest_bytes) \<Rightarrow> Some (rr_bytes @ rest_bytes)
      | _ \<Rightarrow> None)"

definition header_counts_match :: "dns_packet \<Rightarrow> bool" where
  "header_counts_match packet \<longleftrightarrow>
     unat (h_qdcount (p_header packet)) = length (p_questions packet) \<and>
     unat (h_ancount (p_header packet)) = length (p_answers packet) \<and>
     unat (h_nscount (p_header packet)) = length (p_authorities packet) \<and>
     unat (h_arcount (p_header packet)) = length (p_additionals packet)"

function bytes_equal_from :: "u8 list \<Rightarrow> u8 list \<Rightarrow> nat \<Rightarrow> bool" where
  "bytes_equal_from a b pos =
     (if pos \<ge> length a then True else a ! pos = b ! pos \<and> bytes_equal_from a b (pos + 1))"
  by auto
termination by (relation "measure (\<lambda>(a, _, pos). length a - pos)") auto

declare bytes_equal_from.simps [simp del]

definition bytes_equal :: "u8 list \<Rightarrow> u8 list \<Rightarrow> bool" where
  "bytes_equal a b = (if length a \<noteq> length b then False else bytes_equal_from a b 0)"

definition record_equal :: "resource_record \<Rightarrow> resource_record \<Rightarrow> bool" where
  "record_equal a b \<longleftrightarrow>
     rr_name a = rr_name b \<and> rr_rtype a = rr_rtype b \<and> rr_rclass a = rr_rclass b \<and> rr_ttl a = rr_ttl b \<and>
     rr_rdlen a = rr_rdlen b \<and> bytes_equal (rr_rdata a) (rr_rdata b)"

fun records_equal :: "resource_record list \<Rightarrow> resource_record list \<Rightarrow> bool" where
  "records_equal [] [] = True"
| "records_equal (x # xs) (y # ys) = (record_equal x y \<and> records_equal xs ys)"
| "records_equal _ _ = False"

definition packet_equal :: "dns_packet \<Rightarrow> dns_packet \<Rightarrow> bool" where
  "packet_equal a b \<longleftrightarrow>
     p_header a = p_header b \<and> p_questions a = p_questions b \<and> records_equal (p_answers a) (p_answers b) \<and>
     records_equal (p_authorities a) (p_authorities b) \<and> records_equal (p_additionals a) (p_additionals b)"

definition serialize_dns_packet_bytes :: "dns_packet \<Rightarrow> u8 list option" where
  "serialize_dns_packet_bytes packet =
     (if \<not> header_counts_match packet then None
      else case (serialize_questions_bytes (p_questions packet), serialize_resource_records_bytes (p_answers packet),
                 serialize_resource_records_bytes (p_authorities packet),
                 serialize_resource_records_bytes (p_additionals packet)) of
        (Some question_bytes, Some answer_bytes, Some authority_bytes, Some additional_bytes) \<Rightarrow>
          (let bytes = serialize_header_bytes (p_header packet) @ question_bytes @ answer_bytes @ authority_bytes @
                 additional_bytes in
           case parse_dns_packet_bytes bytes of
             Some parsed \<Rightarrow> if packet_equal parsed packet then Some bytes else None
           | None \<Rightarrow> None)
      | _ \<Rightarrow> None)"

definition response_flags_from_request :: "header \<Rightarrow> rcode \<Rightarrow> dns_flags" where
  "response_flags_from_request request_header rcode =
     \<lparr>fl_qr = True, fl_opcode = fl_opcode (h_flags request_header), fl_aa = False, fl_tc = False,
      fl_rd = fl_rd (h_flags request_header), fl_ra = False, fl_z = False, fl_ad = False,
      fl_cd = fl_cd (h_flags request_header), fl_rcode = rcode_to_u4 rcode\<rparr>"

definition build_minimal_response_packet :: "dns_packet \<Rightarrow> rcode \<Rightarrow> dns_packet option" where
  "build_minimal_response_packet request rcode =
     (let qd = length (p_questions request) in
      if qd > 65535 then None
      else Some \<lparr>p_header = \<lparr>h_id = h_id (p_header request), h_flags = response_flags_from_request (p_header request) rcode,
             h_qdcount = of_nat qd, h_ancount = 0, h_nscount = 0, h_arcount = 0\<rparr>,
           p_questions = p_questions request, p_answers = [], p_authorities = [], p_additionals = []\<rparr>)"

definition serialize_minimal_response_bytes :: "dns_packet \<Rightarrow> rcode \<Rightarrow> u8 list option" where
  "serialize_minimal_response_bytes request rcode =
     (case build_minimal_response_packet request rcode of
        Some response \<Rightarrow> serialize_dns_packet_bytes response
      | None \<Rightarrow> None)"

definition build_result_response_packet :: "dns_packet \<Rightarrow> dns_result \<Rightarrow> dns_packet option" where
  "build_result_response_packet request result =
     (let qd = length (p_questions request) in
      if qd > 65535 then None
      else
        let (response_rcode, response_answers) =
              (case result of Success records \<Rightarrow> (NoError, records) | Error rcode \<Rightarrow> (rcode, []));
            an = length response_answers in
        if an > 65535 then None
        else Some \<lparr>p_header = \<lparr>h_id = h_id (p_header request),
               h_flags = response_flags_from_request (p_header request) response_rcode,
               h_qdcount = of_nat qd, h_ancount = of_nat an, h_nscount = 0, h_arcount = 0\<rparr>,
             p_questions = p_questions request, p_answers = response_answers, p_authorities = [], p_additionals = []\<rparr>)"

definition serialize_result_response_bytes :: "dns_packet \<Rightarrow> dns_result \<Rightarrow> u8 list option" where
  "serialize_result_response_bytes request result =
     (case build_result_response_packet request result of
        Some response \<Rightarrow> serialize_dns_packet_bytes response
      | None \<Rightarrow> None)"

definition serialize_response_with_opt_payload ::
  "header \<Rightarrow> u16 \<Rightarrow> u8 \<Rightarrow> u8 \<Rightarrow> opt_flags \<Rightarrow> u8 list \<Rightarrow> u8 list option" where
  "serialize_response_with_opt_payload h udp_payload_size ext_rcode version flags option_payload =
     (case serialize_opt_rr_bytes_with_payload udp_payload_size ext_rcode version flags option_payload of
        Some opt_rr \<Rightarrow> Some (serialize_header_bytes h @ opt_rr)
      | None \<Rightarrow> None)"

section \<open>Fields\<close>

lemma unat_u16_lt: "unat (x :: u16) < 65536"
  using unsigned_less [of x, where ?'a = nat] by simp

lemma unat_of_nat_u16 [simp]: "n < 65536 \<Longrightarrow> unat (of_nat n :: u16) = n"
  by (simp add: unat_of_nat take_bit_eq_mod)

lemma u16_bytes [simp]: "u16_from_be (u16_hi n) (u16_lo n) = n"
proof -
  have "unat n div 256 < 256" using unat_u16_lt [of n] by simp
  then have "unat (u16_hi n) * 256 + unat (u16_lo n) = unat n" by (simp add: u16_hi_def u16_lo_def)
  then show ?thesis by (simp add: u16_from_be_def del: of_nat_add of_nat_mult)
qed

lemma base_256:
  fixes x :: nat
  assumes "x < 4294967296"
  shows "x div 16777216 mod 256 * 16777216 + (x div 65536 mod 256 * 65536 + (x div 256 mod 256 * 256 + x mod 256)) = x"
proof -
  have d: "x div 65536 = x div 256 div 256" "x div 16777216 = x div 256 div 256 div 256" by (simp_all flip: div_mult2_eq)
  have "x div 256 div 256 div 256 < 256" using assms by (simp flip: div_mult2_eq)
  then have m: "x div 256 div 256 div 256 mod 256 = x div 256 div 256 div 256" by simp
  show ?thesis
    unfolding d m
    using div_mult_mod_eq [of x 256] div_mult_mod_eq [of "x div 256" 256] div_mult_mod_eq [of "x div 256 div 256" 256]
    by linarith
qed

lemma u32_bytes [simp]: "u32_from_be (u32_b0 n) (u32_b1 n) (u32_b2 n) (u32_b3 n) = n"
proof -
  have u: "unat (of_nat (k mod 256) :: u8) = k mod 256" for k by (rule unat_of_nat_u8) simp
  show ?thesis
    unfolding u32_from_be_def u32_b0_def u32_b1_def u32_b2_def u32_b3_def u base_256 [OF unat_lt_u32 [of n]] by simp
qed

definition valid_flags :: "dns_flags \<Rightarrow> bool" where
  "valid_flags f \<longleftrightarrow> fl_opcode f \<le> 15 \<and> fl_rcode f \<le> 15"

lemma quotient: "(r :: nat) < m \<Longrightarrow> (m * q + r) div m = q"
  by simp

lemma digit_of: "raw = m * (n * k + b) + r \<Longrightarrow> r < m \<Longrightarrow> b < n \<Longrightarrow> raw div m mod n = (b :: nat)"
  by (simp add: quotient del: div_mult_self1 div_mult_self2 div_mult_self3 div_mult_self4)

lemmas digit = digit_of [where n = 2]

lemma flags_roundtrip:
  assumes "valid_flags f"
  shows "uint16_to_flags (flags_to_u16 f) = f"
proof -
  have op: "unat (fl_opcode f) < 16" and rc: "unat (fl_rcode f) < 16"
    using assms by (simp_all add: valid_flags_def word_le_nat_alt)
  define o1 where "o1 = unat (fl_opcode f)"
  define r1 where "r1 = unat (fl_rcode f)"
  define bits where "bits = (\<lambda>g. of_bool (g f) :: nat)"
  let ?raw = "32768 * bits fl_qr + 2048 * o1 + 1024 * bits fl_aa + 512 * bits fl_tc + 256 * bits fl_rd + 128 * bits fl_ra +
    64 * bits fl_z + 32 * bits fl_ad + 16 * bits fl_cd + r1"
  have b: "bits g \<le> 1" for g by (simp add: bits_def)
  have lt: "o1 < 16" "r1 < 16" using op rc by (simp_all add: o1_def r1_def)
  note B = b [of fl_qr] b [of fl_aa] b [of fl_tc] b [of fl_rd] b [of fl_ra] b [of fl_z] b [of fl_ad] b [of fl_cd] lt
  have raw: "?raw < 65536" using B by simp
  have i: "(if b then k else 0) = k * (of_bool b :: nat)" for b k by simp
  have "flags_to_u16 f = of_nat ?raw"
    unfolding flags_to_u16_def bits_def o1_def r1_def by (simp only: i mult.commute)
  then have u: "unat (flags_to_u16 f) = ?raw" using unat_of_nat_u16 [OF raw] by simp
  have "?raw div 32768 = bits fl_qr"
    using quotient [of "?raw - 32768 * bits fl_qr" 32768 "bits fl_qr"] B by simp
  moreover have "?raw div 2048 mod 16 = o1"
    by (rule digit_of [of _ _ _ "bits fl_qr" _ "1024 * bits fl_aa + 512 * bits fl_tc + 256 * bits fl_rd + 128 * bits fl_ra +
      64 * bits fl_z + 32 * bits fl_ad + 16 * bits fl_cd + r1"]) (use B in simp_all)
  moreover have "?raw mod 16 = r1"
    using digit_of [of ?raw 1 16 "2048 * bits fl_qr + 128 * o1 + 64 * bits fl_aa + 32 * bits fl_tc + 16 * bits fl_rd +
      8 * bits fl_ra + 4 * bits fl_z + 2 * bits fl_ad + bits fl_cd" r1 0] B by simp
  moreover have "?raw div 1024 mod 2 = bits fl_aa"
    by (rule digit [of _ _ "16 * bits fl_qr + o1" _ "512 * bits fl_tc + 256 * bits fl_rd + 128 * bits fl_ra +
      64 * bits fl_z + 32 * bits fl_ad + 16 * bits fl_cd + r1"]) (use B in simp_all)
  moreover have "?raw div 512 mod 2 = bits fl_tc"
    by (rule digit [of _ _ "32 * bits fl_qr + 2 * o1 + bits fl_aa" _ "256 * bits fl_rd + 128 * bits fl_ra +
      64 * bits fl_z + 32 * bits fl_ad + 16 * bits fl_cd + r1"]) (use B in simp_all)
  moreover have "?raw div 256 mod 2 = bits fl_rd"
    by (rule digit [of _ _ "64 * bits fl_qr + 4 * o1 + 2 * bits fl_aa + bits fl_tc" _ "128 * bits fl_ra +
      64 * bits fl_z + 32 * bits fl_ad + 16 * bits fl_cd + r1"]) (use B in simp_all)
  moreover have "?raw div 128 mod 2 = bits fl_ra"
    by (rule digit [of _ _ "128 * bits fl_qr + 8 * o1 + 4 * bits fl_aa + 2 * bits fl_tc + bits fl_rd" _
      "64 * bits fl_z + 32 * bits fl_ad + 16 * bits fl_cd + r1"]) (use B in simp_all)
  moreover have "?raw div 64 mod 2 = bits fl_z"
    by (rule digit [of _ _ "256 * bits fl_qr + 16 * o1 + 8 * bits fl_aa + 4 * bits fl_tc + 2 * bits fl_rd + bits fl_ra" _
      "32 * bits fl_ad + 16 * bits fl_cd + r1"]) (use B in simp_all)
  moreover have "?raw div 32 mod 2 = bits fl_ad"
    by (rule digit [of _ _ "512 * bits fl_qr + 32 * o1 + 16 * bits fl_aa + 8 * bits fl_tc + 4 * bits fl_rd + 2 * bits fl_ra +
      bits fl_z" _ "16 * bits fl_cd + r1"]) (use B in simp_all)
  moreover have "?raw div 16 mod 2 = bits fl_cd"
    by (rule digit [of _ _ "1024 * bits fl_qr + 64 * o1 + 32 * bits fl_aa + 16 * bits fl_tc + 8 * bits fl_rd + 4 * bits fl_ra +
      2 * bits fl_z + bits fl_ad" _ r1]) (use B in simp_all)
  ultimately have d: "?raw div 32768 = bits fl_qr" "?raw div 2048 mod 16 = o1" "?raw div 1024 mod 2 = bits fl_aa"
    "?raw div 512 mod 2 = bits fl_tc" "?raw div 256 mod 2 = bits fl_rd" "?raw div 128 mod 2 = bits fl_ra"
    "?raw div 64 mod 2 = bits fl_z" "?raw div 32 mod 2 = bits fl_ad" "?raw div 16 mod 2 = bits fl_cd" "?raw mod 16 = r1"
    by blast+
  have "of_nat o1 = fl_opcode f" "of_nat r1 = fl_rcode f" by (simp_all add: o1_def r1_def)
  then show ?thesis
    unfolding uint16_to_flags_def Let_def u d by (simp add: bits_def)
qed

lemma bytes_to_list [simp]: "bytes_to_list b = b"
proof -
  have "offset + fuel \<le> length b \<Longrightarrow> bytes_to_list_from fuel offset b = take fuel (drop offset b)" for fuel offset
    by (induction fuel arbitrary: offset) (auto simp: Cons_nth_drop_Suc [symmetric])
  from this [of 0 "length b"] show ?thesis by (simp add: bytes_to_list_def)
qed

lemma bytes_equal_iff [simp]: "bytes_equal a b \<longleftrightarrow> a = b"
proof -
  have "bytes_equal_from a b pos \<longleftrightarrow> (\<forall>i. pos \<le> i \<and> i < length a \<longrightarrow> a ! i = b ! i)" for pos
  proof (induction a b pos rule: bytes_equal_from.induct)
    case (1 a b pos)
    have split: "pos \<le> i \<longleftrightarrow> i = pos \<or> pos + 1 \<le> i" for i by auto
    show ?case
      using 1 by (subst bytes_equal_from.simps) (simp only: split, auto)
  qed
  then show ?thesis by (auto simp: bytes_equal_def list_eq_iff_nth_eq)
qed

lemma record_equal_iff [simp]: "record_equal a b \<longleftrightarrow> a = b"
  by (auto simp: record_equal_def)

lemma records_equal_iff [simp]: "records_equal a b \<longleftrightarrow> a = b"
  by (induction a b rule: records_equal.induct) auto

lemma packet_equal_iff [simp]: "packet_equal a b \<longleftrightarrow> a = b"
  by (auto simp: packet_equal_def)

section \<open>Round trips of the parts\<close>

lemma header_roundtrip:
  assumes "valid_flags (h_flags h)"
  shows "parse_header_bytes (serialize_header_bytes h @ rest) = Some (h, rest)"
  by (simp add: parse_header_bytes_def serialize_header_bytes_def Let_def raw_header_to_header_def flags_roundtrip [OF assms])

text \<open>A type in normal form: \<open>UNKNOWN\<close> stands only for codes without a name.\<close>

definition normal_qtype :: "qtype \<Rightarrow> bool" where
  "normal_qtype t \<longleftrightarrow> u16_to_qtype (qtype_to_u16 t) = t"

lemma qtype_code [simp]: "qtype_to_u16 (u16_to_qtype n) = n"
  by (simp add: u16_to_qtype_def)

lemma normal_parsed [simp]: "normal_qtype (u16_to_qtype n)"
  by (simp add: normal_qtype_def)

definition valid_question :: "question \<Rightarrow> bool" where
  "valid_question q \<longleftrightarrow> valid_name (q_qname q) \<and> dns_name_length (q_qname q) \<le> 255 \<and> normal_qtype (q_qtype q)"

lemma question_roundtrip:
  assumes "valid_question q" and "serialize_question_bytes q = Some bs"
  shows "parse_question_bytes (bs @ rest) = Some (q, rest)"
proof -
  let ?t = "qtype_to_u16 (q_qtype q)"
  have "bs = serialize_qname_labels (q_qname q) @ [u16_hi ?t, u16_lo ?t, u16_hi (q_qclass q), u16_lo (q_qclass q)]"
    using assms by (auto simp: serialize_question_bytes_def serialize_qname_uncompressed_def valid_question_def Let_def split: if_splits)
  moreover have "parse_qname 128 (serialize_qname_labels (q_qname q) @ rest') = Some (q_qname q, rest')" for rest'
    using assms(1) by (subst parse_qname_iff) (simp_all add: valid_question_def)
  ultimately show ?thesis using assms(1) by (simp add: parse_question_bytes_def valid_question_def normal_qtype_def)
qed

lemma parsed_question_valid: "parse_question_bytes input = Some (q, rest) \<Longrightarrow> valid_question q"
  by (auto simp: parse_question_bytes_def valid_question_def parse_qname_iff split: option.splits list.splits)

lemma questions_roundtrip:
  "list_all valid_question qs \<Longrightarrow> serialize_questions_bytes qs = Some bs \<Longrightarrow> length qs \<le> fuel \<Longrightarrow>
     parse_questions_bytes fuel (length qs) (bs @ rest) = Some (qs, rest)"
proof (induction qs arbitrary: bs fuel)
  case Nil
  then show ?case by (simp add: parse_questions_bytes.simps [of fuel])
next
  case (Cons q qs)
  then obtain b1 b2 where b: "serialize_question_bytes q = Some b1" "serialize_questions_bytes qs = Some b2" "bs = b1 @ b2"
    by (auto split: option.splits)
  have "parse_questions_bytes (fuel - 1) (length qs) (b2 @ rest) = Some (qs, rest)"
    using Cons.prems b(2) by (intro Cons.IH) simp_all
  then show ?case
    using Cons.prems question_roundtrip [OF _ b(1)] by (simp add: parse_questions_bytes.simps [of fuel] b(3))
qed

lemma parsed_questions_valid:
  "parse_questions_bytes fuel count input = Some (qs, rest) \<Longrightarrow> list_all valid_question qs \<and> length qs = count"
proof (induction fuel count "input" arbitrary: qs rule: parse_questions_bytes.induct)
  case (1 fuel count "input")
  show ?case
  proof (cases "count = 0")
    case True
    then show ?thesis using 1(2) by (simp add: parse_questions_bytes.simps [of fuel])
  next
    case False
    note parsed = 1(2) [unfolded parse_questions_bytes.simps [of fuel]]
    then have fuel: "fuel \<noteq> 0" using False by (auto split: if_splits)
    obtain q mid qs' where q: "parse_question_bytes input = Some (q, mid)"
      and qs': "parse_questions_bytes (fuel - 1) (count - 1) mid = Some (qs', rest)" and "qs = q # qs'"
      using parsed False fuel by (auto split: option.splits)
    with 1(1) [OF False fuel q refl qs'] parsed_question_valid [OF q] False show ?thesis by auto
  qed
qed

lemma serialize_questions_Some:
  "list_all valid_question qs \<Longrightarrow> \<exists>bs. serialize_questions_bytes qs = Some bs"
  by (induction qs) (auto simp: serialize_question_bytes_def serialize_qname_uncompressed_def valid_question_def Let_def)

lemma serialize_questions_None:
  "serialize_questions_bytes qs = Some bs \<Longrightarrow> list_all (\<lambda>q. dns_name_length (q_qname q) \<le> 255) qs"
  by (induction qs arbitrary: bs)
    (auto simp: serialize_question_bytes_def serialize_qname_uncompressed_def split: option.splits if_splits)

subsection \<open>Records\<close>

lemma whole_name_extends: "whole_name (parse_qname 128 x) \<Longrightarrow> whole_name (parse_qname_compressed 128 original off x)"
  by (auto simp: whole_name_def compressed_extends split: option.splits)

lemma soa_extends:
  assumes "parse_qname 128 payload = Some (m, after_m)" and "valid_soa_rdata_after_mname after_m"
  shows "case parse_qname_compressed 128 original off after_m of Some (_, timers) \<Rightarrow> length timers = 20 | None \<Rightarrow> False"
  using assms(2) by (auto simp: valid_soa_rdata_after_mname_def compressed_extends split: option.splits)

text \<open>Data that is valid on its own is valid in any message, whatever follows it.\<close>

lemma shape_extends:
  assumes "unat len = length rdata" and "valid_rdata_shape t len rdata"
  shows "valid_rdata_shape_at original off t len (rdata @ rest)"
proof -
  have soa: "valid_soa_rdata_payload_at original off len (rdata @ rest)" if v: "valid_soa_rdata_payload len rdata"
  proof -
    obtain m after_m where p: "parse_qname 128 rdata = Some (m, after_m)" "valid_soa_rdata_after_mname after_m"
      using v assms(1) by (auto simp: valid_soa_rdata_payload_def Let_def split: if_splits option.splits)
    show ?thesis
      using v assms(1) soa_extends [OF p]
      by (simp add: valid_soa_rdata_payload_at_def valid_soa_rdata_payload_def Let_def compressed_extends [OF p(1)] split: if_splits)
  qed
  have mx: "valid_mx_rdata_payload_at original off len (rdata @ rest)" if "valid_mx_rdata_payload len rdata"
    using that assms(1) whole_name_extends
    by (auto simp: valid_mx_rdata_payload_at_def valid_mx_rdata_payload_def Let_def split: if_splits list.splits)
  have srv: "valid_srv_rdata_payload_at original off len (rdata @ rest)" if "valid_srv_rdata_payload len rdata"
    using that assms(1) whole_name_extends
    by (auto simp: valid_srv_rdata_payload_at_def valid_srv_rdata_payload_def Let_def split: if_splits list.splits)
  have name: "valid_name_rdata_payload_at original off len (rdata @ rest)" if "valid_name_rdata_payload len rdata"
    using that assms(1) whole_name_extends
    by (auto simp: valid_name_rdata_payload_at_def valid_name_rdata_payload_def Let_def split: if_splits)
  have same: "valid_opt_options_payload len (rdata @ rest) = valid_opt_options_payload len rdata"
      "valid_txt_rdata_payload len (rdata @ rest) = valid_txt_rdata_payload len rdata"
    using assms(1) by (simp_all add: valid_opt_options_payload_def valid_txt_rdata_payload_def Let_def)
  show ?thesis
    using assms(2) soa mx srv name same by (cases t) (simp_all add: valid_rdata_shape_at_def valid_rdata_shape_def)
qed

definition record_ok :: "bool \<Rightarrow> resource_record \<Rightarrow> bool" where
  "record_ok additional rr \<longleftrightarrow> valid_name (rr_name rr) \<and> well_formed_record rr \<and>
     valid_rr_position_and_shape additional (rr_name rr) (rr_rtype rr) (rr_ttl rr)"

lemma serialize_record_iff: "serialize_resource_record_bytes rr \<noteq> None \<longleftrightarrow> well_formed_record rr"
  by (auto simp: serialize_resource_record_bytes_def serialize_resource_record_fields_bytes_def well_formed_record_def
      serializable_rdata_def serialize_qname_uncompressed_def Let_def split: option.splits if_splits)

lemma record_roundtrip:
  assumes ok: "record_ok additional rr" and ser: "serialize_resource_record_bytes rr = Some bs"
  shows "parse_resource_record_bytes_at original off additional (bs @ rest) = Some (rr, rest)"
proof -
  have wf: "dns_name_length (rr_name rr) \<le> 255" "unat (rr_rdlen rr) = length (rr_rdata rr)"
      "serializable_rdata (rr_rtype rr) (rr_rdata rr)" and vn: "valid_name (rr_name rr)"
    and pos: "valid_rr_position_and_shape additional (rr_name rr) (rr_rtype rr) (rr_ttl rr)"
    using ok by (simp_all add: record_ok_def well_formed_record_def)
  have len: "of_nat (length (rr_rdata rr)) = rr_rdlen rr" using arg_cong [OF wf(2), of "of_nat :: _ \<Rightarrow> u16"] by simp
  let ?t = "qtype_to_u16 (rr_rtype rr)"
  let ?fields = "[u16_hi ?t, u16_lo ?t, u16_hi (rr_rclass rr), u16_lo (rr_rclass rr), u32_b0 (rr_ttl rr), u32_b1 (rr_ttl rr),
    u32_b2 (rr_ttl rr), u32_b3 (rr_ttl rr), u16_hi (rr_rdlen rr), u16_lo (rr_rdlen rr)]"
  have bs: "bs = serialize_qname_labels (rr_name rr) @ ?fields @ rr_rdata rr"
    using ser wf len by (auto simp: serialize_resource_record_bytes_def serialize_resource_record_fields_bytes_def
        serialize_qname_uncompressed_def Let_def split: if_splits)
  have name: "parse_qname_compressed 128 original off (bs @ rest) = Some (rr_name rr, ?fields @ rr_rdata rr @ rest)"
    using wf(1) vn by (intro compressed_extends) (simp add: parse_qname_iff bs)
  have tys: "u16_to_qtype ?t = rr_rtype rr" "valid_rdata_length (rr_rtype rr) (rr_rdlen rr)"
      "valid_rdata_shape (rr_rtype rr) (rr_rdlen rr) (rr_rdata rr)"
    using wf(3) len by (auto simp: serializable_rdata_def Let_def split: if_splits)
  have data: "parse_rdata_bytes (rr_rdlen rr) (rr_rdata rr @ rest) = Some (rr_rdata rr, rest)"
    using wf(2) by (auto simp: parse_rdata_bytes_def Let_def)
  show ?thesis
    using pos tys shape_extends [OF wf(2) tys(3)]
    by (simp add: parse_resource_record_bytes_at_def name parse_record_fields_def data)
qed

lemma records_roundtrip:
  "list_all (record_ok additional) rs \<Longrightarrow> serialize_resource_records_bytes rs = Some bs \<Longrightarrow> length rs \<le> fuel \<Longrightarrow>
     parse_resource_records_bytes_at original off additional fuel (length rs) (bs @ rest) = Some (rs, rest)"
proof (induction rs arbitrary: bs fuel off)
  case Nil
  then show ?case by (simp add: parse_resource_records_bytes_at.simps [of _ _ _ fuel])
next
  case (Cons r rs)
  then obtain b1 b2 where b: "serialize_resource_record_bytes r = Some b1" "serialize_resource_records_bytes rs = Some b2" "bs = b1 @ b2"
    by (auto split: option.splits)
  have "parse_resource_records_bytes_at original off' additional (fuel - 1) (length rs) (b2 @ rest) = Some (rs, rest)" for off'
    using Cons.prems b(2) by (intro Cons.IH) simp_all
  then show ?case
    using Cons.prems record_roundtrip [OF _ b(1)]
    by (simp add: parse_resource_records_bytes_at.simps [of _ _ _ fuel] b(3))
qed

lemma serialize_records_iff: "serialize_resource_records_bytes rs \<noteq> None \<longleftrightarrow> list_all well_formed_record rs"
proof (induction rs)
  case (Cons r rs)
  with serialize_record_iff [of r] show ?case by (auto split: option.splits)
qed simp

section \<open>Whole messages\<close>

definition packet_ok :: "dns_packet \<Rightarrow> bool" where
  "packet_ok p \<longleftrightarrow> header_counts_match p \<and> valid_flags (h_flags (p_header p)) \<and> list_all valid_question (p_questions p) \<and>
     list_all (record_ok False) (p_answers p) \<and> list_all (record_ok False) (p_authorities p) \<and>
     list_all (record_ok True) (p_additionals p)"

definition packet_bytes :: "dns_packet \<Rightarrow> u8 list \<Rightarrow> bool" where
  "packet_bytes p bs \<longleftrightarrow> (\<exists>qs an ns ar. serialize_questions_bytes (p_questions p) = Some qs \<and>
     serialize_resource_records_bytes (p_answers p) = Some an \<and> serialize_resource_records_bytes (p_authorities p) = Some ns \<and>
     serialize_resource_records_bytes (p_additionals p) = Some ar \<and>
     bs = serialize_header_bytes (p_header p) @ qs @ an @ ns @ ar)"

lemma packet_roundtrip:
  assumes ok: "packet_ok p" and bs: "packet_bytes p bs"
  shows "parse_dns_packet_bytes bs = Some p"
proof -
  obtain qs an ns ar where s: "serialize_questions_bytes (p_questions p) = Some qs"
      "serialize_resource_records_bytes (p_answers p) = Some an" "serialize_resource_records_bytes (p_authorities p) = Some ns"
      "serialize_resource_records_bytes (p_additionals p) = Some ar" and b: "bs = serialize_header_bytes (p_header p) @ qs @ an @ ns @ ar"
    using bs by (auto simp: packet_bytes_def)
  have counts: "unat (h_qdcount (p_header p)) = length (p_questions p)" "unat (h_ancount (p_header p)) = length (p_answers p)"
      "unat (h_nscount (p_header p)) = length (p_authorities p)" "unat (h_arcount (p_header p)) = length (p_additionals p)"
    using ok by (simp_all add: packet_ok_def header_counts_match_def)
  have q: "parse_questions_bytes (length (p_questions p)) (length (p_questions p)) (qs @ rest) = Some (p_questions p, rest)" for rest
    using ok s(1) by (intro questions_roundtrip) (simp_all add: packet_ok_def)
  have r: "parse_resource_records_bytes_at bs off False (length (p_answers p)) (length (p_answers p)) (an @ rest) = Some (p_answers p, rest)"
      "parse_resource_records_bytes_at bs off False (length (p_authorities p)) (length (p_authorities p)) (ns @ rest) = Some (p_authorities p, rest)"
      "parse_resource_records_bytes_at bs off True (length (p_additionals p)) (length (p_additionals p)) (ar @ rest) = Some (p_additionals p, rest)"
    for off rest using ok s(2-4) by (auto simp: packet_ok_def intro!: records_roundtrip)
  have h: "parse_header_bytes bs = Some (p_header p, qs @ an @ ns @ ar)"
    using ok by (simp add: b header_roundtrip packet_ok_def)
  show ?thesis
    using r(3) [of _ "[]"] by (simp add: parse_dns_packet_bytes_def h counts q r(1,2))
qed

lemma parsed_flags_valid: "parse_header_bytes bs = Some (h, rest) \<Longrightarrow> valid_flags (h_flags h)"
proof -
  have "of_nat (k mod 16) \<le> (15 :: u16)" for k
  proof -
    have "unat (of_nat (k mod 16) :: u16) = k mod 16" by (rule unat_of_nat_u16) (rule less_le_trans [OF mod_less_divisor]; simp)
    then show ?thesis by (simp add: word_le_nat_alt less_Suc_eq_le [symmetric])
  qed
  then show "parse_header_bytes bs = Some (h, rest) \<Longrightarrow> ?thesis"
    by (auto simp: parse_header_bytes_def raw_header_to_header_def uint16_to_flags_def valid_flags_def Let_def
        split: if_splits list.splits)
qed

lemma parsed_record_position:
  assumes "parse_resource_record_bytes_at original off additional input = Some (rr, rest)"
  shows "valid_name (rr_name rr)" and "valid_rr_position_and_shape additional (rr_name rr) (rr_rtype rr) (rr_ttl rr)"
proof -
  obtain name mid where n: "parse_qname_compressed 128 original off input = Some (name, mid)"
    and f: "parse_record_fields additional name (valid_rdata_shape_at original (off + offset_from_tail input mid + 10)) mid = Some (rr, rest)"
    using assms by (auto simp: parse_resource_record_bytes_at_def split: option.splits)
  have "rr_name rr = name" "valid_rr_position_and_shape additional (rr_name rr) (rr_rtype rr) (rr_ttl rr)"
    using f by (auto simp: parse_record_fields_def Let_def split: if_splits list.splits option.splits)
  with n show "valid_name (rr_name rr)" "valid_rr_position_and_shape additional (rr_name rr) (rr_rtype rr) (rr_ttl rr)"
    using compressed_sound [OF n [unfolded parse_qname_compressed_def]] name_at_valid by blast+
qed

lemma parsed_records_position:
  "parse_resource_records_bytes_at original off additional fuel count input = Some (rs, rest) \<Longrightarrow> length rs = count \<and>
     list_all (\<lambda>r. valid_name (rr_name r) \<and> valid_rr_position_and_shape additional (rr_name r) (rr_rtype r) (rr_ttl r)) rs"
proof (induction original off additional fuel count "input" arbitrary: rs rule: parse_resource_records_bytes_at.induct)
  case (1 original off additional fuel count "input")
  show ?case
  proof (cases "count = 0")
    case True
    then show ?thesis using 1(2) by (simp add: parse_resource_records_bytes_at.simps [of _ _ _ fuel])
  next
    case False
    note parsed = 1(2) [unfolded parse_resource_records_bytes_at.simps [of _ _ _ fuel]]
    then have fuel: "fuel \<noteq> 0" using False by (auto split: if_splits)
    obtain r mid rs' where r: "parse_resource_record_bytes_at original off additional input = Some (r, mid)"
      and rs': "parse_resource_records_bytes_at original
        (off + (if length mid \<le> length input then length input - length mid else 0)) additional (fuel - 1) (count - 1) mid = Some (rs', rest)"
      and "rs = r # rs'"
      using parsed False fuel by (auto simp: Let_def split: option.splits)
    with 1(1) [OF False fuel r refl refl rs'] parsed_record_position [OF r] False show ?thesis by auto
  qed
qed

text \<open>What a successful parse says of the message.\<close>

lemma parsed_packet:
  assumes "parse_dns_packet_bytes bs = Some p"
  shows "header_counts_match p" and "valid_flags (h_flags (p_header p))" and "list_all valid_question (p_questions p)"
    and "list_all (\<lambda>r. valid_name (rr_name r) \<and> valid_rr_position_and_shape False (rr_name r) (rr_rtype r) (rr_ttl r)) (p_answers p @ p_authorities p)"
    and "list_all (\<lambda>r. valid_name (rr_name r) \<and> valid_rr_position_and_shape True (rr_name r) (rr_rtype r) (rr_ttl r)) (p_additionals p)"
proof -
  obtain h rest qs mid1 an mid2 ns mid3 ar tail where
    h: "parse_header_bytes bs = Some (h, rest)" and
    q: "parse_questions_bytes (unat (h_qdcount h)) (unat (h_qdcount h)) rest = Some (qs, mid1)" and
    a: "parse_resource_records_bytes_at bs (offset_from_tail bs mid1) False (unat (h_ancount h)) (unat (h_ancount h)) mid1 = Some (an, mid2)" and
    n: "parse_resource_records_bytes_at bs (offset_from_tail bs mid2) False (unat (h_nscount h)) (unat (h_nscount h)) mid2 = Some (ns, mid3)" and
    r: "parse_resource_records_bytes_at bs (offset_from_tail bs mid3) True (unat (h_arcount h)) (unat (h_arcount h)) mid3 = Some (ar, tail)" and
    p: "p = \<lparr>p_header = h, p_questions = qs, p_answers = an, p_authorities = ns, p_additionals = ar\<rparr>"
    using assms by (auto simp: parse_dns_packet_bytes_def Let_def split: option.splits if_splits)
  note facts = parsed_questions_valid [OF q] parsed_records_position [OF a] parsed_records_position [OF n] parsed_records_position [OF r]
  show "header_counts_match p" "list_all valid_question (p_questions p)"
    "list_all (\<lambda>r. valid_name (rr_name r) \<and> valid_rr_position_and_shape False (rr_name r) (rr_rtype r) (rr_ttl r)) (p_answers p @ p_authorities p)"
    "list_all (\<lambda>r. valid_name (rr_name r) \<and> valid_rr_position_and_shape True (rr_name r) (rr_rtype r) (rr_ttl r)) (p_additionals p)"
    using facts by (simp_all add: p header_counts_match_def)
  show "valid_flags (h_flags (p_header p))" using parsed_flags_valid [OF h] by (simp add: p)
qed

text \<open>The serializer succeeds exactly on the well-formed messages, and its result parses to its argument.\<close>

theorem serialize_packet_iff:
  "serialize_dns_packet_bytes p = Some bs \<longleftrightarrow> packet_ok p \<and> packet_bytes p bs"
proof
  assume ser: "serialize_dns_packet_bytes p = Some bs"
  then have b: "packet_bytes p bs" and parsed: "parse_dns_packet_bytes bs = Some p"
    by (auto simp: serialize_dns_packet_bytes_def packet_bytes_def Let_def split: if_splits option.splits)
  have "list_all well_formed_record (p_answers p)" "list_all well_formed_record (p_authorities p)"
      "list_all well_formed_record (p_additionals p)"
    using b serialize_records_iff by (metis option.simps(3) packet_bytes_def)+
  with parsed_packet [OF parsed] b show "packet_ok p \<and> packet_bytes p bs"
    by (auto simp: packet_ok_def record_ok_def list_all_iff)
next
  assume "packet_ok p \<and> packet_bytes p bs"
  moreover from this have "parse_dns_packet_bytes bs = Some p" by (simp add: packet_roundtrip)
  ultimately show "serialize_dns_packet_bytes p = Some bs"
    by (auto simp: serialize_dns_packet_bytes_def packet_ok_def packet_bytes_def)
qed

lemma packet_ok_bytes: "packet_ok p \<Longrightarrow> \<exists>bs. packet_bytes p bs"
  using serialize_questions_Some [of "p_questions p"] serialize_records_iff [of "p_answers p"]
    serialize_records_iff [of "p_authorities p"] serialize_records_iff [of "p_additionals p"]
  by (auto simp: packet_ok_def packet_bytes_def record_ok_def list_all_iff)

lemma serialize_ok: "packet_ok p \<Longrightarrow> \<exists>bs. serialize_dns_packet_bytes p = Some bs \<and> parse_dns_packet_bytes bs = Some p"
  using packet_ok_bytes serialize_packet_iff packet_roundtrip by blast

end
