(* ===== verification/Dns_Zone.thy ===== *)
theory Dns_Zone
  imports Dns_Serializer
begin

text \<open>
  The authoritative zone: the label tree with wildcards and the CNAME chase of
  \<^verbatim>\<open>src/src/logic/DNS.Zone.RadixTree.fst\<close>, and the zone entries of \<^verbatim>\<open>src/src/logic/DNS.Zone.Parser.fst\<close>. Lookup
  ignores letter case, an exact match wins over a wildcard, the chase follows the chain of CNAME
  records of the zone for at most its hop count, and a loop ends in a server failure.
\<close>

section \<open>The tree\<close>

definition wildcard_label :: label where "wildcard_label = [0x2a]"

datatype cname_lookup = NoCname | CnameTarget qname | MalformedCname

datatype tree_node = TreeNode (tn_label: label) (tn_records: "resource_record list") (tn_children: "tree_node list")

primrec find_child :: "tree_node list \<Rightarrow> label \<Rightarrow> tree_node option" where
  "find_child [] l = None"
| "find_child (n # rest) l = (if label_eq (tn_label n) l then Some n else find_child rest l)"

fun lookup_exact :: "tree_node \<Rightarrow> qname \<Rightarrow> resource_record list option" where
  "lookup_exact root [] = Some (tn_records root)"
| "lookup_exact root (l # rest) =
     (case find_child (tn_children root) l of Some child \<Rightarrow> lookup_exact child rest | None \<Rightarrow> None)"

fun lookup_with_wildcard :: "tree_node \<Rightarrow> qname \<Rightarrow> resource_record list option" where
  "lookup_with_wildcard root [] = Some (tn_records root)"
| "lookup_with_wildcard root (l # rest) =
     (case find_child (tn_children root) l of
        Some child \<Rightarrow> lookup_with_wildcard child rest
      | None \<Rightarrow>
          (case find_child (tn_children root) wildcard_label of
             Some wildcard \<Rightarrow> lookup_with_wildcard wildcard rest
           | None \<Rightarrow> None))"

definition lookup_dns_name :: "tree_node \<Rightarrow> qname \<Rightarrow> resource_record list option" where
  "lookup_dns_name root name = (case name_to_tree_key name of TreeKey labels \<Rightarrow> lookup_with_wildcard root labels)"

section \<open>CNAME records\<close>

definition parse_cname_target_bytes :: "u8 list \<Rightarrow> qname option" where
  "parse_cname_target_bytes input = (case parse_qname 128 input of Some (target, []) \<Rightarrow> Some target | _ \<Rightarrow> None)"

definition parse_cname_target :: "resource_record \<Rightarrow> qname option" where
  "parse_cname_target rr = parse_cname_target_bytes (bytes_to_list (rr_rdata rr))"

primrec find_cname_target :: "resource_record list \<Rightarrow> cname_lookup" where
  "find_cname_target [] = NoCname"
| "find_cname_target (rr # rest) =
     (case rr_rtype rr of
        CNAME \<Rightarrow> (case parse_cname_target rr of Some target \<Rightarrow> CnameTarget target | None \<Rightarrow> MalformedCname)
      | _ \<Rightarrow> find_cname_target rest)"

fun chase_cname :: "tree_node \<Rightarrow> qname \<Rightarrow> nat \<Rightarrow> dns_result" where
  "chase_cname root target hops =
     (if hops = 0 then Error ServFail
      else case lookup_dns_name root target of
        Some rrs \<Rightarrow>
          (case find_cname_target rrs of
             NoCname \<Rightarrow> Success rrs
           | CnameTarget next_target \<Rightarrow> chase_cname root next_target (hops - 1)
           | MalformedCname \<Rightarrow> Error ServFail)
      | None \<Rightarrow> Error NXDomain)"

declare chase_cname.simps [simp del]

section \<open>Answers\<close>

definition rr_matches_question :: "question \<Rightarrow> resource_record \<Rightarrow> bool" where
  "rr_matches_question q rr \<longleftrightarrow> rr_rtype rr = q_qtype q \<and> rr_rclass rr = q_qclass q"

primrec filter_question_records :: "question \<Rightarrow> resource_record list \<Rightarrow> resource_record list" where
  "filter_question_records q [] = []"
| "filter_question_records q (rr # rest) =
     (let filtered_rest = filter_question_records q rest in
      if rr_matches_question q rr then rr # filtered_rest else filtered_rest)"

definition resolve_authoritative_question :: "tree_node \<Rightarrow> question \<Rightarrow> dns_result" where
  "resolve_authoritative_question root q =
     (case chase_cname root (q_qname q) 15 of
        Success records \<Rightarrow> Success (filter_question_records q records)
      | Error rcode \<Rightarrow> Error rcode)"

definition resolve_authoritative_request :: "tree_node \<Rightarrow> dns_packet \<Rightarrow> dns_result" where
  "resolve_authoritative_request root request =
     (case p_questions request of
        [] \<Rightarrow> Error FormErr
      | q # _ \<Rightarrow> resolve_authoritative_question root q)"

definition build_authoritative_response_packet :: "tree_node \<Rightarrow> dns_packet \<Rightarrow> dns_packet option" where
  "build_authoritative_response_packet root request =
     build_result_response_packet request (resolve_authoritative_request root request)"

section \<open>The zone of the worker\<close>

definition label_www :: label where "label_www = [0x77, 0x77, 0x77]"
definition label_api :: label where "label_api = [0x61, 0x70, 0x69]"
definition label_example :: label where "label_example = [0x65, 0x78, 0x61, 0x6d, 0x70, 0x6c, 0x65]"
definition label_com :: label where "label_com = [0x63, 0x6f, 0x6d]"

definition loopback_a_rdata :: "u8 list" where "loopback_a_rdata = [127, 0, 0, 1]"

definition exact_record :: resource_record where
  "exact_record = \<lparr>rr_name = [label_www, label_example, label_com], rr_rtype = A, rr_rclass = 1, rr_ttl = 60,
     rr_rdlen = 4, rr_rdata = loopback_a_rdata\<rparr>"

definition wildcard_record :: resource_record where
  "wildcard_record = \<lparr>rr_name = [wildcard_label, label_example, label_com], rr_rtype = A, rr_rclass = 1, rr_ttl = 60,
     rr_rdlen = 4, rr_rdata = loopback_a_rdata\<rparr>"

definition exact_leaf :: tree_node where "exact_leaf = TreeNode label_www [exact_record] []"
definition wildcard_leaf :: tree_node where "wildcard_leaf = TreeNode wildcard_label [wildcard_record] []"

definition example_node_with_wildcard :: tree_node where
  "example_node_with_wildcard = TreeNode label_example [] [exact_leaf, wildcard_leaf]"

definition com_node_with_wildcard :: tree_node where
  "com_node_with_wildcard = TreeNode label_com [] [example_node_with_wildcard]"

definition wildcard_test_root :: tree_node where
  "wildcard_test_root = TreeNode wildcard_label [] [com_node_with_wildcard]"

lemmas zone_defs = label_www_def label_api_def label_example_def label_com_def wildcard_label_def loopback_a_rdata_def
  exact_record_def wildcard_record_def exact_leaf_def wildcard_leaf_def example_node_with_wildcard_def
  com_node_with_wildcard_def wildcard_test_root_def

section \<open>Zone entries\<close>

record zone_entry =
  ze_origin :: qname
  ze_ttl :: u32
  ze_class :: u16
  ze_rtype :: qtype
  ze_rdata :: "u8 list"

definition validate_zone_entry :: "zone_entry \<Rightarrow> bool" where
  "validate_zone_entry e =
     (case ze_rtype e of A \<Rightarrow> length (ze_rdata e) = 4 | AAAA \<Rightarrow> length (ze_rdata e) = 16 | _ \<Rightarrow> True)"

definition valid_zone_rdata_length :: "qtype \<Rightarrow> u16 \<Rightarrow> bool" where
  "valid_zone_rdata_length rtype rdlen = (case rtype of A \<Rightarrow> rdlen = 4 | AAAA \<Rightarrow> rdlen = 16 | _ \<Rightarrow> True)"

definition bytes_of_list :: "u8 list \<Rightarrow> u8 list" where
  "bytes_of_list input = (if length input \<le> 4294967295 then input else [])"

definition parse_zone_entry_bytes :: "u8 list \<Rightarrow> zone_entry option" where
  "parse_zone_entry_bytes input =
     (case parse_qname 128 input of
        None \<Rightarrow> None
      | Some (origin, rest) \<Rightarrow>
          if length rest < 10 then None
          else case rest of
            ttl_0 # ttl_1 # ttl_2 # ttl_3 # class_hi # class_lo # type_hi # type_lo # rdlen_hi # rdlen_lo # rdata_input \<Rightarrow>
              (let rdlen = u16_from_be rdlen_hi rdlen_lo;
                   rtype = u16_to_qtype (u16_from_be type_hi type_lo);
                   len = unat rdlen in
               if length rdata_input \<noteq> len then None
               else if \<not> valid_zone_rdata_length rtype rdlen then None
               else Some \<lparr>ze_origin = origin, ze_ttl = u32_from_be ttl_0 ttl_1 ttl_2 ttl_3,
                      ze_class = u16_from_be class_hi class_lo, ze_rtype = rtype, ze_rdata = bytes_of_list rdata_input\<rparr>)
          | _ \<Rightarrow> None)"

definition parse_zone_file :: "u8 list \<Rightarrow> zone_entry list option" where
  "parse_zone_file input =
     (case parse_zone_entry_bytes (bytes_to_list input) of Some entry \<Rightarrow> Some [entry] | None \<Rightarrow> None)"

section \<open>Lookup\<close>

lemma canonical_name_map: "canonical_name name = map canonical_label name"
  by (induction name) simp_all

lemma qname_eq_rev: "qname_eq a b \<Longrightarrow> qname_eq (rev a) (rev b)"
  by (simp add: qname_eq_def canonical_name_map flip: rev_map)

lemma find_child_eq: "label_eq l l' \<Longrightarrow> find_child children l = find_child children l'"
  by (induction children) (simp_all add: label_eq_def)

lemma lookup_with_wildcard_eq: "qname_eq a b \<Longrightarrow> lookup_with_wildcard root a = lookup_with_wildcard root b"
proof (induction a arbitrary: b root)
  case Nil
  then show ?case by (cases b) (simp_all add: qname_eq_def)
next
  case (Cons l a)
  then obtain l' b' where b: "b = l' # b'" "label_eq l l'" "qname_eq a b'"
    by (cases b) (auto simp: qname_eq_def label_eq_def)
  then show ?case using Cons.IH [OF b(3)] find_child_eq [OF b(2)] by (simp split: option.split)
qed

theorem lookup_ignores_case: "qname_eq a b \<Longrightarrow> lookup_dns_name root a = lookup_dns_name root b"
  using lookup_with_wildcard_eq [OF qname_eq_rev] by (simp add: lookup_dns_name_def name_to_tree_key_def)

lemma exact_wins: "lookup_exact root labels = Some rrs \<Longrightarrow> lookup_with_wildcard root labels = Some rrs"
  by (induction labels arbitrary: root) (auto split: option.splits)

text \<open>A label that is missing below a node that is there falls back to the wildcard of that node.\<close>

lemma wildcard_fallback:
  "lookup_exact root (labels @ [l]) = None \<Longrightarrow> lookup_exact root labels \<noteq> None \<Longrightarrow>
    lookup_with_wildcard root (labels @ [l]) = lookup_exact root (labels @ [wildcard_label])"
  by (induction labels arbitrary: root) (auto split: option.splits)

text \<open>The records of a subtree, and that lookup returns records of the zone.\<close>

primrec zone_records :: "tree_node \<Rightarrow> resource_record set" where
  "zone_records (TreeNode l rrs children) = set rrs \<union> \<Union> (set (map zone_records children))"

lemma find_child_in: "find_child children l = Some n \<Longrightarrow> n \<in> set children"
  by (induction children) (auto split: if_splits)

lemma child_records: "n \<in> set (tn_children root) \<Longrightarrow> zone_records n \<subseteq> zone_records root"
  by (cases root) auto

lemma lookup_in_zone: "lookup_with_wildcard root labels = Some rrs \<Longrightarrow> set rrs \<subseteq> zone_records root"
proof (induction labels arbitrary: root)
  case Nil
  then show ?case by (cases root) auto
next
  case (Cons l labels)
  then obtain n l' where "find_child (tn_children root) l' = Some n" "lookup_with_wildcard n labels = Some rrs"
    by (auto split: option.splits)
  then show ?case using Cons.IH find_child_in child_records by blast
qed

section \<open>The chase\<close>

text \<open>One CNAME step in the zone.\<close>

definition cname_step :: "tree_node \<Rightarrow> (qname \<times> qname) set" where
  "cname_step root = {(n, n'). \<exists>rrs. lookup_dns_name root n = Some rrs \<and> find_cname_target rrs = CnameTarget n'}"

lemma cname_step_deterministic: "(n, a) \<in> cname_step root \<Longrightarrow> (n, b) \<in> cname_step root \<Longrightarrow> a = b"
  by (auto simp: cname_step_def)

text \<open>What stands at the end of a chain: the answer for a name without a CNAME step.\<close>

definition chase_end :: "tree_node \<Rightarrow> qname \<Rightarrow> dns_result" where
  "chase_end root n =
     (case lookup_dns_name root n of
        Some rrs \<Rightarrow> (case find_cname_target rrs of NoCname \<Rightarrow> Success rrs | _ \<Rightarrow> Error ServFail)
      | None \<Rightarrow> Error NXDomain)"

lemma chase_cname_step: "(n, n') \<in> cname_step root \<Longrightarrow> chase_cname root n (Suc hops) = chase_cname root n' hops"
  by (auto simp: cname_step_def chase_cname.simps [of _ _ "Suc hops"])

lemma chase_cname_stop: "n \<notin> Domain (cname_step root) \<Longrightarrow> chase_cname root n (Suc hops) = chase_end root n"
  by (auto simp: cname_step_def chase_end_def chase_cname.simps [of _ _ "Suc hops"] split: option.splits cname_lookup.splits)

lemma chase_cname_chain:
  "(n, n') \<in> cname_step root ^^ k \<Longrightarrow> chase_cname root n (k + hops) = chase_cname root n' hops"
proof (induction k arbitrary: n)
  case (Suc k)
  then obtain mid where "(n, mid) \<in> cname_step root" "(mid, n') \<in> cname_step root ^^ k"
    by (meson relpow_Suc_D2)
  then show ?case using Suc.IH chase_cname_step by simp
qed simp

text \<open>A chain that ends within the hop count gives its end, and a longer one a server failure.\<close>

theorem chase_cname_cases:
  shows "(n, n') \<in> cname_step root ^^ k \<Longrightarrow> n' \<notin> Domain (cname_step root) \<Longrightarrow>
      chase_cname root n hops = (if k < hops then chase_end root n' else Error ServFail)"
    and "(n, m) \<in> cname_step root ^^ hops \<Longrightarrow> chase_cname root n hops = Error ServFail"
proof -
  show long: "(n, m) \<in> cname_step root ^^ hops \<Longrightarrow> chase_cname root n hops = Error ServFail" for n m hops
    using chase_cname_chain [of n m hops root 0] by (simp add: chase_cname.simps [of _ _ 0])
  assume chain: "(n, n') \<in> cname_step root ^^ k" and stop: "n' \<notin> Domain (cname_step root)"
  show "chase_cname root n hops = (if k < hops then chase_end root n' else Error ServFail)"
  proof (cases "k < hops")
    case True
    then have "hops = k + Suc (hops - k - 1)" by simp
    then show ?thesis using chase_cname_chain [OF chain, of "Suc (hops - k - 1)"] chase_cname_stop [OF stop] True by simp
  next
    case False
    then have "k = hops + (k - hops)" by simp
    then have "(n, n') \<in> cname_step root ^^ hops O cname_step root ^^ (k - hops)" using chain by (metis relpow_add)
    then obtain m where "(n, m) \<in> cname_step root ^^ hops" by blast
    then show ?thesis using long False by simp
  qed
qed

text \<open>Every chain ends or goes on forever, so the two cases are all.\<close>

lemma chain_total:
  "(\<exists>k n'. (n, n') \<in> cname_step root ^^ k \<and> n' \<notin> Domain (cname_step root)) \<or> (\<forall>hops. \<exists>m. (n, m) \<in> cname_step root ^^ hops)"
proof (rule disjCI)
  assume no: "\<not> (\<forall>hops. \<exists>m. (n, m) \<in> cname_step root ^^ hops)"
  have "\<exists>k m. (n, m) \<in> cname_step root ^^ k \<and> m \<notin> Domain (cname_step root)"
    if "\<not> (\<exists>m. (n, m) \<in> cname_step root ^^ hops)" for hops
    using that
  proof (induction hops)
    case (Suc hops)
    show ?case
    proof (cases "\<exists>m. (n, m) \<in> cname_step root ^^ hops")
      case True
      then obtain m where m: "(n, m) \<in> cname_step root ^^ hops" by blast
      then have "m \<notin> Domain (cname_step root)" using Suc.prems by (auto intro: relpow_Suc_I)
      with m show ?thesis by blast
    qed (rule Suc.IH)
  qed simp
  with no show "\<exists>k n'. (n, n') \<in> cname_step root ^^ k \<and> n' \<notin> Domain (cname_step root)" by blast
qed

lemma chase_loop:
  assumes "(n, n) \<in> (cname_step root)\<^sup>+"
  shows "chase_cname root n hops = Error ServFail"
proof -
  have "\<exists>m. (n, m) \<in> cname_step root ^^ k \<and> (m, m) \<in> (cname_step root)\<^sup>+" for k
  proof (induction k)
    case 0
    then show ?case using assms by auto
  next
    case (Suc k)
    then obtain m where m: "(n, m) \<in> cname_step root ^^ k" "(m, m) \<in> (cname_step root)\<^sup>+" by blast
    then obtain m' where m': "(m, m') \<in> cname_step root" "(m', m) \<in> (cname_step root)\<^sup>*" by (meson tranclD)
    then have "(m', m') \<in> (cname_step root)\<^sup>+" by (meson rtrancl_into_trancl1)
    with m m' show ?case by (meson relpow_Suc_I)
  qed
  then show ?thesis using chase_cname_cases(2) by blast
qed

lemma filter_question_records_eq: "filter_question_records q records = filter (rr_matches_question q) records"
  by (induction records) (simp_all add: Let_def)

lemma chase_in_zone:
  "chase_cname root n hops = Success rrs \<Longrightarrow> set rrs \<subseteq> zone_records root"
proof (induction root n hops rule: chase_cname.induct)
  case (1 root n hops)
  note run = 1(2) [unfolded chase_cname.simps [of root n hops]]
  then obtain found where f: "lookup_dns_name root n = Some found" and h: "hops \<noteq> 0"
    by (auto split: if_splits option.splits)
  show ?case
  proof (cases "find_cname_target found")
    case NoCname
    then show ?thesis
      using run f h lookup_in_zone by (auto simp: lookup_dns_name_def name_to_tree_key_def)
  next
    case (CnameTarget next_target)
    then show ?thesis using 1(1) [OF h f CnameTarget] run f h by simp
  qed (use run f h in simp)
qed

section \<open>Entries\<close>

lemma zone_entry_valid:
  assumes "parse_zone_entry_bytes input = Some e"
  shows "validate_zone_entry e \<and> valid_name (ze_origin e) \<and> dns_name_length (ze_origin e) \<le> 255"
proof -
  obtain rest where "parse_qname 128 input = Some (ze_origin e, rest)"
    using assms by (auto simp: parse_zone_entry_bytes_def Let_def split: option.splits if_splits list.splits)
  moreover have "validate_zone_entry e"
    using assms
    by (auto simp: parse_zone_entry_bytes_def validate_zone_entry_def valid_zone_rdata_length_def bytes_of_list_def Let_def
        split: option.splits if_splits list.splits qtype.splits)
  ultimately show ?thesis by (simp add: parse_qname_iff)
qed

end
