(* ===== verification/Dns_Gate.thy ===== *)
theory Dns_Gate
  imports Dns_Serializer Worker
begin

text \<open>
  The gate in front of the message parser, \<^verbatim>\<open>validate_generated_subset_gate_buffer\<close> of
  \<^verbatim>\<open>src/src/protocol/DNS.Protocol.Parser.fst\<close>: it recognises the shape of a message, computes the lengths and pointer
  bytes that the shape has, and asks the generated validator of that shape. The generated
  validators are the parameter \<open>check\<close>, a function of the validator's name with its arguments and of the bytes it
  is given. The theorems show that nothing outside the recognised shapes passes, and that a plain query
  is judged by the question validator alone, so that with the documented grammar every plain query passes.
\<close>

section \<open>The generated validators\<close>

text \<open>One constructor for each validator declared in \<^verbatim>\<open>src/spec/DNS.Protocol.Parser.EverParseRuntime.fsti\<close> that the gate asks, with the
  lengths and pointer bytes it is given. A declaration with the suffix \<^verbatim>\<open>_code\<close> names the same generated function.\<close>

datatype generated_check =
    Check_question u32
  | Check_answer u32 u32 u32
  | Check_a_answer u32 u32
  | Check_aaaa_answer u32 u32
  | Check_two_a_answer u32 u32 u32
  | Check_name_rdata_answer u32 u32 u32 u32
  | Check_compressed_name_rdata_answer u32 u32 u32 u32 u32
  | Check_mx_answer u32 u32 u32
  | Check_compressed_mx_answer u32 u32 u32 u32
  | Check_soa_answer u32 u32 u32 u32
  | Check_compressed_soa_mname_answer u32 u32 u32 u32 u32
  | Check_compressed_soa_rname_answer u32 u32 u32 u32 u32
  | Check_compressed_soa_answer u32 u32 u32 u32 u32 u32
  | Check_srv_answer u32 u32 u32
  | Check_compressed_srv_answer u32 u32 u32 u32
  | Check_txt_answer u32 u32 u32
  | Check_compressed_answer_name u32 u32 u32 u32
  | Check_opt_additional u32
  | Check_question_opt_additional u32 u32

section \<open>Steps shared by the shapes\<close>

definition header_counts_are :: "header \<Rightarrow> nat \<Rightarrow> nat \<Rightarrow> nat \<Rightarrow> nat \<Rightarrow> bool" where
  "header_counts_are h qd an ns ar \<longleftrightarrow>
     unat (h_qdcount h) = qd \<and> unat (h_ancount h) = an \<and> unat (h_nscount h) = ns \<and> unat (h_arcount h) = ar"

text \<open>A question name, its four bytes of type and class, and what follows.\<close>

definition question_then :: "u8 list \<Rightarrow> (qname \<times> u8 list) option" where
  "question_then after_header =
     (case parse_qname 128 after_header of
        Some (name, tail) \<Rightarrow> if length tail < 4 then None else Some (name, drop 4 tail)
      | None \<Rightarrow> None)"

text \<open>The bytes after the owner name of the first record behind the question.\<close>

definition record_tail :: "u8 list \<Rightarrow> u8 list option" where
  "record_tail input =
     (case parse_header_bytes input of
        Some (_, after_header) \<Rightarrow>
          (case question_then after_header of
             Some (_, after_question) \<Rightarrow>
               (case parse_qname 128 after_question of Some (_, rr_tail) \<Rightarrow> Some rr_tail | None \<Rightarrow> None)
           | None \<Rightarrow> None)
      | None \<Rightarrow> None)"

definition pointer_resolves :: "u8 list \<Rightarrow> nat \<Rightarrow> u8 \<Rightarrow> u8 \<Rightarrow> bool" where
  "pointer_resolves input offset hi lo =
     (case parse_qname_compressed 128 input offset [hi, lo] of Some (_, []) \<Rightarrow> True | _ \<Rightarrow> False)"

definition name_bytes :: "u8 list \<Rightarrow> nat option" where
  "name_bytes input = (case parse_qname 128 input of Some (name, _) \<Rightarrow> Some (dns_name_length name) | None \<Rightarrow> None)"

definition starts_with_pointer :: "u8 list \<Rightarrow> bool" where
  "starts_with_pointer input = (case input of b # _ \<Rightarrow> is_pointer b | [] \<Rightarrow> False)"

definition name_in_range :: "nat \<Rightarrow> bool" where
  "name_in_range n \<longleftrightarrow> n > 0 \<and> n \<le> 255"

definition pointer_in_range :: "nat \<Rightarrow> nat \<Rightarrow> bool" where
  "pointer_in_range hi lo \<longleftrightarrow> hi \<ge> 192 \<and> hi \<le> 255 \<and> lo \<le> 255"

section \<open>A question alone\<close>

definition generated_uncompressed_question_qname_length :: "u8 list \<Rightarrow> nat" where
  "generated_uncompressed_question_qname_length input =
     (if length input < 17 \<or> length input > 271 then 0
      else case parse_qname 128 (drop 12 input) of
        Some (name, rest) \<Rightarrow> if length rest = 4 then dns_name_length name else 0
      | None \<Rightarrow> 0)"

definition generated_uncompressed_question_subset_applicable :: "u8 list \<Rightarrow> bool" where
  "generated_uncompressed_question_subset_applicable input =
     (let qname_length = generated_uncompressed_question_qname_length input in
      if qname_length = 0 \<or> qname_length > 255 then False else length input = 16 + qname_length)"

section \<open>A question and an uncompressed answer\<close>

definition rdata_name_pointer :: "nat \<Rightarrow> u8 list \<Rightarrow> bool" where
  "rdata_name_pointer rr_type rdata_tail =
     (if rr_type = 2 \<or> rr_type = 5 \<or> rr_type = 12 then starts_with_pointer rdata_tail
      else if rr_type = 6 then
        (case rdata_tail of
           b # _ \<Rightarrow> is_pointer b \<or>
             (case parse_qname 128 rdata_tail of Some (_, after_mname) \<Rightarrow> starts_with_pointer after_mname | None \<Rightarrow> False)
         | [] \<Rightarrow> False)
      else if rr_type = 15 then (case rdata_tail of _ # _ # b # _ \<Rightarrow> is_pointer b | _ \<Rightarrow> False)
      else if rr_type = 33 then (case rdata_tail of _ # _ # _ # _ # _ # _ # b # _ \<Rightarrow> is_pointer b | _ \<Rightarrow> False)
      else False)"

definition rdata_name_bytes :: "nat \<Rightarrow> u8 list \<Rightarrow> nat option" where
  "rdata_name_bytes rr_type rdata_tail =
     (if rr_type = 2 \<or> rr_type = 5 \<or> rr_type = 12 then name_bytes rdata_tail
      else if rr_type = 15 then (case rdata_tail of _ # _ # exchange_tail \<Rightarrow> name_bytes exchange_tail | _ \<Rightarrow> None)
      else if rr_type = 6 then name_bytes rdata_tail
      else if rr_type = 33 then (case rdata_tail of _ # _ # _ # _ # _ # _ # target_tail \<Rightarrow> name_bytes target_tail | _ \<Rightarrow> None)
      else None)"

definition soa_rname_bytes :: "nat \<Rightarrow> u8 list \<Rightarrow> nat option" where
  "soa_rname_bytes rr_type rdata_tail =
     (if rr_type = 6 then (case parse_qname 128 rdata_tail of Some (_, after_mname) \<Rightarrow> name_bytes after_mname | None \<Rightarrow> None)
      else None)"

record answer_fields =
  af_qname_length :: nat
  af_rr_name_length :: nat
  af_rdata_length :: nat
  af_rr_type :: nat
  af_starts_with_pointer :: bool
  af_rdata_name_length :: "nat option"
  af_soa_rname_length :: "nat option"

definition generated_uncompressed_question_answer_packet_fields :: "u8 list \<Rightarrow> answer_fields option" where
  "generated_uncompressed_question_answer_packet_fields input =
     (if length input < 28 \<or> length input > 66071 then None
      else case parse_header_bytes input of
        Some (h, after_header) \<Rightarrow>
          if header_counts_are h 1 1 0 0 then
            (case question_then after_header of
               Some (question_name, after_question) \<Rightarrow>
                 (case parse_qname 128 after_question of
                    Some (owner, rr_tail) \<Rightarrow>
                      (case rr_tail of
                         rt_hi # rt_lo # _ # _ # _ # _ # _ # _ # rdlen_hi # rdlen_lo # rdata_tail \<Rightarrow>
                           let rr_type = unat (u16_from_be rt_hi rt_lo); rdata_length = unat (u16_from_be rdlen_hi rdlen_lo) in
                           if rr_type \<in> {1, 28, 6, 2, 5, 12, 15, 33, 16} \<or> length rdata_tail = rdata_length
                           then Some \<lparr>af_qname_length = dns_name_length question_name, af_rr_name_length = dns_name_length owner,
                                  af_rdata_length = rdata_length, af_rr_type = rr_type,
                                  af_starts_with_pointer = rdata_name_pointer rr_type rdata_tail,
                                  af_rdata_name_length = rdata_name_bytes rr_type rdata_tail,
                                  af_soa_rname_length = soa_rname_bytes rr_type rdata_tail\<rparr>
                           else None
                       | _ \<Rightarrow> None)
                  | None \<Rightarrow> None)
             | None \<Rightarrow> None)
          else None
      | None \<Rightarrow> None)"

definition generated_uncompressed_question_answer_packet_subset_applicable :: "u8 list \<Rightarrow> bool" where
  "generated_uncompressed_question_answer_packet_subset_applicable input =
     (case generated_uncompressed_question_answer_packet_fields input of
        Some f \<Rightarrow>
          (let exact = (length input = 26 + af_qname_length f + af_rr_name_length f + af_rdata_length f);
               rr_type = af_rr_type f in
           name_in_range (af_qname_length f) \<and> name_in_range (af_rr_name_length f) \<and> af_rdata_length f \<le> 65535 \<and>
           (if rr_type = 1 then True
            else if rr_type = 28 then True
            else if rr_type = 2 \<or> rr_type = 5 \<or> rr_type = 12 then
              (case af_rdata_name_length f of Some _ \<Rightarrow> True | None \<Rightarrow> \<not> exact)
            else if rr_type = 15 then
              (case af_rdata_name_length f of Some _ \<Rightarrow> True | None \<Rightarrow> \<not> af_starts_with_pointer f \<or> \<not> exact)
            else if rr_type = 6 then \<not> af_starts_with_pointer f \<or> \<not> exact
            else if rr_type = 33 then
              (case af_rdata_name_length f of Some _ \<Rightarrow> True | None \<Rightarrow> \<not> af_starts_with_pointer f \<or> \<not> exact)
            else if rr_type = 16 then True
            else exact))
      | None \<Rightarrow> False)"

section \<open>A question and two address records\<close>

definition a_record_then :: "u8 list \<Rightarrow> (nat \<times> u8 list) option" where
  "a_record_then input =
     (case parse_qname 128 input of
        Some (owner, rr_tail) \<Rightarrow>
          (case rr_tail of
             rt_hi # rt_lo # _ # _ # _ # _ # _ # _ # rdlen_hi # rdlen_lo # _ # _ # _ # _ # after_answer \<Rightarrow>
               if unat (u16_from_be rt_hi rt_lo) = 1 \<and> unat (u16_from_be rdlen_hi rdlen_lo) = 4
               then Some (dns_name_length owner, after_answer) else None
           | _ \<Rightarrow> None)
      | None \<Rightarrow> None)"

definition generated_uncompressed_question_two_a_answer_packet_fields :: "u8 list \<Rightarrow> (nat \<times> nat \<times> nat) option" where
  "generated_uncompressed_question_two_a_answer_packet_fields input =
     (case parse_header_bytes input of
        Some (h, after_header) \<Rightarrow>
          if header_counts_are h 1 2 0 0 then
            (case question_then after_header of
               Some (question_name, after_question) \<Rightarrow>
                 (case a_record_then after_question of
                    Some (first, after_first_answer) \<Rightarrow>
                      (case a_record_then after_first_answer of
                         Some (second, []) \<Rightarrow> Some (dns_name_length question_name, first, second)
                       | _ \<Rightarrow> None)
                  | None \<Rightarrow> None)
             | None \<Rightarrow> None)
          else None
      | None \<Rightarrow> None)"

definition generated_uncompressed_question_two_a_answer_packet_subset_applicable :: "u8 list \<Rightarrow> bool" where
  "generated_uncompressed_question_two_a_answer_packet_subset_applicable input =
     (case generated_uncompressed_question_two_a_answer_packet_fields input of
        Some (qname_length, first, second) \<Rightarrow> name_in_range qname_length \<and> name_in_range first \<and> name_in_range second
      | None \<Rightarrow> False)"

section \<open>Compressed names\<close>

definition generated_compressed_answer_name_packet_fields :: "u8 list \<Rightarrow> (nat \<times> nat \<times> nat \<times> nat \<times> nat) option" where
  "generated_compressed_answer_name_packet_fields input =
     (case parse_header_bytes input of
        Some (h, after_header) \<Rightarrow>
          if header_counts_are h 1 1 0 0 then
            (case question_then after_header of
               Some (question_name, after_question) \<Rightarrow>
                 (case after_question of
                    ptr_hi # ptr_lo # rt_hi # rt_lo # _ # _ # _ # _ # _ # _ # rdlen_hi # rdlen_lo # rdata_tail \<Rightarrow>
                      let rr_type = unat (u16_from_be rt_hi rt_lo); rdata_length = unat (u16_from_be rdlen_hi rdlen_lo);
                          qname_length = dns_name_length question_name in
                      if length rdata_tail = rdata_length \<and> pointer_resolves input (16 + qname_length) ptr_hi ptr_lo \<and>
                         unat ptr_hi \<ge> 192
                      then Some (qname_length, rdata_length, rr_type, unat ptr_hi, unat ptr_lo) else None
                  | _ \<Rightarrow> None)
             | None \<Rightarrow> None)
          else None
      | None \<Rightarrow> None)"

definition generated_compressed_answer_name_packet_subset_applicable :: "u8 list \<Rightarrow> bool" where
  "generated_compressed_answer_name_packet_subset_applicable input =
     (case generated_compressed_answer_name_packet_fields input of
        Some (qname_length, rdata_length, _, ptr_hi, ptr_lo) \<Rightarrow>
          name_in_range qname_length \<and> rdata_length \<le> 65535 \<and> pointer_in_range ptr_hi ptr_lo \<and>
          length input = 28 + qname_length + rdata_length
      | None \<Rightarrow> False)"

definition generated_compressed_name_rdata_packet_fields :: "u8 list \<Rightarrow> (nat \<times> nat \<times> nat \<times> nat \<times> nat) option" where
  "generated_compressed_name_rdata_packet_fields input =
     (case generated_uncompressed_question_answer_packet_fields input of
        Some f \<Rightarrow>
          (let q = af_qname_length f; r = af_rr_name_length f; rr_type = af_rr_type f in
           if (rr_type = 2 \<or> rr_type = 5 \<or> rr_type = 12) \<and> af_rdata_length f = 2 \<and> length input = 28 + q + r then
             (case record_tail input of
                Some (_ # _ # _ # _ # _ # _ # _ # _ # _ # _ # ptr_hi # ptr_lo # []) \<Rightarrow>
                  if pointer_resolves input (26 + q + r) ptr_hi ptr_lo \<and> unat ptr_hi \<ge> 192
                  then Some (q, r, rr_type, unat ptr_hi, unat ptr_lo) else None
              | _ \<Rightarrow> None)
           else None)
      | None \<Rightarrow> None)"

definition generated_compressed_name_rdata_packet_subset_applicable :: "u8 list \<Rightarrow> bool" where
  "generated_compressed_name_rdata_packet_subset_applicable input =
     (case generated_compressed_name_rdata_packet_fields input of
        Some (q, r, rr_type, ptr_hi, ptr_lo) \<Rightarrow>
          name_in_range q \<and> name_in_range r \<and> (rr_type = 2 \<or> rr_type = 5 \<or> rr_type = 12) \<and>
          pointer_in_range ptr_hi ptr_lo \<and> length input = 28 + q + r
      | None \<Rightarrow> False)"

definition generated_compressed_mx_packet_fields :: "u8 list \<Rightarrow> (nat \<times> nat \<times> nat \<times> nat) option" where
  "generated_compressed_mx_packet_fields input =
     (case generated_uncompressed_question_answer_packet_fields input of
        Some f \<Rightarrow>
          (let q = af_qname_length f; r = af_rr_name_length f in
           if af_rr_type f = 15 \<and> af_rdata_length f = 4 \<and> length input = 30 + q + r then
             (case record_tail input of
                Some (_ # _ # _ # _ # _ # _ # _ # _ # _ # _ # _ # _ # ptr_hi # ptr_lo # []) \<Rightarrow>
                  if pointer_resolves input (28 + q + r) ptr_hi ptr_lo \<and> unat ptr_hi \<ge> 192
                  then Some (q, r, unat ptr_hi, unat ptr_lo) else None
              | _ \<Rightarrow> None)
           else None)
      | None \<Rightarrow> None)"

definition generated_compressed_mx_packet_subset_applicable :: "u8 list \<Rightarrow> bool" where
  "generated_compressed_mx_packet_subset_applicable input =
     (case generated_compressed_mx_packet_fields input of
        Some (q, r, ptr_hi, ptr_lo) \<Rightarrow>
          name_in_range q \<and> name_in_range r \<and> pointer_in_range ptr_hi ptr_lo \<and> length input = 30 + q + r
      | None \<Rightarrow> False)"

definition generated_compressed_srv_packet_fields :: "u8 list \<Rightarrow> (nat \<times> nat \<times> nat \<times> nat) option" where
  "generated_compressed_srv_packet_fields input =
     (case generated_uncompressed_question_answer_packet_fields input of
        Some f \<Rightarrow>
          (let q = af_qname_length f; r = af_rr_name_length f in
           if af_rr_type f = 33 \<and> af_rdata_length f = 8 \<and> length input = 34 + q + r then
             (case record_tail input of
                Some (_ # _ # _ # _ # _ # _ # _ # _ # _ # _ # _ # _ # _ # _ # _ # _ # ptr_hi # ptr_lo # []) \<Rightarrow>
                  if pointer_resolves input (32 + q + r) ptr_hi ptr_lo \<and> unat ptr_hi \<ge> 192
                  then Some (q, r, unat ptr_hi, unat ptr_lo) else None
              | _ \<Rightarrow> None)
           else None)
      | None \<Rightarrow> None)"

definition generated_compressed_srv_packet_subset_applicable :: "u8 list \<Rightarrow> bool" where
  "generated_compressed_srv_packet_subset_applicable input =
     (case generated_compressed_srv_packet_fields input of
        Some (q, r, ptr_hi, ptr_lo) \<Rightarrow>
          name_in_range q \<and> name_in_range r \<and> pointer_in_range ptr_hi ptr_lo \<and> length input = 34 + q + r
      | None \<Rightarrow> False)"

text \<open>An SOA record with one compressed name: either the first is a pointer and the second is plain, or the
  first is plain and the second is a pointer. The flag is true in the first case.\<close>

definition generated_compressed_soa_packet_fields :: "u8 list \<Rightarrow> (bool \<times> nat \<times> nat \<times> nat \<times> nat \<times> nat) option" where
  "generated_compressed_soa_packet_fields input =
     (case generated_uncompressed_question_answer_packet_fields input of
        Some f \<Rightarrow>
          (let q = af_qname_length f; r = af_rr_name_length f; rdata_length = af_rdata_length f; mname_offset = 26 + q + r in
           if af_rr_type f = 6 \<and> rdata_length \<ge> 23 \<and> length input \<ge> 49 + q + r then
             (case record_tail input of
                Some (_ # _ # _ # _ # _ # _ # _ # _ # _ # _ # m_ptr_hi # m_ptr_lo # rname_tail) \<Rightarrow>
                  if pointer_resolves input mname_offset m_ptr_hi m_ptr_lo then
                    (case parse_qname 128 rname_tail of
                       Some (rname, timers) \<Rightarrow>
                         let n = dns_name_length rname in
                         if length timers = 20 \<and> rdata_length = 22 + n \<and> unat m_ptr_hi \<ge> 192 \<and> length input = 48 + q + r + n
                         then Some (True, q, r, n, unat m_ptr_hi, unat m_ptr_lo) else None
                     | None \<Rightarrow> None)
                  else
                    (case parse_qname 128 (m_ptr_hi # m_ptr_lo # rname_tail) of
                       Some (mname, r_ptr_hi # r_ptr_lo # timers) \<Rightarrow>
                         let n = dns_name_length mname in
                         if pointer_resolves input (mname_offset + n) r_ptr_hi r_ptr_lo \<and> length timers = 20 \<and>
                            rdata_length = 22 + n \<and> unat r_ptr_hi \<ge> 192 \<and> length input = 48 + q + r + n
                         then Some (False, q, r, n, unat r_ptr_hi, unat r_ptr_lo) else None
                     | _ \<Rightarrow> None)
              | _ \<Rightarrow> None)
           else None)
      | None \<Rightarrow> None)"

definition generated_compressed_soa_packet_subset_applicable :: "u8 list \<Rightarrow> bool" where
  "generated_compressed_soa_packet_subset_applicable input =
     (case generated_compressed_soa_packet_fields input of
        Some (_, q, r, n, ptr_hi, ptr_lo) \<Rightarrow>
          name_in_range q \<and> name_in_range r \<and> name_in_range n \<and> pointer_in_range ptr_hi ptr_lo \<and> length input = 48 + q + r + n
      | None \<Rightarrow> False)"

definition generated_compressed_both_soa_packet_fields :: "u8 list \<Rightarrow> (nat \<times> nat \<times> nat \<times> nat \<times> nat \<times> nat) option" where
  "generated_compressed_both_soa_packet_fields input =
     (case generated_uncompressed_question_answer_packet_fields input of
        Some f \<Rightarrow>
          (let q = af_qname_length f; r = af_rr_name_length f; mname_offset = 26 + q + r in
           if af_rr_type f = 6 \<and> af_rdata_length f = 24 \<and> length input = 50 + q + r then
             (case record_tail input of
                Some (_ # _ # _ # _ # _ # _ # _ # _ # _ # _ # m_ptr_hi # m_ptr_lo # r_ptr_hi # r_ptr_lo # timers) \<Rightarrow>
                  if length timers = 20 \<and> pointer_resolves input mname_offset m_ptr_hi m_ptr_lo \<and>
                     pointer_resolves input (mname_offset + 2) r_ptr_hi r_ptr_lo \<and> unat m_ptr_hi \<ge> 192 \<and> unat r_ptr_hi \<ge> 192
                  then Some (q, r, unat m_ptr_hi, unat m_ptr_lo, unat r_ptr_hi, unat r_ptr_lo) else None
              | _ \<Rightarrow> None)
           else None)
      | None \<Rightarrow> None)"

definition generated_compressed_both_soa_packet_subset_applicable :: "u8 list \<Rightarrow> bool" where
  "generated_compressed_both_soa_packet_subset_applicable input =
     (case generated_compressed_both_soa_packet_fields input of
        Some (q, r, m_hi, m_lo, r_hi, r_lo) \<Rightarrow>
          name_in_range q \<and> name_in_range r \<and> pointer_in_range m_hi m_lo \<and> pointer_in_range r_hi r_lo \<and> length input = 50 + q + r
      | None \<Rightarrow> False)"

section \<open>An OPT record in the additional section\<close>

definition parse_opt_additional :: "u8 list \<Rightarrow> nat option \<Rightarrow> (nat option \<times> nat \<times> nat) option" where
  "parse_opt_additional additional_input question_qname_length =
     (case parse_qname 128 additional_input of
        Some (owner, rr_tail) \<Rightarrow>
          (case rr_tail of
             rt_hi # rt_lo # _ # _ # _ # _ # _ # _ # rdlen_hi # rdlen_lo # rdata_tail \<Rightarrow>
               let rdata_length = unat (u16_from_be rdlen_hi rdlen_lo) in
               if unat (u16_from_be rt_hi rt_lo) = 41 \<and> length rdata_tail = rdata_length
               then Some (question_qname_length, dns_name_length owner, rdata_length) else None
           | _ \<Rightarrow> None)
      | None \<Rightarrow> None)"

definition generated_edns0_opt_additional_packet_fields :: "u8 list \<Rightarrow> (nat option \<times> nat \<times> nat) option" where
  "generated_edns0_opt_additional_packet_fields input =
     (case parse_header_bytes input of
        Some (h, after_header) \<Rightarrow>
          if unat (h_ancount h) = 0 \<and> unat (h_nscount h) = 0 \<and> unat (h_arcount h) = 1 then
            if unat (h_qdcount h) = 0 then parse_opt_additional after_header None
            else if unat (h_qdcount h) = 1 then
              (case question_then after_header of
                 Some (question_name, after_question) \<Rightarrow>
                   parse_opt_additional after_question (Some (dns_name_length question_name))
               | None \<Rightarrow> None)
            else None
          else None
      | None \<Rightarrow> None)"

definition generated_edns0_opt_additional_packet_subset_applicable :: "u8 list \<Rightarrow> bool" where
  "generated_edns0_opt_additional_packet_subset_applicable input =
     (case generated_edns0_opt_additional_packet_fields input of
        Some (question_qname_length, rr_name_length, option_payload_length) \<Rightarrow>
          name_in_range rr_name_length \<and> option_payload_length \<le> 65535 \<and>
          (case question_qname_length of Some n \<Rightarrow> name_in_range n | None \<Rightarrow> True)
      | None \<Rightarrow> False)"

section \<open>The validators of the shapes\<close>

type_synonym validator = "generated_check \<Rightarrow> u8 list \<Rightarrow> bool"

definition validate_generated_uncompressed_question_subset_buffer :: "validator \<Rightarrow> u8 list \<Rightarrow> bool" where
  "validate_generated_uncompressed_question_subset_buffer check bytes =
     check (Check_question (of_nat (generated_uncompressed_question_qname_length bytes))) (drop 12 bytes)"

definition validate_generated_uncompressed_question_answer_packet_subset_buffer :: "validator \<Rightarrow> u8 list \<Rightarrow> bool" where
  "validate_generated_uncompressed_question_answer_packet_subset_buffer check bytes =
     (case generated_uncompressed_question_answer_packet_fields bytes of
        Some f \<Rightarrow>
          (let q = of_nat (af_qname_length f); r = of_nat (af_rr_name_length f); d = of_nat (af_rdata_length f);
               rr_type = af_rr_type f in
           if rr_type = 1 then check (Check_a_answer q r) bytes
           else if rr_type = 28 then check (Check_aaaa_answer q r) bytes
           else if rr_type = 2 \<or> rr_type = 5 \<or> rr_type = 12 then
             (case af_rdata_name_length f of
                Some n \<Rightarrow> check (Check_name_rdata_answer q r (of_nat n) (of_nat rr_type)) bytes | None \<Rightarrow> False)
           else if rr_type = 15 then
             (case af_rdata_name_length f of Some n \<Rightarrow> check (Check_mx_answer q r (of_nat n)) bytes | None \<Rightarrow> False)
           else if rr_type = 6 then
             (case (af_rdata_name_length f, af_soa_rname_length f) of
                (Some m, Some n) \<Rightarrow> check (Check_soa_answer q r (of_nat m) (of_nat n)) bytes | _ \<Rightarrow> False)
           else if rr_type = 33 then
             (case af_rdata_name_length f of Some n \<Rightarrow> check (Check_srv_answer q r (of_nat n)) bytes | None \<Rightarrow> False)
           else if rr_type = 16 then check (Check_txt_answer q r d) bytes
           else check (Check_answer q r d) bytes)
      | None \<Rightarrow> False)"

definition validate_generated_uncompressed_question_two_a_answer_packet_subset_buffer :: "validator \<Rightarrow> u8 list \<Rightarrow> bool" where
  "validate_generated_uncompressed_question_two_a_answer_packet_subset_buffer check bytes =
     (case generated_uncompressed_question_two_a_answer_packet_fields bytes of
        Some (q, first, second) \<Rightarrow> check (Check_two_a_answer (of_nat q) (of_nat first) (of_nat second)) bytes
      | None \<Rightarrow> False)"

definition validate_generated_compressed_answer_name_packet_subset_buffer :: "validator \<Rightarrow> u8 list \<Rightarrow> bool" where
  "validate_generated_compressed_answer_name_packet_subset_buffer check bytes =
     (case generated_compressed_answer_name_packet_fields bytes of
        Some (q, d, _, hi, lo) \<Rightarrow> check (Check_compressed_answer_name (of_nat q) (of_nat d) (of_nat hi) (of_nat lo)) bytes
      | None \<Rightarrow> False)"

definition validate_generated_compressed_name_rdata_packet_subset_buffer :: "validator \<Rightarrow> u8 list \<Rightarrow> bool" where
  "validate_generated_compressed_name_rdata_packet_subset_buffer check bytes =
     (case generated_compressed_name_rdata_packet_fields bytes of
        Some (q, r, rr_type, hi, lo) \<Rightarrow> check (Check_compressed_name_rdata_answer (of_nat q) (of_nat r) (of_nat rr_type) (of_nat hi) (of_nat lo)) bytes
      | None \<Rightarrow> False)"

definition validate_generated_compressed_mx_packet_subset_buffer :: "validator \<Rightarrow> u8 list \<Rightarrow> bool" where
  "validate_generated_compressed_mx_packet_subset_buffer check bytes =
     (case generated_compressed_mx_packet_fields bytes of
        Some (q, r, hi, lo) \<Rightarrow> check (Check_compressed_mx_answer (of_nat q) (of_nat r) (of_nat hi) (of_nat lo)) bytes
      | None \<Rightarrow> False)"

definition validate_generated_compressed_soa_packet_subset_buffer :: "validator \<Rightarrow> u8 list \<Rightarrow> bool" where
  "validate_generated_compressed_soa_packet_subset_buffer check bytes =
     (case generated_compressed_soa_packet_fields bytes of
        Some (mname_compressed, q, r, n, hi, lo) \<Rightarrow> 
          if mname_compressed then check (Check_compressed_soa_mname_answer (of_nat q) (of_nat r) (of_nat n) (of_nat hi) (of_nat lo)) bytes
          else check (Check_compressed_soa_rname_answer (of_nat q) (of_nat r) (of_nat n) (of_nat hi) (of_nat lo)) bytes
      | None \<Rightarrow> False)"

definition validate_generated_compressed_both_soa_packet_subset_buffer :: "validator \<Rightarrow> u8 list \<Rightarrow> bool" where
  "validate_generated_compressed_both_soa_packet_subset_buffer check bytes =
     (case generated_compressed_both_soa_packet_fields bytes of
        Some (q, r, m_hi, m_lo, r_hi, r_lo) \<Rightarrow> check (Check_compressed_soa_answer (of_nat q) (of_nat r) (of_nat m_hi) (of_nat m_lo) (of_nat r_hi) (of_nat r_lo)) bytes
      | None \<Rightarrow> False)"

definition validate_generated_compressed_srv_packet_subset_buffer :: "validator \<Rightarrow> u8 list \<Rightarrow> bool" where
  "validate_generated_compressed_srv_packet_subset_buffer check bytes =
     (case generated_compressed_srv_packet_fields bytes of
        Some (q, r, hi, lo) \<Rightarrow> check (Check_compressed_srv_answer (of_nat q) (of_nat r) (of_nat hi) (of_nat lo)) bytes
      | None \<Rightarrow> False)"

definition validate_generated_edns0_opt_additional_packet_subset_buffer :: "validator \<Rightarrow> u8 list \<Rightarrow> bool" where
  "validate_generated_edns0_opt_additional_packet_subset_buffer check bytes =
     (case generated_edns0_opt_additional_packet_fields bytes of
        Some (question_qname_length, _, n) \<Rightarrow> 
          (case question_qname_length of
             Some q \<Rightarrow> check (Check_question_opt_additional (of_nat q) (of_nat n)) bytes
           | None \<Rightarrow> check (Check_opt_additional (of_nat n)) bytes)
      | None \<Rightarrow> False)"

definition generated_subset_applicable :: "u8 list \<Rightarrow> bool" where
  "generated_subset_applicable bytes \<longleftrightarrow>
     generated_edns0_opt_additional_packet_subset_applicable bytes \<or>
     generated_compressed_answer_name_packet_subset_applicable bytes \<or>
     generated_compressed_name_rdata_packet_subset_applicable bytes \<or>
     generated_compressed_mx_packet_subset_applicable bytes \<or>
     generated_compressed_both_soa_packet_subset_applicable bytes \<or>
     generated_compressed_soa_packet_subset_applicable bytes \<or>
     generated_compressed_srv_packet_subset_applicable bytes \<or>
     generated_uncompressed_question_two_a_answer_packet_subset_applicable bytes \<or>
     generated_uncompressed_question_answer_packet_subset_applicable bytes \<or>
     generated_uncompressed_question_subset_applicable bytes"

definition validate_generated_subset_gate_buffer :: "validator \<Rightarrow> u8 list \<Rightarrow> bool" where
  "validate_generated_subset_gate_buffer check bytes =
     (if generated_edns0_opt_additional_packet_subset_applicable bytes then validate_generated_edns0_opt_additional_packet_subset_buffer check bytes
      else if generated_compressed_answer_name_packet_subset_applicable bytes then validate_generated_compressed_answer_name_packet_subset_buffer check bytes
      else if generated_compressed_name_rdata_packet_subset_applicable bytes then validate_generated_compressed_name_rdata_packet_subset_buffer check bytes
      else if generated_compressed_mx_packet_subset_applicable bytes then validate_generated_compressed_mx_packet_subset_buffer check bytes
      else if generated_compressed_both_soa_packet_subset_applicable bytes then validate_generated_compressed_both_soa_packet_subset_buffer check bytes
      else if generated_compressed_soa_packet_subset_applicable bytes then validate_generated_compressed_soa_packet_subset_buffer check bytes
      else if generated_compressed_srv_packet_subset_applicable bytes then validate_generated_compressed_srv_packet_subset_buffer check bytes
      else if generated_uncompressed_question_two_a_answer_packet_subset_applicable bytes then validate_generated_uncompressed_question_two_a_answer_packet_subset_buffer check bytes
      else if generated_uncompressed_question_answer_packet_subset_applicable bytes then validate_generated_uncompressed_question_answer_packet_subset_buffer check bytes
      else if generated_uncompressed_question_subset_applicable bytes then validate_generated_uncompressed_question_subset_buffer check bytes
      else False)"

section \<open>What passes the gate\<close>

lemma gate_applicable: "validate_generated_subset_gate_buffer check bytes \<Longrightarrow> generated_subset_applicable bytes"
  by (auto simp: validate_generated_subset_gate_buffer_def generated_subset_applicable_def split: if_splits)

text \<open>The shapes with records need a record to be announced.\<close>

lemma no_record_shapes:
  assumes "parse_header_bytes bytes = Some (h, rest)" and "unat (h_ancount h) = 0" and "unat (h_arcount h) = 0"
  shows "\<not> generated_edns0_opt_additional_packet_subset_applicable bytes"
    and "\<not> generated_compressed_answer_name_packet_subset_applicable bytes"
    and "generated_uncompressed_question_answer_packet_fields bytes = None"
    and "\<not> generated_uncompressed_question_two_a_answer_packet_subset_applicable bytes"
  using assms
  by (simp_all add: generated_edns0_opt_additional_packet_subset_applicable_def generated_edns0_opt_additional_packet_fields_def
      generated_compressed_answer_name_packet_subset_applicable_def generated_compressed_answer_name_packet_fields_def
      generated_uncompressed_question_answer_packet_fields_def header_counts_are_def
      generated_uncompressed_question_two_a_answer_packet_subset_applicable_def generated_uncompressed_question_two_a_answer_packet_fields_def)

lemma gate_without_records:
  assumes "parse_header_bytes bytes = Some (h, rest)" and "unat (h_ancount h) = 0" and "unat (h_arcount h) = 0"
  shows "validate_generated_subset_gate_buffer check bytes =
    (generated_uncompressed_question_subset_applicable bytes \<and>
     validate_generated_uncompressed_question_subset_buffer check bytes)"
  using no_record_shapes [OF assms]
  by (simp add: validate_generated_subset_gate_buffer_def
      generated_compressed_name_rdata_packet_subset_applicable_def generated_compressed_name_rdata_packet_fields_def
      generated_compressed_mx_packet_subset_applicable_def generated_compressed_mx_packet_fields_def
      generated_compressed_soa_packet_subset_applicable_def generated_compressed_soa_packet_fields_def
      generated_compressed_both_soa_packet_subset_applicable_def generated_compressed_both_soa_packet_fields_def
      generated_compressed_srv_packet_subset_applicable_def generated_compressed_srv_packet_fields_def
      generated_uncompressed_question_answer_packet_subset_applicable_def)

lemma header_rest: "parse_header_bytes bytes = Some (h, rest) \<Longrightarrow> 12 \<le> length bytes \<and> rest = drop 12 bytes"
  by (auto simp: parse_header_bytes_def split: if_splits list.splits)

text \<open>A plain query: one question and no record.\<close>

definition plain_query :: "dns_packet \<Rightarrow> bool" where
  "plain_query p \<longleftrightarrow> length (p_questions p) = 1 \<and> p_answers p = [] \<and> p_authorities p = [] \<and> p_additionals p = []"

lemma plain_query_bytes:
  assumes parsed: "parse_dns_packet_bytes bytes = Some p" and plain: "plain_query p"
  shows "\<exists>h name question. parse_header_bytes bytes = Some (h, drop 12 bytes) \<and> 12 \<le> length bytes \<and>
    unat (h_ancount h) = 0 \<and> unat (h_arcount h) = 0 \<and> length question = 4 \<and> valid_name name \<and> dns_name_length name \<le> 255 \<and>
    drop 12 bytes = serialize_qname_labels name @ question \<and> q_qname (hd (p_questions p)) = name"
proof -
  obtain h rest where h: "parse_header_bytes bytes = Some (h, rest)" and hp: "p_header p = h"
    using parsed by (auto simp: parse_dns_packet_bytes_def Let_def split: option.splits if_splits)
  note rest = header_rest [OF h]
  have counts: "unat (h_qdcount h) = 1" "unat (h_ancount h) = 0" "unat (h_nscount h) = 0" "unat (h_arcount h) = 0"
    using parsed_packet(1) [OF parsed] plain by (auto simp: header_counts_match_def plain_query_def hp)
  obtain q where q: "p_questions p = [q]" using plain by (auto simp: plain_query_def length_Suc_conv)
  have "parse_questions_bytes 1 1 rest = Some (p_questions p, [])"
    using parsed by (auto simp: parse_dns_packet_bytes_def h counts parse_resource_records_bytes_at.simps Let_def
        split: option.splits if_splits)
  then have "parse_question_bytes rest = Some (q, [])"
    by (auto simp: q parse_questions_bytes.simps split: option.splits)
  then obtain tail where "parse_qname 128 rest = Some (q_qname q, tail)" "length tail = 4"
    by (auto simp: parse_question_bytes_def split: option.splits list.splits)
  then show ?thesis
    using parse_qname_iff [of 128 rest "q_qname q" tail] rest h counts q by (intro exI [of _ h] exI [of _ "q_qname q"] exI [of _ tail]) simp
qed

theorem gate_plain_query:
  assumes "parse_dns_packet_bytes bytes = Some p" and "plain_query p"
  shows "validate_generated_subset_gate_buffer check bytes \<longleftrightarrow>
    check (Check_question (of_nat (dns_name_length (q_qname (hd (p_questions p)))))) (drop 12 bytes)"
proof -
  obtain h name question where B: "parse_header_bytes bytes = Some (h, drop 12 bytes)" "12 \<le> length bytes"
      "unat (h_ancount h) = 0" "unat (h_arcount h) = 0" "length question = 4" "valid_name name" "dns_name_length name \<le> 255"
      "drop 12 bytes = serialize_qname_labels name @ question" "q_qname (hd (p_questions p)) = name"
    using plain_query_bytes [OF assms] by blast
  have len: "length bytes = 16 + dns_name_length name"
    using arg_cong [OF B(8), of length] B(2,5) by (simp add: length_serialize)
  have "parse_qname 128 (drop 12 bytes) = Some (name, question)" using parse_qname_iff [of 128] B(6-8) by simp
  then have "generated_uncompressed_question_qname_length bytes = dns_name_length name"
    using len B(5,7) dns_name_length_pos [of name] by (simp add: generated_uncompressed_question_qname_length_def)
  then show ?thesis
    using gate_without_records [OF B(1,3,4), of check] len B(7,9) dns_name_length_pos [of name]
    by (simp add: generated_uncompressed_question_subset_applicable_def validate_generated_uncompressed_question_subset_buffer_def)
qed

text \<open>Both workers use the same grammar of names, so the documented question validator passes every plain query.\<close>

lemma encode_name_serialize: "encode_name name = serialize_qname_labels name"
  by (induction name) (simp_all add: encode_name_def)

theorem plain_query_passes:
  assumes "question_validator (\<lambda>n bs. if check (Check_question n) bs then 1 else 0)"
    and "parse_dns_packet_bytes bytes = Some p" and "plain_query p"
  shows "validate_generated_subset_gate_buffer check bytes"
proof -
  obtain name question where B: "length question = 4" "valid_name name" "dns_name_length name \<le> 255"
      "drop 12 bytes = serialize_qname_labels name @ question" "q_qname (hd (p_questions p)) = name"
    using plain_query_bytes [OF assms(2,3)] by blast
  have "list_all wf_label name" using B(2) by (simp add: valid_name_def valid_label_def [abs_def] wf_label_def [abs_def])
  from question_validator.check_encoded [OF assms(1) this, of question] B
  show ?thesis
    by (simp add: gate_plain_query [OF assms(2,3)] encode_name_serialize length_serialize split: if_splits)
qed

end
