(* ===== verification/Dns_Worker.thy ===== *)
theory Dns_Worker
  imports Dns_Zone Dns_Gate Boundary
begin

text \<open>
  The full worker of \<^verbatim>\<open>src/src/concurrency/DNS.Worker.fst\<close>: it reads the query of a stream that is ready, resolves it
  in the zone and writes the serialized response. It composes the stream table, the message parser, the zone
  and the serializer. The parser is guarded by the gate of \<open>Dns_Gate\<close>, whose generated validators are the
  parameter \<open>check\<close>. The handshake and decryption steps of \<^verbatim>\<open>src/src/security\<close> are at the end, with the
  cryptographic library as parameters.
\<close>

section \<open>The worker\<close>

definition build_worker_response_bytes :: "tree_node \<Rightarrow> dns_packet \<Rightarrow> u8 list option" where
  "build_worker_response_bytes root request =
     (case build_authoritative_response_packet root request of
        Some response \<Rightarrow> serialize_dns_packet_bytes response
      | None \<Rightarrow> None)"

primrec read_buffer_range :: "mem \<Rightarrow> addr \<Rightarrow> nat \<Rightarrow> nat \<Rightarrow> u8 list" where
  "read_buffer_range m buffer pos 0 = []"
| "read_buffer_range m buffer pos (Suc remaining) = m (buffer + pos) # read_buffer_range m buffer (pos + 1) remaining"

definition parse_dns_packet_buffer :: "validator \<Rightarrow> mem \<Rightarrow> addr \<Rightarrow> u32 \<Rightarrow> dns_packet option" where
  "parse_dns_packet_buffer check m buffer len =
     (let bytes = read_buffer_range m buffer 0 (unat len) in
      if validate_generated_subset_gate_buffer check bytes then parse_dns_packet_bytes bytes else None)"

definition build_worker_response_bytes_from_buffer ::
  "validator \<Rightarrow> tree_node \<Rightarrow> mem \<Rightarrow> addr \<Rightarrow> u32 \<Rightarrow> u8 list option" where
  "build_worker_response_bytes_from_buffer check root m request_buffer request_len =
     (case parse_dns_packet_buffer check m request_buffer request_len of
        Some request \<Rightarrow> build_worker_response_bytes root request
      | None \<Rightarrow> None)"

primrec copy_response_bytes_to_buffer :: "u8 list \<Rightarrow> addr \<Rightarrow> nat \<Rightarrow> mem \<Rightarrow> mem" where
  "copy_response_bytes_to_buffer [] out pos m = m"
| "copy_response_bytes_to_buffer (byte # rest) out pos m = copy_response_bytes_to_buffer rest out (pos + 1) (m(out + pos := byte))"

definition prepare_worker_response_send ::
  "validator \<Rightarrow> tree_node \<Rightarrow> stream_context \<Rightarrow> addr \<Rightarrow> u32 \<Rightarrow> u32 \<Rightarrow> mem \<Rightarrow> msquic_send_descriptor option \<times> mem" where
  "prepare_worker_response_send check root s response_buffer response_capacity request_len m =
     (case build_worker_response_bytes_from_buffer check root m (sc_buf s) request_len of
        Some response_bytes \<Rightarrow>
          if length response_bytes \<le> unat response_capacity then
            let response_len = of_nat (length response_bytes);
                response = \<lparr>msrf_stream_id = sc_id s, msrf_data = response_buffer, msrf_len = response_len, msrf_fin = True\<rparr>;
                descriptor = prepare_response_send response in
            (Some descriptor, copy_response_bytes_to_buffer response_bytes response_buffer 0 m)
          else (None, m)
      | None \<Rightarrow> (None, m))"

definition worker_loop_with_root ::
  "validator \<Rightarrow> tree_node \<Rightarrow> ism_shell_connection \<Rightarrow> addr \<Rightarrow> u32 \<Rightarrow> u64 \<Rightarrow> mem \<Rightarrow> mem" where
  "worker_loop_with_root check root conn response_buffer response_capacity sid m =
     (case find_stream conn sid of
        Some p \<Rightarrow>
          (let s = stream_at conn (Some p) in
           case sc_phase s of
             S_Processing request_len \<Rightarrow>
               snd (prepare_worker_response_send check root s response_buffer response_capacity request_len m)
           | S_Done \<Rightarrow> m
           | _ \<Rightarrow> m)
      | None \<Rightarrow> m)"

definition worker_loop :: "validator \<Rightarrow> ism_shell_connection \<Rightarrow> addr \<Rightarrow> u32 \<Rightarrow> u64 \<Rightarrow> mem \<Rightarrow> mem" where
  "worker_loop check conn response_buffer response_capacity sid m =
     worker_loop_with_root check wildcard_test_root conn response_buffer response_capacity sid m"

section \<open>Responses\<close>

definition zone_ok :: "tree_node \<Rightarrow> bool" where
  "zone_ok root \<longleftrightarrow> (\<forall>r\<in>zone_records root. record_ok False r)"

lemma chase_error: "chase_cname root n hops = Error e \<Longrightarrow> e = ServFail \<or> e = NXDomain"
proof (induction root n hops rule: chase_cname.induct)
  case (1 root n hops)
  show ?case
    using 1(2) 1(1) by (subst (asm) chase_cname.simps) (auto split: if_splits option.splits cname_lookup.splits)
qed

text \<open>What resolution can return, for a zone of well-formed records.\<close>

lemma resolve_request:
  assumes "zone_ok root" and "resolve_authoritative_request root request = result"
  shows "(\<exists>e. result = Error e \<and> e \<in> {ServFail, NXDomain, FormErr}) \<or>
    (\<exists>rrs. result = Success rrs \<and> list_all (record_ok False) rrs)"
proof (cases "p_questions request")
  case Nil
  then show ?thesis using assms(2) by (auto simp: resolve_authoritative_request_def)
next
  case (Cons q qs)
  show ?thesis
  proof (cases "chase_cname root (q_qname q) 15")
    case (Success rrs)
    then have "list_all (record_ok False) (filter_question_records q rrs)"
      using chase_in_zone [OF Success] assms(1) by (auto simp: list_all_iff filter_question_records_eq zone_ok_def)
    then show ?thesis
      using assms(2) Cons Success by (auto simp: resolve_authoritative_request_def resolve_authoritative_question_def)
  next
    case (Error e)
    then have "result = Error e"
      using assms(2) Cons by (simp add: resolve_authoritative_request_def resolve_authoritative_question_def)
    with chase_error [OF Error] show ?thesis by blast
  qed
qed

definition result_answers :: "dns_result \<Rightarrow> resource_record list" where
  "result_answers result = (case result of Success rrs \<Rightarrow> rrs | Error _ \<Rightarrow> [])"

definition result_rcode :: "dns_result \<Rightarrow> rcode" where
  "result_rcode result = (case result of Success _ \<Rightarrow> NoError | Error e \<Rightarrow> e)"

definition authoritative_reply :: "tree_node \<Rightarrow> dns_packet \<Rightarrow> dns_packet \<Rightarrow> bool" where
  "authoritative_reply root request response \<longleftrightarrow>
     (let result = resolve_authoritative_request root request in
      h_id (p_header response) = h_id (p_header request) \<and> fl_qr (h_flags (p_header response)) \<and>
      fl_rcode (h_flags (p_header response)) = rcode_to_u4 (result_rcode result) \<and>
      p_questions response = p_questions request \<and> p_answers response = result_answers result \<and>
      p_authorities response = [] \<and> p_additionals response = [])"

text \<open>A parsed query is always answered: the response is built, serialized, and parses back.\<close>

theorem worker_response_total:
  assumes parsed: "parse_dns_packet_bytes input = Some request" and zone: "zone_ok root"
    and few: "length (result_answers (resolve_authoritative_request root request)) \<le> 65535"
  shows "\<exists>bytes response. build_worker_response_bytes root request = Some bytes \<and>
    parse_dns_packet_bytes bytes = Some response \<and> authoritative_reply root request response"
proof -
  let ?r = "resolve_authoritative_request root request"
  note P = parsed_packet [OF parsed]
  have qd: "length (p_questions request) \<le> 65535"
    using P(1) unat_u16_lt [of "h_qdcount (p_header request)"] by (simp add: header_counts_match_def)
  let ?flags = "response_flags_from_request (p_header request) (result_rcode ?r)"
  let ?resp = "\<lparr>p_header = \<lparr>h_id = h_id (p_header request), h_flags = ?flags,
      h_qdcount = of_nat (length (p_questions request)), h_ancount = of_nat (length (result_answers ?r)), h_nscount = 0, h_arcount = 0\<rparr>,
    p_questions = p_questions request, p_answers = result_answers ?r, p_authorities = [], p_additionals = []\<rparr>"
  have build: "build_authoritative_response_packet root request = Some ?resp"
    using qd few by (cases ?r) (simp_all add: build_authoritative_response_packet_def build_result_response_packet_def
        Let_def result_answers_def result_rcode_def)
  have "rcode_to_u4 (result_rcode ?r) \<le> 15" "list_all (record_ok False) (result_answers ?r)"
    using resolve_request [OF zone refl, of request] by (auto simp: result_rcode_def result_answers_def)
  then have "packet_ok ?resp"
    using P(2,3) qd few
    by (simp add: packet_ok_def header_counts_match_def valid_flags_def response_flags_from_request_def)
  from serialize_ok [OF this] obtain bytes where
    "serialize_dns_packet_bytes ?resp = Some bytes" "parse_dns_packet_bytes bytes = Some ?resp" by blast
  then show ?thesis
    by (intro exI [of _ bytes] exI [of _ ?resp]) (simp add: build_worker_response_bytes_def build response_flags_from_request_def
        authoritative_reply_def)
qed

section \<open>Memory\<close>

lemma read_buffer_range_eq: "read_buffer_range m buffer pos n = mem_bytes m (buffer + pos) n"
proof (induction n arbitrary: pos)
  case (Suc n)
  show ?case
    using Suc [of "pos + 1"] mem_bytes_add [of m "buffer + pos" 1 n] by (simp add: mem_bytes_Suc)
qed simp

lemma copy_response_bytes_eq: "copy_response_bytes_to_buffer bytes out pos m = mem_write m (out + pos) bytes"
proof (induction bytes arbitrary: pos m)
  case Nil
  then show ?case by (auto simp: fun_eq_iff mem_write_def)
next
  case (Cons b bytes)
  show ?case
    unfolding copy_response_bytes_to_buffer.simps Cons
    by (rule ext) (auto simp: mem_write_def nth_Cons')
qed

text \<open>The worker writes at most into its response buffer.\<close>

lemma worker_loop_frame:
  "mem_frame response_buffer (unat response_capacity) m
     (worker_loop_with_root check root conn response_buffer response_capacity sid m)"
proof -
  have "mem_frame response_buffer (unat response_capacity) m
      (snd (prepare_worker_response_send check root s response_buffer response_capacity len m))" for s len
    by (auto simp: prepare_worker_response_send_def copy_response_bytes_eq mem_frame_def mem_write_def Let_def split: option.splits)
  then show ?thesis
    by (auto simp: worker_loop_with_root_def Let_def split: option.splits stream_phase.splits)
qed

text \<open>A stream that is ready with a query: the response is written when it fits, and nothing otherwise.\<close>

theorem worker_loop_answers:
  assumes found: "find_stream conn sid = Some p" and phase: "sc_phase (stream_at conn (Some p)) = S_Processing len"
    and bytes: "mem_bytes m (sc_buf (stream_at conn (Some p))) (unat len) = query" and passes: "validate_generated_subset_gate_buffer check query"
    and parsed: "parse_dns_packet_bytes query = Some request" and zone: "zone_ok root"
    and few: "length (result_answers (resolve_authoritative_request root request)) \<le> 65535"
  shows "\<exists>reply response. parse_dns_packet_bytes reply = Some response \<and> authoritative_reply root request response \<and>
    worker_loop_with_root check root conn response_buffer capacity sid m =
      (if length reply \<le> unat capacity then mem_write m response_buffer reply else m)"
proof -
  obtain reply response where r: "build_worker_response_bytes root request = Some reply"
      "parse_dns_packet_bytes reply = Some response" "authoritative_reply root request response"
    using worker_response_total [OF parsed zone few] by blast
  have "build_worker_response_bytes_from_buffer check root m (sc_buf (stream_at conn (Some p))) len = Some reply"
    using bytes passes parsed r(1)
    by (simp add: build_worker_response_bytes_from_buffer_def parse_dns_packet_buffer_def read_buffer_range_eq)
  with r(2,3) found phase show ?thesis
    by (intro exI [of _ reply] exI [of _ response])
      (simp add: worker_loop_with_root_def Let_def prepare_worker_response_send_def copy_response_bytes_eq)
qed

section \<open>Handshake and decryption\<close>

datatype hs_state = WaitClientHello | WaitClientFinished | Connected

definition process_crypto_frame :: "(u8 list \<Rightarrow> bool) \<Rightarrow> hs_state \<Rightarrow> u8 list \<Rightarrow> hs_state" where
  "process_crypto_frame validate_client_hello st input =
     (case st of
        WaitClientHello \<Rightarrow> if validate_client_hello input then Connected else WaitClientHello
      | _ \<Rightarrow> st)"

text \<open>\<open>decrypt_authenticated\<close> gets the ciphertext and the plaintext buffer, which starts as a copy of it, and
  returns whether the data is authentic and the buffer's new contents.\<close>

datatype ae_result = Ae_Success | Ae_Failure

definition decrypt :: "('key \<Rightarrow> u8 \<Rightarrow> u8 list \<Rightarrow> u8 list \<Rightarrow> bool \<times> u8 list) \<Rightarrow> 'key \<Rightarrow> u8 \<Rightarrow> u8 list \<Rightarrow> u8 list \<Rightarrow> ae_result \<times> u8 list" where
  "decrypt decrypt_authenticated key iv ciphertext pt_buffer =
     (let (authenticated, pt) = decrypt_authenticated key iv ciphertext pt_buffer in
      (if authenticated then Ae_Success else Ae_Failure, pt))"

definition decrypt_and_validate ::
  "('key \<Rightarrow> u8 \<Rightarrow> u8 list \<Rightarrow> u8 list \<Rightarrow> bool \<times> u8 list) \<Rightarrow> validator \<Rightarrow> 'key \<Rightarrow> u8 \<Rightarrow> u8 list \<Rightarrow> header option" where
  "decrypt_and_validate decrypt_authenticated check key iv ciphertext =
     (if length ciphertext = 0 then None
      else
        let (res, pt) = decrypt decrypt_authenticated key iv ciphertext ciphertext in
        if res = Ae_Success
        then (case (if validate_generated_subset_gate_buffer check pt then parse_dns_packet_bytes pt else None) of Some pkt \<Rightarrow> Some (p_header pkt) | None \<Rightarrow> None)
        else None)"

text \<open>A header comes only from an authentic ciphertext whose plaintext is a message with matching counts.\<close>

lemma decrypt_and_validate_Some:
  assumes "decrypt_and_validate aead check key iv ciphertext = Some h"
  shows "\<exists>pt pkt. aead key iv ciphertext ciphertext = (True, pt) \<and> generated_subset_applicable pt \<and> parse_dns_packet_bytes pt = Some pkt \<and>
    h = p_header pkt \<and> header_counts_match pkt"
  using assms parsed_packet(1) gate_applicable
  by (auto simp: decrypt_and_validate_def decrypt_def Let_def split: if_splits prod.splits option.splits)

lemma crypto_frame_connected: "process_crypto_frame v Connected input = Connected"
  by (simp add: process_crypto_frame_def)

end
