(* ===== verification/Dns_Cache.thy ===== *)
theory Dns_Cache
  imports Dns_Serializer
begin

text \<open>
  The recursive side: the bailiwick check of \<^verbatim>\<open>src/src/logic/DNS.Recursive.Security.fst\<close>, the cache slot of
  \<^verbatim>\<open>src/src/logic/DNS.Recursive.Cache.fst\<close> and the shard table of \<^verbatim>\<open>src/src/concurrency/DNS.Cache.Sharded.fst\<close>. The
  entries of a cache are the list that its buffer holds; a shard is the cache with its entries, so two shards
  that share one buffer are not represented. Nothing outside the authority zone is stored, and a stored
  record is returned under its name with its remaining lifetime until it expires.
\<close>

section \<open>Bailiwick\<close>

fun has_suffix :: "qname \<Rightarrow> qname \<Rightarrow> bool" where
  "has_suffix name suf =
     (if length suf > length name then False
      else if qname_eq name suf then True
      else case name of [] \<Rightarrow> False | _ # rest \<Rightarrow> has_suffix rest suf)"

declare has_suffix.simps [simp del]

definition is_subdomain :: "qname \<Rightarrow> qname \<Rightarrow> bool" where
  "is_subdomain child parent = has_suffix child parent"

definition validate_answer :: "qname \<Rightarrow> qname \<Rightarrow> resource_record \<Rightarrow> bool" where
  "validate_answer query authority_zone ans = (if is_subdomain (rr_name ans) authority_zone then True else False)"

section \<open>The cache\<close>

record cache_entry =
  ce_data :: resource_record
  ce_inserted :: u64
  ce_expiry :: u64

record dns_cache =
  c_entries :: "cache_entry option list"
  c_size :: u32

definition is_valid :: "cache_entry \<Rightarrow> u64 \<Rightarrow> bool" where
  "is_valid entry current_time \<longleftrightarrow> unat current_time < unat (ce_expiry entry)"

definition cache_entry_matches :: "cache_entry \<Rightarrow> qname \<Rightarrow> u64 \<Rightarrow> bool" where
  "cache_entry_matches entry name current_time \<longleftrightarrow> is_valid entry current_time \<and> qname_eq (rr_name (ce_data entry)) name"

definition cached_value :: "cache_entry \<Rightarrow> qname \<Rightarrow> u64 \<Rightarrow> resource_record option" where
  "cached_value entry name now =
     (if \<not> cache_entry_matches entry name now then None
      else
        let remaining = unat (ce_expiry entry) - unat now;
            ttl = (if remaining < unat (rr_ttl (ce_data entry)) then of_nat remaining else rr_ttl (ce_data entry)) in
        Some ((ce_data entry)\<lparr>rr_ttl := ttl\<rparr>))"

definition new_entry :: "resource_record \<Rightarrow> u64 \<Rightarrow> cache_entry" where
  "new_entry record_r now =
     (let expiry = (if unat now + unat (rr_ttl record_r) > 18446744073709551615 then 18446744073709551615
                    else unat now + unat (rr_ttl record_r)) in
      \<lparr>ce_data = record_r, ce_inserted = now, ce_expiry = of_nat expiry\<rparr>)"

definition get_from_cache :: "dns_cache \<Rightarrow> qname \<Rightarrow> u64 \<Rightarrow> resource_record option" where
  "get_from_cache cache name current_time =
     (if unat (c_size cache) = 0 then None
      else case c_entries cache ! 0 of
        Some entry \<Rightarrow> cached_value entry name current_time
      | None \<Rightarrow> None)"

definition add_to_cache :: "dns_cache \<Rightarrow> qname \<Rightarrow> qname \<Rightarrow> resource_record \<Rightarrow> u64 \<Rightarrow> bool \<times> dns_cache" where
  "add_to_cache cache query authority_zone record_r current_time =
     (if unat (c_size cache) = 0 \<or> \<not> validate_answer query authority_zone record_r \<or> \<not> well_formed_record record_r
      then (False, cache)
      else (True, cache\<lparr>c_entries := (c_entries cache)[0 := Some (new_entry record_r current_time)]\<rparr>))"

section \<open>The shard table\<close>

record sharded_cache =
  sc_shards :: "dns_cache list"
  sc_num :: u32

definition get_shard_index :: "qname \<Rightarrow> u32 \<Rightarrow> u32" where
  "get_shard_index name num_shards = 0"

definition concurrent_get :: "sharded_cache \<Rightarrow> qname \<Rightarrow> u64 \<Rightarrow> resource_record option" where
  "concurrent_get sc name now =
     (if unat (sc_num sc) = 0 then None
      else get_from_cache (sc_shards sc ! unat (get_shard_index name (sc_num sc))) name now)"

definition concurrent_add :: "sharded_cache \<Rightarrow> qname \<Rightarrow> qname \<Rightarrow> resource_record \<Rightarrow> u64 \<Rightarrow> bool \<times> sharded_cache" where
  "concurrent_add sc query authority_zone record_r now =
     (if unat (sc_num sc) = 0 then (False, sc)
      else
        let idx = unat (get_shard_index (rr_name record_r) (sc_num sc));
            (inserted, shard) = add_to_cache (sc_shards sc ! idx) query authority_zone record_r now in
        (inserted, sc\<lparr>sc_shards := (sc_shards sc)[idx := shard]\<rparr>))"

section \<open>Names\<close>

lemma qname_eq_refl [simp]: "qname_eq a a"
  by (simp add: qname_eq_def)

lemma qname_eq_sym: "qname_eq a b \<Longrightarrow> qname_eq b a"
  by (simp add: qname_eq_def)

lemma qname_eq_trans: "qname_eq a b \<Longrightarrow> qname_eq b c \<Longrightarrow> qname_eq a c"
  by (simp add: qname_eq_def)

lemma canonical_name_length [simp]: "length (canonical_name a) = length a"
  by (induction a) simp_all

lemma qname_eq_length: "qname_eq a b \<Longrightarrow> length a = length b"
  unfolding qname_eq_def by (metis canonical_name_length)

text \<open>A name is below a zone exactly when one of its suffixes is the zone's name up to letter case.\<close>

lemma has_suffix_iff: "has_suffix name zone \<longleftrightarrow> (\<exists>front back. name = front @ back \<and> qname_eq back zone)"
proof (induction name)
  case Nil
  then show ?case by (subst has_suffix.simps) (auto dest: qname_eq_length)
next
  case (Cons l name)
  let ?below = "\<lambda>n. \<exists>front back. n = front @ back \<and> qname_eq back zone"
  have step: "?below (l # name) \<longleftrightarrow> qname_eq (l # name) zone \<or> ?below name"
    by (metis Cons_eq_append_conv append_Nil)
  have short: "length zone \<le> length (l # name)" if "?below (l # name)"
    using that qname_eq_length by (metis length_append le_add2)
  show ?case
  proof (cases "length zone > length (l # name)")
    case True
    with short show ?thesis by (subst has_suffix.simps) auto
  next
    case False
    then have "has_suffix (l # name) zone \<longleftrightarrow> qname_eq (l # name) zone \<or> has_suffix name zone"
      by (subst has_suffix.simps) simp
    with Cons step show ?thesis by blast
  qed
qed

theorem is_subdomain_iff: "is_subdomain name zone \<longleftrightarrow> (\<exists>front back. name = front @ back \<and> qname_eq back zone)"
  by (simp add: is_subdomain_def has_suffix_iff)

section \<open>Lifetimes\<close>

lemma unat_of_nat_u64: "n < 18446744073709551616 \<Longrightarrow> unat (of_nat n :: u64) = n"
  by (simp add: unat_of_nat take_bit_eq_mod)

lemma new_entry_expiry:
  "unat (ce_expiry (new_entry r now)) = min 18446744073709551615 (unat now + unat (rr_ttl r))"
  by (simp add: new_entry_def Let_def unat_of_nat_u64 min_def)

text \<open>What a stored record looks like at any later or earlier time.\<close>

definition served :: "resource_record \<Rightarrow> u64 \<Rightarrow> qname \<Rightarrow> u64 \<Rightarrow> resource_record option" where
  "served r stored name now =
     (let expiry = min 18446744073709551615 (unat stored + unat (rr_ttl r)) in
      if unat now < expiry \<and> qname_eq (rr_name r) name
      then Some (r\<lparr>rr_ttl := of_nat (min (expiry - unat now) (unat (rr_ttl r)))\<rparr>) else None)"

lemma cached_new_entry: "cached_value (new_entry r stored) name now = served r stored name now"
proof -
  have d: "ce_data (new_entry r stored) = r" by (simp add: new_entry_def)
  show ?thesis
    by (auto simp: cached_value_def served_def Let_def cache_entry_matches_def is_valid_def new_entry_expiry d
        intro: arg_cong [where f = "\<lambda>t. r\<lparr>rr_ttl := t\<rparr>"])
qed

text \<open>At or after the insertion, away from the end of time, the lifetime goes down with the clock.\<close>

lemma served_ages:
  assumes "unat stored \<le> unat now" and "unat stored + unat (rr_ttl r) \<le> 18446744073709551615" and "qname_eq (rr_name r) name"
  shows "served r stored name now =
    (if unat now - unat stored < unat (rr_ttl r)
     then Some (r\<lparr>rr_ttl := rr_ttl r - of_nat (unat now - unat stored)\<rparr>) else None)"
proof -
  let ?age = "unat now - unat stored"
  have e: "min 18446744073709551615 (unat stored + unat (rr_ttl r)) = unat stored + unat (rr_ttl r)" using assms(2) by simp
  have "unat stored + unat (rr_ttl r) - unat now = unat (rr_ttl r) - ?age" using assms(1) by simp
  moreover have "of_nat (unat (rr_ttl r) - ?age) = rr_ttl r - of_nat ?age" if "?age < unat (rr_ttl r)"
    using that by (simp add: of_nat_diff less_imp_le_nat)
  ultimately show ?thesis using assms(1,3) unfolding served_def Let_def e by (auto simp: min_def)
qed

section \<open>The cache as a whole\<close>

definition cache_ok :: "dns_cache \<Rightarrow> bool" where
  "cache_ok cache \<longleftrightarrow> unat (c_size cache) \<le> length (c_entries cache)"

theorem add_then_get:
  assumes "cache_ok cache" and "add_to_cache cache query zone r stored = (inserted, cache')"
  shows "inserted \<longleftrightarrow> c_size cache \<noteq> 0 \<and> is_subdomain (rr_name r) zone \<and> well_formed_record r"
    and "get_from_cache cache' name now = (if inserted then served r stored name now else get_from_cache cache name now)"
    and "cache_ok cache'"
proof -
  show i: "inserted \<longleftrightarrow> c_size cache \<noteq> 0 \<and> is_subdomain (rr_name r) zone \<and> well_formed_record r"
    using assms(2) by (auto simp: add_to_cache_def validate_answer_def unat_eq_0 split: if_splits)
  show "get_from_cache cache' name now = (if inserted then served r stored name now else get_from_cache cache name now)"
  proof (cases inserted)
    case True
    then have "0 < unat (c_size cache)" using i by (simp add: unat_gt_0)
    then have "0 < length (c_entries cache)" using assms(1) unfolding cache_ok_def by linarith
    with True i assms(2) show ?thesis
      by (auto simp: add_to_cache_def get_from_cache_def cached_new_entry unat_eq_0 split: if_splits)
  qed (use assms(2) in \<open>auto simp: add_to_cache_def split: if_splits\<close>)
  show "cache_ok cache'" using assms by (auto simp: add_to_cache_def cache_ok_def split: if_splits)
qed

text \<open>The shard table with the routing of the sources: every name goes to the first shard.\<close>

definition shards_ok :: "sharded_cache \<Rightarrow> bool" where
  "shards_ok sc \<longleftrightarrow> unat (sc_num sc) \<le> length (sc_shards sc) \<and> list_all cache_ok (sc_shards sc)"

theorem sharded_add_then_get:
  assumes "shards_ok sc" and "concurrent_add sc query zone r stored = (inserted, sc')"
  shows "concurrent_get sc' name now = (if inserted then served r stored name now else concurrent_get sc name now)"
    and "inserted \<Longrightarrow> is_subdomain (rr_name r) zone" and "shards_ok sc'"
proof -
  have "concurrent_get sc' name now = (if inserted then served r stored name now else concurrent_get sc name now) \<and>
      (inserted \<longrightarrow> is_subdomain (rr_name r) zone) \<and> shards_ok sc'"
  proof (cases "sc_num sc = 0")
    case True
    then show ?thesis using assms by (simp add: concurrent_add_def concurrent_get_def unat_eq_0)
  next
    case False
    then have "0 < unat (sc_num sc)" by (simp add: unat_gt_0)
    then have len: "0 < length (sc_shards sc)" using assms(1) unfolding shards_ok_def by linarith
    then have ok: "cache_ok (sc_shards sc ! 0)" using assms(1) by (simp add: shards_ok_def list_all_length)
    obtain cache' where run: "add_to_cache (sc_shards sc ! 0) query zone r stored = (inserted, cache')"
      and sc': "sc' = sc\<lparr>sc_shards := (sc_shards sc)[0 := cache']\<rparr>"
      using assms(2) False by (auto simp: concurrent_add_def get_shard_index_def Let_def unat_eq_0 split: prod.splits)
    note A = add_then_get [OF ok run]
    have "shards_ok sc'"
      using assms(1) A(3) set_update_subset_insert [of "sc_shards sc" 0 cache'] by (auto simp: shards_ok_def sc' list_all_iff)
    with A(1,2) False len show ?thesis
      by (simp add: concurrent_get_def get_shard_index_def sc' unat_eq_0)
  qed
  then show "concurrent_get sc' name now = (if inserted then served r stored name now else concurrent_get sc name now)"
    "inserted \<Longrightarrow> is_subdomain (rr_name r) zone" "shards_ok sc'" by blast+
qed

section \<open>The contract of a cache\<close>

text \<open>What a client of a cache may rely on: a refused record leaves every answer as it was, a stored one
  decides the answers from then on, and only records of the authority zone are stored. The laws
  carry over to any sequence of insertions.\<close>

type_synonym insertion = "qname \<times> qname \<times> resource_record \<times> u64"

primrec run_adds :: "('c \<Rightarrow> qname \<Rightarrow> qname \<Rightarrow> resource_record \<Rightarrow> u64 \<Rightarrow> bool \<times> 'c) \<Rightarrow> 'c \<Rightarrow> insertion list \<Rightarrow> 'c" where
  "run_adds add c [] = c"
| "run_adds add c (i # is) = (case i of (query, zone, r, stored) \<Rightarrow> run_adds add (snd (add c query zone r stored)) is)"

definition inserted_by :: "insertion list \<Rightarrow> qname \<Rightarrow> u64 \<Rightarrow> resource_record \<Rightarrow> bool" where
  "inserted_by is name now answer \<longleftrightarrow>
     (\<exists>query zone r stored. (query, zone, r, stored) \<in> set is \<and> is_subdomain (rr_name r) zone \<and> served r stored name now = Some answer)"

locale answer_cache =
  fixes ok :: "'c \<Rightarrow> bool"
    and add :: "'c \<Rightarrow> qname \<Rightarrow> qname \<Rightarrow> resource_record \<Rightarrow> u64 \<Rightarrow> bool \<times> 'c"
    and get :: "'c \<Rightarrow> qname \<Rightarrow> u64 \<Rightarrow> resource_record option"
  assumes add_ok: "ok c \<Longrightarrow> ok (snd (add c query zone r stored))"
    and add_bailiwick: "ok c \<Longrightarrow> fst (add c query zone r stored) \<Longrightarrow> is_subdomain (rr_name r) zone"
    and get_add: "ok c \<Longrightarrow> get (snd (add c query zone r stored)) name now =
      (if fst (add c query zone r stored) then served r stored name now else get c name now)"
begin

lemma run_ok: "ok c \<Longrightarrow> ok (run_adds add c is)"
  by (induction "is" arbitrary: c) (auto simp: add_ok)

lemma run_append: "run_adds add c (is @ js) = run_adds add (run_adds add c is) js"
  by (induction "is" arbitrary: c) auto

lemma get_origin:
  "ok c \<Longrightarrow> get (run_adds add c is) name now = Some answer \<Longrightarrow> get c name now = Some answer \<or> inserted_by is name now answer"
proof (induction "is" arbitrary: c)
  case (Cons i "is")
  obtain query zone r stored where i: "i = (query, zone, r, stored)" by (cases i)
  let ?a = "add c query zone r stored"
  have "get (snd ?a) name now = Some answer \<or> inserted_by is name now answer"
    using Cons.IH [OF add_ok [OF Cons.prems(1)]] Cons.prems(2) by (simp add: i)
  then consider "get (snd ?a) name now = Some answer" | "inserted_by is name now answer" by blast
  then show ?case
  proof cases
    case 1
    then show ?thesis
      using get_add [OF Cons.prems(1), of query zone r stored name now] add_bailiwick [OF Cons.prems(1), of query zone r stored]
      by (cases "fst ?a") (auto simp: i inserted_by_def)
  next
    case 2
    then show ?thesis by (auto simp: inserted_by_def)
  qed
qed simp

lemma get_last:
  assumes "ok c" and "fst (add (run_adds add c is) query zone r stored)"
  shows "get (run_adds add c (is @ [(query, zone, r, stored)])) name now = served r stored name now"
  using assms by (simp add: run_append get_add run_ok)

end

interpretation first_slot: answer_cache cache_ok add_to_cache get_from_cache
proof
  fix cache query zone r stored name now
  assume ok: "cache_ok cache"
  note laws = add_then_get [OF ok surjective_pairing]
  show "cache_ok (snd (add_to_cache cache query zone r stored))" by (rule laws(3))
  show "is_subdomain (rr_name r) zone" if "fst (add_to_cache cache query zone r stored)" using laws(1) that by blast
  show "get_from_cache (snd (add_to_cache cache query zone r stored)) name now =
      (if fst (add_to_cache cache query zone r stored) then served r stored name now else get_from_cache cache name now)"
    by (rule laws(2))
qed

interpretation shards: answer_cache shards_ok concurrent_add concurrent_get
proof
  fix sc query zone r stored name now
  assume ok: "shards_ok sc"
  note laws = sharded_add_then_get [OF ok surjective_pairing]
  show "shards_ok (snd (concurrent_add sc query zone r stored))" by (rule laws(3))
  show "is_subdomain (rr_name r) zone" if "fst (concurrent_add sc query zone r stored)" using laws(2) that by blast
  show "concurrent_get (snd (concurrent_add sc query zone r stored)) name now =
      (if fst (concurrent_add sc query zone r stored) then served r stored name now else concurrent_get sc name now)"
    by (rule laws(1))
qed

end
