(* ===== verification/Dns_Scenario.thy ===== *)
theory Dns_Scenario
  imports Scenario Dns_Worker Dns_Cache
begin

text \<open>
  Concrete messages and states for the DNS theories: a query for \<^verbatim>\<open>API.example.com\<close> on a stream that is ready for
  processing, a message with a compressed name, and a cache of one slot.
\<close>

definition api_query :: "u8 list" where
  "api_query = [0, 0, 1, 0, 0, 1, 0, 0, 0, 0, 0, 0, 3, 0x41, 0x50, 0x49, 7, 0x65, 0x78, 0x61, 0x6d, 0x70, 0x6c, 0x65,
     3, 0x63, 0x6f, 0x6d, 0, 0, 1, 0, 1]"

definition api_name :: qname where
  "api_name = [[0x41, 0x50, 0x49], label_example, label_com]"

definition recursion_desired :: dns_flags where
  "recursion_desired = \<lparr>fl_qr = False, fl_opcode = 0, fl_aa = False, fl_tc = False, fl_rd = True, fl_ra = False, fl_z = False,
     fl_ad = False, fl_cd = False, fl_rcode = 0\<rparr>"

definition api_request :: dns_packet where
  "api_request = \<lparr>p_header = \<lparr>h_id = 0, h_flags = recursion_desired, h_qdcount = 1, h_ancount = 0, h_nscount = 0, h_arcount = 0\<rparr>,
     p_questions = [\<lparr>q_qname = api_name, q_qtype = A, q_qclass = 1\<rparr>], p_answers = [], p_authorities = [], p_additionals = []\<rparr>"

text \<open>Two questions; the name of the second is a pointer to the name of the first.\<close>

definition compressed_message :: "u8 list" where
  "compressed_message = [0, 0, 1, 0, 0, 2, 0, 0, 0, 0, 0, 0, 1, 0x61, 0, 0, 1, 0, 1, 0xc0, 12, 0, 1, 0, 1]"

definition processing_conn :: ism_shell_connection where
  "processing_conn = \<lparr>conn_ctx = \<lparr>cc_active = ConnActive, cc_num = 1, cc_capacity = 4\<rparr>,
     conn_active = [Some 0, Some 1, Some 2, Some 3],
     conn_streams = (map raw_slot [0..<4])[0 := (raw_slot 0)\<lparr>ss_ctx := \<lparr>sc_id = 4, sc_phase = S_Processing 33, sc_buf = 131072\<rparr>,
       ss_active := True\<rparr>]\<rparr>"

definition api_mem :: mem where
  "api_mem = mem_write (\<lambda>_. 0) 131072 api_query"

text \<open>Validators that accept the documented grammar of a question and nothing else.\<close>

definition grammar_check :: validator where
  "grammar_check c bs = (case c of Check_question n \<Rightarrow> dns_question_check n bs \<noteq> 0 | _ \<Rightarrow> False)"

definition one_slot_cache :: dns_cache where
  "one_slot_cache = \<lparr>c_entries = [None], c_size = 1\<rparr>"

lemma api_name_bytes: "serialize_qname_labels api_name = take 17 (drop 12 api_query)"
  by (simp add: api_name_def api_query_def label_example_def label_com_def)

lemma api_request_ok: "packet_ok api_request" "packet_bytes api_request api_query"
proof -
  have name: "valid_name api_name" "dns_name_length api_name = 17"
    by (simp_all add: api_name_def label_example_def label_com_def valid_label_def)
  have type_a: "qtype_to_u16 A = 1" "u16_to_qtype 1 = A" by (simp_all add: u16_to_qtype_def)
  show "packet_ok api_request"
    by (simp add: packet_ok_def header_counts_match_def api_request_def recursion_desired_def valid_flags_def valid_question_def
        normal_qtype_def name type_a)
  have "serialize_header_bytes (p_header api_request) = take 12 api_query"
    by (simp add: api_request_def recursion_desired_def serialize_header_bytes_def flags_to_u16_def u16_hi_def u16_lo_def api_query_def)
  moreover have "serialize_questions_bytes (p_questions api_request) = Some (drop 12 api_query)"
    by (simp add: api_request_def serialize_question_bytes_def serialize_qname_uncompressed_def name type_a u16_hi_def u16_lo_def api_name_bytes)
      (simp add: api_query_def)
  ultimately show "packet_bytes api_request api_query"
    by (simp add: packet_bytes_def) (simp add: api_request_def)
qed

lemma api_mem_bytes: "mem_bytes api_mem 131072 33 = api_query"
proof -
  have "length api_query = 33" by (simp add: api_query_def)
  with mem_bytes_write_same [of "\<lambda>_. 0" 131072 api_query] show ?thesis by (simp add: api_mem_def)
qed

lemma grammar_check_documented: "question_validator (\<lambda>n bs. if grammar_check (Check_question n) bs then 1 else 0)"
  by unfold_locales (simp add: grammar_check_def dns_question_check_def)

lemma api_plain: "plain_query api_request"
  by (simp add: plain_query_def api_request_def)

lemma processing_stream:
  "find_stream processing_conn 4 = Some 0"
  "stream_at processing_conn (Some 0) = \<lparr>sc_id = 4, sc_phase = S_Processing 33, sc_buf = 131072\<rparr>"
  by (simp_all add: processing_conn_def find_stream_def find_stream_from.simps stream_at_def Let_def)

lemma parse_api_query: "parse_dns_packet_bytes api_query = Some api_request"
  by (rule packet_roundtrip [OF api_request_ok])

lemmas record_check = record_ok_def well_formed_record_def serializable_rdata_def zone_defs valid_label_def bytes_to_list_def
  u16_to_qtype_def valid_rdata_length_def valid_rdata_shape_def valid_rr_position_and_shape_def

lemma exact_record_ok: "record_ok False exact_record"
  by (simp add: record_check)

lemma wildcard_record_ok: "record_ok False wildcard_record"
  by (simp add: record_check)

lemma wildcard_zone_ok: "zone_ok wildcard_test_root"
  using exact_record_ok wildcard_record_ok
  by (simp add: zone_ok_def wildcard_test_root_def com_node_with_wildcard_def example_node_with_wildcard_def
      exact_leaf_def wildcard_leaf_def)

text \<open>The name of \<^verbatim>\<open>www\<close> in capitals is found exactly, and \<^verbatim>\<open>API\<close> through the wildcard.\<close>

lemmas lookup_eval = lookup_dns_name_def name_to_tree_key_def wildcard_test_root_def com_node_with_wildcard_def
  example_node_with_wildcard_def exact_leaf_def wildcard_leaf_def label_eq_def canonical_label_def fold_ascii_def
  label_www_def label_example_def label_com_def wildcard_label_def

lemma zone_examples:
  "qname_eq [[0x57, 0x57, 0x57], label_example, label_com] [label_www, label_example, label_com]"
  "lookup_exact wildcard_test_root (rev [label_www, label_example, label_com]) = Some [exact_record]"
  "lookup_dns_name wildcard_test_root api_name = Some [wildcard_record]"
  by (simp_all add: lookup_eval qname_eq_def api_name_def)

lemma resolve_api: "resolve_authoritative_request wildcard_test_root api_request = Success [wildcard_record]"
  using zone_examples(3)
  by (simp add: resolve_authoritative_request_def resolve_authoritative_question_def api_request_def chase_cname.simps
      wildcard_record_def rr_matches_question_def)

lemma exact_record_zones:
  "is_subdomain (rr_name exact_record) [label_com]" "\<not> is_subdomain (rr_name exact_record) [label_www]"
  by (simp_all add: is_subdomain_def has_suffix.simps exact_record_def qname_eq_def canonical_label_def fold_ascii_def
      label_www_def label_example_def label_com_def)

lemma compressed_message_names: "message_name_offsets compressed_message = [12, 14, 19]"
  by (simp add: message_name_offsets_def compressed_message_def wire_u16_def scan_wire_questions.simps
      scan_wire_records.simps scan_wire_name.simps is_pointer_def)

lemma compressed_reading:
  "name_at compressed_message (message_name_offsets compressed_message) 19 (drop 19 compressed_message) [[0x61]] [0, 1, 0, 1]"
proof -
  let ?known = "message_name_offsets compressed_message"
  have "name_at compressed_message ?known 12 (of_nat (length [0x61 :: u8]) # [0x61] @ 0 # drop 15 compressed_message) [[0x61]]
      (drop 15 compressed_message)"
    by (intro name_label name_end) (simp add: valid_label_def)
  moreover have "of_nat (length [0x61 :: u8]) # [0x61] @ 0 # drop 15 compressed_message = drop 12 compressed_message"
    by (simp add: compressed_message_def)
  ultimately have "name_at compressed_message ?known (pointer_offset 0xc0 12) (drop (pointer_offset 0xc0 12) compressed_message)
      [[0x61]] (drop 15 compressed_message)"
    by (simp add: pointer_offset_def)
  then have "name_at compressed_message ?known 19 (0xc0 # 12 # [0, 1, 0, 1]) [[0x61]] [0, 1, 0, 1]"
    by (rule name_pointer [rotated 3])
      (simp_all add: is_pointer_def pointer_offset_def valid_pointer_target_def compressed_message_names,
       simp add: compressed_message_def)
  then show ?thesis by (simp add: compressed_message_def)
qed

end
