(* ===== verification/Spec2Isabelle.thy ===== *)
theory Spec2Isabelle
  imports Scenario Pulse_Value Pulse_Send Dns_Scenario
begin

text \<open>
  A DNS-over-QUIC responder. The program has a verified core written in F* and Low*
  (\<^verbatim>\<open>src/src\<close>), a C shell that embeds it (\<^verbatim>\<open>src/shell\<close>), and a candidate lane written in Pulse
  behind a C interface (\<^verbatim>\<open>src/migration\<close>) that build flags select piece by piece in place of the
  stable core. A query arrives on a QUIC stream as a two-byte big-endian length and a DNS message,
  ended by FIN; the response goes back framed the same way on the same stream.

  \<^bold>\<open>Parts and how they interact.\<close> MsQuic calls the stream and connection runtimes from its callbacks.
  A runtime copies the received fragments to its ingress buffer, enqueues an event in the bounded
  queue and dispatches it to the adapter. The adapter owns one shell connection (four streams, each
  with a message buffer of 65535 bytes), one response buffer and one send buffer: it feeds
  fragments to the stream's context, on FIN asks the minimal worker for a response, frames it and
  hands it to the transport, and closes the stream when the send completes or the stream is
  reset. At most one send is in flight.

  \<^bold>\<open>Theories.\<close>

  \<^item> \<open>Prelude\<close>: word types, the flat byte memory (\<open>mem\<close>, a function from addresses to bytes with
    copy, write and frame lemmas), pointers that may be null.
  \<^item> \<open>StreamModel\<close>, \<open>StreamMapping\<close>: the framing machine (\<^verbatim>\<open>DNS.QUIC.StreamModel.fst\<close>) and the stream
    context with its data and FIN handlers (\<^verbatim>\<open>DNS.QUIC.StreamMapping.fst\<close>,
    \<^verbatim>\<open>DNS.QUIC.MsQuicIngress.fst\<close>). \<open>doq_phase\<close> is the specification, a function of the whole byte
    sequence; the handlers refine it for every fragmentation.
  \<^item> \<open>Worker\<close>, \<open>ResponseFraming\<close>: the request validator and response selector
    (\<^verbatim>\<open>DNS.Worker.Minimal.fst\<close>) and the framing of responses (\<^verbatim>\<open>DNS.QUIC.ResponseModel.fst\<close>,
    \<^verbatim>\<open>DNS.ShellResponseBoundary.fst\<close>). The question check that the build generates is the field
    \<open>check_question\<close> of a \<open>build\<close>; the locale \<open>question_validator\<close> states its documented grammar.
  \<^item> \<open>Multiplexer\<close>, \<open>Boundary\<close>: the stream table (\<^verbatim>\<open>DNS.QUIC.Multiplexer.fst\<close>) in the storage layout of
    \<^verbatim>\<open>ism_shell.h\<close>, and the entry points of the core that C calls.
  \<^item> \<open>Pulse_Stream\<close>, \<open>Pulse_Table\<close>, \<open>Pulse_Response\<close>: the candidate lane: wire phases, snapshots of the
    table, range checks (\<^verbatim>\<open>ism_pulse_stream.c\<close>, \<^verbatim>\<open>ism_pulse_table.c\<close>, \<^verbatim>\<open>ism_pulse_response.c\<close>, their
    adapters under \<^verbatim>\<open>src/shell\<close>), and its equality with the stable lane.
  \<^item> \<open>Shell\<close>, \<open>Stream_Table\<close>, \<open>Shell_Steps\<close>: \<^verbatim>\<open>ism_shell.c\<close> with its build flags; the contract of a
    stream table as a locale, interpreted on the shell's operations; the states reachable from
    initialisation as an inductive relation.
  \<^item> \<open>Event_Queue\<close>: \<^verbatim>\<open>ism_event_queue.c\<close>; the ring buffer is an interpretation of the locale of bounded
    queues.
  \<^item> \<open>Adapter\<close>, \<open>Dispatch\<close>, \<open>Adapter_Steps\<close>: \<^verbatim>\<open>msquic_adapter.c\<close>, the dispatch functions of the queue,
    and the states reachable by any sequence of calls and queued events. The send function is an
    argument with its own context (\<open>sh_ctx\<close>).
  \<^item> \<open>Runtime\<close>, \<open>Conn_Runtime\<close>: \<^verbatim>\<open>msquic_runtime.c\<close> and \<^verbatim>\<open>msquic_connection_runtime.c\<close>. The MsQuic
    functions are the fields of a record \<open>quic_api\<close> over an arbitrary world.
  \<^item> \<open>Runtime_Errors\<close>: bytes that cannot be a frame, late bytes and refused FINs through the runtime.
  \<^item> \<open>Pulse_Value\<close>, \<open>Pulse_Send\<close>: two further candidates: the value pilot with its C interface
    (\<^verbatim>\<open>DNS.Migration.PulseShellBoundaryValue.fst\<close>, \<^verbatim>\<open>pulse_value_ffi.rs\<close>) and the reservation of a pending send
    (\<^verbatim>\<open>DNS.Migration.PulseSend.fst\<close>).
  \<^item> \<open>Dns_Name\<close>, \<open>Dns_Packet\<close>, \<open>Dns_Parser\<close>, \<open>Dns_Serializer\<close>, \<open>Dns_Gate\<close>: domain names with compression
    (\<^verbatim>\<open>DNS.Name.fst\<close>), messages and EDNS options (\<^verbatim>\<open>DNS.Protocol.fst\<close>, \<^verbatim>\<open>DNS.Protocol.OPT.fst\<close>), the message parser and
    the gate in front of it (\<^verbatim>\<open>DNS.Protocol.Parser.fst\<close>), and the serializer (\<^verbatim>\<open>DNS.Protocol.Serializer.fst\<close>). The generated validators that
    the gate asks are the parameter \<open>check\<close>.
  \<^item> \<open>Dns_Zone\<close>, \<open>Dns_Cache\<close>, \<open>Dns_Worker\<close>: the authoritative zone (\<^verbatim>\<open>DNS.Zone.RadixTree.fst\<close>,
    \<^verbatim>\<open>DNS.Zone.Parser.fst\<close>), the caches as two interpretations of one locale (\<^verbatim>\<open>DNS.Recursive.Cache.fst\<close>, \<^verbatim>\<open>DNS.Cache.Sharded.fst\<close>,
    \<^verbatim>\<open>DNS.Recursive.Security.fst\<close>), and the full worker with the handshake and decryption steps
    (\<^verbatim>\<open>DNS.Worker.fst\<close>, \<^verbatim>\<open>src/src/security\<close>), whose cryptography is a parameter.
  \<^item> \<open>Smoke_Base\<close>, \<open>Smoke_Adapter\<close>, \<open>Smoke_Queue\<close>, \<open>Smoke_Framing\<close>, \<open>Smoke_Shell\<close>, \<open>Smoke_Runtime\<close>, \<open>Smoke_Connection\<close>,
    \<open>Smoke_Protocol\<close>, \<open>Smoke_Audit\<close>, \<open>Smoke_Table\<close>, \<open>Smoke_Stream\<close>, \<open>Smoke_Response\<close>: the repository's test programs of the shell and of
    the candidate lanes, condition by condition. \<open>Link_Smoke\<close>: the program that runs the linked tests (\<^verbatim>\<open>link_smoke.c\<close>), and
    the validators' contract, with the grammars of \<^verbatim>\<open>src/everparse/DNSProtocol.3d\<close> that the tests call.
  \<^item> \<open>Live_Msquic\<close>: the four programs that drive the real MsQuic library, with the library, its threads and the network as
    a parameter that answers every call; \<open>Live_Server\<close>: the server side of the stream program answers the query with the bytes its
    client expects.
  \<^item> \<open>Scenario\<close>, \<open>Dns_Scenario\<close>: concrete builds, memory, messages and states that satisfy the contracts.

  \<^bold>\<open>What the theorems show.\<close> Framing of one stream: the machine is independent of fragmentation, accepts
  exactly the complete frames, keeps its invariant, and never plans a copy outside the buffers.
  Responses: frames are correct on every branch, read back, and the worker answers exactly the
  questions it may answer. Streams of a connection: the table refines a bounded partial map, its pointers are
  stable, slots are fresh when reused, every reachable connection satisfies the invariant, and
  input on one stream leaves the others alone. Lanes: the stable and candidate lanes are equal,
  the candidate refuses what it cannot handle without touching memory, and a pending send keeps its context while
  the table changes. Event queue: it is first-in first-out and bounded, and where its 32-bit index arithmetic goes wrong. Adapter: every
  reachable adapter satisfies the invariant, the send buffer is not written while a send is in flight,
  only the matching completion releases it, and FIN of a query is answered, at once or after the
  completion of the send in flight. Runtimes: the same through the MsQuic callbacks, and protocol errors close the
  connection. DNS: names and messages are read back exactly, compressed names have one reading, lookup and the CNAME chase
  follow the zone, the caches serve only records of their authority zone until they expire, and the full worker answers every plain query. Tests:
  the test programs return true for every build and placement of their variables, and the live programs release what they acquire whatever the
  library answers.

  \<^bold>\<open>Machine integers, loops and errors.\<close> C and Low* integers are words of their width, except the indices of the worker's name
  scan and question copy, which the source keeps below a 32-bit length and the model counts in \<open>nat\<close>; addresses
  are natural numbers, with the bound \<open>UINTPTR_MAX\<close> written out where the sources test it. Every loop of the C code is a
  total function with a proved measure. The F* name parsers carry fuel in the source: 128 is proved enough for
  every name of 255 bytes, and for compressed names the bound counts the earlier positions. The CNAME chase has the source's 15 hops, and what happens
  when they run out is part of its theorem. Status codes are values; a null pointer is a constructor or address 0, and every early return is a branch. Enumerations are
  datatypes, so a default branch for a value outside the enumeration, as in the dispatch of queued events, has no counterpart.

  \<^bold>\<open>Not modelled.\<close> EverParse and KaRaMeL output is generated by the build and enters as parameters; the stubs for the KaRaMeL runtime
  compute on a type of its header, and the modules that only record which validators are linked have no behaviour. The
  programs that compare the two lanes on chosen inputs are replaced by the proof that the lanes are equal.
  What the live programs print, and checks that a linked function has an address, are left out.
\<close>

section \<open>Framing of one stream\<close>

text \<open>C1. Fragmentation does not matter: however the bytes of a stream are cut into fragments, the
  context ends in the phase that the whole byte sequence determines, and unless the sequence is a
  protocol error the message buffer holds exactly the bytes after the two-byte length prefix.
  Nothing outside the 65535 bytes of the message buffer changes.\<close>

theorem fragmentation_independent:
  assumes "sc_phase ctx = S_ReadingLength"
    and "\<forall>(data, len)\<in>set frags. ranges_disjoint data (unat len) (sc_buf ctx) 65535"
    and "handle_fragments ctx frags m = (ctx', m')" and "bs = fragment_bytes_of m frags"
  shows "to_model (sc_phase ctx') = doq_phase bs \<and> mem_frame (sc_buf ctx) 65535 m m' \<and>
    (doq_phase bs \<noteq> Done \<longrightarrow> mem_bytes m' (sc_buf ctx) (length bs - 2) = drop 2 bs)"
  using handle_fragments_holds [OF stream_holds_init [OF assms(1)] assms(2,3)] assms(4)
  by (auto simp: stream_holds_def)

theorem fragmentation_independent_witness:
  "\<exists>ctx' m'. handle_fragments \<lparr>sc_id = 4, sc_phase = S_ReadingLength, sc_buf = 131072\<rparr>
       [(3500000, 1), (3500001, 4), (3500005, 16)] demo_mem = (ctx', m')
     \<and> sc_phase ctx' = S_AwaitingFin 19 \<and> mem_bytes m' 131072 19 = query_message"
proof -
  let ?ctx = "\<lparr>sc_id = 4, sc_phase = S_ReadingLength, sc_buf = 131072\<rparr>"
  let ?frags = "[(3500000, 1), (3500001, 4), (3500005, 16)] :: (addr \<times> u32) list"
  obtain ctx' m' where run: "handle_fragments ?ctx ?frags demo_mem = (ctx', m')" by fastforce
  have "mem_bytes demo_mem 3500000 (1 + (4 + 16)) = framed_query" using demo_mem_bytes by simp
  then have bs: "fragment_bytes_of demo_mem ?frags = framed_query"
    unfolding mem_bytes_add by (simp add: fragment_bytes_of_def)
  have "\<forall>(data, len)\<in>set ?frags. ranges_disjoint data (unat len) (sc_buf ?ctx) 65535"
    by (simp add: ranges_disjoint_def)
  from fragmentation_independent [OF _ this run bs [symmetric]]
  have "to_model (sc_phase ctx') = AwaitingFin 19 \<and> mem_bytes m' 131072 19 = drop 2 framed_query"
    by (simp add: framed_query_phase length_framed_query)
  moreover have "drop 2 framed_query = query_message" by (simp add: framed_query_def)
  ultimately have "sc_phase ctx' = S_AwaitingFin 19" and "mem_bytes m' 131072 19 = query_message"
    by (metis from_model.simps(4) from_to_model, simp)
  then show ?thesis using run by blast
qed

text \<open>C2. A FIN makes a stream ready for processing exactly when the bytes received are one complete
  frame: a length prefix that matches, at least a DNS header, and a zero message ID as DNS over QUIC
  requires. The processing phase carries that length.\<close>

theorem fin_accepts_exact_frame:
  assumes "stream_holds bs ctx m"
  shows "handle_stream_fin ctx m = (S_Processing n, ctx\<lparr>sc_phase := S_Processing n\<rparr>) \<longleftrightarrow>
    12 \<le> unat n \<and> length bs = unat n + 2 \<and> unat (bs ! 0) * 256 + unat (bs ! 1) = unat n \<and>
    bs ! 2 = 0 \<and> bs ! 3 = 0"
  by (rule fin_processing_iff [OF assms])

theorem fin_accepts_exact_frame_witness:
  "handle_stream_fin \<lparr>sc_id = 4, sc_phase = S_AwaitingFin 19, sc_buf = 3500002\<rparr> demo_mem
     = (S_Processing 19, \<lparr>sc_id = 4, sc_phase = S_Processing 19, sc_buf = 3500002\<rparr>)"
proof -
  have "mem_bytes demo_mem 3500002 19 = drop 2 framed_query"
    using demo_query_bytes by (simp add: framed_query_def)
  then have "stream_holds framed_query \<lparr>sc_id = 4, sc_phase = S_AwaitingFin 19, sc_buf = 3500002\<rparr> demo_mem"
    by (simp add: stream_holds_def framed_query_phase length_framed_query)
  from fin_accepts_exact_frame [OF this, of 19] show ?thesis
    by (simp add: framed_query_def query_message_def)
qed

text \<open>C3. The phase type invariant: a bounded and valid phase (announced length between 12 and 65535,
  fewer bytes received than announced while reading) stays so under a fragment of any length and
  contents and under FIN. A failed stream stays failed: in the done phase neither a fragment nor a FIN
  changes the context or the memory.\<close>

theorem phase_invariant:
  assumes "valid_phase (to_model (sc_phase ctx))" and "phase_bounded (to_model (sc_phase ctx))"
    and "handle_stream_data ctx data len m = (phase, ctx', m')" and "handle_stream_fin ctx m = (phase2, ctx2)"
  shows "valid_phase (to_model (sc_phase ctx')) \<and> phase_bounded (to_model (sc_phase ctx')) \<and>
    valid_phase (to_model (sc_phase ctx2)) \<and> phase_bounded (to_model (sc_phase ctx2)) \<and>
    (sc_phase ctx = S_Done \<longrightarrow> phase = S_Done \<and> ctx' = ctx \<and> m' = m \<and> phase2 = S_Done \<and> ctx2 = ctx)"
proof -
  have "copy_count (fragment_copy_plan Done len a b) = 0" for a b
    by (simp add: fragment_copy_plan_def Let_def)
  then have "sc_phase ctx = S_Done \<longrightarrow> phase = S_Done \<and> ctx' = ctx \<and> m' = m \<and> phase2 = S_Done \<and> ctx2 = ctx"
    using assms(3,4)
    by (auto simp: handle_stream_data_def handle_stream_fin_def next_stream_phase_def copy_body_bytes_def Let_def
        stream_fragment_phase_def stream_finish_doq_phase_def)
  then show ?thesis
    using assms handle_stream_data_valid [OF assms(3)] handle_stream_fin_valid [OF assms(4)]
      handle_stream_data_ctx [OF assms(3)]
    by simp
qed

theorem phase_invariant_witness:
  "\<exists>phase ctx' m' phase2 ctx2.
     handle_stream_data \<lparr>sc_id = 4, sc_phase = S_ReadingMessage (19, 3), sc_buf = 131072\<rparr> 3500005 16 demo_mem
       = (phase, ctx', m') \<and>
     handle_stream_fin \<lparr>sc_id = 4, sc_phase = S_ReadingMessage (19, 3), sc_buf = 131072\<rparr> demo_mem = (phase2, ctx2) \<and>
     valid_phase (to_model (sc_phase ctx')) \<and> valid_phase (to_model (sc_phase ctx2))"
proof -
  let ?c = "\<lparr>sc_id = 4, sc_phase = S_ReadingMessage (19, 3), sc_buf = 131072\<rparr>"
  obtain phase ctx' m' where d: "handle_stream_data ?c 3500005 16 demo_mem = (phase, ctx', m')" by (metis prod_cases3)
  obtain phase2 ctx2 where f: "handle_stream_fin ?c demo_mem = (phase2, ctx2)" by fastforce
  show ?thesis using phase_invariant [OF _ _ d f] d f by simp
qed

text \<open>C4. Memory safety of accumulation: for a bounded phase the copy plan reads only inside the
  received fragment and writes only inside the 65535-byte message buffer, at word arithmetic.\<close>

theorem copy_plan_bounds:
  assumes "phase_bounded phase" and "plan = fragment_copy_plan phase len first second"
  shows "unat (source_offset plan) + unat (copy_count plan) \<le> unat len \<and>
    unat (destination_offset plan) + unat (copy_count plan) \<le> 65535"
  using fragment_copy_plan_source fragment_copy_plan_destination [OF assms(1)] assms(2) by simp

theorem copy_plan_bounds_witness:
  "unat (destination_offset (fragment_copy_plan (ReadingMessage 65535 65000) 0xffffffff 7 9))
     + unat (copy_count (fragment_copy_plan (ReadingMessage 65535 65000) 0xffffffff 7 9)) \<le> 65535"
  using copy_plan_bounds [of "ReadingMessage 65535 65000" _ "0xffffffff" 7 9, OF _ refl] by simp


section \<open>Responses\<close>

text \<open>C5. Framing a response, on every branch: a response longer than 65535 bytes or a destination
  too small gives 0 and leaves memory alone; otherwise the result is the length plus two, the
  destination holds the big-endian length and the response bytes, and no other byte changes. What the egress
  frames the ingress reads back: for a response of at least a DNS header the frame leaves the ingress machine waiting
  for FIN with that length, and the bytes after the prefix are the response.\<close>

theorem frame_response_correct:
  assumes "ranges_disjoint response (unat len) destination (unat capacity)"
    and "prepare_doq_response_send_for_stream ctx response len destination capacity fin m = (n, m')"
  shows "if unat len > 65535 \<or> unat capacity < unat len + 2 then n = 0 \<and> m' = m
    else unat n = unat len + 2 \<and>
      mem_bytes m' destination (unat n) = doq_frame (mem_bytes m response (unat len)) \<and>
      mem_frame destination (unat n) m m' \<and>
      (12 \<le> unat len \<longrightarrow> doq_phase (mem_bytes m' destination (unat n)) = AwaitingFin len \<and>
        drop 2 (mem_bytes m' destination (unat n)) = mem_bytes m response (unat len))"
proof (cases "framed_length len capacity = 0")
  case True
  with assms(2) show ?thesis by (simp add: prepare_doq_rejects framed_length_eq_0)
next
  case False
  have readback: "12 \<le> unat len \<Longrightarrow> unat len \<le> 65535 \<Longrightarrow> doq_phase (doq_frame (mem_bytes m response (unat len))) = AwaitingFin len"
    using doq_phase_frame [of "mem_bytes m response (unat len)" len] by (simp add: doq_frame_def word_le_nat_alt)
  from prepare_doq_frame [OF False assms] False readback show ?thesis
    by (simp add: framed_length_eq_0 doq_frame_def)
qed

theorem frame_response_correct_witness:
  "\<exists>n m'. prepare_doq_response_send_for_stream \<lparr>sc_id = 4, sc_phase = S_Processing 19, sc_buf = 131072\<rparr>
       3500002 19 2000000 514 1 demo_mem = (n, m') \<and> unat n = 21 \<and>
     mem_bytes m' 2000000 21 = doq_frame query_message \<and> doq_phase (doq_frame query_message) = AwaitingFin 19 \<and>
     drop 2 (doq_frame query_message) = query_message"
proof -
  obtain n m' where run: "prepare_doq_response_send_for_stream
      \<lparr>sc_id = 4, sc_phase = S_Processing 19, sc_buf = 131072\<rparr> 3500002 19 2000000 514 1 demo_mem = (n, m')"
    by fastforce
  from frame_response_correct [OF _ this] run demo_query_bytes show ?thesis by (auto simp: ranges_disjoint_def)
qed

text \<open>C6. The request validator accepts exactly the zero-ID, single uncompressed question
  messages, for any generated question check that meets its documented grammar: the walk over the
  labels finds the name's length, and every accepted message is an encoded name with type and class.\<close>

theorem validator_accepts_questions:
  assumes "question_validator check"
  shows "validate_minimal_uncompressed_question_request check buf len m \<longleftrightarrow>
    question_request (mem_bytes m buf (unat len))"
  using question_validator.validate_sound [OF assms] question_validator.validate_complete [OF assms] by blast

theorem validator_accepts_questions_witness:
  "validate_minimal_uncompressed_question_request dns_question_check 3500002 19 demo_mem"
proof -
  from demo_query_bytes validator_accepts_questions [OF grammar_validator.question_validator_axioms, of 3500002 19 demo_mem]
    query_is_request show ?thesis by simp
qed

text \<open>C7. The selector's response: for a stream in the processing phase it writes the question echo
  for a question, FORMERR for any other message with a zero ID, and nothing at all for a nonzero ID
  or a response buffer that is too small.\<close>

theorem selector_response:
  assumes "question_validator check"
    and "ranges_disjoint (sc_buf ctx) (unat request_len) response (unat capacity)"
    and "prepare_worker_validated_minimal_response_send check ctx response capacity request_len m = (n, m')"
  shows "case minimal_response (mem_bytes m (sc_buf ctx) (unat request_len)) (unat capacity) of
      None \<Rightarrow> n = 0 \<and> m' = m
    | Some r \<Rightarrow> unat n = length r \<and> mem_bytes m' response (length r) = r \<and> mem_frame response (length r) m m'"
  using question_validator.validated_response_send [OF assms] .

theorem selector_response_witness:
  "\<exists>n m'. prepare_worker_validated_minimal_response_send dns_question_check
       \<lparr>sc_id = 4, sc_phase = S_Processing 19, sc_buf = 3500002\<rparr> 1000000 512 19 demo_mem = (n, m') \<and>
     mem_bytes m' 1000000 19 = echo_response query_message"
proof -
  let ?c = "\<lparr>sc_id = 4, sc_phase = S_Processing 19, sc_buf = 3500002\<rparr>"
  obtain n m' where run: "prepare_worker_validated_minimal_response_send dns_question_check ?c 1000000 512 19 demo_mem
      = (n, m')" by fastforce
  from demo_query_bytes selector_response [OF grammar_validator.question_validator_axioms _ run] query_response [of 512] run
  show ?thesis by (auto simp: ranges_disjoint_def length_query)
qed

section \<open>The stream table\<close>

text \<open>C8. Opening a stream, in every build: a known stream is returned unchanged, a new one gets a
  fresh entry if fewer than four are open, otherwise the result is \<open>NULL\<close> and nothing changes. The
  returned pointer is the one a lookup gives, and opening again returns it again. For an absent
  stream the result is that of the core's own allocation, with the slot flags synchronised.\<close>

theorem open_stream_contract:
  assumes "table_ready bld conn" and "ism_shell_open_stream bld conn sid = (p, conn')"
  shows "table_ready bld conn' \<and> p = ism_shell_find_stream bld conn' sid \<and>
    (p = None \<longleftrightarrow> phase_table conn sid = None \<and> card (dom (phase_table conn)) = 4) \<and>
    phase_table conn' = (if phase_table conn sid \<noteq> None \<or> card (dom (phase_table conn)) = 4 then phase_table conn
      else (phase_table conn)(sid \<mapsto> S_ReadingLength)) \<and>
    (p \<noteq> None \<longrightarrow> ism_shell_open_stream bld conn' sid = (p, conn')) \<and>
    (phase_table conn sid = None \<longrightarrow>
      (p, conn') = (fst (allocate_stream conn sid), ism_shell_sync_stream_slots (snd (allocate_stream conn sid))))"
proof -
  have "phase_table conn sid = None \<Longrightarrow>
      (p, conn') = (fst (allocate_stream conn sid), ism_shell_sync_stream_slots (snd (allocate_stream conn sid)))"
    using open_is_allocate [of conn sid] shell_open_eq [OF assms(1), of sid] assms
    by (simp add: phase_table_def table_ready_def)
  then have new: "phase_table conn sid = None \<longrightarrow>
      (p, conn') = (fst (allocate_stream conn sid), ism_shell_sync_stream_slots (snd (allocate_stream conn sid)))" ..
  show ?thesis
    using shell_table.opn_inv [OF assms(1), of sid] shell_table.opn_ptr [OF assms(1), of sid]
      shell_table.opn_None [OF assms(1), of sid] shell_table.opn_tab [OF assms(1), of sid]
      shell_table.opn_idem [OF assms(1), of sid]
    unfolding assms(2) fst_conv snd_conv by (intro conjI new) simp_all
qed

theorem open_stream_contract_witness:
  "\<exists>p conn'. ism_shell_open_stream pulse_build demo_conn 4 = (p, conn') \<and> p \<noteq> None \<and>
     phase_table conn' = [4 \<mapsto> S_ReadingLength]"
proof -
  obtain p conn' where run: "ism_shell_open_stream pulse_build demo_conn 4 = (p, conn')" by fastforce
  have "phase_table demo_conn = Map.empty" by (rule ext) (simp add: phase_table_def demo_conn_empty)
  with open_stream_contract [OF demo_ready(2) run] run show ?thesis by auto
qed

text \<open>C9. The three ways to finish a stream (completion of its send through either entry point, and
  reset) do the same in every build: the call succeeds, exactly that stream leaves the table, a
  lookup of it gives \<open>NULL\<close>, and all other streams keep their pointers. Finishing twice is finishing
  once.\<close>

theorem finish_stream_contract:
  assumes "table_ready bld conn" and "ism_shell_dispatch_stream_reset bld conn sid = (code, conn')"
  shows "code = 1 \<and> table_ready bld conn' \<and>
    ism_shell_complete_response_send bld conn sid buf len dropped = (1, conn') \<and>
    ism_shell_dispatch_response_send_finished bld conn sid buf len dropped = (1, conn') \<and>
    phase_table conn' = (phase_table conn)(sid := None) \<and> ism_shell_find_stream bld conn' sid = None \<and>
    (\<forall>s. s \<noteq> sid \<longrightarrow> ism_shell_find_stream bld conn' s = ism_shell_find_stream bld conn s) \<and>
    phase_table (snd (ism_shell_dispatch_stream_reset bld conn' sid)) = phase_table conn'"
  using shell_table.cls_inv [OF assms(1), of sid] shell_table.cls_tab [OF assms(1), of sid]
    shell_table.lookup_closed [OF assms(1), of sid] shell_table.cls_other [OF assms(1), of _ sid]
    shell_table.cls_tab [OF shell_table.cls_inv [OF assms(1), of sid], of sid]
    shell_finish_eq [OF assms(1), of sid] assms(2)
  by simp

theorem finish_stream_contract_witness:
  "\<exists>conn'. ism_shell_dispatch_stream_reset stable_build demo_conn2 4 = (1, conn') \<and>
     phase_table conn' = [8 \<mapsto> S_ReadingLength]"
proof -
  obtain code conn' where run: "ism_shell_dispatch_stream_reset stable_build demo_conn2 4 = (code, conn')"
    by fastforce
  from finish_stream_contract [OF demo_conn2_ready(1) run] run show ?thesis
    by (auto simp: demo_conn2_table)
qed

text \<open>C10. Context pointers are stable: over any sequence of opens and closes of any streams, a stream
  that is not closed keeps the context it was given, although closing reorders the table of
  pointers; and after any such sequence at most four streams are open. A closed stream leaves nothing behind: after a
  close the next open of any absent stream succeeds, also when the table was full, and the new stream starts with the
  length prefix; a stream identifier that is used again starts from the beginning.\<close>

theorem pointer_stability:
  assumes "table_ready bld conn"
  shows "(ism_shell_find_stream bld conn sid = Some p \<and> Inr sid \<notin> set es \<longrightarrow>
      ism_shell_find_stream bld (table_run bld conn es) sid = Some p) \<and>
    card (dom (phase_table (table_run bld conn es))) \<le> 4 \<and>
    (phase_table conn closed \<noteq> None \<and> (s = closed \<or> phase_table conn s = None) \<and>
      ism_shell_dispatch_stream_reset bld conn closed = (code, conn1) \<and> ism_shell_open_stream bld conn1 s = (q, conn2) \<longrightarrow>
      q \<noteq> None \<and> phase_table conn2 s = Some S_ReadingLength)"
  using shell_table.steps_keep_pointer [OF assms] shell_table.card_tab [OF shell_table.steps_inv [OF assms]]
    shell_table.opn_after_cls [OF assms, of closed s]
  by (auto simp: table_run_eq split: option.splits)

theorem pointer_stability_witness:
  "\<exists>p code conn1 q conn2. ism_shell_find_stream pulse_build demo_conn2 8 = Some p \<and>
     ism_shell_find_stream pulse_build
       (table_run pulse_build demo_conn2 [Inl 12, Inr 4, Inl 16, Inr 12, Inl 4]) 8 = Some p \<and>
     ism_shell_dispatch_stream_reset pulse_build demo_conn2 4 = (code, conn1) \<and>
     ism_shell_open_stream pulse_build conn1 4 = (q, conn2) \<and> phase_table conn2 4 = Some S_ReadingLength"
proof -
  have "ism_shell_find_stream pulse_build demo_conn2 8 \<noteq> None"
    using shell_table.lookup_None [OF demo_conn2_ready(2), of 8] by (simp add: demo_conn2_table)
  then obtain p where p: "ism_shell_find_stream pulse_build demo_conn2 8 = Some p" by blast
  obtain code conn1 where c: "ism_shell_dispatch_stream_reset pulse_build demo_conn2 4 = (code, conn1)" by fastforce
  obtain q conn2 where o: "ism_shell_open_stream pulse_build conn1 4 = (q, conn2)" by fastforce
  from pointer_stability [OF demo_conn2_ready(2), of 8 p "[Inl 12, Inr 4, Inl 16, Inr 12, Inl 4]" 4 4 code conn1 q conn2] p c o
  show ?thesis by (simp add: demo_conn2_table)
qed

section \<open>The shell connection\<close>

text \<open>C11. Every connection that can be reached from initialisation by opens, fragments, FINs,
  completions and resets in any order satisfies the shell's invariant: the pointer table is a
  permutation of the four slots, active identifiers are distinct, every phase is valid and bounded,
  active flags agree with the table, inactive slots are reset, and no buffer ever moves.\<close>

theorem reachable_connections:
  assumes "shell_reach bld raw (conn, m)" and "length (conn_streams raw) = 4"
    and "use_pulse_table bld \<longrightarrow> storage_ok bld raw"
  shows "slots_perm conn \<and> ids_distinct conn \<and> flags_synced conn \<and> slots_clean conn \<and>
    list_all slot_wf (conn_streams conn) \<and> active_count conn \<le> 4 \<and> conn_layout conn = conn_layout raw"
proof -
  have "table_ready bld conn" and lay: "conn_layout conn = conn_layout raw"
    using shell_reach_ready [OF assms] by simp_all
  then have "shell_inv conn" by (simp add: table_ready_def)
  from shell_invD [OF this] lay show ?thesis by (simp add: conn_wf_def)
qed

theorem reachable_connections_witness:
  "\<exists>code conn m. ism_shell_on_authenticated_stream_data stable_build demo_conn 4 3500000 21 (\<lambda>_. 0) = (code, conn, m) \<and>
     slots_perm conn \<and> ids_distinct conn \<and> slots_clean conn"
proof -
  obtain code conn m where run: "ism_shell_on_authenticated_stream_data stable_build demo_conn 4 3500000 21 (\<lambda>_. 0)
      = (code, conn, m)" by (metis prod_cases3)
  have zero: "ism_shell_connection_init raw_conn (\<lambda>_. 0) = (demo_conn, \<lambda>_. 0)"
    by (simp add: demo_conn_def ism_shell_connection_init_def raw_conn_def Let_def mem_zero_def fun_eq_iff upt_rec)
  have "shell_reach stable_build raw_conn (demo_conn, \<lambda>_. 0)" using zero by (rule reach_init)
  moreover have "shell_step stable_build (demo_conn, \<lambda>_. 0) (conn, m)"
    using step_data [OF demo_ingress run] by simp
  ultimately have "shell_reach stable_build raw_conn (conn, m)" by (rule reach_step)
  from reachable_connections [OF this] run show ?thesis by (simp add: raw_conn_def stable_build_def)
qed

text \<open>C12. Streams do not interfere: a fragment for one stream leaves the context and every byte of the
  message buffer of any other open stream as they were, in every build.\<close>

theorem stream_isolation:
  assumes "ingress_ready bld conn data len"
    and "ism_shell_dispatch_authenticated_stream_data bld conn sid data len m = (code, conn', m')"
    and "\<forall>i<4. \<forall>j<4. j \<noteq> i \<longrightarrow> ranges_disjoint (message_buffer (conn_streams conn ! i)) 65535
           (message_buffer (conn_streams conn ! j)) 65535"
    and "s \<noteq> sid" and "abs_table conn s = Some c"
  shows "abs_table conn' s = Some c \<and> mem_bytes m' (sc_buf c) 65535 = mem_bytes m (sc_buf c) 65535"
proof -
  have "shell_inv conn" using assms(1) by (simp add: ingress_ready_def table_ready_def)
  moreover have "ingress_data conn sid data len m = (code, conn', m')"
    using assms(2) by (simp add: shell_data_eq [OF assms(1)])
  ultimately show ?thesis using ingress_data_isolated [OF _ _ assms(3-5)] by blast
qed

theorem stream_isolation_witness:
  "\<exists>c code conn' m'. abs_table demo_conn2 8 = Some c \<and>
     ism_shell_dispatch_authenticated_stream_data pulse_build demo_conn2 4 3500000 21 demo_mem = (code, conn', m') \<and>
     abs_table conn' 8 = Some c"
proof -
  obtain c where c: "abs_table demo_conn2 8 = Some c" using demo_conn2_open(2) by blast
  obtain code conn' m' where run: "ism_shell_dispatch_authenticated_stream_data pulse_build demo_conn2 4 3500000 21 demo_mem
      = (code, conn', m')" by (metis prod_cases3)
  have "\<forall>i<4. \<forall>j<4. j \<noteq> i \<longrightarrow> ranges_disjoint (message_buffer (conn_streams demo_conn2 ! i)) 65535
           (message_buffer (conn_streams demo_conn2 ! j)) 65535"
    by (auto simp: demo_conn2_buffer less_4 ranges_disjoint_def)
  from stream_isolation [OF busy_ingress run this _ c] c run show ?thesis by simp
qed

text \<open>C13. The stable and the candidate lanes are the same program: for any two builds whose
  obligations hold, lookup, open, both data entry points, FIN, both completion entry points and
  reset give equal results, equal connections and equal memory.\<close>

theorem lanes_agree:
  assumes "ingress_ready a conn data len" and "ingress_ready b conn data len"
  shows "ism_shell_find_stream a conn sid = ism_shell_find_stream b conn sid \<and>
    ism_shell_open_stream a conn sid = ism_shell_open_stream b conn sid \<and>
    ism_shell_on_authenticated_stream_data a conn sid data len m =
      ism_shell_on_authenticated_stream_data b conn sid data len m \<and>
    ism_shell_dispatch_authenticated_stream_data a conn sid data len m =
      ism_shell_on_authenticated_stream_data b conn sid data len m \<and>
    ism_shell_on_authenticated_stream_fin a conn sid m = ism_shell_on_authenticated_stream_fin b conn sid m \<and>
    ism_shell_complete_response_send a conn sid buf n dropped = ism_shell_complete_response_send b conn sid buf n dropped \<and>
    ism_shell_dispatch_response_send_finished a conn sid buf n dropped =
      ism_shell_dispatch_response_send_finished b conn sid buf n dropped \<and>
    ism_shell_dispatch_stream_reset a conn sid = ism_shell_dispatch_stream_reset b conn sid"
proof -
  have ready: "table_ready a conn" "table_ready b conn" and fin: "ingress_ready a conn data 0" "ingress_ready b conn data 0"
    using assms by (simp_all add: ingress_ready_def)
  show ?thesis
    using ready [THEN shell_find_eq] ready [THEN shell_open_eq] assms [THEN shell_data_eq(1)]
      assms [THEN shell_data_eq(2)] fin [THEN shell_fin_eq] ready [THEN shell_finish_eq(1)]
      ready [THEN shell_finish_eq(2)] ready [THEN shell_finish_eq(3)]
    by simp
qed

theorem lanes_agree_witness:
  "ism_shell_on_authenticated_stream_data stable_build demo_conn 4 3500000 21 demo_mem =
   ism_shell_on_authenticated_stream_data pulse_build demo_conn 4 3500000 21 demo_mem"
proof -
  have "ingress_ready stable_build demo_conn 3500000 21" "ingress_ready pulse_build demo_conn 3500000 21"
    by (rule demo_ingress; simp)+
  from lanes_agree [OF this] show ?thesis by simp
qed

text \<open>C14. Accumulation through the shell, on a connection that satisfies the shell's invariant and with a fragment that, in a
  build with the candidate stream lane, overlaps no message buffer: if a stream is open and has received the bytes \<open>bs\<close>, or is not open yet, has
  received none and fewer than four streams are open, and a fragment does not make the bytes a protocol error, then
  afterwards the stream is open, its context and message buffer hold exactly the longer
  sequence, and the code is neither the error code nor the ready code. A fragment for a stream that is not open while
  four others are gives the error code and changes neither the connection nor memory.\<close>

theorem shell_accumulates:
  assumes "ingress_ready bld conn data len"
    and "ism_shell_dispatch_authenticated_stream_data bld conn sid data len m = (code, conn', m')"
  shows "((case abs_table conn sid of Some c \<Rightarrow> stream_holds bs c m | None \<Rightarrow> bs = [] \<and> active_count conn < 4) \<and>
      doq_phase (bs @ mem_bytes m data (unat len)) \<noteq> Done \<longrightarrow>
      (\<exists>c. abs_table conn' sid = Some c \<and> stream_holds (bs @ mem_bytes m data (unat len)) c m') \<and> code \<noteq> 2 \<and> code \<noteq> 3) \<and>
    (abs_table conn sid = None \<and> active_count conn = 4 \<longrightarrow> code = 3 \<and> conn' = conn \<and> m' = m)"
proof -
  have inv: "shell_inv conn" using assms(1) by (simp add: ingress_ready_def table_ready_def)
  have run: "ingress_data conn sid data len m = (code, conn', m')"
    using assms(2) by (simp add: shell_data_eq [OF assms(1)])
  have "(\<exists>c. abs_table conn' sid = Some c \<and> stream_holds (bs @ mem_bytes m data (unat len)) c m') \<and> code \<noteq> 2 \<and> code \<noteq> 3"
    if "stream_got bs conn sid m" "doq_phase (bs @ mem_bytes m data (unat len)) \<noteq> Done"
    using ingress_data_got [OF inv that(1) _ _ that(2) run] by (auto simp: stream_got_def split: option.splits)
  with ingress_data_full [OF inv run] show ?thesis by (auto simp: stream_got_def split: option.splits)
qed

theorem shell_accumulates_witness:
  "\<exists>code conn' m'. ism_shell_dispatch_authenticated_stream_data pulse_build demo_conn 4 3500000 21 demo_mem
       = (code, conn', m') \<and> (\<exists>c. abs_table conn' 4 = Some c \<and> stream_holds framed_query c m')"
proof -
  obtain code conn' m' where run: "ism_shell_dispatch_authenticated_stream_data pulse_build demo_conn 4 3500000 21 demo_mem
      = (code, conn', m')" by (metis prod_cases3)
  from shell_accumulates [OF demo_ingress run, of "[]"] run show ?thesis
    by (simp add: demo_mem_bytes framed_query_phase demo_conn_empty demo_count)
qed

section \<open>The candidate ABI\<close>

text \<open>C15. The three candidate ABIs refuse before they write. The stream call: an undecodable phase, a message
  buffer smaller than 65535 bytes, an unrepresentable or overlapping range, or a length beyond the input's
  capacity gives the rejection record. The table call: a descriptor that fails any of its checks
  (alignment, counts, a slot order that repeats or leaves the table, buffers that are too small, overlap each
  other or overlap the descriptor, undecodable phases) or an unknown operation gives the invalid code. The response call: a
  length or capacity beyond its buffer, or ranges that are unrepresentable or overlap, gives length 0. In each case the
  memory and the descriptor are as they were.\<close>

theorem candidate_rejects_untouched:
  "(ism_pulse_decode_phase phase = None \<or> cap < 65535 \<or> \<not> range_ok message cap \<or>
     unat len > icap \<or> len \<noteq> 0 \<and> \<not> disjoint message cap input icap \<longrightarrow>
     ism_pulse_stream_data empty_p phase sid message cap input icap len m = (rejected, m)) \<and>
   (\<not> descriptor_accepted wire_p wire \<or> operation > 2 \<longrightarrow>
     ism_pulse_table_apply wire_p wire operation sid = (ISM_PULSE_TABLE_INVALID, wire)) \<and>
   (unat n > response_capacity \<or> unat capacity > destination_capacity \<or>
     response_capacity \<noteq> 0 \<and> \<not> ism_response_disjoint response response_capacity destination destination_capacity \<or>
     \<not> ism_response_range_ok destination destination_capacity \<longrightarrow>
     ism_pulse_response_frame empty_p response response_capacity n destination destination_capacity capacity m = (0, m))"
  by (intro conjI impI) (erule pulse_stream_data_rejects table_apply_rejects response_frame_rejects)+

theorem candidate_rejects_untouched_witness:
  "ism_pulse_stream_data 8192 (wire_tagged ISM_PULSE_LENGTH) 4 131072 65535 131080 21 21 demo_mem = (rejected, demo_mem) \<and>
   ism_pulse_table_apply 4096 repeated_order ISM_PULSE_TABLE_FIND 4 = (ISM_PULSE_TABLE_INVALID, repeated_order) \<and>
   ism_pulse_response_frame 8192 131072 12 13 2000000 514 514 demo_mem = (0, demo_mem)"
proof -
  have "\<not> slot_accepted 4096 repeated_order 3"
    by (simp add: slot_accepted_def repeated_order_def Let_def exI [where x = 0])
  then have "\<not> descriptor_accepted 4096 repeated_order" by (simp add: descriptor_accepted_def exI [where x = 3])
  then show ?thesis
    using candidate_rejects_untouched [of "wire_tagged ISM_PULSE_LENGTH" 65535 131072 21 21 131080 8192 4 demo_mem
      4096 repeated_order ISM_PULSE_TABLE_FIND 12 13 514 514 131072 2000000]
    by (simp add: disjoint_def)
qed

text \<open>C16. The other candidate lanes agree with what they replace. The response lane decides by the ranges: if the
  context's message buffer is not null, and the context, the destination and the response (for an empty one the address of a local that stands for
  it) have representable ranges of which the destination's overlaps neither of the others, it writes the same frame and returns
  the same length as the stable lane; otherwise it returns 0 and writes nothing. The wire encoding of phases: what the stable side encodes it
  decodes to the same phase, and the candidate's decoder accepts the encoding exactly for bounded
  phases, as that phase. The value lane at 32 bits makes the same decision and reaches the same state as the pilot on unbounded
  integers, and stays within its capacity.\<close>

theorem candidate_response_equivalent:
  "ism_pulse_prepare_doq_response empty_p stream_size stream_p stream response len destination capacity fin m =
    (if sc_buf stream \<noteq> NULL \<and> ism_response_disjoint stream_p stream_size destination (unat capacity) \<and>
        ism_response_disjoint (if len = 0 then empty_p else response) (unat len) destination (unat capacity)
     then prepare_doq_response_send_for_stream stream response len destination capacity fin m else (0, m)) \<and>
   ism_pulse_phase_from_wire (ism_pulse_phase_to_wire p) = p \<and>
   ism_pulse_decode_phase (ism_pulse_phase_to_wire p) =
     (if phase_bounded (to_model p) then Some (to_model p) else None) \<and>
   dispatch_authenticated_bytes_pilot (abs_value v) (unat k) =
     (vr_accepted (dispatch_authenticated_bytes_value v k), abs_value (vr_next (dispatch_authenticated_bytes_value v k))) \<and>
   (vs_buffered v \<le> vs_capacity v \<longrightarrow>
     vs_buffered (vr_next (dispatch_authenticated_bytes_value v k)) \<le> vs_capacity (vr_next (dispatch_authenticated_bytes_value v k)))"
  using pulse_prepare_doq_decides [of empty_p stream_size stream_p stream response len destination capacity fin m]
    dispatch_value_refines [of v k] value_next_bounded [of v k]
  by (simp add: response_separate_def decode_to_wire decode_unbounded dispatch_authenticated_bytes_value_def)

theorem candidate_response_equivalent_witness:
  "ism_pulse_prepare_doq_response 8192 32 131008 \<lparr>sc_id = 4, sc_phase = S_Processing 19, sc_buf = 131072\<rparr>
     3500002 19 2000000 514 1 demo_mem =
   prepare_doq_response_send_for_stream \<lparr>sc_id = 4, sc_phase = S_Processing 19, sc_buf = 131072\<rparr>
     3500002 19 2000000 514 1 demo_mem \<and>
   ism_pulse_prepare_doq_response 8192 32 2000500 \<lparr>sc_id = 4, sc_phase = S_Processing 19, sc_buf = 131072\<rparr>
     3500002 19 2000000 514 1 demo_mem = (0, demo_mem) \<and>
   dispatch_authenticated_bytes_pilot \<lparr>ps_buffered = 4, ps_capacity = 12, ps_phase = MigrationReading\<rparr> 9 =
     (False, \<lparr>ps_buffered = 4, ps_capacity = 12, ps_phase = MigrationClosed\<rparr>)"
proof -
  let ?v = "\<lparr>vs_buffered = 4, vs_capacity = 12, vs_phase = ValueReading\<rparr>"
    and ?c = "\<lparr>sc_id = 4, sc_phase = S_Processing 19, sc_buf = 131072\<rparr>"
  have "abs_value ?v = \<lparr>ps_buffered = 4, ps_capacity = 12, ps_phase = MigrationReading\<rparr>" by (simp add: abs_value_def)
  then show ?thesis
    using candidate_response_equivalent [of 8192 32 131008 ?c 3500002 19 2000000 514 1 demo_mem S_Done ?v 9]
      candidate_response_equivalent [of 8192 32 2000500 ?c 3500002 19 2000000 514 1 demo_mem S_Done ?v 9]
    by (simp add: ism_response_disjoint_def ism_response_range_ok_def UINTPTR_MAX_def dispatch_authenticated_bytes_value_def
        value_accepts_fragment_def value_available_def value_next_state_def abs_value_def)
qed

text \<open>C17. The send reservation of the candidate lane. From the begin of a send to its completion, whatever streams are opened
  and closed and whatever other completions are refused meanwhile: the descriptor is the one that was returned, the context it
  reserved is open and keeps its value, a completion is accepted exactly when it names the stream, and it
  then removes exactly the reserved context from the open ones, wherever compaction has moved it. The table
  stays well formed.\<close>

theorem reserved_send_completes:
  assumes "send_inv st" and "sn_slot st = None" and "begin_send st response len sid fin = (Some d, st1)"
    and "waiting st1 st2" and "finish_send st2 completion oc = (taken, st3)"
  shows "de_stream_id d = sid \<and> de_data d = response \<and> de_length d = len \<and> de_fin d = fin \<and>
    inspect_pending st2 = d \<and> sn_contexts st2 ! de_context d = sn_contexts st ! de_context d \<and>
    (taken \<longleftrightarrow> completion = sid) \<and> send_inv st3 \<and>
    (if taken then sn_slot st3 = None \<and> open_contexts (sn_conn st3) = open_contexts (sn_conn st2) - {de_context d}
     else st3 = st2)"
  using send_reservation [OF assms] .

theorem reserved_send_completes_witness:
  "\<exists>st1 st2. begin_send demo_send 2000000 21 8 True =
       (Some \<lparr>de_stream_id = 8, de_data = 2000000, de_length = 21, de_fin = True, de_context = 2\<rparr>, st1) \<and>
     close_other st1 4 = (True, st2) \<and> open_contexts (sn_conn st2) = {2} \<and>
     open_contexts (sn_conn (snd (finish_send st2 8 SendCompleted))) = {}"
proof -
  let ?d = "\<lparr>de_stream_id = 8, de_data = 2000000, de_length = 21, de_fin = True, de_context = 2\<rparr>"
  let ?st1 = "demo_send\<lparr>sn_slot := Some \<lparr>re_send = ?d, re_index = 1\<rparr>\<rparr>"
  obtain st2 where two: "close_other ?st1 4 = (True, st2)" "open_contexts (sn_conn st2) = {2}"
    by (rule demo_close_other)
  from reserved_send_completes [OF demo_send_inv _ demo_begin_send waiting_close [OF waiting_refl two(1)] surjective_pairing, of 8 SendCompleted] two
  show ?thesis using demo_begin_send by (auto simp: demo_send_def)
qed

section \<open>The event queue\<close>

text \<open>C18. The event queue is a bounded first-in first-out queue for capacities up to 2147483648 (beyond it the 32-bit
  index arithmetic can wrap). Each call on every branch: a full queue
  refuses the event and is unchanged, otherwise the event is appended; an empty queue gives no event and is
  unchanged, otherwise the oldest event is removed. The ring invariant (storage of at least
  the capacity, a capacity between 1 and 2147483648, the head below and the count at most the capacity) holds after each. Hence events leave in the order they entered, wherever the ring starts and however
  often it wraps: after any number of enqueues that fit, draining the queue gives what was queued before
  followed by the new events.\<close>

theorem queue_is_fifo:
  assumes "queue_inv q" and "ism_shell_event_queue_enqueue (Some q) e = (ok, Some q1)"
    and "ism_shell_event_queue_dequeue (Some q) (Some ev) = (got, ev', Some q2)"
    and "length (queue_items q) + length es \<le> unat (q_capacity q)"
  shows "queue_inv q1 \<and> queue_inv q2 \<and> q_capacity q1 = q_capacity q \<and> q_capacity q2 = q_capacity q \<and>
    ok = (length (queue_items q) < unat (q_capacity q)) \<and>
    (if ok then queue_items q1 = queue_items q @ [e] else q1 = q) \<and>
    got = (queue_items q \<noteq> []) \<and>
    (if got then queue_items q = the ev' # queue_items q2 else q2 = q \<and> ev' = Some ev) \<and>
    dequeue_run (length (queue_items q) + length es) (enqueue_run q es) = queue_items q @ es"
proof -
  have enq: "enq_event q e = (ok, q1)" using assms(2) by (simp add: enq_event_def)
  have count: "queue_items q = [] \<longleftrightarrow> q_count q = 0" by (simp add: queue_items_def unsigned_eq_0_iff)
  have "queue_inv q1 \<and> q_capacity q1 = q_capacity q \<and> ok = (length (queue_items q) < unat (q_capacity q)) \<and>
      (if ok then queue_items q1 = queue_items q @ [e] else q1 = q)"
    using enq_event_cases [OF assms(1), of e] enq assms(1) by (auto split: if_splits)
  moreover have "queue_inv q2 \<and> q_capacity q2 = q_capacity q \<and> got = (queue_items q \<noteq> []) \<and>
      (if got then queue_items q = the ev' # queue_items q2 else q2 = q \<and> ev' = Some ev)"
  proof (cases "q_count q = 0")
    case True
    with dequeue_empty [OF True, of ev] assms(1,3) count show ?thesis by simp
  next
    case False
    with dequeue_items [OF assms(1) False assms(3)] count show ?thesis by simp
  qed
  moreover have "dequeue_run (length (queue_items q) + length es) (enqueue_run q es) = queue_items q @ es"
    using ring.fifo_order [OF assms(1,4)] by (simp only: enqueue_run_eq dequeue_run_eq)
  ultimately show ?thesis by blast
qed

theorem queue_is_fifo_witness:
  "\<exists>q1. ism_shell_event_queue_enqueue (Some demo_queue) (fin_event 4) = (True, Some q1) \<and>
     queue_items q1 = [fin_event 4] \<and>
     dequeue_run 3 (enqueue_run demo_queue [fin_event 4, ready_event 8, reset_event 12]) =
       [fin_event 4, ready_event 8, reset_event 12]"
proof -
  obtain ok q1 where e: "ism_shell_event_queue_enqueue (Some demo_queue) (fin_event 4) = (ok, Some q1)"
    using enqueue_Some by metis
  obtain got ev' q2 where d: "ism_shell_event_queue_dequeue (Some demo_queue) (Some (ready_event 0)) = (got, ev', Some q2)"
    using dequeue_Some by metis
  have "unat (q_capacity demo_queue) = 4" by (simp add: demo_queue_def)
  with queue_is_fifo [OF demo_queue_inv(1) e d, of "[fin_event 4, ready_event 8, reset_event 12]"] e show ?thesis
    by (simp add: demo_queue_inv(2) numeral_3_eq_3)
qed

text \<open>C19. The limit of the ring: at the largest capacity the 32-bit sum of head and count wraps. With
  two events queued from the last but one position an enqueue is accepted, and it overwrites the
  second queued event although the queue is almost empty.\<close>

theorem queue_wraps_at_32_bits:
  assumes "q_events q = Some es" and "length es = 4294967295" and "q_capacity q = 0xffffffff"
    and "q_head q = 0xfffffffe" and "q_count q = 2"
    and "ism_shell_event_queue_enqueue (Some q) e = (ok, Some q')"
  shows "ok \<and> queue_items q ! 1 = es ! 0 \<and> queue_items q' ! 1 = e"
  using ring_wraps_beyond [OF assms(1-5)] assms by (auto simp: queue_items_def upt_rec)

theorem queue_wraps_at_32_bits_witness:
  "\<exists>q'. ism_shell_event_queue_enqueue (Some \<lparr>q_events = Some (replicate 4294967295 (fin_event 4)),
       q_capacity = 0xffffffff, q_head = 0xfffffffe, q_count = 2\<rparr>) (reset_event 8) = (True, Some q') \<and>
     queue_items q' ! 1 = reset_event 8"
proof -
  let ?q = "\<lparr>q_events = Some (replicate 4294967295 (fin_event 4)), q_capacity = 0xffffffff,
    q_head = 0xfffffffe, q_count = 2\<rparr>"
  obtain ok q' where e: "ism_shell_event_queue_enqueue (Some ?q) (reset_event 8) = (ok, Some q')"
    using enqueue_Some by metis
  from queue_wraps_at_32_bits [OF _ _ _ _ _ e] e show ?thesis by simp
qed

section \<open>The adapter\<close>

text \<open>C20. Every state of the adapter and its queue that can be reached from initialisation by adapter
  calls, enqueues and dispatches in any order: at most one send is recorded, it is nonempty and
  inside the send buffer, and its stream is still open; an idle adapter records no send; the
  connection satisfies the shell's invariant, and the buffers stay where they are.\<close>

theorem reachable_adapters:
  assumes "length (conn_streams (conn_of st)) = 4" and "use_pulse_table bld \<longrightarrow> storage_ok bld (conn_of st)"
    and "st0 = ism_msquic_adapter_init Obj rb rc sb sc f ctx st" and "buffers_separate bld st0"
    and "queue_inv (sh_queue st0)" and "adapter_reach bld st0 st'"
  shows "shell_inv (conn_of st') \<and> queue_inv (sh_queue st') \<and> same_setup st0 st' \<and>
    (if ad_send_in_flight (sh_adapter st') then
       abs_table (conn_of st') (ad_send_stream_id (sh_adapter st')) \<noteq> None \<and>
       0 < ad_send_len (sh_adapter st') \<and> ad_send_len (sh_adapter st') \<le> ad_send_capacity (sh_adapter st')
     else ad_send_stream_id (sh_adapter st') = 0 \<and> ad_send_len (sh_adapter st') = 0)"
proof -
  have "adapter_inv bld st0" using adapter_init_inv [OF assms(1,2)] assms(3,4) by simp
  note reach = adapter_reach_inv [OF assms(6) this assms(5)]
  then show ?thesis using adapter_invD(2) [of bld st'] by (simp add: adapter_inv_def Let_def)
qed

theorem reachable_adapters_witness:
  "\<exists>code st'. ism_msquic_adapter_on_authenticated_stream_fin pulse_build Obj 4
       (ism_msquic_adapter_init Obj 1000000 512 2000000 514 None demo_transport demo_state) = (code, st') \<and>
     shell_inv (conn_of st')"
proof -
  let ?st0 = "ism_msquic_adapter_init Obj 1000000 512 2000000 514 None demo_transport demo_state"
  obtain code st' where run: "ism_msquic_adapter_on_authenticated_stream_fin pulse_build Obj 4 ?st0 = (code, st')"
    by fastforce
  have len: "length (conn_streams (conn_of demo_state)) = 4" by (rule adapter_invD(4) [OF demo_adapter_inv(1)])
  have conn: "conn_of demo_state = demo_conn" by (simp add: demo_state_def demo_adapter_def)
  have lay: "conn_layout (conn_of ?st0) = conn_layout demo_conn"
    using init_layout [OF len, of "sh_mem demo_state"] conn by (auto simp: ism_msquic_adapter_init_def split: prod.splits)
  have sep: "buffers_separate pulse_build (?st0\<lparr>sh_adapter := (sh_adapter ?st0)\<lparr>ad_send := ad_send demo_adapter\<rparr>\<rparr>)"
    by (rule buffers_separate_setup [OF _ len demo_separate(2)])
      (use lay conn in \<open>simp add: same_setup_def ism_msquic_adapter_init_def demo_state_def demo_adapter_def split: prod.splits\<close>)
  then have sep0: "buffers_separate pulse_build ?st0" by (simp add: buffers_separate_def)
  have q: "queue_inv (sh_queue ?st0)"
    using demo_queue_inv(1) by (simp add: ism_msquic_adapter_init_def demo_state_def split: prod.splits)
  have "adapter_inv pulse_build ?st0"
    using adapter_init_inv [OF len _ sep0] demo_storage conn by simp
  then have "ingress_ready pulse_build (conn_of ?st0) 3000000 0"
    using demo_ingress [of pulse_build 3000000 0] layout_nth(1) [OF lay] adapter_invD [of pulse_build ?st0]
    by (simp add: ingress_ready_def)
  from step [OF start fin [OF this run]] have "adapter_reach pulse_build ?st0 st'" .
  from reachable_adapters [OF len _ refl sep0 q this] run demo_storage conn show ?thesis by simp
qed

text \<open>C21. The bytes handed to the transport are immutable until it is done with them: while a send is
  in flight, no event, whatever it is, changes the bytes of that send; the record of the send and
  the transport are untouched unless the event is the completion with the same stream and
  length, or the reset of the same stream.\<close>

theorem send_buffer_immutable:
  assumes "adapter_inv bld st" and "event_ready bld st e" and "ad_send_in_flight (sh_adapter st)"
    and "dispatch_event bld Obj e st = (ok, st')"
  shows "mem_bytes (sh_mem st') (ad_send_buffer (sh_adapter st)) (unat (ad_send_len (sh_adapter st))) =
      mem_bytes (sh_mem st) (ad_send_buffer (sh_adapter st)) (unat (ad_send_len (sh_adapter st))) \<and>
    (if ad_send_in_flight (sh_adapter st')
     then ad_send_stream_id (sh_adapter st') = ad_send_stream_id (sh_adapter st) \<and>
       ad_send_len (sh_adapter st') = ad_send_len (sh_adapter st) \<and> sh_ctx st' = sh_ctx st
     else ev_stream_id e = ad_send_stream_id (sh_adapter st) \<and>
       (ev_kind e = ISM_SHELL_EVENT_STREAM_RESET \<or>
        ev_kind e = ISM_SHELL_EVENT_SEND_COMPLETE \<and> ev_len e = ad_send_len (sh_adapter st)))"
  using dispatch_in_flight [OF assms] by blast

theorem send_buffer_immutable_witness:
  "\<exists>ok st'. dispatch_event pulse_build Obj (bytes_event 8 3500000 21) busy_state = (ok, st') \<and>
     mem_bytes (sh_mem st') 2000000 21 = mem_bytes demo_mem 2000000 21"
proof -
  obtain ok st' where run: "dispatch_event pulse_build Obj (bytes_event 8 3500000 21) busy_state = (ok, st')"
    by fastforce
  have "event_ready pulse_build busy_state (bytes_event 8 3500000 21)"
    using busy_ingress [of pulse_build 3500000 21] by (simp add: event_ready_def bytes_event_def)
  from send_buffer_immutable [OF busy_adapter_inv(2) this _ run] run show ?thesis by simp
qed

text \<open>C22. A completion is accepted exactly when it names the stream and the length of the send in
  flight. Then the send is over and exactly that stream is closed; otherwise nothing changes.\<close>

theorem completion_must_match:
  assumes "adapter_inv bld st" and "ism_msquic_adapter_on_send_complete bld Obj sid len dropped st = (ok, st')"
  shows "ok = (ad_send_in_flight (sh_adapter st) \<and> ad_send_stream_id (sh_adapter st) = sid \<and>
      ad_send_len (sh_adapter st) = len) \<and>
    (if ok then \<not> ad_send_in_flight (sh_adapter st') \<and> adapter_inv bld st' \<and>
       abs_table (conn_of st') = (abs_table (conn_of st))(sid := None) else st' = st)"
  using assms(2) finish_adapter_inv [OF assms(1), of sid] finish_stream_abs_table [OF adapter_invD(2) [OF assms(1)], of sid]
  by (auto simp: send_complete_eq [OF assms(1)] split: if_splits)

theorem completion_must_match_witness:
  "(\<exists>st'. ism_msquic_adapter_on_send_complete stable_build Obj 4 21 False busy_state = (True, st')) \<and>
   ism_msquic_adapter_on_send_complete stable_build Obj 8 21 False busy_state = (False, busy_state)"
proof -
  obtain ok st' where a: "ism_msquic_adapter_on_send_complete stable_build Obj 4 21 False busy_state = (ok, st')"
    by fastforce
  obtain ok2 st2 where b: "ism_msquic_adapter_on_send_complete stable_build Obj 8 21 False busy_state = (ok2, st2)"
    by fastforce
  from completion_must_match [OF busy_adapter_inv(1) a] completion_must_match [OF busy_adapter_inv(1) b] a b
  show ?thesis by simp
qed

text \<open>C23. A reset closes its stream and, when the stream's own send is in flight, drops that send; it
  is refused, with nothing changed, only while another stream's send is in flight. A repeated
  reset succeeds and opens nothing.\<close>

theorem reset_closes_stream:
  assumes "adapter_inv bld st" and "ism_msquic_adapter_on_stream_reset bld Obj sid st = (ok, st')"
  shows "ok = (\<not> ad_send_in_flight (sh_adapter st) \<or> ad_send_stream_id (sh_adapter st) = sid) \<and>
    (if ok then adapter_inv bld st' \<and> \<not> ad_send_in_flight (sh_adapter st') \<and>
       abs_table (conn_of st') = (abs_table (conn_of st))(sid := None) \<and>
       fst (ism_msquic_adapter_on_stream_reset bld Obj sid st') \<and>
       abs_table (conn_of (snd (ism_msquic_adapter_on_stream_reset bld Obj sid st'))) = abs_table (conn_of st')
     else st' = st)"
proof -
  let ?f = "\<lambda>st. set_send False 0 0 (set_conn (finish_stream (conn_of st) sid) st)"
  have fin: "adapter_inv bld (?f st)" using assms(1) by (rule finish_adapter_inv)
  have "ism_msquic_adapter_on_stream_reset bld Obj sid (?f st) = (True, ?f (?f st))"
    by (simp add: stream_reset_eq [OF fin])
  then show ?thesis
    using assms(2) fin finish_stream_abs_table [OF adapter_invD(2) [OF assms(1)], of sid]
      finish_stream_abs_table [OF adapter_invD(2) [OF fin], of sid]
    by (auto simp: stream_reset_eq [OF assms(1)] split: if_splits)
qed

theorem reset_closes_stream_witness:
  "(\<exists>st'. ism_msquic_adapter_on_stream_reset pulse_build Obj 4 busy_state = (True, st') \<and>
      abs_table (conn_of st') 4 = None) \<and>
   ism_msquic_adapter_on_stream_reset pulse_build Obj 8 busy_state = (False, busy_state)"
proof -
  obtain ok st' where a: "ism_msquic_adapter_on_stream_reset pulse_build Obj 4 busy_state = (ok, st')" by fastforce
  obtain ok2 st2 where b: "ism_msquic_adapter_on_stream_reset pulse_build Obj 8 busy_state = (ok2, st2)" by fastforce
  from reset_closes_stream [OF busy_adapter_inv(2) a] reset_closes_stream [OF busy_adapter_inv(2) b] a b
  show ?thesis by simp
qed

text \<open>C24. On an adapter that satisfies its invariant and has both buffers and a send function, while no send is in flight, a FIN on a stream that holds one complete frame with a zero message ID, whose
  response fits the response buffer and, framed, the send buffer, is answered: the send
  buffer holds the framed response to the query and the send function is called once, with that
  buffer, its length and FIN. If the transport takes it, the send is recorded for the stream; if
  it refuses, the stream is closed and no send is recorded. No byte outside the response and send
  buffers changes.\<close>

theorem fin_is_answered:
  assumes "adapter_inv bld st" and "question_validator (check_question bld)"
    and "ingress_ready bld (conn_of st) data 0" and "\<not> ad_send_in_flight (sh_adapter st)"
    and "ad_send (sh_adapter st) = Some f"
    and "ad_response_buffer (sh_adapter st) \<noteq> NULL" and "ad_send_buffer (sh_adapter st) \<noteq> NULL"
    and "abs_table (conn_of st) sid = Some c" and "stream_holds bs c (sh_mem st)"
    and "doq_phase bs = AwaitingFin n" and "bs ! 2 = 0" and "bs ! 3 = 0"
    and "minimal_response (drop 2 bs) (unat (ad_response_capacity (sh_adapter st))) = Some r"
    and "length r + 2 \<le> unat (ad_send_capacity (sh_adapter st))"
    and "ism_msquic_adapter_on_authenticated_stream_fin bld Obj sid st = (code, st')"
  shows "code = 2 \<and>
    mem_bytes (sh_mem st') (ad_send_buffer (sh_adapter st)) (length r + 2) = doq_frame r \<and>
    f sid (ad_send_buffer (sh_adapter st)) (of_nat (length r + 2)) True (sh_mem st') (sh_ctx st) =
      (ad_send_in_flight (sh_adapter st'), sh_ctx st') \<and>
    (if ad_send_in_flight (sh_adapter st')
     then ad_send_stream_id (sh_adapter st') = sid \<and> ad_send_len (sh_adapter st') = of_nat (length r + 2)
       \<and> abs_table (conn_of st') sid = Some (c\<lparr>sc_phase := S_Processing n\<rparr>)
     else abs_table (conn_of st') sid = None) \<and>
    (\<forall>a. outside_buffers (sh_adapter st) a \<longrightarrow> sh_mem st' a = sh_mem st a)"
  using fin_answers [OF assms] by blast

theorem fin_is_answered_witness:
  "\<exists>st code st'. ism_msquic_adapter_on_authenticated_stream_fin pulse_build Obj 4 (st :: log_entry list rt_state) = (code, st') \<and>
     code = 2 \<and> mem_bytes (sh_mem st') 2000000 21 = doq_frame (echo_response query_message)"
proof -
  obtain st c conn where st: "adapter_inv pulse_build st" "ingress_ready pulse_build (conn_of st) 3500000 0"
    "abs_table (conn_of st) 4 = Some c" "stream_holds framed_query c (sh_mem st)"
    "sh_adapter st = demo_adapter\<lparr>ad_connection := conn\<rparr>" by (rule demo_received) blast
  obtain code st' where run: "ism_msquic_adapter_on_authenticated_stream_fin pulse_build Obj 4 st = (code, st')" by fastforce
  have val: "question_validator (check_question pulse_build)"
    using grammar_validator.question_validator_axioms by (simp add: pulse_build_def stable_build_def)
  have r: "minimal_response (drop 2 framed_query) (unat (ad_response_capacity (sh_adapter st))) = Some (echo_response query_message)"
    by (simp add: query_id st(5) demo_adapter_def query_response)
  from fin_is_answered [OF st(1) val st(2) _ _ _ _ st(3,4) framed_query_phase query_id(1,2) r _ run] run
  show ?thesis by (auto simp: st(5) demo_adapter_def length_query)
qed

text \<open>C25. On an adapter that satisfies its invariant and has both buffers and a send function, a query that completes while another stream's send is in flight is not lost, if its response fits the response
  buffer and, framed, the send buffer: its FIN is accepted and nothing is sent; after the completion of the
  send in flight a ready-response call sends the framed answer to the waiting query.\<close>

theorem deferred_answer:
  assumes "adapter_inv bld st" and "ingress_ready bld (conn_of st) data 0"
    and "question_validator (check_question bld)" and "ad_send (sh_adapter st) = Some f"
    and "ad_response_buffer (sh_adapter st) \<noteq> NULL" and "ad_send_buffer (sh_adapter st) \<noteq> NULL"
    and "ad_send_in_flight (sh_adapter st)" and "ad_send_stream_id (sh_adapter st) = a" and "a \<noteq> sid"
    and "abs_table (conn_of st) sid = Some c" and "stream_holds bs c (sh_mem st)"
    and "doq_phase bs = AwaitingFin n" and "bs ! 2 = 0" and "bs ! 3 = 0"
    and "minimal_response (drop 2 bs) (unat (ad_response_capacity (sh_adapter st))) = Some r"
    and "length r + 2 \<le> unat (ad_send_capacity (sh_adapter st))"
    and "ism_msquic_adapter_on_authenticated_stream_fin bld Obj sid st = (code, st1)"
    and "ism_msquic_adapter_on_send_complete bld Obj a (ad_send_len (sh_adapter st)) dropped st1 = (ok, st2)"
    and "ism_msquic_adapter_prepare_ready_response bld Obj sid st2 = (k, st3)"
  shows "code = 2 \<and> sh_ctx st1 = sh_ctx st \<and> ok \<and>
    mem_bytes (sh_mem st3) (ad_send_buffer (sh_adapter st)) (length r + 2) = doq_frame r \<and>
    f sid (ad_send_buffer (sh_adapter st)) (of_nat (length r + 2)) True (sh_mem st3) (sh_ctx st) =
      (ad_send_in_flight (sh_adapter st3), sh_ctx st3)"
  using answer_after_completion [OF assms] by blast

theorem deferred_answer_witness:
  "\<exists>st st1 st2 k st3. ism_msquic_adapter_on_authenticated_stream_fin pulse_build Obj 8 (st :: log_entry list rt_state) = (2, st1) \<and>
     ism_msquic_adapter_on_send_complete pulse_build Obj 4 21 False st1 = (True, st2) \<and>
     ism_msquic_adapter_prepare_ready_response pulse_build Obj 8 st2 = (k, st3) \<and>
     mem_bytes (sh_mem st3) 2000000 21 = doq_frame (echo_response query_message)"
proof -
  obtain st c conn where st: "adapter_inv pulse_build st" "ingress_ready pulse_build (conn_of st) 3500000 0"
    "abs_table (conn_of st) 8 = Some c" "stream_holds framed_query c (sh_mem st)"
    "sh_adapter st = (sh_adapter busy_state)\<lparr>ad_connection := conn\<rparr>" by (rule busy_received) blast
  obtain code st1 where a: "ism_msquic_adapter_on_authenticated_stream_fin pulse_build Obj 8 st = (code, st1)" by fastforce
  obtain ok st2 where b: "ism_msquic_adapter_on_send_complete pulse_build Obj 4 (ad_send_len (sh_adapter st)) False st1 = (ok, st2)"
    by fastforce
  obtain k st3 where c': "ism_msquic_adapter_prepare_ready_response pulse_build Obj 8 st2 = (k, st3)" by fastforce
  have val: "question_validator (check_question pulse_build)"
    using grammar_validator.question_validator_axioms by (simp add: pulse_build_def stable_build_def)
  have fields: "ad_response_capacity (sh_adapter st) = 512" "ad_response_buffer (sh_adapter st) = 1000000"
    "ad_send (sh_adapter st) = Some (ism_msquic_runtime_send (Some 0))"
    by (simp_all add: st(5) busy_state_def set_send_def set_conn_def demo_state_def demo_adapter_def)
  have r: "minimal_response (drop 2 framed_query) (unat (ad_response_capacity (sh_adapter st))) = Some (echo_response query_message)"
    by (simp add: query_id fields query_response)
  have "code = 2 \<and> ok \<and> mem_bytes (sh_mem st3) 2000000 21 = doq_frame (echo_response query_message)"
    using deferred_answer [OF st(1,2) val fields(3) _ _ _ _ _ st(3,4) framed_query_phase query_id(1,2) r _ a b c'] fields
    by (auto simp: st(5) length_query)
  moreover have "ad_send_len (sh_adapter st) = 21" by (simp add: st(5))
  ultimately show ?thesis
    using a b c' by (intro exI [of _ st] exI [of _ st1] exI [of _ st2] exI [of _ k] exI [of _ st3]) simp
qed

text \<open>C26. Dispatching the queue handles the queued events in order, each on the state the previous one
  left, stops at the first one that fails, and handles at most the given number; the result counts
  the events handled.\<close>

theorem dispatch_all_in_order:
  assumes "queue_inv (sh_queue st)" and "adapter_inv bld st"
    and "\<forall>e\<in>set (queue_items (sh_queue st)). event_ready bld st e"
    and "dispatch_list bld (take (unat max_events) (queue_items (sh_queue st))) st = (k, st')"
  shows "ism_shell_event_queue_dispatch_all bld Obj Obj max_events st = (of_nat k, st') \<and>
    k \<le> unat max_events \<and> k \<le> length (queue_items (sh_queue st))"
  using dispatch_all_from_eq [OF assms(1,2) _ assms(3), of 0 max_events k st'] assms(4) dispatch_list_count [OF assms(4)]
  by (simp add: ism_shell_event_queue_dispatch_all_def)

theorem dispatch_all_in_order_witness:
  "\<exists>k st'. dispatch_list pulse_build [reset_event 4] (busy_state\<lparr>sh_queue := snd (enq_event demo_queue (reset_event 4))\<rparr>) = (k, st') \<and>
     ism_shell_event_queue_dispatch_all pulse_build Obj Obj 8
       (busy_state\<lparr>sh_queue := snd (enq_event demo_queue (reset_event 4))\<rparr>) = (of_nat k, st')"
proof -
  let ?st = "busy_state\<lparr>sh_queue := snd (enq_event demo_queue (reset_event 4))\<rparr>"
  have q: "queue_inv (sh_queue ?st)" "queue_items (sh_queue ?st) = [reset_event 4]"
    using ring.enq_inv [OF demo_queue_inv(1), of "reset_event 4"] ring.enq_items [OF demo_queue_inv(1), of "reset_event 4"]
    by (simp_all add: demo_queue_inv) (simp add: demo_queue_def)
  obtain k st' where run: "dispatch_list pulse_build [reset_event 4] ?st = (k, st')" by fastforce
  have "\<forall>e\<in>set (queue_items (sh_queue ?st)). event_ready pulse_build ?st e"
    unfolding q by (simp add: event_ready_def reset_event_def)
  from dispatch_all_in_order [OF q(1) _ this, of 8 k st'] run busy_adapter_inv(2) show ?thesis
    unfolding q by simp
qed

section \<open>The MsQuic callbacks\<close>

text \<open>C27. End to end, on a runtime stream that is ready and has not received FIN, over an adapter with both buffers and a send function and
  while no send is in flight; the shell's stream has received the earlier bytes, or is not open while fewer than four are, and the buffers
  fit the ingress buffer and overlap neither it nor a message buffer: a RECEIVE callback with FIN whose buffers complete a query with a zero message ID, however the bytes
  were spread over this and earlier callbacks, returns success if the response fits the response buffer and, framed, the send buffer; the framed response stands in the
  send buffer and was handed to the send function exactly once, with FIN, and the stream is marked
  as finished.\<close>

theorem receive_fin_answers:
  assumes "runtime_ready bld st i" and "\<not> rt_received_fin (rt_of st i)"
    and "question_validator (check_question bld)"
    and "\<not> ad_send_in_flight (sh_adapter st)" and "ad_send (sh_adapter st) = Some f"
    and "ad_response_buffer (sh_adapter st) \<noteq> NULL" and "ad_send_buffer (sh_adapter st) \<noteq> NULL"
    and "stream_got bs (conn_of st) (rt_stream_id (rt_of st i)) (sh_mem st)"
    and "list_all (buffer_ok st i) buffers" and "length buffers < 4294967296"
    and "q = bs @ concat (map (buffer_bytes (sh_mem st)) buffers)"
    and "doq_phase q = AwaitingFin n" and "q ! 2 = 0" and "q ! 3 = 0"
    and "minimal_response (drop 2 q) (unat (ad_response_capacity (sh_adapter st))) = Some r"
    and "length r + 2 \<le> unat (ad_send_capacity (sh_adapter st))"
    and "ism_msquic_runtime_stream_callback bld (Some i)
      (Some (QUIC_STREAM_EVENT_RECEIVE (Some buffers) (of_nat (length buffers)) True)) st = (status, st')"
  shows "status = QUIC_STATUS_SUCCESS \<and>
    mem_bytes (sh_mem st') (ad_send_buffer (sh_adapter st)) (length r + 2) = doq_frame r \<and>
    (\<exists>tr. f (rt_stream_id (rt_of st i)) (ad_send_buffer (sh_adapter st)) (of_nat (length r + 2)) True
        (sh_mem st') (sh_ctx st) = (ad_send_in_flight (sh_adapter st'), tr) \<and>
      sh_ctx st' = upd_stream i (\<lambda>r. r\<lparr>rt_received_fin := True\<rparr>) tr)"
  using receive_callback_answers [OF assms] by blast

theorem receive_fin_answers_witness:
  "\<exists>st'. ism_msquic_runtime_stream_callback stable_build (Some 0)
       (Some (QUIC_STREAM_EVENT_RECEIVE (Some [(3500000, 5), (3500005, 0), (3500005, 16)]) 3 True)) demo_state
       = (QUIC_STATUS_SUCCESS, st') \<and>
     mem_bytes (sh_mem st') 2000000 21 = doq_frame (echo_response query_message) \<and>
     tr_world (sh_ctx st') = [Sent 7 (doq_frame (echo_response query_message)) True]"
proof -
  let ?b = "[(3500000, 5), (3500005, 0), (3500005, 16)] :: (addr \<times> u32) list"
  obtain status st' where run: "ism_msquic_runtime_stream_callback stable_build (Some 0)
      (Some (QUIC_STREAM_EVENT_RECEIVE (Some ?b) (of_nat (length ?b)) True)) demo_state = (status, st')" by fastforce
  have st: "conn_of demo_state = demo_conn" "sh_mem demo_state = demo_mem" "sh_ctx demo_state = demo_transport"
    "stream_of demo_transport 0 = demo_runtime 4" "sh_adapter demo_state = demo_adapter" "ad_connection demo_adapter = demo_conn"
    by (simp_all add: demo_state_def demo_adapter_def demo_transport_def stream_of_def)
  have val: "question_validator (check_question stable_build)"
    using grammar_validator.question_validator_axioms by (simp add: stable_build_def)
  have got: "stream_got [] (conn_of demo_state) (rt_stream_id (rt_of demo_state 0)) (sh_mem demo_state)"
    by (simp add: st stream_got_def demo_conn_empty demo_count demo_runtime_def init_stream_def)
  have ok: "list_all (buffer_ok demo_state 0) ?b"
    by (simp add: buffer_ok_def st demo_runtime_def init_stream_def ranges_disjoint_def demo_buffer less_4)
  have "mem_bytes demo_mem 3500000 (5 + 16) = framed_query" using demo_mem_bytes by simp
  then have q: "framed_query = [] @ concat (map (buffer_bytes (sh_mem demo_state)) ?b)"
    unfolding mem_bytes_add by (simp add: buffer_bytes_def st)
  have r: "minimal_response (drop 2 framed_query) (unat (ad_response_capacity (sh_adapter demo_state))) = Some (echo_response query_message)"
    by (simp add: query_id st demo_adapter_def query_response)
  have R: "status = QUIC_STATUS_SUCCESS \<and> mem_bytes (sh_mem st') 2000000 21 = doq_frame (echo_response query_message) \<and>
    (\<exists>tr. ism_msquic_runtime_send (Some 0) 4 2000000 21 True (sh_mem st') demo_transport = (ad_send_in_flight (sh_adapter st'), tr) \<and>
      sh_ctx st' = upd_stream 0 (\<lambda>r. r\<lparr>rt_received_fin := True\<rparr>) tr)"
    using receive_fin_answers [OF demo_runtime_ready _ val _ _ _ _ got ok _ q framed_query_phase query_id(1,2) r _ run]
    by (simp add: st demo_runtime_def init_stream_def demo_adapter_def length_query)
  have "tr_world (snd (ism_msquic_runtime_send (Some 0) 4 2000000 21 True (sh_mem st') demo_transport)) =
      [Sent 7 (mem_bytes (sh_mem st') 2000000 21) True]"
    by (simp add: ism_msquic_runtime_send_def demo_transport_def stream_of_def demo_runtime_def init_stream_def
        log_api_def log_failed_def upd_stream_def)
  with R have "tr_world (sh_ctx st') = [Sent 7 (doq_frame (echo_response query_message)) True]"
    by (auto simp: upd_stream_def)
  with R run show ?thesis by simp
qed

text \<open>C28. Bytes that cannot be a frame (an announced length below a DNS header, or more bytes than announced)
  and a FIN on anything but one complete frame with a zero message ID are protocol errors, however the
  bytes were spread over this and earlier callbacks: the callback fails with INVALID_STATE and shuts the
  connection down once with the DNS-over-QUIC protocol error code 2; nothing is sent, no stream's slot or
  runtime changes, and the adapter's invariant holds. After an accepted FIN the stream is closed for input: a second
  report of the FIN is a success that changes nothing, and a callback that brings further bytes fails with
  INVALID_STATE, copies nothing, and shuts the connection down with the same code.\<close>

theorem protocol_error_closes:
  assumes "runtime_ready bld st i" and "\<not> rt_received_fin (rt_of st i)"
    and "stream_got bs (conn_of st) (rt_stream_id (rt_of st i)) (sh_mem st)" and "doq_phase bs \<noteq> Done"
    and "list_all (buffer_ok st i) buffers" and "length buffers < 4294967296"
    and "q = bs @ concat (map (buffer_bytes (sh_mem st)) buffers)"
    and "doq_phase q = Done \<or> fin \<and> \<not> may_finish q"
    and "rt_api (rt_of st i) = Some api" and "ConnectionShutdown api = Some shutdown" and "rt_connection (rt_of st i) \<noteq> 0"
    and "ism_msquic_runtime_stream_callback bld (Some i)
      (Some (QUIC_STREAM_EVENT_RECEIVE (Some buffers) (of_nat (length buffers)) fin)) st = (status, st')"
    and "rt_adapter (rt_of closed j) = Obj" and "rt_queue (rt_of closed j) = Obj" and "rt_received_fin (rt_of closed j)"
    and "find (\<lambda>b. snd b \<noteq> 0) late \<noteq> None" and "length late < 4294967296"
  shows "status = QUIC_STATUS_INVALID_STATE \<and>
    sh_ctx st' = (sh_ctx st)\<lparr>tr_world := shutdown (rt_connection (rt_of st i)) 2 (tr_world (sh_ctx st))\<rparr> \<and>
    (\<exists>conn. sh_adapter st' = (sh_adapter st)\<lparr>ad_connection := conn\<rparr>) \<and> adapter_inv bld st' \<and>
    ism_msquic_runtime_stream_callback bld (Some j) (Some QUIC_STREAM_EVENT_PEER_SEND_SHUTDOWN) closed =
      (QUIC_STATUS_SUCCESS, closed) \<and>
    ism_msquic_runtime_stream_callback bld (Some j)
      (Some (QUIC_STREAM_EVENT_RECEIVE (Some late) (of_nat (length late)) fin2)) closed =
      (QUIC_STATUS_INVALID_STATE, doq_shutdown j closed)"
proof -
  obtain st1 where st1: "status = QUIC_STATUS_INVALID_STATE" "st' = doq_shutdown i st1" "runtime_ready bld st1 i"
      "sh_ctx st1 = sh_ctx st" "\<exists>conn. sh_adapter st1 = (sh_adapter st)\<lparr>ad_connection := conn\<rparr>"
    using receive_protocol_error [OF assms(1-8,12)] by metis
  have st': "st' = upd_world (shutdown (rt_connection (rt_of st i)) 2) st1"
    using st1(2,4) assms(9-11) by (simp add: doq_shutdown_def)
  have "adapter_inv bld st1" using st1(3) by (rule runtime_readyD)
  then have "adapter_inv bld st'"
    by (simp add: st' upd_world_def adapter_inv_def buffers_separate_def)
  moreover have "map (\<lambda>k. late ! k) [0..<unat (of_nat (length late) :: u32)] = late"
    using assms(17) by (simp add: map_nth)
  ultimately show ?thesis
    using st1(1,4,5) fin_again [OF assms(13-15), of bld] receive_after_fin [OF assms(15,16), of bld]
    by (simp add: st' upd_world_def ism_msquic_runtime_stream_callback_def [of bld "Some j"]
        ism_msquic_runtime_on_msquic_receive_def protocol_error_eq)
qed

theorem protocol_error_closes_witness:
  "\<exists>st'. ism_msquic_runtime_stream_callback stable_build (Some 0)
       (Some (QUIC_STREAM_EVENT_RECEIVE (Some [(3500000, 10)]) 1 True)) demo_state = (QUIC_STATUS_INVALID_STATE, st') \<and>
     tr_world (sh_ctx st') = [Shutdown 9 2] \<and>
     ism_msquic_runtime_stream_callback stable_build (Some 0)
       (Some (QUIC_STREAM_EVENT_RECEIVE (Some [(3500000, 1)]) 1 False)) busy_state = (QUIC_STATUS_INVALID_STATE, doq_shutdown 0 busy_state)"
proof -
  let ?b = "[(3500000, 10)] :: (addr \<times> u32) list"
  obtain status st' where run: "ism_msquic_runtime_stream_callback stable_build (Some 0)
      (Some (QUIC_STREAM_EVENT_RECEIVE (Some ?b) (of_nat (length ?b)) True)) demo_state = (status, st')" by fastforce
  have st: "conn_of demo_state = demo_conn" "sh_mem demo_state = demo_mem" "sh_ctx demo_state = demo_transport"
    "stream_of demo_transport 0 = demo_runtime 4" "tr_world demo_transport = []"
    by (simp_all add: demo_state_def demo_adapter_def demo_transport_def stream_of_def)
  have got: "stream_got [] (conn_of demo_state) (rt_stream_id (rt_of demo_state 0)) (sh_mem demo_state)"
    by (simp add: st stream_got_def demo_conn_empty demo_count demo_runtime_def init_stream_def)
  have ok: "list_all (buffer_ok demo_state 0) ?b"
    by (simp add: buffer_ok_def st demo_runtime_def init_stream_def ranges_disjoint_def demo_buffer less_4)
  have "take 10 (mem_bytes demo_mem 3500000 (10 + 11)) = take 10 framed_query" using demo_mem_bytes by simp
  then have q: "take 10 framed_query = [] @ concat (map (buffer_bytes (sh_mem demo_state)) ?b)"
    unfolding mem_bytes_add by (simp add: buffer_bytes_def st)
  have bad: "doq_phase (take 10 framed_query) = Done \<or> True \<and> \<not> may_finish (take 10 framed_query)"
    by (simp add: may_finish_code) code_simp
  from protocol_error_closes [OF demo_runtime_ready _ got _ ok _ q bad _ _ _ run, of log_api "\<lambda>c code w. w @ [Shutdown c code]"
      busy_state 0 "[(3500000, 1)]" False] run
  show ?thesis by (simp add: st demo_runtime_def init_stream_def log_api_def busy_runtime_def)
qed

text \<open>C29. While a stream's send is in flight. A SEND_COMPLETE callback counts only for the send it belongs to: with
  another context it is refused and nothing changes. The completion of the stream's own send clears the
  runtime's and the adapter's record of it and closes exactly that stream, also when the send was cancelled. An
  abort or shutdown of the stream never touches the record of the send: it is remembered and the callback
  succeeds; the completion that follows then closes the stream.\<close>

theorem send_complete_clears:
  assumes "runtime_ready bld st i" and "i < length (tr_streams (sh_ctx st))" and "rt_send_in_flight (rt_of st i)"
    and "ad_send_in_flight (sh_adapter st)" and "ad_send_stream_id (sh_adapter st) = rt_stream_id (rt_of st i)"
    and "ad_send_len (sh_adapter st) = rt_response_len (rt_of st i)"
    and "ism_msquic_runtime_stream_callback bld (Some i)
      (Some (QUIC_STREAM_EVENT_SEND_COMPLETE ctx canceled)) st = (status, st')"
    and "ev \<in> reset_events" and "ism_msquic_runtime_stream_callback bld (Some i) (Some ev) st = (status1, st1)"
    and "ism_msquic_runtime_stream_callback bld (Some i)
      (Some (QUIC_STREAM_EVENT_SEND_COMPLETE (Some i) canceled)) st1 = (status2, st2)"
  shows "(if ctx = Some i then status = QUIC_STATUS_SUCCESS \<and> adapter_inv bld st' \<and>
      \<not> ad_send_in_flight (sh_adapter st') \<and> \<not> rt_send_in_flight (rt_of st' i) \<and> \<not> rt_reset_pending (rt_of st' i) \<and>
      abs_table (conn_of st') = (abs_table (conn_of st))(rt_stream_id (rt_of st i) := None)
    else status = QUIC_STATUS_INVALID_PARAMETER \<and> st' = st) \<and>
    status1 = QUIC_STATUS_SUCCESS \<and> st1 = upd_rt i (\<lambda>r. r\<lparr>rt_reset_pending := True\<rparr>) st \<and>
    status2 = QUIC_STATUS_SUCCESS \<and> \<not> ad_send_in_flight (sh_adapter st2) \<and>
    abs_table (conn_of st2) (rt_stream_id (rt_of st i)) = None"
proof (intro conjI)
  have "ctx \<noteq> Some i \<Longrightarrow> status = QUIC_STATUS_INVALID_PARAMETER \<and> st' = st"
    using assms(7) by (auto simp: ism_msquic_runtime_stream_callback_def)
  with send_complete_callback [OF assms(1-6)] assms(7)
  show "if ctx = Some i then status = QUIC_STATUS_SUCCESS \<and> adapter_inv bld st' \<and>
      \<not> ad_send_in_flight (sh_adapter st') \<and> \<not> rt_send_in_flight (rt_of st' i) \<and> \<not> rt_reset_pending (rt_of st' i) \<and>
      abs_table (conn_of st') = (abs_table (conn_of st))(rt_stream_id (rt_of st i) := None)
    else status = QUIC_STATUS_INVALID_PARAMETER \<and> st' = st" by (cases "ctx = Some i") simp_all
  show st1: "status1 = QUIC_STATUS_SUCCESS" "st1 = upd_rt i (\<lambda>r. r\<lparr>rt_reset_pending := True\<rparr>) st"
    using assms(3,8,9) by (auto simp: reset_events_def ism_msquic_runtime_stream_callback_def)
  have "runtime_ready bld st1 i"
    using assms(1,2) st1(2) by (simp add: runtime_ready_def upd_rt_def upd_stream_def stream_of_def Let_def)
  from send_complete_callback [OF this _ _ _ _ _ assms(10)] assms(2-6) st1
  show "status2 = QUIC_STATUS_SUCCESS" "\<not> ad_send_in_flight (sh_adapter st2)"
    "abs_table (conn_of st2) (rt_stream_id (rt_of st i)) = None" by simp_all
qed

theorem send_complete_clears_witness:
  "\<exists>st' st1 st2. ism_msquic_runtime_stream_callback pulse_build (Some 0)
       (Some (QUIC_STREAM_EVENT_SEND_COMPLETE (Some 0) True)) busy_state = (QUIC_STATUS_SUCCESS, st') \<and>
     abs_table (conn_of st') 4 = None \<and>
     ism_msquic_runtime_stream_callback pulse_build (Some 0)
       (Some QUIC_STREAM_EVENT_PEER_RECEIVE_ABORTED) busy_state = (QUIC_STATUS_SUCCESS, st1) \<and>
     ism_msquic_runtime_stream_callback pulse_build (Some 0)
       (Some (QUIC_STREAM_EVENT_SEND_COMPLETE (Some 0) True)) st1 = (QUIC_STATUS_SUCCESS, st2)"
proof -
  obtain status st' where run: "ism_msquic_runtime_stream_callback pulse_build (Some 0)
      (Some (QUIC_STREAM_EVENT_SEND_COMPLETE (Some 0) True)) busy_state = (status, st')" by fastforce
  obtain s st1 where a: "ism_msquic_runtime_stream_callback pulse_build (Some 0)
      (Some QUIC_STREAM_EVENT_PEER_RECEIVE_ABORTED) busy_state = (s, st1)" by fastforce
  obtain s2 st2 where b: "ism_msquic_runtime_stream_callback pulse_build (Some 0)
      (Some (QUIC_STREAM_EVENT_SEND_COMPLETE (Some 0) True)) st1 = (s2, st2)" by fastforce
  from send_complete_clears [OF busy_runtime_ready(1) _ _ _ _ _ run _ a b] run a b show ?thesis
    by (simp add: busy_runtime_def demo_runtime_def init_stream_def reset_events_def)
qed

text \<open>C30. A peer-started stream: if MsQuic reports its identifier and a slot is free, the first free
  slot is taken, its runtime stream is initialised for that identifier and handle, and the stream
  callback is installed with the slot as context. Otherwise the callback reports INVALID_STATE, the
  stream handle is closed, and no slot changes.\<close>

theorem peer_stream_started:
  assumes "slots_ok cr st" and "cr_api cr = Some api" and "stream \<noteq> 0"
    and "GetParam api stream (tr_world (sh_ctx st)) = (status, id_len, sid, w)"
    and "ism_msquic_connection_runtime_connection_callback (Some cr) connection
      (Some (QUIC_CONNECTION_EVENT_PEER_STREAM_STARTED stream)) st = (res, st')"
  shows "if tr_failed (sh_ctx st) status \<or> id_len \<noteq> 8 \<or> (\<forall>i<unat (cr_stream_slot_count cr). \<not> slot_free st i)
    then res = QUIC_STATUS_INVALID_STATE \<and> st' = upd_world (\<lambda>_. StreamClose api stream w) st
    else \<exists>i<unat (cr_stream_slot_count cr). slot_free st i \<and> (\<forall>k<i. \<not> slot_free st k) \<and>
      res = QUIC_STATUS_SUCCESS \<and> tr_world (sh_ctx st') = SetCallbackHandler api stream (StreamCallback i) w \<and>
      slot_at st' i = (slot_at st i)\<lparr>sl_api := Some api, sl_stream := stream, sl_in_use := True\<rparr> \<and>
      rt_of st' i = (init_stream (cr_adapter cr) (cr_queue cr) sid (sl_ingress_buffer (slot_at st i))
        (sl_ingress_capacity (slot_at st i)))\<lparr>rt_api := Some api, rt_stream := stream, rt_connection := connection\<rparr> \<and>
      (\<forall>k<unat (cr_stream_slot_count cr). k \<noteq> i \<longrightarrow> slot_at st' k = slot_at st k \<and> rt_of st' k = rt_of st k)"
proof -
  obtain p st1 where a: "ism_msquic_connection_runtime_allocate_slot (Some cr) stream st = (p, st1)" by fastforce
  have len: "length (tr_slots (sh_ctx st)) = unat (cr_stream_slot_count cr)"
      "length (tr_streams (sh_ctx st)) = unat (cr_stream_slot_count cr)"
    using assms(1) by (simp_all add: slots_ok_def)
  note A = allocate_slot_cases [OF assms(1-4) a]
  show ?thesis
  proof (cases "tr_failed (sh_ctx st) status \<or> id_len \<noteq> 8 \<or> (\<forall>i<unat (cr_stream_slot_count cr). \<not> slot_free st i)")
    case True
    with A have "p = None" "st1 = upd_world (\<lambda>_. w) st" by auto
    then have "res = QUIC_STATUS_INVALID_STATE \<and> st' = upd_world (\<lambda>_. StreamClose api stream w) st"
      using assms(2,3,5) a by (auto simp: ism_msquic_connection_runtime_connection_callback_def upd_world_def)
    with True show ?thesis by simp
  next
    case False
    from A [unfolded if_not_P [OF False]] obtain i where i: "i < unat (cr_stream_slot_count cr)" "p = Some i" "slot_free st i" "\<forall>k<i. \<not> slot_free st k"
      and st1: "st1 = upd_slot i (\<lambda>s. s\<lparr>sl_api := Some api, sl_stream := stream, sl_in_use := True\<rparr>)
        (upd_rt i (\<lambda>_. (init_stream (cr_adapter cr) (cr_queue cr) sid (sl_ingress_buffer (slot_at st i))
            (sl_ingress_capacity (slot_at st i)))\<lparr>rt_api := Some api, rt_stream := stream\<rparr>)
          (upd_world (\<lambda>_. w) st))" by blast
    have "res = QUIC_STATUS_SUCCESS \<and> st' = upd_world (SetCallbackHandler api stream (StreamCallback i))
        (upd_rt i (\<lambda>r. r\<lparr>rt_connection := connection\<rparr>) st1)"
      using assms(2,5) a i(2) by (auto simp: ism_msquic_connection_runtime_connection_callback_def)
    with False i st1 len show ?thesis by auto
  qed
qed

theorem peer_stream_started_witness:
  "\<exists>st'. ism_msquic_connection_runtime_connection_callback (Some \<lparr>cr_api = Some log_api, cr_configuration = 2,
       cr_adapter = Obj, cr_queue = Obj, cr_stream_slots = Obj, cr_stream_slot_count = 3\<rparr>) 9
       (Some (QUIC_CONNECTION_EVENT_PEER_STREAM_STARTED 12)) busy_state = (QUIC_STATUS_SUCCESS, st') \<and>
     sl_in_use (slot_at st' 2) \<and> rt_stream_id (rt_of st' 2) = 12"
proof -
  let ?cr = "\<lparr>cr_api = Some log_api, cr_configuration = 2, cr_adapter = Obj, cr_queue = Obj,
    cr_stream_slots = Obj, cr_stream_slot_count = 3\<rparr>"
  obtain res st' where run: "ism_msquic_connection_runtime_connection_callback (Some ?cr) 9
      (Some (QUIC_CONNECTION_EVENT_PEER_STREAM_STARTED 12)) busy_state = (res, st')" by fastforce
  have free: "slot_free busy_state 2" "\<not> slot_free busy_state 0" "\<not> slot_free busy_state (Suc 0)"
    by (simp_all add: slot_free_def demo_slot_def)
  have ok: "slots_ok ?cr busy_state" and api: "cr_api ?cr = Some log_api" by (simp_all add: slots_ok_def)
  have get: "GetParam log_api 12 (tr_world (sh_ctx busy_state)) = (QUIC_STATUS_SUCCESS, 8, 12, [])"
    by (simp add: log_api_def)
  have "2 < unat (cr_stream_slot_count ?cr)" by simp
  then have "\<not> (\<forall>i<unat (cr_stream_slot_count ?cr). \<not> slot_free busy_state i)" using free(1) by blast
  then have N: "\<not> (tr_failed (sh_ctx busy_state) QUIC_STATUS_SUCCESS \<or> (8 :: u32) \<noteq> 8 \<or>
      (\<forall>i<unat (cr_stream_slot_count ?cr). \<not> slot_free busy_state i))" by (simp add: log_failed_def)
  obtain i where i: "i < 3" "slot_free busy_state i" "res = QUIC_STATUS_SUCCESS" "sl_in_use (slot_at st' i)"
      "rt_stream_id (rt_of st' i) = 12"
    using peer_stream_started [OF ok api _ get run, unfolded if_not_P [OF N]] by (auto simp: init_stream_def)
  have "i = 0 \<or> i = Suc 0 \<or> i = 2" using i(1) by auto
  with i free run show ?thesis by auto
qed

text \<open>C31. Shutdown of a stream that has no send of its own in flight. With no send in flight at all its shell
  context is closed, the MsQuic handle is closed once, and the slot is free for the next stream while
  other slots keep their state. While another stream's response is in flight the shutdown is refused: the
  callback returns INVALID_STATE, the stream stays open in the shell's table, its slot stays in use and
  its MsQuic handle is not closed.\<close>

theorem stream_shutdown:
  assumes "runtime_ready bld st i" and "\<not> rt_send_in_flight (rt_of st i)"
    and "ad_send_in_flight (sh_adapter st) \<longrightarrow> ad_send_stream_id (sh_adapter st) \<noteq> rt_stream_id (rt_of st i)"
    and "i < length (tr_slots (sh_ctx st))" and "i < length (tr_streams (sh_ctx st))"
    and "sl_api (slot_at st i) = Some api" and "sl_stream (slot_at st i) \<noteq> 0" and "failed_codes (tr_failed (sh_ctx st))"
    and "ism_msquic_connection_runtime_stream_callback bld (Some i) (Some QUIC_STREAM_EVENT_SHUTDOWN_COMPLETE) st
      = (status, st')"
  shows "if ad_send_in_flight (sh_adapter st)
    then status = QUIC_STATUS_INVALID_STATE \<and> sh_ctx st' = sh_ctx st \<and> sh_adapter st' = sh_adapter st
    else status = QUIC_STATUS_SUCCESS \<and> adapter_inv bld st' \<and>
      abs_table (conn_of st') = (abs_table (conn_of st))(rt_stream_id (rt_of st i) := None) \<and>
      tr_world (sh_ctx st') = StreamClose api (sl_stream (slot_at st i)) (tr_world (sh_ctx st)) \<and>
      \<not> sl_in_use (slot_at st' i) \<and> sl_stream (slot_at st' i) = 0 \<and>
      (\<forall>k<length (tr_slots (sh_ctx st)). k \<noteq> i \<longrightarrow> slot_at st' k = slot_at st k)"
proof (cases "ad_send_in_flight (sh_adapter st)")
  case True
  have "tr_failed (sh_ctx st) QUIC_STATUS_INVALID_STATE" using assms(8) by (simp add: failed_codes_def)
  with shutdown_refused [OF assms(1,2) True _ _ assms(9)] assms(3) True show ?thesis by simp
next
  case False
  have "\<not> tr_failed (sh_ctx st) QUIC_STATUS_SUCCESS" using assms(8) by (simp add: failed_codes_def)
  with shutdown_releases [OF assms(1,2) False assms(4-7) _ assms(9)] False show ?thesis by simp
qed

theorem stream_shutdown_witness:
  "(\<exists>st'. ism_msquic_connection_runtime_stream_callback pulse_build (Some 0)
       (Some QUIC_STREAM_EVENT_SHUTDOWN_COMPLETE) demo_state = (QUIC_STATUS_SUCCESS, st') \<and>
     tr_world (sh_ctx st') = [Closed 7] \<and> \<not> sl_in_use (slot_at st' 0)) \<and>
   (\<exists>st'. ism_msquic_connection_runtime_stream_callback stable_build (Some 1)
       (Some QUIC_STREAM_EVENT_SHUTDOWN_COMPLETE) busy_state = (QUIC_STATUS_INVALID_STATE, st') \<and>
     tr_world (sh_ctx st') = [] \<and> sl_in_use (slot_at st' 1))"
proof
  obtain status st' where run: "ism_msquic_connection_runtime_stream_callback pulse_build (Some 0)
      (Some QUIC_STREAM_EVENT_SHUTDOWN_COMPLETE) demo_state = (status, st')" by fastforce
  have st: "rt_of demo_state 0 = demo_runtime 4" "slot_at demo_state 0 = demo_slot" "tr_failed (sh_ctx demo_state) = log_failed"
    "length (tr_slots (sh_ctx demo_state)) = 1" "length (tr_streams (sh_ctx demo_state)) = 1" "tr_world (sh_ctx demo_state) = []"
    "sh_adapter demo_state = demo_adapter"
    by (simp_all add: demo_state_def demo_transport_def stream_of_def slot_at_def)
  from stream_shutdown [OF demo_runtime_ready _ _ _ _ _ _ _ run, of log_api] run
  show "\<exists>st'. ism_msquic_connection_runtime_stream_callback pulse_build (Some 0)
       (Some QUIC_STREAM_EVENT_SHUTDOWN_COMPLETE) demo_state = (QUIC_STATUS_SUCCESS, st') \<and>
     tr_world (sh_ctx st') = [Closed 7] \<and> \<not> sl_in_use (slot_at st' 0)"
    by (simp add: st demo_runtime_def init_stream_def demo_adapter_def demo_slot_def log_failed_codes log_api_def)
next
  obtain status st' where run: "ism_msquic_connection_runtime_stream_callback stable_build (Some 1)
      (Some QUIC_STREAM_EVENT_SHUTDOWN_COMPLETE) busy_state = (status, st')" by fastforce
  have slot: "slot_at busy_state 1 = demo_slot\<lparr>sl_stream := 8\<rparr>" using busy_simps(16) by simp
  from stream_shutdown [OF busy_runtime_ready(2) _ _ _ _ _ _ _ run, of log_api] run
  show "\<exists>st'. ism_msquic_connection_runtime_stream_callback stable_build (Some 1)
       (Some QUIC_STREAM_EVENT_SHUTDOWN_COMPLETE) busy_state = (QUIC_STATUS_INVALID_STATE, st') \<and>
     tr_world (sh_ctx st') = [] \<and> sl_in_use (slot_at st' 1)"
    using slot by (simp add: demo_runtime_def init_stream_def log_failed_codes demo_slot_def slot_at_def)
qed

section \<open>DNS messages, zone, cache and worker\<close>

text \<open>C32. Domain names. With fuel 128 or more the plain parser accepts exactly the serialized names of at most 255
  bytes with labels of 1 to 63 bytes, and returns the name and the bytes after it. The parser of compressed names
  returns only readings of the input in which every pointer goes strictly backwards to a known position of a
  name in the message; every such reading of at most 255 bytes is found once the fuel exceeds its labels and the
  earlier positions; a position has at most one reading; and an uncompressed name is read as by the plain parser.\<close>

theorem dns_names_parse:
  assumes "128 \<le> fuel" and "known = message_name_offsets original"
  shows "(parse_qname fuel bytes = Some (name, rest) \<longleftrightarrow>
      valid_name name \<and> dns_name_length name \<le> 255 \<and> bytes = serialize_qname_labels name @ rest) \<and>
    (parse_qname_compressed fuel original limit bytes = Some (name, rest) \<longrightarrow>
      name_at original known limit bytes name rest \<and> dns_name_length name \<le> 255) \<and>
    (name_at original known limit bytes name rest \<and> dns_name_length name \<le> 255 \<and>
      length name + card (earlier known limit) < fuel \<longrightarrow> parse_qname_compressed fuel original limit bytes = Some (name, rest)) \<and>
    (name_at original known limit bytes name rest \<and> name_at original known limit bytes name' rest' \<longrightarrow> name' = name \<and> rest' = rest) \<and>
    (parse_qname fuel bytes = Some (name, rest) \<longrightarrow> parse_qname_compressed fuel original limit bytes = Some (name, rest))"
  using parse_qname_iff [OF assms(1)] compressed_sound [of fuel 255 original known limit bytes name rest]
    compressed_complete [of original known limit bytes name rest 255 fuel]
    name_at_unique [of original known limit bytes name rest name' rest']
    compressed_extends [of fuel bytes "(name, rest)" original limit]
  by (auto simp: parse_qname_compressed_def assms(2))

theorem dns_names_parse_witness:
  "parse_qname 128 (drop 12 api_query) = Some (api_name, [0, 1, 0, 1]) \<and>
   parse_qname_compressed 128 compressed_message 19 (drop 19 compressed_message) = Some ([[0x61]], [0, 1, 0, 1])"
proof -
  let ?known = "message_name_offsets compressed_message"
  have known: "?known = [12, 14, 19]" by (rule compressed_message_names)
  have name: "valid_name api_name" "dns_name_length api_name \<le> 255"
    "drop 12 api_query = serialize_qname_labels api_name @ [0, 1, 0, 1]"
    by (simp_all add: api_name_def label_example_def label_com_def valid_label_def api_name_bytes api_query_def)
  have "parse_qname 128 (drop 12 api_query) = Some (api_name, [0, 1, 0, 1])"
    using dns_names_parse [OF order_refl refl, where bytes = "drop 12 api_query" and name = api_name and rest = "[0, 1, 0, 1]"] name
    by blast
  moreover have "earlier ?known 19 \<subseteq> {12, 14}" by (auto simp: earlier_def known)
  then have "card (earlier ?known 19) \<le> 2" using card_mono [of "{12, 14}" "earlier ?known 19"] by simp
  then have "length [[0x61 :: u8]] + card (earlier ?known 19) < 128" "dns_name_length [[0x61]] \<le> 255" by simp_all
  then have "parse_qname_compressed 128 compressed_message 19 (drop 19 compressed_message) = Some ([[0x61]], [0, 1, 0, 1])"
    using compressed_reading dns_names_parse [OF order_refl refl, where bytes = "drop 19 compressed_message" and name = "[[0x61]]"
        and rest = "[0, 1, 0, 1]" and original = compressed_message and limit = 19]
    by blast
  ultimately show ?thesis by blast
qed

text \<open>C33. DNS messages. The serializer succeeds exactly on well-formed messages: the header counts are the lengths
  of the sections, the flag fields fit, names and types are valid, record data has the shape of its type, and an OPT
  record stands only in the additional section. Every well-formed message has an encoding, and the
  parser reads the encoding back as that message. Whatever the parser accepts has matching counts, valid flags and
  valid questions.\<close>

theorem dns_message_roundtrip:
  "(serialize_dns_packet_bytes p = Some bs \<longleftrightarrow> packet_ok p \<and> packet_bytes p bs) \<and>
   (packet_ok p \<longrightarrow> (\<exists>bytes. serialize_dns_packet_bytes p = Some bytes \<and> parse_dns_packet_bytes bytes = Some p)) \<and>
   (parse_dns_packet_bytes bs = Some p' \<longrightarrow>
     header_counts_match p' \<and> valid_flags (h_flags (p_header p')) \<and> list_all valid_question (p_questions p'))"
  using serialize_packet_iff serialize_ok parsed_packet(1-3) by blast

theorem dns_message_roundtrip_witness:
  "serialize_dns_packet_bytes api_request = Some api_query \<and> parse_dns_packet_bytes api_query = Some api_request"
  using dns_message_roundtrip [of api_request api_query api_request] api_request_ok by auto

text \<open>C34. The zone. Lookup ignores the case of letters and prefers an exact match to a wildcard; a name that is absent below
  an existing one has the records of the wildcard there, and none if there is no wildcard. Following CNAME records
  from a name: a chain of \<open>k\<close> steps to a name without a further step gives what stands there when \<open>k\<close> is below
  the hop count and a server failure otherwise; a chain as long as the hop count, hence every loop, gives a server failure; every
  name has a chain of one of these two forms; and the records found are records of the zone.\<close>

theorem zone_lookup_and_chase:
  "(qname_eq a b \<longrightarrow> lookup_dns_name root a = lookup_dns_name root b) \<and>
   (lookup_exact root (rev a) = Some rrs \<longrightarrow> lookup_dns_name root a = Some rrs) \<and>
   (lookup_exact root (rev (l # parent)) = None \<and> lookup_exact root (rev parent) \<noteq> None \<longrightarrow>
     lookup_dns_name root (l # parent) = lookup_exact root (rev (wildcard_label # parent))) \<and>
   ((a, n) \<in> cname_step root ^^ k \<and> n \<notin> Domain (cname_step root) \<longrightarrow>
     chase_cname root a hops = (if k < hops then chase_end root n else Error ServFail)) \<and>
   ((a, n) \<in> cname_step root ^^ hops \<longrightarrow> chase_cname root a hops = Error ServFail) \<and>
   ((a, a) \<in> (cname_step root)\<^sup>+ \<longrightarrow> chase_cname root a hops = Error ServFail) \<and>
   ((\<exists>k n. (a, n) \<in> cname_step root ^^ k \<and> n \<notin> Domain (cname_step root)) \<or> (\<forall>k. \<exists>n. (a, n) \<in> cname_step root ^^ k)) \<and>
   (chase_cname root a hops = Success found \<longrightarrow> set found \<subseteq> zone_records root)"
  using lookup_ignores_case exact_wins [of root "rev a" rrs] wildcard_fallback [of root "rev parent" l] chase_cname_cases [of a n _ root] chase_loop [of a root hops] chain_total
    chase_in_zone [of root a hops found]
  by (simp add: lookup_dns_name_def name_to_tree_key_def)

theorem zone_lookup_and_chase_witness:
  "lookup_dns_name wildcard_test_root [[0x57, 0x57, 0x57], label_example, label_com] = Some [exact_record] \<and>
   lookup_dns_name wildcard_test_root api_name = Some [wildcard_record] \<and>
   chase_cname wildcard_test_root api_name 15 = Success [wildcard_record]"
proof -
  let ?upper = "[[0x57, 0x57, 0x57], label_example, label_com] :: qname"
  let ?www = "[label_www, label_example, label_com]"
  have "qname_eq ?upper ?www" and "lookup_exact wildcard_test_root (rev ?www) = Some [exact_record]"
    and api: "lookup_dns_name wildcard_test_root api_name = Some [wildcard_record]"
    by (rule zone_examples)+
  then have "lookup_dns_name wildcard_test_root ?upper = Some [exact_record]"
    using zone_lookup_and_chase [of ?upper ?www wildcard_test_root] zone_lookup_and_chase [of ?www _ wildcard_test_root "[exact_record]"]
    by simp
  moreover have "api_name \<notin> Domain (cname_step wildcard_test_root)" "chase_end wildcard_test_root api_name = Success [wildcard_record]"
    using api by (auto simp: cname_step_def chase_end_def wildcard_record_def)
  ultimately show ?thesis
    using zone_lookup_and_chase [where a = api_name and root = wildcard_test_root and n = api_name and k = 0 and hops = 15] api by simp
qed

text \<open>C35. The caches serve only what belongs to them. After any sequence of insertions, whatever either cache returns for
  a name at a time was there before, or was inserted with an owner name inside the authority zone given with
  it, equals the name asked for up to letter case, has not expired, and carries the smaller of its lifetime and the time left. In the
  one-slot cache the record stored last decides: an insertion is accepted exactly when the cache has a slot, the owner is inside the authority zone and the record
  is well formed, a refused one changes no answer, and after an accepted one the lifetime goes down with the clock until the record expires, as long as
  the time of storing plus the lifetime stays below 2 to the power 64.\<close>

theorem cache_serves_bailiwick:
  assumes "cache_ok c" and "shards_ok sc" and "add_to_cache c query zone r stored = (inserted, c')"
  shows "(get_from_cache (run_adds add_to_cache c is) name now = Some answer \<longrightarrow>
      get_from_cache c name now = Some answer \<or> inserted_by is name now answer) \<and>
    (concurrent_get (run_adds concurrent_add sc is) name now = Some answer \<longrightarrow>
      concurrent_get sc name now = Some answer \<or> inserted_by is name now answer) \<and>
    (inserted \<longleftrightarrow> c_size c \<noteq> 0 \<and> is_subdomain (rr_name r) zone \<and> well_formed_record r) \<and>
    (is_subdomain (rr_name r) zone \<longleftrightarrow> (\<exists>front back. rr_name r = front @ back \<and> qname_eq back zone)) \<and>
    get_from_cache c' name now = (if inserted then served r stored name now else get_from_cache c name now) \<and>
    (stored \<le> now \<and> unat stored + unat (rr_ttl r) < 2 ^ 64 \<and> qname_eq (rr_name r) name \<longrightarrow>
      served r stored name now = (if unat now - unat stored < unat (rr_ttl r)
        then Some (r\<lparr>rr_ttl := rr_ttl r - of_nat (unat now - unat stored)\<rparr>) else None))"
  using first_slot.get_origin [OF assms(1)] shards.get_origin [OF assms(2)] add_then_get(1,2) [OF assms(1,3)]
    is_subdomain_iff [of "rr_name r" zone] served_ages [of stored now r name]
  by (simp add: word_le_nat_alt)

theorem cache_serves_bailiwick_witness:
  "get_from_cache (snd (add_to_cache one_slot_cache [] [label_com] exact_record 100)) [label_www, label_example, label_com] 130 =
     Some (exact_record\<lparr>rr_ttl := 30\<rparr>) \<and>
   \<not> fst (add_to_cache one_slot_cache [] [label_www] exact_record 100)"
proof -
  have ok: "cache_ok one_slot_cache" "shards_ok \<lparr>sc_shards = [], sc_num = 0\<rparr>"
    by (simp_all add: cache_ok_def one_slot_cache_def shards_ok_def)
  have sub: "is_subdomain (rr_name exact_record) [label_com]" "\<not> is_subdomain (rr_name exact_record) [label_www]"
    by (rule exact_record_zones)+
  have rec: "c_size one_slot_cache \<noteq> 0" "well_formed_record exact_record" "rr_ttl exact_record = 60"
    "rr_name exact_record = [label_www, label_example, label_com]"
    using exact_record_ok by (simp_all add: one_slot_cache_def exact_record_def record_ok_def)
  show ?thesis
    using cache_serves_bailiwick [OF ok surjective_pairing, where query = "[]" and zone = "[label_com]" and r = exact_record
        and stored = 100 and name = "[label_www, label_example, label_com]" and now = 130]
      cache_serves_bailiwick [OF ok surjective_pairing, where query = "[]" and zone = "[label_www]" and r = exact_record and stored = 100] sub rec
    by simp
qed

text \<open>C36. The full worker, end to end over the stream table, the parser, the zone and the serializer: for a stream that
  is ready with a message that parses and passes the gate of generated validators, and a zone of well-formed records that resolves it to at most 65535 answers, there is a response that
  parses, repeats the request's ID and questions, carries the records the zone resolves the first question to or the error code it resolves
  to, and it is written to the response buffer exactly when it fits; nothing else in memory changes. A plain query, one question and no record, passes
  the gate whenever the question validator accepts the documented grammar. For any other input at most the response buffer changes, and a
  message of none of the recognised shapes does not pass.\<close>

theorem worker_answers:
  assumes "find_stream conn sid = Some p" and "sc_phase (stream_at conn (Some p)) = S_Processing len"
    and "mem_bytes m (sc_buf (stream_at conn (Some p))) (unat len) = query"
    and "validate_generated_subset_gate_buffer check query \<or>
      plain_query request \<and> question_validator (\<lambda>n bs. if check (Check_question n) bs then 1 else 0)"
    and "parse_dns_packet_bytes query = Some request" and "zone_ok root"
    and "length (result_answers (resolve_authoritative_request root request)) \<le> 65535"
  shows "(\<exists>reply response. parse_dns_packet_bytes reply = Some response \<and> authoritative_reply root request response \<and>
      worker_loop_with_root check root conn response_buffer capacity sid m =
        (if length reply \<le> unat capacity then mem_write m response_buffer reply else m)) \<and>
    mem_frame response_buffer (unat capacity) m' (worker_loop_with_root check' root' conn' response_buffer capacity sid' m') \<and>
    (\<not> generated_subset_applicable bytes \<longrightarrow> \<not> validate_generated_subset_gate_buffer check' bytes)"
proof -
  have "validate_generated_subset_gate_buffer check query" using assms(4) plain_query_passes [OF _ assms(5)] by blast
  from worker_loop_answers [OF assms(1-3) this assms(5-7)] worker_loop_frame gate_applicable show ?thesis by blast
qed

theorem worker_answers_witness:
  "\<exists>reply response. parse_dns_packet_bytes reply = Some response \<and> p_answers response = [wildcard_record] \<and>
     worker_loop grammar_check processing_conn 1000000 512 4 api_mem =
       (if length reply \<le> 512 then mem_write api_mem 1000000 reply else api_mem)"
proof -
  have res: "resolve_authoritative_request wildcard_test_root api_request = Success [wildcard_record]"
    by (rule resolve_api)
  have bytes: "mem_bytes api_mem (sc_buf (stream_at processing_conn (Some 0))) (unat (33 :: u32)) = api_query"
    by (simp add: processing_stream api_mem_bytes)
  have "sc_phase (stream_at processing_conn (Some 0)) = S_Processing 33" by (simp add: processing_stream)
  from worker_answers [OF processing_stream(1) this bytes disjI2 parse_api_query wildcard_zone_ok, of grammar_check 1000000 512
      api_mem grammar_check wildcard_test_root processing_conn 4 "[]"]
  obtain reply response where "parse_dns_packet_bytes reply = Some response" "authoritative_reply wildcard_test_root api_request response"
    "worker_loop_with_root grammar_check wildcard_test_root processing_conn 1000000 512 4 api_mem =
       (if length reply \<le> unat (512 :: u32) then mem_write api_mem 1000000 reply else api_mem)"
    using grammar_check_documented by (auto simp: res result_answers_def api_plain)
  then show ?thesis
    by (intro exI [of _ reply] exI [of _ response]) (simp add: res result_answers_def authoritative_reply_def worker_loop_def)
qed

section \<open>The repository's own tests\<close>

text \<open>C37. The tests that the shell's test program links return true, in every build and
  wherever their variables stand. The queue test: order, overflow and underflow of the queue, then a query, its
  completion, a partial query and its reset dispatched through it. The adapter test: a valid query with
  everything a busy adapter must refuse, an invalid query, a response capacity that is too small, a
  reset before any response, and a send that fails. The framing test: for every length and capacity it tries,
  the result, the frame, the source bytes and the guard bytes are as it expects. The shell test opens, completes
  and reopens streams, and gets from every response constructor, called directly and through the
  scheduler, the bytes it compares with. The regression test: a query cut at every position is answered the same, one with
  a byte too many, cut short, announced shorter than a header or with a nonzero message ID is refused, and a slot that
  is closed comes back without touching the other streams. With validators that decide the documented grammars the tests of
  generated code return true as well. So the program's exit code is 0 exactly when the runtime test returns true.\<close>

theorem shell_tests_pass:
  assumes "placed bld response 128 send_buffer 128 st" and "array_at bld st a_query exact_a_query"
    and "q_events (sh_queue st) = Some [e0, e1, e2, e3]"
    and "\<forall>k\<in>{0, 1, 3, 4}. placed bld (responses k) 128 (sends k) 128 (sts k)"
    and "array_at bld (sts 0) query exact_a_query" and "array_at bld (sts 1) invalid_query invalid_header_query"
    and "array_at bld (sts 3) partial partial_length_prefix" and "array_at bld (sts 4) query exact_a_query"
    and "ranges_disjoint input 65536 guarded_output 65541"
    and "scaffold_placed bld (responses 0) (streams 0) message header_only_doq_message (vs 0)"
    and "\<forall>k\<in>{1..6}. scaffold_placed bld (responses k) (streams k) query exact_a_query (vs k)"
    and "scaffold_placed bld (responses 7) (streams 7) invalid_query invalid_header_query (vs 7)"
    and "audit_placed bld audit_q audit_response excess pre av" and "packet_validators check_header check_a check_compressed"
  shows "ism_smoke_event_queue bld response send_buffer a_query (ev, st) \<and>
    ism_smoke_msquic_adapter bld responses sends query invalid_query partial sts \<and>
    framing_regressions input guarded_output m \<and>
    ism_smoke_shell_scaffold bld message query invalid_query responses streams vs \<and>
    ism_smoke_proof_audit bld check_compressed audit_q audit_response excess pre av \<and>
    (fst (link_smoke_main
      [(''everparse'', ism_smoke_everparse_header check_header check_a), (''protocol'', ism_smoke_protocol_qtype),
       (''shell boundary'', ism_smoke_shell_boundary), (''response boundary'', framing_regressions input guarded_output m),
       (''shell scaffold'', ism_smoke_shell_scaffold bld message query invalid_query responses streams vs),
       (''MsQuic adapter'', ism_smoke_msquic_adapter bld responses sends query invalid_query partial sts),
       (''MsQuic runtime'', ism_smoke_msquic_runtime bld r1 r2 r3 r4 r5 r6 r7 r8 r9 rst),
       (''event queue'', ism_smoke_event_queue bld response send_buffer a_query (ev, st)),
       (''proof audit regressions'', ism_smoke_proof_audit bld check_compressed audit_q audit_response excess pre av)]) = 0 \<longleftrightarrow>
     ism_smoke_msquic_runtime bld r1 r2 r3 r4 r5 r6 r7 r8 r9 rst)"
  using smoke_event_queue [OF assms(1-3)] smoke_adapter [OF assms(4-8)] framing_passes [OF assms(9)]
    shell_scaffold [OF assms(10-12)] smoke_audit [OF assms(13,14)] packet_validators.everparse_passes [OF assms(14)]
  unfolding link_smoke_main_iff by (simp add: generated_tests)

theorem shell_tests_pass_witness:
  "ism_smoke_event_queue pulse_build 1000000 2000000 3500000 (ready_event 0, fixture_state exact_a_query no_send) \<and>
   ism_smoke_msquic_adapter pulse_build (\<lambda>_. 1000000) (\<lambda>_. 2000000) 3500000 3500000 3500000
     (\<lambda>k. fixture_state (if k = 1 then invalid_header_query else if k = 3 then partial_length_prefix else exact_a_query)
        zero_capture) \<and>
   framing_regressions 100000 200000 demo_mem \<and>
   ism_smoke_shell_scaffold pulse_build 3500000 3500000 3500000 (\<lambda>_. 1000000) (\<lambda>_. 2000000)
     (\<lambda>k. (demo_conn, mem_write (\<lambda>_. 0) 3500000
        (if k = 0 then header_only_doq_message else if k = 7 then invalid_header_query else exact_a_query))) \<and>
   ism_smoke_proof_audit pulse_build grammar_check_compressed 3500000 1000000 3600000 3700000 (demo_conn, demo_mem)"
proof -
  have placed: "scaffold_placed pulse_build 1000000 2000000 3500000 bytes (demo_conn, mem_write (\<lambda>_. 0) 3500000 bytes)"
    if "length bytes \<le> 1000" for bytes
    using that by (intro fixture_scaffold) simp_all
  show ?thesis
    using shell_tests_pass [OF _ _ fixture_queue _ _ _ _ _ _ _ _ _ demo_audit_placed grammar_packets.packet_validators_axioms,
        of 1000000 2000000 exact_a_query no_send 3500000 "\<lambda>_. 1000000" "\<lambda>_. 2000000"
        "\<lambda>k. fixture_state (if k = 1 then invalid_header_query else if k = 3 then partial_length_prefix else exact_a_query) zero_capture"
        3500000 3500000 3500000 100000 200000 "\<lambda>_. 2000000" 3500000
        "\<lambda>k. (demo_conn, mem_write (\<lambda>_. 0) 3500000
          (if k = 0 then header_only_doq_message else if k = 7 then invalid_header_query else exact_a_query))"
        "ready_event 0" demo_mem]
    by (simp add: fixture_placed fixture_array placed header_only_facts ranges_disjoint_def)
qed

text \<open>C38. The tests of the candidate lanes return true wherever their variables stand. The table test: for
  every permutation of the slots, every capacity, every count, repeated and distinct identifiers and every
  operation, the result and the table are those of its own oracle, and so they are along its chains of operations. The table interface test:
  malformed descriptors are refused unchanged, and every representable phase is kept by lookup and close. The
  stream test: a query cut at any position, cut short, extended by a byte, of the largest length, and malformed
  calls. The response test: every length and capacity it tries through both entry points, and calls that must be
  refused without a write. The value tests: accepted, refused and overflowing fragments, and an invalid phase code.\<close>

theorem candidate_tests_pass:
  assumes "abi_placed wire_p bytes" and "stream_placed storage query excess short_prefix large_input"
    and "response_placed empty_p input guarded"
  shows "pulse_multiplexer_smoke bytes f \<and> pulse_table_abi_smoke wire_p bytes v \<and>
    pulse_stream_smoke empty_p storage query excess short_prefix large_input m \<and>
    pulse_response_smoke empty_p input guarded m \<and> pulse_value_smoke \<and> pulse_value_ffi_smoke = 0"
  using value_smoke value_ffi_smoke table_smoke table_abi_smoke [OF assms(1)] stream_smoke [OF assms(2)] response_smoke [OF assms(3)] by blast

theorem candidate_tests_pass_witness:
  "pulse_multiplexer_smoke 1000000 (table_initialize 1000000 [0, 1, 2, 3] 4 0 False undefined) \<and>
   pulse_table_abi_smoke 4096 1000000 \<lparr>av_wire = repeated_order, av_saved = repeated_order, av_mem = demo_mem\<rparr> \<and>
   pulse_stream_smoke 8192 1000000 20000 21000 22000 2000000 demo_mem \<and> pulse_response_smoke 8192 1000000 2000000 demo_mem \<and>
   pulse_value_smoke \<and> pulse_value_ffi_smoke = 0"
  by (intro candidate_tests_pass)
    (simp_all add: abi_placed_def stream_placed_def stream_array_def response_placed_def ranges_disjoint_def UINTPTR_MAX_def)

text \<open>C39. The runtime test and the connection test of the repository return true, in every build and
  wherever their variables stand. The runtime test: a query received and answered with its bytes copied, a
  completion after the received bytes are overwritten, a reset before any response and a second reset, and
  an ingress buffer that is too small. The connection test: a connection and a stream are accepted, a
  query is answered through the registered handler, a send is cancelled by an abort, slots and handles are
  released once each, streams without a slot or an ID are refused; and four malformed queries each fail and
  shut the connection down once.\<close>

theorem runtime_tests_pass:
  assumes "placed bld response 128 send_buffer 128 st" and "placed bld reset_response 128 reset_send_buffer 128 st"
    and "array_at bld st query exact_a_query" and "array_at bld st ingress (replicate 64 0)"
    and "array_at bld st reset_ingress (replicate 4 0)" and "array_at bld st partial partial_length_prefix"
    and "has_storage st" and "ranges_disjoint query 35 ingress 64" and "apart_from query 35 response send_buffer"
    and "apart_from ingress 35 response send_buffer"
    and "placed bld response 128 send_buffer 128 cst" and "array_at bld cst query exact_a_query"
    and "array_at bld cst ingress (replicate 64 0)" and "q_events (sh_queue cst) = Some es" and "2 \<le> length es"
    and "length (tr_streams (sh_ctx cst)) = 1" and "length (tr_slots (sh_ctx cst)) = 1" and "failed_codes (tr_failed (sh_ctx cst))"
    and "placed bld presponse 64 psend 64 pst" and "has_storage pst" and "failed_codes (tr_failed (sh_ctx pst))"
    and "array_at bld pst pingress area" and "length area = 64" and "array_at bld pst pquery protocol_query"
    and "ranges_disjoint pquery 20 pingress 64"
  shows "ism_smoke_msquic_runtime bld response send_buffer ingress query
      reset_response reset_send_buffer reset_ingress partial undersized st \<and>
    smoke_connection bld raw response send_buffer ingress query cst \<and>
    smoke_protocol_errors bld presponse psend pingress pquery pst"
  using smoke_runtime [OF assms(1-10)] smoke_connection_passes [OF assms(11-18,8-10)] smoke_protocol [OF assms(19-25)]
  by blast

theorem runtime_tests_pass_witness:
  "ism_smoke_msquic_runtime pulse_build 1000000 2000000 3600000 3500000 1000000 2000000 3610000 3620000 3630000
     (fixture_state exact_a_query (fixture_transport no_capture)) \<and>
   smoke_connection pulse_build smoke_cr 1000000 2000000 3600000 3500000
     (fixture_state exact_a_query (fixture_transport smoke_start)) \<and>
   smoke_protocol_errors pulse_build 1000000 2000000 3600000 3500000
     (fixture_state protocol_query (fixture_transport 0))"
proof (rule runtime_tests_pass)
  have b: "pulse_build = stable_build \<or> pulse_build = pulse_build" by simp
  have len: "length exact_a_query \<le> 1000" "length protocol_query \<le> 1000"
    by (simp_all add: exact_a_query_def protocol_query_def)
  have n: "unat (128 :: u32) \<le> 128" "unat (64 :: u32) \<le> 128" by simp_all
  have tr: "length (tr_streams (fixture_transport w)) = 1" "length (tr_slots (fixture_transport w)) = 1"
      "failed_codes (tr_failed (fixture_transport w))" for w :: 'w
    by (simp_all add: fixture_transport_def log_failed_codes)
  show "placed pulse_build 1000000 128 2000000 128 (fixture_state exact_a_query (fixture_transport no_capture))"
    "placed pulse_build 1000000 128 2000000 128 (fixture_state exact_a_query (fixture_transport no_capture))"
    "placed pulse_build 1000000 128 2000000 128 (fixture_state exact_a_query (fixture_transport smoke_start))"
    "placed pulse_build 1000000 64 2000000 64 (fixture_state protocol_query (fixture_transport (0 :: u32)))"
    by (rule fixture_placed [OF b n(1)], rule fixture_placed [OF b n(1)], rule fixture_placed [OF b n(1)],
        rule fixture_placed [OF b n(2)])
  show "array_at pulse_build (fixture_state exact_a_query (fixture_transport no_capture)) 3500000 exact_a_query"
    "array_at pulse_build (fixture_state exact_a_query (fixture_transport smoke_start)) 3500000 exact_a_query"
    "array_at pulse_build (fixture_state protocol_query (fixture_transport (0 :: u32))) 3500000 protocol_query"
    by (rule fixture_array [OF b len(1)], rule fixture_array [OF b len(1)], rule fixture_array [OF b len(2)])
  note zeros = fixture_zeros [OF b len(1)]
  show "array_at pulse_build (fixture_state exact_a_query (fixture_transport no_capture)) 3600000 (replicate 64 0)"
    "array_at pulse_build (fixture_state exact_a_query (fixture_transport no_capture)) 3610000 (replicate 4 0)"
    "array_at pulse_build (fixture_state exact_a_query (fixture_transport smoke_start)) 3600000 (replicate 64 0)"
    by (rule zeros; simp)+
  show "array_at pulse_build (fixture_state exact_a_query (fixture_transport no_capture)) 3620000 partial_length_prefix"
    using zeros [of 3620000 1] by (simp add: partial_length_prefix_def)
  show "array_at pulse_build (fixture_state protocol_query (fixture_transport (0 :: u32))) 3600000 (replicate 64 0)"
    by (rule fixture_zeros [OF b len(2)]; simp)
  show "q_events (sh_queue (fixture_state exact_a_query (fixture_transport smoke_start))) =
      Some [ready_event 0, ready_event 0, ready_event 0, ready_event 0]"
    by (rule fixture_queue)
  show "has_storage (fixture_state exact_a_query (fixture_transport no_capture))"
    "has_storage (fixture_state protocol_query (fixture_transport (0 :: u32)))"
    by (rule fixture_storage)+
qed (simp_all add: fixture_state_def fixture_transport_def log_failed_codes ranges_disjoint_def apart_from_def)

section \<open>The live programs\<close>

text \<open>C40. Whatever MsQuic answers, the four programs that drive the real library release every handle that their
  own calls opened (handles delivered to callbacks are not counted), each once and in the reverse order, on every path; for the three that return early when the library does
  not open, if a failing \<^verbatim>\<open>MsQuicOpen2\<close> leaves the table null as documented. They return 0 only if every call succeeded, and
  the stream program only if the client also saw the expected response. Its wait loop returns true exactly when one of
  its 10000 looks finds the condition met and none up to it finds a failure. Its verdict accepts exactly the
  expected response, whatever the fragments it arrives in: the server reported stream 0 and a completed send, no event
  reports a failure, the peer finished, and the bytes of all fragments together are the expected ones.\<close>

theorem live_programs_release:
  assumes "open_documented ms" and "link_main ms = (r1, t1)" and "lifecycle_main ms = (r2, t2)"
    and "listener_main ms = (r3, t3)" and "stream_main ms seen final argv = (r4, t4)"
    and "\<forall>em\<in>set evs. event_ok (fst em)" and "collected [] s" and "\<not> sm_failed s" and "\<not> sm_client_response_finished s"
  shows "(\<forall>t\<in>{t1, t2, t3, t4}. released t = rev (acquired ms t)) \<and>
    (r1 = 0 \<longleftrightarrow> succeeded ms t1) \<and> (r2 = 0 \<longleftrightarrow> succeeded ms t2) \<and> (r3 = 0 \<longleftrightarrow> succeeded ms t3) \<and>
    (r4 = 0 \<longrightarrow> succeeded ms t4 \<and> stream_smoke_ok final) \<and>
    (ism_msquic_stream_smoke_wait_for looks condition \<longleftrightarrow>
      (\<exists>k<10000. ism_msquic_stream_smoke_condition_met (looks k) condition \<and> (\<forall>j\<le>k. \<not> sm_failed (looks j)))) \<and>
    (stream_smoke_ok (client_run failed s evs) \<longleftrightarrow>
      sm_server_stream_id s = 0 \<and> sm_server_send_complete s \<and>
      (\<forall>em\<in>set evs. \<not> event_failed failed (fst em)) \<and> CLIENT_STREAM_PEER_SEND_SHUTDOWN \<in> fst ` set evs \<and>
      concat (map event_bytes evs) = expected_validated_stream_response)"
proof -
  have "ism_msquic_stream_smoke_wait_for looks condition \<longleftrightarrow>
      (\<exists>k<10000. ism_msquic_stream_smoke_condition_met (looks k) condition \<and> (\<forall>j\<le>k. \<not> sm_failed (looks j)))"
    using wait_loop_iff [of looks condition 0 10000] by (simp add: ism_msquic_stream_smoke_wait_for_def)
  with link_balanced [OF assms(1,2)] lifecycle_balanced [OF assms(1,3)] listener_balanced [OF assms(1,4)]
    stream_balanced [OF assms(5)] client_verdict [OF assms(6-9), of failed]
  show ?thesis by blast
qed

theorem live_programs_release_witness:
  "fst (listener_main demo_msquic) = 1 \<and>
   released (snd (listener_main demo_msquic)) = [(Listener, 4), (Configuration, 3), (Registration, 2), (Api, 1)] \<and>
   released (snd (stream_main demo_msquic (\<lambda>_ _. stream_smoke_start) stream_smoke_start [''smoke'', ''cert'', ''key''])) =
     [(Listener, 8), (Configuration, 5), (Configuration, 4), (Registration, 3), (Registration, 2), (Api, 1)] \<and>
   stream_smoke_ok (client_run log_failed (stream_smoke_start\<lparr>sm_server_send_complete := True\<rparr>)
     [(CLIENT_STREAM_START_COMPLETE QUIC_STATUS_SUCCESS, demo_mem),
      (CLIENT_STREAM_RECEIVE (Some [(3500000, 2), (3500002, 30)]) 2, mem_write demo_mem 3500000 expected_validated_stream_response),
      (CLIENT_STREAM_RECEIVE (Some [(3500032, 3)]) 1, mem_write demo_mem 3500000 expected_validated_stream_response),
      (CLIENT_STREAM_PEER_SEND_SHUTDOWN, demo_mem)])"
proof -
  note runs = link_main_def lifecycle_main_def lifecycle_body_def lifecycle_cleanup_def listener_main_def listener_body_def
    listener_cleanup_def stream_main_def stream_open_part_def stream_cleanup_def stream_vars_start_def
    ism_msquic_stream_smoke_load_server_credentials_def ism_msquic_stream_smoke_load_client_credentials_def
    msquic_start_def invoke_def open_failed_def address_failed_def demo_msquic_def acquired_def opens.simps got_handle_def log_failed_def
  let ?m = "mem_write demo_mem 3500000 expected_validated_stream_response"
  let ?s = "stream_smoke_start\<lparr>sm_server_send_complete := True\<rparr>"
  let ?evs = "[(CLIENT_STREAM_START_COMPLETE QUIC_STATUS_SUCCESS, demo_mem),
      (CLIENT_STREAM_RECEIVE (Some [(3500000, 2), (3500002, 30)]) 2, ?m),
      (CLIENT_STREAM_RECEIVE (Some [(3500032, 3)]) 1, ?m), (CLIENT_STREAM_PEER_SEND_SHUTDOWN, demo_mem)]"
  let ?stream = "stream_main demo_msquic (\<lambda>_ _. stream_smoke_start) stream_smoke_start [''smoke'', ''cert'', ''key'']"
  have ok: "\<forall>em\<in>set ?evs. event_ok (fst em)" by (simp add: event_ok_def)
  have start: "collected [] ?s" "\<not> sm_failed ?s" "\<not> sm_client_response_finished ?s"
    by (simp_all add: collected_def stream_smoke_start_def)
  have "open_documented demo_msquic" by (simp add: open_documented_def demo_msquic_def log_failed_def)
  note P = live_programs_release [OF this surjective_pairing surjective_pairing surjective_pairing surjective_pairing ok start,
      of "\<lambda>_ _. stream_smoke_start" stream_smoke_start "[''smoke'', ''cert'', ''key'']" "\<lambda>_. ?s"
        ISM_STREAM_SMOKE_WAIT_CLIENT_CONNECTED log_failed]
  have "released (snd (listener_main demo_msquic)) = rev (acquired demo_msquic (snd (listener_main demo_msquic)))"
    "released (snd ?stream) = rev (acquired demo_msquic (snd ?stream))"
    using P by simp_all
  moreover have "length expected_validated_stream_response = 2 + (30 + 3)"
    by (simp add: expected_validated_stream_response_def)
  then have "mem_bytes ?m 3500000 (2 + (30 + 3)) = expected_validated_stream_response"
    using mem_bytes_write_same [of demo_mem 3500000 expected_validated_stream_response] by metis
  then have "concat (map event_bytes ?evs) = expected_validated_stream_response"
    unfolding mem_bytes_add by (simp add: event_bytes_def response_bytes_def buffer_bytes_def)
  then have "stream_smoke_ok (client_run log_failed ?s ?evs)"
    using P by (simp add: stream_smoke_start_def event_failed_def log_failed_def)
  ultimately show ?thesis by (simp add: runs)
qed

end
